(* ===== verification/Prelude.thy ===== *)
theory Prelude
  imports Main "HOL-Library.Word"
begin

text \<open>
  Shared vocabulary of the development: the machine-integer operations, the
  error values, byte lists and bit lemmas that every component uses.

  The program targets 64-bit Windows (x64 and ARM64), so \<open>std::size_t\<close> and
  \<open>std::uint64_t\<close> have the same width.  Offsets, lengths and counts are
  natural numbers, and each unsigned operation of the source whose result can
  leave the 64-bit range is written with \<open>add64\<close>, \<open>sub64\<close> or \<open>mul64\<close>, which
  wrap as the C++ operators do.  The collection \<open>u64_arith\<close> holds the
  exactness laws of these operations: inside the range they are the ordinary
  operations.  Bitmap words, checksums and bytes are machine words.
\<close>

unbundle bit_operations_syntax

named_theorems u64_arith "exactness of the wrapping 64-bit operations"
named_theorems err_simps "unfolding of the error monad"

type_synonym byte = "8 word"
type_synonym ntstatus = int
type_synonym guid = "128 word"

text \<open>Wide strings hold UTF-16 code units; \<open>wide\<close> is a literal \<open>L"..."\<close>.\<close>

type_synonym wstring = "16 word list"

definition wide :: "string \<Rightarrow> wstring" where
  "wide s = map (\<lambda>ch. word_of_nat (of_char ch)) s"

section \<open>Wrapping 64-bit arithmetic\<close>

abbreviation two64 :: nat where
  "two64 \<equiv> 18446744073709551616"

definition add64 :: "nat \<Rightarrow> nat \<Rightarrow> nat" where
  "add64 a b = (a + b) mod two64"

definition sub64 :: "nat \<Rightarrow> nat \<Rightarrow> nat" where
  "sub64 a b = (a + two64 - b) mod two64"

definition mul64 :: "nat \<Rightarrow> nat \<Rightarrow> nat" where
  "mul64 a b = (a * b) mod two64"

lemma add64_exact [u64_arith]: "a + b < two64 \<Longrightarrow> add64 a b = a + b"
  by (simp add: add64_def)

lemma sub64_exact [u64_arith]: "b \<le> a \<Longrightarrow> a < two64 \<Longrightarrow> sub64 a b = a - b"
  by (simp add: sub64_def mod_if)

lemma mul64_exact [u64_arith]: "a * b < two64 \<Longrightarrow> mul64 a b = a * b"
  by (simp add: mul64_def)

lemma add64_lt [simp]: "add64 a b < two64"
  by (simp add: add64_def)

lemma sub64_lt [simp]: "sub64 a b < two64"
  by (simp add: sub64_def)

lemma mul64_lt [simp]: "mul64 a b < two64"
  by (simp add: mul64_def)

section \<open>Errors as values\<close>

text \<open>
  \<open>FastFail\<close> is \<open>__fastfail\<close> (the process ends), the others are C++
  exceptions: \<open>BadAlloc\<close> is \<open>std::bad_alloc\<close>, \<open>RuntimeError\<close> and
  \<open>InvalidArgument\<close> carry a short form of the message, and \<open>SystemError\<close> is
  what \<open>WinError\<close> throws, with its Win32 code.
\<close>

datatype error =
    FastFail
  | BadAlloc
  | RuntimeError string
  | InvalidArgument string
  | SystemError nat string

type_synonym 'a result = "error + 'a"

definition ebind :: "'e + 'a \<Rightarrow> ('a \<Rightarrow> 'e + 'b) \<Rightarrow> 'e + 'b" where
  "ebind m f = (case m of Inl e \<Rightarrow> Inl e | Inr x \<Rightarrow> f x)"

lemma ebind_simps [simp, err_simps]:
  "ebind (Inl e) f = Inl e"
  "ebind (Inr x) f = f x"
  by (simp_all add: ebind_def)

lemma ebind_eq_Inr [err_simps]:
  "ebind m f = Inr y \<longleftrightarrow> (\<exists>x. m = Inr x \<and> f x = Inr y)"
  by (cases m) auto

lemma ebind_eq_Inl [err_simps]:
  "ebind m f = Inl e \<longleftrightarrow> m = Inl e \<or> (\<exists>x. m = Inr x \<and> f x = Inl e)"
  by (cases m) auto

lemma ebind_Inr_ret [simp]: "ebind m Inr = m"
  by (cases m) auto

text \<open>A chain of checks succeeds exactly when every check passes.\<close>

lemma checks_Inr [err_simps]:
  "(case x of Inl e \<Rightarrow> Inl (f e) | Inr y \<Rightarrow> g y) = Inr z \<longleftrightarrow> (\<exists>y. x = Inr y \<and> g y = Inr z)"
  "(case p of None \<Rightarrow> Inl e | Some y \<Rightarrow> h y) = Inr z \<longleftrightarrow> (\<exists>y. p = Some y \<and> h y = Inr z)"
  "(if b then Inl e else m) = Inr z \<longleftrightarrow> \<not> b \<and> m = Inr z"
  "(if b then m else Inl e) = Inr z \<longleftrightarrow> b \<and> m = Inr z"
  by (auto split: sum.splits option.splits)

definition guard_err :: "bool \<Rightarrow> 'e \<Rightarrow> 'e + unit" where
  "guard_err ok e = (if ok then Inr () else Inl e)"

lemma guard_err_eq [simp, err_simps]:
  "guard_err ok e = Inr u \<longleftrightarrow> ok"
  "guard_err ok e = Inl e' \<longleftrightarrow> \<not> ok \<and> e' = e"
  by (auto simp: guard_err_def)

section \<open>Bits, words and population counts\<close>

definition popcount :: "'a::len word \<Rightarrow> nat" where
  "popcount w = length (filter (bit w) [0..<LENGTH('a)])"

lemma finite_bits [simp]: "finite {i. bit (w :: 'a::len word) i}"
  by (rule finite_subset [of _ "{..<LENGTH('a)}"]) (auto dest: bit_imp_le_length)

lemma popcount_eq_card: "popcount (w :: 'a::len word) = card {i. bit w i}"
proof -
  have "set (filter (bit w) [0..<LENGTH('a)]) = {i. bit w i}"
    by (auto dest: bit_imp_le_length)
  then show ?thesis
    unfolding popcount_def
    by (metis distinct_card distinct_filter distinct_upt)
qed

lemma popcount_le: "popcount (w :: 'a::len word) \<le> LENGTH('a)"
  by (simp add: popcount_def) (metis length_filter_le length_upt minus_nat.diff_0)

lemma word_eq_0_iff_bits: "w = 0 \<longleftrightarrow> (\<forall>i. \<not> bit (w :: 'a::len word) i)"
  by (auto intro: bit_word_eqI)

lemma word_neq_0_bit: "w \<noteq> 0 \<longleftrightarrow> (\<exists>i<LENGTH('a). bit (w :: 'a::len word) i)"
  by (metis bit_imp_le_length word_eq_0_iff_bits)

section \<open>Byte lists\<close>

text \<open>
  \<open>le_word bs\<close> is the integer whose little-endian object representation is
  \<open>bs\<close> (what \<open>std::memcpy\<close> into an integer gives on the supported hosts), and
  \<open>le_bytes n w\<close> the \<open>n\<close>-byte little-endian representation of a word.
\<close>

fun le_word :: "byte list \<Rightarrow> 'a::len word" where
  "le_word [] = 0"
| "le_word (b # bs) = ucast b OR push_bit 8 (le_word bs)"

definition le_bytes :: "nat \<Rightarrow> 'a::len word \<Rightarrow> byte list" where
  "le_bytes n w = map (\<lambda>i. ucast (drop_bit (8 * i) w)) [0..<n]"

lemma length_le_bytes [simp]: "length (le_bytes n w) = n"
  by (simp add: le_bytes_def)

lemma bit_le_word:
  "bit (le_word bs :: 'a::len word) i \<longleftrightarrow>
     i < LENGTH('a) \<and> i div 8 < length bs \<and> bit (bs ! (i div 8)) (i mod 8)"
proof (induction bs arbitrary: i)
  case Nil
  then show ?case by simp
next
  case (Cons b bs)
  show ?case
  proof (cases "i < 8")
    case True
    then show ?thesis
      by (auto simp: bit_or_iff bit_push_bit_iff bit_ucast_iff dest: bit_imp_le_length)
  next
    case False
    then have d: "i div 8 = Suc ((i - 8) div 8)" and m: "i mod 8 = (i - 8) mod 8"
      by (simp_all add: le_div_geq le_mod_geq)
    have "\<not> bit b i" using False bit_imp_le_length [of b i] by auto
    then show ?thesis
      using False Cons.IH [of "i - 8"]
      by (auto simp: bit_or_iff bit_push_bit_iff bit_ucast_iff d m dest: bit_imp_le_length)
  qed
qed

lemma nth_le_bytes [simp]: "i < n \<Longrightarrow> le_bytes n w ! i = ucast (drop_bit (8 * i) w)"
  by (simp add: le_bytes_def)

text \<open>Encoding and decoding a word are inverse to each other.\<close>

lemma le_word_le_bytes:
  assumes "LENGTH('a::len) = 8 * n"
  shows "le_word (le_bytes n (w :: 'a word)) = w"
proof (rule bit_word_eqI)
  fix i assume "i < LENGTH('a)"
  with assms show "bit (le_word (le_bytes n w) :: 'a word) i = bit w i"
    by (auto simp: bit_le_word bit_ucast_iff bit_drop_bit_eq div_mult_mod_eq
        less_mult_imp_div_less mult.commute)
qed

text \<open>\<open>memset\<close> and \<open>memcpy\<close> into a buffer at a position.\<close>

definition overwrite :: "'a list \<Rightarrow> nat \<Rightarrow> 'a list \<Rightarrow> 'a list" where
  "overwrite buf pos src = take pos buf @ src @ drop (pos + length src) buf"

lemma length_overwrite [simp]:
  "pos + length src \<le> length buf \<Longrightarrow> length (overwrite buf pos src) = length buf"
  by (simp add: overwrite_def)

lemma nth_overwrite:
  assumes "pos + length src \<le> length buf" "i < length buf"
  shows "overwrite buf pos src ! i =
    (if pos \<le> i \<and> i < pos + length src then src ! (i - pos) else buf ! i)"
  using assms by (auto simp: overwrite_def nth_append min_def)

text \<open>The bytes of an image in a range.\<close>

definition image_bytes :: "(nat \<Rightarrow> byte) \<Rightarrow> nat \<Rightarrow> nat \<Rightarrow> byte list" where
  "image_bytes c off n = map c [off..<off + n]"

lemma length_image_bytes [simp]: "length (image_bytes c off n) = n"
  by (simp add: image_bytes_def)

lemma nth_image_bytes [simp]: "i < n \<Longrightarrow> image_bytes c off n ! i = c (off + i)"
  by (simp add: image_bytes_def)

lemma image_bytes_append:
  "image_bytes c off m @ image_bytes c (off + m) n = image_bytes c off (m + n)"
  by (rule nth_equalityI) (auto simp: nth_append add.assoc)

lemma image_bytes_cong:
  "(\<And>i. i < n \<Longrightarrow> c (off + i) = c' (off + i)) \<Longrightarrow> image_bytes c off n = image_bytes c' off n"
  by (rule nth_equalityI) auto

lemma take_image_bytes [simp]:
  "take k (image_bytes c off n) = image_bytes c off (min k n)"
  by (rule nth_equalityI) auto

lemma drop_image_bytes [simp]:
  "drop k (image_bytes c off n) = image_bytes c (off + k) (n - k)"
  by (rule nth_equalityI) (auto simp: add.assoc)

section \<open>Status codes\<close>

definition NT_SUCCESS :: "ntstatus \<Rightarrow> bool" where
  "NT_SUCCESS st \<longleftrightarrow> 0 \<le> st"

abbreviation (input) STATUS_SUCCESS :: ntstatus where
  "STATUS_SUCCESS \<equiv> 0"

abbreviation (input) STATUS_INVALID_PARAMETER :: ntstatus where
  "STATUS_INVALID_PARAMETER \<equiv> - 1073741811"

lemma NT_SUCCESS_simps [simp]:
  "NT_SUCCESS STATUS_SUCCESS"
  "\<not> NT_SUCCESS STATUS_INVALID_PARAMETER"
  by (simp_all add: NT_SUCCESS_def)

section \<open>Ceiling division, as the source writes it\<close>

definition div_up :: "nat \<Rightarrow> nat \<Rightarrow> nat" where
  "div_up n d = n div d + (if n mod d \<noteq> 0 then 1 else 0)"

lemma div_up_less:
  assumes "0 < d"
  shows "i < div_up n d \<longleftrightarrow> i * d < n"
proof -
  define q r where "q = n div d" and "r = n mod d"
  have n: "n = q * d + r" and r: "r < d"
    using assms by (simp_all add: q_def r_def)
  consider "i < q" | "i = q" | "Suc q \<le> i" by linarith
  then have "i * d < q * d + r \<longleftrightarrow> i < q + (if r \<noteq> 0 then 1 else 0)"
  proof cases
    case 1
    then have "i * d < q * d + r" using assms by (simp add: trans_less_add1)
    with 1 show ?thesis by simp
  next
    case 3
    then have "q * d + d \<le> i * d" using mult_le_mono1 [of "Suc q" i d] by simp
    with 3 r show ?thesis by simp
  qed simp
  then show ?thesis by (simp add: div_up_def q_def r_def)
qed

lemma div_up_bound: "0 < d \<Longrightarrow> n \<le> div_up n d * d"
  using div_up_less [of d "div_up n d" n] by simp

text \<open>Rounding down to a multiple.\<close>

lemma round_down:
  fixes x k :: nat
  assumes "0 < k"
  shows "(x - x mod k) mod k = 0" "x - x mod k + x mod k = x" "x < x - x mod k + k" "x - x mod k \<le> x"
proof -
  have "x mod k \<le> x" "x mod k < k" using assms by simp_all
  then show "x - x mod k + x mod k = x" "x < x - x mod k + k" "x - x mod k \<le> x" by linarith+
  show "(x - x mod k) mod k = 0" by (simp add: minus_mod_eq_mult_div)
qed

end
