(* ===== verification/CountZeros.thy ===== *)
theory CountZeros
  imports Prelude
begin

text \<open>
  \<open>src/modules/count_zeros.ixx\<close>: the index of the lowest set bit of a word.
  \<open>_BitScanForward64\<close> scans from the low end; its result is specified only for
  nonzero words, which is the precondition every caller establishes.
\<close>

definition CountTrailingZeros :: "64 word \<Rightarrow> nat" where
  "CountTrailingZeros value = length (takeWhile (\<lambda>i. \<not> bit value i) [0..<64])"

lemma CountTrailingZeros_least:
  assumes "w \<noteq> 0"
  shows "CountTrailingZeros w < 64"
    and "bit w (CountTrailingZeros w)"
    and "\<And>i. i < CountTrailingZeros w \<Longrightarrow> \<not> bit w i"
proof -
  let ?P = "\<lambda>i. \<not> bit w i"
  let ?n = "CountTrailingZeros w"
  from assms obtain j where j: "j < 64" "bit w j"
    by (auto simp: word_neq_0_bit)
  have le: "?n \<le> 64"
    using length_takeWhile_le [of ?P "[0..<64]"] by (simp add: CountTrailingZeros_def)
  have before: "\<not> bit w i" if "i < ?n" for i
  proof -
    have "takeWhile ?P [0..<64] ! i = i"
      using that le by (subst takeWhile_nth) (auto simp: CountTrailingZeros_def)
    moreover have "takeWhile ?P [0..<64] ! i \<in> set (takeWhile ?P [0..<64])"
      using that by (simp add: CountTrailingZeros_def)
    ultimately show ?thesis by (metis set_takeWhileD)
  qed
  show lt: "?n < 64"
  proof (rule ccontr)
    assume "\<not> ?n < 64"
    with j have "j < ?n" by simp
    with before j show False by blast
  qed
  then show "bit w ?n"
    using nth_length_takeWhile [of ?P "[0..<64]"] by (simp add: CountTrailingZeros_def)
  show "\<And>i. i < ?n \<Longrightarrow> \<not> bit w i" by (rule before)
qed

lemma CountTrailingZeros_eqI:
  assumes "bit w n" "\<And>i. i < n \<Longrightarrow> \<not> bit w i"
  shows "CountTrailingZeros w = n"
proof -
  have "w \<noteq> 0" using assms(1) by auto
  then show ?thesis
    using CountTrailingZeros_least [of w] assms by (metis linorder_neqE_nat)
qed

lemma CountTrailingZeros_power: "n < 64 \<Longrightarrow> CountTrailingZeros (push_bit n 1) = n"
  by (rule CountTrailingZeros_eqI) (auto simp: bit_exp_iff)

end
