(* ===== verification/AllocBitmap.thy ===== *)
theory AllocBitmap
  imports CountZeros
begin

text \<open>
  \<open>src/modules/windows_block_device.ixx\<close>, the allocation bitmap of a volume:
  \<open>LoadBitmapWord\<close>, \<open>struct AllocationBitmap\<close> and its member functions.  The
  bitmap keeps the \<open>VOLUME_BITMAP_BUFFER\<close> that the file system filled, a
  16-byte header followed by one bit per cluster, low bit first.  The lemmas
  show that the word-at-a-time searches find exactly the first matching cluster
  (or none), that marking clusters free clears exactly their bits, and that
  synthesizing free clusters zeroes exactly the bytes of the free clusters the
  bitmap describes.
\<close>

section \<open>The model\<close>

abbreviation (input) kVolumeBitmapHeaderSize :: nat where "kVolumeBitmapHeaderSize \<equiv> 16"

definition LoadBitmapWord :: "byte list \<Rightarrow> nat \<Rightarrow> 64 word" where
  "LoadBitmapWord bytes byte_count =
     (if 8 \<le> byte_count then le_word (take 8 bytes) else le_word (take byte_count bytes))"

record AllocationBitmap =
  cluster_size :: nat
  cluster_shift :: nat
  cluster_count :: nat
  storage :: "byte list"

definition BitmapData :: "AllocationBitmap \<Rightarrow> byte list" where
  "BitmapData b = drop kVolumeBitmapHeaderSize (storage b)"

definition BitmapByteCount :: "AllocationBitmap \<Rightarrow> nat" where
  "BitmapByteCount b = cluster_count b div 8 + (if cluster_count b mod 8 \<noteq> 0 then 1 else 0)"

definition MarkClustersFree :: "AllocationBitmap \<Rightarrow> nat \<Rightarrow> nat \<Rightarrow> AllocationBitmap" where
  "MarkClustersFree b first limit =
     (let last_cluster = limit - 1;
          first_byte = first div 8;
          last_byte = last_cluster div 8;
          first_mask = push_bit (first mod 8) (- 1 :: byte);
          last_mask = drop_bit (7 - last_cluster mod 8) (- 1 :: byte);
          i = kVolumeBitmapHeaderSize + first_byte;
          j = kVolumeBitmapHeaderSize + last_byte;
          s = storage b
      in if first_byte = last_byte
         then b\<lparr>storage := s[i := s ! i AND NOT (first_mask AND last_mask)]\<rparr>
         else let s1 = s[i := s ! i AND NOT first_mask];
                  s2 = overwrite s1 (i + 1) (replicate (last_byte - first_byte - 1) 0)
              in b\<lparr>storage := s2[j := s2 ! j AND NOT last_mask]\<rparr>)"

text \<open>
  \<open>FindCluster\<close> is a template over the sought bit and over the result type.
  The branches the result type selects at compile time are the first three
  arguments: what a match in a word gives, what no match gives, and the scan of
  the complete words between the first and the final word.
\<close>

definition nonmatching_word :: "bool \<Rightarrow> 64 word" where
  "nonmatching_word allocated = (if allocated then 0 else - 1)"

definition FindCluster ::
    "(nat \<Rightarrow> 64 word \<Rightarrow> 'r) \<Rightarrow> 'r \<Rightarrow> (byte list \<Rightarrow> nat \<Rightarrow> nat \<Rightarrow> 'r option) \<Rightarrow>
     bool \<Rightarrow> byte list \<Rightarrow> nat \<Rightarrow> nat \<Rightarrow> nat \<Rightarrow> 'r" where
  "FindCluster found no_match scan allocated bytes byte_count first limit =
     (let first_bit = first mod 64;
          first_word = first - first_bit;
          first_word_offset = first_word div 8;
          first_matching =
            (LoadBitmapWord (drop first_word_offset bytes) (byte_count - first_word_offset)
               XOR nonmatching_word allocated) AND push_bit first_bit (- 1)
      in if limit - first \<le> 64 - first_bit then
           let matching = first_matching AND drop_bit (64 - (limit - first_word)) (- 1)
           in if matching \<noteq> 0 then found first_word matching else no_match
         else if first_matching \<noteq> 0 then found first_word first_matching
         else
           let word_begin = add64 first_word 64;
               word_limit = limit - limit mod 64;
               complete_words_offset = word_begin div 8;
               complete_words_size = (word_limit - word_begin) div 8
           in case scan (drop complete_words_offset bytes) word_begin complete_words_size of
                Some r \<Rightarrow> r
              | None \<Rightarrow>
                  if word_limit \<noteq> limit then
                    let final_word_offset = word_limit div 8;
                        m = drop_bit (64 - (limit - word_limit)) (- 1);
                        matching =
                          (LoadBitmapWord (drop final_word_offset bytes)
                             (byte_count - final_word_offset)
                             XOR nonmatching_word allocated) AND m
                    in if matching \<noteq> 0 then found word_limit matching else no_match
                  else no_match)"

text \<open>\<open>FindCluster<allocated, UINT64>\<close>: the complete words are loaded one by one.\<close>

fun scan_words :: "bool \<Rightarrow> byte list \<Rightarrow> nat \<Rightarrow> nat \<Rightarrow> nat option" where
  "scan_words allocated cursor word_begin size0 =
     (if size0 < 8 then None
      else let matching = LoadBitmapWord cursor 8 XOR nonmatching_word allocated
           in if matching \<noteq> 0 then Some (add64 word_begin (CountTrailingZeros matching))
              else scan_words allocated (drop 8 cursor) (add64 word_begin 64) (size0 - 8))"

declare scan_words.simps [simp del]

definition FindCluster_index :: "bool \<Rightarrow> byte list \<Rightarrow> nat \<Rightarrow> nat \<Rightarrow> nat \<Rightarrow> nat" where
  "FindCluster_index allocated bytes byte_count first limit =
     FindCluster (\<lambda>word_begin matching. add64 word_begin (CountTrailingZeros matching)) limit
       (scan_words allocated) allocated bytes byte_count first limit"

text \<open>
  \<open>FindCluster<allocated, bool>\<close>: the complete words are compared in blocks of
  at most 128 bytes with a constant array of nonmatching bytes; \<open>std::mismatch\<close>
  stops before the end exactly when some byte differs.
\<close>

function scan_blocks :: "bool \<Rightarrow> byte list \<Rightarrow> nat \<Rightarrow> bool option" where
  "scan_blocks allocated cursor remaining =
     (if remaining = 0 then None
      else let count = min remaining 128;
               nonmatching_bytes = replicate 128 (if allocated then 0 else - 1)
           in if take count cursor \<noteq> take count nonmatching_bytes then Some True
              else scan_blocks allocated (drop count cursor) (remaining - count))"
  by pat_completeness auto

termination by (relation "measure (\<lambda>(_, _, r). r)") auto

declare scan_blocks.simps [simp del]

definition FindCluster_any :: "bool \<Rightarrow> byte list \<Rightarrow> nat \<Rightarrow> nat \<Rightarrow> nat \<Rightarrow> bool" where
  "FindCluster_any allocated bytes byte_count first limit =
     FindCluster (\<lambda>_ _. True) False (\<lambda>cursor _ n. scan_blocks allocated cursor n)
       allocated bytes byte_count first limit"

definition FindNextCluster :: "bool \<Rightarrow> AllocationBitmap \<Rightarrow> nat \<Rightarrow> nat \<Rightarrow> nat" where
  "FindNextCluster allocated b first limit =
     (if first = limit then limit
      else FindCluster_index allocated (BitmapData b) (BitmapByteCount b) first limit)"

definition HasAllocatedClusters :: "AllocationBitmap \<Rightarrow> nat \<Rightarrow> nat \<Rightarrow> bool" where
  "HasAllocatedClusters b offset len =
     (let first_cluster = drop_bit (cluster_shift b) offset;
          last_cluster = drop_bit (cluster_shift b) (add64 offset (len - 1))
      in if cluster_count b \<le> last_cluster then True
         else FindCluster_any True (BitmapData b) (BitmapByteCount b)
                first_cluster (last_cluster + 1))"

text \<open>
  The loop of \<open>SynthesizeFreeClusters\<close> ends only because each search moves
  forward, so it is an optional recursion; \<open>SynthesizeFreeClusters_total\<close> below
  shows that it returns.
\<close>

partial_function (option) synthesize_loop ::
    "byte list \<Rightarrow> nat \<Rightarrow> nat \<Rightarrow> nat \<Rightarrow> nat \<Rightarrow> nat \<Rightarrow> nat \<Rightarrow> byte list \<Rightarrow> byte list option" where
  "synthesize_loop bytes byte_count shift offset end1 limit cluster outp =
     (if cluster < limit then
        let free_cluster = FindCluster_index False bytes byte_count cluster limit
        in if free_cluster = limit then Some outp
           else let cluster' = FindCluster_index True bytes byte_count free_cluster limit;
                    free_begin = max offset (push_bit shift free_cluster mod two64);
                    free_end = min end1 (push_bit shift cluster' mod two64)
                in synthesize_loop bytes byte_count shift offset end1 limit cluster'
                     (overwrite outp (free_begin - offset)
                        (replicate (sub64 free_end free_begin) 0))
      else Some outp)"

definition SynthesizeFreeClusters :: "AllocationBitmap \<Rightarrow> byte list \<Rightarrow> nat \<Rightarrow> byte list option" where
  "SynthesizeFreeClusters b outp offset =
     (let shift = cluster_shift b;
          end1 = add64 offset (length outp);
          first_cluster = drop_bit shift offset;
          limit = min (cluster_count b) (add64 (drop_bit shift (end1 - 1)) 1)
      in synthesize_loop (BitmapData b) (BitmapByteCount b) shift offset end1 limit
           first_cluster outp)"


section \<open>Cluster bits\<close>

text \<open>The bit of a cluster in the bitmap data, and the searched-for predicate.\<close>

definition cluster_bit :: "byte list \<Rightarrow> nat \<Rightarrow> bool" where
  "cluster_bit bytes c \<longleftrightarrow> c div 8 < length bytes \<and> bit (bytes ! (c div 8)) (c mod 8)"

definition is_first :: "(nat \<Rightarrow> bool) \<Rightarrow> nat \<Rightarrow> nat \<Rightarrow> nat \<Rightarrow> bool" where
  "is_first P a b r \<longleftrightarrow> a \<le> r \<and> r \<le> b \<and> (\<forall>c. a \<le> c \<and> c < r \<longrightarrow> \<not> P c) \<and> (r < b \<longrightarrow> P r)"

lemma is_firstD:
  assumes "is_first P a b r"
  shows "a \<le> r" "r \<le> b" "a \<le> c \<Longrightarrow> c < r \<Longrightarrow> \<not> P c" "r < b \<Longrightarrow> P r"
  using assms by (auto simp: is_first_def)

lemma is_first_unique: "is_first P a b r \<Longrightarrow> is_first P a b r' \<Longrightarrow> r = r'"
  using is_firstD [of P a b r] is_firstD [of P a b r'] by (metis linorder_neqE_nat order.strict_trans2)

lemma is_first_shift:
  assumes "\<And>c. a \<le> c \<Longrightarrow> c < m \<Longrightarrow> \<not> P c" "is_first P m b r" "a \<le> m"
  shows "is_first P a b r"
proof -
  have "\<not> P c" if "a \<le> c" "c < r" for c
    using assms(1) [of c] is_firstD(3) [OF assms(2), of c] that by (cases "c < m") auto
  moreover have "a \<le> r" "r \<le> b" "r < b \<longrightarrow> P r"
    using is_firstD(1,2,4) [OF assms(2)] assms(3) by linarith+
  ultimately show ?thesis unfolding is_first_def by blast
qed

lemma bit_LoadBitmapWord:
  assumes "w mod 64 = 0" "n \<le> length bytes"
  shows "bit (LoadBitmapWord (drop (w div 8) bytes) (n - w div 8)) i \<longleftrightarrow>
           i < 64 \<and> cluster_bit (take n bytes) (w + i)"
proof -
  have "8 dvd w" using assms(1) dvd_trans [of 8 64 w] by (simp add: mod_0_imp_dvd)
  then obtain k where w: "w = 8 * k" by blast
  have d: "(w + i) div 8 = w div 8 + i div 8" and m: "(w + i) mod 8 = i mod 8"
    unfolding w by simp_all
  have i8: "i < 64 \<Longrightarrow> i div 8 < 8" by (simp add: div_less_iff_less_mult)
  show ?thesis
    unfolding cluster_bit_def d m LoadBitmapWord_def using i8 assms(2)
    by (auto simp: bit_le_word less_diff_conv add.commute)
qed

lemma LoadBitmapWord_8:
  assumes "8 \<le> n"
  shows "LoadBitmapWord bytes 8 = LoadBitmapWord bytes n"
  using assms by (simp add: LoadBitmapWord_def)

text \<open>What a word of matches says about the clusters it stands for.\<close>

definition word_matches :: "(nat \<Rightarrow> bool) \<Rightarrow> nat \<Rightarrow> nat \<Rightarrow> nat \<Rightarrow> 64 word \<Rightarrow> bool" where
  "word_matches P w lo hi m \<longleftrightarrow> hi \<le> w + 64 \<and> w \<le> lo \<and>
     (\<forall>i. bit m i \<longleftrightarrow> lo \<le> w + i \<and> w + i < hi \<and> P (w + i))"

lemma word_matches_none:
  assumes "word_matches P w lo hi 0" "lo \<le> c" "c < hi"
  shows "\<not> P c"
proof -
  have "w + (c - w) = c" using assms by (simp add: word_matches_def)
  then show ?thesis using assms by (auto simp: word_matches_def dest: spec [of _ "c - w"])
qed

lemma word_matches_some:
  assumes "word_matches P w lo hi m" "m \<noteq> 0" "hi \<le> b" "b < two64"
  shows "is_first P lo b (add64 w (CountTrailingZeros m))"
    and "\<exists>c. lo \<le> c \<and> c < hi \<and> P c"
proof -
  let ?k = "CountTrailingZeros m"
  note k = CountTrailingZeros_least [OF assms(2)]
  have *: "lo \<le> w + ?k" "w + ?k < hi" "P (w + ?k)"
    using assms(1) k(2) by (auto simp: word_matches_def)
  have no: "\<not> P c" if "lo \<le> c" "c < w + ?k" for c
  proof -
    have "w \<le> lo" using assms(1) by (simp add: word_matches_def)
    then have "w + (c - w) = c" "c - w < ?k" using that by linarith+
    moreover have "c < hi" using that *(2) by simp
    moreover have "bit m (c - w) \<longleftrightarrow> lo \<le> w + (c - w) \<and> w + (c - w) < hi \<and> P (w + (c - w))"
      using assms(1) unfolding word_matches_def by blast
    ultimately show ?thesis using k(3) [of "c - w"] that(1) by simp
  qed
  have "add64 w ?k = w + ?k" using *(2) assms(3,4) by (simp add: u64_arith)
  then show "is_first P lo b (add64 w ?k)" using * assms(3) no unfolding is_first_def by (simp add: less_imp_le order.trans)
  show "\<exists>c. lo \<le> c \<and> c < hi \<and> P c" using * by blast
qed

definition sought :: "bool \<Rightarrow> byte list \<Rightarrow> nat \<Rightarrow> bool" where
  "sought allocated bytes c \<longleftrightarrow> cluster_bit bytes c = allocated"

lemma bit_low_mask: "hi \<le> 64 \<Longrightarrow> bit (drop_bit (64 - hi) (- 1) :: 64 word) i \<longleftrightarrow> i < hi"
  by (auto simp: bit_mask_iff)

lemma bit_high_mask: "bit (push_bit lo (- 1) :: 64 word) i \<longleftrightarrow> lo \<le> i \<and> i < 64"
  by (auto simp: bit_push_bit_iff bit_not_iff bit_mask_iff)

abbreviation loaded :: "bool \<Rightarrow> byte list \<Rightarrow> nat \<Rightarrow> nat \<Rightarrow> 64 word" where
  "loaded allocated bytes n w \<equiv>
     LoadBitmapWord (drop (w div 8) bytes) (n - w div 8) XOR nonmatching_word allocated"

lemma bit_matching:
  assumes "w mod 64 = 0" "n \<le> length bytes"
  shows "bit (loaded allocated bytes n w) i \<longleftrightarrow>
           i < 64 \<and> sought allocated (take n bytes) (w + i)"
  using bit_LoadBitmapWord [OF assms, of i]
  by (auto simp: bit_xor_iff nonmatching_word_def sought_def)

lemma matching_whole:
  assumes "w mod 64 = 0" "n \<le> length bytes"
  shows "word_matches (sought allocated (take n bytes)) w w (w + 64) (loaded allocated bytes n w)"
  unfolding word_matches_def bit_matching [OF assms] by auto

lemma matching_from:
  assumes "w mod 64 = 0" "n \<le> length bytes"
  shows "word_matches (sought allocated (take n bytes)) w (w + lo) (w + 64)
     (loaded allocated bytes n w AND push_bit lo (- 1))"
  unfolding word_matches_def bit_and_iff bit_matching [OF assms] bit_high_mask by auto

lemma matching_to:
  assumes "word_matches P w lo (w + 64) m" "k \<le> 64"
  shows "word_matches P w lo (w + k) (m AND drop_bit (64 - k) (- 1))"
proof -
  have "bit m i \<and> i < k \<longleftrightarrow> lo \<le> w + i \<and> w + i < w + k \<and> P (w + i)" for i
  proof -
    have "bit m i \<longleftrightarrow> lo \<le> w + i \<and> w + i < w + 64 \<and> P (w + i)"
      using assms(1) unfolding word_matches_def by blast
    then show ?thesis using assms(2) by auto
  qed
  then show ?thesis
    using assms unfolding word_matches_def bit_and_iff bit_low_mask [OF assms(2)] by simp
qed

section \<open>The searches\<close>

lemma scan_words_spec:
  assumes "word_begin mod 64 = 0" "word_begin + 8 * size0 = word_limit" "size0 mod 8 = 0"
    and "word_limit \<le> 8 * n" "n \<le> length bytes" "word_limit \<le> limit" "limit < two64"
  shows "case scan_words allocated (drop (word_begin div 8) bytes) word_begin size0 of
           None \<Rightarrow> \<forall>c. word_begin \<le> c \<and> c < word_limit \<longrightarrow> \<not> sought allocated (take n bytes) c
         | Some r \<Rightarrow> is_first (sought allocated (take n bytes)) word_begin limit r"
  using assms
proof (induction size0 arbitrary: word_begin rule: less_induct)
  case (less size0)
  let ?P = "sought allocated (take n bytes)"
  let ?m = "loaded allocated bytes n word_begin"
  show ?case
  proof (cases "size0 < 8")
    case True
    with less.prems(2,3) have "word_begin = word_limit" by simp
    then show ?thesis using True by (subst scan_words.simps) auto
  next
    case False
    have room: "word_begin + 64 \<le> word_limit" using False less.prems(2) by simp
    have wd: "8 * (word_begin div 8) = word_begin" using less.prems(1) by presburger
    have "8 \<le> n - word_begin div 8" using room less.prems(4) wd by linarith
    note load = LoadBitmapWord_8 [OF this, of "drop (word_begin div 8) bytes"]
    note wm = matching_whole [OF less.prems(1,5), of allocated]
    have next_word: "add64 word_begin 64 = word_begin + 64"
      using room less.prems(6,7) by (simp add: u64_arith)
    show ?thesis
    proof (cases "?m = 0")
      case True
      have none: "\<not> ?P c" if "word_begin \<le> c" "c < word_begin + 64" for c
        using word_matches_none [OF wm [unfolded True] that] .
      have "case scan_words allocated (drop ((word_begin + 64) div 8) bytes) (word_begin + 64) (size0 - 8) of
           None \<Rightarrow> \<forall>c. word_begin + 64 \<le> c \<and> c < word_limit \<longrightarrow> \<not> ?P c
         | Some r \<Rightarrow> is_first ?P (word_begin + 64) limit r"
        using False less.prems by (intro less.IH) (auto simp: le_mod_geq)
      moreover have "(word_begin + 64) div 8 = 8 + word_begin div 8" by simp
      moreover have "\<not> ?P c" if "\<forall>c. word_begin + 64 \<le> c \<and> c < word_limit \<longrightarrow> \<not> ?P c"
        "word_begin \<le> c" "c < word_limit" for c
        using that none [of c] by (cases "c < word_begin + 64") simp_all
      ultimately show ?thesis
        using False True none is_first_shift [of word_begin "word_begin + 64" ?P limit]
        by (subst scan_words.simps) (auto simp: load next_word not_less split: option.splits)
    next
      case False
      have "is_first ?P word_begin limit (add64 word_begin (CountTrailingZeros ?m))"
        using word_matches_some(1) [OF wm False] room less.prems(6,7) by simp
      then show ?thesis
        using False \<open>\<not> size0 < 8\<close> by (subst scan_words.simps) (simp add: load)
    qed
  qed
qed

lemma byte_all_bits:
  "(x :: byte) = (if allocated then 0 else - 1) \<longleftrightarrow> (\<forall>b < 8. bit x b \<noteq> allocated)"
  by (cases allocated) (auto intro: bit_word_eqI)

lemma scan_blocks_spec:
  assumes "remaining \<le> length cursor"
  shows "scan_blocks allocated cursor remaining =
    (if \<forall>j < remaining. cursor ! j = (if allocated then 0 else - 1) then None else Some True)"
  using assms
proof (induction allocated cursor remaining rule: scan_blocks.induct)
  case (1 allocated cursor remaining)
  let ?n = "min remaining 128" and ?f = "(if allocated then 0 else - 1) :: byte"
  have tk: "take ?n cursor = take ?n (replicate 128 ?f) \<longleftrightarrow> (\<forall>j < ?n. cursor ! j = ?f)"
    using "1.prems" by (auto simp: list_eq_iff_nth_eq)
  have split: "(\<forall>j < remaining. cursor ! j = ?f) \<longleftrightarrow>
      (\<forall>j < ?n. cursor ! j = ?f) \<and> (\<forall>j < remaining - ?n. drop ?n cursor ! j = ?f)"
    (is "_ \<longleftrightarrow> ?A \<and> ?B")
  proof (intro iffI conjI)
    assume AB: "?A \<and> ?B"
    have "cursor ! j = ?f" if "j < remaining" for j
    proof (cases "j < ?n")
      case False
      then have "drop ?n cursor ! (j - ?n) = ?f" using that AB by auto
      then show ?thesis using False "1.prems" that by (subst (asm) nth_drop) auto
    qed (use AB in blast)
    then show "\<forall>j < remaining. cursor ! j = ?f" by blast
  qed (use "1.prems" in auto)
  show ?case
  proof (cases "remaining = 0 \<or> take ?n cursor \<noteq> take ?n (replicate 128 ?f)")
    case True
    then show ?thesis using tk split by (subst scan_blocks.simps) (auto simp: Let_def)
  next
    case False
    then have "scan_blocks allocated (drop ?n cursor) (remaining - ?n) =
        (if ?B then None else Some True)"
      using "1.prems" by (intro "1.IH") auto
    then show ?thesis using False tk split by (subst scan_blocks.simps) (simp add: Let_def)
  qed
qed

lemma scan_blocks_clusters:
  assumes "word_begin mod 8 = 0" "word_begin + 8 * size0 = word_limit"
    and "word_limit \<le> 8 * n" "n \<le> length bytes"
  shows "scan_blocks allocated (drop (word_begin div 8) bytes) size0 =
    (if \<forall>c. word_begin \<le> c \<and> c < word_limit \<longrightarrow> \<not> sought allocated (take n bytes) c
     then None else Some True)"
proof -
  from assms(1) obtain k where w: "word_begin = 8 * k" by (metis dvdE mod_0_imp_dvd)
  have kn: "k + size0 \<le> n" using w assms(2,3) by simp
  have "(\<forall>j < size0. \<forall>b < 8. bit (bytes ! (k + j)) b \<noteq> allocated) \<longleftrightarrow>
      (\<forall>c. 8 * k \<le> c \<and> c < 8 * (k + size0) \<longrightarrow> \<not> sought allocated (take n bytes) c)"
    (is "?L \<longleftrightarrow> ?R")
  proof
    assume L: ?L
    show ?R
    proof (intro allI impI)
      fix c assume c: "8 * k \<le> c \<and> c < 8 * (k + size0)"
      then have d: "k \<le> c div 8" "c div 8 < k + size0"
        by (simp_all add: less_eq_div_iff_mult_less_eq div_less_iff_less_mult mult.commute)
      then have "bit (bytes ! (k + (c div 8 - k))) (c mod 8) \<noteq> allocated"
        using L [rule_format, of "c div 8 - k" "c mod 8"] by simp
      then show "\<not> sought allocated (take n bytes) c"
        using d kn assms(4) by (auto simp: sought_def cluster_bit_def)
    qed
  next
    assume R: ?R
    show ?L
    proof (intro allI impI)
      fix j b :: nat assume "j < size0" "b < 8"
      then have "\<not> sought allocated (take n bytes) (8 * (k + j) + b)"
        by (intro R [rule_format]) auto
      moreover have "(8 * q + b) div 8 = q" "(8 * q + b) mod 8 = b" for q
        using \<open>b < 8\<close> by simp_all
      ultimately show "bit (bytes ! (k + j)) b \<noteq> allocated"
        using \<open>j < size0\<close> kn assms(4) unfolding sought_def cluster_bit_def
        by (simp del: distrib_left_numeral)
    qed
  qed
  then show ?thesis
    using kn assms(2,4) w by (subst scan_blocks_spec) (simp_all add: byte_all_bits)
qed

text \<open>
  The walk of \<open>FindCluster\<close> over the first word, the complete words and the
  final word, once for both result types: \<open>Q\<close> is what the result has to satisfy.
\<close>

lemma FindCluster_walk:
  fixes allocated bytes n
  defines "P \<equiv> sought allocated (take n bytes)"
  assumes range: "first < limit" "limit \<le> 8 * n" "n \<le> length bytes" "limit < two64"
    and found: "\<And>w lo hi m. word_matches P w lo hi m \<Longrightarrow> m \<noteq> 0 \<Longrightarrow> first \<le> lo \<Longrightarrow> hi \<le> limit \<Longrightarrow>
          (\<And>c. first \<le> c \<Longrightarrow> c < lo \<Longrightarrow> \<not> P c) \<Longrightarrow> Q (found w m)"
    and none: "(\<And>c. first \<le> c \<Longrightarrow> c < limit \<Longrightarrow> \<not> P c) \<Longrightarrow> Q no_match"
    and scan: "\<And>wb wl. wb mod 64 = 0 \<Longrightarrow> wl mod 64 = 0 \<Longrightarrow> first \<le> wb \<Longrightarrow> wb \<le> wl \<Longrightarrow> wl \<le> limit \<Longrightarrow>
          (\<And>c. first \<le> c \<Longrightarrow> c < wb \<Longrightarrow> \<not> P c) \<Longrightarrow>
          (case scan (drop (wb div 8) bytes) wb ((wl - wb) div 8) of
             None \<Rightarrow> \<forall>c. wb \<le> c \<and> c < wl \<longrightarrow> \<not> P c | Some r \<Rightarrow> Q r)"
  shows "Q (FindCluster found no_match scan allocated bytes n first limit)"
proof -
  define fw where "fw = first - first mod 64"
  have fw: "fw mod 64 = 0" "fw + first mod 64 = first" "first < fw + 64"
    unfolding fw_def using round_down [of 64 first] by simp_all
  let ?m1 = "loaded allocated bytes n fw AND push_bit (first mod 64) (- 1)"
  have m1: "word_matches P fw first (fw + 64) ?m1"
    using matching_from [OF fw(1) range(3), of allocated "first mod 64"] unfolding P_def fw(2) .
  show ?thesis
  proof (cases "limit - first \<le> 64 - first mod 64")
    case True
    then have k: "limit - fw \<le> 64" "fw + (limit - fw) = limit" using fw range(1) by linarith+
    let ?m = "?m1 AND drop_bit (64 - (limit - fw)) (- 1)"
    have wm: "word_matches P fw first limit ?m" using matching_to [OF m1 k(1)] unfolding k(2) .
    have "Q (if ?m \<noteq> 0 then found fw ?m else no_match)"
    proof (cases "?m = 0")
      case True
      have "Q no_match" using none word_matches_none [OF wm [unfolded True]] by blast
      then show ?thesis unfolding True by simp
    next
      case False
      have "Q (found fw ?m)" by (rule found [OF wm False]) simp_all
      then show ?thesis using False by simp
    qed
    then show ?thesis using True unfolding FindCluster_def Let_def fw_def by simp
  next
    case False
    then have far: "fw + 64 < limit" using fw range(1) by linarith
    define wl where "wl = limit - limit mod 64"
    have wl: "wl mod 64 = 0" "wl \<le> limit" "limit < wl + 64" "wl + limit mod 64 = limit"
      unfolding wl_def using round_down [of 64 limit] by simp_all
    have wb: "(fw + 64) mod 64 = 0" using fw(1) by simp
    have wbl: "fw + 64 \<le> wl" using wb wl(1,3) far by presburger
    have add: "add64 fw 64 = fw + 64" using far range(4) by (simp add: u64_arith)
    let ?m2 = "loaded allocated bytes n wl AND drop_bit (64 - (limit - wl)) (- 1)"
    have m2: "word_matches P wl wl limit ?m2"
      using matching_to [OF matching_whole [OF wl(1) range(3), of allocated], of "limit - wl"] wl
      unfolding P_def by simp
    let ?S = "scan (drop ((fw + 64) div 8) bytes) (fw + 64) ((wl - (fw + 64)) div 8)"
    have "Q (if ?m1 \<noteq> 0 then found fw ?m1
             else case ?S of Some r \<Rightarrow> r
                  | None \<Rightarrow> if wl \<noteq> limit then if ?m2 \<noteq> 0 then found wl ?m2 else no_match else no_match)"
    proof (cases "?m1 = 0")
      case True
      have n1: "\<not> P c" if "first \<le> c" "c < fw + 64" for c
        using word_matches_none [OF m1 [unfolded True] that] .
      have sc: "case ?S of None \<Rightarrow> \<forall>c. fw + 64 \<le> c \<and> c < wl \<longrightarrow> \<not> P c | Some r \<Rightarrow> Q r"
        using scan [OF wb wl(1) _ wbl wl(2) n1] fw(3) by simp
      show ?thesis
      proof (cases ?S)
        case None
        have n2: "\<not> P c" if "first \<le> c" "c < wl" for c
          using n1 [of c] sc None that by (cases "c < fw + 64") auto
        have "Q (found wl ?m2)" if "?m2 \<noteq> 0"
          by (rule found [OF m2 that _ _ n2]) (use wbl fw(3) in simp_all)
        moreover have "Q no_match" if "?m2 = 0 \<or> wl = limit"
        proof (rule none)
          fix c assume c: "first \<le> c" "c < limit"
          show "\<not> P c"
          proof (cases "c < wl")
            case False
            then have "?m2 = 0" using that c by simp
            from word_matches_none [OF m2 [unfolded this]] False c show ?thesis by simp
          qed (use n2 c in blast)
        qed
        ultimately show ?thesis using True None by auto
      qed (use sc True in simp)
    next
      case False
      have "Q (found fw ?m1)" by (rule found [OF m1 False]) (use far in simp_all)
      then show ?thesis using False by simp
    qed
    then show ?thesis
      using False unfolding FindCluster_def Let_def fw_def [symmetric] wl_def [symmetric] add
      by simp
  qed
qed

lemma word_gap:
  fixes wb wl :: nat
  assumes "wb mod 64 = 0" "wl mod 64 = 0" "wb \<le> wl"
  shows "wb mod 8 = 0" "wb + 8 * ((wl - wb) div 8) = wl" "(wl - wb) div 8 mod 8 = 0"
proof -
  from assms(1,2) obtain p q where pq: "wb = 64 * p" "wl = 64 * q" by (metis dvdE mod_0_imp_dvd)
  have "wl - wb = 8 * (8 * (q - p))" using pq by simp
  then have d: "(wl - wb) div 8 = 8 * (q - p)" by (metis nonzero_mult_div_cancel_left zero_neq_numeral)
  show "wb mod 8 = 0" "(wl - wb) div 8 mod 8 = 0" using pq(1) d by (simp_all add: mod_mult_left_eq)
  show "wb + 8 * ((wl - wb) div 8) = wl" using d pq assms(3) by simp
qed

lemma FindCluster_index_spec:
  assumes "first < limit" "limit \<le> 8 * n" "n \<le> length bytes" "limit < two64"
  shows "is_first (sought allocated (take n bytes)) first limit
           (FindCluster_index allocated bytes n first limit)"
  unfolding FindCluster_index_def
proof (rule FindCluster_walk [OF assms], goal_cases)
  case (1 w lo hi m)
  show ?case
    using is_first_shift [OF 1(5) word_matches_some(1) [OF 1(1,2,4) assms(4)] 1(3)] .
next
  case 2
  then show ?case using assms(1) by (simp add: is_first_def)
next
  case (3 wb wl)
  note word_gap(2,3) [OF 3(1,2,4)]
  moreover have "wl \<le> 8 * n" using 3(5) assms(2) by simp
  ultimately show ?case
    using scan_words_spec [of wb "(wl - wb) div 8" wl n bytes limit allocated] 3 assms(3,4)
      is_first_shift [of first wb "sought allocated (take n bytes)" limit, OF 3(6)] by (auto split: option.splits)
qed

lemma FindCluster_any_spec:
  assumes "first < limit" "limit \<le> 8 * n" "n \<le> length bytes" "limit < two64"
  shows "FindCluster_any allocated bytes n first limit \<longleftrightarrow>
           (\<exists>c. first \<le> c \<and> c < limit \<and> sought allocated (take n bytes) c)"
  unfolding FindCluster_any_def
proof (rule FindCluster_walk [OF assms], goal_cases)
  case (1 w lo hi m)
  then show ?case using word_matches_some(2) [OF 1(1,2,4) assms(4)] by (meson le_trans less_le_trans)
next
  case 2
  then show ?case by blast
next
  case (3 wb wl)
  note word_gap(1,2) [OF 3(1,2,4)]
  moreover have "wl \<le> 8 * n" using 3(5) assms(2) by simp
  ultimately have "scan_blocks allocated (drop (wb div 8) bytes) ((wl - wb) div 8) =
    (if \<forall>c. wb \<le> c \<and> c < wl \<longrightarrow> \<not> sought allocated (take n bytes) c then None else Some True)"
    using assms(3) by (rule scan_blocks_clusters)
  moreover have "wb \<le> c \<Longrightarrow> first \<le> c" "c < wl \<Longrightarrow> c < limit" for c using 3(3,5) by simp_all
  ultimately show ?case by auto
qed

section \<open>The bitmap of a volume\<close>

text \<open>
  The precondition ``this object contains a properly initialized bitmap'': the
  cluster size is the power of two given by the shift, the storage holds a bit
  for every cluster, and the clusters fit the 64-bit offset space.
\<close>

definition ab_inv :: "AllocationBitmap \<Rightarrow> bool" where
  "ab_inv b \<longleftrightarrow> cluster_size b = 2 ^ cluster_shift b \<and>
     cluster_count b * cluster_size b < two64 \<and>
     kVolumeBitmapHeaderSize + BitmapByteCount b \<le> length (storage b)"

definition cluster_allocated :: "AllocationBitmap \<Rightarrow> nat \<Rightarrow> bool" where
  "cluster_allocated b c \<longleftrightarrow> cluster_bit (take (BitmapByteCount b) (BitmapData b)) c"

text \<open>A byte of the device belongs to a free cluster of the volume.\<close>

definition free_byte :: "AllocationBitmap \<Rightarrow> nat \<Rightarrow> bool" where
  "free_byte b x \<longleftrightarrow> x div cluster_size b < cluster_count b \<and>
     \<not> cluster_allocated b (x div cluster_size b)"

lemma BitmapByteCount_bound: "cluster_count b \<le> 8 * BitmapByteCount b"
  using div_up_bound [of 8 "cluster_count b"] by (simp add: BitmapByteCount_def div_up_def)

lemma ab_invD:
  assumes "ab_inv b"
  shows "0 < cluster_size b" "BitmapByteCount b \<le> length (BitmapData b)" "cluster_count b < two64"
    "drop_bit (cluster_shift b) x = x div cluster_size b"
    "push_bit (cluster_shift b) x = x * cluster_size b"
proof -
  show p: "0 < cluster_size b" using assms by (simp add: ab_inv_def)
  then have "cluster_count b * 1 \<le> cluster_count b * cluster_size b" by (intro mult_le_mono2) simp
  then show "cluster_count b < two64" using assms unfolding ab_inv_def by linarith
qed (use assms in \<open>auto simp: ab_inv_def BitmapData_def drop_bit_eq_div push_bit_eq_mult\<close>)

lemma sought_bitmap:
  "sought a (take (BitmapByteCount b) (BitmapData b)) c \<longleftrightarrow> cluster_allocated b c = a"
  by (simp add: sought_def cluster_allocated_def)

text \<open>The searches of a volume's bitmap, for any range inside its clusters.\<close>

lemma bitmap_index:
  assumes "ab_inv b" "first < limit" "limit \<le> cluster_count b"
  shows "is_first (\<lambda>c. cluster_allocated b c = a) first limit
           (FindCluster_index a (BitmapData b) (BitmapByteCount b) first limit)"
  using FindCluster_index_spec [of first limit "BitmapByteCount b" "BitmapData b" a] assms
    ab_invD [OF assms(1)] BitmapByteCount_bound [of b] by (simp add: sought_bitmap [abs_def])

lemma bitmap_any:
  assumes "ab_inv b" "first < limit" "limit \<le> cluster_count b"
  shows "FindCluster_any a (BitmapData b) (BitmapByteCount b) first limit \<longleftrightarrow>
           (\<exists>c. first \<le> c \<and> c < limit \<and> cluster_allocated b c = a)"
  using FindCluster_any_spec [of first limit "BitmapByteCount b" "BitmapData b" a] assms
    ab_invD [OF assms(1)] BitmapByteCount_bound [of b] by (simp add: sought_bitmap)

lemma FindNextCluster_spec:
  assumes "ab_inv b" "first \<le> limit" "limit \<le> cluster_count b"
  shows "is_first (\<lambda>c. cluster_allocated b c = a) first limit (FindNextCluster a b first limit)"
  using bitmap_index [of b first limit a] assms
  by (cases "first = limit") (auto simp: FindNextCluster_def is_first_def)

lemma bytes_of_clusters:
  fixes a b :: nat
  assumes "0 < s"
  shows "(a * s \<le> x \<and> x < b * s) \<longleftrightarrow> a \<le> x div s \<and> x div s < b"
  using assms by (simp add: less_eq_div_iff_mult_less_eq div_less_iff_less_mult)

lemma clusters_of_range:
  fixes off len s :: nat
  assumes "0 < s" "0 < len" "off div s \<le> c" "c \<le> (off + len - 1) div s"
  shows "\<exists>x. off \<le> x \<and> x < off + len \<and> x div s = c"
proof (intro exI [of _ "max off (c * s)"] conjI)
  have c: "c * s \<le> off + len - 1" using assms by (simp add: less_eq_div_iff_mult_less_eq)
  then show "max off (c * s) < off + len" using assms(2) by simp
  show "max off (c * s) div s = c"
  proof (cases "off \<le> c * s")
    case False
    then have "c \<le> off div s" using assms(1) by (simp add: less_eq_div_iff_mult_less_eq)
    then show ?thesis using False assms(3) by simp
  qed (use assms(1) in simp)
qed simp

lemma HasAllocatedClusters_spec:
  assumes "ab_inv b" "0 < len" "off + len \<le> two64"
  shows "HasAllocatedClusters b off len \<longleftrightarrow> (\<exists>x. off \<le> x \<and> x < off + len \<and> \<not> free_byte b x)"
proof -
  let ?S = "cluster_size b" and ?l = "(off + len - 1) div cluster_size b"
  note inv = ab_invD [OF assms(1)]
  have sum: "add64 off (len - 1) = off + len - 1" using assms(2,3) by (simp add: u64_arith)
  have mono: "off div ?S \<le> x div ?S" "x div ?S \<le> ?l" if "off \<le> x" "x < off + len" for x
    using that by (auto intro: div_le_mono)
  have le: "off div ?S \<le> ?l" by (rule mono) (use assms(2) in simp_all)
  show ?thesis
  proof (cases "cluster_count b \<le> ?l")
    case True
    then have "\<not> free_byte b (off + len - 1)" by (simp add: free_byte_def)
    moreover have "off \<le> off + len - 1" "off + len - 1 < off + len" using assms(2) by simp_all
    ultimately have "\<exists>x. off \<le> x \<and> x < off + len \<and> \<not> free_byte b x" by blast
    then show ?thesis using True by (simp add: HasAllocatedClusters_def sum [simplified] inv Let_def)
  next
    case False
    have "HasAllocatedClusters b off len \<longleftrightarrow>
        (\<exists>c. off div ?S \<le> c \<and> c \<le> ?l \<and> cluster_allocated b c)"
      using False bitmap_any [OF assms(1), of "off div ?S" "?l + 1" True] le
      by (simp add: HasAllocatedClusters_def sum [simplified] inv Let_def less_Suc_eq_le)
    also have "\<dots> \<longleftrightarrow> (\<exists>x. off \<le> x \<and> x < off + len \<and> cluster_allocated b (x div ?S))"
      using clusters_of_range [OF inv(1) assms(2), of off] mono by metis
    also have "\<dots> \<longleftrightarrow> (\<exists>x. off \<le> x \<and> x < off + len \<and> \<not> free_byte b x)"
      using False mono(2) by (auto simp: free_byte_def not_le intro: le_less_trans)
    finally show ?thesis .
  qed
qed

section \<open>Synthesizing free clusters\<close>

lemma synthesize_loop_spec:
  fixes b
  defines "bytes \<equiv> BitmapData b" and "n \<equiv> BitmapByteCount b" and "S \<equiv> cluster_size b"
  assumes inv: "ab_inv b" and out: "end1 = offset + length outp" "end1 < two64" "outp \<noteq> []"
    and cl: "offset div S \<le> cluster" "limit \<le> cluster_count b" "limit \<le> (end1 - 1) div S + 1"
  shows "\<exists>out'. synthesize_loop bytes n (cluster_shift b) offset end1 limit cluster outp = Some out'
    \<and> length out' = length outp
    \<and> (\<forall>i < length outp. out' ! i =
         (let c = (offset + i) div S
          in if cluster \<le> c \<and> c < limit \<and> \<not> cluster_allocated b c then 0 else outp ! i))"
  using out cl(1)
proof (induction "limit - cluster" arbitrary: cluster outp rule: less_induct)
  case less
  note inv' = ab_invD [OF inv]
  have S: "0 < S" unfolding S_def by (rule inv'(1))
  let ?fc = "FindCluster_index False bytes n cluster limit"
  let ?cl = "FindCluster_index True bytes n ?fc limit"
  show ?case
  proof (cases "cluster < limit")
    case False
    then show ?thesis by (subst synthesize_loop.simps) (auto simp: Let_def)
  next
    case True
    have fc: "is_first (\<lambda>c. \<not> cluster_allocated b c) cluster limit ?fc"
      using bitmap_index [OF inv True cl(2), of False] by (simp add: bytes_def n_def)
    show ?thesis
    proof (cases "?fc = limit")
      case True
      then have "cluster_allocated b c" if "cluster \<le> c" "c < limit" for c
        using is_firstD(3) [OF fc, of c] that by simp
      then show ?thesis using \<open>cluster < limit\<close> True
        by (subst synthesize_loop.simps) (auto simp: Let_def)
    next
      case False
      then have fcl: "?fc < limit" "cluster \<le> ?fc" "\<not> cluster_allocated b ?fc"
        using is_firstD(1,2,4) [OF fc] by auto
      have c': "is_first (cluster_allocated b) ?fc limit ?cl"
        using bitmap_index [OF inv fcl(1) cl(2), of True] by (simp add: bytes_def n_def)
      have "?cl \<noteq> ?fc" using is_firstD(4) [OF c'] fcl by metis
      then have cl': "?fc < ?cl" "?cl \<le> limit" using is_firstD(1,2) [OF c'] by simp_all
      have "?cl * S \<le> cluster_count b * S" "?fc * S \<le> ?cl * S"
        using cl' cl(2) by (simp_all add: mult_le_mono1)
      then have "?cl * S < two64" "?fc * S < two64"
        using inv unfolding ab_inv_def S_def by linarith+
      then have shifts: "push_bit (cluster_shift b) ?fc mod two64 = ?fc * S"
          "push_bit (cluster_shift b) ?cl mod two64 = ?cl * S"
        unfolding inv'(5) S_def by simp_all
      let ?fb = "max offset (?fc * S)" and ?fe = "min end1 (?cl * S)"
      have "?fc \<le> (end1 - 1) div S" using fcl(1) cl(3) by simp
      then have "?fc * S \<le> end1 - 1" using S by (simp add: less_eq_div_iff_mult_less_eq)
      moreover have "offset < ?cl * S"
        using S cl' fcl(2) less.prems(4) by (subst div_less_iff_less_mult [symmetric]) auto
      moreover have "?fc * S < ?cl * S" using cl'(1) S by simp
      moreover have "offset < end1" using less.prems(1,3) by (cases outp) auto
      ultimately have be: "?fb < ?fe" by linarith
      then have sub: "sub64 ?fe ?fb = ?fe - ?fb" using out(2) by (intro sub64_exact) auto
      let ?o = "overwrite outp (?fb - offset) (replicate (?fe - ?fb) 0)"
      have fit: "(?fb - offset) + length (replicate (?fe - ?fb) (0 :: byte)) \<le> length outp"
        using be less.prems(1) by simp
      note len = length_overwrite [OF fit]
      have nth: "?o ! i = (if ?fc \<le> (offset + i) div S \<and> (offset + i) div S < ?cl then 0 else outp ! i)"
        if "i < length outp" for i
        using nth_overwrite [OF fit that] bytes_of_clusters [OF S, of ?fc "offset + i" ?cl] be that less.prems(1)
        by (auto simp: less_diff_conv)
      have "limit - ?cl < limit - cluster" using cl' fcl by linarith
      moreover have "offset div S \<le> ?cl" "?o \<noteq> []"
        using less.prems(3,4) cl' fcl len by (linarith, auto)
      ultimately obtain out' where o': "synthesize_loop bytes n (cluster_shift b) offset end1 limit ?cl ?o = Some out'"
        "length out' = length ?o"
        "\<forall>i < length ?o. out' ! i = (let c = (offset + i) div S
          in if ?cl \<le> c \<and> c < limit \<and> \<not> cluster_allocated b c then 0 else ?o ! i)"
        using less.hyps [of ?cl ?o] less.prems(1,2) unfolding len by blast
      have "synthesize_loop bytes n (cluster_shift b) offset end1 limit cluster outp = Some out'"
        using True False o'(1) by (subst synthesize_loop.simps) (simp add: Let_def shifts sub)
      moreover have "(?cl \<le> c \<and> c < limit \<and> \<not> cluster_allocated b c) \<or> (?fc \<le> c \<and> c < ?cl) \<longleftrightarrow>
          cluster \<le> c \<and> c < limit \<and> \<not> cluster_allocated b c" for c
        using is_firstD(3) [OF fc, of c] is_firstD(3) [OF c', of c] fcl cl' by linarith
      ultimately show ?thesis using o'(2,3) nth unfolding len Let_def by metis
    qed
  qed
qed

lemma SynthesizeFreeClusters_spec:
  assumes "ab_inv b" "outp \<noteq> []" "offset + length outp < two64"
  shows "\<exists>out'. SynthesizeFreeClusters b outp offset = Some out' \<and> length out' = length outp \<and>
    (\<forall>i < length outp. out' ! i = (if free_byte b (offset + i) then 0 else outp ! i))"
proof -
  let ?e = "offset + length outp" and ?S = "cluster_size b"
  let ?l = "min (cluster_count b) ((?e - 1) div ?S + 1)"
  note inv = ab_invD [OF assms(1)]
  have e: "add64 offset (length outp) = ?e" using assms(3) by (simp add: u64_arith)
  have "(?e - 1) div ?S \<le> ?e - 1" by (rule div_le_dividend)
  moreover have "0 < length outp" using assms(2) by simp
  ultimately have "(?e - 1) div ?S + 1 < two64" using assms(3) by linarith
  then have l: "add64 ((?e - 1) div ?S) 1 = (?e - 1) div ?S + 1" by (rule add64_exact)
  have c: "(offset div ?S \<le> (offset + i) div ?S \<and> (offset + i) div ?S < ?l \<and> X) \<longleftrightarrow>
      (offset + i) div ?S < cluster_count b \<and> X" if "i < length outp" for i X
  proof -
    have "offset div ?S \<le> (offset + i) div ?S" "(offset + i) div ?S \<le> (?e - 1) div ?S"
      using that by (auto intro!: div_le_mono)
    then show ?thesis by auto
  qed
  have "SynthesizeFreeClusters b outp offset =
      synthesize_loop (BitmapData b) (BitmapByteCount b) (cluster_shift b) offset ?e ?l (offset div ?S) outp"
    unfolding SynthesizeFreeClusters_def Let_def inv e l ..
  then show ?thesis
    using synthesize_loop_spec [OF assms(1) refl assms(3,2) le_refl, of ?l] c
    unfolding Let_def free_byte_def by simp
qed

section \<open>Marking clusters free\<close>

text \<open>Clearing the bits of one byte, and of a run of bytes.\<close>

lemma bit_first_mask: "j < 8 \<Longrightarrow> bit (push_bit k (- 1) :: byte) j \<longleftrightarrow> k \<le> j"
  by (auto simp: bit_not_iff bit_mask_iff)

lemma bit_last_mask: "k < 8 \<Longrightarrow> bit (drop_bit (7 - k) (- 1) :: byte) j \<longleftrightarrow> j \<le> k"
  by (auto simp: bit_mask_iff)

lemma div_mod_le:
  fixes a c :: nat
  assumes "0 < d"
  shows "a \<le> c \<longleftrightarrow> a div d < c div d \<or> (a div d = c div d \<and> a mod d \<le> c mod d)"
proof -
  have eq: "a = d * (a div d) + a mod d" "c = d * (c div d) + c mod d" "a mod d < d" "c mod d < d"
    using assms by simp_all
  consider "a div d < c div d" | "a div d = c div d" | "c div d < a div d" by linarith
  then show ?thesis
  proof cases
    case 1
    then have "d * (a div d) + d \<le> d * (c div d)"
      using mult_le_mono2 [of "Suc (a div d)" "c div d" d] by simp
    then have "a \<le> c" using eq by linarith
    then show ?thesis using 1 by simp
  next
    case 2
    then have "a \<le> c \<longleftrightarrow> a mod d \<le> c mod d" using eq by (metis nat_add_left_cancel_le)
    then show ?thesis using 2 by simp
  next
    case 3
    then have "d * (c div d) + d \<le> d * (a div d)"
      using mult_le_mono2 [of "Suc (c div d)" "a div d" d] by simp
    then have "\<not> a \<le> c" using eq by linarith
    then show ?thesis using 3 by simp
  qed
qed

lemma MarkClustersFree_storage:
  fixes b first limit
  defines "s' \<equiv> storage (MarkClustersFree b first limit)"
  assumes "first < limit" "kVolumeBitmapHeaderSize + (limit - 1) div 8 < length (storage b)"
  shows "length s' = length (storage b)"
    and "i < length (storage b) \<Longrightarrow> j < 8 \<Longrightarrow> bit (s' ! i) j \<longleftrightarrow> bit (storage b ! i) j \<and>
      \<not> (kVolumeBitmapHeaderSize \<le> i \<and> first \<le> 8 * (i - kVolumeBitmapHeaderSize) + j \<and>
          8 * (i - kVolumeBitmapHeaderSize) + j < limit)"
proof -
  let ?fb = "first div 8" and ?lb = "(limit - 1) div 8"
  have le: "?fb \<le> ?lb" using assms(2) by (intro div_le_mono) simp
  note defs = s'_def MarkClustersFree_def Let_def
  show len: "length s' = length (storage b)"
    using assms(3) le unfolding defs by auto
  assume i: "i < length (storage b)" and j: "j < 8"
  let ?c = "8 * (i - kVolumeBitmapHeaderSize) + j"
  have c: "?c div 8 = i - kVolumeBitmapHeaderSize" "?c mod 8 = j" using j by simp_all
  have fst: "first \<le> ?c \<longleftrightarrow> ?fb < i - kVolumeBitmapHeaderSize \<or>
      (?fb = i - kVolumeBitmapHeaderSize \<and> first mod 8 \<le> j)"
    using div_mod_le [of 8 first ?c] unfolding c by simp
  have "?c < limit \<longleftrightarrow> ?c \<le> limit - 1" using assms(2) by linarith
  then have lst: "?c < limit \<longleftrightarrow> i - kVolumeBitmapHeaderSize < ?lb \<or>
      (i - kVolumeBitmapHeaderSize = ?lb \<and> j \<le> (limit - 1) mod 8)"
    using div_mod_le [of 8 ?c "limit - 1"] unfolding c by simp
  define M1 M2 where "M1 = push_bit (first mod 8) (- 1 :: byte)"
    and "M2 = drop_bit (7 - (limit - 1) mod 8) (- 1 :: byte)"
  have m: "bit M1 j \<longleftrightarrow> first mod 8 \<le> j" "bit M2 j \<longleftrightarrow> j \<le> (limit - 1) mod 8"
    unfolding M1_def M2_def using j by (rule bit_first_mask, intro bit_last_mask) simp
  note defs' = defs M1_def [symmetric] M2_def [symmetric]
  let ?h = kVolumeBitmapHeaderSize
  show "bit (s' ! i) j \<longleftrightarrow> bit (storage b ! i) j \<and> \<not> (?h \<le> i \<and> first \<le> ?c \<and> ?c < limit)"
  proof (cases "?fb = ?lb")
    case True
    then have "s' ! i = (if i = ?h + ?fb then storage b ! i AND NOT (M1 AND M2) else storage b ! i)"
      using i unfolding defs' by (auto simp: nth_list_update)
    moreover have "i = ?h + ?fb \<longleftrightarrow> ?h \<le> i \<and> ?fb = i - ?h" by auto
    ultimately show ?thesis
      using True j m unfolding fst lst by (auto simp: bit_and_iff bit_or_iff bit_not_iff)
  next
    case False
    then have lt: "?fb < ?lb" using le by simp
    let ?s1 = "(storage b)[?h + ?fb := storage b ! (?h + ?fb) AND NOT M1]"
    let ?z = "replicate (?lb - ?fb - 1) (0 :: byte)"
    have "?h + ?fb + 1 + length ?z \<le> length ?s1" using lt assms(3) by simp
    from nth_overwrite [OF this]
    have s2: "k < length (storage b) \<Longrightarrow> overwrite ?s1 (?h + ?fb + 1) ?z ! k =
        (if ?h + ?fb < k \<and> k < ?h + ?lb then 0 else ?s1 ! k)" for k
      using lt by auto
    have "s' ! i = (if i = ?h + ?fb then storage b ! i AND NOT M1
        else if i = ?h + ?lb then storage b ! i AND NOT M2
        else if ?h + ?fb < i \<and> i < ?h + ?lb then 0 else storage b ! i)"
      using i False lt assms(3) s2 [of i] s2 [of "?h + ?lb"] unfolding defs'
      by (auto simp: nth_list_update)
    moreover have "i = ?h + k \<longleftrightarrow> ?h \<le> i \<and> i - ?h = k" "?h + k < i \<longleftrightarrow> ?h \<le> i \<and> k < i - ?h"
      "i < ?h + k \<longleftrightarrow> i < ?h \<or> i - ?h < k" for k by auto
    ultimately show ?thesis
      using lt j m unfolding fst lst by (auto simp: bit_and_iff bit_not_iff)
  qed
qed

lemma MarkClustersFree_spec:
  assumes "ab_inv b" "first < limit" "limit \<le> cluster_count b"
  shows "ab_inv (MarkClustersFree b first limit)"
    and "cluster_allocated (MarkClustersFree b first limit) c \<longleftrightarrow>
           cluster_allocated b c \<and> \<not> (first \<le> c \<and> c < limit)"
    and "cluster_count (MarkClustersFree b first limit) = cluster_count b"
      "cluster_size (MarkClustersFree b first limit) = cluster_size b"
      "cluster_shift (MarkClustersFree b first limit) = cluster_shift b"
proof -
  let ?b = "MarkClustersFree b first limit"
  show keep: "cluster_count ?b = cluster_count b" "cluster_size ?b = cluster_size b"
    "cluster_shift ?b = cluster_shift b"
    by (simp_all add: MarkClustersFree_def Let_def)
  have bc: "BitmapByteCount ?b = BitmapByteCount b" by (simp add: BitmapByteCount_def keep)
  have "(limit - 1) div 8 < BitmapByteCount b"
    using assms(2,3) BitmapByteCount_bound [of b] by (simp add: div_less_iff_less_mult mult.commute)
  then have fit: "kVolumeBitmapHeaderSize + (limit - 1) div 8 < length (storage b)"
    using assms(1) unfolding ab_inv_def by linarith
  note st = MarkClustersFree_storage [OF assms(2) fit]
  show "ab_inv ?b" using assms(1) unfolding ab_inv_def keep bc st(1) .
  have "c div 8 < BitmapByteCount b \<Longrightarrow>
      bit (storage ?b ! (kVolumeBitmapHeaderSize + c div 8)) (c mod 8) \<longleftrightarrow>
      bit (storage b ! (kVolumeBitmapHeaderSize + c div 8)) (c mod 8) \<and> \<not> (first \<le> c \<and> c < limit)"
    using st(2) [of "kVolumeBitmapHeaderSize + c div 8" "c mod 8"] assms(1)
    by (simp add: ab_inv_def)
  then show "cluster_allocated ?b c \<longleftrightarrow> cluster_allocated b c \<and> \<not> (first \<le> c \<and> c < limit)"
    unfolding cluster_allocated_def cluster_bit_def bc BitmapData_def
    by (auto simp: st(1))
qed

end
