(* ===== verification/BlockDevice.thy ===== *)
theory BlockDevice
  imports AllocBitmap
begin

text \<open>
  The \<open>BlockDevice\<close> concept and its source-backed models:
  \<open>WindowsBlockDevice<HasAllocationBitmap>::Read\<close>, \<open>OrdinaryFileBlockDevice\<close> and
  \<open>ReadFromFile\<close> of \<open>src/modules/windows_block_device.ixx\<close>, the error closure of
  \<open>src/modules/windows_block_device/noinline_functions.cpp\<close>, and
  \<open>MemoryBlockDevice\<close> of \<open>src/modules/filesystem.ixx\<close>.  The locale
  \<open>block_device\<close> states what a client of a block device relies on; each device
  is an interpretation.  The main result is that a device with an allocation
  bitmap presents the image in which every byte of a free cluster is zero and
  every other byte is the source byte, while it only ever issues sector-aligned
  requests inside the device.
\<close>

section \<open>The interface\<close>

text \<open>
  A device as its clients see it: its length, and a read at an offset of a
  wanted number of bytes (\<open>ULONG\<close>).  The result is the status and the bytes
  placed in the destination, whose number is \<open>transferred\<close>; \<open>None\<close> stands for a
  call that does not return.
\<close>

record device =
  dev_length :: nat
  dev_read :: "nat \<Rightarrow> nat \<Rightarrow> (ntstatus \<times> byte list) option"

definition exposes :: "device \<Rightarrow> (nat \<Rightarrow> byte) \<Rightarrow> bool" where
  "exposes d c \<longleftrightarrow> (\<forall>off w. 0 < w \<longrightarrow> w < 4294967296 \<longrightarrow> off + w \<le> dev_length d \<longrightarrow>
     (\<exists>st bs. dev_read d off w = Some (st, bs) \<and>
        (NT_SUCCESS st \<longrightarrow> 0 < length bs \<and> length bs \<le> w \<and> bs = image_bytes c off (length bs))))"

lemma exposes_returns:
  assumes "exposes d c" "0 < w" "w < 4294967296" "off + w \<le> dev_length d"
  obtains st bs where "dev_read d off w = Some (st, bs)"
  using assms unfolding exposes_def by blast

lemma exposes_success:
  assumes "exposes d c" "0 < w" "w < 4294967296" "off + w \<le> dev_length d"
    and "dev_read d off w = Some (st, bs)" "NT_SUCCESS st"
  shows "0 < length bs" "length bs \<le> w" "bs = image_bytes c off (length bs)"
proof -
  from assms(1-4) obtain st' bs' where "dev_read d off w = Some (st', bs')"
    "NT_SUCCESS st' \<longrightarrow> 0 < length bs' \<and> length bs' \<le> w \<and> bs' = image_bytes c off (length bs')"
    unfolding exposes_def by blast
  moreover from this(1) assms(5) have "st' = st" "bs' = bs" by simp_all
  ultimately show "0 < length bs" "length bs \<le> w" "bs = image_bytes c off (length bs)"
    using assms(6) by blast+
qed

lemma exposes_cong:
  assumes "exposes d c" "\<And>x. x < dev_length d \<Longrightarrow> c x = c' x"
  shows "exposes d c'"
  unfolding exposes_def
proof (intro allI impI)
  fix off w assume w: "0 < w" "w < 4294967296" "off + w \<le> dev_length d"
  from exposes_returns [OF assms(1) w] obtain st bs where r: "dev_read d off w = Some (st, bs)" .
  have "0 < length bs \<and> length bs \<le> w \<and> bs = image_bytes c' off (length bs)" if "NT_SUCCESS st"
  proof -
    note s = exposes_success [OF assms(1) w r that]
    have "image_bytes c off (length bs) = image_bytes c' off (length bs)"
      using s(2) w(3) assms(2) by (intro image_bytes_cong) simp
    then show ?thesis using s by simp
  qed
  then show "\<exists>st bs. dev_read d off w = Some (st, bs) \<and>
      (NT_SUCCESS st \<longrightarrow> 0 < length bs \<and> length bs \<le> w \<and> bs = image_bytes c' off (length bs))"
    using r by blast
qed

locale block_device =
  fixes ok :: "'d \<Rightarrow> bool"
    and length_of :: "'d \<Rightarrow> nat"
    and content :: "'d \<Rightarrow> nat \<Rightarrow> byte"
    and read_op :: "'d \<Rightarrow> nat \<Rightarrow> nat \<Rightarrow> (ntstatus \<times> byte list) option"
  assumes read_returns: "ok d \<Longrightarrow> 0 < w \<Longrightarrow> w < 4294967296 \<Longrightarrow> off + w \<le> length_of d \<Longrightarrow>
      \<exists>st bs. read_op d off w = Some (st, bs)"
    and read_success: "ok d \<Longrightarrow> 0 < w \<Longrightarrow> w < 4294967296 \<Longrightarrow> off + w \<le> length_of d \<Longrightarrow>
      read_op d off w = Some (st, bs) \<Longrightarrow> NT_SUCCESS st \<Longrightarrow>
      0 < length bs \<and> length bs \<le> w \<and> bs = image_bytes (content d) off (length bs)"
begin

definition as_device :: "'d \<Rightarrow> device" where
  "as_device d = \<lparr>dev_length = length_of d, dev_read = read_op d\<rparr>"

lemma as_device_simps [simp]:
  "dev_length (as_device d) = length_of d" "dev_read (as_device d) = read_op d"
  by (simp_all add: as_device_def)

lemma exposes_content: "ok d \<Longrightarrow> exposes (as_device d) (content d)"
  unfolding exposes_def as_device_simps using read_returns read_success by meson

text \<open>Two complete reads of adjacent ranges read what one complete read of their join reads.\<close>

lemma read_join:
  assumes "ok d" "0 < w1" "0 < w2" "w1 + w2 < 4294967296" "off + w1 + w2 \<le> length_of d"
    and "read_op d off w1 = Some (s1, b1)" "read_op d (off + w1) w2 = Some (s2, b2)"
    and "read_op d off (w1 + w2) = Some (s, b)" "NT_SUCCESS s1" "NT_SUCCESS s2" "NT_SUCCESS s"
    and "length b1 = w1" "length b2 = w2" "length b = w1 + w2"
  shows "b = b1 @ b2"
proof -
  have "b1 = image_bytes (content d) off w1"
    using read_success [OF assms(1,2) _ _ assms(6,9)] assms(4,5,12) by simp
  moreover have "b2 = image_bytes (content d) (off + w1) w2"
    using read_success [OF assms(1,3) _ _ assms(7,10)] assms(4,5,13) by simp
  moreover have "b = image_bytes (content d) off (w1 + w2)"
    using read_success [OF assms(1) _ assms(4) _ assms(8,11)] assms(2,5,14) by simp
  ultimately show ?thesis by (simp add: image_bytes_append)
qed

end

section \<open>Reading from a handle\<close>

text \<open>
  The operating system's side of a file handle: \<open>ReadFile\<close> with an
  \<open>OVERLAPPED\<close> at a position (\<open>None\<close> when it returns \<open>TRUE\<close>, otherwise the last
  error), and \<open>GetOverlappedResult\<close> (the last error, or the bytes transferred).
\<close>

record file_handle =
  ReadFile :: "nat \<Rightarrow> nat \<Rightarrow> nat option"
  GetOverlappedResult :: "nat \<Rightarrow> nat \<Rightarrow> nat + byte list"

abbreviation (input) ERROR_IO_PENDING :: nat where "ERROR_IO_PENDING \<equiv> 997"
abbreviation (input) ERROR_READ_FAULT :: nat where "ERROR_READ_FAULT \<equiv> 30"
abbreviation (input) ERROR_NOT_ENOUGH_MEMORY :: nat where "ERROR_NOT_ENOUGH_MEMORY \<equiv> 8"

text \<open>\<open>failure\<close> is the \<open>ErrorClosure\<close>: it logs and returns \<open>FspNtStatusFromWin32 error\<close>.\<close>

definition ErrorClosure_call :: "(nat \<Rightarrow> ntstatus) \<Rightarrow> nat \<Rightarrow> ntstatus" where
  "ErrorClosure_call FspNtStatusFromWin32 err = FspNtStatusFromWin32 err"

definition ReadFromFile ::
    "file_handle \<Rightarrow> (nat \<Rightarrow> ntstatus) \<Rightarrow> nat \<Rightarrow> nat \<Rightarrow> ntstatus \<times> byte list" where
  "ReadFromFile h failure position count =
     (let overlapped_result =
        (case GetOverlappedResult h position count of
           Inl err \<Rightarrow> (failure err, [])
         | Inr bytes_done \<Rightarrow>
             if length bytes_done \<noteq> count then (failure ERROR_READ_FAULT, bytes_done)
             else (STATUS_SUCCESS, bytes_done))
      in case ReadFile h position count of
           Some err \<Rightarrow> if err \<noteq> ERROR_IO_PENDING then (failure err, []) else overlapped_result
         | None \<Rightarrow> overlapped_result)"

text \<open>
  What the code relies on: a failing call leaves a nonzero last error,
  \<open>FspNtStatusFromWin32\<close> maps a nonzero error to a failure status, and the bytes
  a completed read reports are the bytes of the source at its position.
\<close>

definition maps_errors :: "(nat \<Rightarrow> ntstatus) \<Rightarrow> bool" where
  "maps_errors nt \<longleftrightarrow> (\<forall>err. err \<noteq> 0 \<longrightarrow> \<not> NT_SUCCESS (nt err))"

definition handle_ok :: "(nat \<Rightarrow> byte) \<Rightarrow> file_handle \<Rightarrow> bool" where
  "handle_ok raw h \<longleftrightarrow> (\<forall>p n.
     ReadFile h p n \<noteq> Some 0 \<and> GetOverlappedResult h p n \<noteq> Inl 0 \<and>
     (\<forall>bs. GetOverlappedResult h p n = Inr bs \<longrightarrow> bs = image_bytes raw p (length bs)))"

lemma ReadFromFile_success:
  assumes "handle_ok raw h" "maps_errors nt" "ReadFromFile h nt p n = (st, bs)" "NT_SUCCESS st"
  shows "bs = image_bytes raw p n" "st = STATUS_SUCCESS"
proof -
  have e: "ReadFile h p n \<noteq> Some 0" "GetOverlappedResult h p n \<noteq> Inl 0"
    "\<And>bs. GetOverlappedResult h p n = Inr bs \<Longrightarrow> bs = image_bytes raw p (length bs)"
    using assms(1) by (auto simp: handle_ok_def)
  have f: "err \<noteq> 0 \<Longrightarrow> \<not> NT_SUCCESS (nt err)" for err using assms(2) by (simp add: maps_errors_def)
  show "bs = image_bytes raw p n" "st = STATUS_SUCCESS"
    using assms(3,4) e f [of "ERROR_READ_FAULT"] f
    by (auto simp: ReadFromFile_def Let_def split: option.splits sum.splits if_splits)
qed

text \<open>A handle whose reads all complete, and the result then.\<close>

definition handle_reads :: "file_handle \<Rightarrow> nat \<Rightarrow> nat \<Rightarrow> bool" where
  "handle_reads h p n \<longleftrightarrow> (ReadFile h p n = None \<or> ReadFile h p n = Some ERROR_IO_PENDING) \<and>
     (\<exists>bs. GetOverlappedResult h p n = Inr bs \<and> length bs = n)"

lemma ReadFromFile_complete:
  "handle_reads h p n \<Longrightarrow> fst (ReadFromFile h nt p n) = STATUS_SUCCESS"
  by (auto simp: handle_reads_def ReadFromFile_def Let_def)

section \<open>\<open>WindowsBlockDevice\<close>\<close>

text \<open>
  The template argument \<open>HasAllocationBitmap\<close> is the presence of a bitmap.
  \<open>wb_nt\<close> is \<open>FspNtStatusFromWin32\<close> and \<open>wb_alloc\<close> tells whether
  \<open>NewAlignedBuffer\<close> finds memory for a bounce buffer of a size.
\<close>

record WindowsBlockDevice =
  wb_length :: nat
  wb_handle :: file_handle
  wb_sector_size :: nat
  wb_bitmap :: "AllocationBitmap option"
  wb_nt :: "nat \<Rightarrow> ntstatus"
  wb_alloc :: "nat \<Rightarrow> bool"

abbreviation (input) kRetainedReadBufferSize :: nat where "kRetainedReadBufferSize \<equiv> 5242880"

definition and_not64 :: "nat \<Rightarrow> nat \<Rightarrow> nat" where
  "and_not64 a m = unat ((word_of_nat a :: 64 word) AND NOT (word_of_nat m))"

text \<open>\<open>if constexpr (HasAllocationBitmap) allocation_bitmap.SynthesizeFreeClusters(...)\<close>\<close>

definition synthesize :: "AllocationBitmap option \<Rightarrow> byte list \<Rightarrow> nat \<Rightarrow> byte list option" where
  "synthesize bm buf offset =
     (case bm of None \<Rightarrow> Some buf | Some b \<Rightarrow> SynthesizeFreeClusters b buf offset)"

definition read_direct :: "WindowsBlockDevice \<Rightarrow> nat \<Rightarrow> nat \<Rightarrow> (ntstatus \<times> byte list) option" where
  "read_direct d offset wanted =
     (case ReadFromFile (wb_handle d) (ErrorClosure_call (wb_nt d)) offset wanted of
        (status, buf) \<Rightarrow>
          if \<not> NT_SUCCESS status then Some (status, buf)
          else map_option (\<lambda>buf'. (STATUS_SUCCESS, buf')) (synthesize (wb_bitmap d) buf offset))"

definition read_bounced ::
    "WindowsBlockDevice \<Rightarrow> nat \<Rightarrow> nat \<Rightarrow> nat \<Rightarrow> nat \<Rightarrow> (ntstatus \<times> byte list) option" where
  "read_bounced d offset wanted read_offset read_length =
     (case ReadFromFile (wb_handle d) (ErrorClosure_call (wb_nt d)) read_offset read_length of
        (status, bounce) \<Rightarrow>
          if \<not> NT_SUCCESS status then Some (status, [])
          else map_option (\<lambda>buf'. (STATUS_SUCCESS, buf'))
                 (synthesize (wb_bitmap d) (take wanted (drop (offset - read_offset) bounce)) offset))"

definition WindowsBlockDevice_Read ::
    "WindowsBlockDevice \<Rightarrow> nat \<Rightarrow> nat \<Rightarrow> (ntstatus \<times> byte list) option" where
  "WindowsBlockDevice_Read d offset wanted =
     (if (case wb_bitmap d of None \<Rightarrow> False | Some b \<Rightarrow> \<not> HasAllocatedClusters b offset wanted)
      then Some (STATUS_SUCCESS, replicate wanted 0)
      else
        let sector_mask = wb_sector_size d - 1;
            read_offset = and_not64 offset sector_mask;
            end1 = add64 offset wanted;
            read_end = and_not64 (add64 end1 sector_mask) sector_mask;
            read_length = sub64 read_end read_offset
        in if \<not> read_length < 4294967296 then Some (STATUS_INVALID_PARAMETER, [])
           else if read_offset = offset \<and> read_length = wanted then read_direct d offset wanted
           else if read_length \<le> kRetainedReadBufferSize
           then read_bounced d offset wanted read_offset read_length
           else if \<not> wb_alloc d read_length
           then Some (ErrorClosure_call (wb_nt d) ERROR_NOT_ENOUGH_MEMORY, [])
           else read_bounced d offset wanted read_offset read_length)"

lemma and_not64_mask:
  assumes "k < 64" "a < two64"
  shows "and_not64 a (2 ^ k - 1) = a - a mod 2 ^ k"
proof -
  let ?w = "word_of_nat a :: 64 word"
  have m: "(word_of_nat (2 ^ k - 1) :: 64 word) = mask k"
    by (simp add: mask_eq_exp_minus_1 of_nat_diff)
  have "?w AND NOT (mask k) = push_bit k (drop_bit k ?w)"
    by (rule bit_word_eqI) (auto simp: bit_and_iff bit_not_iff bit_mask_iff bit_push_bit_iff bit_drop_bit_eq)
  moreover have "unat ?w = a" using assms(2) by (simp add: unat_of_nat)
  moreover have "unat (push_bit k (drop_bit k ?w)) = unat ?w div 2 ^ k * 2 ^ k"
  proof -
    have "a div 2 ^ k * 2 ^ k < two64"
      using div_times_less_eq_dividend [of a "2 ^ k"] assms(2) by linarith
    then have "unat ?w div 2 ^ k * 2 ^ k < 2 ^ 64" using calculation by simp
    then show ?thesis
      unfolding unsigned_push_bit_eq unat_drop_bit_eq
      by (simp add: push_bit_eq_mult drop_bit_eq_div take_bit_eq_mod)
  qed
  ultimately show ?thesis
    unfolding and_not64_def m by (simp only: minus_mod_eq_div_mult)
qed

text \<open>
  The precondition of \<open>Read\<close>: the sector size is a power of two that divides the
  length, and the length is a nonnegative \<open>LARGE_INTEGER\<close>.
\<close>

definition wb_inv :: "(nat \<Rightarrow> byte) \<Rightarrow> WindowsBlockDevice \<Rightarrow> bool" where
  "wb_inv raw d \<longleftrightarrow> handle_ok raw (wb_handle d) \<and> maps_errors (wb_nt d) \<and>
     (\<exists>k < 32. wb_sector_size d = 2 ^ k) \<and> wb_length d mod wb_sector_size d = 0 \<and>
     wb_length d < 9223372036854775808 \<and> (\<forall>b. wb_bitmap d = Some b \<longrightarrow> ab_inv b)"

definition wb_content :: "(nat \<Rightarrow> byte) \<Rightarrow> WindowsBlockDevice \<Rightarrow> nat \<Rightarrow> byte" where
  "wb_content raw d x =
     (case wb_bitmap d of None \<Rightarrow> raw x | Some b \<Rightarrow> if free_byte b x then 0 else raw x)"

text \<open>The sector-aligned request that covers a range of the device.\<close>

definition aligned_start :: "nat \<Rightarrow> nat \<Rightarrow> nat" where
  "aligned_start s off = off - off mod s"

definition aligned_end :: "nat \<Rightarrow> nat \<Rightarrow> nat" where
  "aligned_end s e = div_up e s * s"

lemma aligned_end_bounds:
  assumes "0 < s"
  shows "e \<le> aligned_end s e" "aligned_end s e < e + s" "aligned_end s e mod s = 0"
    "l mod s = 0 \<Longrightarrow> e \<le> l \<Longrightarrow> aligned_end s e \<le> l"
proof -
  show "e \<le> aligned_end s e" using div_up_bound [OF assms] by (simp add: aligned_end_def)
  show "aligned_end s e mod s = 0" by (simp add: aligned_end_def)
  show "aligned_end s e < e + s"
  proof (cases "e mod s = 0")
    case False
    have "div_up e s * s = e div s * s + s" using False by (simp add: div_up_def)
    moreover have "e div s * s + e mod s = e" by simp
    moreover have "0 < e mod s" using False by simp
    ultimately show ?thesis unfolding aligned_end_def by linarith
  qed (use assms in \<open>auto simp: aligned_end_def div_up_def\<close>)
  show "aligned_end s e \<le> l" if "l mod s = 0" "e \<le> l"
  proof -
    from that(1) obtain q where q: "l = q * s" by (metis dvdE mod_0_imp_dvd mult.commute)
    have "\<not> q < div_up e s" using div_up_less [OF assms, of q e] that(2) q by simp
    then show ?thesis unfolding aligned_end_def q by (intro mult_le_mono1) simp
  qed
qed

lemma aligned_end_mask:
  assumes "s = 2 ^ k"
  shows "e + (s - 1) - (e + (s - 1)) mod s = aligned_end s e"
proof -
  have s: "0 < s" using assms by simp
  have "div_up e s = (e + (s - 1)) div s"
  proof (rule linorder_cases [of "div_up e s" "(e + (s - 1)) div s"])
    assume "div_up e s < (e + (s - 1)) div s"
    then have "Suc (div_up e s) * s \<le> e + (s - 1)"
      by (intro less_eq_div_iff_mult_less_eq [OF s, THEN iffD1]) simp
    then show ?thesis using div_up_bound [OF s, of e] s by simp
  next
    assume "(e + (s - 1)) div s < div_up e s"
    then have "(e + (s - 1)) div s * s < e" using div_up_less [OF s] by simp
    moreover have "(e + (s - 1)) div s * s + (e + (s - 1)) mod s = e + (s - 1)" by simp
    moreover have "(e + (s - 1)) mod s \<le> s - 1" using s by (simp add: Suc_leI less_Suc_eq_le [symmetric])
    ultimately show ?thesis by linarith
  qed simp
  then show ?thesis by (simp add: aligned_end_def minus_mod_eq_div_mult)
qed

text \<open>The request of a read, computed with masks, is the aligned cover of its range.\<close>

lemma read_request:
  assumes "wb_inv raw d" "0 < w" "w < 4294967296" "off + w \<le> wb_length d"
  defines "s \<equiv> wb_sector_size d"
  shows "and_not64 off (s - 1) = aligned_start s off"
    and "and_not64 (add64 (add64 off w) (s - 1)) (s - 1) = aligned_end s (off + w)"
    and "sub64 (aligned_end s (off + w)) (aligned_start s off) = aligned_end s (off + w) - aligned_start s off"
    and "0 < s" "aligned_start s off \<le> off" "off + w \<le> aligned_end s (off + w)"
      "aligned_end s (off + w) \<le> wb_length d" "aligned_start s off mod s = 0"
      "(aligned_end s (off + w) - aligned_start s off) mod s = 0"
proof -
  from assms(1) obtain k where k: "k < 32" "s = 2 ^ k" unfolding wb_inv_def s_def by blast
  then show s: "0 < s" by simp
  have len: "wb_length d < 9223372036854775808" "wb_length d mod s = 0"
    using assms(1) by (simp_all add: wb_inv_def s_def)
  have "(2 :: nat) ^ k < 2 ^ 32" using k(1) by (intro power_strict_increasing) simp_all
  then have small: "s < 4294967296" using k(2) by simp
  show "and_not64 off (s - 1) = aligned_start s off"
    using and_not64_mask [of k off] k len(1) assms(4) by (simp add: aligned_start_def)
  have "add64 (add64 off w) (s - 1) = off + w + (s - 1)"
    using assms(4) len(1) small by (simp add: u64_arith)
  then show "and_not64 (add64 (add64 off w) (s - 1)) (s - 1) = aligned_end s (off + w)"
    using and_not64_mask [of k "off + w + (s - 1)"] k len(1) assms(4) small aligned_end_mask [OF k(2), of "off + w"]
    by simp
  show st: "aligned_start s off \<le> off" "aligned_start s off mod s = 0"
    using round_down [OF s, of off] by (simp_all add: aligned_start_def)
  note e = aligned_end_bounds [OF s, where e = "off + w"]
  show "off + w \<le> aligned_end s (off + w)" by (rule e(1))
  show "aligned_end s (off + w) \<le> wb_length d" by (rule e(4) [OF len(2) assms(4)])
  then show "sub64 (aligned_end s (off + w)) (aligned_start s off) = aligned_end s (off + w) - aligned_start s off"
    using st(1) e(1) len(1) by (intro sub64_exact) linarith+
  have "s dvd aligned_end s (off + w)" "s dvd aligned_start s off" using e(3) st(2) by auto
  then show "(aligned_end s (off + w) - aligned_start s off) mod s = 0"
    by (metis dvd_diff_nat dvd_imp_mod_0)
qed

text \<open>The reading half of \<open>Read\<close>, over the aligned request.\<close>

definition read_source :: "WindowsBlockDevice \<Rightarrow> nat \<Rightarrow> nat \<Rightarrow> nat \<Rightarrow> nat \<Rightarrow> (ntstatus \<times> byte list) option" where
  "read_source d offset wanted ro rl =
     (if \<not> rl < 4294967296 then Some (STATUS_INVALID_PARAMETER, [])
      else if ro = offset \<and> rl = wanted then read_direct d offset wanted
      else if rl \<le> kRetainedReadBufferSize \<or> wb_alloc d rl then read_bounced d offset wanted ro rl
      else Some (wb_nt d ERROR_NOT_ENOUGH_MEMORY, []))"

lemma Read_cases:
  assumes "wb_inv raw d" "0 < w" "w < 4294967296" "off + w \<le> wb_length d"
  defines "s \<equiv> wb_sector_size d"
  shows "WindowsBlockDevice_Read d off w =
    (if (case wb_bitmap d of None \<Rightarrow> False | Some b \<Rightarrow> \<forall>x. off \<le> x \<and> x < off + w \<longrightarrow> free_byte b x)
     then Some (STATUS_SUCCESS, replicate w 0)
     else read_source d off w (aligned_start s off) (aligned_end s (off + w) - aligned_start s off))"
proof -
  have len: "off + w \<le> two64" using assms(1,4) by (simp add: wb_inv_def)
  have "(case wb_bitmap d of None \<Rightarrow> False | Some b \<Rightarrow> \<not> HasAllocatedClusters b off w) \<longleftrightarrow>
      (case wb_bitmap d of None \<Rightarrow> False | Some b \<Rightarrow> \<forall>x. off \<le> x \<and> x < off + w \<longrightarrow> free_byte b x)"
    using HasAllocatedClusters_spec [OF _ assms(2) len] assms(1)
    by (auto simp: wb_inv_def split: option.splits)
  moreover have "(if \<not> rl < 4294967296 then Some (STATUS_INVALID_PARAMETER, [])
        else if ro = off \<and> rl = w then read_direct d off w
        else if rl \<le> kRetainedReadBufferSize then read_bounced d off w ro rl
        else if \<not> wb_alloc d rl then Some (ErrorClosure_call (wb_nt d) ERROR_NOT_ENOUGH_MEMORY, [])
        else read_bounced d off w ro rl) = read_source d off w ro rl" for ro rl
    by (simp add: read_source_def ErrorClosure_call_def)
  ultimately show ?thesis
    unfolding WindowsBlockDevice_Read_def Let_def s_def read_request(1-3) [OF assms(1-4)]
    by (simp only:)
qed

lemma synthesize_content:
  assumes "wb_inv raw d" "0 < w" "off + w \<le> wb_length d"
  shows "synthesize (wb_bitmap d) (image_bytes raw off w) off = Some (image_bytes (wb_content raw d) off w)"
proof (cases "wb_bitmap d")
  case None
  then show ?thesis by (simp add: synthesize_def wb_content_def [abs_def])
next
  case (Some b)
  have "ab_inv b" "image_bytes raw off w \<noteq> []" "off + length (image_bytes raw off w) < two64"
    using assms Some by (auto simp: wb_inv_def simp flip: length_greater_0_conv)
  from SynthesizeFreeClusters_spec [OF this]
  obtain out' where o: "SynthesizeFreeClusters b (image_bytes raw off w) off = Some out'" "length out' = w"
    "\<forall>i < w. out' ! i = (if free_byte b (off + i) then 0 else image_bytes raw off w ! i)" by auto
  have "out' = image_bytes (wb_content raw d) off w"
    using o(2,3) Some by (intro nth_equalityI) (simp_all add: wb_content_def)
  then show ?thesis using o(1) Some by (simp add: synthesize_def)
qed

lemma read_source_spec:
  assumes "wb_inv raw d" "0 < w" "w < 4294967296" "off + w \<le> wb_length d"
  defines "s \<equiv> wb_sector_size d"
  defines "ro \<equiv> aligned_start s off" and "rl \<equiv> aligned_end s (off + w) - aligned_start s off"
  shows "\<exists>st bs. read_source d off w ro rl = Some (st, bs) \<and>
           (NT_SUCCESS st \<longrightarrow> bs = image_bytes (wb_content raw d) off w)"
    and "handle_reads (wb_handle d) ro rl \<Longrightarrow> rl < 4294967296 \<Longrightarrow> rl \<le> kRetainedReadBufferSize \<or> wb_alloc d rl \<Longrightarrow>
           \<exists>bs. read_source d off w ro rl = Some (STATUS_SUCCESS, bs)"
proof -
  note rq = read_request [OF assms(1-4), folded s_def]
  have h: "handle_ok raw (wb_handle d)" "maps_errors (wb_nt d)"
    using assms(1) by (simp_all add: wb_inv_def)
  note ec = ErrorClosure_call_def [abs_def]
  obtain st bs where r: "ReadFromFile (wb_handle d) (wb_nt d) ro rl = (st, bs)" by (cases "ReadFromFile (wb_handle d) (wb_nt d) ro rl")
  have dir: "read_direct d off w = Some (if NT_SUCCESS st then (STATUS_SUCCESS, image_bytes (wb_content raw d) off w) else (st, bs))"
    if "ro = off" "rl = w"
    using r ReadFromFile_success [OF h r] synthesize_content [OF assms(1,2,4)] unfolding that read_direct_def ec by simp
  have bnc: "read_bounced d off w ro rl = Some (if NT_SUCCESS st then (STATUS_SUCCESS, image_bytes (wb_content raw d) off w) else (st, []))"
  proof (cases "NT_SUCCESS st")
    case True
    have "ro + (off - ro) = off" "min w (rl - (off - ro)) = w"
      using rq(5,6) by (simp_all add: ro_def rl_def)
    then have "take w (drop (off - ro) bs) = image_bytes raw off w"
      unfolding ReadFromFile_success(1) [OF h r True] by simp
    then show ?thesis using r True synthesize_content [OF assms(1,2,4)] by (simp add: read_bounced_def ec)
  qed (use r in \<open>simp add: read_bounced_def ec\<close>)
  have "\<not> NT_SUCCESS (wb_nt d ERROR_NOT_ENOUGH_MEMORY)" using h(2) by (simp add: maps_errors_def)
  then show "\<exists>st bs. read_source d off w ro rl = Some (st, bs) \<and>
      (NT_SUCCESS st \<longrightarrow> bs = image_bytes (wb_content raw d) off w)"
    using dir bnc by (auto simp: read_source_def)
  show "\<exists>bs. read_source d off w ro rl = Some (STATUS_SUCCESS, bs)"
    if "handle_reads (wb_handle d) ro rl" "rl < 4294967296" "rl \<le> kRetainedReadBufferSize \<or> wb_alloc d rl"
    using ReadFromFile_complete [OF that(1), of "wb_nt d"] r dir bnc that(2,3) by (auto simp: read_source_def)
qed

lemma zero_content:
  assumes "wb_bitmap d = Some b" "\<forall>x. off \<le> x \<and> x < off + w \<longrightarrow> free_byte b x"
  shows "replicate w 0 = image_bytes (wb_content raw d) off w"
  using assms by (intro nth_equalityI) (simp_all add: wb_content_def)

lemma WindowsBlockDevice_Read_spec:
  assumes "wb_inv raw d" "0 < w" "w < 4294967296" "off + w \<le> wb_length d"
  shows "\<exists>st bs. WindowsBlockDevice_Read d off w = Some (st, bs) \<and>
           (NT_SUCCESS st \<longrightarrow> bs = image_bytes (wb_content raw d) off w)"
  using read_source_spec(1) [OF assms] zero_content [of d _ off w raw]
  unfolding Read_cases [OF assms] by (auto split: option.splits)

interpretation windows: block_device "wb_inv raw" wb_length "wb_content raw" WindowsBlockDevice_Read for raw
proof (unfold_locales, goal_cases)
  case 1
  then show ?case using WindowsBlockDevice_Read_spec by blast
next
  case (2 d w off st bs)
  have "bs = image_bytes (wb_content raw d) off w"
    using WindowsBlockDevice_Read_spec [OF 2(1-4)] 2(5,6) by auto
  then show ?case using 2(2) by simp
qed

text \<open>
  \<open>Read\<close> issues at most one request to the handle, sector-aligned and inside the
  device: handles that agree on such requests cannot be told apart.
\<close>

lemma ReadFromFile_cong:
  "ReadFile h p n = ReadFile h' p n \<Longrightarrow> GetOverlappedResult h p n = GetOverlappedResult h' p n \<Longrightarrow>
   ReadFromFile h nt p n = ReadFromFile h' nt p n"
  by (simp add: ReadFromFile_def)

lemma Read_aligned_requests:
  assumes "wb_inv raw d" "0 < w" "w < 4294967296" "off + w \<le> wb_length d"
    and agree: "\<And>p n. p mod wb_sector_size d = 0 \<Longrightarrow> n mod wb_sector_size d = 0 \<Longrightarrow> 0 < n \<Longrightarrow>
      p + n \<le> wb_length d \<Longrightarrow> ReadFile h p n = ReadFile (wb_handle d) p n \<and>
      GetOverlappedResult h p n = GetOverlappedResult (wb_handle d) p n"
  shows "WindowsBlockDevice_Read (d\<lparr>wb_handle := h\<rparr>) off w = WindowsBlockDevice_Read d off w"
proof -
  define ro rl where "ro = aligned_start (wb_sector_size d) off"
    and "rl = aligned_end (wb_sector_size d) (off + w) - ro"
  note rq = read_request [OF assms(1-4)]
  have "ReadFile h ro rl = ReadFile (wb_handle d) ro rl \<and>
      GetOverlappedResult h ro rl = GetOverlappedResult (wb_handle d) ro rl"
    using rq(5-9) assms(2) unfolding ro_def rl_def by (intro agree) auto
  then have eq: "ReadFromFile h nt ro rl = ReadFromFile (wb_handle d) nt ro rl" for nt
    by (intro ReadFromFile_cong) auto
  have b: "read_bounced (d\<lparr>wb_handle := h\<rparr>) off w ro rl = read_bounced d off w ro rl"
    by (auto simp: read_bounced_def eq split: prod.splits)
  have d: "read_direct (d\<lparr>wb_handle := h\<rparr>) off w = read_direct d off w" if "ro = off \<and> rl = w"
    using eq that by (auto simp: read_direct_def split: prod.splits)
  have keep: "wb_bitmap (d\<lparr>wb_handle := h\<rparr>) = wb_bitmap d" "wb_alloc (d\<lparr>wb_handle := h\<rparr>) = wb_alloc d"
    "wb_sector_size (d\<lparr>wb_handle := h\<rparr>) = wb_sector_size d" "wb_nt (d\<lparr>wb_handle := h\<rparr>) = wb_nt d"
    by simp_all
  show ?thesis
    unfolding WindowsBlockDevice_Read_def Let_def keep rq(1,2) ro_def [symmetric]
      rq(3) [folded ro_def, folded rl_def] b using d by (simp cong: if_cong)
qed

text \<open>With a handle that completes the aligned request, \<open>Read\<close> succeeds.\<close>

lemma Read_completes:
  assumes "wb_inv raw d" "0 < w" "w < 4294967296" "off + w \<le> wb_length d"
  defines "s \<equiv> wb_sector_size d"
  defines "ro \<equiv> aligned_start s off" and "rl \<equiv> aligned_end s (off + w) - aligned_start s off"
  assumes "handle_reads (wb_handle d) ro rl" "rl < 4294967296" "rl \<le> kRetainedReadBufferSize \<or> wb_alloc d rl"
  shows "WindowsBlockDevice_Read d off w = Some (STATUS_SUCCESS, image_bytes (wb_content raw d) off w)"
proof -
  have "\<exists>bs. WindowsBlockDevice_Read d off w = Some (STATUS_SUCCESS, bs)"
    using read_source_spec(2) [OF assms(1-4)] assms(8-10) unfolding Read_cases [OF assms(1-4)]
    by (simp add: s_def ro_def rl_def)
  then show ?thesis using WindowsBlockDevice_Read_spec [OF assms(1-4)] by auto
qed

section \<open>\<open>OrdinaryFileBlockDevice\<close>\<close>

text \<open>
  \<open>of_event\<close> is the outcome of creating the thread's completion event: \<open>None\<close> when
  it exists, otherwise the last error.
\<close>

record OrdinaryFileBlockDevice =
  of_length :: nat
  of_handle :: file_handle
  of_event :: "nat option"
  of_nt :: "nat \<Rightarrow> ntstatus"

definition OrdinaryFileBlockDevice_FromHandle ::
    "nat + int \<Rightarrow> file_handle \<Rightarrow> nat option \<Rightarrow> (nat \<Rightarrow> ntstatus) \<Rightarrow> OrdinaryFileBlockDevice result" where
  "OrdinaryFileBlockDevice_FromHandle GetFileSizeEx h event nt =
     (case GetFileSizeEx of
        Inl err \<Rightarrow> Inl (SystemError err ''failed to query the length of file'')
      | Inr quad \<Rightarrow> if quad < 0 then Inl FastFail
          else Inr \<lparr>of_length = nat quad, of_handle = h, of_event = event, of_nt = nt\<rparr>)"

definition OrdinaryFileBlockDevice_Read ::
    "OrdinaryFileBlockDevice \<Rightarrow> nat \<Rightarrow> nat \<Rightarrow> (ntstatus \<times> byte list) option" where
  "OrdinaryFileBlockDevice_Read d offset wanted =
     (case of_event d of
        Some err \<Rightarrow> Some (ErrorClosure_call (of_nt d) err, [])
      | None \<Rightarrow> Some (ReadFromFile (of_handle d) (ErrorClosure_call (of_nt d)) offset wanted))"

definition of_inv :: "(nat \<Rightarrow> byte) \<Rightarrow> OrdinaryFileBlockDevice \<Rightarrow> bool" where
  "of_inv raw d \<longleftrightarrow> handle_ok raw (of_handle d) \<and> maps_errors (of_nt d) \<and> of_event d \<noteq> Some 0"

interpretation ordinary: block_device "of_inv raw" of_length "\<lambda>_. raw" OrdinaryFileBlockDevice_Read for raw
proof (unfold_locales, goal_cases)
  case (1 d w off)
  then show ?case by (cases "of_event d") (auto simp: OrdinaryFileBlockDevice_Read_def intro: surj_pair)
next
  case (2 d w off st bs)
  show ?case
  proof (cases "of_event d")
    case None
    then have "ReadFromFile (of_handle d) (of_nt d) off w = (st, bs)"
      using 2(5) by (simp add: OrdinaryFileBlockDevice_Read_def ErrorClosure_call_def [abs_def])
    then have "bs = image_bytes raw off w" using ReadFromFile_success 2(1,6) by (auto simp: of_inv_def)
    then show ?thesis using 2(2) by simp
  next
    case (Some err)
    then show ?thesis
      using 2(1,5,6) by (auto simp: OrdinaryFileBlockDevice_Read_def ErrorClosure_call_def of_inv_def maps_errors_def)
  qed
qed

section \<open>\<open>MemoryBlockDevice\<close>\<close>

record MemoryBlockDevice =
  mem_length :: nat
  mem_contents :: "byte list"

definition MemoryBlockDevice_Read ::
    "MemoryBlockDevice \<Rightarrow> nat \<Rightarrow> nat \<Rightarrow> (ntstatus \<times> byte list) option" where
  "MemoryBlockDevice_Read d offset wanted =
     Some (STATUS_SUCCESS, take wanted (drop offset (mem_contents d)))"

interpretation memory: block_device "\<lambda>d. length (mem_contents d) = mem_length d" mem_length
  "\<lambda>d x. mem_contents d ! x" MemoryBlockDevice_Read
proof (unfold_locales, goal_cases)
  case (2 d w off st bs)
  then have "bs = image_bytes (\<lambda>x. mem_contents d ! x) off w"
    by (auto simp: MemoryBlockDevice_Read_def intro!: nth_equalityI)
  then show ?case using 2(2) by simp
qed (simp add: MemoryBlockDevice_Read_def)

end
