(* ===== verification/ReallocVec.thy ===== *)
theory ReallocVec
  imports Prelude
begin

text \<open>
  \<open>ReallocVector<T>\<close> of \<open>src/modules/bitmap_set.ixx\<close>: a growable array whose
  storage comes from \<open>std::realloc\<close>.  The object holds its size bound, its
  size, its reservation and the buffer; the buffer is a list of exactly
  \<open>rv_reservation\<close> elements.  \<open>std::realloc\<close> may fail for any request: the
  parameter \<open>heap\<close> says for each byte count whether it succeeds.  An element
  type is represented by its \<open>sizeof\<close> (8 for \<open>uint64_t\<close>, 1 for
  \<open>unsigned char\<close>) and its all-zero value 0.

  The class promises more than its interface states: the unused part of the
  reservation is always zero, which is why the fast path of \<open>resize\<close> may grow
  the array without touching memory.
\<close>

record 'a ReallocVector =
  elem_size :: nat
  rv_max :: nat
  rv_size :: nat
  rv_reservation :: nat
  rv_storage :: "'a list"

type_synonym heap = "nat \<Rightarrow> bool"

definition ReallocVector_max_size :: "nat \<Rightarrow> nat" where
  "ReallocVector_max_size sz = (two64 - 1) div sz"

definition ReallocVector_new :: "nat \<Rightarrow> nat \<Rightarrow> 'a ReallocVector" where
  "ReallocVector_new sz maximum_size =
     \<lparr>elem_size = sz, rv_max = min maximum_size (ReallocVector_max_size sz),
      rv_size = 0, rv_reservation = 0, rv_storage = []\<rparr>"

definition ReallocVector_clear :: "'a ReallocVector \<Rightarrow> 'a ReallocVector" where
  "ReallocVector_clear v = v\<lparr>rv_size := 0, rv_reservation := 0, rv_storage := []\<rparr>"

definition new_reservation_size :: "'a ReallocVector \<Rightarrow> nat \<Rightarrow> nat" where
  "new_reservation_size v new_size =
     (if new_size < rv_size v then new_size
      else
        let minimum_reservation = min 10 (rv_max v);
            fraction_max_size = rv_max v div 2;
            proposed_max = (if rv_reservation v > fraction_max_size then rv_max v
                            else mul64 (rv_reservation v) 2)
        in if new_size > minimum_reservation
           then (if new_size > proposed_max then new_size else proposed_max)
           else (if minimum_reservation > proposed_max then minimum_reservation
                 else proposed_max))"

definition realloc_zeroed :: "'a::zero ReallocVector \<Rightarrow> nat \<Rightarrow> 'a list" where
  "realloc_zeroed v n =
     take n (rv_storage v) @ replicate (n - rv_reservation v) 0"

definition resize_allocation ::
    "heap \<Rightarrow> 'a::zero ReallocVector \<Rightarrow> nat \<Rightarrow> 'a ReallocVector result" where
  "resize_allocation heap v new_size =
     (if new_size \<noteq> 0 then
        if new_size > rv_max v then Inl BadAlloc
        else
          let new_reservation = new_reservation_size v new_size
          in if \<not> heap (mul64 new_reservation (elem_size v)) then Inl BadAlloc
             else Inr (v\<lparr>rv_storage := realloc_zeroed v new_reservation,
                         rv_reservation := new_reservation, rv_size := new_size\<rparr>)
      else Inr (ReallocVector_clear v))"

definition ReallocVector_resize ::
    "heap \<Rightarrow> 'a::zero ReallocVector \<Rightarrow> nat \<Rightarrow> 'a ReallocVector result" where
  "ReallocVector_resize heap v new_size =
     (if rv_size v \<le> new_size \<and> new_size \<le> rv_reservation v
      then Inr (v\<lparr>rv_size := new_size\<rparr>)
      else resize_allocation heap v new_size)"

text \<open>
  \<open>operator[]\<close> does not check its index; the model reads and writes the buffer,
  and the well-formedness invariant together with the callers' bounds makes
  every access of the source fall inside it.  \<open>contents\<close> is the span the
  conversion operator returns.
\<close>

definition ReallocVector_get :: "'a ReallocVector \<Rightarrow> nat \<Rightarrow> 'a" where
  "ReallocVector_get v i = rv_storage v ! i"

definition ReallocVector_set :: "'a ReallocVector \<Rightarrow> nat \<Rightarrow> 'a \<Rightarrow> 'a ReallocVector" where
  "ReallocVector_set v i x = v\<lparr>rv_storage := (rv_storage v)[i := x]\<rparr>"

definition ReallocVector_contents :: "'a ReallocVector \<Rightarrow> 'a list" where
  "ReallocVector_contents v = take (rv_size v) (rv_storage v)"

section \<open>Well-formedness and behaviour\<close>

definition rv_inv :: "'a::zero ReallocVector \<Rightarrow> bool" where
  "rv_inv v \<longleftrightarrow> 0 < elem_size v \<and> rv_max v \<le> ReallocVector_max_size (elem_size v)
     \<and> rv_size v \<le> rv_reservation v \<and> rv_reservation v \<le> rv_max v
     \<and> length (rv_storage v) = rv_reservation v
     \<and> (\<forall>i. rv_size v \<le> i \<longrightarrow> i < rv_reservation v \<longrightarrow> rv_storage v ! i = 0)"

lemma rv_inv_new [simp]: "0 < sz \<Longrightarrow> rv_inv (ReallocVector_new sz m)"
  by (simp add: rv_inv_def ReallocVector_new_def)

lemma rv_inv_clear [simp]: "rv_inv v \<Longrightarrow> rv_inv (ReallocVector_clear v)"
  by (simp add: rv_inv_def ReallocVector_clear_def)

lemma rv_max_lt:
  assumes "rv_inv v"
  shows "rv_max v * elem_size v < two64"
proof -
  have "rv_max v * elem_size v \<le> (two64 - 1) div elem_size v * elem_size v"
    using assms by (intro mult_le_mono1) (simp add: rv_inv_def ReallocVector_max_size_def)
  also have "\<dots> \<le> two64 - 1" by (rule div_times_less_eq_dividend)
  finally show ?thesis by simp
qed

lemma rv_max_lt': "rv_inv v \<Longrightarrow> rv_max v < two64"
  using rv_max_lt [of v] by (cases "elem_size v") (auto simp: rv_inv_def)

lemma length_contents [simp]:
  "rv_inv v \<Longrightarrow> length (ReallocVector_contents v) = rv_size v"
  by (simp add: rv_inv_def ReallocVector_contents_def)

lemma nth_contents:
  "rv_inv v \<Longrightarrow> i < rv_size v \<Longrightarrow> ReallocVector_contents v ! i = ReallocVector_get v i"
  by (simp add: rv_inv_def ReallocVector_contents_def ReallocVector_get_def)

lemma new_reservation_bounds:
  assumes "rv_inv v" "new_size \<le> rv_max v" "0 < new_size"
  shows "new_size \<le> new_reservation_size v new_size"
    and "new_reservation_size v new_size \<le> rv_max v"
proof -
  have m: "rv_max v < two64" by (rule rv_max_lt' [OF assms(1)])
  have dbl: "mul64 (rv_reservation v) 2 = rv_reservation v * 2"
    if "rv_reservation v \<le> rv_max v div 2"
    using that m by (intro mul64_exact) linarith
  show "new_size \<le> new_reservation_size v new_size"
    by (auto simp: new_reservation_size_def Let_def)
  show "new_reservation_size v new_size \<le> rv_max v"
    using assms dbl by (auto simp: new_reservation_size_def Let_def not_less)
qed

text \<open>
  The contract of \<open>resize\<close>: it keeps the invariant, sets the size, keeps the
  elements that survive, and every element it adds is zero.
\<close>

lemma resize_spec:
  assumes inv: "rv_inv v" and ok: "ReallocVector_resize heap v n = Inr v'"
  shows "rv_inv v'" "rv_size v' = n" "rv_max v' = rv_max v" "elem_size v' = elem_size v"
    and "\<And>i. i < n \<Longrightarrow> ReallocVector_get v' i =
           (if i < rv_size v then ReallocVector_get v i else 0)"
proof -
  consider (fast) "rv_size v \<le> n" "n \<le> rv_reservation v" "v' = v\<lparr>rv_size := n\<rparr>"
    | (zero) "n = 0" "v' = ReallocVector_clear v"
    | (slow) r where "0 < n" "n \<le> rv_max v" "r = new_reservation_size v n"
        "\<not> (rv_size v \<le> n \<and> n \<le> rv_reservation v)"
        "v' = v\<lparr>rv_storage := realloc_zeroed v r, rv_reservation := r, rv_size := n\<rparr>"
    using ok by (auto simp: ReallocVector_resize_def resize_allocation_def Let_def
        split: if_splits)
  then have "rv_inv v' \<and> rv_size v' = n \<and> rv_max v' = rv_max v
    \<and> elem_size v' = elem_size v \<and> (\<forall>i<n. ReallocVector_get v' i =
         (if i < rv_size v then ReallocVector_get v i else 0))"
  proof cases
    case fast
    with inv show ?thesis by (auto simp: rv_inv_def ReallocVector_get_def)
  next
    case zero
    with inv show ?thesis by (simp add: rv_inv_clear) (simp add: ReallocVector_clear_def)
  next
    case slow
    have r: "n \<le> r" "r \<le> rv_max v"
      using new_reservation_bounds [OF inv slow(2,1)] slow(3) by simp_all
    have shrink: "n < rv_size v \<Longrightarrow> r = n"
      using slow(3) by (simp add: new_reservation_size_def)
    have get: "realloc_zeroed v r ! i = (if i < rv_size v then rv_storage v ! i else 0)"
      if "i < r" for i
      using that inv by (auto simp: realloc_zeroed_def rv_inv_def nth_append)
    have len: "length (realloc_zeroed v r) = r"
      using inv by (simp add: realloc_zeroed_def rv_inv_def)
    show ?thesis
      using slow(4,5) r shrink get len inv by (auto simp: rv_inv_def ReallocVector_get_def)
  qed
  then show "rv_inv v'" "rv_size v' = n" "rv_max v' = rv_max v" "elem_size v' = elem_size v"
    "\<And>i. i < n \<Longrightarrow> ReallocVector_get v' i = (if i < rv_size v then ReallocVector_get v i else 0)"
    by auto
qed

text \<open>When it fails, the request exceeded the bound or the allocator refused it.\<close>

lemma resize_succeeds:
  assumes "rv_inv v" "n \<le> rv_max v" "\<And>b. heap b"
  shows "\<exists>v'. ReallocVector_resize heap v n = Inr v'"
  using assms by (auto simp: ReallocVector_resize_def resize_allocation_def Let_def)

lemma resize_fails_BadAlloc:
  "ReallocVector_resize heap v n = Inl e \<Longrightarrow> e = BadAlloc"
  by (auto simp: ReallocVector_resize_def resize_allocation_def Let_def split: if_splits)

lemma set_spec:
  assumes "rv_inv v" "i < rv_size v"
  shows "rv_inv (ReallocVector_set v i x)"
    and "rv_size (ReallocVector_set v i x) = rv_size v"
    and "rv_max (ReallocVector_set v i x) = rv_max v"
    and "\<And>j. ReallocVector_get (ReallocVector_set v i x) j =
           (if j = i then x else ReallocVector_get v j)"
  using assms
  by (auto simp: rv_inv_def ReallocVector_set_def ReallocVector_get_def nth_list_update)

text \<open>Realloc never asks for a wrapped byte count.\<close>

lemma realloc_bytes_exact:
  assumes "rv_inv v" "0 < n" "n \<le> rv_max v"
  shows "mul64 (new_reservation_size v n) (elem_size v)
       = new_reservation_size v n * elem_size v"
proof (rule mul64_exact)
  have "new_reservation_size v n * elem_size v \<le> rv_max v * elem_size v"
    using new_reservation_bounds(2) [OF assms(1,3,2)] by (rule mult_le_mono1)
  then show "new_reservation_size v n * elem_size v < two64"
    using rv_max_lt [OF assms(1)] by linarith
qed

end
