(* ===== verification/VectorReduction.thy ===== *)
theory VectorReduction
  imports ReallocVec
begin

text \<open>
  \<open>src/modules/byte_comparison.ixx\<close>: reducing a bitmap to a coarser one with
  vector instructions.  A vector register is the
  list of its bytes; an instruction that works on wider lanes sees the
  little-endian lanes.  Each intrinsic is defined as its architecture manual
  specifies it.  This theory holds the paths of fixed width (SSE2, AVX2, both AVX-512 forms, NEON); each
  computes the same bitmap: output bit \<open>k\<close> is set exactly
  when region \<open>k\<close> of the input has a nonzero byte.
\<close>

section \<open>Registers and intrinsics\<close>

function lanes :: "nat \<Rightarrow> byte list \<Rightarrow> 'a::len word list" where
  "lanes k v = (if k = 0 \<or> v = [] then [] else le_word (take k v) # lanes k (drop k v))"
  by pat_completeness auto

termination by (relation "measure (\<lambda>(_, v). length v)") auto

declare lanes.simps [simp del]

definition LoadVector :: "nat \<Rightarrow> byte list \<Rightarrow> nat \<Rightarrow> byte list" where
  "LoadVector width input off = take width (drop off input)"

definition VectorBitwiseOr :: "'a::len word list \<Rightarrow> 'a word list \<Rightarrow> 'a word list" where
  "VectorBitwiseOr left right = map2 (OR) left right"

function ReducePairwise :: "('v \<Rightarrow> 'v \<Rightarrow> 'v) \<Rightarrow> 'v list \<Rightarrow> 'v" where
  "ReducePairwise f vs =
     (if length vs \<le> 2 then f (vs ! 0) (vs ! 1)
      else let half = length vs div 2
           in f (ReducePairwise f (take half vs)) (ReducePairwise f (drop half vs)))"
  by pat_completeness auto

termination by (relation "measure (\<lambda>(_, vs). length vs)") auto

declare ReducePairwise.simps [simp del]

text \<open>Unpacking, per 128-bit block: 32-bit lanes, pairs of 32-bit lanes, and 64-bit lanes.\<close>

fun unpacklo_epi32 :: "32 word list \<Rightarrow> 32 word list \<Rightarrow> 32 word list" where
  "unpacklo_epi32 (a0 # a1 # a2 # a3 # as) (b0 # b1 # b2 # b3 # bs) =
     a0 # b0 # a1 # b1 # unpacklo_epi32 as bs"
| "unpacklo_epi32 _ _ = []"

fun unpackhi_epi32 :: "32 word list \<Rightarrow> 32 word list \<Rightarrow> 32 word list" where
  "unpackhi_epi32 (a0 # a1 # a2 # a3 # as) (b0 # b1 # b2 # b3 # bs) =
     a2 # b2 # a3 # b3 # unpackhi_epi32 as bs"
| "unpackhi_epi32 _ _ = []"

fun unpacklo_epi64 :: "32 word list \<Rightarrow> 32 word list \<Rightarrow> 32 word list" where
  "unpacklo_epi64 (a0 # a1 # a2 # a3 # as) (b0 # b1 # b2 # b3 # bs) =
     a0 # a1 # b0 # b1 # unpacklo_epi64 as bs"
| "unpacklo_epi64 _ _ = []"

fun unpackhi_epi64 :: "32 word list \<Rightarrow> 32 word list \<Rightarrow> 32 word list" where
  "unpackhi_epi64 (a0 # a1 # a2 # a3 # as) (b0 # b1 # b2 # b3 # bs) =
     a2 # a3 # b2 # b3 # unpackhi_epi64 as bs"
| "unpackhi_epi64 _ _ = []"

fun mm512_unpacklo_epi64 :: "64 word list \<Rightarrow> 64 word list \<Rightarrow> 64 word list" where
  "mm512_unpacklo_epi64 (a0 # a1 # as) (b0 # b1 # bs) = a0 # b0 # mm512_unpacklo_epi64 as bs"
| "mm512_unpacklo_epi64 _ _ = []"

fun mm512_unpackhi_epi64 :: "64 word list \<Rightarrow> 64 word list \<Rightarrow> 64 word list" where
  "mm512_unpackhi_epi64 (a0 # a1 # as) (b0 # b1 # bs) = a1 # b1 # mm512_unpackhi_epi64 as bs"
| "mm512_unpackhi_epi64 _ _ = []"

text \<open>
  \<open>_MM_SHUFFLE(z, y, x, w)\<close> selects \<open>w\<close> for the lowest position.  The 128-bit
  block \<open>i\<close> of a 512-bit register is its 64-bit lanes \<open>2 * i\<close> and \<open>2 * i + 1\<close>.
\<close>

definition block128 :: "64 word list \<Rightarrow> nat \<Rightarrow> 64 word list" where
  "block128 v i = [v ! (2 * i), v ! (2 * i + 1)]"

definition mm512_shuffle_i64x2 ::
    "64 word list \<Rightarrow> 64 word list \<Rightarrow> nat \<times> nat \<times> nat \<times> nat \<Rightarrow> 64 word list" where
  "mm512_shuffle_i64x2 left right sel =
     (case sel of (z, y, x, w) \<Rightarrow> block128 left w @ block128 left x @ block128 right y @ block128 right z)"

definition mm512_permutex_epi64 :: "64 word list \<Rightarrow> nat \<times> nat \<times> nat \<times> nat \<Rightarrow> 64 word list" where
  "mm512_permutex_epi64 v sel =
     (case sel of (z, y, x, w) \<Rightarrow> [v ! w, v ! x, v ! y, v ! z, v ! (4 + w), v ! (4 + x), v ! (4 + y), v ! (4 + z)])"

text \<open>A mask register or \<open>movemask\<close> result: bit \<open>i\<close> is the \<open>i\<close>-th comparison.\<close>

fun mask_of :: "bool list \<Rightarrow> byte" where
  "mask_of [] = 0"
| "mask_of (b # bs) = (if b then 1 else 0) OR push_bit 1 (mask_of bs)"

definition CombineAdjacentLanes :: "64 word list \<Rightarrow> 64 word list \<Rightarrow> 64 word list" where
  "CombineAdjacentLanes left right =
     VectorBitwiseOr (mm512_unpacklo_epi64 left right) (mm512_unpackhi_epi64 left right)"

definition InterleaveAndBitwiseOr :: "64 word list \<Rightarrow> 64 word list \<Rightarrow> 64 word list" where
  "InterleaveAndBitwiseOr left right =
     VectorBitwiseOr (mm512_shuffle_i64x2 left right (2, 0, 2, 0))
       (mm512_shuffle_i64x2 left right (3, 1, 3, 1))"

section \<open>Packing eight regions into a byte\<close>

text \<open>Four 512-bit vectors with two regions each.\<close>

definition ReduceVectors512x2 :: "64 word list list \<Rightarrow> byte" where
  "ReduceVectors512x2 vs =
     (case vs of [ab, cd, ef, gh] \<Rightarrow>
        let groups = InterleaveAndBitwiseOr (CombineAdjacentLanes ab cd) (CombineAdjacentLanes ef gh);
            ordered = mm512_permutex_epi64 groups (3, 1, 2, 0)
        in mask_of (map (\<lambda>x. x \<noteq> 0) ordered)
      | _ \<Rightarrow> 0)"

definition ReduceVectors512 :: "64 word list list \<Rightarrow> byte" where
  "ReduceVectors512 vs =
     (case vs of [a, b, c, d, e, f, g, h] \<Rightarrow>
        let groups = InterleaveAndBitwiseOr
              (InterleaveAndBitwiseOr (CombineAdjacentLanes a b) (CombineAdjacentLanes c d))
              (InterleaveAndBitwiseOr (CombineAdjacentLanes e f) (CombineAdjacentLanes g h))
        in mask_of (map (\<lambda>x. x \<noteq> 0) groups)
      | _ \<Rightarrow> 0)"

text \<open>The 128-bit and 256-bit x64 forms: two nibbles.\<close>

definition nibble_groups :: "bool \<Rightarrow> 32 word list \<Rightarrow> 32 word list \<Rightarrow> 32 word list \<Rightarrow> 32 word list \<Rightarrow> 32 word list" where
  "nibble_groups is256 first second third fourth =
     (let ab = VectorBitwiseOr (unpacklo_epi32 first second) (unpackhi_epi32 first second);
          cd = VectorBitwiseOr (unpacklo_epi32 third fourth) (unpackhi_epi32 third fourth);
          halves = VectorBitwiseOr (unpacklo_epi64 ab cd) (unpackhi_epi64 ab cd)
      in if is256 then VectorBitwiseOr (take 4 halves) (drop 4 halves) else halves)"

definition nibble :: "bool \<Rightarrow> 32 word list \<Rightarrow> 32 word list \<Rightarrow> 32 word list \<Rightarrow> 32 word list \<Rightarrow> byte" where
  "nibble is256 first second third fourth =
     (let masks = map (\<lambda>x. if x = 0 then - 1 else (0 :: 32 word))
                    (nibble_groups is256 first second third fourth)
      in mask_of (map (\<lambda>m. bit m 31) masks) XOR 15)"

definition ReduceVectorsX64 :: "bool \<Rightarrow> 32 word list list \<Rightarrow> byte" where
  "ReduceVectorsX64 is256 vs =
     (case vs of [a, b, c, d, e, f, g, h] \<Rightarrow>
        nibble is256 a b c d OR push_bit 4 (nibble is256 e f g h)
      | _ \<Rightarrow> 0)"

text \<open>NEON: pairwise maxima, a comparison, and the sum of the selected weights.\<close>

fun pairs_max :: "byte list \<Rightarrow> byte list" where
  "pairs_max (a # b # rest) = max a b # pairs_max rest"
| "pairs_max _ = []"

definition vpmaxq_u8 :: "byte list \<Rightarrow> byte list \<Rightarrow> byte list" where
  "vpmaxq_u8 left right = pairs_max (left @ right)"

definition ReduceVectorsNeon :: "byte list list \<Rightarrow> byte" where
  "ReduceVectorsNeon vs =
     (let pairs = ReducePairwise vpmaxq_u8 vs;
          maxima = take 8 (vpmaxq_u8 pairs pairs);
          masks = map (\<lambda>m. if 0 < m then - 1 else (0 :: byte)) maxima
      in sum_list (map2 (AND) masks [1, 2, 4, 8, 16, 32, 64, 128]))"

datatype engine = M128 | M256 | M512 | M512x2 | Neon

fun vector_bytes :: "engine \<Rightarrow> nat" where
  "vector_bytes M128 = 16"
| "vector_bytes M256 = 32"
| "vector_bytes M512 = 64"
| "vector_bytes M512x2 = 64"
| "vector_bytes Neon = 16"

fun regions_per_group :: "engine \<Rightarrow> nat" where
  "regions_per_group M512x2 = 2"
| "regions_per_group _ = 1"

fun ReduceVectorsToBitmapByte :: "engine \<Rightarrow> byte list list \<Rightarrow> byte" where
  "ReduceVectorsToBitmapByte M128 vs = ReduceVectorsX64 False (map (lanes 4) vs)"
| "ReduceVectorsToBitmapByte M256 vs = ReduceVectorsX64 True (map (lanes 4) vs)"
| "ReduceVectorsToBitmapByte M512 vs = ReduceVectors512 (map (lanes 8) vs)"
| "ReduceVectorsToBitmapByte M512x2 vs = ReduceVectors512x2 (map (lanes 8) vs)"
| "ReduceVectorsToBitmapByte Neon vs = ReduceVectorsNeon vs"

section \<open>Reducing a bitmap\<close>

definition has_single_bit :: "nat \<Rightarrow> bool" where
  "has_single_bit n \<longleftrightarrow> popcount (word_of_nat n :: 64 word) = 1"

definition kExpandBitmapReduction :: "nat \<Rightarrow> nat \<Rightarrow> bool" where
  "kExpandBitmapReduction group_bytes width \<longleftrightarrow>
     group_bytes \<le> 128 \<and> has_single_bit (group_bytes div width)"

text \<open>
  \<open>group_expanded\<close> loads a group of \<open>count\<close> vectors and combines them in a tree;
  \<open>group_loop\<close> is the loop that advances one accumulator over a group.
\<close>

definition group_expanded :: "nat \<Rightarrow> byte list \<Rightarrow> nat \<Rightarrow> nat \<Rightarrow> byte list" where
  "group_expanded width input count start =
     (if count = 1 then LoadVector width input start
      else ReducePairwise VectorBitwiseOr
             (map (\<lambda>i. LoadVector width input (start + i * width)) [0..<count]))"

definition group_loop :: "nat \<Rightarrow> byte list \<Rightarrow> nat \<Rightarrow> nat \<Rightarrow> byte list" where
  "group_loop width input count start =
     foldl (\<lambda>acc i. VectorBitwiseOr acc (LoadVector width input (start + i * width)))
       (LoadVector width input start) [1..<count]"

text \<open>
  \<open>bytes_per_bit\<close> is \<open>words_per_bit * sizeof(T)\<close>; the storage is the list of its
  bytes, as \<open>ByteViewCast\<close> sees it.
\<close>

definition pack :: "engine \<Rightarrow> nat \<Rightarrow> byte list \<Rightarrow> nat \<Rightarrow> byte" where
  "pack e bytes_per_bit input b =
     (let r = regions_per_group e;
          width = vector_bytes e;
          group_bytes = bytes_per_bit * r;
          vector_count = group_bytes div width
      in if vector_count = 1 \<or> kExpandBitmapReduction group_bytes width
         then ReduceVectorsToBitmapByte e
                (map (\<lambda>i. group_expanded width input vector_count ((b + i * r) * bytes_per_bit))
                   [0..<8 div r])
         else ReduceVectorsToBitmapByte e
                (map (\<lambda>g. group_loop width input vector_count (b * bytes_per_bit + g * group_bytes))
                   [0..<4 div r] @
                 map (\<lambda>g. group_loop width input vector_count ((b + 4) * bytes_per_bit + g * group_bytes))
                   [0..<4 div r]))"

text \<open>
  The two loops over the output: the complete bytes, each packed from eight regions, and the
  bits of the last incomplete byte, set where a region is not zero.  The SVE code runs the same loops over its own instructions.
\<close>

function reduce_complete :: "(nat \<Rightarrow> byte) \<Rightarrow> nat \<Rightarrow> nat \<Rightarrow> byte list \<Rightarrow> nat \<times> byte list" where
  "reduce_complete pack_byte complete_bits b out =
     (if 8 \<le> complete_bits - b
      then reduce_complete pack_byte complete_bits (b + 8) (out[b div 8 := pack_byte b])
      else (b, out))"
  by pat_completeness auto

termination by (relation "measure (\<lambda>(_, c, b, _). c - b)") auto

declare reduce_complete.simps [simp del]

function reduce_tail :: "(nat \<Rightarrow> bool) \<Rightarrow> nat \<Rightarrow> nat \<Rightarrow> nat \<Rightarrow> nat \<Rightarrow> byte list \<Rightarrow> byte list" where
  "reduce_tail nonzero bytes_per_bit size1 first b out =
     (if first < size1 \<and> 0 < bytes_per_bit then
        reduce_tail nonzero bytes_per_bit size1 (first + bytes_per_bit) (b + 1)
          (if nonzero first then out[b div 8 := (out ! (b div 8)) OR push_bit (b mod 8) 1] else out)
      else out)"
  by pat_completeness auto

termination by (relation "measure (\<lambda>(_, _, size1, first, _, _). size1 - first)") auto

declare reduce_tail.simps [simp del]

text \<open>
  A nonempty range is all zero if its first byte is zero and every
  later byte equals the byte before it.
\<close>

definition neighbours_differ :: "nat \<Rightarrow> byte list \<Rightarrow> nat \<Rightarrow> bool" where
  "neighbours_differ bytes_per_bit input first \<longleftrightarrow>
     (let size1 = min bytes_per_bit (length input - first)
      in input ! first \<noteq> 0 \<or> take (size1 - 1) (drop first input) \<noteq> take (size1 - 1) (drop (first + 1) input))"

definition reduce_with :: "engine \<Rightarrow> nat \<Rightarrow> byte list \<Rightarrow> byte list \<Rightarrow> byte list" where
  "reduce_with e bytes_per_bit input out =
     (case reduce_complete (pack e bytes_per_bit input) (length input div bytes_per_bit) 0 out of
        (b, out') \<Rightarrow> reduce_tail (neighbours_differ bytes_per_bit input) bytes_per_bit (length input) (b * bytes_per_bit) b out')"

section \<open>Nonzero vectors\<close>

definition nz :: "'a::len word list \<Rightarrow> bool" where
  "nz v \<longleftrightarrow> (\<exists>x \<in> set v. x \<noteq> 0)"

lemma nz_simps [simp]:
  "\<not> nz []" "nz (x # v) \<longleftrightarrow> x \<noteq> 0 \<or> nz v" "nz (v @ w) \<longleftrightarrow> nz v \<or> nz w"
  by (auto simp: nz_def)

lemma word_or_eq_0 [simp]: "(x :: 'a::len word) OR y = 0 \<longleftrightarrow> x = 0 \<and> y = 0"
  by (auto simp: word_eq_0_iff_bits bit_or_iff)

lemma bit_mask_of: "bit (mask_of bs) i \<longleftrightarrow> i < 8 \<and> i < length bs \<and> bs ! i"
proof (induction bs arbitrary: i)
  case (Cons b bs)
  show ?case
  proof (cases i)
    case 0
    then show ?thesis unfolding mask_of.simps bit_or_iff bit_push_bit_iff by simp
  next
    case (Suc j)
    have "\<not> bit ((if b then 1 else 0) :: byte) (Suc j)" by simp
    then show ?thesis using Cons.IH [of j] Suc
      unfolding mask_of.simps bit_or_iff bit_push_bit_iff by auto
  qed
qed simp

lemma le_word_eq_0:
  assumes "8 * length bs \<le> LENGTH('a::len)"
  shows "(le_word bs :: 'a word) = 0 \<longleftrightarrow> \<not> nz bs"
proof -
  have "bit (le_word bs :: 'a word) (8 * i + j) \<longleftrightarrow> bit (bs ! i) j" if "i < length bs" "j < 8" for i j
    using that assms by (simp add: bit_le_word)
  moreover have "(bs ! i) \<noteq> 0 \<longleftrightarrow> (\<exists>j < 8. bit (bs ! i) j)" for i by (simp add: word_neq_0_bit)
  moreover have "nz bs \<longleftrightarrow> (\<exists>i < length bs. bs ! i \<noteq> 0)" unfolding nz_def by (metis in_set_conv_nth)
  ultimately have "nz bs \<Longrightarrow> (le_word bs :: 'a word) \<noteq> 0"
    unfolding word_eq_0_iff_bits by metis
  moreover have "(le_word bs :: 'a word) \<noteq> 0 \<Longrightarrow> nz bs"
    unfolding word_eq_0_iff_bits bit_le_word nz_def by (metis bit_0_eq bot_apply bot_bool_def nth_mem)
  ultimately show ?thesis by blast
qed

lemma nz_lanes:
  assumes "0 < k" "8 * k \<le> LENGTH('a::len)"
  shows "nz (lanes k v :: 'a word list) \<longleftrightarrow> nz v"
proof (induction "length v" arbitrary: v rule: less_induct)
  case less
  show ?case
  proof (cases "v = []")
    case False
    have "nz v \<longleftrightarrow> nz (take k v) \<or> nz (drop k v)" by (metis append_take_drop_id nz_simps(3))
    moreover have "(le_word (take k v) :: 'a word) = 0 \<longleftrightarrow> \<not> nz (take k v)"
      using assms by (intro le_word_eq_0) simp
    moreover have "nz (lanes k (drop k v) :: 'a word list) \<longleftrightarrow> nz (drop k v)"
      using False assms(1) by (intro less) simp
    ultimately show ?thesis using False assms(1) by (subst lanes.simps) simp
  qed (simp add: lanes.simps)
qed

lemma length_lanes: "0 < k \<Longrightarrow> length v = n * k \<Longrightarrow> length (lanes k v :: 'a::len word list) = n"
proof (induction n arbitrary: v)
  case (Suc n)
  then have "v \<noteq> []" "length (drop k v) = n * k" by auto
  then show ?case using Suc by (subst lanes.simps) simp
qed (simp add: lanes.simps)

lemma VectorBitwiseOr_simps [simp]:
  "VectorBitwiseOr (a # v) (b # w) = (a OR b) # VectorBitwiseOr v w"
  "VectorBitwiseOr [] w = []" "VectorBitwiseOr v [] = []"
  by (simp_all add: VectorBitwiseOr_def)

lemma length_VectorBitwiseOr [simp]:
  "length (VectorBitwiseOr v w) = min (length v) (length w)"
  by (simp add: VectorBitwiseOr_def)

lemma nz_VectorBitwiseOr:
  "length v = length w \<Longrightarrow> nz (VectorBitwiseOr v w) \<longleftrightarrow> nz v \<or> nz w"
  by (induction v w rule: list_induct2) auto

section \<open>The packing of each engine\<close>

lemma list4:
  assumes "length v = 4"
  obtains a b c d where "v = [a, b, c, d]"
  using assms by (auto simp: numeral_eq_Suc length_Suc_conv)

lemma list8:
  assumes "length v = 8"
  obtains a b c d e f g h where "v = [a, b, c, d, e, f, g, h]"
  using assms by (auto simp: numeral_eq_Suc length_Suc_conv)

lemma movemask_flip: "mask_of [\<not> a, \<not> b, \<not> c, \<not> d] XOR 15 = mask_of [a, b, c, d]"
  by (cases a; cases b; cases c; cases d) simp_all

lemma nibble_halves: "mask_of [a, b, c, d] OR push_bit 4 (mask_of [e, f, g, h]) = mask_of [a, b, c, d, e, f, g, h]"
  by (simp add: push_bit_or or.assoc [symmetric] push_bit_push_bit del: push_bit_of_Suc_0)

lemma bit_equal_mask: "bit (if (x :: 32 word) = 0 then - 1 else (0 :: 32 word)) 31 \<longleftrightarrow> x = 0"
  by simp

lemma nibble128:
  assumes "length a = 4" "length b = 4" "length c = 4" "length d = 4"
  shows "nibble False a b c d = mask_of [nz a, nz b, nz c, nz d]"
  using assms
  by (elim list4) (simp add: nibble_def nibble_groups_def Let_def disj_ac flip: movemask_flip)

lemma nibble256:
  assumes "length a = 8" "length b = 8" "length c = 8" "length d = 8"
  shows "nibble True a b c d = mask_of [nz a, nz b, nz c, nz d]"
  using assms
  by (elim list8) (simp add: nibble_def nibble_groups_def Let_def disj_ac flip: movemask_flip)

lemma CombineAdjacentLanes_8:
  "CombineAdjacentLanes [a0, a1, a2, a3, a4, a5, a6, a7] [b0, b1, b2, b3, b4, b5, b6, b7] =
     [a0 OR a1, b0 OR b1, a2 OR a3, b2 OR b3, a4 OR a5, b4 OR b5, a6 OR a7, b6 OR b7]"
  by (simp add: CombineAdjacentLanes_def)

lemma InterleaveAndBitwiseOr_8:
  "InterleaveAndBitwiseOr [a0, a1, a2, a3, a4, a5, a6, a7] [b0, b1, b2, b3, b4, b5, b6, b7] =
     [a0 OR a2, a1 OR a3, a4 OR a6, a5 OR a7, b0 OR b2, b1 OR b3, b4 OR b6, b5 OR b7]"
  by (simp add: InterleaveAndBitwiseOr_def mm512_shuffle_i64x2_def block128_def)

text \<open>Two pairs of vectors combined: the lanes hold the halves of each vector in order.\<close>

definition quarter :: "64 word list \<Rightarrow> 64 word" where
  "quarter v = v ! 0 OR v ! 1 OR v ! 2 OR v ! 3"

lemma combine_four:
  assumes "length a = 8" "length b = 8" "length c = 8" "length d = 8"
  shows "InterleaveAndBitwiseOr (CombineAdjacentLanes a b) (CombineAdjacentLanes c d) =
    [quarter a, quarter b, quarter (drop 4 a), quarter (drop 4 b),
     quarter c, quarter d, quarter (drop 4 c), quarter (drop 4 d)]"
  using assms
  by (elim list8) (simp add: CombineAdjacentLanes_8 InterleaveAndBitwiseOr_8 quarter_def or.assoc)

lemma quarter_nz:
  assumes "length v = 8"
  shows "quarter v = 0 \<longleftrightarrow> \<not> nz (take 4 v)" "quarter (drop 4 v) = 0 \<longleftrightarrow> \<not> nz (drop 4 v)"
    "nz v \<longleftrightarrow> quarter v \<noteq> 0 \<or> quarter (drop 4 v) \<noteq> 0"
proof -
  from list8 [OF assms] obtain a b c d e f g h where v: "v = [a, b, c, d, e, f, g, h]" .
  show "quarter v = 0 \<longleftrightarrow> \<not> nz (take 4 v)" "quarter (drop 4 v) = 0 \<longleftrightarrow> \<not> nz (drop 4 v)"
    "nz v \<longleftrightarrow> quarter v \<noteq> 0 \<or> quarter (drop 4 v) \<noteq> 0"
    unfolding v quarter_def by (simp_all, blast+)
qed

lemma ReduceVectors512_spec:
  assumes "length vs = 8" "\<forall>v \<in> set vs. length v = 8"
  shows "ReduceVectors512 vs = mask_of (map nz vs)"
proof -
  from list8 [OF assms(1)] obtain a b c d e f g h where vs: "vs = [a, b, c, d, e, f, g, h]" .
  then have l: "length a = 8" "length b = 8" "length c = 8" "length d = 8"
    "length e = 8" "length f = 8" "length g = 8" "length h = 8" using assms(2) by simp_all
  show ?thesis
    unfolding vs ReduceVectors512_def
    by (simp add: combine_four [OF l(1-4)] combine_four [OF l(5-8)]
        Let_def InterleaveAndBitwiseOr_8 quarter_nz(3) [OF l(1)] quarter_nz(3) [OF l(2)]
        quarter_nz(3) [OF l(3)] quarter_nz(3) [OF l(4)] quarter_nz(3) [OF l(5)]
        quarter_nz(3) [OF l(6)] quarter_nz(3) [OF l(7)] quarter_nz(3) [OF l(8)] del: mask_of.simps)
qed

lemma ReduceVectors512x2_spec:
  assumes "length vs = 4" "\<forall>v \<in> set vs. length v = 8"
  shows "ReduceVectors512x2 vs = mask_of (concat (map (\<lambda>v. [nz (take 4 v), nz (drop 4 v)]) vs))"
proof -
  from list4 [OF assms(1)] obtain a b c d where vs: "vs = [a, b, c, d]" .
  then have l: "length a = 8" "length b = 8" "length c = 8" "length d = 8" using assms(2) by simp_all
  show ?thesis
    unfolding vs ReduceVectors512x2_def
    by (simp add: combine_four [OF l] Let_def mm512_permutex_epi64_def quarter_nz(1,2) l del: mask_of.simps)
qed

lemma ReduceVectorsX64_spec:
  assumes "length vs = 8" "\<forall>v \<in> set vs. length v = (if is256 then 8 else 4)"
  shows "ReduceVectorsX64 is256 vs = mask_of (map nz vs)"
proof -
  from list8 [OF assms(1)] obtain a b c d e f g h where vs: "vs = [a, b, c, d, e, f, g, h]" .
  show ?thesis
    using assms(2) unfolding vs ReduceVectorsX64_def
    by (cases is256) (simp_all add: nibble128 nibble256 nibble_halves del: mask_of.simps)
qed

lemma ReducePairwise_8:
  "ReducePairwise f [a, b] = f a b"
  "ReducePairwise f [a, b, c, d] = f (f a b) (f c d)"
  "ReducePairwise f [a, b, c, d, e, k, g, h] = f (f (f a b) (f c d)) (f (f e k) (f g h))"
proof -
  show two: "ReducePairwise f [a, b] = f a b" for a b by (subst ReducePairwise.simps) simp
  show four: "ReducePairwise f [a, b, c, d] = f (f a b) (f c d)" for a b c d
    by (subst ReducePairwise.simps) (simp add: two)
  show "ReducePairwise f [a, b, c, d, e, k, g, h] = f (f (f a b) (f c d)) (f (f e k) (f g h))"
    by (subst ReducePairwise.simps) (simp add: four)
qed

lemma length_pairs_max [simp]: "length (pairs_max v) = length v div 2"
  by (induction v rule: pairs_max.induct) auto

lemma pairs_max_append: "even (length v) \<Longrightarrow> pairs_max (v @ w) = pairs_max v @ pairs_max w"
  by (induction v rule: pairs_max.induct) auto

lemma max_eq_0 [simp]: "max (a :: byte) b = 0 \<longleftrightarrow> a = 0 \<and> b = 0"
  by (auto simp: max_def)

lemma nz_pairs_max: "even (length v) \<Longrightarrow> nz (pairs_max v) \<longleftrightarrow> nz v"
  by (induction v rule: pairs_max.induct) auto

definition byte_max :: "byte list \<Rightarrow> byte" where
  "byte_max v = hd (pairs_max (pairs_max (pairs_max (pairs_max v))))"

lemma byte_max:
  assumes "length v = 16"
  shows "pairs_max (pairs_max (pairs_max (pairs_max v))) = [byte_max v]" "byte_max v = 0 \<longleftrightarrow> \<not> nz v"
proof -
  let ?p = "pairs_max (pairs_max (pairs_max (pairs_max v)))"
  have "length ?p = 1" using assms by simp
  then show p: "?p = [byte_max v]" unfolding byte_max_def by (cases ?p) auto
  have "nz ?p \<longleftrightarrow> nz v" using assms by (simp add: nz_pairs_max)
  then show "byte_max v = 0 \<longleftrightarrow> \<not> nz v" unfolding p by auto
qed

lemma weights_sum:
  "sum_list (map2 (AND) (map (\<lambda>m. if 0 < m then - 1 else (0 :: byte)) [a :: byte, b, c, d, e, f, g, h])
     [1, 2, 4, 8, 16, 32, 64, 128]) =
   mask_of [a \<noteq> 0, b \<noteq> 0, c \<noteq> 0, d \<noteq> 0, e \<noteq> 0, f \<noteq> 0, g \<noteq> 0, h \<noteq> 0]"
proof -
  have z: "0 < m \<longleftrightarrow> m \<noteq> 0" for m :: byte by (simp add: word_greater_zero_iff)
  show ?thesis
    unfolding z
    by (cases "a = 0"; cases "b = 0"; cases "c = 0"; cases "d = 0";
        cases "e = 0"; cases "f = 0"; cases "g = 0"; cases "h = 0") simp_all
qed

lemma ReduceVectorsNeon_spec:
  assumes "length vs = 8" "\<forall>v \<in> set vs. length v = 16"
  shows "ReduceVectorsNeon vs = mask_of (map nz vs)"
proof -
  from list8 [OF assms(1)] obtain a b c d e f g h where vs: "vs = [a, b, c, d, e, f, g, h]" .
  then have l: "length a = 16" "length b = 16" "length c = 16" "length d = 16"
    "length e = 16" "length f = 16" "length g = 16" "length h = 16" using assms(2) by simp_all
  let ?p3 = "\<lambda>v. pairs_max (pairs_max (pairs_max v))"
  have tree: "ReducePairwise vpmaxq_u8 vs = ?p3 a @ ?p3 b @ ?p3 c @ ?p3 d @ ?p3 e @ ?p3 f @ ?p3 g @ ?p3 h"
    unfolding vs by (simp add: ReducePairwise_8 vpmaxq_u8_def pairs_max_append l)
  have "take 8 (vpmaxq_u8 (ReducePairwise vpmaxq_u8 vs) (ReducePairwise vpmaxq_u8 vs)) =
      [byte_max a, byte_max b, byte_max c, byte_max d, byte_max e, byte_max f, byte_max g, byte_max h]"
    unfolding tree by (simp add: vpmaxq_u8_def pairs_max_append l byte_max(1))
  then show ?thesis
    unfolding ReduceVectorsNeon_def Let_def
    by (simp only: weights_sum) (simp add: vs byte_max(2) l del: mask_of.simps)
qed

text \<open>
  All engines agree: the byte has one bit per region, set when the region is
  nonzero.  A 512-bit vector of the two-region form holds regions of 32 bytes.
\<close>

fun region_flags :: "engine \<Rightarrow> byte list list \<Rightarrow> bool list" where
  "region_flags M512x2 vs = concat (map (\<lambda>v. [nz (take 32 v), nz (drop 32 v)]) vs)"
| "region_flags _ vs = map nz vs"

lemma lanes_split: "0 < k \<Longrightarrow> length v = (m + n) * k \<Longrightarrow>
    (lanes k v :: 'a::len word list) = lanes k (take (m * k) v) @ lanes k (drop (m * k) v)"
proof (induction m arbitrary: v)
  case (Suc m)
  then have "v \<noteq> []" by auto
  then have v: "(lanes k v :: 'a word list) = le_word (take k v) # lanes k (drop k v)"
    using Suc.prems(1) by (subst lanes.simps) simp
  have t: "(lanes k (take (Suc m * k) v) :: 'a word list) =
      le_word (take k v) # lanes k (take (m * k) (drop k v))"
    using Suc.prems \<open>v \<noteq> []\<close> by (subst lanes.simps) (simp add: take_drop add.commute min_def)
  show ?case using Suc.IH [of "drop k v"] Suc.prems unfolding v t by (simp add: add.commute)
qed (simp add: lanes.simps)

lemma ReduceVectorsToBitmapByte_spec:
  assumes "length vs = 8 div regions_per_group e" "\<forall>v \<in> set vs. length v = vector_bytes e"
  shows "ReduceVectorsToBitmapByte e vs = mask_of (region_flags e vs)"
proof (cases e)
  case M128
  have "map nz (map (lanes 4) vs :: 32 word list list) = map nz vs" by (simp add: nz_lanes)
  with M128 assms show ?thesis
    by (simp add: ReduceVectorsX64_spec length_lanes [where n = 4] del: mask_of.simps map_map)
next
  case M256
  have "map nz (map (lanes 4) vs :: 32 word list list) = map nz vs" by (simp add: nz_lanes)
  with M256 assms show ?thesis
    by (simp add: ReduceVectorsX64_spec length_lanes [where n = 8] del: mask_of.simps map_map)
next
  case M512
  have "map nz (map (lanes 8) vs :: 64 word list list) = map nz vs" by (simp add: nz_lanes)
  with M512 assms show ?thesis
    by (simp add: ReduceVectors512_spec length_lanes [where n = 8] del: mask_of.simps map_map)
next
  case M512x2
  have "nz (take 4 (lanes 8 v :: 64 word list)) = nz (take 32 v)"
    "nz (drop 4 (lanes 8 v :: 64 word list)) = nz (drop 32 v)" if "v \<in> set vs" for v
    using that assms(2) M512x2 lanes_split [of 8 v 4 4, where 'a = 64]
    by (simp_all add: length_lanes [where n = 4] nz_lanes)
  then have "map (\<lambda>v. [nz (take 4 v), nz (drop 4 v)]) (map (lanes 8) vs :: 64 word list list) =
      map (\<lambda>v. [nz (take 32 v), nz (drop 32 v)]) vs" by simp
  with M512x2 assms show ?thesis
    by (simp add: ReduceVectors512x2_spec length_lanes [where n = 8] del: mask_of.simps map_map)
next
  case Neon
  with assms show ?thesis by (simp add: ReduceVectorsNeon_spec)
qed

section \<open>Groups and bytes of the output\<close>

lemma length_LoadVector [simp]: "off + w \<le> length input \<Longrightarrow> length (LoadVector w input off) = w"
  by (simp add: LoadVector_def)

lemma nz_range_split:
  "nz (take (m + n) (drop off input)) \<longleftrightarrow> nz (take m (drop off input)) \<or> nz (take n (drop (off + m) input))"
  by (simp add: take_add add.commute)

lemma group_loop_spec:
  assumes "0 < count" "start + count * w \<le> length input"
  shows "length (group_loop w input count start) = w \<and>
    (nz (group_loop w input count start) \<longleftrightarrow> nz (take (count * w) (drop start input)))"
  using assms
proof (induction count)
  case (Suc n)
  show ?case
  proof (cases n)
    case 0
    then show ?thesis using Suc.prems by (simp add: group_loop_def LoadVector_def)
  next
    case (Suc m)
    let ?load = "LoadVector w input (start + n * w)"
    have IH: "length (group_loop w input n start) = w"
      "nz (group_loop w input n start) \<longleftrightarrow> nz (take (n * w) (drop start input))"
      using Suc.IH Suc Suc.prems by simp_all
    have step: "group_loop w input (Suc n) start = VectorBitwiseOr (group_loop w input n start) ?load"
      using Suc by (simp add: group_loop_def)
    have load: "length ?load = w" using Suc.prems by simp
    have "nz (take (Suc n * w) (drop start input)) \<longleftrightarrow>
        nz (take (n * w) (drop start input)) \<or> nz ?load"
      using nz_range_split [of "n * w" w start input] by (simp add: LoadVector_def add.commute)
    then show ?thesis unfolding step using IH load by (simp add: nz_VectorBitwiseOr)
  qed
qed simp

lemma ReducePairwise_or:
  assumes "length vs = 2 ^ Suc k" "\<forall>v \<in> set vs. length v = w"
  shows "length (ReducePairwise VectorBitwiseOr vs) = w \<and>
    (nz (ReducePairwise VectorBitwiseOr vs) \<longleftrightarrow> (\<exists>v \<in> set vs. nz v))"
  using assms
proof (induction k arbitrary: vs)
  case 0
  then obtain a b where "vs = [a, b]" by (auto simp: numeral_eq_Suc length_Suc_conv)
  with 0 show ?case by (simp add: ReducePairwise_8 nz_VectorBitwiseOr)
next
  case (Suc k)
  let ?h = "length vs div 2" and ?r = "ReducePairwise VectorBitwiseOr :: _ \<Rightarrow> 'a word list"
  have split: "set vs = set (take ?h vs) \<union> set (drop ?h vs)"
    by (metis append_take_drop_id set_append)
  have "length (?r (take ?h vs)) = w \<and> (nz (?r (take ?h vs)) \<longleftrightarrow> (\<exists>v \<in> set (take ?h vs). nz v))"
    using Suc.prems by (intro Suc.IH) (auto dest: in_set_takeD)
  moreover have "length (?r (drop ?h vs)) = w \<and> (nz (?r (drop ?h vs)) \<longleftrightarrow> (\<exists>v \<in> set (drop ?h vs). nz v))"
    using Suc.prems by (intro Suc.IH) (auto dest: in_set_dropD)
  moreover have "?r vs = VectorBitwiseOr (?r (take ?h vs)) (?r (drop ?h vs))"
  proof -
    have "(1 :: nat) \<le> 2 ^ k" "length vs = 4 * 2 ^ k" using Suc.prems(1) by simp_all
    then have "\<not> length vs \<le> 2" by linarith
    then show ?thesis by (subst ReducePairwise.simps) (simp add: Let_def)
  qed
  ultimately show ?case using split by (auto simp: nz_VectorBitwiseOr)
qed

lemma nz_loads:
  "(\<exists>i < n. nz (LoadVector w input (start + i * w))) \<longleftrightarrow> nz (take (n * w) (drop start input))"
proof (induction n)
  case (Suc n)
  then show ?case
    using nz_range_split [of "n * w" w start input]
    by (auto simp: less_Suc_eq LoadVector_def add.commute)
qed simp

lemma group_expanded_spec:
  assumes "count = 2 ^ k" "start + count * w \<le> length input"
  shows "length (group_expanded w input count start) = w \<and>
    (nz (group_expanded w input count start) \<longleftrightarrow> nz (take (count * w) (drop start input)))"
proof (cases k)
  case 0
  then show ?thesis using assms by (simp add: group_expanded_def LoadVector_def)
next
  case (Suc j)
  let ?vs = "map (\<lambda>i. LoadVector w input (start + i * w)) [0..<count]"
  have "length (LoadVector w input (start + i * w)) = w" if "i < count" for i
  proof (rule length_LoadVector)
    have "Suc i * w \<le> count * w" using that by (intro mult_le_mono1) simp
    then show "start + i * w + w \<le> length input" using assms(2) by simp
  qed
  then have "length (ReducePairwise VectorBitwiseOr ?vs) = w \<and>
      (nz (ReducePairwise VectorBitwiseOr ?vs) \<longleftrightarrow> (\<exists>v \<in> set ?vs. nz v))"
    using assms(1) Suc by (intro ReducePairwise_or [where k = j]) auto
  moreover have "(\<exists>v \<in> set ?vs. nz v) \<longleftrightarrow> nz (take (count * w) (drop start input))"
    unfolding nz_loads [symmetric] by auto
  moreover have "count \<noteq> 1" using assms(1) Suc by simp
  ultimately show ?thesis by (simp add: group_expanded_def)
qed

lemma has_single_bit_small:
  assumes "has_single_bit n" "n \<le> 8"
  shows "\<exists>k. n = 2 ^ k"
proof -
  have no: "\<not> has_single_bit 0" "\<not> has_single_bit 3" "\<not> has_single_bit 5"
    "\<not> has_single_bit 6" "\<not> has_single_bit 7"
    by code_simp+
  have "n = 0 \<or> n = 1 \<or> n = 2 \<or> n = 3 \<or> n = 4 \<or> n = 5 \<or> n = 6 \<or> n = 7 \<or> n = 8"
    using assms(2) by linarith
  then have "n = 2 ^ 0 \<or> n = 2 ^ 1 \<or> n = 2 ^ 2 \<or> n = 2 ^ 3" using assms(1) no by auto
  then show ?thesis by blast
qed

text \<open>The region of the input that an output bit describes.\<close>

definition region_nz :: "nat \<Rightarrow> byte list \<Rightarrow> nat \<Rightarrow> bool" where
  "region_nz g input k \<longleftrightarrow> nz (take g (drop (k * g) input))"

definition engine_fits :: "engine \<Rightarrow> nat \<Rightarrow> bool" where
  "engine_fits e g \<longleftrightarrow> 0 < g \<and> (if e = M512x2 then g = 32 else vector_bytes e dvd g)"

lemma pack_spec_one:
  assumes "engine_fits e g" "e \<noteq> M512x2" "(b + 8) * g \<le> length input"
  shows "pack e g input b = mask_of (map (\<lambda>i. region_nz g input (b + i)) [0..<8])"
proof -
  let ?w = "vector_bytes e" and ?n = "g div vector_bytes e"
  have r: "regions_per_group e = 1" using assms(2) by (cases e) simp_all
  have w: "16 \<le> ?w" by (cases e) simp_all
  have g: "?n * ?w = g" "0 < g" using assms(1,2) by (simp_all add: engine_fits_def)
  then have n: "0 < ?n" by (metis gr0I mult_0)
  have fit: "(b + i) * g + g \<le> length input" if "i < 8" for i
  proof -
    have "Suc (b + i) * g \<le> (b + 8) * g" using that by (intro mult_le_mono1) simp
    then show ?thesis using assms(3) by simp
  qed
  have flags: "ReduceVectorsToBitmapByte e (map f [0..<8]) = mask_of (map (\<lambda>i. nz (f i)) [0..<8])"
    if "\<forall>i < 8. length (f i) = ?w" for f
  proof -
    have "region_flags e (map f [0..<8]) = map nz (map f [0..<8])" using assms(2) by (cases e) simp_all
    then show ?thesis using ReduceVectorsToBitmapByte_spec [of "map f [0..<8]" e] that r by (simp add: comp_def)
  qed
  show ?thesis
  proof (cases "?n = 1 \<or> kExpandBitmapReduction g ?w")
    case True
    have "\<exists>k. ?n = 2 ^ k"
    proof (cases "?n = 1")
      case False
      then have "has_single_bit ?n" "g \<le> 128" using True by (simp_all add: kExpandBitmapReduction_def)
      moreover have "?n \<le> 128 div 16" using \<open>g \<le> 128\<close> w by (intro order.trans [OF div_le_mono div_le_mono2]) auto
      ultimately show ?thesis by (intro has_single_bit_small) simp_all
    qed (metis power_0)
    then obtain k where k: "?n = 2 ^ k" ..
    let ?f = "\<lambda>i. group_expanded ?w input ?n ((b + i) * g)"
    have f: "length (?f i) = ?w \<and> (nz (?f i) \<longleftrightarrow> region_nz g input (b + i))" if "i < 8" for i
      using group_expanded_spec [OF k, of "(b + i) * g" ?w input] fit [OF that] g(1) by (simp add: region_nz_def)
    have "pack e g input b = ReduceVectorsToBitmapByte e (map ?f [0..<8])"
      using True r unfolding pack_def Let_def by simp
    also have "\<dots> = mask_of (map (\<lambda>i. nz (?f i)) [0..<8])" using flags [of ?f] f by blast
    also have "map (\<lambda>i. nz (?f i)) [0..<8] = map (\<lambda>i. region_nz g input (b + i)) [0..<8]"
      using f by (intro map_cong) auto
    finally show ?thesis .
  next
    case False
    let ?f = "\<lambda>i. group_loop ?w input ?n ((b + i) * g)"
    have f: "length (?f i) = ?w \<and> (nz (?f i) \<longleftrightarrow> region_nz g input (b + i))" if "i < 8" for i
      using group_loop_spec [OF n, of "(b + i) * g" ?w input] fit [OF that] g(1) by (simp add: region_nz_def)
    have "[0..<8 :: nat] = [0..<4] @ map ((+) 4) [0..<4]" by (simp add: upt_rec)
    then have "map ?f [0..<8] = map (\<lambda>i. group_loop ?w input ?n (b * g + i * g)) [0..<4] @
        map (\<lambda>i. group_loop ?w input ?n ((b + 4) * g + i * g)) [0..<4]"
      by (simp add: algebra_simps comp_def)
    then have "pack e g input b = ReduceVectorsToBitmapByte e (map ?f [0..<8])"
      using False r unfolding pack_def Let_def by simp
    also have "\<dots> = mask_of (map (\<lambda>i. nz (?f i)) [0..<8])" using flags [of ?f] f by blast
    also have "map (\<lambda>i. nz (?f i)) [0..<8] = map (\<lambda>i. region_nz g input (b + i)) [0..<8]"
      using f by (intro map_cong) auto
    finally show ?thesis .
  qed
qed

lemma pack_spec_two:
  assumes "(b + 8) * 32 \<le> length input"
  shows "pack M512x2 32 input b = mask_of (map (\<lambda>i. region_nz 32 input (b + i)) [0..<8])"
proof -
  let ?f = "\<lambda>i. LoadVector 64 input ((b + i * 2) * 32)"
  have len: "length (?f i) = 64" if "i < 4" for i using that assms by (intro length_LoadVector) simp
  have "[0..<4 :: nat] = [0, 1, 2, 3]" "[0..<8 :: nat] = [0, 1, 2, 3, 4, 5, 6, 7]"
    by (simp_all add: upt_rec)
  note upt = this
  have "pack M512x2 32 input b = ReduceVectorsToBitmapByte M512x2 (map ?f [0..<4])"
    by (simp add: pack_def Let_def group_expanded_def)
  also have "\<dots> = mask_of (region_flags M512x2 (map ?f [0..<4]))"
    using len by (intro ReduceVectorsToBitmapByte_spec) auto
  also have "region_flags M512x2 (map ?f [0..<4]) = map (\<lambda>i. region_nz 32 input (b + i)) [0..<8]"
    unfolding upt by (simp add: region_nz_def LoadVector_def drop_take algebra_simps)
  finally show ?thesis .
qed

lemma pack_spec:
  assumes "engine_fits e g" "(b + 8) * g \<le> length input"
  shows "pack e g input b = mask_of (map (\<lambda>i. region_nz g input (b + i)) [0..<8])"
  using assms pack_spec_one pack_spec_two by (cases "e = M512x2") (auto simp: engine_fits_def)

definition obit :: "byte list \<Rightarrow> nat \<Rightarrow> bool" where
  "obit out k \<longleftrightarrow> bit (out ! (k div 8)) (k mod 8)"

lemma reduce_complete_spec:
  assumes pk: "\<And>b i. (b + 8) * g \<le> length input \<Longrightarrow> i < 8 \<Longrightarrow> bit (p b) i \<longleftrightarrow> region_nz g input (b + i)"
    and "c * g \<le> length input" "c \<le> 8 * length out" "b mod 8 = 0" "b \<le> c" and "reduce_complete p c b out = (b', out')"
  shows "b \<le> b' \<and> b' \<le> c \<and> b' mod 8 = 0 \<and> length out' = length out \<and>
    (\<forall>k < 8 * length out. obit out' k = (if b \<le> k \<and> k < b' then region_nz g input k else obit out k))"
  using assms(3-6)
proof (induction "c - b" arbitrary: b out rule: less_induct)
  case less
  show ?case
  proof (cases "8 \<le> c - b")
    case False
    then show ?thesis using less.prems by (subst (asm) reduce_complete.simps) auto
  next
    case True
    let ?out = "out[b div 8 := p b]"
    have step: "reduce_complete p c (b + 8) ?out = (b', out')"
      using less.prems(4) True by (subst (asm) reduce_complete.simps) simp
    have IH: "b + 8 \<le> b' \<and> b' \<le> c \<and> b' mod 8 = 0 \<and> length out' = length ?out \<and>
      (\<forall>k < 8 * length ?out. obit out' k = (if b + 8 \<le> k \<and> k < b' then region_nz g input k else obit ?out k))"
      using True less.prems by (intro less.hyps [OF _ _ _ _ step]) auto
    have "(b + 8) * g \<le> c * g" using True by (intro mult_le_mono1) simp
    then have fit: "(b + 8) * g \<le> length input" using assms(2) by linarith
    have "obit ?out k = (if b \<le> k \<and> k < b + 8 then region_nz g input k else obit out k)"
      if "k < 8 * length out" for k
    proof -
      obtain q where q: "b = 8 * q" using less.prems(2) by (metis dvdE mod_0_imp_dvd)
      have kq: "k div 8 = q \<longleftrightarrow> b \<le> k \<and> k < b + 8" unfolding q by linarith
      have "k = b + k mod 8" if "k div 8 = q" using that q by (metis mult_div_mod_eq)
      moreover have "k div 8 < length out" using that by (simp add: div_less_iff_less_mult mult.commute)
      moreover have "bit (p b) (k mod 8) \<longleftrightarrow> region_nz g input (b + k mod 8)" by (rule pk [OF fit]) simp
      moreover have "obit ?out k \<longleftrightarrow> (if k div 8 = q then bit (p b) (k mod 8) else obit out k)"
        using calculation(2) q by (simp add: obit_def nth_list_update)
      ultimately show ?thesis using kq by (cases "k div 8 = q") auto
    qed
    then show ?thesis using IH by auto
  qed
qed

lemma nz_by_neighbours:
  assumes "w \<noteq> []"
  shows "nz w \<longleftrightarrow> hd w \<noteq> 0 \<or> butlast w \<noteq> tl w"
proof -
  have "\<not> nz w" if "hd w = 0" "butlast w = tl w" using assms that
  proof (induction w)
    case (Cons a w)
    then show ?case by (cases w) auto
  qed simp
  moreover have "hd w = 0 \<and> butlast w = tl w" if "\<not> nz w"
  proof -
    have "w = replicate (length w) 0" using that unfolding nz_def by (simp add: replicate_length_same)
    then obtain n where "w = replicate (Suc n) 0" using assms by (metis length_0_conv not0_implies_Suc)
    moreover have "butlast (replicate (Suc n) (0 :: 'a word)) = replicate n 0"
      by (metis butlast_snoc replicate_Suc replicate_append_same)
    ultimately show ?thesis by simp
  qed
  ultimately show ?thesis by blast
qed

lemma tail_nonzero:
  assumes "0 < s" "first + s \<le> length input"
  shows "input ! first \<noteq> 0 \<or> take (s - 1) (drop first input) \<noteq> take (s - 1) (drop (first + 1) input)
    \<longleftrightarrow> nz (take s (drop first input))"
proof -
  let ?w = "take s (drop first input)"
  have "?w \<noteq> []" "hd ?w = input ! first" using assms by (auto simp: hd_drop_conv_nth)
  moreover have "butlast ?w = take (s - 1) (drop first input)"
    using assms by (subst butlast_take) auto
  moreover have "tl ?w = take (s - 1) (drop (first + 1) input)"
    using assms by (cases s) (simp_all add: tl_take drop_Suc tl_drop)
  ultimately show ?thesis using nz_by_neighbours [of ?w] by simp
qed

lemma neighbours_differ_spec:
  assumes "first < length input" "0 < g"
  shows "neighbours_differ g input first \<longleftrightarrow> nz (take g (drop first input))"
proof -
  let ?s = "min g (length input - first)"
  have "take ?s (drop first input) = take g (drop first input)" by (simp add: min_def)
  then show ?thesis using tail_nonzero [of ?s first input] assms unfolding neighbours_differ_def Let_def by simp
qed

lemma reduce_tail_spec:
  assumes "0 < g" "length input \<le> 8 * length out * g"
    and nonzero: "\<And>first. first < length input \<Longrightarrow> nonzero first \<longleftrightarrow> nz (take g (drop first input))"
  shows "length (reduce_tail nonzero g (length input) (b * g) b out) = length out \<and>
    (\<forall>k < 8 * length out. obit (reduce_tail nonzero g (length input) (b * g) b out) k \<longleftrightarrow>
       obit out k \<or> (b \<le> k \<and> region_nz g input k))"
  using assms(1,2)
proof (induction "length input - b * g" arbitrary: b out rule: less_induct)
  case less
  let ?tail = "reduce_tail nonzero g (length input)"
  show ?case
  proof (cases "b * g < length input")
    case False
    have "\<not> region_nz g input k" if "b \<le> k" for k
    proof -
      have "b * g \<le> k * g" using that by (rule mult_le_mono1)
      then have "length input \<le> k * g" using False by linarith
      then show ?thesis by (simp add: region_nz_def)
    qed
    then show ?thesis using False by (subst (1 2) reduce_tail.simps) auto
  next
    case True
    let ?out = "if nonzero (b * g) then out[b div 8 := (out ! (b div 8)) OR push_bit (b mod 8) 1] else out"
    have step: "?tail (b * g) b out = ?tail (Suc b * g) (Suc b) ?out"
      using True less.prems(1) by (subst reduce_tail.simps) (simp add: add.commute)
    have rn: "nonzero (b * g) \<longleftrightarrow> region_nz g input b" using nonzero [OF True] by (simp add: region_nz_def)
    have "b * g < 8 * length out * g" using True less.prems(2) by linarith
    then have b: "b < 8 * length out" by simp
    have "length input - Suc b * g < length input - b * g" using True less.prems(1) by simp
    moreover have lo: "length ?out = length out" by simp
    ultimately have IH: "length (?tail (Suc b * g) (Suc b) ?out) = length ?out \<and>
      (\<forall>k < 8 * length ?out. obit (?tail (Suc b * g) (Suc b) ?out) k \<longleftrightarrow>
         obit ?out k \<or> (Suc b \<le> k \<and> region_nz g input k))"
      using less.prems by (intro less.hyps) (simp_all only: lo)
    have bt: "obit ?out k \<longleftrightarrow> obit out k \<or> (k = b \<and> region_nz g input k)" if "k < 8 * length out" for k
    proof -
      have bd: "b div 8 < length out" using b by (simp add: div_less_iff_less_mult mult.commute)
      have "k = b \<longleftrightarrow> k div 8 = b div 8 \<and> k mod 8 = b mod 8" by (metis div_mult_mod_eq)
      then show ?thesis
        unfolding rn using bd by (auto simp: obit_def nth_list_update bit_or_iff bit_exp_iff)
    qed
    have "k = b \<and> R \<or> Suc b \<le> k \<and> R \<longleftrightarrow> b \<le> k \<and> R" for k R by auto
    then show ?thesis using IH bt unfolding step lo by (simp only: disj_assoc) blast
  qed
qed

text \<open>Both loops together, for any way of packing a byte and of testing a region.\<close>

lemma reduce_loops_spec:
  assumes g: "0 < g" and "length input \<le> 8 * length out * g" "\<forall>x \<in> set out. x = 0"
    and pk: "\<And>b i. (b + 8) * g \<le> length input \<Longrightarrow> i < 8 \<Longrightarrow> bit (p b) i \<longleftrightarrow> region_nz g input (b + i)"
    and nonzero: "\<And>first. first < length input \<Longrightarrow> nonzero first \<longleftrightarrow> nz (take g (drop first input))"
  defines "res \<equiv> (case reduce_complete p (length input div g) 0 out of
      (b, out') \<Rightarrow> reduce_tail nonzero g (length input) (b * g) b out')"
  shows "length res = length out" "\<forall>k < 8 * length out. obit res k \<longleftrightarrow> region_nz g input k"
proof -
  let ?c = "length input div g"
  obtain b out1 where r: "reduce_complete p ?c 0 out = (b, out1)" by fastforce
  have "?c * g \<le> length input" by (rule div_times_less_eq_dividend)
  moreover have "?c \<le> 8 * length out" using assms(2) g by (metis div_le_mono nonzero_mult_div_cancel_right less_not_refl3)
  ultimately have c: "length out1 = length out"
    "\<forall>k < 8 * length out. obit out1 k = (if k < b then region_nz g input k else obit out k)"
    using reduce_complete_spec [OF pk _ _ _ _ r] by auto
  have z: "\<not> obit out k" if "k < 8 * length out" for k
  proof -
    have "k div 8 < length out" using that by (simp add: div_less_iff_less_mult mult.commute)
    then have "out ! (k div 8) = 0" using assms(3) by simp
    then show ?thesis by (simp add: obit_def)
  qed
  have t: "length (reduce_tail nonzero g (length input) (b * g) b out1) = length out"
    "\<forall>k < 8 * length out. obit (reduce_tail nonzero g (length input) (b * g) b out1) k \<longleftrightarrow>
       obit out1 k \<or> (b \<le> k \<and> region_nz g input k)"
    using reduce_tail_spec [OF g _ nonzero, of out1 b] assms(2) c(1) by auto
  have w: "res = reduce_tail nonzero g (length input) (b * g) b out1" by (simp add: res_def r)
  show "length res = length out" unfolding w by (rule t(1))
  show "\<forall>k < 8 * length out. obit res k \<longleftrightarrow> region_nz g input k"
    unfolding w using t(2) c(2) z by (auto simp: not_less)
qed

lemma reduce_with_spec:
  assumes "engine_fits e g" "length input \<le> 8 * length out * g" "\<forall>x \<in> set out. x = 0"
  shows "length (reduce_with e g input out) = length out"
    and "\<forall>k < 8 * length out. obit (reduce_with e g input out) k \<longleftrightarrow> region_nz g input k"
proof -
  have g: "0 < g" using assms(1) by (simp add: engine_fits_def)
  have pk: "bit (pack e g input b) i \<longleftrightarrow> region_nz g input (b + i)" if "(b + 8) * g \<le> length input" "i < 8" for b i
    using pack_spec [OF assms(1) that(1)] that(2) by (simp add: bit_mask_of)
  note spec = reduce_loops_spec [OF g assms(2,3) pk neighbours_differ_spec [OF _ g]]
  show "length (reduce_with e g input out) = length out" unfolding reduce_with_def by (rule spec(1))
  show "\<forall>k < 8 * length out. obit (reduce_with e g input out) k \<longleftrightarrow> region_nz g input k"
    unfolding reduce_with_def by (rule spec(2))
qed

end
