(* ===== verification/SveReduction.thy ===== *)
theory SveReduction
  imports VectorReduction
begin

text \<open>
  \<open>src/modules/byte_comparison_sve.cpp\<close>: the bitmap reduction with the scalable vectors of ARM64
  processors.  A register has \<open>vector_bytes\<close> byte lanes, a number that is known at run time only; the
  dispatcher selects the code for its value.  A predicate that \<open>svwhilelt\<close> makes is the number of its active lanes, which
  come first.  The result shows that the code for every vector length computes the bitmap of the fixed-width paths.
\<close>

section \<open>Instructions\<close>

text \<open>A predicated load reads only the active lanes; the others become zero.\<close>

definition svld1_u8 :: "nat \<Rightarrow> nat \<Rightarrow> byte list \<Rightarrow> nat \<Rightarrow> byte list" where
  "svld1_u8 vbytes active input off = take active (drop off input) @ replicate (vbytes - active) 0"

definition svwhilelt_b8 :: "nat \<Rightarrow> nat \<Rightarrow> nat \<Rightarrow> nat" where
  "svwhilelt_b8 vbytes first limit = min vbytes (limit - first)"

text \<open>The shift of each lane by the lane of another register, and the horizontal disjunction.\<close>

definition svlsl_u8 :: "byte list \<Rightarrow> byte list \<Rightarrow> byte list" where
  "svlsl_u8 v shifts = map2 (\<lambda>x s. push_bit (unat s) x) v shifts"

definition svorv_u8 :: "byte list \<Rightarrow> byte" where
  "svorv_u8 v = foldr (OR) v 0"

section \<open>Loading a region\<close>

lemma sve_split:
  fixes bytes vbytes :: nat
  assumes "0 < vbytes" "vbytes < bytes"
  defines "split \<equiv> ((bytes - 1) div vbytes + 1) div 2 * vbytes"
  shows "0 < split" "split < bytes"
proof -
  let ?q = "(bytes - 1) div vbytes"
  have q: "1 \<le> ?q" using assms(1,2) by (simp add: div_greater_zero_iff Suc_le_eq)
  then have "0 < (?q + 1) div 2" by linarith
  then show "0 < split" using assms(1) by (simp add: split_def)
  have "(?q + 1) div 2 \<le> ?q" using q by linarith
  then have "split \<le> ?q * vbytes" unfolding split_def by (rule mult_le_mono1)
  also have "\<dots> \<le> bytes - 1" by (rule div_times_less_eq_dividend)
  finally show "split < bytes" using assms(2) by linarith
qed

text \<open>The code has one instance per number of bytes; no instance has vectors without lanes.\<close>

function LoadSveRegion :: "nat \<Rightarrow> nat \<Rightarrow> byte list \<Rightarrow> nat \<Rightarrow> byte list" where
  "LoadSveRegion vbytes bytes input off =
     (if bytes = vbytes then svld1_u8 vbytes vbytes input off
      else if bytes < vbytes \<or> vbytes = 0 then svld1_u8 vbytes (svwhilelt_b8 vbytes 0 bytes) input off
      else
        let vectors = (bytes - 1) div vbytes + 1;
            split = vectors div 2 * vbytes
        in VectorBitwiseOr (LoadSveRegion vbytes split input off) (LoadSveRegion vbytes (bytes - split) input (off + split)))"
  by pat_completeness auto

termination
  by (relation "measure (\<lambda>(_, bytes, _, _). bytes)") (use sve_split in auto)

declare LoadSveRegion.simps [simp del]

text \<open>The loop that advances an accumulator over a region.\<close>

function sve_loop :: "nat \<Rightarrow> bool \<Rightarrow> nat \<Rightarrow> nat \<Rightarrow> byte list \<Rightarrow> nat \<Rightarrow> nat \<Rightarrow> byte list \<Rightarrow> byte list" where
  "sve_loop vbytes complete1 accumulator_bytes region_bytes input start offset acc =
     (if offset < region_bytes \<and> 0 < vbytes then
        let active = (if complete1 \<and> accumulator_bytes mod vbytes = 0 then vbytes else svwhilelt_b8 vbytes offset region_bytes)
        in sve_loop vbytes complete1 accumulator_bytes region_bytes input start (offset + vbytes)
             (VectorBitwiseOr acc (svld1_u8 vbytes active input (start + offset)))
      else acc)"
  by pat_completeness auto

termination by (relation "measure (\<lambda>(_, _, _, region_bytes, _, _, offset, _). region_bytes - offset)") auto

declare sve_loop.simps [simp del]

text \<open>
  \<open>reduce_regions\<close>: four registers, the first \<open>accumulators\<close> of which hold consecutive pieces of
  \<open>accumulator_bytes\<close> from \<open>first_byte\<close> on.
\<close>

definition sve_reduce_regions :: "nat \<Rightarrow> bool \<Rightarrow> nat \<Rightarrow> nat \<Rightarrow> byte list \<Rightarrow> nat \<Rightarrow> nat \<Rightarrow> byte list list" where
  "sve_reduce_regions vbytes complete1 accumulator_bytes accumulators input first_byte region_bytes =
     map (\<lambda>i. if i < accumulators
              then let start = first_byte + i * accumulator_bytes
                   in if complete1 \<and> (accumulator_bytes - 1) div vbytes + 1 \<le> 4
                      then LoadSveRegion vbytes accumulator_bytes input start
                      else sve_loop vbytes complete1 accumulator_bytes region_bytes input start 0 (replicate vbytes 0)
              else replicate vbytes 0) [0..<4]"

section \<open>Packing\<close>

text \<open>\<open>lane_shifts\<close> counts the region boundaries at or below a lane, in byte lanes.\<close>

definition lane_shifts :: "nat \<Rightarrow> nat \<Rightarrow> nat \<Rightarrow> byte list" where
  "lane_shifts vbytes bytes_per_bit regions_per_accumulator =
     map (\<lambda>lane. foldl (\<lambda>s k. if (of_nat ((k + 1) * bytes_per_bit) :: byte) \<le> of_nat lane then s + 1 else s) 0
            [0..<regions_per_accumulator - 1]) [0..<vbytes]"

function PackSveRegions :: "nat \<Rightarrow> nat \<Rightarrow> nat \<Rightarrow> byte list list \<Rightarrow> byte list \<Rightarrow> byte list \<Rightarrow> byte list" where
  "PackSveRegions first count1 regions_per_accumulator values1 shifts next_shifts =
     (if count1 \<le> 1 then
        let flags = map (\<lambda>x. min x 1) (values1 ! first)
        in if regions_per_accumulator = 1 then (if first = 0 then flags else map (push_bit first) flags)
           else svlsl_u8 flags (if first = 0 then shifts else next_shifts)
      else
        let half = count1 div 2
        in VectorBitwiseOr (PackSveRegions first half regions_per_accumulator values1 shifts next_shifts)
             (PackSveRegions (first + half) half regions_per_accumulator values1 shifts next_shifts))"
  by pat_completeness auto

termination by (relation "measure (\<lambda>(_, count1, _, _, _, _). count1)") auto

declare PackSveRegions.simps [simp del]

fun bit_floor :: "nat \<Rightarrow> nat" where
  "bit_floor n = (if n < 2 then n else 2 * bit_floor (n div 2))"

declare bit_floor.simps [simp del]

definition regions_per_accumulator :: "nat \<Rightarrow> nat \<Rightarrow> nat" where
  "regions_per_accumulator vbytes bytes_per_bit = bit_floor (min (max (vbytes div bytes_per_bit) 1) 4)"

text \<open>One byte of the output: two batches of four regions.\<close>

definition sve_batch :: "nat \<Rightarrow> nat \<Rightarrow> byte list \<Rightarrow> nat \<Rightarrow> byte list" where
  "sve_batch vbytes bytes_per_bit input first_region =
     (let rpa = regions_per_accumulator vbytes bytes_per_bit;
          bytes_per_accumulator = bytes_per_bit * rpa;
          accumulators = 4 div rpa;
          shifts = lane_shifts vbytes bytes_per_bit rpa;
          next_shifts = (if rpa = 2 then map (\<lambda>s. s + of_nat rpa) shifts else shifts)
      in PackSveRegions 0 accumulators rpa
           (sve_reduce_regions vbytes True bytes_per_accumulator accumulators input (first_region * bytes_per_bit) bytes_per_accumulator)
           shifts next_shifts)"

definition sve_pack :: "nat \<Rightarrow> nat \<Rightarrow> byte list \<Rightarrow> nat \<Rightarrow> byte" where
  "sve_pack vbytes bytes_per_bit input b =
     (let low = sve_batch vbytes bytes_per_bit input b;
          high = sve_batch vbytes bytes_per_bit input (b + 4)
      in svorv_u8 (VectorBitwiseOr low (map (push_bit 4) high)))"

text \<open>The test of a region of the last byte: a comparison of each lane with zero.\<close>

definition sve_nonzero :: "nat \<Rightarrow> nat \<Rightarrow> byte list \<Rightarrow> nat \<Rightarrow> bool" where
  "sve_nonzero vbytes bytes_per_bit input first \<longleftrightarrow>
     list_ex (\<lambda>x. x \<noteq> 0) (sve_reduce_regions vbytes False bytes_per_bit 1 input first (min bytes_per_bit (length input - first)) ! 0)"

definition ReduceBitmapUsingSveImpl :: "nat \<Rightarrow> nat \<Rightarrow> byte list \<Rightarrow> byte list \<Rightarrow> byte list" where
  "ReduceBitmapUsingSveImpl bytes_per_bit vbytes input out =
     (case reduce_complete (sve_pack vbytes bytes_per_bit input) (length input div bytes_per_bit) 0 out of
        (b, out') \<Rightarrow> reduce_tail (sve_nonzero vbytes bytes_per_bit input) bytes_per_bit (length input) (b * bytes_per_bit) b out')"

text \<open>The dispatch over the vector lengths 16, 32, ..., 256; \<open>None\<close> for any other length.\<close>

definition ReduceBitmapUsingSve :: "nat \<Rightarrow> nat \<Rightarrow> byte list \<Rightarrow> byte list \<Rightarrow> byte list option" where
  "ReduceBitmapUsingSve bytes_per_bit vbytes input out =
     (case filter (\<lambda>width. vbytes = width) (map (\<lambda>i. 16 * i) [1..<17]) of
        [] \<Rightarrow> None
      | width # _ \<Rightarrow> Some (ReduceBitmapUsingSveImpl bytes_per_bit width input out))"

section \<open>The regions\<close>

lemma svld1_u8_spec:
  assumes "active \<le> vbytes" "off + active \<le> length input"
  shows "length (svld1_u8 vbytes active input off) = vbytes"
    and "nz (svld1_u8 vbytes active input off) \<longleftrightarrow> nz (take active (drop off input))"
  using assms by (simp_all add: svld1_u8_def) (auto simp: nz_def)

lemma LoadSveRegion_spec:
  assumes "0 < vbytes" "0 < bytes" "off + bytes \<le> length input"
  shows "length (LoadSveRegion vbytes bytes input off) = vbytes \<and>
    (nz (LoadSveRegion vbytes bytes input off) \<longleftrightarrow> nz (take bytes (drop off input)))"
  using assms
proof (induction vbytes bytes input off rule: LoadSveRegion.induct)
  case (1 vbytes bytes input off)
  show ?case
  proof (cases "vbytes < bytes")
    case False
    then have "LoadSveRegion vbytes bytes input off = svld1_u8 vbytes bytes input off"
      by (subst LoadSveRegion.simps) (auto simp: svwhilelt_b8_def)
    then show ?thesis using svld1_u8_spec [of bytes vbytes off input] False 1 by simp
  next
    case True
    define vectors where "vectors = (bytes - 1) div vbytes + 1"
    define split where "split = vectors div 2 * vbytes"
    have s: "0 < split" "split < bytes" using sve_split [OF 1(3) True] by (simp_all add: split_def vectors_def)
    let ?l = "LoadSveRegion vbytes split input off" and ?r = "LoadSveRegion vbytes (bytes - split) input (off + split)"
    have l: "length ?l = vbytes" "nz ?l \<longleftrightarrow> nz (take split (drop off input))"
      using 1(1) [OF _ _ vectors_def split_def] True 1(3-5) s by simp_all
    have r: "length ?r = vbytes" "nz ?r \<longleftrightarrow> nz (take (bytes - split) (drop (off + split) input))"
      using 1(2) [OF _ _ vectors_def split_def] True 1(3-5) s by simp_all
    have "LoadSveRegion vbytes bytes input off = VectorBitwiseOr ?l ?r"
      using True 1(3) by (subst LoadSveRegion.simps) (simp add: Let_def split_def vectors_def)
    then show ?thesis using l r nz_range_split [of split "bytes - split" off input] s by (simp add: nz_VectorBitwiseOr)
  qed
qed

lemma sve_loop_spec:
  assumes "0 < vbytes" "length acc = vbytes" "start + region_bytes \<le> length input" "complete1 \<longrightarrow> accumulator_bytes = region_bytes"
    and "offset mod vbytes = 0"
  shows "length (sve_loop vbytes complete1 accumulator_bytes region_bytes input start offset acc) = vbytes \<and>
    (nz (sve_loop vbytes complete1 accumulator_bytes region_bytes input start offset acc) \<longleftrightarrow>
       nz acc \<or> nz (take (region_bytes - offset) (drop (start + offset) input)))"
  using assms
proof (induction vbytes complete1 accumulator_bytes region_bytes input start offset acc rule: sve_loop.induct)
  case (1 vbytes complete1 accumulator_bytes region_bytes input start offset acc)
  show ?case
  proof (cases "offset < region_bytes")
    case False
    then show ?thesis using 1(3) by (subst (1 2) sve_loop.simps) simp
  next
    case True
    define active where "active = (if complete1 \<and> accumulator_bytes mod vbytes = 0 then vbytes else svwhilelt_b8 vbytes offset region_bytes)"
    have full: "vbytes \<le> region_bytes - offset" if "complete1 \<and> accumulator_bytes mod vbytes = 0"
    proof -
      have "vbytes dvd region_bytes - offset" using that 1(5,6) by (intro dvd_diff_nat) (auto simp: mod_0_imp_dvd)
      then show ?thesis using True by (intro dvd_imp_le) simp_all
    qed
    then have a: "active = min vbytes (region_bytes - offset)" by (auto simp: active_def svwhilelt_b8_def)
    let ?load = "svld1_u8 vbytes active input (start + offset)"
    have load: "length ?load = vbytes" "nz ?load \<longleftrightarrow> nz (take active (drop (start + offset) input))"
      using svld1_u8_spec [of active vbytes "start + offset" input] 1(4) True a by simp_all
    have or: "length (VectorBitwiseOr acc ?load) = vbytes" "nz (VectorBitwiseOr acc ?load) \<longleftrightarrow> nz acc \<or> nz ?load"
      using load(1) 1(3) by (simp_all add: nz_VectorBitwiseOr)
    have "region_bytes - offset = active + (region_bytes - (offset + vbytes))" using a by linarith
    then have "nz (take (region_bytes - offset) (drop (start + offset) input)) \<longleftrightarrow>
        nz (take active (drop (start + offset) input)) \<or>
        nz (take (region_bytes - (offset + vbytes)) (drop (start + (offset + vbytes)) input))"
      using nz_range_split [of active "region_bytes - (offset + vbytes)" "start + offset" input] a
      by (cases "vbytes \<le> region_bytes - offset") (simp_all add: add.assoc)
    moreover have "sve_loop vbytes complete1 accumulator_bytes region_bytes input start offset acc =
        sve_loop vbytes complete1 accumulator_bytes region_bytes input start (offset + vbytes) (VectorBitwiseOr acc ?load)"
      using True 1(2) by (subst sve_loop.simps) (simp add: Let_def active_def)
    ultimately show ?thesis
      using 1(1) [OF _ active_def] True 1(2,4-6) or load(2) by simp
  qed
qed

lemma nz_replicate_zero [simp]: "\<not> nz (replicate n 0)"
  by (simp add: nz_def)

lemma sve_reduce_regions_spec:
  assumes "0 < vbytes" "0 < bytes" "i < accumulators" "accumulators \<le> 4"
    and "first_byte + i * bytes + region_bytes \<le> length input" "complete1 \<longrightarrow> bytes = region_bytes"
  defines "v \<equiv> sve_reduce_regions vbytes complete1 bytes accumulators input first_byte region_bytes ! i"
  shows "length v = vbytes" "nz v \<longleftrightarrow> nz (take region_bytes (drop (first_byte + i * bytes) input))"
  using LoadSveRegion_spec [OF assms(1,2), of "first_byte + i * bytes" input]
    sve_loop_spec [OF assms(1) length_replicate assms(5,6), of 0] assms(3-6)
  by (auto simp: v_def sve_reduce_regions_def Let_def)

text \<open>A piece that fits into a register is there lane by lane.\<close>

lemma sve_reduce_regions_lanes:
  assumes "0 < vbytes" "0 < bytes" "bytes \<le> vbytes" "i < accumulators" "accumulators \<le> 4" "first_byte + i * bytes + bytes \<le> length input"
  shows "sve_reduce_regions vbytes True bytes accumulators input first_byte bytes ! i =
    take bytes (drop (first_byte + i * bytes) input) @ replicate (vbytes - bytes) 0"
proof -
  have "(bytes - 1) div vbytes = 0" using assms(1-3) by simp
  moreover have "LoadSveRegion vbytes bytes input off = svld1_u8 vbytes bytes input off" for off
    using assms(3) by (subst LoadSveRegion.simps) (auto simp: svwhilelt_b8_def)
  ultimately show ?thesis using assms(4,5) by (simp add: sve_reduce_regions_def svld1_u8_def)
qed

lemma sve_nonzero_spec:
  assumes "0 < vbytes" "0 < g" "first < length input"
  shows "sve_nonzero vbytes g input first \<longleftrightarrow> nz (take g (drop first input))"
proof -
  let ?n = "min g (length input - first)"
  have "take ?n (drop first input) = take g (drop first input)" by (simp add: min_def)
  then show ?thesis
    using sve_reduce_regions_spec(2) [of vbytes g 0 1 first ?n input False] assms
    by (simp add: sve_nonzero_def nz_def list_ex_iff)
qed

section \<open>The packed byte\<close>

lemma regions_per_accumulator_cases:
  assumes "0 < g"
  obtains (one) "regions_per_accumulator v g = 1" | (two) "regions_per_accumulator v g = 2" "g * 2 \<le> v"
    | (four) "regions_per_accumulator v g = 4" "g * 4 \<le> v"
proof -
  have f: "bit_floor 1 = 1" "bit_floor 2 = 2" "bit_floor 3 = 2" "bit_floor 4 = 4"
    by (simp_all add: bit_floor.simps)
  have le: "n \<le> v div g \<Longrightarrow> g * n \<le> v" for n using assms by (simp add: less_eq_div_iff_mult_less_eq mult.commute)
  consider "v div g \<le> 1" | "v div g = 2" | "v div g = 3" | "4 \<le> v div g" by linarith
  then show thesis
  proof cases
    case 1
    then show ?thesis using f one by (simp add: regions_per_accumulator_def max_def)
  next
    case 2
    then have "min (max (v div g) 1) 4 = 2" by simp
    then have "regions_per_accumulator v g = 2" unfolding regions_per_accumulator_def using f(2) by metis
    then show ?thesis using two le [of 2] 2 by simp
  next
    case 3
    then have "min (max (v div g) 1) 4 = 3" by simp
    then have "regions_per_accumulator v g = 2" unfolding regions_per_accumulator_def using f(3) by metis
    then show ?thesis using two le [of 2] 3 by simp
  next
    case 4
    then have "min (max (v div g) 1) 4 = 4" by simp
    then have "regions_per_accumulator v g = 4" unfolding regions_per_accumulator_def using f(4) by metis
    then show ?thesis using four le [of 4] 4 by simp
  qed
qed

text \<open>A lane of a register with several regions is shifted by the number of its region.\<close>

lemma length_lane_shifts [simp]: "length (lane_shifts v g rpa) = v"
  by (simp add: lane_shifts_def)

lemma byte_le: "a < 256 \<Longrightarrow> b < 256 \<Longrightarrow> (of_nat a :: byte) \<le> of_nat b \<longleftrightarrow> a \<le> b"
  by (simp add: word_of_nat_less_eq_iff take_bit_nat_eq_self)

lemma count_boundaries: "foldl (\<lambda>s k. if k + 1 \<le> d then s + 1 else s) (0 :: byte) [0..<n] = of_nat (min d n)"
  by (induction n) (auto simp: min_def not_le less_Suc_eq_le)

lemma lane_shifts_nth:
  assumes "0 < g" "g * rpa \<le> v" "v \<le> 256" "rpa = 2 \<or> rpa = 4" "lane < g * rpa"
  shows "lane_shifts v g rpa ! lane = of_nat (lane div g)"
proof -
  let ?below = "\<lambda>k. (of_nat ((k + 1) * g) :: byte) \<le> of_nat lane"
  have le: "?below k \<longleftrightarrow> (k + 1) * g \<le> lane" if "k + 1 < rpa" for k
  proof -
    have "(k + 1) * g < rpa * g" using that assms(1) by (intro mult_strict_right_mono) simp_all
    then show ?thesis using assms(2,3,5) by (intro byte_le) (simp_all add: mult.commute)
  qed
  have div: "(k + 1) * g \<le> lane \<longleftrightarrow> k + 1 \<le> lane div g" for k using assms(1) by (simp add: less_eq_div_iff_mult_less_eq)
  have "lane div g < rpa" using assms(1,5) by (simp add: div_less_iff_less_mult mult.commute)
  moreover have "lane_shifts v g rpa ! lane =
      foldl (\<lambda>s k. if ?below k then s + 1 else s) 0 [0..<rpa - 1]"
    using assms(2,5) by (simp add: lane_shifts_def)
  moreover have "foldl (\<lambda>s k. if ?below k then s + 1 else s) 0 [0..<rpa - 1] =
      foldl (\<lambda>s k. if k + 1 \<le> lane div g then s + 1 else s) (0 :: byte) [0..<rpa - 1]"
    by (rule foldl_cong) (use le div in auto)
  ultimately show ?thesis using count_boundaries [of "lane div g" "rpa - 1"] by (simp add: min_def)
qed

definition shift_of :: "nat \<Rightarrow> byte list \<Rightarrow> byte list \<Rightarrow> nat \<Rightarrow> nat \<Rightarrow> nat" where
  "shift_of rpa shifts next_shifts i lane = (if rpa = 1 then i else unat ((if i = 0 then shifts else next_shifts) ! lane))"

lemma bit_flag: "bit (push_bit n (min (x :: byte) 1)) j \<longleftrightarrow> j < 8 \<and> x \<noteq> 0 \<and> j = n"
proof -
  have "min x 1 = (if x = 0 then 0 else 1)" by (simp add: min_def word_gt_0 word_order.extremum_unique inc_le linorder_not_le)
     (metis word_gt_0 inc_le add_0 antisym)
  then show ?thesis by (auto simp: bit_push_bit_iff bit_1_iff)
qed

lemma PackSveRegions_spec:
  assumes "\<And>i. first \<le> i \<Longrightarrow> i < first + 2 ^ k \<Longrightarrow> length (values1 ! i) = v" "length shifts = v" "length next_shifts = v"
  shows "length (PackSveRegions first (2 ^ k) rpa values1 shifts next_shifts) = v \<and>
    (\<forall>lane < v. \<forall>j. bit (PackSveRegions first (2 ^ k) rpa values1 shifts next_shifts ! lane) j \<longleftrightarrow>
       j < 8 \<and> (\<exists>i. first \<le> i \<and> i < first + 2 ^ k \<and> values1 ! i ! lane \<noteq> 0 \<and> j = shift_of rpa shifts next_shifts i lane))"
  using assms(1)
proof (induction k arbitrary: first)
  case 0
  then have len: "length (values1 ! first) = v" by simp
  have flag: "bit (min (x :: byte) 1) j \<longleftrightarrow> j < 8 \<and> x \<noteq> 0 \<and> j = 0" for x j using bit_flag [of 0 x j] by simp
  have one: "(\<exists>i. first \<le> i \<and> i < first + 1 \<and> P i) \<longleftrightarrow> P first" for P by (metis Suc_eq_plus1 le_antisym le_refl less_Suc_eq_le lessI)
  show ?case
    using len assms(2,3)
    by (subst (1 2) PackSveRegions.simps; cases "first = 0")
      (simp_all add: one [simplified] shift_of_def svlsl_u8_def Let_def bit_flag flag)
next
  case (Suc k)
  let ?h = "2 ^ k :: nat"
  let ?p = "\<lambda>f c. PackSveRegions f c rpa values1 shifts next_shifts"
  have step: "?p first (2 ^ Suc k) = VectorBitwiseOr (?p first ?h) (?p (first + ?h) ?h)"
  proof -
    have "(1 :: nat) \<le> 2 ^ k" by simp
    then have "\<not> 2 ^ Suc k \<le> (1 :: nat)" unfolding power_Suc by linarith
    moreover have "2 ^ Suc k div 2 = ?h" by simp
    ultimately show ?thesis by (subst PackSveRegions.simps) (simp only: Let_def if_False)
  qed
  have l: "length (?p first ?h) = v \<and> (\<forall>lane < v. \<forall>j. bit (?p first ?h ! lane) j \<longleftrightarrow>
       j < 8 \<and> (\<exists>i. first \<le> i \<and> i < first + ?h \<and> values1 ! i ! lane \<noteq> 0 \<and> j = shift_of rpa shifts next_shifts i lane))"
    using Suc.prems by (intro Suc.IH) simp
  have r: "length (?p (first + ?h) ?h) = v \<and> (\<forall>lane < v. \<forall>j. bit (?p (first + ?h) ?h ! lane) j \<longleftrightarrow>
       j < 8 \<and> (\<exists>i. first + ?h \<le> i \<and> i < first + ?h + ?h \<and> values1 ! i ! lane \<noteq> 0 \<and> j = shift_of rpa shifts next_shifts i lane))"
    using Suc.prems by (intro Suc.IH) simp
  have split: "(\<exists>i. first \<le> i \<and> i < first + 2 ^ Suc k \<and> P i) \<longleftrightarrow>
      (\<exists>i. first \<le> i \<and> i < first + ?h \<and> P i) \<or> (\<exists>i. first + ?h \<le> i \<and> i < first + ?h + ?h \<and> P i)" for P
  proof -
    have bounds: "first \<le> first + ?h" "first + ?h \<le> first + ?h + ?h" and e: "first + 2 ^ Suc k = first + ?h + ?h" by simp_all
    show ?thesis unfolding e using bounds by (meson le_trans not_le order_less_le_trans)
  qed
  have "VectorBitwiseOr a b ! lane = a ! lane OR b ! lane" if "length a = v" "length b = v" "lane < v" for a b :: "byte list" and lane
    using that by (simp add: VectorBitwiseOr_def)
  then show ?case unfolding step split using l r by (auto simp: bit_or_iff)
qed

lemma bit_svorv: "bit (svorv_u8 v) j \<longleftrightarrow> (\<exists>lane < length v. bit (v ! lane) j)"
proof -
  have "bit (svorv_u8 v) j \<longleftrightarrow> (\<exists>x \<in> set v. bit x j)" by (induction v) (simp_all add: svorv_u8_def bit_or_iff)
  then show ?thesis by (metis in_set_conv_nth)
qed

lemma region_nth: "(\<exists>lane < length v. v ! lane \<noteq> 0) \<longleftrightarrow> nz v"
  unfolding nz_def by (metis in_set_conv_nth)

lemma region_lanes:
  assumes "(s + 1) * g \<le> length input"
  shows "region_nz g input s \<longleftrightarrow> (\<exists>x < g. input ! (s * g + x) \<noteq> 0)"
  using assms by (auto simp: region_nz_def region_nth [symmetric])

text \<open>A batch sets bit \<open>j\<close> in some lane exactly when its region \<open>j\<close> is not zero.\<close>

lemma sve_batch_spec:
  assumes g: "0 < g" and v: "0 < v" "v \<le> 256" and fit: "(s + 4) * g \<le> length input"
  shows "length (sve_batch v g input s) = v"
    and "(\<exists>lane < v. bit (sve_batch v g input s ! lane) j) \<longleftrightarrow> j < 4 \<and> region_nz g input (s + j)"
proof -
  define rpa where "rpa = regions_per_accumulator v g"
  define shifts where "shifts = lane_shifts v g rpa"
  define next_shifts where "next_shifts = (if rpa = 2 then map (\<lambda>x. x + of_nat rpa) shifts else shifts)"
  define pieces where "pieces = sve_reduce_regions v True (g * rpa) (4 div rpa) input (s * g) (g * rpa)"
  have batch: "sve_batch v g input s = PackSveRegions 0 (4 div rpa) rpa pieces shifts next_shifts"
    by (simp add: sve_batch_def rpa_def shifts_def next_shifts_def pieces_def Let_def)
  have len: "length shifts = v" "length next_shifts = v" by (simp_all add: shifts_def next_shifts_def)
  have cases: "rpa = 1 \<or> (rpa = 2 \<or> rpa = 4) \<and> g * rpa \<le> v"
    unfolding rpa_def by (rule regions_per_accumulator_cases [OF g, of v]) simp_all
  then obtain k where k: "4 div rpa = 2 ^ k" "rpa * 4 div rpa = 4" "rpa * (4 div rpa) = 4" "0 < rpa"
    using that [of 2] that [of 1] that [of 0] by auto
  have piece_fit: "s * g + i * (g * rpa) + g * rpa \<le> length input" if "i < 4 div rpa" for i
  proof -
    have "(i + 1) * rpa \<le> 4 div rpa * rpa" using that by (intro mult_le_mono1) simp
    then have "(i + 1) * rpa * g \<le> 4 * g" using k(3) by (intro mult_le_mono1) (simp add: mult.commute)
    then show ?thesis using fit by (simp add: algebra_simps)
  qed
  have count4: "4 div rpa \<le> 4" by simp
  have plen: "length (pieces ! i) = v" and pnz: "nz (pieces ! i) \<longleftrightarrow> nz (take (g * rpa) (drop (s * g + i * (g * rpa)) input))"
    if "i < 4 div rpa" for i
    using sve_reduce_regions_spec [of v "g * rpa" i "4 div rpa" "s * g" "g * rpa" input True] piece_fit [OF that] that v(1) g k(4) count4
    unfolding pieces_def by simp_all
  have pack: "length (sve_batch v g input s) = v" "\<And>lane. lane < v \<Longrightarrow> bit (sve_batch v g input s ! lane) j \<longleftrightarrow>
      j < 8 \<and> (\<exists>i < 4 div rpa. pieces ! i ! lane \<noteq> 0 \<and> j = shift_of rpa shifts next_shifts i lane)"
    using PackSveRegions_spec [of 0 k pieces v shifts next_shifts rpa] plen len unfolding batch k(1) by auto
  show "length (sve_batch v g input s) = v" by (rule pack(1))
  have region: "region_nz g input (s + r) \<longleftrightarrow> (\<exists>x < g. input ! ((s + r) * g + x) \<noteq> 0)" if "r < 4" for r
  proof (rule region_lanes)
    have "(s + r + 1) * g \<le> (s + 4) * g" using that by (intro mult_le_mono1) simp
    then show "(s + r + 1) * g \<le> length input" using fit by linarith
  qed
  have any: "(\<exists>lane < v. bit (sve_batch v g input s ! lane) j) \<longleftrightarrow>
      j < 8 \<and> (\<exists>i < 4 div rpa. \<exists>lane < v. pieces ! i ! lane \<noteq> 0 \<and> j = shift_of rpa shifts next_shifts i lane)"
    using pack(2) by blast
  show "(\<exists>lane < v. bit (sve_batch v g input s ! lane) j) \<longleftrightarrow> j < 4 \<and> region_nz g input (s + j)"
  proof (cases "rpa = 1")
    case True
    have "(\<exists>lane < v. pieces ! i ! lane \<noteq> 0) \<longleftrightarrow> region_nz g input (s + i)" if "i < 4" for i
      using plen [of i] pnz [of i] region_nth [of "pieces ! i"] that True by (simp add: region_nz_def algebra_simps)
    then show ?thesis unfolding any using True by (auto simp: shift_of_def)
  next
    case False
    then have small: "rpa = 2 \<or> rpa = 4" "g * rpa \<le> v" using cases by simp_all
    have lane: "pieces ! i ! lane \<noteq> 0 \<longleftrightarrow> lane < g * rpa \<and> input ! (s * g + i * (g * rpa) + lane) \<noteq> 0"
      if "i < 4 div rpa" "lane < v" for i lane
      using sve_reduce_regions_lanes [of v "g * rpa" i "4 div rpa" "s * g" input] small(2) piece_fit [OF that(1)] that v(1) g k(4) count4
      unfolding pieces_def by (auto simp: nth_append)
    have shift: "shift_of rpa shifts next_shifts i lane = i * rpa + lane div g" if "i < 4 div rpa" "lane < g * rpa" for i lane
    proof -
      have d: "lane div g < rpa" using that(2) g by (simp add: div_less_iff_less_mult mult.commute)
      have "shifts ! lane = of_nat (lane div g)"
        unfolding shifts_def by (rule lane_shifts_nth [OF g small(2) v(2) small(1) that(2)])
      then have low: "unat (shifts ! lane) = lane div g" using d small(1) by (auto simp: unat_of_nat)
      have high: "unat (next_shifts ! lane) = 2 + lane div g" if "rpa = 2"
      proof -
        have "next_shifts ! lane = of_nat (2 + lane div g)"
          using \<open>shifts ! lane = _\<close> that \<open>lane < g * rpa\<close> small(2) len(1) by (simp add: next_shifts_def add.commute)
        moreover have "unat (of_nat (2 + lane div g) :: byte) = 2 + lane div g"
          unfolding unat_of_nat using d that by (intro mod_less) simp
        ultimately show ?thesis by metis
      qed
      have "i < 2 \<and> rpa = 2 \<or> i < 1" using that(1) small(1) by auto
      then consider "i = 0" | "i = 1" "rpa = 2" by linarith
      then show ?thesis
      proof cases
        case 1
        then show ?thesis using False low by (simp add: shift_of_def)
      next
        case 2
        then show ?thesis using high by (simp add: shift_of_def)
      qed
    qed
    have "(\<exists>i < 4 div rpa. \<exists>lane < v. pieces ! i ! lane \<noteq> 0 \<and> j = shift_of rpa shifts next_shifts i lane) \<longleftrightarrow>
        (\<exists>i < 4 div rpa. \<exists>lane < g * rpa. input ! (s * g + i * (g * rpa) + lane) \<noteq> 0 \<and> j = i * rpa + lane div g)"
    proof -
      have "(\<exists>lane < v. pieces ! i ! lane \<noteq> 0 \<and> j = shift_of rpa shifts next_shifts i lane) \<longleftrightarrow>
          (\<exists>lane < g * rpa. input ! (s * g + i * (g * rpa) + lane) \<noteq> 0 \<and> j = i * rpa + lane div g)"
        if i: "i < 4 div rpa" for i
      proof (rule ex_cong1)
        show "(lane < v \<and> pieces ! i ! lane \<noteq> 0 \<and> j = shift_of rpa shifts next_shifts i lane) =
            (lane < g * rpa \<and> input ! (s * g + i * (g * rpa) + lane) \<noteq> 0 \<and> j = i * rpa + lane div g)" for lane
          using lane [OF i] shift [OF i] small(2) by (cases "lane < g * rpa") auto
      qed
      then show ?thesis by (simp cong: conj_cong)
    qed
    also have "\<dots> \<longleftrightarrow> j < 4 \<and> (\<exists>x < g. input ! ((s + j) * g + x) \<noteq> 0)"
    proof
      assume "\<exists>i < 4 div rpa. \<exists>lane < g * rpa. input ! (s * g + i * (g * rpa) + lane) \<noteq> 0 \<and> j = i * rpa + lane div g"
      then obtain i lane where i: "i < 4 div rpa" "lane < g * rpa" "input ! (s * g + i * (g * rpa) + lane) \<noteq> 0" "j = i * rpa + lane div g"
        by blast
      have "lane div g < rpa" using i(2) g by (simp add: div_less_iff_less_mult mult.commute)
      moreover have "(i + 1) * rpa \<le> 4 div rpa * rpa" using i(1) by (intro mult_le_mono1) simp
      ultimately have "j < 4" using i(4) k(3) by (simp add: mult.commute)
      moreover have "s * g + i * (g * rpa) + lane = (s + j) * g + lane mod g"
        using div_mult_mod_eq [of lane g] unfolding i(4) by (simp add: algebra_simps)
      ultimately show "j < 4 \<and> (\<exists>x < g. input ! ((s + j) * g + x) \<noteq> 0)" using i(3) g by (metis mod_less_divisor)
    next
      assume "j < 4 \<and> (\<exists>x < g. input ! ((s + j) * g + x) \<noteq> 0)"
      then obtain x where x: "j < 4" "x < g" "input ! ((s + j) * g + x) \<noteq> 0" by blast
      have "j div rpa < 4 div rpa" using x(1) small(1) by auto
      moreover have "j mod rpa * g + x < g * rpa"
      proof -
        have "(j mod rpa + 1) * g \<le> rpa * g" using k(4) by (intro mult_le_mono1) (simp add: Suc_le_eq)
        then show ?thesis using x(2) by (simp add: mult.commute)
      qed
      moreover have "s * g + j div rpa * (g * rpa) + (j mod rpa * g + x) = (s + j) * g + x"
      proof -
        have "j * g = j div rpa * (g * rpa) + j mod rpa * g"
          by (subst div_mult_mod_eq [of j rpa, symmetric]) (simp only: distrib_right mult.assoc mult.commute [of rpa g])
        then show ?thesis by (simp only: distrib_right add.assoc)
      qed
      moreover have "j = j div rpa * rpa + (j mod rpa * g + x) div g" using x(2) by simp
      ultimately show "\<exists>i < 4 div rpa. \<exists>lane < g * rpa. input ! (s * g + i * (g * rpa) + lane) \<noteq> 0 \<and> j = i * rpa + lane div g"
        using x(3) by metis
    qed
    finally show ?thesis unfolding any using region [of j] by auto
  qed
qed

lemma sve_pack_spec:
  assumes "0 < g" "0 < v" "v \<le> 256" "(b + 8) * g \<le> length input" "i < 8"
  shows "bit (sve_pack v g input b) i \<longleftrightarrow> region_nz g input (b + i)"
proof -
  let ?low = "sve_batch v g input b" and ?high = "sve_batch v g input (b + 4)"
  have "(b + 4) * g \<le> (b + 8) * g" by (intro mult_le_mono1) simp
  then have fit: "(b + 4) * g \<le> length input" using assms(4) by (rule order_trans)
  have "b + 4 + 4 = b + 8" by simp
  then have fit2: "(b + 4 + 4) * g \<le> length input" using assms(4) by metis
  note low = sve_batch_spec [OF assms(1-3) fit] and high = sve_batch_spec [OF assms(1-3) fit2]
  have "VectorBitwiseOr ?low (map (push_bit 4) ?high) ! lane = ?low ! lane OR push_bit 4 (?high ! lane)" if "lane < v" for lane
    using that low(1) high(1) by (simp add: VectorBitwiseOr_def)
  then have "bit (sve_pack v g input b) i \<longleftrightarrow> (\<exists>lane < v. bit (?low ! lane) i \<or> bit (push_bit 4 (?high ! lane)) i)"
    using low(1) high(1) by (auto simp: sve_pack_def Let_def bit_svorv bit_or_iff)
  also have "\<dots> \<longleftrightarrow> (\<exists>lane < v. bit (?low ! lane) i) \<or> 4 \<le> i \<and> (\<exists>lane < v. bit (?high ! lane) (i - 4))"
    using assms(5) by (auto simp: bit_push_bit_iff)
  also have "\<dots> \<longleftrightarrow> region_nz g input (b + i)"
    unfolding low(2) high(2) using assms(5) by (cases "i < 4") auto
  finally show ?thesis .
qed

lemma ReduceBitmapUsingSve_spec:
  assumes "ReduceBitmapUsingSve g v input out = Some out'" "0 < g" "length input \<le> 8 * length out * g" "\<forall>x \<in> set out. x = 0"
  shows "length out' = length out" "\<forall>k < 8 * length out. obit out' k \<longleftrightarrow> region_nz g input k"
proof -
  obtain width rest where "filter (\<lambda>width. v = width) (map (\<lambda>i. 16 * i) [1..<17]) = width # rest"
    and out': "out' = ReduceBitmapUsingSveImpl g width input out"
    using assms(1) by (auto simp: ReduceBitmapUsingSve_def split: list.splits)
  then have "width \<in> set (filter (\<lambda>width. v = width) (map (\<lambda>i. 16 * i) [1..<17]))" by (metis list.set_intros(1))
  then have w: "0 < width" "width \<le> 256" by auto
  note spec = reduce_loops_spec [OF assms(2-4) sve_pack_spec [OF assms(2) w] sve_nonzero_spec [OF w(1) assms(2)]]
  show "length out' = length out" unfolding out' ReduceBitmapUsingSveImpl_def by (rule spec(1))
  show "\<forall>k < 8 * length out. obit out' k \<longleftrightarrow> region_nz g input k" unfolding out' ReduceBitmapUsingSveImpl_def by (rule spec(2))
qed

end
