(* ===== verification/ReduceBitmaps.thy ===== *)
theory ReduceBitmaps
  imports SveReduction
begin

text \<open>
  \<open>src/modules/byte_comparison.ixx\<close>: the choice of the instruction set, and the reduction of a bitmap to a coarser one
  with it.  The result shows that every path (SSE2, AVX2, both AVX-512 forms, NEON, and scalable vectors of every length)
  computes the same bitmap: bit \<open>k\<close> is set exactly when region \<open>k\<close> of the input has a nonzero byte.
\<close>

section \<open>The dispatch\<close>

text \<open>
  The processor: an x64 one with or without 512-bit and 256-bit vectors, an ARM64 one without scalable vectors, or an
  ARM64 one with scalable vectors of \<open>SveVectorBytes\<close> bytes.
\<close>

datatype cpu = X64 (has512: bool) (has256: bool) | Arm64 | Arm64Sve (SveVectorBytes: nat)

definition select_engine :: "cpu \<Rightarrow> nat \<Rightarrow> engine" where
  "select_engine c resolution_ratio =
     (case c of
        Arm64 \<Rightarrow> Neon
      | Arm64Sve _ \<Rightarrow> Neon
      | X64 v512 v256 \<Rightarrow>
          if (resolution_ratio = 256 \<or> resolution_ratio mod 512 = 0) \<and> v512
          then (if resolution_ratio = 256 then M512x2 else M512)
          else if resolution_ratio mod 256 = 0 \<and> v256 then M256 else M128)"

text \<open>
  The code for scalable vectors is taken where the processor has them and they either are longer than the registers of
  NEON or the reduction is not one that NEON expands; it reports a vector length it has no instance for, and the code
  for NEON follows.
\<close>

definition reduce_bits :: "cpu \<Rightarrow> nat \<Rightarrow> nat \<Rightarrow> byte list \<Rightarrow> byte list \<Rightarrow> byte list" where
  "reduce_bits c resolution_ratio bytes_per_bit input out =
     (let fixed_width = reduce_with (select_engine c resolution_ratio) bytes_per_bit input out
      in case c of
           Arm64Sve v \<Rightarrow>
             if \<not> kExpandBitmapReduction bytes_per_bit 16 \<or> 16 < v
             then (case ReduceBitmapUsingSve bytes_per_bit v input out of
                     Some out' \<Rightarrow> out'
                   | None \<Rightarrow> fixed_width)
             else fixed_width
         | _ \<Rightarrow> fixed_width)"

definition ReduceBitmap ::
    "heap \<Rightarrow> cpu \<Rightarrow> nat \<Rightarrow> nat \<Rightarrow> byte list \<Rightarrow> nat \<Rightarrow> byte list result" where
  "ReduceBitmap heap c original_resolution new_resolution input bitmap_minimum_length =
     (let resolution_ratio = new_resolution div original_resolution;
          bytes_per_bit = resolution_ratio div 8;
          bits = length input div bytes_per_bit + (if length input mod bytes_per_bit \<noteq> 0 then 1 else 0);
          output_size = bits div 8 + (if bits mod 8 \<noteq> 0 then 1 else 0)
      in ebind (ReallocVector_resize heap (ReallocVector_new 1 (two64 - 1))
                  (max output_size bitmap_minimum_length)) (\<lambda>result.
           Inr (reduce_bits c resolution_ratio bytes_per_bit input (ReallocVector_contents result))))"

text \<open>\<open>DispatchReduceBitmap\<close> tries the source resolutions 512, 1024, ..., 32768 in turn.\<close>

definition DispatchReduceBitmap ::
    "heap \<Rightarrow> cpu \<Rightarrow> nat \<Rightarrow> byte list \<Rightarrow> nat \<Rightarrow> nat \<Rightarrow> byte list option result" where
  "DispatchReduceBitmap heap c new_resolution input original_resolution bitmap_minimum_length =
     (case filter (\<lambda>r. original_resolution = r) [512, 1024, 2048, 4096, 8192, 16384, 32768] of
        [] \<Rightarrow> Inr None
      | r # _ \<Rightarrow> ebind (ReduceBitmap heap c r new_resolution input bitmap_minimum_length)
                  (\<lambda>out. Inr (Some out)))"

section \<open>The reduced bitmap\<close>

text \<open>The engine the dispatcher selects fits the resolution ratio.\<close>

lemma select_engine_fits:
  assumes "ratio mod 128 = 0" "0 < ratio"
  shows "engine_fits (select_engine c ratio) (ratio div 8)"
proof -
  from assms obtain q where q: "ratio = 128 * q" "0 < q" by (metis dvdE mod_0_imp_dvd mult_0_right neq0_conv)
  have d: "ratio div 8 = 16 * q" using q by simp
  have "ratio mod 512 = 128 * (q mod 4)" "ratio mod 256 = 128 * (q mod 2)"
    using mult_mod_right [of 128 q 4] mult_mod_right [of 128 q 2] q(1) by simp_all
  moreover have "64 dvd 16 * q" if "q mod 4 = 0"
    using that mult_dvd_mono [of 16 16 4 q] by (simp add: mod_0_imp_dvd)
  moreover have "32 dvd 16 * q" if "q mod 2 = 0"
    using that mult_dvd_mono [of 16 16 2 q] by (simp add: mod_0_imp_dvd)
  ultimately have dv: "ratio mod 512 = 0 \<Longrightarrow> 64 dvd 16 * q" "ratio mod 256 = 0 \<Longrightarrow> 32 dvd 16 * q"
    by simp_all
  have "select_engine c ratio = M512x2 \<Longrightarrow> ratio = 256" "select_engine c ratio = M512 \<Longrightarrow> ratio mod 512 = 0"
    "select_engine c ratio = M256 \<Longrightarrow> ratio mod 256 = 0"
    unfolding select_engine_def by (cases c; simp split: if_splits)+
  with dv q show ?thesis
    unfolding d engine_fits_def by (cases "select_engine c ratio") simp_all
qed

definition resolution_ok :: "nat \<Rightarrow> nat \<Rightarrow> bool" where
  "resolution_ok original new \<longleftrightarrow> 0 < original \<and> 0 < new \<and> new mod original = 0 \<and>
     new div original mod 128 = 0"

text \<open>Whatever the processor, the reduction sets the bits of the regions that are not zero.\<close>

lemma reduce_bits_spec:
  assumes "engine_fits (select_engine c ratio) g" "length input \<le> 8 * length out * g" "\<forall>x \<in> set out. x = 0"
  shows "length (reduce_bits c ratio g input out) = length out"
    and "\<forall>k < 8 * length out. obit (reduce_bits c ratio g input out) k \<longleftrightarrow> region_nz g input k"
proof -
  have g: "0 < g" using assms(1) by (simp add: engine_fits_def)
  have sve: "length out' = length out \<and> (\<forall>k < 8 * length out. obit out' k \<longleftrightarrow> region_nz g input k)"
    if "ReduceBitmapUsingSve g v input out = Some out'" for v out'
    using ReduceBitmapUsingSve_spec [OF that g assms(2,3)] by (rule conjI)
  have fixed: "length (reduce_with (select_engine c ratio) g input out) = length out \<and>
      (\<forall>k < 8 * length out. obit (reduce_with (select_engine c ratio) g input out) k \<longleftrightarrow> region_nz g input k)"
    using reduce_with_spec [OF assms] by (rule conjI)
  have "length (reduce_bits c ratio g input out) = length out \<and>
      (\<forall>k < 8 * length out. obit (reduce_bits c ratio g input out) k \<longleftrightarrow> region_nz g input k)"
  proof (cases c)
    case (Arm64Sve v)
    show ?thesis
    proof (cases "ReduceBitmapUsingSve g v input out")
      case None
      then show ?thesis using fixed Arm64Sve by (simp add: reduce_bits_def Let_def)
    next
      case (Some out')
      then show ?thesis
        using sve [OF Some] fixed Arm64Sve by (cases "\<not> kExpandBitmapReduction g 16 \<or> 16 < v") (simp_all add: reduce_bits_def Let_def)
    qed
  qed (use fixed in \<open>simp_all add: reduce_bits_def Let_def\<close>)
  then show "length (reduce_bits c ratio g input out) = length out"
    and "\<forall>k < 8 * length out. obit (reduce_bits c ratio g input out) k \<longleftrightarrow> region_nz g input k" by blast+
qed

lemma ReduceBitmap_spec:
  assumes "resolution_ok original new"
    and "ReduceBitmap heap c original new input minimum = Inr out"
  defines "g \<equiv> new div original div 8"
  shows "length out = max (div_up (div_up (length input) g) 8) minimum"
    and "\<And>k. k < 8 * length out \<Longrightarrow> obit out k \<longleftrightarrow> region_nz g input k"
proof -
  let ?ratio = "new div original" and ?n = "max (div_up (div_up (length input) g) 8) minimum"
  have "0 < ?ratio" using assms(1) unfolding resolution_ok_def by (metis dvd_div_eq_0_iff gr0I mod_0_imp_dvd neq0_conv)
  then have fits: "engine_fits (select_engine c ?ratio) g"
    unfolding g_def using assms(1) by (intro select_engine_fits) (auto simp: resolution_ok_def)
  then have g: "0 < g" by (simp add: engine_fits_def)
  obtain v where v: "ReallocVector_resize heap (ReallocVector_new 1 (two64 - 1)) ?n = Inr v"
    and out: "out = reduce_bits c ?ratio g input (ReallocVector_contents v)"
    using assms(2) unfolding ReduceBitmap_def by (auto simp: err_simps Let_def g_def div_up_def)
  note rs = resize_spec [OF rv_inv_new v]
  have len: "length (ReallocVector_contents v) = ?n" using rs(1,2) by simp
  have zero: "\<forall>x \<in> set (ReallocVector_contents v). x = 0"
    using rs(5) nth_contents [OF rs(1)] rs(2) len
    by (auto simp: in_set_conv_nth ReallocVector_new_def)
  have "length input \<le> div_up (length input) g * g" by (rule div_up_bound [OF g])
  also have "\<dots> \<le> 8 * ?n * g"
    using div_up_bound [of 8 "div_up (length input) g"] by (intro mult_le_mono1) linarith
  finally have fit: "length input \<le> 8 * length (ReallocVector_contents v) * g" unfolding len .
  show "length out = ?n" using reduce_bits_spec(1) [OF fits fit zero] out len by simp
  then show "\<And>k. k < 8 * length out \<Longrightarrow> obit out k \<longleftrightarrow> region_nz g input k"
    using reduce_bits_spec(2) [OF fits fit zero] out len by simp
qed

end
