(* ===== verification/KnownData.thy ===== *)
theory KnownData
  imports BlockDevice ReduceBitmaps
begin

text \<open>
  \<open>WindowsBlockDevice<true>::MakeKnownDataMap\<close> and its vector path
  (\<open>src/modules/windows_block_device.ixx\<close>): the bitmap that lets a backup client
  skip the chunks that \<open>Read\<close> fills entirely with zeros.  The results show that
  both paths give the same map and that a clear bit means that every byte of the
  chunk reads as zero.
\<close>

abbreviation (input) kSimdChunkSize :: nat where "kSimdChunkSize \<equiv> 4194304"

fun known_data_loop :: "AllocationBitmap \<Rightarrow> nat \<Rightarrow> nat \<Rightarrow> nat list \<Rightarrow> byte list \<Rightarrow> byte list" where
  "known_data_loop b len chunk_size [] result = result"
| "known_data_loop b len chunk_size (chunk # chunks) result =
     (let offset = mul64 chunk chunk_size;
          count = min chunk_size (len - offset);
          result' = if HasAllocatedClusters b offset count
            then result[chunk div 8 := (result ! (chunk div 8)) OR push_bit (chunk mod 8) 1]
            else result
      in known_data_loop b len chunk_size chunks result')"

definition MakeKnownDataMapUsingSimd ::
    "heap \<Rightarrow> cpu \<Rightarrow> AllocationBitmap \<Rightarrow> nat \<Rightarrow> nat \<Rightarrow> nat \<Rightarrow> byte list option result" where
  "MakeKnownDataMapUsingSimd heap c b len chunks bytes =
     ebind (DispatchReduceBitmap heap c kSimdChunkSize
              (take (BitmapByteCount b) (BitmapData b)) (cluster_size b) bytes) (\<lambda>reduced.
     case reduced of
       None \<Rightarrow> Inr None
     | Some result \<Rightarrow>
         let complete_chunks = cluster_count b div (kSimdChunkSize div cluster_size b)
         in if chunks \<le> complete_chunks then Inr (Some result)
            else
              let byte1 = complete_chunks div 8;
                  out1 = (result ! byte1) OR push_bit (complete_chunks mod 8) 255;
                  offset = mul64 complete_chunks kSimdChunkSize;
                  out2 = if \<not> HasAllocatedClusters b offset (min kSimdChunkSize (len - offset))
                         then out1 AND NOT (push_bit (complete_chunks mod 8) 1) else out1
              in Inr (Some (overwrite (result[byte1 := out2]) (byte1 + 1)
                              (replicate (bytes - byte1 - 1) 255))))"

definition MakeKnownDataMap_generic ::
    "heap \<Rightarrow> AllocationBitmap \<Rightarrow> nat \<Rightarrow> nat \<Rightarrow> nat \<Rightarrow> nat \<Rightarrow> byte list result" where
  "MakeKnownDataMap_generic heap b len chunk_size chunks bytes =
     ebind (ReallocVector_resize heap (ReallocVector_new 1 (two64 - 1)) bytes) (\<lambda>v.
       Inr (known_data_loop b len chunk_size [0..<chunks] (ReallocVector_contents v)))"

definition MakeKnownDataMap ::
    "heap \<Rightarrow> cpu \<Rightarrow> AllocationBitmap \<Rightarrow> nat \<Rightarrow> nat \<Rightarrow> byte list result" where
  "MakeKnownDataMap heap c b len chunk_size =
     (let chunks = len div chunk_size + (if len mod chunk_size \<noteq> 0 then 1 else 0);
          bytes = chunks div 8 + (if chunks mod 8 \<noteq> 0 then 1 else 0);
          generic = MakeKnownDataMap_generic heap b len chunk_size chunks bytes
      in if chunk_size = kSimdChunkSize then
           ebind (MakeKnownDataMapUsingSimd heap c b len chunks bytes) (\<lambda>r.
             case r of Some result \<Rightarrow> Inr result | None \<Rightarrow> generic)
         else generic)"

section \<open>What a bit of the map means\<close>

definition chunk_free :: "AllocationBitmap \<Rightarrow> nat \<Rightarrow> nat \<Rightarrow> nat \<Rightarrow> bool" where
  "chunk_free b len cs k \<longleftrightarrow> (\<forall>x. k * cs \<le> x \<and> x < (k + 1) * cs \<and> x < len \<longrightarrow> free_byte b x)"

lemma chunk_query:
  assumes "ab_inv b" "0 < cs" "k < div_up len cs" "len < two64"
  shows "mul64 k cs = k * cs" "k * cs < len"
    "HasAllocatedClusters b (k * cs) (min cs (len - k * cs)) \<longleftrightarrow> \<not> chunk_free b len cs k"
proof -
  show lt: "k * cs < len" using div_up_less [OF assms(2)] assms(3) by simp
  then show "mul64 k cs = k * cs" using assms(4) by (simp add: mul64_exact)
  let ?n = "min cs (len - k * cs)"
  have "x < k * cs + ?n \<longleftrightarrow> x < (k + 1) * cs \<and> x < len" for x using lt by auto
  moreover have "0 < ?n" "k * cs + ?n \<le> two64" using lt assms(2,4) by simp_all
  ultimately show "HasAllocatedClusters b (k * cs) ?n \<longleftrightarrow> \<not> chunk_free b len cs k"
    using HasAllocatedClusters_spec [OF assms(1), of ?n "k * cs"] unfolding chunk_free_def by blast
qed

lemma known_data_loop_spec:
  assumes "ab_inv b" "0 < cs" "len < two64" "\<forall>k \<in> set ks. k < div_up len cs \<and> k < 8 * length out"
  shows "length (known_data_loop b len cs ks out) = length out \<and>
    (\<forall>k < 8 * length out. obit (known_data_loop b len cs ks out) k \<longleftrightarrow>
       obit out k \<or> (k \<in> set ks \<and> \<not> chunk_free b len cs k))"
  using assms(4)
proof (induction ks arbitrary: out)
  case (Cons k ks)
  let ?out = "if \<not> chunk_free b len cs k
      then out[k div 8 := (out ! (k div 8)) OR push_bit (k mod 8) 1] else out"
  have k: "k < div_up len cs" "k < 8 * length out" using Cons.prems by simp_all
  note q = chunk_query [OF assms(1,2) k(1) assms(3)]
  have step: "known_data_loop b len cs (k # ks) out = known_data_loop b len cs ks ?out"
    using q by (simp add: Let_def)
  have lo: "length ?out = length out" by simp
  have IH: "length (known_data_loop b len cs ks ?out) = length ?out \<and>
    (\<forall>j < 8 * length ?out. obit (known_data_loop b len cs ks ?out) j \<longleftrightarrow>
       obit ?out j \<or> (j \<in> set ks \<and> \<not> chunk_free b len cs j))"
    using Cons.prems by (intro Cons.IH) simp
  have "obit ?out j \<longleftrightarrow> obit out j \<or> (j = k \<and> \<not> chunk_free b len cs j)" if "j < 8 * length out" for j
  proof -
    have "k div 8 < length out" using k(2) by (simp add: div_less_iff_less_mult mult.commute)
    moreover have "j = k \<longleftrightarrow> j div 8 = k div 8 \<and> j mod 8 = k mod 8" by (metis div_mult_mod_eq)
    ultimately show ?thesis by (auto simp: obit_def nth_list_update bit_or_iff bit_exp_iff)
  qed
  then show ?case using IH unfolding step lo by auto
qed simp

lemma fresh_zero:
  assumes "ReallocVector_resize heap (ReallocVector_new 1 m) n = Inr (v :: byte ReallocVector)"
  shows "length (ReallocVector_contents v) = n" "k < 8 * n \<Longrightarrow> \<not> obit (ReallocVector_contents v) k"
proof -
  note rs = resize_spec [OF rv_inv_new assms]
  show len: "length (ReallocVector_contents v) = n" using rs(1,2) by simp
  assume "k < 8 * n"
  then have "k div 8 < n" by (simp add: div_less_iff_less_mult mult.commute)
  then show "\<not> obit (ReallocVector_contents v) k"
    using rs(1,2) rs(5) [of "k div 8"] by (simp add: obit_def nth_contents ReallocVector_new_def)
qed

lemma generic_spec:
  assumes "ab_inv b" "0 < cs" "len < two64" "chunks = div_up len cs" "bytes = div_up chunks 8"
    and "MakeKnownDataMap_generic heap b len cs chunks bytes = Inr out"
  shows "length out = bytes" "k < chunks \<Longrightarrow> obit out k \<longleftrightarrow> \<not> chunk_free b len cs k"
proof -
  obtain v where v: "ReallocVector_resize heap (ReallocVector_new 1 (two64 - 1)) bytes = Inr (v :: byte ReallocVector)"
    and out: "out = known_data_loop b len cs [0..<chunks] (ReallocVector_contents v)"
    using assms(6) unfolding MakeKnownDataMap_generic_def by (auto simp: err_simps)
  note fz = fresh_zero [OF v]
  have cb: "chunks \<le> 8 * bytes" using div_up_bound [of 8 chunks] assms(5) by simp
  have "\<forall>k \<in> set [0..<chunks]. k < div_up len cs \<and> k < 8 * length (ReallocVector_contents v)"
    using assms(4) cb fz(1) by auto
  note l = known_data_loop_spec [OF assms(1-3) this]
  show "length out = bytes" using l fz(1) out by simp
  show "obit out k \<longleftrightarrow> \<not> chunk_free b len cs k" if "k < chunks"
    using l fz that cb unfolding out by simp
qed

section \<open>The vector path\<close>

text \<open>A region of the bitmap bytes is nonzero exactly when one of its clusters is allocated.\<close>

lemma nz_iff_nth: "nz v \<longleftrightarrow> (\<exists>j < length v. v ! j \<noteq> 0)"
  unfolding nz_def by (metis in_set_conv_nth)

lemma region_nz_nth: "region_nz g m k \<longleftrightarrow> (\<exists>j. j < g \<and> k * g + j < length m \<and> m ! (k * g + j) \<noteq> 0)"
  unfolding region_nz_def nz_iff_nth by (auto simp: less_diff_conv add.commute)

lemma region_clusters:
  "region_nz g (take (BitmapByteCount b) (BitmapData b)) k \<longleftrightarrow>
     (\<exists>c. k * (8 * g) \<le> c \<and> c < (k + 1) * (8 * g) \<and> cluster_allocated b c)"
  (is "?L \<longleftrightarrow> ?R")
proof -
  let ?m = "take (BitmapByteCount b) (BitmapData b)"
  have "?L \<longleftrightarrow> (\<exists>j. j < g \<and> k * g + j < length ?m \<and> ?m ! (k * g + j) \<noteq> 0)"
    by (rule region_nz_nth)
  also have "\<dots> \<longleftrightarrow> (\<exists>j i. j < g \<and> i < 8 \<and> k * g + j < length ?m \<and> bit (?m ! (k * g + j)) i)"
    by (auto simp: word_neq_0_bit)
  also have "\<dots> \<longleftrightarrow> ?R"
  proof
    assume "\<exists>j i. j < g \<and> i < 8 \<and> k * g + j < length ?m \<and> bit (?m ! (k * g + j)) i"
    then obtain j i where ji: "j < g" "i < 8" "k * g + j < length ?m" "bit (?m ! (k * g + j)) i" by blast
    let ?c = "8 * (k * g + j) + i"
    have d: "(8 * q + i) div 8 = q" "(8 * q + i) mod 8 = i" for q using ji(2) by simp_all
    have "8 * (q + j) + i < 8 * (q + g)" for q using ji(1,2) by simp
    then have "8 * (k * g + j) + i < 8 * (k * g + g)" .
    moreover have "k * (8 * g) \<le> ?c" "8 * (k * g + g) = (k + 1) * (8 * g)" by (simp_all add: algebra_simps)
    moreover have "cluster_allocated b ?c"
      unfolding cluster_allocated_def cluster_bit_def d using ji(3,4) by simp
    ultimately show ?R by metis
  next
    assume ?R
    then obtain c where c: "k * (8 * g) \<le> c" "c < (k + 1) * (8 * g)" "cluster_allocated b c" by blast
    have "k * g \<le> c div 8" "c div 8 < k * g + g"
      using c(1,2) by (simp_all add: less_eq_div_iff_mult_less_eq div_less_iff_less_mult algebra_simps)
    moreover from this have "k * g + (c div 8 - k * g) = c div 8" by simp
    moreover have "c div 8 < length ?m" "bit (?m ! (c div 8)) (c mod 8)"
      using c(3) unfolding cluster_allocated_def cluster_bit_def by blast+
    ultimately show "\<exists>j i. j < g \<and> i < 8 \<and> k * g + j < length ?m \<and> bit (?m ! (k * g + j)) i"
      by (intro exI [of _ "c div 8 - k * g"] exI [of _ "c mod 8"]) auto
  qed
  finally show ?thesis .
qed

text \<open>
  In a chunk whose clusters the bitmap describes, the bytes of the chunk are free
  exactly when its clusters are.
\<close>

lemma chunk_of_clusters:
  assumes "0 < s" "r * s = cs" "0 < r" "(k + 1) * r \<le> cluster_count b" "cluster_size b = s"
    and "cluster_count b * s \<le> len"
  shows "chunk_free b len cs k \<longleftrightarrow> \<not> (\<exists>c. k * r \<le> c \<and> c < (k + 1) * r \<and> cluster_allocated b c)"
proof -
  have cs: "k * cs = (k * r) * s" "(k + 1) * cs = ((k + 1) * r) * s" unfolding assms(2) [symmetric] by (simp_all only: mult.assoc)
  have "((k + 1) * r) * s \<le> len"
    using mult_le_mono1 [OF assms(4), of s] assms(6) by linarith
  then have len: "x < (k + 1) * cs \<Longrightarrow> x < len" for x unfolding cs by linarith
  have inside: "x div s < cluster_count b" if "x < (k + 1) * cs" for x
  proof -
    have "x div s < (k + 1) * r" using that assms(1) unfolding cs by (simp only: div_less_iff_less_mult)
    then show ?thesis using assms(4) by linarith
  qed
  have range: "k * cs \<le> x \<and> x < (k + 1) * cs \<longleftrightarrow> k * r \<le> x div s \<and> x div s < (k + 1) * r" for x
    unfolding cs by (rule bytes_of_clusters [OF assms(1)])
  have "chunk_free b len cs k \<longleftrightarrow>
      (\<forall>x. k * r \<le> x div s \<and> x div s < (k + 1) * r \<longrightarrow> \<not> cluster_allocated b (x div s))"
    unfolding chunk_free_def free_byte_def assms(5) using range len inside by blast
  also have "\<dots> \<longleftrightarrow> (\<forall>c. k * r \<le> c \<and> c < (k + 1) * r \<longrightarrow> \<not> cluster_allocated b c)"
    using assms(1) by (metis nonzero_mult_div_cancel_right less_numeral_extra(3))
  finally show ?thesis by blast
qed

text \<open>A chunk after the last described one has a byte that no cluster describes.\<close>

lemma beyond_clusters:
  assumes "0 < s" "r * s = cs" "0 < r" "cluster_count b div r < k" "cluster_size b = s"
    and "k < div_up len cs"
  shows "\<not> chunk_free b len cs k"
proof -
  have cs0: "0 < cs" using assms(1-3) by auto
  have "cluster_count b < k * r" using assms(3,4) by (simp add: div_less_iff_less_mult)
  moreover have "k * cs div s = k * r" using assms(1) unfolding assms(2) [symmetric] by (simp flip: mult.assoc)
  ultimately have "\<not> free_byte b (k * cs)" unfolding free_byte_def assms(5) by simp
  moreover have "k * cs < len" using div_up_less [OF cs0] assms(6) by simp
  ultimately show ?thesis unfolding chunk_free_def using cs0 by auto
qed

text \<open>The patch of the last described chunk and of the chunks after it.\<close>

lemma patched_bits:
  assumes "c div 8 < n" "n \<le> length out" "k < 8 * n"
    and "o2 = (if P then (out ! (c div 8) OR push_bit (c mod 8) 255) AND NOT (push_bit (c mod 8) 1)
               else out ! (c div 8) OR push_bit (c mod 8) 255)"
  shows "obit (overwrite (out[c div 8 := o2]) (c div 8 + 1) (replicate (n - c div 8 - 1) 255)) k \<longleftrightarrow>
    (if k < c then obit out k else if k = c then \<not> P else True)"
proof -
  let ?o = "out[c div 8 := o2]" and ?z = "replicate (n - c div 8 - 1) (255 :: byte)"
  have fit: "c div 8 + 1 + length ?z \<le> length ?o" using assms(1,2) by simp
  have kd: "k div 8 < n" using assms(3) by (simp add: div_less_iff_less_mult mult.commute)
  then have nth: "overwrite ?o (c div 8 + 1) ?z ! (k div 8) =
      (if c div 8 < k div 8 then 255 else if k div 8 = c div 8 then o2 else out ! (k div 8))"
    using nth_overwrite [OF fit, of "k div 8"] assms(1,2) by (auto simp: nth_list_update)
  have all: "bit (255 :: byte) j \<longleftrightarrow> j < 8" for j
    using bit_mask_iff [of 8 j, where 'a = "8 word"] by (simp add: mask_eq_exp_minus_1)
  have "bit (255 :: byte) (k mod 8 - c mod 8)" unfolding all by (simp add: less_imp_diff_less)
  then have o2: "bit o2 (k mod 8) \<longleftrightarrow> (if k mod 8 < c mod 8 then bit (out ! (c div 8)) (k mod 8)
      else if k mod 8 = c mod 8 then \<not> P else True)"
    unfolding assms(4)
    by (auto simp: bit_or_iff bit_and_iff bit_not_iff bit_push_bit_iff all bit_exp_iff)
  consider "c div 8 < k div 8" | "k div 8 = c div 8" | "k div 8 < c div 8" by linarith
  then show ?thesis
  proof cases
    case 1
    then have "\<not> k < c \<and> k \<noteq> c" using div_le_mono [of k c 8] by auto
    moreover have "bit (255 :: byte) (k mod 8)" unfolding all by simp
    ultimately show ?thesis unfolding obit_def nth using 1 by simp
  next
    case 2
    then have "k < c \<longleftrightarrow> k mod 8 < c mod 8" "k = c \<longleftrightarrow> k mod 8 = c mod 8"
      by (metis div_mult_mod_eq nat_add_left_cancel_less, metis div_mult_mod_eq)
    then show ?thesis unfolding obit_def nth using 2 o2 by simp
  next
    case 3
    then have "k < c" using div_le_mono [of c k 8] by linarith
    then show ?thesis unfolding obit_def nth using 3 by simp
  qed
qed

lemma dispatch_cases:
  assumes "DispatchReduceBitmap heap c kSimdChunkSize input s n = Inr r"
  shows "r = None \<or> (\<exists>out. r = Some out \<and> resolution_ok s kSimdChunkSize \<and> s dvd kSimdChunkSize \<and>
     ReduceBitmap heap c s kSimdChunkSize input n = Inr out)"
proof -
  let ?rs = "[512, 1024, 2048, 4096, 8192, 16384, 32768] :: nat list"
  have ok: "\<forall>q \<in> set ?rs. resolution_ok q kSimdChunkSize \<and> q dvd kSimdChunkSize"
    by (simp add: resolution_ok_def)
  show ?thesis
  proof (cases "filter (\<lambda>q. s = q) ?rs")
    case Nil
    then show ?thesis using assms unfolding DispatchReduceBitmap_def Nil by simp
  next
    case (Cons q qs)
    then have "q \<in> set (filter (\<lambda>q. s = q) ?rs)" by simp
    then have "q \<in> set ?rs" "s = q" unfolding set_filter by blast+
    moreover have "\<exists>out. r = Some out \<and> ReduceBitmap heap c q kSimdChunkSize input n = Inr out"
      using assms unfolding DispatchReduceBitmap_def Cons by (auto simp: err_simps)
    ultimately show ?thesis using ok by blast
  qed
qed

lemma simd_spec:
  assumes "ab_inv b" "len < two64" "cluster_count b * cluster_size b \<le> len"
    and "chunks = div_up len kSimdChunkSize" "bytes = div_up chunks 8"
    and "MakeKnownDataMapUsingSimd heap c b len chunks bytes = Inr (Some out)"
  shows "bytes \<le> length out" "k < chunks \<Longrightarrow> obit out k \<longleftrightarrow> \<not> chunk_free b len kSimdChunkSize k"
proof -
  let ?s = "cluster_size b" and ?m = "take (BitmapByteCount b) (BitmapData b)"
  let ?r = "kSimdChunkSize div ?s"
  let ?cc = "cluster_count b div ?r"
  obtain red where red: "DispatchReduceBitmap heap c kSimdChunkSize ?m ?s bytes = Inr (Some red)"
    using assms(6) unfolding MakeKnownDataMapUsingSimd_def by (auto simp: err_simps split: option.splits)
  from dispatch_cases [OF red] have res: "resolution_ok ?s kSimdChunkSize" "?s dvd kSimdChunkSize"
    "ReduceBitmap heap c ?s kSimdChunkSize ?m bytes = Inr red" by auto
  note spec = ReduceBitmap_spec [OF res(1,3)]
  have s: "0 < ?s" by (rule ab_invD(1) [OF assms(1)])
  have r: "?r * ?s = kSimdChunkSize" using res(2) by simp
  then have r0: "0 < ?r" by (metis gr0I mult_0 zero_neq_numeral)
  have "?r mod 128 = 0" using res(1) by (simp add: resolution_ok_def)
  then have "8 dvd ?r" using dvd_trans [of 8 128 ?r] by (simp add: mod_0_imp_dvd)
  then have r8: "8 * (?r div 8) = ?r" by (rule dvd_mult_div_cancel)
  have cb: "chunks \<le> 8 * bytes" using div_up_bound [of 8 chunks] assms(5) by simp
  have len: "bytes \<le> length red" unfolding spec(1) by simp
  have low: "obit red k \<longleftrightarrow> \<not> chunk_free b len kSimdChunkSize k" if "k < ?cc" "k < chunks" for k
  proof -
    have "(k + 1) * ?r \<le> ?cc * ?r" using that by (intro mult_le_mono1) simp
    also have "\<dots> \<le> cluster_count b" by (rule div_times_less_eq_dividend)
    finally have "(k + 1) * ?r \<le> cluster_count b" .
    from chunk_of_clusters [OF s r r0 this refl assms(3)] region_clusters [of "?r div 8" b k]
    have "region_nz (?r div 8) ?m k \<longleftrightarrow> \<not> chunk_free b len kSimdChunkSize k" unfolding r8 by blast
    moreover have "k < 8 * length red" using that(2) cb len by linarith
    ultimately show ?thesis using spec(2) by blast
  qed
  show "bytes \<le> length out" "k < chunks \<Longrightarrow> obit out k \<longleftrightarrow> \<not> chunk_free b len kSimdChunkSize k"
  proof -
    have "bytes \<le> length out \<and> (k < chunks \<longrightarrow> (obit out k \<longleftrightarrow> \<not> chunk_free b len kSimdChunkSize k))"
    proof (cases "chunks \<le> ?cc")
      case True
      then have "out = red" using assms(6) red unfolding MakeKnownDataMapUsingSimd_def by (simp add: Let_def)
      then show ?thesis using low True len by auto
    next
      case False
      let ?P = "\<not> HasAllocatedClusters b (mul64 ?cc kSimdChunkSize)
          (min kSimdChunkSize (len - mul64 ?cc kSimdChunkSize))"
      define o2 where "o2 = (if ?P then (red ! (?cc div 8) OR push_bit (?cc mod 8) 255) AND NOT (push_bit (?cc mod 8) 1)
          else red ! (?cc div 8) OR push_bit (?cc mod 8) 255)"
      have out: "out = overwrite (red[?cc div 8 := o2]) (?cc div 8 + 1) (replicate (bytes - ?cc div 8 - 1) 255)"
        using assms(6) red False unfolding MakeKnownDataMapUsingSimd_def o2_def by (simp add: Let_def)
      have cd: "?cc div 8 < bytes" using False cb by (simp add: div_less_iff_less_mult mult.commute)
      have "length out = length red" unfolding out using cd len by simp
      moreover have P: "?P \<longleftrightarrow> chunk_free b len kSimdChunkSize ?cc"
        using chunk_query [OF assms(1) _ _ assms(2), of kSimdChunkSize ?cc] False assms(4) by simp
      moreover have "\<not> chunk_free b len kSimdChunkSize k" if "?cc < k" "k < chunks"
        by (rule beyond_clusters [OF s r r0 that(1) refl]) (use that(2) assms(4) in simp)
      moreover have "obit out k \<longleftrightarrow> (if k < ?cc then obit red k else if k = ?cc then \<not> ?P else True)"
        if "k < chunks"
        unfolding out using that cb by (intro patched_bits [OF cd len _ o2_def]) linarith
      ultimately show ?thesis using len low by (metis linorder_neqE_nat)
    qed
    then show "bytes \<le> length out" "k < chunks \<Longrightarrow> obit out k \<longleftrightarrow> \<not> chunk_free b len kSimdChunkSize k"
      by simp_all
  qed
qed

lemma MakeKnownDataMap_spec:
  assumes "ab_inv b" "0 < cs" "len < two64" "cluster_count b * cluster_size b \<le> len"
    and "MakeKnownDataMap heap c b len cs = Inr out"
  shows "div_up (div_up len cs) 8 \<le> length out"
    "k < div_up len cs \<Longrightarrow> obit out k \<longleftrightarrow> \<not> chunk_free b len cs k"
proof -
  let ?n = "div_up len cs" and ?m = "div_up (div_up len cs) 8"
  consider "MakeKnownDataMap_generic heap b len cs ?n ?m = Inr out"
    | "cs = kSimdChunkSize" "MakeKnownDataMapUsingSimd heap c b len ?n ?m = Inr (Some out)"
    using assms(5) unfolding MakeKnownDataMap_def Let_def div_up_def [symmetric]
    by (auto simp: err_simps split: if_splits option.splits)
  then have "?m \<le> length out \<and> (k < ?n \<longrightarrow> (obit out k \<longleftrightarrow> \<not> chunk_free b len cs k))"
  proof cases
    case 1
    then show ?thesis using generic_spec [OF assms(1-3) refl refl] by simp
  next
    case 2
    then show ?thesis using simd_spec [OF assms(1,3,4) _ _ 2(2)] by simp
  qed
  then show "?m \<le> length out" "k < ?n \<Longrightarrow> obit out k \<longleftrightarrow> \<not> chunk_free b len cs k" by simp_all
qed

end
