(* ===== verification/CountDiffering.thy ===== *)
theory CountDiffering
  imports ReduceBitmaps
begin

text \<open>
  \<open>CountDifferingBytes\<close> of \<open>src/modules/byte_comparison.ixx\<close>, for the three x64
  vector widths and for NEON: the vector loop, the horizontal sum and the byte
  tail together count the positions at which two buffers differ.
\<close>

function groups :: "nat \<Rightarrow> 'a list \<Rightarrow> 'a list list" where
  "groups k v = (if k = 0 \<or> v = [] then [] else take k v # groups k (drop k v))"
  by pat_completeness auto

termination by (relation "measure (\<lambda>(_, v). length v)") auto

declare groups.simps [simp del]

text \<open>One byte per position, 1 where the vectors differ.\<close>

definition different_bytes :: "byte list \<Rightarrow> byte list \<Rightarrow> byte list" where
  "different_bytes l r = map2 (\<lambda>a b. if a \<noteq> b then 1 else 0) l r"

text \<open>
  The sum of absolute differences with zero: each 64-bit lane receives the sum of
  its eight bytes.
\<close>

definition sad_epu8 :: "byte list \<Rightarrow> 64 word list" where
  "sad_epu8 v = map (\<lambda>g. sum_list (map ucast g)) (groups 8 v)"

function count_loop ::
    "nat \<Rightarrow> byte list \<Rightarrow> byte list \<Rightarrow> nat \<Rightarrow> 64 word list \<Rightarrow> nat \<Rightarrow> 64 word list \<times> nat" where
  "count_loop width l r size1 totals offset =
     (if 0 < width \<and> width \<le> size1 - offset then
        let different = different_bytes (LoadVector width l offset) (LoadVector width r offset)
        in count_loop width l r size1 (map2 (+) totals (sad_epu8 different)) (offset + width)
      else (totals, offset))"
  by pat_completeness auto

termination by (relation "measure (\<lambda>(_, _, _, n, _, off). n - off)") auto

declare count_loop.simps [simp del]

text \<open>The horizontal sum of eight, four or two 64-bit lanes, halving the register each time.\<close>

definition horizontal_sum :: "64 word list \<Rightarrow> 64 word" where
  "horizontal_sum totals =
     (let reduced = if length totals = 8 then map2 (+) (take 4 totals) (drop 4 totals) else totals;
          pair = if 2 < length reduced then map2 (+) (take 2 reduced) (drop 2 reduced) else reduced
      in pair ! 0 + pair ! 1)"

definition count_vectors :: "nat \<Rightarrow> byte list \<Rightarrow> byte list \<Rightarrow> nat \<Rightarrow> 64 word \<times> nat" where
  "count_vectors width l r size1 =
     (case count_loop width l r size1 (replicate (width div 8) 0) 0 of
        (totals, offset) \<Rightarrow> (horizontal_sum totals, offset))"

text \<open>The NEON loop adds the horizontal byte sum of each comparison.\<close>

function count_neon :: "byte list \<Rightarrow> byte list \<Rightarrow> nat \<Rightarrow> 64 word \<Rightarrow> nat \<Rightarrow> 64 word \<times> nat" where
  "count_neon l r size1 count offset =
     (if 16 \<le> size1 - offset then
        let flags = map2 (\<lambda>a b. drop_bit 7 (NOT (if a = b then - 1 else (0 :: byte))))
                      (LoadVector 16 l offset) (LoadVector 16 r offset)
        in count_neon l r size1 (count + ucast (sum_list flags)) (offset + 16)
      else (count, offset))"
  by pat_completeness auto

termination by (relation "measure (\<lambda>(_, _, n, _, off). n - off)") auto

declare count_neon.simps [simp del]

function count_tail :: "byte list \<Rightarrow> byte list \<Rightarrow> nat \<Rightarrow> 64 word \<Rightarrow> nat \<Rightarrow> 64 word" where
  "count_tail l r size1 count offset =
     (if offset < size1
      then count_tail l r size1 (count + (if l ! offset \<noteq> r ! offset then 1 else 0)) (offset + 1)
      else count)"
  by pat_completeness auto

termination by (relation "measure (\<lambda>(_, _, n, _, off). n - off)") auto

declare count_tail.simps [simp del]

definition CountDifferingBytes :: "cpu \<Rightarrow> byte list \<Rightarrow> byte list \<Rightarrow> nat \<Rightarrow> 64 word" where
  "CountDifferingBytes c l r size1 =
     (case (case c of
              Arm64 \<Rightarrow> count_neon l r size1 0 0
            | Arm64Sve _ \<Rightarrow> count_neon l r size1 0 0
            | X64 v512 v256 \<Rightarrow>
                count_vectors (if v512 then 64 else if v256 then 32 else 16) l r size1) of
        (count, offset) \<Rightarrow> count_tail l r size1 count offset)"

section \<open>The count\<close>

definition differing :: "byte list \<Rightarrow> byte list \<Rightarrow> nat \<Rightarrow> nat \<Rightarrow> nat" where
  "differing l r a b = length (filter (\<lambda>i. l ! i \<noteq> r ! i) [a..<b])"

lemma differing_split: "a \<le> m \<Longrightarrow> m \<le> b \<Longrightarrow> differing l r a b = differing l r a m + differing l r m b"
proof -
  assume "a \<le> m" "m \<le> b"
  then have "[a..<b] = [a..<m] @ [m..<b]" using upt_add_eq_append [of a m "b - m"] by simp
  then show ?thesis by (simp add: differing_def)
qed

lemma differing_le: "differing l r a b \<le> b - a"
  unfolding differing_def by (metis length_filter_le length_upt)

lemma sum_groups: "0 < k \<Longrightarrow> sum_list (map (\<lambda>g. sum_list (map f g)) (groups k v)) = sum_list (map f v)"
proof (induction "length v" arbitrary: v rule: less_induct)
  case less
  show ?case
  proof (cases "v = []")
    case False
    have "sum_list (map f v) = sum_list (map f (take k v)) + sum_list (map f (drop k v))"
      by (metis append_take_drop_id map_append sum_list.append)
    then show ?thesis using less False by (subst groups.simps) simp
  qed (simp add: groups.simps)
qed

lemma length_groups: "0 < k \<Longrightarrow> length v = n * k \<Longrightarrow> length (groups k v) = n"
proof (induction n arbitrary: v)
  case (Suc n)
  then have "v \<noteq> []" "length (drop k v) = n * k" by auto
  then show ?case using Suc by (subst groups.simps) simp
qed (simp add: groups.simps)

lemma sum_different:
  fixes f :: "byte \<Rightarrow> 64 word"
  assumes "f 1 = 1" "f 0 = 0" "off + w \<le> length l" "off + w \<le> length r"
  shows "sum_list (map f (different_bytes (LoadVector w l off) (LoadVector w r off))) =
    of_nat (differing l r off (off + w))"
proof -
  have "different_bytes (LoadVector w l off) (LoadVector w r off) =
      map (\<lambda>i. if l ! i \<noteq> r ! i then 1 else 0) [off..<off + w]"
    using assms(3,4) by (intro nth_equalityI) (simp_all add: different_bytes_def LoadVector_def)
  moreover have "sum_list (map (\<lambda>i. f (if P i then 1 else 0)) xs) = of_nat (length (filter P xs))" for P xs
    using assms(1,2) by (induction xs) simp_all
  ultimately show ?thesis by (simp add: differing_def comp_def)
qed

lemma sum_map2_add:
  "length xs = length ys \<Longrightarrow> sum_list (map2 (+) xs ys) = sum_list xs + sum_list (ys :: 64 word list)"
  by (induction xs ys rule: list_induct2) simp_all

lemma count_loop_spec:
  assumes "width = 8 * n" "0 < n" "size1 \<le> length l" "size1 \<le> length r"
    and "length totals = n" "offset \<le> size1" "count_loop width l r size1 totals offset = (t', o')"
  shows "length t' = n \<and> offset \<le> o' \<and> o' \<le> size1 \<and>
    sum_list t' = sum_list totals + of_nat (differing l r offset o')"
  using assms(5-7)
proof (induction "size1 - offset" arbitrary: totals offset rule: less_induct)
  case less
  show ?case
  proof (cases "0 < width \<and> width \<le> size1 - offset")
    case False
    then have "t' = totals \<and> o' = offset" using less.prems(3) by (subst (asm) count_loop.simps) auto
    then show ?thesis using less.prems by (simp add: differing_def)
  next
    case True
    let ?d = "different_bytes (LoadVector width l offset) (LoadVector width r offset)"
    have fit: "offset + width \<le> length l" "offset + width \<le> length r" using True assms(3,4) by linarith+
    have step: "count_loop width l r size1 (map2 (+) totals (sad_epu8 ?d)) (offset + width) = (t', o')"
      using less.prems(3) True by (subst (asm) count_loop.simps) (simp add: Let_def)
    have "length ?d = n * 8" using fit assms(1) by (simp add: different_bytes_def)
    then have len: "length (sad_epu8 ?d) = n" by (simp add: sad_epu8_def length_groups)
    have sad: "sum_list (sad_epu8 ?d) = of_nat (differing l r offset (offset + width))"
      unfolding sad_epu8_def using sum_different [of ucast offset width l r] fit by (simp add: sum_groups)
    have IH: "length t' = n \<and> offset + width \<le> o' \<and> o' \<le> size1 \<and>
        sum_list t' = sum_list (map2 (+) totals (sad_epu8 ?d)) + of_nat (differing l r (offset + width) o')"
      using True less.prems len by (intro less.hyps [OF _ _ _ step]) auto
    then have "differing l r offset o' = differing l r offset (offset + width) + differing l r (offset + width) o'"
      by (intro differing_split) auto
    then show ?thesis using IH len less.prems(1) by (simp add: sum_map2_add sad)
  qed
qed

lemma horizontal_sum_spec:
  assumes "length t = 2 \<or> length t = 4 \<or> length t = 8"
  shows "horizontal_sum t = sum_list t"
  using assms
proof (elim disjE)
  assume "length t = 2"
  then obtain a b where "t = [a, b]" by (auto simp: numeral_eq_Suc length_Suc_conv)
  then show ?thesis by (simp add: horizontal_sum_def)
next
  assume "length t = 4"
  from list4 [OF this] obtain a b c d where "t = [a, b, c, d]" .
  then show ?thesis by (simp add: horizontal_sum_def)
next
  assume "length t = 8"
  from list8 [OF this] obtain a b c d e f g h where "t = [a, b, c, d, e, f, g, h]" .
  then show ?thesis by (simp add: horizontal_sum_def)
qed

lemma count_neon_spec:
  assumes "size1 \<le> length l" "size1 \<le> length r" "offset \<le> size1"
    and "count_neon l r size1 count offset = (c', o')"
  shows "offset \<le> o' \<and> o' \<le> size1 \<and> c' = count + of_nat (differing l r offset o')"
  using assms(3,4)
proof (induction "size1 - offset" arbitrary: count offset rule: less_induct)
  case less
  show ?case
  proof (cases "16 \<le> size1 - offset")
    case False
    then have "c' = count \<and> o' = offset" using less.prems(2) by (subst (asm) count_neon.simps) auto
    then show ?thesis using less.prems by (simp add: differing_def)
  next
    case True
    let ?d = "different_bytes (LoadVector 16 l offset) (LoadVector 16 r offset)"
    have fit: "offset + 16 \<le> length l" "offset + 16 \<le> length r" using True assms(1,2) by linarith+
    have flag: "drop_bit 7 (NOT (if a = b then - 1 else (0 :: byte))) = (if a \<noteq> b then 1 else 0)" for a b :: byte
      by simp
    have step: "count_neon l r size1 (count + ucast (sum_list ?d)) (offset + 16) = (c', o')"
      using less.prems(2) True unfolding different_bytes_def
      by (subst (asm) count_neon.simps) (simp only: Let_def flag if_True)
    have "?d = map (\<lambda>i. if l ! i \<noteq> r ! i then 1 else 0) [offset..<offset + 16]"
      using fit by (intro nth_equalityI) (simp_all add: different_bytes_def LoadVector_def)
    moreover have "sum_list (map (\<lambda>i. if P i then 1 else 0 :: byte) xs) = of_nat (length (filter P xs))" for P and xs :: "nat list"
      by (induction xs) simp_all
    ultimately have "sum_list ?d = of_nat (differing l r offset (offset + 16))" by (simp add: differing_def)
    moreover have "differing l r offset (offset + 16) \<le> 16" using differing_le [of l r offset "offset + 16"] by simp
    ultimately have sum: "(ucast (sum_list ?d) :: 64 word) = of_nat (differing l r offset (offset + 16))"
      by (simp add: unsigned_of_nat take_bit_nat_eq_self)
    have IH: "offset + 16 \<le> o' \<and> o' \<le> size1 \<and>
        c' = count + ucast (sum_list ?d) + of_nat (differing l r (offset + 16) o')"
      using True less.prems by (intro less.hyps [OF _ _ step]) auto
    then have "differing l r offset o' = differing l r offset (offset + 16) + differing l r (offset + 16) o'"
      by (intro differing_split) auto
    then show ?thesis using IH by (simp add: sum)
  qed
qed

lemma count_tail_spec:
  assumes "offset \<le> size1"
  shows "count_tail l r size1 count offset = count + of_nat (differing l r offset size1)"
  using assms
proof (induction "size1 - offset" arbitrary: count offset rule: less_induct)
  case less
  show ?case
  proof (cases "offset < size1")
    case True
    have "differing l r offset size1 = (if l ! offset \<noteq> r ! offset then 1 else 0) + differing l r (offset + 1) size1"
      using True by (simp add: differing_def upt_rec [of offset])
    then show ?thesis using less True by (subst count_tail.simps) simp
  next
    case False
    then show ?thesis using less.prems by (subst count_tail.simps) (simp add: differing_def)
  qed
qed

lemma CountDifferingBytes_spec:
  assumes "size1 \<le> length l" "size1 \<le> length r" "size1 < two64"
  shows "unat (CountDifferingBytes c l r size1) = differing l r 0 size1"
proof -
  have neon: "(case count_neon l r size1 0 0 of (count, offset) \<Rightarrow> count_tail l r size1 count offset) =
      of_nat (differing l r 0 size1)"
  proof -
    obtain c' off where n: "count_neon l r size1 0 0 = (c', off)" by fastforce
    then show ?thesis
      using count_neon_spec [OF assms(1,2) _ n] differing_split [of 0 off size1 l r] by (simp add: count_tail_spec)
  qed
  have "CountDifferingBytes c l r size1 = of_nat (differing l r 0 size1)"
  proof (cases c)
    case (X64 v512 v256)
    define w where "w = (if v512 then 64 else if v256 then 32 else 16 :: nat)"
    obtain t off where t: "count_loop w l r size1 (replicate (w div 8) 0) 0 = (t, off)" by fastforce
    have "w = 8 * (w div 8)" "0 < w div 8" "w div 8 = 2 \<or> w div 8 = 4 \<or> w div 8 = 8"
      by (auto simp: w_def)
    moreover from this(1,2) have "length t = w div 8 \<and> off \<le> size1 \<and> sum_list t = of_nat (differing l r 0 off)"
      using count_loop_spec [OF _ _ assms(1,2) _ _ t] by (simp add: sum_list_replicate)
    ultimately show ?thesis
      using X64 t differing_split [of 0 off size1 l r]
      by (simp add: CountDifferingBytes_def count_vectors_def w_def [symmetric] horizontal_sum_spec count_tail_spec)
  next
    case Arm64
    then show ?thesis by (simp add: CountDifferingBytes_def neon)
  next
    case (Arm64Sve v)
    then show ?thesis by (simp add: CountDifferingBytes_def neon)
  qed
  moreover have "differing l r 0 size1 < two64" using differing_le [of l r 0 size1] assms(3) by simp
  ultimately show ?thesis by (simp add: unsigned_of_nat take_bit_nat_eq_self)
qed

end
