(* ===== verification/SyntheticDevice.thy ===== *)
theory SyntheticDevice
  imports BlockDevice
begin

text \<open>
  \<open>src/modules/synthetic_backup_block_device.ixx\<close>: a reader that takes each block
  from the payload device when its bit is set and from the baseline device
  otherwise.  The results show that it exposes exactly this mixture, that its
  reads return, and that when the bitmap covers every block in which the two
  devices differ the mixture is the payload image.
\<close>

record SyntheticBackupBlockDevice =
  sy_length :: nat
  sy_baseline :: device
  sy_payload :: device
  sy_bitmap :: "64 word list"

definition SyntheticBackupBlockDevice_FromBlockDevices ::
    "device \<Rightarrow> device \<Rightarrow> 64 word list \<Rightarrow> SyntheticBackupBlockDevice result" where
  "SyntheticBackupBlockDevice_FromBlockDevices baseline payload payload_bitmap =
     (if dev_length baseline \<noteq> dev_length payload
      then Inl (RuntimeError ''the synthetic backup baseline and the payload differ in length'')
      else Inr \<lparr>sy_length = dev_length payload, sy_baseline = baseline, sy_payload = payload,
                sy_bitmap = payload_bitmap\<rparr>)"

function find_block_loop ::
    "bool \<Rightarrow> 64 word list \<Rightarrow> nat \<Rightarrow> nat \<Rightarrow> nat \<Rightarrow> nat \<Rightarrow> 64 word \<Rightarrow> nat" where
  "find_block_loop payload payload_bitmap first limit last_word word1 mask1 =
     (if word1 \<le> last_word then
        let word_begin = mul64 word1 64
        in if length payload_bitmap \<le> word1
           then (if payload then limit else max first word_begin)
           else let matching = (payload_bitmap ! word1 XOR (if payload then 0 else - 1)) AND mask1
                in if matching \<noteq> 0
                   then min limit (add64 word_begin (CountTrailingZeros matching))
                   else find_block_loop payload payload_bitmap first limit last_word (word1 + 1) (- 1)
      else limit)"
  by pat_completeness auto

termination by (relation "measure (\<lambda>(_, _, _, _, lw, w, _). Suc lw - w)") auto

declare find_block_loop.simps [simp del]

definition FindNextBlock :: "bool \<Rightarrow> 64 word list \<Rightarrow> nat \<Rightarrow> nat \<Rightarrow> nat" where
  "FindNextBlock payload payload_bitmap first limit =
     (if first = limit then limit
      else find_block_loop payload payload_bitmap first limit ((limit - 1) div 64) (first div 64)
             (push_bit (first mod 64) (- 1)))"

text \<open>
  The loop of \<open>Read\<close>; \<open>acc\<close> holds the bytes written so far, so its length is
  \<open>transferred\<close>.
\<close>

partial_function (option) synthetic_loop ::
    "nat \<Rightarrow> SyntheticBackupBlockDevice \<Rightarrow> nat \<Rightarrow> nat \<Rightarrow> nat \<Rightarrow> nat \<Rightarrow> nat \<Rightarrow> bool \<Rightarrow> byte list \<Rightarrow>
     (ntstatus \<times> byte list) option" where
  "synthetic_loop block_size d request_end block_limit wanted position block use_payload acc =
     (if length acc \<noteq> wanted then
        let next_block = FindNextBlock (\<not> use_payload) (sy_bitmap d) (add64 block 1) block_limit;
            segment_end = (if next_block = block_limit then request_end else mul64 next_block block_size);
            segment_wanted = sub64 segment_end position mod 4294967296;
            source = (if use_payload then sy_payload d else sy_baseline d)
        in Option.bind (dev_read source position segment_wanted) (\<lambda>(status, bs).
             if \<not> NT_SUCCESS status \<or> length bs \<noteq> segment_wanted then Some (status, acc @ bs)
             else synthetic_loop block_size d request_end block_limit wanted segment_end next_block
                    (\<not> use_payload) (acc @ bs))
      else Some (STATUS_SUCCESS, acc))"

definition SyntheticBackupBlockDevice_Read ::
    "nat \<Rightarrow> SyntheticBackupBlockDevice \<Rightarrow> nat \<Rightarrow> nat \<Rightarrow> (ntstatus \<times> byte list) option" where
  "SyntheticBackupBlockDevice_Read block_size d offset wanted =
     (let request_end = add64 offset wanted;
          block_limit = add64 ((request_end - 1) div block_size) 1;
          block = offset div block_size;
          word1 = block div 64;
          use_payload = word1 < length (sy_bitmap d) \<and>
            sy_bitmap d ! word1 AND push_bit (block mod 64) 1 \<noteq> 0
      in synthetic_loop block_size d request_end block_limit wanted offset block use_payload [])"

section \<open>Finding the next block\<close>

text \<open>The bit of a block; blocks beyond the bitmap belong to the baseline.\<close>

definition block_bit :: "64 word list \<Rightarrow> nat \<Rightarrow> bool" where
  "block_bit m k \<longleftrightarrow> k div 64 < length m \<and> bit (m ! (k div 64)) (k mod 64)"

lemma block_matching:
  assumes "w < length m" "lo < 64"
  shows "word_matches (\<lambda>k. block_bit m k = p) (w * 64) (w * 64 + lo) (w * 64 + 64)
    ((m ! w XOR (if p then 0 else - 1)) AND push_bit lo (- 1))"
proof -
  have "i < 64 \<Longrightarrow> (w * 64 + i) div 64 = w \<and> (w * 64 + i) mod 64 = i" for i by simp
  then show ?thesis
    using assms unfolding word_matches_def bit_and_iff bit_high_mask bit_xor_iff
    by (auto simp: block_bit_def)
qed

lemma word_matches_clip:
  assumes "word_matches P w lo hi m" "m \<noteq> 0" "lo \<le> b" "hi \<le> two64 - 1"
  shows "is_first P lo b (min b (add64 w (CountTrailingZeros m)))"
proof -
  have "is_first P lo (two64 - 1) (add64 w (CountTrailingZeros m))"
    using word_matches_some(1) [OF assms(1,2,4)] by simp
  moreover have "add64 w (CountTrailingZeros m) < hi"
  proof -
    have "bit m (CountTrailingZeros m)" by (rule CountTrailingZeros_least(2) [OF assms(2)])
    then have "w + CountTrailingZeros m < hi" using assms(1) unfolding word_matches_def by blast
    then show ?thesis using assms(4) by (simp add: add64_exact)
  qed
  ultimately show ?thesis using assms(3,4) unfolding is_first_def by (auto simp: min_def)
qed

lemma find_block_loop_spec:
  fixes m payload
  defines "P \<equiv> \<lambda>k. block_bit m k = payload"
  assumes "first < limit" "limit + 64 < two64"
    and "lo < 64" "word1 * 64 + lo = max first (word1 * 64)"
    and "\<And>c. first \<le> c \<Longrightarrow> c < word1 * 64 + lo \<Longrightarrow> \<not> P c"
  shows "is_first P first limit
    (find_block_loop payload m first limit ((limit - 1) div 64) word1 (push_bit lo (- 1)))"
  using assms(4-6)
proof (induction "Suc ((limit - 1) div 64) - word1" arbitrary: word1 lo rule: less_induct)
  case less
  let ?w = "word1 * 64" and ?r = "find_block_loop payload m first limit ((limit - 1) div 64) word1 (push_bit lo (- 1))"
  show ?case
  proof (cases "word1 \<le> (limit - 1) div 64")
    case False
    then have "limit \<le> ?w" by (simp add: div_less_iff_less_mult not_le)
    then have "\<not> P c" if "first \<le> c" "c < limit" for c using less.prems(3) [OF that(1)] that(2) by simp
    moreover have "?r = limit" using False by (subst find_block_loop.simps) simp
    ultimately show ?thesis using assms(2) by (simp add: is_first_def)
  next
    case True
    then have wl: "?w \<le> limit - 1" by (simp add: less_eq_div_iff_mult_less_eq)
    then have mul: "mul64 word1 64 = ?w" using assms(2,3) by (intro mul64_exact) linarith
    show ?thesis
    proof (cases "length m \<le> word1")
      case True
      have out: "\<not> block_bit m c" if "?w \<le> c" for c
      proof -
        have "word1 \<le> c div 64" using that by (simp add: less_eq_div_iff_mult_less_eq)
        then show ?thesis using True by (simp add: block_bit_def)
      qed
      have r: "?r = (if payload then limit else max first ?w)"
        using True wl \<open>word1 \<le> (limit - 1) div 64\<close> mul by (subst find_block_loop.simps) simp
      show ?thesis
      proof (cases payload)
        case True
        have "\<not> P c" if "first \<le> c" for c
          using out [of c] less.prems(3) [OF that] True less.prems(2) that unfolding P_def
          by (cases "?w \<le> c") auto
        then show ?thesis using r True assms(2) by (simp add: is_first_def)
      next
        case False
        have "P (max first ?w)" using out False unfolding P_def by simp
        moreover have "\<not> P c" if "first \<le> c" "c < max first ?w" for c
          using less.prems(3) [of c] that less.prems(2) by simp
        ultimately show ?thesis using r False wl assms(2) by (auto simp: is_first_def)
      qed
    next
      case False
      let ?m = "(m ! word1 XOR (if payload then 0 else - 1)) AND push_bit lo (- 1)"
      have wm: "word_matches P ?w (?w + lo) (?w + 64) ?m"
        unfolding P_def using False less.prems(1) by (intro block_matching) simp_all
      have start: "first \<le> ?w + lo" "?w + lo \<le> limit" using less.prems(2) wl assms(2) by simp_all
      show ?thesis
      proof (cases "?m = 0")
        case True
        have none: "\<not> P c" if "first \<le> c" "c < Suc word1 * 64 + 0" for c
          using less.prems(3) [OF that(1)] word_matches_none [OF wm [unfolded True], of c] that
          by (cases "c < ?w + lo") simp_all
        have "is_first P first limit
            (find_block_loop payload m first limit ((limit - 1) div 64) (Suc word1) (push_bit 0 (- 1)))"
        proof (rule less.hyps)
          show "Suc ((limit - 1) div 64) - Suc word1 < Suc ((limit - 1) div 64) - word1"
            using \<open>word1 \<le> (limit - 1) div 64\<close> by simp
          show "Suc word1 * 64 + 0 = max first (Suc word1 * 64)" using less.prems(1,2) by simp
        qed (use none in simp_all)
        then show ?thesis
          using True False \<open>word1 \<le> (limit - 1) div 64\<close> by (subst find_block_loop.simps) (simp add: Let_def)
      next
        case nonzero: False
        have "is_first P (?w + lo) limit (min limit (add64 ?w (CountTrailingZeros ?m)))"
          using word_matches_clip [OF wm nonzero start(2)] wl assms(3) by simp
        then have "is_first P first limit (min limit (add64 ?w (CountTrailingZeros ?m)))"
          using is_first_shift [of first "?w + lo" P limit, OF less.prems(3) _ start(1)] by blast
        moreover have "?r = min limit (add64 ?w (CountTrailingZeros ?m))"
          using nonzero False \<open>word1 \<le> (limit - 1) div 64\<close> mul
          by (subst find_block_loop.simps) (simp add: Let_def)
        ultimately show ?thesis by simp
      qed
    qed
  qed
qed

lemma FindNextBlock_spec:
  assumes "first \<le> limit" "limit + 64 < two64"
  shows "is_first (\<lambda>k. block_bit m k = payload) first limit (FindNextBlock payload m first limit)"
proof (cases "first = limit")
  case False
  have "max first (first div 64 * 64) = first" by (intro max_absorb1) simp
  then have start: "first div 64 * 64 + first mod 64 = max first (first div 64 * 64)" by simp
  have "is_first (\<lambda>k. block_bit m k = payload) first limit
      (find_block_loop payload m first limit ((limit - 1) div 64) (first div 64) (push_bit (first mod 64) (- 1)))"
    using False assms by (intro find_block_loop_spec [OF _ _ _ start]) simp_all
  then show ?thesis using False by (simp only: FindNextBlock_def if_False)
qed (use assms in \<open>auto simp: FindNextBlock_def is_first_def\<close>)

section \<open>The mixture\<close>

definition mixed :: "nat \<Rightarrow> 64 word list \<Rightarrow> (nat \<Rightarrow> byte) \<Rightarrow> (nat \<Rightarrow> byte) \<Rightarrow> nat \<Rightarrow> byte" where
  "mixed B m cb cp x = (if block_bit m (x div B) then cp x else cb x)"

definition sy_inv :: "nat \<Rightarrow> (nat \<Rightarrow> byte) \<Rightarrow> (nat \<Rightarrow> byte) \<Rightarrow> SyntheticBackupBlockDevice \<Rightarrow> bool" where
  "sy_inv B cb cp d \<longleftrightarrow> 0 < B \<and> exposes (sy_baseline d) cb \<and> exposes (sy_payload d) cp \<and>
     dev_length (sy_baseline d) = sy_length d \<and> dev_length (sy_payload d) = sy_length d \<and>
     sy_length d < 9223372036854775808"

lemma FromBlockDevices_inv:
  assumes "SyntheticBackupBlockDevice_FromBlockDevices b p m = Inr d"
    and "0 < B" "exposes b cb" "exposes p cp" "dev_length p < 9223372036854775808"
  shows "sy_inv B cb cp d" "sy_bitmap d = m" "sy_length d = dev_length p"
  using assms by (auto simp: SyntheticBackupBlockDevice_FromBlockDevices_def sy_inv_def split: if_splits)

text \<open>
  One segment: from a position in the current block to the next transition.  All
  its bytes come from the source of the current block.
\<close>

lemma segment:
  fixes B pos re m
  defines "lim \<equiv> (re - 1) div B + 1" and "p \<equiv> block_bit m (pos div B)"
  assumes "0 < B" "pos < re" "re < 9223372036854775808"
  defines "nx \<equiv> FindNextBlock (\<not> p) m (pos div B + 1) lim"
  defines "se \<equiv> if nx = lim then re else nx * B"
  shows "pos < se" "se \<le> re" "\<And>x. pos \<le> x \<Longrightarrow> x < se \<Longrightarrow> mixed B m cb cp x = (if p then cp x else cb x)"
    "se < re \<Longrightarrow> se div B = nx \<and> block_bit m nx = (\<not> p)" "nx * B < two64 \<or> nx = lim"
proof -
  have "(re - 1) div B \<le> re - 1" by (rule div_le_dividend)
  then have lim: "lim + 64 < two64" using assms(5) unfolding lim_def by linarith
  have "pos div B \<le> (re - 1) div B" using assms(4) by (intro div_le_mono) simp
  then have bl: "pos div B + 1 \<le> lim" by (simp add: lim_def)
  have nx: "is_first (\<lambda>k. block_bit m k = (\<not> p)) (pos div B + 1) lim nx"
    unfolding nx_def by (rule FindNextBlock_spec [OF bl lim])
  note nxD = is_firstD [OF nx]
  have pos: "pos < nx * B"
    using nxD(1) assms(3) by (subst div_less_iff_less_mult [symmetric]) simp_all
  have small: "nx * B < re" if "nx \<noteq> lim"
  proof -
    have "nx \<le> (re - 1) div B" using nxD(2) that by (simp add: lim_def)
    then show ?thesis using assms(3,4) by (simp add: less_eq_div_iff_mult_less_eq)
  qed
  show "pos < se" "se \<le> re" using pos small assms(4) by (auto simp: se_def)
  show "nx * B < two64 \<or> nx = lim" using small assms(5) by linarith
  show "se div B = nx \<and> block_bit m nx = (\<not> p)" if "se < re"
    using that nxD(2,4) assms(3) by (auto simp: se_def split: if_splits)
  fix x assume x: "pos \<le> x" "x < se"
  have lo: "pos div B \<le> x div B" using x(1) by (rule div_le_mono)
  have "x div B < nx"
  proof (cases "nx = lim")
    case True
    then have "x div B \<le> (re - 1) div B" using x(2) by (intro div_le_mono) (simp add: se_def)
    then show ?thesis using True by (simp add: lim_def)
  next
    case False
    then show ?thesis using x(2) assms(3) by (simp add: se_def div_less_iff_less_mult)
  qed
  then have "block_bit m (x div B) = p"
    using nxD(3) [of "x div B"] lo by (cases "x div B = pos div B") (auto simp: p_def)
  then show "mixed B m cb cp x = (if p then cp x else cb x)" by (simp add: mixed_def)
qed

lemma synthetic_loop_spec:
  fixes B d cb cp
  defines "m \<equiv> sy_bitmap d"
  defines "c \<equiv> mixed B m cb cp"
  assumes inv: "sy_inv B cb cp d" and w: "wanted < 4294967296" "re = off + wanted" "re \<le> sy_length d"
    and "acc = image_bytes c off (pos - off)" "off \<le> pos" "pos \<le> re"
    and "pos < re \<Longrightarrow> bl = pos div B \<and> up = block_bit m bl"
  shows "\<exists>st bs. synthetic_loop B d re ((re - 1) div B + 1) wanted pos bl up acc = Some (st, bs) \<and>
    (NT_SUCCESS st \<longrightarrow> bs = image_bytes c off (length bs) \<and> length bs \<le> wanted \<and>
       (if pos < re then length acc < length bs else bs = acc))"
  using assms(7-10)
proof (induction "re - pos" arbitrary: pos bl up acc rule: less_induct)
  case less
  let ?lim = "(re - 1) div B + 1"
  have len: "length acc = pos - off" using less.prems(1) by simp
  show ?case
  proof (cases "pos < re")
    case False
    then have "length acc = wanted" using len less.prems(3) w(2) by simp
    then show ?thesis using False less.prems(1) len w(2) by (subst synthetic_loop.simps) simp
  next
    case True
    have B: "0 < B" and small: "re < 9223372036854775808" using inv w(3) by (simp_all add: sy_inv_def)
    have bl: "bl = pos div B" and up: "up = block_bit m (pos div B)" using less.prems(4) True by simp_all
    define nx where "nx = FindNextBlock (\<not> up) m (bl + 1) ?lim"
    define se where "se = (if nx = ?lim then re else nx * B)"
    note seg = segment [OF B True small, where m = m, folded up, folded bl, folded nx_def, folded se_def]
    have "bl \<le> pos" unfolding bl by (rule div_le_dividend)
    then have add: "add64 bl 1 = bl + 1" using True small by (intro add64_exact) simp
    have se: "(if nx = ?lim then re else mul64 nx B) = se"
      using seg(5) by (auto simp: se_def mul64_exact)
    have n: "sub64 se pos mod 4294967296 = se - pos"
      using seg(1,2) small w(1,2) less.prems(2) by (simp add: sub64_exact)
    let ?src = "if up then sy_payload d else sy_baseline d" and ?cs = "if up then cp else cb"
    have ex: "exposes ?src ?cs" "dev_length ?src = sy_length d" using inv by (simp_all add: sy_inv_def)
    have rq: "0 < se - pos" "se - pos < 4294967296" "pos + (se - pos) \<le> dev_length ?src"
      using seg(1,2) w less.prems(2) ex(2) by simp_all
    obtain st bs where r: "dev_read ?src pos (se - pos) = Some (st, bs)"
      by (rule exposes_returns [OF ex(1) rq])
    have step: "synthetic_loop B d re ?lim wanted pos bl up acc =
        (if \<not> NT_SUCCESS st \<or> length bs \<noteq> se - pos then Some (st, acc @ bs)
         else synthetic_loop B d re ?lim wanted se nx (\<not> up) (acc @ bs))"
    proof -
      have "length acc \<noteq> wanted" using True len w(2) less.prems(2) by linarith
      then show ?thesis
        by (subst synthetic_loop.simps)
          (simp only: Let_def add m_def [symmetric] nx_def [symmetric] se n r bind.bind_lunit prod.case
            simp_thms if_True)
    qed
    have img: "0 < length bs \<and> length bs \<le> se - pos \<and> acc @ bs = image_bytes c off (pos - off + length bs)"
      if "NT_SUCCESS st"
    proof -
      note s = exposes_success [OF ex(1) rq r that]
      have "image_bytes ?cs pos (length bs) = image_bytes c pos (length bs)"
        using seg(3) s(2) unfolding c_def by (intro image_bytes_cong) simp
      then have "acc @ bs = image_bytes c off (pos - off) @ image_bytes c (off + (pos - off)) (length bs)"
        using s(3) less.prems(1,2) by simp
      then show ?thesis using s(1,2) by (simp add: image_bytes_append)
    qed
    show ?thesis
    proof (cases "\<not> NT_SUCCESS st \<or> length bs \<noteq> se - pos")
      case True
      have "length (acc @ bs) = pos - off + length bs" using len by simp
      moreover have "bs \<noteq> [] \<Longrightarrow> pos - off < pos + length bs - off" using less.prems(2) by (cases bs) auto
      ultimately show ?thesis using True step img \<open>pos < re\<close> seg(2) w(2) less.prems(2) len by auto
    next
      case False
      then have acc: "acc @ bs = image_bytes c off (se - off)" using img seg(1) less.prems(2) by simp
      have a: "re - se < re - pos" and b: "off \<le> se" using seg(1,2) less.prems(2) \<open>pos < re\<close> by linarith+
      have cnd: "se < re \<Longrightarrow> nx = se div B \<and> (\<not> up) = block_bit m nx" using seg(4) by blast
      from less.hyps [OF a acc b seg(2) cnd] obtain st' bs'
        where rec: "synthetic_loop B d re ?lim wanted se nx (\<not> up) (acc @ bs) = Some (st', bs')"
        and ok: "NT_SUCCESS st' \<longrightarrow> bs' = image_bytes c off (length bs') \<and> length bs' \<le> wanted \<and>
          (if se < re then length (acc @ bs) < length bs' else bs' = acc @ bs)"
        by blast
      have "length acc < length (acc @ bs)" using False seg(1) by simp
      with ok have "NT_SUCCESS st' \<longrightarrow> bs' = image_bytes c off (length bs') \<and> length bs' \<le> wanted \<and>
          length acc < length bs'" by (auto split: if_splits)
      then show ?thesis using step False \<open>pos < re\<close> rec by simp
    qed
  qed
qed

lemma SyntheticBackupBlockDevice_Read_spec:
  assumes "sy_inv B cb cp d" "0 < w" "w < 4294967296" "off + w \<le> sy_length d"
  shows "\<exists>st bs. SyntheticBackupBlockDevice_Read B d off w = Some (st, bs) \<and>
    (NT_SUCCESS st \<longrightarrow> 0 < length bs \<and> length bs \<le> w \<and>
       bs = image_bytes (mixed B (sy_bitmap d) cb cp) off (length bs))"
proof -
  let ?re = "off + w" and ?m = "sy_bitmap d" and ?k = "off div B"
  have small: "?re < 9223372036854775808" using assms(1,4) by (simp add: sy_inv_def)
  have re: "add64 off w = ?re" using small by (simp add: add64_exact)
  have "(?re - 1) div B \<le> ?re - 1" by (rule div_le_dividend)
  then have lim: "add64 ((?re - 1) div B) 1 = (?re - 1) div B + 1" using small by (intro add64_exact) linarith
  have "?m ! (?k div 64) AND push_bit (?k mod 64) 1 \<noteq> 0 \<longleftrightarrow> bit (?m ! (?k div 64)) (?k mod 64)"
    unfolding word_eq_0_iff_bits by (auto simp: bit_and_iff bit_exp_iff)
  then have up: "(?k div 64 < length ?m \<and> ?m ! (?k div 64) AND push_bit (?k mod 64) 1 \<noteq> 0) = block_bit ?m ?k"
    by (simp add: block_bit_def)
  have "SyntheticBackupBlockDevice_Read B d off w =
      synthetic_loop B d ?re ((?re - 1) div B + 1) w off ?k (block_bit ?m ?k) []"
    unfolding SyntheticBackupBlockDevice_Read_def Let_def re lim up ..
  then show ?thesis
    using synthetic_loop_spec [OF assms(1,3) refl assms(4), of "[]" off ?k "block_bit ?m ?k"] assms(2)
    by (auto simp: image_bytes_def)
qed

interpretation synthetic: block_device "sy_inv B cb cp" sy_length "\<lambda>d. mixed B (sy_bitmap d) cb cp"
  "SyntheticBackupBlockDevice_Read B" for B cb cp
proof (unfold_locales, goal_cases)
  case 1
  then show ?case using SyntheticBackupBlockDevice_Read_spec by blast
next
  case (2 d w off st bs)
  then show ?case using SyntheticBackupBlockDevice_Read_spec [OF 2(1-4)] by auto
qed

text \<open>A bitmap that covers every block in which the two images differ makes the mixture the payload.\<close>

definition covers :: "nat \<Rightarrow> 64 word list \<Rightarrow> nat \<Rightarrow> (nat \<Rightarrow> byte) \<Rightarrow> (nat \<Rightarrow> byte) \<Rightarrow> bool" where
  "covers B m len cb cp \<longleftrightarrow> (\<forall>x < len. cb x \<noteq> cp x \<longrightarrow> block_bit m (x div B))"

lemma covered_is_payload:
  assumes "sy_inv B cb cp d" "covers B (sy_bitmap d) (sy_length d) cb cp"
  shows "exposes (synthetic.as_device B d) cp"
proof (rule exposes_cong [OF synthetic.exposes_content [OF assms(1)]])
  fix x assume "x < dev_length (synthetic.as_device B d)"
  then show "mixed B (sy_bitmap d) cb cp x = cp x" using assms(2) by (auto simp: covers_def mixed_def)
qed

end
