(* ===== verification/SafeCast.thy ===== *)
theory SafeCast
  imports Prelude
begin

text \<open>
  \<open>src/terminal/safecast.ixx\<close>: the checked integer conversions.  An
  integer type is its range; the value of a C++ integer is a mathematical
  integer.  \<open>TryCast\<close> answers \<open>None\<close> for \<open>false\<close>.
\<close>

record int_type =
  lowest :: int
  maximum :: int

definition u32 :: int_type where "u32 = \<lparr>lowest = 0, maximum = 4294967295\<rparr>"
definition u64 :: int_type where "u64 = \<lparr>lowest = 0, maximum = 18446744073709551615\<rparr>"
definition i64 :: int_type where
  "i64 = \<lparr>lowest = - 9223372036854775808, maximum = 9223372036854775807\<rparr>"

definition TryCast :: "int_type \<Rightarrow> int \<Rightarrow> int option" where
  "TryCast target input =
     (if input < lowest target \<or> maximum target < input then None else Some input)"

definition FailFastCast :: "int_type \<Rightarrow> int \<Rightarrow> int result" where
  "FailFastCast target input =
     (case TryCast target input of None \<Rightarrow> Inl FastFail | Some v \<Rightarrow> Inr v)"

definition in_type :: "int_type \<Rightarrow> int \<Rightarrow> bool" where
  "in_type t v \<longleftrightarrow> lowest t \<le> v \<and> v \<le> maximum t"

text \<open>
  The requirement of \<open>TryCast\<close> on the two types, for the digits of the source and
  of the target: a cast that needs no check does not compile.  \<open>FailFastMaybeCast\<close>
  checks exactly when the check compiles.
\<close>

definition cast_needs_check :: "int_type \<Rightarrow> int_type \<Rightarrow> bool" where
  "cast_needs_check target source \<longleftrightarrow> maximum target < maximum source \<or>
     (lowest source < 0 \<and> lowest target = 0)"

definition FailFastMaybeCast :: "int_type \<Rightarrow> int_type \<Rightarrow> int \<Rightarrow> int result" where
  "FailFastMaybeCast target source input =
     (if cast_needs_check target source then FailFastCast target input else Inr input)"

lemma FailFastCast_eq [err_simps]:
  "FailFastCast t v = Inr w \<longleftrightarrow> in_type t v \<and> w = v"
  "FailFastCast t v = Inl e \<longleftrightarrow> \<not> in_type t v \<and> e = FastFail"
  by (auto simp: FailFastCast_def TryCast_def in_type_def)

text \<open>
  A type is unsigned (lowest value 0) or in two's complement.  Between such types
  the unchecked branch never changes a value: a maybe-checked cast either keeps
  the value or stops the process.
\<close>

definition cpp_int :: "int_type \<Rightarrow> bool" where
  "cpp_int t \<longleftrightarrow> 0 \<le> maximum t \<and> (lowest t = 0 \<or> lowest t = - maximum t - 1)"

lemma FailFastMaybeCast_safe:
  assumes "cpp_int t" "cpp_int s" "in_type s v"
  shows "FailFastMaybeCast t s v = (if in_type t v then Inr v else Inl FastFail)"
  using assms by (auto simp: FailFastMaybeCast_def cast_needs_check_def FailFastCast_def TryCast_def
      in_type_def cpp_int_def)

lemma cpp_int_types [simp]: "cpp_int u32" "cpp_int u64" "cpp_int i64"
  by (simp_all add: cpp_int_def u32_def u64_def i64_def)

end
