(* ===== verification/VolumeSetup.thy ===== *)
theory VolumeSetup
  imports BlockDevice SafeCast
begin

text \<open>
  Opening a volume: \<open>src/modules/filesystem/ioctl.ixx\<close> (\<open>Ioctl\<close>,
  \<open>QueryDeviceLength\<close>, \<open>QueryVolumeFileSystem\<close>, \<open>QueryVolumeGeometry\<close>) and, from
  \<open>src/modules/windows_block_device.ixx\<close>, \<open>LoadAllocationBitmap\<close> and
  \<open>WindowsBlockDevice::FromHandle\<close>.  What the operating system answers is the
  record \<open>volume\<close>; the results show that a device that was opened satisfies the
  preconditions of its reads.
\<close>

section \<open>Device control\<close>

text \<open>
  One \<open>DeviceIoControl\<close> call with an event and an \<open>OVERLAPPED\<close>: the errors of
  creating the event, of the call and of waiting for it (\<open>None\<close> for success), and
  what the output buffer then holds.
\<close>

record 'o ioctl_call =
  io_event :: "nat option"
  io_control :: "nat option"
  io_overlapped :: "nat option"
  io_output :: 'o

abbreviation (input) ERROR_SUCCESS :: nat where "ERROR_SUCCESS \<equiv> 0"
abbreviation (input) ERROR_MORE_DATA :: nat where "ERROR_MORE_DATA \<equiv> 234"

definition Ioctl :: "'o ioctl_call \<Rightarrow> nat" where
  "Ioctl c =
     (case io_event c of
        Some err \<Rightarrow> err
      | None \<Rightarrow>
          (case io_control c of
             None \<Rightarrow> ERROR_SUCCESS
           | Some err \<Rightarrow>
               if err \<noteq> ERROR_IO_PENDING then err
               else (case io_overlapped c of Some err' \<Rightarrow> err' | None \<Rightarrow> ERROR_SUCCESS)))"

record bitmap_reply =
  br_returned :: nat
  br_starting_lcn :: int
  br_bitmap_size :: int
  br_storage :: "byte list"

record volume =
  vol_file_system :: "nat + wstring"
  vol_length :: "int ioctl_call"
  vol_ntfs_data :: "(int \<times> nat) ioctl_call"
  vol_refs_data :: "(int \<times> nat) ioctl_call"
  vol_retrieval_base :: "int ioctl_call"
  vol_bitmap :: "nat \<Rightarrow> bitmap_reply ioctl_call"
  vol_bytes_per_sector :: "nat ioctl_call"
  vol_alignment :: "nat + nat"
  vol_extended_dasd :: "unit ioctl_call"
  vol_flags :: "nat + 32 word"
  vol_file :: file_handle

definition QueryDeviceLength :: "volume \<Rightarrow> (nat + nat) result" where
  "QueryDeviceLength v =
     (let status = Ioctl (vol_length v)
      in if status \<noteq> ERROR_SUCCESS then Inr (Inl status)
         else ebind (FailFastCast u64 (io_output (vol_length v))) (\<lambda>len. Inr (Inr (nat len))))"

text \<open>Remove any suffix starting with the first null character.\<close>

definition QueryVolumeFileSystem :: "volume \<Rightarrow> nat + wstring" where
  "QueryVolumeFileSystem v =
     (case vol_file_system v of Inl err \<Rightarrow> Inl err | Inr buffer \<Rightarrow> Inr (takeWhile (\<lambda>ch. ch \<noteq> 0) buffer))"

definition QueryVolumeGeometry_from :: "(int \<times> nat) ioctl_call \<Rightarrow> (nat + nat \<times> nat) result" where
  "QueryVolumeGeometry_from c =
     (let status = Ioctl c
      in if status \<noteq> ERROR_SUCCESS then Inr (Inl status)
         else case io_output c of (total_clusters, bytes_per_cluster) \<Rightarrow>
           ebind (FailFastCast u64 total_clusters) (\<lambda>n. Inr (Inr (nat n, bytes_per_cluster))))"

definition QueryVolumeGeometry :: "volume \<Rightarrow> wstring option \<Rightarrow> (nat + nat \<times> nat) result" where
  "QueryVolumeGeometry v file_system =
     (let query = (\<lambda>fs. if fs = wide ''ReFS'' then QueryVolumeGeometry_from (vol_refs_data v)
                        else QueryVolumeGeometry_from (vol_ntfs_data v))
      in case file_system of
           Some fs \<Rightarrow> query fs
         | None \<Rightarrow> (case QueryVolumeFileSystem v of Inl err \<Rightarrow> Inr (Inl err) | Inr fs \<Rightarrow> query fs))"

section \<open>The allocation bitmap\<close>

abbreviation (input) sizeof_VOLUME_BITMAP_BUFFER :: nat where "sizeof_VOLUME_BITMAP_BUFFER \<equiv> 24"

text \<open>The request for the bitmap of a volume of known geometry, and the check of the reply.\<close>

definition RequestVolumeBitmap :: "volume \<Rightarrow> nat \<Rightarrow> nat \<Rightarrow> AllocationBitmap result" where
  "RequestVolumeBitmap v count csize =
     (let bitmap_bytes = count div 8 + (if count mod 8 \<noteq> 0 then 1 else 0);
          bitmap_data_size = add64 kVolumeBitmapHeaderSize bitmap_bytes;
          output_size = max sizeof_VOLUME_BITMAP_BUFFER bitmap_data_size
      in case TryCast u32 (int output_size) of
           None \<Rightarrow> Inl (RuntimeError ''exceeding the DeviceIoControl buffer limit'')
         | Some output_size_for_api \<Rightarrow>
             let call = vol_bitmap v (nat output_size_for_api);
                 bitmap_error = Ioctl call;
                 reply = io_output call
             in if bitmap_error \<noteq> ERROR_SUCCESS \<and> bitmap_error \<noteq> ERROR_MORE_DATA
                then Inl (SystemError bitmap_error ''FSCTL_GET_VOLUME_BITMAP failed'')
                else if br_returned reply < bitmap_data_size \<or> br_starting_lcn reply \<noteq> 0 \<or>
                        br_bitmap_size reply < int count
                then Inl (RuntimeError ''FSCTL_GET_VOLUME_BITMAP returned incomplete data'')
                else Inr \<lparr>cluster_size = csize,
                          cluster_shift = CountTrailingZeros (word_of_nat csize),
                          cluster_count = count, storage = br_storage reply\<rparr>)"

definition LoadAllocationBitmap :: "volume \<Rightarrow> AllocationBitmap result" where
  "LoadAllocationBitmap v =
     (case QueryVolumeFileSystem v of
        Inl err \<Rightarrow> Inl (SystemError err ''failed to identify the filesystem'')
      | Inr file_system \<Rightarrow>
     ebind (QueryVolumeGeometry v (Some file_system)) (\<lambda>geometry.
     case geometry of
       Inl err \<Rightarrow> Inl (SystemError err ''failed to query the volume data'')
     | Inr (count, csize) \<Rightarrow>
     let base_error = Ioctl (vol_retrieval_base v)
     in if base_error \<noteq> ERROR_SUCCESS
        then Inl (SystemError base_error ''FSCTL_GET_RETRIEVAL_POINTER_BASE failed'')
        else if io_output (vol_retrieval_base v) \<noteq> 0
        then Inl (RuntimeError ''LCN 0 is offset from the start of the exposed device'')
        else RequestVolumeBitmap v count csize))"

section \<open>Opening a device\<close>

abbreviation (input) kAdvertisedSectorSize :: nat where "kAdvertisedSectorSize \<equiv> 512"

text \<open>\<open>FILE_READ_ONLY_VOLUME\<close> is bit 19 of the file system flags.\<close>

definition check_read_only :: "volume \<Rightarrow> bool \<Rightarrow> unit result" where
  "check_read_only v cache =
     (case vol_flags v of
        Inl err \<Rightarrow> Inl (SystemError err ''failed to query filesystem flags'')
      | Inr flags \<Rightarrow>
          if flags AND 0x80000 = 0
          then Inl (RuntimeError ((if cache then ''--cache'' else ''--synthetic-free-clusters'')
                                    @ '' requires read-only block device''))
          else Inr ())"

text \<open>
  \<open>FromHandle\<close> for either template argument.  A failing
  \<open>FSCTL_ALLOW_EXTENDED_DASD_IO\<close> only prints a warning.
\<close>

definition WindowsBlockDevice_FromHandle ::
    "bool \<Rightarrow> (nat \<Rightarrow> ntstatus) \<Rightarrow> (nat \<Rightarrow> bool) \<Rightarrow> volume \<Rightarrow> bool \<Rightarrow> bool \<Rightarrow> WindowsBlockDevice result" where
  "WindowsBlockDevice_FromHandle has_bitmap nt alloc v extended_dasd cache =
     (case vol_alignment v of
        Inl err \<Rightarrow> Inl (SystemError err ''failed to query buffer alignment'')
      | Inr _ \<Rightarrow>
     ebind (QueryDeviceLength v) (\<lambda>len_reply.
     case len_reply of
       Inl err \<Rightarrow> Inl (SystemError err ''IOCTL_DISK_GET_LENGTH_INFO failed'')
     | Inr len \<Rightarrow>
     let geometry_error = Ioctl (vol_bytes_per_sector v)
     in if geometry_error \<noteq> ERROR_SUCCESS
        then Inl (SystemError geometry_error ''IOCTL_DISK_GET_DRIVE_GEOMETRY failed'')
        else if len mod kAdvertisedSectorSize \<noteq> 0
        then Inl (RuntimeError ''length is not a multiple of the advertised allocation unit'')
        else
     ebind (if cache \<or> has_bitmap then check_read_only v cache else Inr ()) (\<lambda>_.
     ebind (if has_bitmap then ebind (LoadAllocationBitmap v) (\<lambda>b. Inr (Some b)) else Inr None) (\<lambda>bm.
       Inr \<lparr>wb_length = len, wb_handle = vol_file v,
            wb_sector_size = io_output (vol_bytes_per_sector v), wb_bitmap = bm,
            wb_nt = nt, wb_alloc = alloc\<rparr>))))"

section \<open>What an opened volume satisfies\<close>

text \<open>
  The documented answers of the operating system: cluster and sector sizes are
  powers of two, the clusters of a volume and its length fit a nonnegative
  \<open>LARGE_INTEGER\<close>, sectors divide the length, and the bitmap reply fills the
  buffer it was given.
\<close>

definition geometry_ok :: "int \<times> nat \<Rightarrow> bool" where
  "geometry_ok g \<longleftrightarrow> (\<exists>k < 32. snd g = 2 ^ k) \<and> fst g * int (snd g) < 9223372036854775808"

definition volume_ok :: "(nat \<Rightarrow> byte) \<Rightarrow> volume \<Rightarrow> bool" where
  "volume_ok raw v \<longleftrightarrow> handle_ok raw (vol_file v) \<and>
     geometry_ok (io_output (vol_ntfs_data v)) \<and> geometry_ok (io_output (vol_refs_data v)) \<and>
     (\<forall>n. length (br_storage (io_output (vol_bitmap v n))) = n) \<and>
     (\<exists>k < 32. io_output (vol_bytes_per_sector v) = 2 ^ k) \<and>
     io_output (vol_length v) < 9223372036854775808 \<and>
     nat (io_output (vol_length v)) mod io_output (vol_bytes_per_sector v) = 0"

lemma QueryVolumeGeometry_Inr:
  assumes "QueryVolumeGeometry v (Some fs) = Inr (Inr (n, s))" "volume_ok raw v"
  shows "(\<exists>k < 32. s = 2 ^ k)" "n * s < 9223372036854775808" "n * s < two64"
proof -
  have "\<exists>c. geometry_ok (io_output c) \<and> QueryVolumeGeometry_from c = Inr (Inr (n, s))"
    using assms by (auto simp: QueryVolumeGeometry_def volume_ok_def split: if_splits)
  then obtain t where t: "geometry_ok (t, s)" "0 \<le> t" "n = nat t"
    by (cases "io_output (vol_ntfs_data v)")
      (auto simp: QueryVolumeGeometry_from_def Let_def err_simps in_type_def u64_def
        split: if_splits prod.splits)
  then show "\<exists>k < 32. s = 2 ^ k" by (simp add: geometry_ok_def)
  have "int (n * s) < 9223372036854775808" using t by (simp add: geometry_ok_def)
  then show "n * s < 9223372036854775808" "n * s < two64" by linarith+
qed

lemma RequestVolumeBitmap_Inr:
  assumes "RequestVolumeBitmap v n s = Inr b" "volume_ok raw v"
  shows "cluster_size b = s" "cluster_shift b = CountTrailingZeros (word_of_nat s)" "cluster_count b = n"
    "add64 kVolumeBitmapHeaderSize (BitmapByteCount b) \<le> length (storage b)"
proof -
  let ?sz = "max sizeof_VOLUME_BITMAP_BUFFER
      (add64 kVolumeBitmapHeaderSize (n div 8 + (if n mod 8 \<noteq> 0 then 1 else 0)))"
  obtain m where m: "TryCast u32 (int ?sz) = Some m"
    and b: "b = \<lparr>cluster_size = s, cluster_shift = CountTrailingZeros (word_of_nat s),
                 cluster_count = n, storage = br_storage (io_output (vol_bitmap v (nat m)))\<rparr>"
    using assms(1) unfolding RequestVolumeBitmap_def Let_def
    by (cases "TryCast u32 (int ?sz)") (simp_all split: if_splits)
  show "cluster_size b = s" "cluster_shift b = CountTrailingZeros (word_of_nat s)" "cluster_count b = n"
    using b by simp_all
  have "nat m = ?sz" using m by (simp add: TryCast_def split: if_splits)
  then have "length (storage b) = ?sz" using b assms(2) by (simp add: volume_ok_def)
  then show "add64 kVolumeBitmapHeaderSize (BitmapByteCount b) \<le> length (storage b)"
    using b by (simp add: BitmapByteCount_def)
qed

lemma LoadAllocationBitmap_inv:
  assumes "LoadAllocationBitmap v = Inr b" "volume_ok raw v"
  shows "ab_inv b" "cluster_count b * cluster_size b < 9223372036854775808"
proof -
  obtain fs n s where g: "QueryVolumeGeometry v (Some fs) = Inr (Inr (n, s))"
    and r: "RequestVolumeBitmap v n s = Inr b"
    using assms(1) unfolding LoadAllocationBitmap_def Let_def
    by (auto simp: err_simps split: prod.splits)
  note geo = QueryVolumeGeometry_Inr [OF g assms(2)] and b = RequestVolumeBitmap_Inr [OF r assms(2)]
  from geo(1) obtain k where k: "k < 32" "s = 2 ^ k" by blast
  have "CountTrailingZeros (word_of_nat s) = k"
    using CountTrailingZeros_power [of k] k by simp
  moreover have "kVolumeBitmapHeaderSize + BitmapByteCount b \<le> length (storage b)"
  proof -
    have "n * 1 \<le> n * s" using k by (intro mult_le_mono2) simp
    then have "n < two64" using geo(3) by linarith
    then have "n div 8 \<le> 2305843009213693952" using div_le_mono [of n two64 8] by simp
    then have "kVolumeBitmapHeaderSize + BitmapByteCount b < two64"
      using b(3) by (simp add: BitmapByteCount_def)
    then show ?thesis using b(4) by (simp add: add64_exact)
  qed
  ultimately show "ab_inv b" using b k geo(3) by (simp add: ab_inv_def)
  show "cluster_count b * cluster_size b < 9223372036854775808" using b geo(2) by simp
qed

lemma FromHandle_inv:
  assumes "WindowsBlockDevice_FromHandle hb nt alloc v ext cache = Inr d"
    and "volume_ok raw v" "maps_errors nt"
  shows "wb_inv raw d" "hb \<longleftrightarrow> wb_bitmap d \<noteq> None" "wb_length d mod kAdvertisedSectorSize = 0"
    "wb_bitmap d = Some b \<Longrightarrow> LoadAllocationBitmap v = Inr b"
proof -
  obtain len where q: "QueryDeviceLength v = Inr (Inr len)" "len mod kAdvertisedSectorSize = 0"
    and d: "wb_length d = len" "wb_handle d = vol_file v" "wb_nt d = nt"
      "wb_sector_size d = io_output (vol_bytes_per_sector v)"
    and bm: "if hb then \<exists>b. LoadAllocationBitmap v = Inr b \<and> wb_bitmap d = Some b else wb_bitmap d = None"
    using assms(1) unfolding WindowsBlockDevice_FromHandle_def Let_def
    by (cases hb) (auto simp: err_simps split: if_splits)
  from q(1) have len: "len = nat (io_output (vol_length v))"
    by (auto simp: QueryDeviceLength_def Let_def err_simps split: if_splits)
  have "ab_inv b" if "wb_bitmap d = Some b" for b
    using that bm LoadAllocationBitmap_inv(1) assms(2) by (auto split: if_splits)
  then show "wb_inv raw d" using assms(2,3) unfolding wb_inv_def volume_ok_def d len by auto
  show "wb_bitmap d = Some b \<Longrightarrow> LoadAllocationBitmap v = Inr b" using bm by (auto split: if_splits)
  show "hb \<longleftrightarrow> wb_bitmap d \<noteq> None" using bm by (auto split: if_splits)
  show "wb_length d mod kAdvertisedSectorSize = 0" using d q by simp
qed

end
