(* ===== verification/BitmapSets.thy ===== *)
theory BitmapSets
  imports ReallocVec
begin

text \<open>
  \<open>BitmapSet<BlockSize>\<close> and \<open>MaybeBitmapSet<BlockSize>\<close> of
  \<open>src/modules/bitmap_set.ixx\<close>: sets of byte offsets, one bit for each
  \<open>BlockSize\<close> bytes.  The template argument is the parameter \<open>B\<close>.  Operations
  that the source guards with \<open>__fastfail\<close> or that may throw
  \<open>std::bad_alloc\<close> return a \<open>result\<close>.

  The abstraction \<open>bs_set B s\<close> is the set of offsets a bitmap stands for; every
  operation is shown to implement the corresponding set operation and to keep
  \<open>size()\<close> equal to the number of members.  The two classes share the contract
  of the locale \<open>offset_set\<close>, which the chain walks of the VSS reader rely on.
\<close>

record BitmapSet =
  bm_words :: "64 word ReallocVector"
  bm_size :: nat

section \<open>The operations\<close>

definition BitmapSet_default :: BitmapSet where
  "BitmapSet_default =
     \<lparr>bm_words = ReallocVector_new 8 (ReallocVector_max_size 8), bm_size = 0\<rparr>"

definition BitmapSet_new :: "nat \<Rightarrow> nat \<Rightarrow> BitmapSet" where
  "BitmapSet_new B maximum_offset =
     \<lparr>bm_words = ReallocVector_new 8 (add64 (drop_bit 6 (maximum_offset div B)) 1),
      bm_size = 0\<rparr>"

definition BitmapSet_empty :: "BitmapSet \<Rightarrow> bool" where
  "BitmapSet_empty s \<longleftrightarrow> bm_size s = 0"

definition BitmapSet_storage :: "BitmapSet \<Rightarrow> 64 word list" where
  "BitmapSet_storage s = ReallocVector_contents (bm_words s)"

definition block_index :: "nat \<Rightarrow> nat \<Rightarrow> nat result" where
  "block_index B value = (if value mod B \<noteq> 0 then Inl FastFail else Inr (value div B))"

definition bs_mask :: "nat \<Rightarrow> 64 word" where
  "bs_mask b = push_bit (b mod 64) 1"

definition BitmapSet_contains :: "nat \<Rightarrow> BitmapSet \<Rightarrow> nat \<Rightarrow> bool result" where
  "BitmapSet_contains B s value =
     ebind (block_index B value) (\<lambda>b.
       let word = drop_bit 6 b
       in Inr (word < rv_size (bm_words s) \<and>
               ReallocVector_get (bm_words s) word AND bs_mask b \<noteq> 0))"

definition insert_aligned :: "heap \<Rightarrow> nat \<Rightarrow> BitmapSet \<Rightarrow> nat \<Rightarrow> (bool \<times> BitmapSet) result" where
  "insert_aligned heap B s value =
     (let b = value div B;
          index = drop_bit 6 b
      in ebind (if index \<ge> rv_size (bm_words s)
                then ReallocVector_resize heap (bm_words s) (add64 index 1)
                else Inr (bm_words s)) (\<lambda>ws.
           let previous_word = ReallocVector_get ws index;
               inserted = (previous_word AND bs_mask b = 0)
           in Inr (inserted,
                if inserted
                then \<lparr>bm_words = ReallocVector_set ws index (previous_word OR bs_mask b),
                      bm_size = add64 (bm_size s) 1\<rparr>
                else s\<lparr>bm_words := ws\<rparr>)))"

definition BitmapSet_insert :: "heap \<Rightarrow> nat \<Rightarrow> BitmapSet \<Rightarrow> nat \<Rightarrow> (bool \<times> BitmapSet) result" where
  "BitmapSet_insert heap B s value =
     (if value mod B \<noteq> 0 then Inl FastFail else insert_aligned heap B s value)"

definition insert_bits ::
    "64 word ReallocVector \<Rightarrow> nat \<Rightarrow> 64 word \<Rightarrow> nat \<times> 64 word ReallocVector" where
  "insert_bits ws index bits =
     (let word = ReallocVector_get ws index
      in (popcount (bits AND NOT word), ReallocVector_set ws index (word OR bits)))"

definition insert_bits_step ::
    "nat \<times> 64 word ReallocVector \<Rightarrow> nat \<Rightarrow> 64 word \<Rightarrow> nat \<times> 64 word ReallocVector" where
  "insert_bits_step acc index bits =
     (let (c, ws) = insert_bits (snd acc) index bits in (add64 (fst acc) c, ws))"

definition insert_run ::
    "64 word ReallocVector \<Rightarrow> nat \<Rightarrow> nat \<Rightarrow> 64 word \<Rightarrow> 64 word \<Rightarrow> nat \<times> 64 word ReallocVector" where
  "insert_run ws first_word last_word first_mask last_mask =
     (if first_word = last_word
      then insert_bits ws first_word (first_mask AND last_mask)
      else insert_bits_step
        (foldl (\<lambda>acc index. insert_bits_step acc index (- 1))
           (insert_bits ws first_word first_mask) [first_word + 1..<last_word])
        last_word last_mask)"

definition BitmapSet_insert_range ::
    "heap \<Rightarrow> nat \<Rightarrow> BitmapSet \<Rightarrow> nat \<Rightarrow> nat \<Rightarrow> BitmapSet result" where
  "BitmapSet_insert_range heap B s first limit =
     (if first > limit then Inl FastFail
      else ebind (block_index B first) (\<lambda>first_bit.
           ebind (block_index B limit) (\<lambda>limit_bit.
             if first_bit = limit_bit then Inr s
             else
               let last_bit = limit_bit - 1;
                   first_word = drop_bit 6 first_bit;
                   last_word = drop_bit 6 last_bit
               in ebind (if last_word \<ge> rv_size (bm_words s)
                         then ReallocVector_resize heap (bm_words s) (add64 last_word 1)
                         else Inr (bm_words s)) (\<lambda>ws.
                  let first_mask = push_bit (first_bit mod 64) (- 1);
                      last_mask = drop_bit (63 - last_bit mod 64) (- 1);
                      (count, ws') = insert_run ws first_word last_word first_mask last_mask
                  in Inr \<lparr>bm_words = ws', bm_size = add64 (bm_size s) count\<rparr>))))"

definition BitmapSet_erase :: "nat \<Rightarrow> BitmapSet \<Rightarrow> nat \<Rightarrow> (nat \<times> BitmapSet) result" where
  "BitmapSet_erase B s value =
     ebind (BitmapSet_contains B s value) (\<lambda>found.
       if \<not> found then Inr (0, s)
       else let b = value div B; word = drop_bit 6 b
            in Inr (1, \<lparr>bm_words = ReallocVector_set (bm_words s) word
                          (ReallocVector_get (bm_words s) word AND NOT (bs_mask b)),
                        bm_size = sub64 (bm_size s) 1\<rparr>))"

definition BitmapSet_clear :: "BitmapSet \<Rightarrow> BitmapSet" where
  "BitmapSet_clear s = \<lparr>bm_words = ReallocVector_clear (bm_words s), bm_size = 0\<rparr>"

text \<open>
  One iteration of the merge loop.  \<open>this == std::addressof(source)\<close> is the
  argument \<open>aliased\<close> of \<open>BitmapSet_merge\<close>.
\<close>

definition merge_word ::
    "nat \<times> 64 word ReallocVector \<times> 64 word ReallocVector \<Rightarrow> nat
      \<Rightarrow> nat \<times> 64 word ReallocVector \<times> 64 word ReallocVector" where
  "merge_word = (\<lambda>(count, dst, src) index.
     let source_word = ReallocVector_get src index;
         destination_word = ReallocVector_get dst index;
         transferred = source_word AND NOT destination_word
     in (add64 count (popcount transferred),
         ReallocVector_set dst index (destination_word OR source_word),
         ReallocVector_set src index (source_word AND destination_word)))"

definition BitmapSet_merge ::
    "heap \<Rightarrow> bool \<Rightarrow> BitmapSet \<Rightarrow> BitmapSet \<Rightarrow> (BitmapSet \<times> BitmapSet) result" where
  "BitmapSet_merge heap aliased this source =
     (if aliased \<or> BitmapSet_empty source then Inr (this, source)
      else
        let word_count = rv_size (bm_words source)
        in ebind (if rv_size (bm_words this) < word_count
                  then ReallocVector_resize heap (bm_words this) word_count
                  else Inr (bm_words this)) (\<lambda>ws.
             let (transferred_count, dst, src) =
                   foldl merge_word (0, ws, bm_words source) [0..<word_count]
             in Inr (\<lparr>bm_words = dst, bm_size = add64 (bm_size this) transferred_count\<rparr>,
                     \<lparr>bm_words = src, bm_size = sub64 (bm_size source) transferred_count\<rparr>)))"

section \<open>The bits of a word array\<close>

definition rv_bits :: "64 word ReallocVector \<Rightarrow> nat set" where
  "rv_bits v = {i. i div 64 < rv_size v \<and> bit (ReallocVector_get v (i div 64)) (i mod 64)}"

definition word_span :: "nat \<Rightarrow> 64 word \<Rightarrow> nat set" where
  "word_span idx w = {i. i div 64 = idx \<and> bit w (i mod 64)}"

lemma finite_rv_bits [simp]: "finite (rv_bits v)"
  by (rule finite_subset [of _ "{..<64 * rv_size v}"]) (auto simp: rv_bits_def)

lemma word_span_image: "word_span idx w = (\<lambda>k. 64 * idx + k) ` {k. bit w k}"
proof -
  have "i \<in> (\<lambda>k. 64 * idx + k) ` {k. bit w k}" if "i \<in> word_span idx w" for i
    using that by (intro image_eqI [of _ _ "i mod 64"]) (auto simp: word_span_def)
  moreover have "64 * idx + k \<in> word_span idx w" if "bit w k" for k
  proof -
    have "k < 64" using bit_imp_le_length [OF that] by simp
    then show ?thesis using that by (simp add: word_span_def)
  qed
  ultimately show ?thesis by auto
qed

lemma card_word_span: "card (word_span idx w) = popcount w"
  by (simp add: word_span_image popcount_eq_card card_image inj_on_def)

lemma finite_word_span [simp]: "finite (word_span idx w)"
  by (simp add: word_span_image)

lemma word_span_minus_bits:
  "idx < rv_size v \<Longrightarrow>
   word_span idx w - rv_bits v = word_span idx (w AND NOT (ReallocVector_get v idx))"
  by (auto simp: word_span_def rv_bits_def bit_and_iff bit_not_iff)

lemma insert_bits_spec:
  assumes "rv_inv v" "idx < rv_size v" "insert_bits v idx w = (c, v')"
  shows "rv_inv v'" "rv_size v' = rv_size v" "rv_max v' = rv_max v"
    "elem_size v' = elem_size v"
    "rv_bits v' = rv_bits v \<union> word_span idx w"
    "c = card (rv_bits v' - rv_bits v)"
proof -
  let ?x = "ReallocVector_get v idx OR w"
  have v': "v' = ReallocVector_set v idx ?x" and c: "c = popcount (w AND NOT (ReallocVector_get v idx))"
    using assms(3) by (auto simp: insert_bits_def Let_def)
  note s = set_spec [OF assms(1,2), of ?x]
  show "rv_inv v'" "rv_size v' = rv_size v" "rv_max v' = rv_max v"
    "elem_size v' = elem_size v"
    using s v' by (auto simp: ReallocVector_set_def)
  show b: "rv_bits v' = rv_bits v \<union> word_span idx w"
    using s v' assms(2) by (auto simp: rv_bits_def word_span_def bit_or_iff split: if_splits)
  have "rv_bits v' - rv_bits v = word_span idx w - rv_bits v" using b by blast
  then show "c = card (rv_bits v' - rv_bits v)"
    using c card_word_span by (simp add: word_span_minus_bits [OF assms(2)])
qed

text \<open>
  Counting by accumulation: along a chain of growing sets the counts of the
  newly set bits add up to the count over the whole chain.
\<close>

lemma card_diff_chain:
  assumes "A \<subseteq> (X :: nat set)" "X \<subseteq> Y" "finite Y"
  shows "card (X - A) + card (Y - X) = card (Y - A)"
proof -
  have "Y - A = (X - A) \<union> (Y - X)" using assms by blast
  moreover have "card ((X - A) \<union> (Y - X)) = card (X - A) + card (Y - X)"
    using assms by (intro card_Un_disjoint) (auto intro: finite_subset)
  ultimately show ?thesis by simp
qed

text \<open>
  \<open>grown v0 (c, v)\<close>: \<open>v\<close> came from \<open>v0\<close> by setting bits, and \<open>c\<close> counts them
  (modulo 2^64, as the source's accumulator does).
\<close>

definition grown :: "64 word ReallocVector \<Rightarrow> nat \<times> 64 word ReallocVector \<Rightarrow> bool" where
  "grown v0 acc \<longleftrightarrow> rv_inv (snd acc) \<and> rv_size (snd acc) = rv_size v0
     \<and> rv_max (snd acc) = rv_max v0 \<and> elem_size (snd acc) = elem_size v0
     \<and> rv_bits v0 \<subseteq> rv_bits (snd acc)
     \<and> fst acc mod two64 = card (rv_bits (snd acc) - rv_bits v0) mod two64"

lemma insert_bits_grown:
  assumes "rv_inv v" "idx < rv_size v"
  shows "grown v (insert_bits v idx w)"
    and "rv_bits (snd (insert_bits v idx w)) = rv_bits v \<union> word_span idx w"
proof -
  obtain c v' where e: "insert_bits v idx w = (c, v')" by fastforce
  note s = insert_bits_spec [OF assms e]
  show "grown v (insert_bits v idx w)"
    using e s by (simp add: grown_def)
  show "rv_bits (snd (insert_bits v idx w)) = rv_bits v \<union> word_span idx w"
    using e s(5) by simp
qed

lemma insert_bits_step_grown:
  assumes "grown v0 acc" "idx < rv_size v0"
  shows "grown v0 (insert_bits_step acc idx w)"
    and "rv_bits (snd (insert_bits_step acc idx w)) = rv_bits (snd acc) \<union> word_span idx w"
proof -
  obtain c v' where e: "insert_bits (snd acc) idx w = (c, v')" by fastforce
  have inv: "rv_inv (snd acc)" and idx: "idx < rv_size (snd acc)"
    using assms by (simp_all add: grown_def)
  note s = insert_bits_spec [OF inv idx e]
  have chain: "card (rv_bits (snd acc) - rv_bits v0) + c = card (rv_bits v' - rv_bits v0)"
    using card_diff_chain [of "rv_bits v0" "rv_bits (snd acc)" "rv_bits v'"] s(5,6) assms(1)
    by (simp add: grown_def)
  show "rv_bits (snd (insert_bits_step acc idx w)) = rv_bits (snd acc) \<union> word_span idx w"
    using e s(5) by (simp add: insert_bits_step_def)
  have "(fst acc + c) mod two64 = card (rv_bits v' - rv_bits v0) mod two64"
    unfolding chain [symmetric] using assms(1) by (intro mod_add_cong) (simp_all add: grown_def)
  then show "grown v0 (insert_bits_step acc idx w)"
    using e s assms(1) by (auto simp: grown_def insert_bits_step_def add64_def)
qed

lemma fold_insert_bits:
  assumes "grown v0 acc" "b \<le> rv_size v0"
  shows "grown v0 (foldl (\<lambda>acc index. insert_bits_step acc index (- 1)) acc [a..<b])
    \<and> rv_bits (snd (foldl (\<lambda>acc index. insert_bits_step acc index (- 1)) acc [a..<b]))
      = rv_bits (snd acc) \<union> {i. a \<le> i div 64 \<and> i div 64 < b}"
  using assms(2)
proof (induction b)
  case 0
  then show ?case using assms(1) by auto
next
  case (Suc b)
  show ?case
  proof (cases "a \<le> b")
    case True
    let ?acc = "foldl (\<lambda>acc index. insert_bits_step acc index (- 1)) acc [a..<b]"
    from Suc have IH: "grown v0 ?acc"
      "rv_bits (snd ?acc) = rv_bits (snd acc) \<union> {i. a \<le> i div 64 \<and> i div 64 < b}"
      by auto
    have span: "word_span b (- 1) = {i. i div 64 = b}"
      by (auto simp: word_span_def)
    show ?thesis
      using True insert_bits_step_grown [OF IH(1), of b "- 1"] IH(2) Suc.prems span
      by (auto simp: less_Suc_eq)
  next
    case False
    then show ?thesis using assms(1) by auto
  qed
qed

lemma le_div_mod64:
  "(a :: nat) \<le> b \<longleftrightarrow> a div 64 < b div 64 \<or> (a div 64 = b div 64 \<and> a mod 64 \<le> b mod 64)"
proof -
  have a: "a = 64 * (a div 64) + a mod 64" and b: "b = 64 * (b div 64) + b mod 64"
    and m: "a mod 64 < 64" "b mod 64 < 64" by simp_all
  show ?thesis using a b m by linarith
qed

lemma span_first_mask:
  "word_span idx (push_bit (a mod 64) (- 1)) = {i. i div 64 = idx \<and> a mod 64 \<le> i mod 64}"
  unfolding word_span_def by (auto simp: bit_not_iff bit_mask_iff)

lemma span_last_mask:
  "word_span idx (drop_bit (63 - a mod 64) (- 1)) = {i. i div 64 = idx \<and> i mod 64 \<le> a mod 64}"
proof -
  have "bit (drop_bit (63 - a mod 64) (- 1 :: 64 word)) (i mod 64) \<longleftrightarrow> i mod 64 \<le> a mod 64" for i
    using mod_less_divisor [of 64 a] by (simp only: bit_drop_bit_eq o_def) (simp, linarith)
  then show ?thesis by (simp add: word_span_def)
qed

lemma word_span_and: "word_span idx (a AND b) = word_span idx a \<inter> word_span idx b"
  by (auto simp: word_span_def bit_and_iff)

lemma run_cases:
  assumes "(A :: nat) < B"
  shows "x = A \<and> p \<or> (A + 1 \<le> x \<and> x < B) \<or> x = B \<and> q \<longleftrightarrow>
    (A < x \<or> A = x \<and> p) \<and> (x < B \<or> x = B \<and> q)"
  using assms by auto

lemma insert_run_spec:
  assumes inv: "rv_inv v" and ab: "a \<le> b" and sz: "b div 64 < rv_size v"
    and r: "r = insert_run v (a div 64) (b div 64)
      (push_bit (a mod 64) (- 1)) (drop_bit (63 - b mod 64) (- 1))"
  shows "grown v r" "rv_bits (snd r) = rv_bits v \<union> {a..b}"
proof -
  have wa: "a div 64 < rv_size v" using ab sz by (meson div_le_mono le_less_trans)
  have range: "{a..b} = {i. a div 64 < i div 64 \<or> a div 64 = i div 64 \<and> a mod 64 \<le> i mod 64}
      \<inter> {i. i div 64 < b div 64 \<or> i div 64 = b div 64 \<and> i mod 64 \<le> b mod 64}"
    by (auto simp: le_div_mod64 [of a] le_div_mod64 [of _ b])
  have "grown v r \<and> rv_bits (snd r) = rv_bits v \<union> {a..b}"
  proof (cases "a div 64 = b div 64")
    case True
    note s = insert_bits_grown [OF inv sz,
        of "push_bit (a mod 64) (- 1) AND drop_bit (63 - b mod 64) (- 1)"]
    have "word_span (b div 64) (push_bit (a mod 64) (- 1) AND drop_bit (63 - b mod 64) (- 1))
        = {a..b}"
      unfolding word_span_and span_first_mask span_last_mask range using True by auto
    then show ?thesis using s r True by (simp add: insert_run_def)
  next
    case False
    then have lt: "a div 64 < b div 64" using ab by (simp add: div_le_mono order.not_eq_order_implies_strict)
    let ?m1 = "push_bit (a mod 64) (- 1) :: 64 word"
    let ?acc = "foldl (\<lambda>acc index. insert_bits_step acc index (- 1))
           (insert_bits v (a div 64) ?m1) [a div 64 + 1..<b div 64]"
    have f: "grown v ?acc" "rv_bits (snd ?acc) = rv_bits (snd (insert_bits v (a div 64) ?m1))
        \<union> {i. a div 64 + 1 \<le> i div 64 \<and> i div 64 < b div 64}"
      using fold_insert_bits [OF insert_bits_grown(1) [OF inv wa]] sz by auto
    have "{i. i div 64 = a div 64 \<and> a mod 64 \<le> i mod 64}
        \<union> {i. a div 64 + 1 \<le> i div 64 \<and> i div 64 < b div 64}
        \<union> {i. i div 64 = b div 64 \<and> i mod 64 \<le> b mod 64} = {a..b}"
      unfolding range using run_cases [OF lt] by blast
    then show ?thesis
      using r False insert_bits_step_grown [OF f(1) sz] f(2) insert_bits_grown(2) [OF inv wa]
      by (simp add: insert_run_def span_first_mask [simplified] span_last_mask [simplified] Un_assoc)
  qed
  then show "grown v r" "rv_bits (snd r) = rv_bits v \<union> {a..b}" by simp_all
qed

section \<open>The set a bitmap stands for\<close>

definition bs_set :: "nat \<Rightarrow> BitmapSet \<Rightarrow> nat set" where
  "bs_set B s = (\<lambda>i. i * B) ` rv_bits (bm_words s)"

definition bs_inv :: "nat \<Rightarrow> BitmapSet \<Rightarrow> bool" where
  "bs_inv B s \<longleftrightarrow> 2 \<le> B \<and> rv_inv (bm_words s) \<and> elem_size (bm_words s) = 8
     \<and> bm_size s = card (rv_bits (bm_words s))
     \<and> (\<forall>i \<in> rv_bits (bm_words s). i * B < two64)"

lemma rv_bits_new [simp]: "rv_bits (ReallocVector_new sz m) = {}"
  by (simp add: rv_bits_def ReallocVector_new_def)

lemma bs_inv_new [simp]:
  "2 \<le> B \<Longrightarrow> bs_inv B (BitmapSet_new B m)"
  "2 \<le> B \<Longrightarrow> bs_inv B BitmapSet_default"
  by (auto simp: bs_inv_def BitmapSet_new_def BitmapSet_default_def)
    (simp_all add: ReallocVector_new_def)

lemma bs_set_new [simp]: "bs_set B (BitmapSet_new B' m) = {}" "bs_set B BitmapSet_default = {}"
  by (simp_all add: bs_set_def BitmapSet_new_def BitmapSet_default_def)

lemma bs_bits_card_lt:
  assumes "2 \<le> B" "\<forall>i \<in> rv_bits v. i * B < two64"
  shows "card (rv_bits v) \<le> 9223372036854775808"
proof -
  have "rv_bits v \<subseteq> {..<9223372036854775808}"
  proof
    fix i assume "i \<in> rv_bits v"
    then have "i * B < two64" using assms(2) by blast
    moreover have "i * 2 \<le> i * B" using assms(1) by (rule mult_le_mono2)
    ultimately have "i * 2 < two64" by linarith
    then show "i \<in> {..<9223372036854775808}" by simp
  qed
  from card_mono [OF _ this] show ?thesis by simp
qed

lemma bs_set_iff:
  "0 < B \<Longrightarrow> v \<in> bs_set B s \<longleftrightarrow> v mod B = 0 \<and> v div B \<in> rv_bits (bm_words s)"
  by (auto simp: bs_set_def)

lemma finite_bs_set [simp]: "finite (bs_set B s)"
  by (simp add: bs_set_def)

lemma bs_size_card: "bs_inv B s \<Longrightarrow> bm_size s = card (bs_set B s)"
  by (simp add: bs_inv_def bs_set_def card_image inj_on_def)

lemma and_bs_mask: "w AND bs_mask b = 0 \<longleftrightarrow> \<not> bit w (b mod 64)"
  by (simp add: word_eq_0_iff_bits bit_and_iff bs_mask_def bit_exp_iff)
    (metis bit_imp_le_length mod_less_divisor zero_less_numeral)

lemma drop_bit_6 [simp]: "drop_bit 6 (n :: nat) = n div 64"
  by (simp add: drop_bit_eq_div)

lemma contains_spec:
  assumes "2 \<le> B"
  shows "BitmapSet_contains B s v =
    (if v mod B = 0 then Inr (v \<in> bs_set B s) else Inl FastFail)"
  using assms by (auto simp: BitmapSet_contains_def block_index_def bs_set_iff rv_bits_def
      and_bs_mask Let_def)

section \<open>Each operation implements its set operation\<close>

lemma grow_bits:
  assumes "rv_inv v" "rv_size v \<le> n" "ReallocVector_resize heap v n = Inr v'"
  shows "rv_bits v' = rv_bits v"
proof -
  note s = resize_spec [OF assms(1,3)]
  have "i div 64 < n \<Longrightarrow> bit (ReallocVector_get v' (i div 64)) (i mod 64) \<longleftrightarrow>
      i div 64 < rv_size v \<and> bit (ReallocVector_get v (i div 64)) (i mod 64)" for i
    by (simp add: s(5))
  then show ?thesis using s(2) assms(2) by (auto simp: rv_bits_def)
qed

lemma rv_bits_set:
  assumes "rv_inv v" "idx < rv_size v"
  shows "rv_bits (ReallocVector_set v idx x) = (rv_bits v - {i. i div 64 = idx}) \<union> word_span idx x"
  using set_spec [OF assms, of x] assms(2)
  by (auto simp: rv_bits_def word_span_def split: if_splits)

text \<open>The common first step of the insertions: make room for a word index.\<close>

lemma ensure_room:
  assumes inv: "rv_inv v" and idx: "idx < 288230376151711744"
    and ok: "(if idx \<ge> rv_size v then ReallocVector_resize heap v (add64 idx 1) else Inr v) = Inr ws"
  shows "rv_inv ws" "idx < rv_size ws" "rv_bits ws = rv_bits v" "elem_size ws = elem_size v"
    "rv_max ws = rv_max v"
proof -
  have n: "add64 idx 1 = idx + 1" using idx by (intro add64_exact) simp
  have "rv_inv ws \<and> idx < rv_size ws \<and> rv_bits ws = rv_bits v \<and> elem_size ws = elem_size v
    \<and> rv_max ws = rv_max v"
  proof (cases "idx \<ge> rv_size v")
    case True
    with ok n have r: "ReallocVector_resize heap v (idx + 1) = Inr ws" by simp
    show ?thesis
      using resize_spec [OF inv r] grow_bits [OF inv _ r] True by simp
  next
    case False
    with ok inv show ?thesis by simp
  qed
  then show "rv_inv ws" "idx < rv_size ws" "rv_bits ws = rv_bits v" "elem_size ws = elem_size v"
    "rv_max ws = rv_max v" by simp_all
qed

lemma block_word_lt:
  assumes "2 \<le> B" "v < two64"
  shows "v div B div 64 < 288230376151711744"
proof -
  have "v div B \<le> v div 2" using assms(1) by (simp add: div_le_mono2)
  then have "v div B div 64 \<le> v div 2 div 64" by (rule div_le_mono)
  moreover have "v div 2 div 64 < 288230376151711744" using assms(2) by linarith
  ultimately show ?thesis by linarith
qed

lemma span_bs_mask: "word_span idx (w OR bs_mask b) =
    word_span idx w \<union> {i. i div 64 = idx \<and> i mod 64 = b mod 64}"
  by (auto simp: word_span_def bit_or_iff bs_mask_def bit_exp_iff)

lemma span_not_bs_mask: "word_span idx (w AND NOT (bs_mask b)) =
    word_span idx w - {i. i div 64 = idx \<and> i mod 64 = b mod 64}"
  by (auto simp: word_span_def bit_and_iff bit_not_iff bs_mask_def bit_exp_iff)

lemma same_bit: "{i. i div 64 = b div 64 \<and> i mod 64 = b mod 64} = {b :: nat}"
  by auto (metis div_mult_mod_eq)

lemma span_get: "idx < rv_size v \<Longrightarrow>
    word_span idx (ReallocVector_get v idx) = rv_bits v \<inter> {i. i div 64 = idx}"
  by (auto simp: word_span_def rv_bits_def)

lemma insert_aligned_spec:
  assumes inv: "bs_inv B s" and al: "v mod B = 0" and lt: "v < two64"
    and ok: "insert_aligned heap B s v = Inr (r, s')"
  shows "bs_inv B s'" "bs_set B s' = insert v (bs_set B s)" "r \<longleftrightarrow> v \<notin> bs_set B s"
    and "rv_max (bm_words s') = rv_max (bm_words s)"
proof -
  let ?b = "v div B"
  have B: "2 \<le> B" and rinv: "rv_inv (bm_words s)" using inv by (simp_all add: bs_inv_def)
  obtain ws where ws: "(if ?b div 64 \<ge> rv_size (bm_words s)
      then ReallocVector_resize heap (bm_words s) (add64 (?b div 64) 1) else Inr (bm_words s)) = Inr ws"
    and r: "r \<longleftrightarrow> \<not> bit (ReallocVector_get ws (?b div 64)) (?b mod 64)"
    and s': "s' = (if r then \<lparr>bm_words = ReallocVector_set ws (?b div 64)
        (ReallocVector_get ws (?b div 64) OR bs_mask ?b), bm_size = add64 (bm_size s) 1\<rparr>
        else s\<lparr>bm_words := ws\<rparr>)"
    using ok by (auto simp: insert_aligned_def Let_def err_simps and_bs_mask)
  note room = ensure_room [OF rinv block_word_lt [OF B lt] ws]
  have mem: "?b \<in> rv_bits ws \<longleftrightarrow> v \<in> bs_set B s"
    using room(3) al B by (simp add: bs_set_iff)
  have bits: "rv_bits (bm_words s') = insert ?b (rv_bits (bm_words s))"
  proof (cases r)
    case True
    then show ?thesis
      using s' rv_bits_set [OF room(1,2)] span_get [OF room(2)] room(3)
      by (simp add: span_bs_mask same_bit) auto
  next
    case False
    then show ?thesis using s' r room(2,3) by (auto simp: rv_bits_def)
  qed
  show rv: "r \<longleftrightarrow> v \<notin> bs_set B s"
    using r mem room(2) by (simp add: rv_bits_def)
  have bnd: "\<forall>i \<in> rv_bits (bm_words s'). i * B < two64"
    using bits inv al lt by (auto simp: bs_inv_def)
  have "card (rv_bits (bm_words s)) + 1 < two64"
    using bs_bits_card_lt [OF B, of "bm_words s"] inv by (simp add: bs_inv_def)
  then have size: "bm_size s' = card (rv_bits (bm_words s'))"
    using bits s' inv mem rv room(3)
    by (cases r) (auto simp: bs_inv_def add64_exact insert_absorb)
  have "rv_inv (bm_words s') \<and> elem_size (bm_words s') = 8
      \<and> rv_max (bm_words s') = rv_max (bm_words s)"
    using s' room inv set_spec [OF room(1,2)] by (auto simp: bs_inv_def ReallocVector_set_def)
  with B bnd size show "bs_inv B s'" "rv_max (bm_words s') = rv_max (bm_words s)"
    by (simp_all add: bs_inv_def)
  show "bs_set B s' = insert v (bs_set B s)"
    using bits al by (auto simp: bs_set_def)
qed

lemma BitmapSet_insert_spec:
  assumes "bs_inv B s" "v < two64" "BitmapSet_insert heap B s v = Inr (r, s')"
  shows "bs_inv B s'" "bs_set B s' = insert v (bs_set B s)" "r \<longleftrightarrow> v \<notin> bs_set B s"
    "v mod B = 0" "rv_max (bm_words s') = rv_max (bm_words s)"
  using assms insert_aligned_spec [of B s v heap r s']
  by (auto simp: BitmapSet_insert_def split: if_splits)

lemma aligned_range:
  assumes "0 < (B :: nat)" "a mod B = 0" "b mod B = 0"
  shows "{v. a \<le> v \<and> v < b \<and> v mod B = 0} = (\<lambda>i. i * B) ` {a div B..<b div B}"
proof -
  have ai: "a = a div B * B" and bi: "b = b div B * B"
    using assms div_mult_mod_eq [of a B] div_mult_mod_eq [of b B] by simp_all
  have le: "a \<le> i * B \<longleftrightarrow> a div B \<le> i" for i
    using assms(1) by (subst ai) simp
  have lt: "i * B < b \<longleftrightarrow> i < b div B" for i
    using assms(1) by (subst bi) simp
  have "v \<in> (\<lambda>i. i * B) ` {a div B..<b div B}" if "a \<le> v" "v < b" "v mod B = 0" for v
  proof (rule image_eqI)
    show v: "v = v div B * B" using that(3) by auto
    show "v div B \<in> {a div B..<b div B}" using that le [of "v div B"] lt [of "v div B"] v by simp
  qed
  then show ?thesis using le lt by auto
qed

lemma add_grown_size:
  assumes "bs_inv B s" "rv_bits ws = rv_bits (bm_words s)" "grown ws (c, w)"
    and "\<forall>i \<in> rv_bits w. i * B < two64"
  shows "add64 (bm_size s) c = card (rv_bits w)"
proof -
  have "(bm_size s + c) mod two64
      = (card (rv_bits ws) + card (rv_bits w - rv_bits ws)) mod two64"
    using assms(1,2,3) by (intro mod_add_cong) (simp_all add: grown_def bs_inv_def)
  also have "card (rv_bits ws) + card (rv_bits w - rv_bits ws) = card (rv_bits w)"
    using card_diff_chain [of "{}" "rv_bits ws" "rv_bits w"] assms(3) by (simp add: grown_def)
  finally show ?thesis
    using bs_bits_card_lt [of B w] assms(1,4) by (simp add: add64_def bs_inv_def)
qed

lemma below_limit_bit: "i < b div B \<Longrightarrow> b < two64 \<Longrightarrow> i * B < two64"
  using div_times_less_eq_dividend [of b B] mult_le_mono1 [OF less_imp_le, of i "b div B" B]
  by linarith

lemma insert_range_bits:
  assumes inv: "bs_inv B s" and lt: "b < two64" and al: "a mod B = 0" "b mod B = 0"
    and fl: "a div B < b div B"
    and ok: "BitmapSet_insert_range heap B s a b = Inr s'"
  shows "bs_inv B s' \<and> rv_bits (bm_words s') = rv_bits (bm_words s) \<union> {a div B..<b div B}
      \<and> rv_max (bm_words s') = rv_max (bm_words s)"
proof -
  let ?f = "a div B" and ?l = "b div B"
  have B: "2 \<le> B" and rinv: "rv_inv (bm_words s)" using inv by (simp_all add: bs_inv_def)
  have ab: "\<not> b < a" using fl by (meson div_le_mono less_imp_le not_less)
  obtain ws where ws: "(if (?l - 1) div 64 \<ge> rv_size (bm_words s)
      then ReallocVector_resize heap (bm_words s) (add64 ((?l - 1) div 64) 1)
      else Inr (bm_words s)) = Inr ws"
    and s0: "(case insert_run ws (?f div 64) ((?l - 1) div 64)
        (push_bit (?f mod 64) (- 1)) (drop_bit (63 - (?l - 1) mod 64) (- 1)) of
        (c, w) \<Rightarrow> Inr \<lparr>bm_words = w, bm_size = add64 (bm_size s) c\<rparr>) = (Inr s' :: BitmapSet result)"
    using ok al ab fl
    by (auto simp: BitmapSet_insert_range_def block_index_def Let_def err_simps
        simp del: One_nat_def)
  obtain c w where cw: "insert_run ws (?f div 64) ((?l - 1) div 64)
        (push_bit (?f mod 64) (- 1)) (drop_bit (63 - (?l - 1) mod 64) (- 1)) = (c, w)"
    by fastforce
  have s': "s' = \<lparr>bm_words = w, bm_size = add64 (bm_size s) c\<rparr>"
    using s0 unfolding cw by simp
  have "(?l - 1) div 64 < 288230376151711744"
    using block_word_lt [OF B lt] by (meson diff_le_self div_le_mono le_less_trans)
  note room = ensure_room [OF rinv this ws]
  have "?f \<le> ?l - 1" using fl by simp
  note run = insert_run_spec [OF room(1) this room(2) cw [symmetric]]
  have bits: "rv_bits w = rv_bits (bm_words s) \<union> {?f..<?l}"
    using run(2) room(3) fl by auto
  have bnd: "\<forall>i \<in> rv_bits w. i * B < two64"
    using bits inv below_limit_bit [OF _ lt] by (auto simp: bs_inv_def)
  show ?thesis
    using s' run(1) room inv bits bnd add_grown_size [OF inv room(3) run(1) bnd]
    by (simp add: bs_inv_def grown_def)
qed

lemma BitmapSet_insert_range_spec:
  assumes inv: "bs_inv B s" and lt: "b < two64"
    and ok: "BitmapSet_insert_range heap B s a b = Inr s'"
  shows "bs_inv B s'" "bs_set B s' = bs_set B s \<union> {v. a \<le> v \<and> v < b \<and> v mod B = 0}"
    "a mod B = 0" "b mod B = 0" "a \<le> b" "rv_max (bm_words s') = rv_max (bm_words s)"
proof -
  show al: "a mod B = 0" "b mod B = 0" and ab: "a \<le> b"
    using ok by (auto simp: BitmapSet_insert_range_def block_index_def split: if_splits)
  have B: "0 < B" using inv by (simp add: bs_inv_def)
  have "bs_inv B s' \<and> rv_bits (bm_words s') = rv_bits (bm_words s) \<union> {a div B..<b div B}
      \<and> rv_max (bm_words s') = rv_max (bm_words s)"
  proof (cases "a div B < b div B")
    case True
    show ?thesis by (rule insert_range_bits [OF inv lt al True ok])
  next
    case False
    then have "a div B = b div B" using ab div_le_mono [of a b B] by simp
    with ok al ab inv show ?thesis
      by (auto simp: BitmapSet_insert_range_def block_index_def)
  qed
  then show "bs_inv B s'" "bs_set B s' = bs_set B s \<union> {v. a \<le> v \<and> v < b \<and> v mod B = 0}"
    "rv_max (bm_words s') = rv_max (bm_words s)"
    by (simp_all add: bs_set_def aligned_range [OF B al] image_Un)
qed

lemma BitmapSet_erase_spec:
  assumes inv: "bs_inv B s" and ok: "BitmapSet_erase B s v = Inr (n, s')"
  shows "bs_inv B s'" "bs_set B s' = bs_set B s - {v}"
    "n = (if v \<in> bs_set B s then 1 else 0)" "rv_max (bm_words s') = rv_max (bm_words s)"
proof -
  let ?b = "v div B" and ?ws = "bm_words s"
  have B: "2 \<le> B" and rinv: "rv_inv ?ws" using inv by (simp_all add: bs_inv_def)
  have "bs_inv B s' \<and> bs_set B s' = bs_set B s - {v} \<and>
    n = (if v \<in> bs_set B s then 1 else 0) \<and> rv_max (bm_words s') = rv_max (bm_words s)"
  proof (cases "v \<in> bs_set B s")
    case False
    with ok B inv show ?thesis
      by (auto simp: BitmapSet_erase_def contains_spec split: if_splits)
  next
    case True
    then have mem: "?b \<in> rv_bits ?ws" and al: "v mod B = 0" using B by (simp_all add: bs_set_iff)
    have idx: "?b div 64 < rv_size ?ws" using mem by (simp add: rv_bits_def)
    let ?w = "ReallocVector_set ?ws (?b div 64)
        (ReallocVector_get ?ws (?b div 64) AND NOT (bs_mask ?b))"
    have s': "n = 1" "s' = \<lparr>bm_words = ?w, bm_size = sub64 (bm_size s) 1\<rparr>"
      using ok True B al by (auto simp: BitmapSet_erase_def contains_spec Let_def)
    have bits: "rv_bits ?w = rv_bits ?ws - {?b}"
      using rv_bits_set [OF rinv idx] span_get [OF idx]
      by (simp add: span_not_bs_mask same_bit) auto
    have "0 < card (rv_bits ?ws)" "card (rv_bits ?ws) < two64"
      using mem bs_bits_card_lt [OF B, of ?ws] inv by (auto simp: bs_inv_def card_gt_0_iff)
    then have size: "sub64 (bm_size s) 1 = card (rv_bits ?w)"
      using inv bits mem by (simp add: bs_inv_def sub64_exact)
    have "bs_set B s' = (\<lambda>i. i * B) ` rv_bits ?ws - (\<lambda>i. i * B) ` {?b}"
      unfolding bs_set_def s'(2) using bits B
      by (simp add: image_set_diff inj_on_def)
    then have "bs_set B s' = bs_set B s - {v}"
      using al by (auto simp: bs_set_def)
    then show ?thesis
      using True s' size bits inv set_spec [OF rinv idx]
      by (auto simp: bs_inv_def ReallocVector_set_def)
  qed
  then show "bs_inv B s'" "bs_set B s' = bs_set B s - {v}"
    "n = (if v \<in> bs_set B s then 1 else 0)" "rv_max (bm_words s') = rv_max (bm_words s)"
    by simp_all
qed

lemma erase_total:
  "2 \<le> B \<Longrightarrow> v mod B = 0 \<Longrightarrow> \<exists>n s'. BitmapSet_erase B s v = Inr (n, s')"
  by (simp add: BitmapSet_erase_def contains_spec Let_def)

lemma BitmapSet_clear_spec:
  assumes "bs_inv B s"
  shows "bs_inv B (BitmapSet_clear s)" "bs_set B (BitmapSet_clear s) = {}"
proof -
  have "rv_bits (ReallocVector_clear (bm_words s)) = {}"
    by (simp add: rv_bits_def ReallocVector_clear_def)
  then show "bs_inv B (BitmapSet_clear s)" "bs_set B (BitmapSet_clear s) = {}"
    using assms by (auto simp: bs_inv_def bs_set_def BitmapSet_clear_def)
      (simp add: ReallocVector_clear_def)
qed

text \<open>
  The merge loop, up to word \<open>n\<close>: the destination has gained the source's bits
  of the first \<open>n\<close> words, the source keeps only the common ones.
\<close>

definition below :: "nat \<Rightarrow> nat set" where
  "below n = {i. i div 64 < n}"

lemma below_Suc: "below (Suc n) = below n \<union> {i. i div 64 = n}"
  by (auto simp: below_def)

lemma merge_word_spec:
  assumes "rv_inv d" "rv_inv s" "n < rv_size d" "n < rv_size s"
    and "merge_word (c, d, s) n = (c', d', s')"
  shows "rv_inv d'" "rv_inv s'" "rv_size d' = rv_size d" "rv_size s' = rv_size s"
    "rv_max d' = rv_max d" "rv_max s' = rv_max s"
    "elem_size d' = elem_size d" "elem_size s' = elem_size s"
    "rv_bits d' = rv_bits d \<union> (rv_bits s \<inter> {i. i div 64 = n})"
    "rv_bits s' = rv_bits s - ({i. i div 64 = n} - rv_bits d)"
    "c' = add64 c (card (rv_bits d' - rv_bits d))"
proof -
  let ?x = "ReallocVector_get d n" and ?y = "ReallocVector_get s n"
  have d': "d' = ReallocVector_set d n (?x OR ?y)" and s': "s' = ReallocVector_set s n (?y AND ?x)"
    and c': "c' = add64 c (popcount (?y AND NOT ?x))"
    using assms(5) by (auto simp: merge_word_def Let_def)
  note sd = set_spec [OF assms(1,3), of "?x OR ?y"] and ss = set_spec [OF assms(2,4), of "?y AND ?x"]
  show "rv_inv d'" "rv_inv s'" "rv_size d' = rv_size d" "rv_size s' = rv_size s"
    "rv_max d' = rv_max d" "rv_max s' = rv_max s"
    "elem_size d' = elem_size d" "elem_size s' = elem_size s"
    using sd ss d' s' by (auto simp: ReallocVector_set_def)
  show b: "rv_bits d' = rv_bits d \<union> (rv_bits s \<inter> {i. i div 64 = n})"
    using sd d' assms(3,4) by (auto simp: rv_bits_def bit_or_iff split: if_splits)
  show "rv_bits s' = rv_bits s - ({i. i div 64 = n} - rv_bits d)"
    using ss s' assms(3,4) by (auto simp: rv_bits_def bit_and_iff split: if_splits)
  have "rv_bits d' - rv_bits d = word_span n ?y - rv_bits d"
    using b span_get [OF assms(4)] by auto
  then show "c' = add64 c (card (rv_bits d' - rv_bits d))"
    using c' by (simp add: word_span_minus_bits [OF assms(3)] card_word_span)
qed

definition merged :: "64 word ReallocVector \<Rightarrow> 64 word ReallocVector \<Rightarrow> nat
    \<Rightarrow> nat \<times> 64 word ReallocVector \<times> 64 word ReallocVector \<Rightarrow> bool" where
  "merged d s n = (\<lambda>(c, d', s'). rv_inv d' \<and> rv_inv s' \<and> rv_size d' = rv_size d
     \<and> rv_size s' = rv_size s \<and> rv_max d' = rv_max d \<and> rv_max s' = rv_max s
     \<and> elem_size d' = elem_size d \<and> elem_size s' = elem_size s
     \<and> rv_bits d' = rv_bits d \<union> (rv_bits s \<inter> below n)
     \<and> rv_bits s' = rv_bits s - (below n - rv_bits d)
     \<and> c = card (rv_bits d' - rv_bits d) mod two64)"

lemma merge_fold:
  assumes "rv_inv d" "rv_inv s" "n \<le> rv_size d" "n \<le> rv_size s"
  shows "merged d s n (foldl merge_word (0, d, s) [0..<n])"
  using assms(3,4)
proof (induction n)
  case 0
  then show ?case using assms(1,2) by (simp add: merged_def below_def)
next
  case (Suc n)
  obtain c e t where f: "foldl merge_word (0, d, s) [0..<n] = (c, e, t)" by (metis prod_cases3)
  obtain c' e' t' where g: "merge_word (c, e, t) n = (c', e', t')" by (metis prod_cases3)
  from Suc f have IH: "merged d s n (c, e, t)" by simp
  then have pre: "rv_inv e" "rv_inv t" "n < rv_size e" "n < rv_size t"
    using Suc.prems by (auto simp: merged_def)
  note st = merge_word_spec [OF pre g]
  have disj: "{i. i div 64 = n} \<inter> below n = {}" by (auto simp: below_def)
  have et: "rv_bits e = rv_bits d \<union> (rv_bits s \<inter> below n)"
    "rv_bits t = rv_bits s - (below n - rv_bits d)"
    using IH by (simp_all add: merged_def)
  have e': "rv_bits e' = rv_bits d \<union> (rv_bits s \<inter> below (Suc n))"
    unfolding st(9) et below_Suc using disj by blast
  have t': "rv_bits t' = rv_bits s - (below (Suc n) - rv_bits d)"
    unfolding st(10) et below_Suc using disj by blast
  have "c' = (card (rv_bits e - rv_bits d) + card (rv_bits e' - rv_bits e)) mod two64"
    using IH st(11) by (simp add: merged_def add64_def mod_add_left_eq)
  also have "card (rv_bits e - rv_bits d) + card (rv_bits e' - rv_bits e) = card (rv_bits e' - rv_bits d)"
    using IH st(9) by (intro card_diff_chain) (auto simp: merged_def)
  finally have c': "c' = card (rv_bits e' - rv_bits d) mod two64" .
  have "foldl merge_word (0, d, s) [0..<Suc n] = (c', e', t')" using f g by simp
  then show ?case
    using IH st(1-8) e' t' c' unfolding merged_def by simp
qed

lemma merge_room:
  assumes ri: "rv_inv v" and ws: "(if rv_size v < n then ReallocVector_resize heap v n else Inr v) = Inr ws"
  shows "rv_inv ws" "n \<le> rv_size ws" "rv_bits ws = rv_bits v" "elem_size ws = elem_size v"
proof -
  have "rv_inv ws \<and> n \<le> rv_size ws \<and> rv_bits ws = rv_bits v \<and> elem_size ws = elem_size v"
  proof (cases "rv_size v < n")
    case True
    with ws have r: "ReallocVector_resize heap v n = Inr ws" by simp
    show ?thesis using resize_spec [OF ri r] grow_bits [OF ri _ r] True by simp
  qed (use ws ri in simp)
  then show "rv_inv ws" "n \<le> rv_size ws" "rv_bits ws = rv_bits v" "elem_size ws = elem_size v"
    by simp_all
qed

lemma merge_bits:
  assumes inv: "bs_inv B d" "bs_inv B s" and ne: "\<not> BitmapSet_empty s"
    and ok: "BitmapSet_merge heap False d s = Inr (d', s')"
  shows "bs_inv B d'" "bs_inv B s'"
    "rv_bits (bm_words d') = rv_bits (bm_words d) \<union> rv_bits (bm_words s)"
    "rv_bits (bm_words s') = rv_bits (bm_words s) \<inter> rv_bits (bm_words d)"
proof -
  let ?n = "rv_size (bm_words s)" and ?D = "rv_bits (bm_words d)" and ?S = "rv_bits (bm_words s)"
  have B: "2 \<le> B" and ri: "rv_inv (bm_words d)" "rv_inv (bm_words s)"
    using inv by (simp_all add: bs_inv_def)
  obtain ws where ws: "(if rv_size (bm_words d) < ?n
      then ReallocVector_resize heap (bm_words d) ?n else Inr (bm_words d)) = Inr ws"
    and r0: "(case foldl merge_word (0, ws, bm_words s) [0..<?n] of
      (c, dst, src) \<Rightarrow> Inr (\<lparr>bm_words = dst, bm_size = add64 (bm_size d) c\<rparr>,
        \<lparr>bm_words = src, bm_size = sub64 (bm_size s) c\<rparr>)) = (Inr (d', s') :: _ result)"
    using ok ne by (auto simp: BitmapSet_merge_def Let_def err_simps)
  note w = merge_room [OF ri(1) ws]
  obtain c dst src where f: "foldl merge_word (0, ws, bm_words s) [0..<?n] = (c, dst, src)"
    by (metis prod_cases3)
  have m: "merged ws (bm_words s) ?n (c, dst, src)"
    using merge_fold [OF w(1) ri(2) w(2) order_refl] f by simp
  have all: "?S \<subseteq> below ?n" by (auto simp: rv_bits_def below_def)
  have bits: "rv_bits dst = ?D \<union> ?S" "rv_bits src = ?S \<inter> ?D"
    using m w(3) all by (auto simp: merged_def)
  have d': "d' = \<lparr>bm_words = dst, bm_size = add64 (bm_size d) c\<rparr>"
    and s': "s' = \<lparr>bm_words = src, bm_size = sub64 (bm_size s) c\<rparr>"
    using r0 f by auto
  have bnd: "\<forall>i \<in> rv_bits dst. i * B < two64" using inv bits by (auto simp: bs_inv_def)
  have cs: "card ?S < two64" using inv bs_bits_card_lt [OF B, of "bm_words s"] by (simp add: bs_inv_def)
  have "c = card ((?D \<union> ?S) - ?D) mod two64" using m bits w(3) by (simp add: merged_def)
  also have "(?D \<union> ?S) - ?D = ?S - ?D" by blast
  finally have c: "c = card (?S - ?D)"
    using cs card_mono [of ?S "?S - ?D"] by (simp add: Diff_subset)
  have "bm_size d' = card (rv_bits dst)"
    using add_grown_size [OF inv(1) w(3) _ bnd, of c] m w d' by (auto simp: grown_def merged_def)
  moreover have "bm_size s' = card (rv_bits src)"
    using s' c bits(2) inv cs card_Diff_subset_Int [of ?S ?D] card_mono [of ?S "?S \<inter> ?D"]
    by (simp add: bs_inv_def sub64_exact)
  ultimately show "bs_inv B d'" "bs_inv B s'" "rv_bits (bm_words d') = ?D \<union> ?S"
    "rv_bits (bm_words s') = ?S \<inter> ?D"
    using m inv bits bnd w d' s' by (auto simp: bs_inv_def merged_def)
qed

lemma BitmapSet_merge_spec:
  assumes inv: "bs_inv B d" "bs_inv B s" and ok: "BitmapSet_merge heap False d s = Inr (d', s')"
  shows "bs_inv B d'" "bs_inv B s'"
    "bs_set B d' = bs_set B d \<union> bs_set B s" "bs_set B s' = bs_set B s \<inter> bs_set B d"
proof -
  have B: "0 < B" using inv by (simp add: bs_inv_def)
  have "bs_inv B d' \<and> bs_inv B s' \<and> bs_set B d' = bs_set B d \<union> bs_set B s
      \<and> bs_set B s' = bs_set B s \<inter> bs_set B d"
  proof (cases "BitmapSet_empty s")
    case True
    then have "bs_set B s = {}" using inv(2) by (simp add: BitmapSet_empty_def bs_inv_def bs_set_def)
    with True ok inv show ?thesis by (auto simp: BitmapSet_merge_def)
  next
    case False
    note m = merge_bits [OF inv False ok]
    have "inj (\<lambda>i. i * B)" using B by (simp add: inj_on_def)
    then show ?thesis using m by (simp add: bs_set_def image_Un image_Int)
  qed
  then show "bs_inv B d'" "bs_inv B s'"
    "bs_set B d' = bs_set B d \<union> bs_set B s" "bs_set B s' = bs_set B s \<inter> bs_set B d" by simp_all
qed

end
