(* ===== verification/OffsetSets.thy ===== *)
theory OffsetSets
  imports BitmapSets
begin

text \<open>
  The contract that the users of offset sets rely on, as locales, and
  \<open>MaybeBitmapSet<BlockSize>\<close> (\<open>src/modules/bitmap_set.ixx\<close>), which starts as
  a \<open>std::set\<close> and turns itself into a bitmap when that is smaller.  Both
  classes are interpreted: a client that only inserts cannot tell them apart.
\<close>

section \<open>When the operations succeed\<close>

lemma insert_aligned_total:
  assumes "bs_inv B s" "v < two64" "\<And>b. heap b" "v div B div 64 < rv_max (bm_words s)"
  shows "\<exists>r s'. insert_aligned heap B s v = Inr (r, s')"
proof -
  have B: "2 \<le> B" and ri: "rv_inv (bm_words s)" using assms(1) by (simp_all add: bs_inv_def)
  have n: "add64 (v div B div 64) 1 = v div B div 64 + 1"
    using block_word_lt [OF B assms(2)] by (intro add64_exact) simp
  obtain ws where "ReallocVector_resize heap (bm_words s) (v div B div 64 + 1) = Inr ws"
    using resize_succeeds [OF ri, of "v div B div 64 + 1" heap] assms(3,4) by auto
  then show ?thesis
    using n by (auto simp: insert_aligned_def Let_def)
qed

lemma insert_range_total:
  assumes "bs_inv B s" "b < two64" "\<And>n. heap n" "a mod B = 0" "b mod B = 0" "a \<le> b"
    and "a = b \<or> (b div B - 1) div 64 < rv_max (bm_words s)"
  shows "\<exists>s'. BitmapSet_insert_range heap B s a b = Inr s'"
proof (cases "a = b")
  case False
  let ?w = "(b div B - 1) div 64"
  have B: "2 \<le> B" and ri: "rv_inv (bm_words s)" using assms(1) by (simp_all add: bs_inv_def)
  have "?w < 288230376151711744"
    using block_word_lt [OF B assms(2)] by (meson diff_le_self div_le_mono le_less_trans)
  then have n: "add64 ?w 1 = ?w + 1" by (intro add64_exact) simp
  obtain ws where "ReallocVector_resize heap (bm_words s) (?w + 1) = Inr ws"
    using resize_succeeds [OF ri, of "?w + 1" heap] assms(3,7) False by auto
  then show ?thesis
    using n assms(4-6) by (auto simp: BitmapSet_insert_range_def block_index_def Let_def
        split: prod.splits)
qed (use assms in \<open>auto simp: BitmapSet_insert_range_def block_index_def\<close>)

lemma BitmapSet_new_room:
  assumes "2 \<le> B" "m < two64" "v \<le> m"
  shows "v div B div 64 < rv_max (bm_words (BitmapSet_new B m))"
proof -
  have m: "m div B div 64 < 288230376151711744" by (rule block_word_lt [OF assms(1,2)])
  have "v div B div 64 \<le> m div B div 64" using assms(3) by (intro div_le_mono)
  with m show ?thesis
    by (simp add: BitmapSet_new_def ReallocVector_new_def ReallocVector_max_size_def add64_exact)
qed

section \<open>The contract\<close>

locale offset_set =
  fixes inv :: "'s \<Rightarrow> bool"
    and abs :: "'s \<Rightarrow> nat set"
    and insert_op :: "'s \<Rightarrow> nat \<Rightarrow> (bool \<times> 's) result"
  assumes finite_abs: "inv s \<Longrightarrow> finite (abs s)"
    and insert_inv: "inv s \<Longrightarrow> v < two64 \<Longrightarrow> insert_op s v = Inr (r, s') \<Longrightarrow> inv s'"
    and insert_abs: "inv s \<Longrightarrow> v < two64 \<Longrightarrow> insert_op s v = Inr (r, s') \<Longrightarrow>
          abs s' = insert v (abs s)"
    and insert_new: "inv s \<Longrightarrow> v < two64 \<Longrightarrow> insert_op s v = Inr (r, s') \<Longrightarrow>
          r \<longleftrightarrow> v \<notin> abs s"
begin

text \<open>A fresh insertion uses up one of the values that were still available.\<close>

lemma fresh_decreases:
  assumes "inv s" "v < two64" "insert_op s v = Inr (True, s')" "v \<in> U" "finite U"
  shows "card (U - abs s') < card (U - abs s)"
proof (rule psubset_card_mono)
  show "finite (U - abs s)" using assms(5) by simp
  have "v \<notin> abs s" using insert_new [OF assms(1-3)] by simp
  then show "U - abs s' \<subset> U - abs s"
    using insert_abs [OF assms(1-3)] assms(4) by auto
qed

lemma insert_again:
  assumes "inv s" "v < two64" "insert_op s v = Inr (r, s')" "insert_op s' v = Inr (r', s'')"
  shows "\<not> r'"
  using insert_new [OF insert_inv [OF assms(1-3)] assms(2,4)] insert_abs [OF assms(1-3)] by simp

lemma card_grows:
  assumes "inv s" "v < two64" "insert_op s v = Inr (r, s')"
  shows "card (abs s') = card (abs s) + (if r then 1 else 0)"
  using insert_abs [OF assms] insert_new [OF assms] finite_abs [OF assms(1)]
  by (auto simp: insert_absorb)

end

locale range_set = offset_set +
  fixes range_op :: "'s \<Rightarrow> nat \<Rightarrow> nat \<Rightarrow> 's result"
    and step :: nat
  assumes range_inv: "inv s \<Longrightarrow> b < two64 \<Longrightarrow> range_op s a b = Inr s' \<Longrightarrow> inv s'"
    and range_abs: "inv s \<Longrightarrow> b < two64 \<Longrightarrow> range_op s a b = Inr s' \<Longrightarrow>
          abs s' = abs s \<union> {v. a \<le> v \<and> v < b \<and> v mod step = 0}"
begin

text \<open>Two insertions of adjacent or overlapping ranges equal one insertion of their join.\<close>

lemma range_join:
  assumes "inv s" "b < two64" "d < two64" "range_op s a b = Inr s1" "range_op s1 c d = Inr s2"
    and "a \<le> c" "c \<le> b" "b \<le> d" "range_op s a d = Inr t"
  shows "abs s2 = abs t"
proof -
  have "{v. a \<le> v \<and> v < b \<and> v mod step = 0} \<union> {v. c \<le> v \<and> v < d \<and> v mod step = 0} =
      {v. a \<le> v \<and> v < d \<and> v mod step = 0}"
  proof (intro set_eqI)
    fix v
    have "(a \<le> v \<and> v < b) \<or> (c \<le> v \<and> v < d) \<longleftrightarrow> a \<le> v \<and> v < d"
      using assms(6-8) by linarith
    then show "v \<in> {v. a \<le> v \<and> v < b \<and> v mod step = 0} \<union> {v. c \<le> v \<and> v < d \<and> v mod step = 0}
        \<longleftrightarrow> v \<in> {v. a \<le> v \<and> v < d \<and> v mod step = 0}"
      by blast
  qed
  then show ?thesis
    unfolding range_abs [OF range_inv [OF assms(1,2,4)] assms(3,5)] range_abs [OF assms(1,2,4)]
      range_abs [OF assms(1,3,9)] by (simp only: Un_assoc)
qed

end

interpretation bitmap: range_set "bs_inv B" "bs_set B" "BitmapSet_insert heap B"
  "BitmapSet_insert_range heap B" B for heap B
proof (unfold_locales, goal_cases)
  case 1 show ?case by (rule finite_bs_set)
next
  case 2 then show ?case by (rule BitmapSet_insert_spec(1))
next
  case 3 then show ?case by (rule BitmapSet_insert_spec(2))
next
  case 4 then show ?case by (rule BitmapSet_insert_spec(3))
next
  case 5 then show ?case by (rule BitmapSet_insert_range_spec(1))
next
  case 6 then show ?case by (rule BitmapSet_insert_range_spec(2))
qed

section \<open>\<open>MaybeBitmapSet\<close>\<close>

datatype set_variant = StdSet "nat set" | Bitmap BitmapSet

record MaybeBitmapSet =
  maximum_offset :: nat
  mb_set :: set_variant

definition MaybeBitmapSet_new :: "nat \<Rightarrow> MaybeBitmapSet" where
  "MaybeBitmapSet_new m = \<lparr>maximum_offset = m, mb_set = StdSet {}\<rparr>"

fun insert_all_aligned :: "heap \<Rightarrow> nat \<Rightarrow> BitmapSet \<Rightarrow> nat list \<Rightarrow> BitmapSet result" where
  "insert_all_aligned heap B s [] = Inr s"
| "insert_all_aligned heap B s (v # vs) =
     ebind (insert_aligned heap B s v) (\<lambda>(_, s'). insert_all_aligned heap B s' vs)"

definition convert_to_bitmap :: "heap \<Rightarrow> nat \<Rightarrow> nat \<Rightarrow> nat set \<Rightarrow> set_variant result" where
  "convert_to_bitmap heap B m S =
     ebind (insert_all_aligned heap B (BitmapSet_new B m) (rev (sorted_list_of_set S)))
       (\<lambda>bitmap. Inr (Bitmap bitmap))"

definition maybe_convert_to_bitmap :: "heap \<Rightarrow> nat \<Rightarrow> nat \<Rightarrow> nat set \<Rightarrow> set_variant result" where
  "maybe_convert_to_bitmap heap B m S =
     (let magic_size_threshold = 5242880 div 32
      in if card S < magic_size_threshold then Inr (StdSet S)
         else let comparison_target = Max S div B div 8 div 32
              in if card S < comparison_target then Inr (StdSet S)
                 else convert_to_bitmap heap B m S)"

definition MaybeBitmapSet_insert ::
    "heap \<Rightarrow> nat \<Rightarrow> MaybeBitmapSet \<Rightarrow> nat \<Rightarrow> (bool \<times> MaybeBitmapSet) result" where
  "MaybeBitmapSet_insert heap B s value =
     (case mb_set s of
        Bitmap b \<Rightarrow> ebind (BitmapSet_insert heap B b value)
                      (\<lambda>(r, b'). Inr (r, s\<lparr>mb_set := Bitmap b'\<rparr>))
      | StdSet S \<Rightarrow>
          if value mod B \<noteq> 0 then Inl FastFail
          else if value \<in> S then Inr (False, s)
          else ebind (maybe_convert_to_bitmap heap B (maximum_offset s) (insert value S))
                 (\<lambda>v. Inr (True, s\<lparr>mb_set := v\<rparr>)))"

fun sv_set :: "nat \<Rightarrow> set_variant \<Rightarrow> nat set" where
  "sv_set B (StdSet S) = S"
| "sv_set B (Bitmap b) = bs_set B b"

fun sv_inv :: "nat \<Rightarrow> set_variant \<Rightarrow> bool" where
  "sv_inv B (StdSet S) \<longleftrightarrow> 2 \<le> B \<and> finite S \<and> (\<forall>v \<in> S. v mod B = 0 \<and> v < two64)"
| "sv_inv B (Bitmap b) \<longleftrightarrow> bs_inv B b"

definition mb_abs :: "nat \<Rightarrow> MaybeBitmapSet \<Rightarrow> nat set" where
  "mb_abs B s = sv_set B (mb_set s)"

definition mb_inv :: "nat \<Rightarrow> MaybeBitmapSet \<Rightarrow> bool" where
  "mb_inv B s \<longleftrightarrow> sv_inv B (mb_set s)"

lemma mb_new [simp]:
  "2 \<le> B \<Longrightarrow> mb_inv B (MaybeBitmapSet_new m)" "mb_abs B (MaybeBitmapSet_new m) = {}"
  by (simp_all add: mb_inv_def mb_abs_def MaybeBitmapSet_new_def)

lemma insert_all_aligned_spec:
  assumes "bs_inv B s" "\<forall>v \<in> set vs. v mod B = 0 \<and> v < two64"
    and "insert_all_aligned heap B s vs = Inr s'"
  shows "bs_inv B s' \<and> bs_set B s' = set vs \<union> bs_set B s"
  using assms
proof (induction vs arbitrary: s)
  case Nil
  then show ?case by simp
next
  case (Cons v vs)
  from Cons.prems(3) obtain r s1 where s1: "insert_aligned heap B s v = Inr (r, s1)"
    and rest: "insert_all_aligned heap B s1 vs = Inr s'"
    by (auto simp: err_simps)
  have "v mod B = 0" "v < two64" using Cons.prems(2) by simp_all
  note st = insert_aligned_spec [OF Cons.prems(1) this s1]
  show ?case using Cons.IH [OF st(1) _ rest] Cons.prems(2) st(2) by auto
qed

lemma maybe_convert_spec:
  assumes "sv_inv B (StdSet S)" "maybe_convert_to_bitmap heap B m S = Inr v"
  shows "sv_inv B v \<and> sv_set B v = S"
proof -
  have B: "2 \<le> B" and S: "finite S" "\<forall>v \<in> set (rev (sorted_list_of_set S)). v mod B = 0 \<and> v < two64"
    using assms(1) by simp_all
  consider "v = StdSet S" | b where "v = Bitmap b"
      "insert_all_aligned heap B (BitmapSet_new B m) (rev (sorted_list_of_set S)) = Inr b"
    using assms(2) by (auto simp: maybe_convert_to_bitmap_def convert_to_bitmap_def Let_def
        err_simps split: if_splits)
  then show ?thesis
    using assms(1) insert_all_aligned_spec [OF bs_inv_new(1) [OF B] S(2)] S(1) by cases auto
qed

lemma MaybeBitmapSet_insert_spec:
  assumes "mb_inv B s" "v < two64" "MaybeBitmapSet_insert heap B s v = Inr (r, s')"
  shows "mb_inv B s'" "mb_abs B s' = insert v (mb_abs B s)" "r \<longleftrightarrow> v \<notin> mb_abs B s"
    "v mod B = 0"
proof -
  have "mb_inv B s' \<and> mb_abs B s' = insert v (mb_abs B s) \<and> (r \<longleftrightarrow> v \<notin> mb_abs B s)
      \<and> v mod B = 0"
  proof (cases "mb_set s")
    case (StdSet S)
    show ?thesis
    proof (cases "v \<in> S")
      case True
      with StdSet assms show ?thesis
        by (auto simp: MaybeBitmapSet_insert_def mb_inv_def mb_abs_def split: if_splits)
    next
      case False
      then obtain w where w: "maybe_convert_to_bitmap heap B (maximum_offset s) (insert v S) = Inr w"
        and r: "r" "s' = s\<lparr>mb_set := w\<rparr>" "v mod B = 0"
        using StdSet assms(3) by (auto simp: MaybeBitmapSet_insert_def err_simps split: if_splits)
      have "sv_inv B (StdSet (insert v S))" using assms(1,2) StdSet r(3) by (simp add: mb_inv_def)
      from maybe_convert_spec [OF this w] show ?thesis
        using r StdSet False by (simp add: mb_inv_def mb_abs_def)
    qed
  next
    case (Bitmap b)
    then show ?thesis
      using assms BitmapSet_insert_spec [of B b v heap]
      by (auto simp: MaybeBitmapSet_insert_def err_simps mb_inv_def mb_abs_def)
  qed
  then show "mb_inv B s'" "mb_abs B s' = insert v (mb_abs B s)" "r \<longleftrightarrow> v \<notin> mb_abs B s"
    "v mod B = 0" by simp_all
qed

lemma finite_mb_abs: "mb_inv B s \<Longrightarrow> finite (mb_abs B s)"
  by (cases "mb_set s") (auto simp: mb_inv_def mb_abs_def)

interpretation maybe: offset_set "mb_inv B" "mb_abs B" "MaybeBitmapSet_insert heap B" for heap B
proof (unfold_locales, goal_cases)
  case 1 then show ?case by (rule finite_mb_abs)
next
  case 2 then show ?case by (rule MaybeBitmapSet_insert_spec(1))
next
  case 3 then show ?case by (rule MaybeBitmapSet_insert_spec(2))
next
  case 4 then show ?case by (rule MaybeBitmapSet_insert_spec(3))
qed

end
