(* ===== verification/AllocChanges.thy ===== *)
theory AllocChanges
  imports VolumeSetup OffsetSets
begin

text \<open>
  \<open>src/modules/filesystem_allocation_changes.cpp\<close>: the blocks that intersect a
  cluster whose allocation bit differs between two snapshots.  The code walks the
  exclusive-or of the two bitmaps a word at a time, takes each run of ones by
  adding at its lowest bit, and merges adjacent block ranges before inserting
  them.  The result shows that the walk produces exactly the blocks that
  intersect a changed cluster, and no others.
\<close>

section \<open>The lowest run of ones\<close>

definition after_run :: "64 word \<Rightarrow> 64 word" where
  "after_run changed = changed + push_bit (CountTrailingZeros changed) 1"

definition limit_bit :: "64 word \<Rightarrow> nat" where
  "limit_bit changed =
     (if after_run changed = 0 then 64 else CountTrailingZeros (after_run changed))"

lemma run_sum:
  fixes w :: "64 word"
  assumes "f < l" "l \<le> 64" "\<And>i. i < f \<Longrightarrow> \<not> bit w i" "\<And>i. f \<le> i \<Longrightarrow> i < l \<Longrightarrow> bit w i" "\<not> bit w l"
  shows "w + push_bit f 1 = (w AND NOT (mask l)) OR (if l < 64 then push_bit l 1 else 0)"
proof -
  let ?H = "w AND NOT (mask l)" and ?R = "mask l AND NOT (mask f) :: 64 word"
  have w: "w = ?H OR ?R"
    using assms by (intro bit_word_eqI) (auto simp: bit_or_iff bit_and_iff bit_not_iff bit_mask_iff not_less)
  have "?H AND ?R = 0" by (rule bit_word_eqI) (auto simp: bit_and_iff bit_not_iff bit_mask_iff)
  then have sum: "w = ?H + ?R" using w disjunctive_add_eq_or [of ?H ?R] by simp
  have "?R AND mask f = 0" by (rule bit_word_eqI) (auto simp: bit_and_iff bit_not_iff bit_mask_iff)
  moreover have "?R OR mask f = mask l"
    using assms(1) by (intro bit_word_eqI) (auto simp: bit_or_iff bit_and_iff bit_not_iff bit_mask_iff)
  ultimately have "?R + mask f = mask l" using disjunctive_add_eq_or [of ?R "mask f"] by simp
  then have "?R + (mask f + 1) = mask l + 1" by (simp add: add.assoc [symmetric])
  moreover have "push_bit f 1 = (mask f + 1 :: 64 word)" "(mask l + 1 :: 64 word) = push_bit l 1"
    by (simp_all add: mask_eq_exp_minus_1)
  ultimately have R: "?R + push_bit f 1 = push_bit l 1" by simp
  have "w + push_bit f 1 = (?H + ?R) + push_bit f 1" using sum by (rule arg_cong)
  then have total: "w + push_bit f 1 = ?H + push_bit l 1" unfolding add.assoc R .
  show ?thesis
  proof (cases "l < 64")
    case True
    have "?H AND push_bit l 1 = 0"
      using assms(5) by (intro bit_word_eqI) (auto simp: bit_and_iff bit_not_iff bit_mask_iff bit_exp_iff)
    then have "?H + push_bit l 1 = ?H OR push_bit l 1" by (rule disjunctive_add_eq_or)
    then show ?thesis using total True by simp
  next
    case False
    then have "l = 64" using assms(2) by simp
    moreover have "push_bit 64 (1 :: 64 word) = 0" by code_simp
    ultimately have "push_bit l (1 :: 64 word) = 0" by simp
    then show ?thesis using total False by simp
  qed
qed

lemma run_spec:
  fixes w :: "64 word"
  assumes "w \<noteq> 0"
  defines "f \<equiv> CountTrailingZeros w" and "l \<equiv> limit_bit w"
  shows "f < l" "l \<le> 64" "\<And>i. f \<le> i \<Longrightarrow> i < l \<Longrightarrow> bit w i" "\<And>i. i < f \<Longrightarrow> \<not> bit w i"
    "\<And>i. bit (w AND after_run w) i \<longleftrightarrow> bit w i \<and> l \<le> i"
proof -
  note f = CountTrailingZeros_least [OF assms(1), folded f_def]
  define k where "k = (LEAST i. f \<le> i \<and> \<not> bit w i)"
  have ex: "f \<le> 64 \<and> \<not> bit w 64" using f(1) by (auto dest: bit_imp_le_length)
  have k: "f \<le> k" "\<not> bit w k" "k \<le> 64"
    using LeastI [of "\<lambda>i. f \<le> i \<and> \<not> bit w i" 64] Least_le [of "\<lambda>i. f \<le> i \<and> \<not> bit w i" 64] ex
    by (simp_all add: k_def)
  have ones: "bit w i" if "f \<le> i" "i < k" for i using not_less_Least that unfolding k_def by blast
  have fk: "f < k" using k(1,2) f(2) by (metis le_neq_implies_less)
  have a: "after_run w = (w AND NOT (mask k)) OR (if k < 64 then push_bit k 1 else 0)"
    unfolding after_run_def f_def [symmetric] by (rule run_sum [OF fk k(3) f(3) ones k(2)])
  have "l = k"
  proof (cases "k < 64")
    case True
    have bits: "bit (after_run w) i \<longleftrightarrow> i = k \<or> (bit w i \<and> k < i)" for i
      unfolding a using True k(2)
      by (auto simp: bit_or_iff bit_and_iff bit_not_iff bit_mask_iff bit_exp_iff dest: bit_imp_le_length)
    have "after_run w \<noteq> 0" using bits [of k] by auto
    moreover have "CountTrailingZeros (after_run w) = k"
      by (rule CountTrailingZeros_eqI) (auto simp: bits)
    ultimately show ?thesis by (simp add: l_def limit_bit_def)
  next
    case False
    then have "k = 64" using k(3) by simp
    then have "after_run w = 0" unfolding a using False
      by (intro bit_word_eqI) (simp add: bit_and_iff bit_not_iff bit_mask_iff)
    then show ?thesis using \<open>k = 64\<close> by (simp add: l_def limit_bit_def)
  qed
  then show "f < l" "l \<le> 64" "\<And>i. f \<le> i \<Longrightarrow> i < l \<Longrightarrow> bit w i" "\<And>i. i < f \<Longrightarrow> \<not> bit w i"
    using fk k(3) ones f(3) by simp_all
  show "bit (w AND after_run w) i \<longleftrightarrow> bit w i \<and> l \<le> i" for i
    unfolding a \<open>l = k\<close> using k(2)
    by (auto simp: bit_or_iff bit_and_iff bit_not_iff bit_mask_iff bit_exp_iff dest: bit_imp_le_length)
qed

lemma popcount_after_run:
  assumes "w \<noteq> 0"
  shows "popcount (w AND after_run w) < popcount w"
proof -
  note r = run_spec [OF assms] and f = CountTrailingZeros_least [OF assms]
  have "CountTrailingZeros w \<notin> {i. bit (w AND after_run w) i}" using r(1,5) by simp
  moreover have "CountTrailingZeros w \<in> {i. bit w i}" using f(2) by simp
  moreover have "{i. bit (w AND after_run w) i} \<subseteq> {i. bit w i}" using r(5) by blast
  ultimately have "{i. bit (w AND after_run w) i} \<subset> {i. bit w i}" by blast
  then show ?thesis unfolding popcount_eq_card by (intro psubset_card_mono) simp_all
qed

section \<open>The walk\<close>

text \<open>The set of block offsets and the pending range \<open>[range_first, range_limit)\<close>.\<close>

type_synonym changes = "BitmapSet \<times> nat \<times> nat"

definition add_cluster_range ::
    "heap \<Rightarrow> nat \<Rightarrow> nat \<Rightarrow> changes \<Rightarrow> nat \<Rightarrow> nat \<Rightarrow> changes result" where
  "add_cluster_range heap B csize st first_cluster limit_cluster =
     (case st of (block_offsets, range_first, range_limit) \<Rightarrow>
        let start = mul64 first_cluster csize;
            end1 = mul64 limit_cluster csize;
            first_block = start div B;
            past_last_block = add64 ((end1 - 1) div B) 1;
            first = mul64 first_block B;
            limit = mul64 past_last_block B
        in if first > range_limit
           then ebind (BitmapSet_insert_range heap B block_offsets range_first range_limit)
                  (\<lambda>s. Inr (s, first, limit))
           else Inr (block_offsets, range_first, limit))"

function changed_runs ::
    "heap \<Rightarrow> nat \<Rightarrow> nat \<Rightarrow> nat \<Rightarrow> nat \<Rightarrow> 64 word \<Rightarrow> changes \<Rightarrow> changes result" where
  "changed_runs heap B csize count word_first_cluster changed st =
     (if changed = 0 then Inr st
      else
        let first_bit = CountTrailingZeros changed;
            first_cluster = add64 word_first_cluster first_bit
        in if first_cluster \<ge> count then Inr st
           else ebind (add_cluster_range heap B csize st first_cluster
                         (min (add64 word_first_cluster (limit_bit changed)) count))
                  (\<lambda>st'. changed_runs heap B csize count word_first_cluster
                           (changed AND after_run changed) st'))"
  by pat_completeness auto

termination by (relation "measure (\<lambda>(_, _, _, _, _, w, _). popcount w)") (auto simp: popcount_after_run)

declare changed_runs.simps [simp del]

definition mismatch_distance :: "byte list \<Rightarrow> byte list \<Rightarrow> nat" where
  "mismatch_distance a b = length (takeWhile (\<lambda>(x, y). x = y) (zip a b))"

function changed_words ::
    "heap \<Rightarrow> nat \<Rightarrow> nat \<Rightarrow> nat \<Rightarrow> nat \<Rightarrow> byte list \<Rightarrow> byte list \<Rightarrow> nat \<Rightarrow> changes \<Rightarrow> changes result" where
  "changed_words heap B csize count bitmap_size previous current byte_index st =
     (if byte_index < bitmap_size then
        let changed = LoadBitmapWord (drop byte_index previous) (bitmap_size - byte_index)
              XOR LoadBitmapWord (drop byte_index current) (bitmap_size - byte_index);
            next_byte = byte_index + min 8 (bitmap_size - byte_index)
        in if changed = 0
           then changed_words heap B csize count bitmap_size previous current
                  (next_byte + mismatch_distance (drop next_byte (take bitmap_size previous))
                                 (drop next_byte (take bitmap_size current))) st
           else ebind (changed_runs heap B csize count (mul64 byte_index 8) changed st)
                  (\<lambda>st'. changed_words heap B csize count bitmap_size previous current next_byte st')
      else Inr st)"
  by pat_completeness auto

termination by (relation "measure (\<lambda>(_, _, _, _, n, _, _, i, _). n - i)") auto

declare changed_words.simps [simp del]

text \<open>\<open>CreateFileW\<close> either fails with its last error or gives the volume's handle.\<close>

definition FromFilename ::
    "(nat \<Rightarrow> ntstatus) \<Rightarrow> (nat \<Rightarrow> bool) \<Rightarrow> nat + volume \<Rightarrow> WindowsBlockDevice result" where
  "FromFilename nt alloc opened =
     (case opened of
        Inl err \<Rightarrow> Inl (SystemError err ''failed to open block device'')
      | Inr v \<Rightarrow> WindowsBlockDevice_FromHandle True nt alloc v False False)"

record AllocationChangeBlocks =
  ac_volume_size :: nat
  ac_block_offsets :: BitmapSet

definition compare_bitmaps ::
    "heap \<Rightarrow> nat \<Rightarrow> nat \<Rightarrow> AllocationBitmap \<Rightarrow> AllocationBitmap \<Rightarrow> AllocationChangeBlocks result" where
  "compare_bitmaps heap B previous_size previous_bitmap current_bitmap =
     ebind (changed_words heap B (cluster_size previous_bitmap) (cluster_count previous_bitmap)
              (BitmapByteCount previous_bitmap) (BitmapData previous_bitmap)
              (BitmapData current_bitmap) 0
              (BitmapSet_new B (sub64 previous_size 1), 0, 0)) (\<lambda>(s, range_first, range_limit).
     ebind (BitmapSet_insert_range heap B s range_first range_limit) (\<lambda>block_offsets.
       Inr \<lparr>ac_volume_size = previous_size, ac_block_offsets = block_offsets\<rparr>))"

definition ReadAllocationChangeBlocks ::
    "heap \<Rightarrow> nat \<Rightarrow> (nat \<Rightarrow> ntstatus) \<Rightarrow> (nat \<Rightarrow> bool) \<Rightarrow> nat + volume \<Rightarrow> nat + volume \<Rightarrow>
     AllocationChangeBlocks result" where
  "ReadAllocationChangeBlocks heap B nt alloc previous_snapshot current_snapshot =
     ebind (FromFilename nt alloc previous_snapshot) (\<lambda>previous.
     ebind (FromFilename nt alloc current_snapshot) (\<lambda>current.
       if wb_length previous \<noteq> wb_length current
       then Inl (RuntimeError ''the previous and current snapshots differ in length'')
       else case (wb_bitmap previous, wb_bitmap current) of
         (Some p, Some c) \<Rightarrow>
           if cluster_size p \<noteq> cluster_size c \<or> cluster_count p \<noteq> cluster_count c
           then Inl (RuntimeError ''the snapshots differ in their allocation clusters'')
           else compare_bitmaps heap B (wb_length previous) p c
       | _ \<Rightarrow> Inl FastFail))"

section \<open>\<open>SnapshotAllocationBitmap\<close>\<close>

record SnapshotAllocationBitmap =
  sn_volume_size :: nat
  sn_bitmap :: AllocationBitmap

definition SnapshotAllocationBitmap_SynthesizeFreeClusters ::
    "SnapshotAllocationBitmap \<Rightarrow> byte list \<Rightarrow> nat \<Rightarrow> byte list option" where
  "SnapshotAllocationBitmap_SynthesizeFreeClusters s buf offset =
     (if buf = [] then Some buf else SynthesizeFreeClusters (sn_bitmap s) buf offset)"

definition LoadSnapshotAllocationBitmap ::
    "(nat \<Rightarrow> ntstatus) \<Rightarrow> (nat \<Rightarrow> bool) \<Rightarrow> nat + volume \<Rightarrow> SnapshotAllocationBitmap result" where
  "LoadSnapshotAllocationBitmap nt alloc opened =
     ebind (FromFilename nt alloc opened) (\<lambda>device.
       case wb_bitmap device of
         None \<Rightarrow> Inl FastFail
       | Some b \<Rightarrow> Inr \<lparr>sn_volume_size = wb_length device, sn_bitmap = b\<rparr>)"

section \<open>The blocks of a byte range\<close>

definition blocks_of :: "nat \<Rightarrow> nat \<Rightarrow> nat \<Rightarrow> nat set" where
  "blocks_of B p q = {v. v mod B = 0 \<and> (\<exists>x. p \<le> x \<and> x < q \<and> v \<le> x \<and> x < v + B)}"

definition aligned_between :: "nat \<Rightarrow> nat \<Rightarrow> nat \<Rightarrow> nat set" where
  "aligned_between B a b = {v. a \<le> v \<and> v < b \<and> v mod B = 0}"

lemma blocks_of_eq:
  assumes "0 < B" "p < q"
  shows "blocks_of B p q = aligned_between B (p div B * B) (((q - 1) div B + 1) * B)"
proof (intro set_eqI)
  fix v
  show "v \<in> blocks_of B p q \<longleftrightarrow> v \<in> aligned_between B (p div B * B) (((q - 1) div B + 1) * B)"
  proof (cases "v mod B = 0")
    case True
    then obtain k where v: "v = k * B" by (metis dvdE mod_0_imp_dvd mult.commute)
    have kx: "v \<le> x \<and> x < v + B \<longleftrightarrow> x div B = k" for x
      using bytes_of_clusters [OF assms(1), of k x "k + 1"] unfolding v by auto
    have "(\<exists>x. p \<le> x \<and> x < q \<and> x div B = k) \<longleftrightarrow> p div B \<le> k \<and> k \<le> (q - 1) div B"
    proof
      assume "\<exists>x. p \<le> x \<and> x < q \<and> x div B = k"
      then obtain x where x: "p \<le> x" "x < q" "x div B = k" by blast
      then have "x \<le> q - 1" by simp
      with x show "p div B \<le> k \<and> k \<le> (q - 1) div B" by (auto intro: div_le_mono)
    next
      assume "p div B \<le> k \<and> k \<le> (q - 1) div B"
      moreover have "p + (q - p) = q" "0 < q - p" using assms(2) by simp_all
      ultimately show "\<exists>x. p \<le> x \<and> x < q \<and> x div B = k"
        using clusters_of_range [OF assms(1), of "q - p" p k] by simp
    qed
    also have "\<dots> \<longleftrightarrow> p div B * B \<le> v \<and> v < ((q - 1) div B + 1) * B"
    proof -
      have "p div B * B \<le> k * B \<longleftrightarrow> p div B \<le> k" using assms(1) by (simp only: mult_le_cancel2 simp_thms)
      moreover have "k * B < ((q - 1) div B + 1) * B \<longleftrightarrow> k < (q - 1) div B + 1"
        using assms(1) by (simp only: mult_less_cancel2 simp_thms)
      ultimately show ?thesis unfolding v by auto
    qed
    finally show ?thesis using True kx unfolding blocks_of_def aligned_between_def by auto
  qed (simp add: blocks_of_def aligned_between_def)
qed

lemma aligned_join:
  assumes "a \<le> c" "c \<le> b" "b \<le> d"
  shows "aligned_between B a b \<union> aligned_between B c d = aligned_between B a d"
  using assms unfolding aligned_between_def by force

lemma aligned_le:
  fixes a b B :: nat
  assumes "a mod B = 0" "b mod B = 0" "a < b + B"
  shows "a \<le> b"
proof (rule ccontr)
  assume "\<not> a \<le> b"
  then have "B \<le> a - b" using assms(1,2) by (intro dvd_imp_le dvd_diff_nat) auto
  with assms(3) \<open>\<not> a \<le> b\<close> show False by linarith
qed

section \<open>The invariant of the walk\<close>

fun changes_inv :: "nat \<Rightarrow> nat \<Rightarrow> changes \<Rightarrow> bool" where
  "changes_inv B e (s, rf, rl) \<longleftrightarrow> bs_inv B s \<and> rf mod B = 0 \<and> rl mod B = 0 \<and> rf \<le> e \<and> e \<le> rl \<and>
     rl < e + B \<and> rl < two64"

fun cover :: "nat \<Rightarrow> changes \<Rightarrow> nat set" where
  "cover B (s, rf, rl) = bs_set B s \<union> aligned_between B rf rl"

lemma insert_range_cover:
  assumes "bs_inv B s" "b < two64" "BitmapSet_insert_range heap B s a b = Inr s'"
  shows "bs_inv B s'" "bs_set B s' = bs_set B s \<union> aligned_between B a b"
  using BitmapSet_insert_range_spec [OF assms] by (simp_all add: aligned_between_def)

lemma add_cluster_range_spec:
  assumes "changes_inv B e st" "add_cluster_range heap B cs st a b = Inr st'"
    and "e \<le> a * cs" "a < b" "0 < cs" "b * cs + B < two64" "0 < B"
  shows "changes_inv B (b * cs) st' \<and> cover B st' = cover B st \<union> blocks_of B (a * cs) (b * cs)"
proof -
  obtain s rf rl where st: "st = (s, rf, rl)" by (cases st)
  have ab: "a * cs < b * cs" using assms(4,5) by simp
  let ?f = "a * cs div B * B" and ?l = "((b * cs - 1) div B + 1) * B"
  have "(b * cs - 1) div B * B \<le> b * cs - 1" by (rule div_times_less_eq_dividend)
  moreover have "b * cs - 1 < (b * cs - 1) div B * B + B"
    using assms(7) by (metis add.commute dividend_less_times_div mult.commute)
  moreover have "?l = (b * cs - 1) div B * B + B" by (simp only: add_mult_distrib mult_1)
  ultimately have l: "b * cs \<le> ?l" "?l < b * cs + B" using ab assms(7) by linarith+
  have f: "?f \<le> a * cs" by (rule div_times_less_eq_dividend)
  have "(b * cs - 1) div B \<le> b * cs - 1" by (rule div_le_dividend)
  then have "(b * cs - 1) div B + 1 < two64" using assms(6,7) ab by linarith
  then have mul: "add64 ((b * cs - 1) div B) 1 = (b * cs - 1) div B + 1"
    "mul64 a cs = a * cs" "mul64 b cs = b * cs" "mul64 (a * cs div B) B = ?f"
    "mul64 ((b * cs - 1) div B + 1) B = ?l"
    using ab f l assms(6) by (simp_all only: add64_exact mul64_exact)
  note inv = assms(1) [unfolded st changes_inv.simps]
  have blk: "blocks_of B (a * cs) (b * cs) = aligned_between B ?f ?l" by (rule blocks_of_eq [OF assms(7) ab])
  show ?thesis
  proof (cases "?f > rl")
    case True
    then obtain s' where s': "BitmapSet_insert_range heap B s rf rl = Inr s'" "st' = (s', ?f, ?l)"
      using assms(2) unfolding st add_cluster_range_def Let_def prod.case mul by (auto simp: err_simps)
    note c = insert_range_cover [OF _ _ s'(1)]
    have "?f \<le> b * cs" "?l < two64" using f ab l assms(6) by linarith+
    then have "changes_inv B (b * cs) st'" using s'(2) c inv l by simp
    moreover have "cover B st' = cover B st \<union> blocks_of B (a * cs) (b * cs)"
      using s'(2) c inv unfolding blk st by simp
    ultimately show ?thesis ..
  next
    case False
    then have st': "st' = (s, rf, ?l)"
      using assms(2) unfolding st add_cluster_range_def Let_def prod.case mul by simp
    have "rf \<le> ?f"
    proof (rule aligned_le)
      show "rf < ?f + B" using inv assms(3,7) by (metis dividend_less_times_div le_less_trans le_trans mult.commute add.commute)
    qed (use inv in auto)
    moreover have "rl \<le> ?l"
    proof (rule aligned_le [of _ B])
      show "rl < ?l + B" using inv l(1) ab assms(3) by linarith
    qed (use inv in auto)
    ultimately have "aligned_between B rf rl \<union> aligned_between B ?f ?l = aligned_between B rf ?l"
      using False by (intro aligned_join) auto
    then have "cover B st' = cover B st \<union> blocks_of B (a * cs) (b * cs)" unfolding blk st st' by auto
    moreover have "rf \<le> b * cs" "?l < two64" using inv ab assms(3,6) l(2) by linarith+
    then have "changes_inv B (b * cs) st'" using st' inv l by simp
    ultimately show ?thesis by blast
  qed
qed

text \<open>The blocks that intersect one of a set of clusters.\<close>

definition changed_blocks :: "nat \<Rightarrow> nat \<Rightarrow> nat set \<Rightarrow> nat set" where
  "changed_blocks B cs S = {v. v mod B = 0 \<and> (\<exists>x. x div cs \<in> S \<and> v \<le> x \<and> x < v + B)}"

lemma changed_blocks_Un: "changed_blocks B cs (S \<union> T) = changed_blocks B cs S \<union> changed_blocks B cs T"
  by (auto simp: changed_blocks_def)

lemma changed_blocks_empty [simp]: "changed_blocks B cs {} = {}"
  by (simp add: changed_blocks_def)

lemma blocks_of_clusters: "0 < cs \<Longrightarrow> blocks_of B (a * cs) (b * cs) = changed_blocks B cs {a..<b}"
  unfolding blocks_of_def changed_blocks_def atLeastLessThan_iff
  using bytes_of_clusters [of cs a _ b] by blast

definition run_clusters :: "nat \<Rightarrow> nat \<Rightarrow> 64 word \<Rightarrow> nat set" where
  "run_clusters wc count w = {c. wc \<le> c \<and> c < count \<and> bit w (c - wc)}"

lemma run_clusters_step:
  assumes "w \<noteq> 0"
  shows "run_clusters wc count w =
    {wc + CountTrailingZeros w..<min (wc + limit_bit w) count} \<union> run_clusters wc count (w AND after_run w)"
proof (intro set_eqI)
  fix c
  note r = run_spec [OF assms]
  show "c \<in> run_clusters wc count w \<longleftrightarrow> c \<in>
    {wc + CountTrailingZeros w..<min (wc + limit_bit w) count} \<union> run_clusters wc count (w AND after_run w)"
  proof (cases "wc \<le> c \<and> c < count")
    case True
    then obtain i where c: "c = wc + i" by (metis le_iff_add)
    have "bit w i \<longleftrightarrow> (CountTrailingZeros w \<le> i \<and> i < limit_bit w) \<or> bit (w AND after_run w) i"
      using r(3,4,5) [of i] by (cases "i < CountTrailingZeros w"; cases "i < limit_bit w") auto
    then show ?thesis using True unfolding c run_clusters_def by auto
  qed (auto simp: run_clusters_def)
qed

lemma changed_runs_spec:
  assumes "changed_runs heap B cs count wc w st = Inr st'" "changes_inv B e st"
    and "\<And>i. bit w i \<Longrightarrow> e \<le> (wc + i) * cs" "\<And>i. bit w i \<Longrightarrow> i < n" "n \<le> 64" "wc + 64 < two64"
    and "0 < cs" "0 < B" "count * cs + B < two64"
  shows "\<exists>e'. changes_inv B e' st' \<and> (e' = e \<or> e' \<le> (wc + n) * cs) \<and>
    cover B st' = cover B st \<union> changed_blocks B cs (run_clusters wc count w)"
  using assms
proof (induction heap B cs count wc w st arbitrary: e rule: changed_runs.induct)
  case (1 heap B cs count wc w st)
  show ?case
  proof (cases "w = 0 \<or> count \<le> wc + CountTrailingZeros w")
    case True
    have "run_clusters wc count w = {}"
    proof (cases "w = 0")
      case False
      then have "i < CountTrailingZeros w \<Longrightarrow> \<not> bit w i" for i using CountTrailingZeros_least(3) by blast
      then show ?thesis using True False unfolding run_clusters_def by (auto simp: less_diff_conv2)
    qed (simp add: run_clusters_def)
    moreover have "st' = st"
    proof (cases "w = 0")
      case False
      have "add64 wc (CountTrailingZeros w) = wc + CountTrailingZeros w"
        using CountTrailingZeros_least(1) [OF False] "1.prems"(6) by (intro add64_exact) simp
      then show ?thesis using "1.prems"(1) True False by (subst (asm) changed_runs.simps) (simp add: Let_def)
    qed (use "1.prems"(1) in \<open>subst (asm) changed_runs.simps, simp\<close>)
    ultimately show ?thesis using "1.prems"(2) by auto
  next
    case False
    let ?f = "wc + CountTrailingZeros w" and ?l = "min (wc + limit_bit w) count"
    have w: "w \<noteq> 0" and fc: "?f < count" using False by auto
    note f = CountTrailingZeros_least [OF w] and r = run_spec [OF w]
    have add: "add64 wc (CountTrailingZeros w) = ?f" "add64 wc (limit_bit w) = wc + limit_bit w"
      using f(1) r(2) "1.prems"(6) by (simp_all add: add64_exact)
    obtain st1 where st1: "add_cluster_range heap B cs st ?f ?l = Inr st1"
      and rest: "changed_runs heap B cs count wc (w AND after_run w) st1 = Inr st'"
      using "1.prems"(1) w fc add by (subst (asm) changed_runs.simps) (auto simp: Let_def err_simps)
    have "?l * cs \<le> count * cs" by (intro mult_le_mono1) simp
    then have "?l * cs + B < two64" using "1.prems"(9) by linarith
    then have "changes_inv B (?l * cs) st1 \<and> cover B st1 = cover B st \<union> blocks_of B (?f * cs) (?l * cs)"
      using "1.prems"(2,3,7-9) f(2) r(1) fc by (intro add_cluster_range_spec [OF _ st1]) auto
    then have s1: "changes_inv B (?l * cs) st1"
      "cover B st1 = cover B st \<union> changed_blocks B cs {?f..<?l}"
      using blocks_of_clusters [OF "1.prems"(7)] by simp_all
    have low: "?l * cs \<le> (wc + i) * cs" if "bit (w AND after_run w) i" for i
      using that r(5) by (intro mult_le_mono1) auto
    have bnd: "i < n" if "bit (w AND after_run w) i" for i using that r(5) "1.prems"(4) by blast
    have ln: "limit_bit w \<le> n" using r(1) r(3) [of "limit_bit w - 1"] "1.prems"(4) [of "limit_bit w - 1"] by simp
    have IH: "\<exists>e'. changes_inv B e' st' \<and> (e' = ?l * cs \<or> e' \<le> (wc + n) * cs) \<and>
        cover B st' = cover B st1 \<union> changed_blocks B cs (run_clusters wc count (w AND after_run w))"
      by (rule "1.IH" [OF w refl refl _ rest s1(1) low bnd "1.prems"(5-9)]) (use fc add in \<open>simp add: not_le\<close>)
    moreover have "?l * cs \<le> (wc + n) * cs" using ln by (intro mult_le_mono1) auto
    ultimately show ?thesis
      unfolding run_clusters_step [OF w] changed_blocks_Un s1(2) by (metis Un_assoc)
  qed
qed

section \<open>The outer loop\<close>

text \<open>Which clusters from a byte of the bitmaps on have different bits.\<close>

definition changed_clusters :: "byte list \<Rightarrow> byte list \<Rightarrow> nat \<Rightarrow> nat \<Rightarrow> nat \<Rightarrow> nat set" where
  "changed_clusters p c n count i =
     {k. 8 * i \<le> k \<and> k < count \<and> k div 8 < n \<and> bit (p ! (k div 8)) (k mod 8) \<noteq> bit (c ! (k div 8)) (k mod 8)}"

lemma bit_load_at:
  assumes "n \<le> length bytes" "i \<le> n"
  shows "bit (LoadBitmapWord (drop i bytes) (n - i)) j \<longleftrightarrow>
    j < 64 \<and> i + j div 8 < n \<and> bit (bytes ! (i + j div 8)) (j mod 8)"
proof -
  have "j < 64 \<Longrightarrow> j div 8 < 8" by (simp add: div_less_iff_less_mult)
  then show ?thesis
    using assms unfolding LoadBitmapWord_def by (auto simp: bit_le_word less_diff_conv add.commute)
qed

lemma changed_word:
  fixes p c :: "byte list"
  assumes "n \<le> length p" "n \<le> length c" "i < n"
  defines "w \<equiv> LoadBitmapWord (drop i p) (n - i) XOR LoadBitmapWord (drop i c) (n - i)"
    and "nb \<equiv> i + min 8 (n - i)"
  shows "run_clusters (8 * i) count w \<union> changed_clusters p c n count nb = changed_clusters p c n count i"
    and "\<And>j. bit w j \<Longrightarrow> j < 8 * (nb - i)"
proof -
  have b: "bit w j \<longleftrightarrow> j < 64 \<and> i + j div 8 < n \<and>
      bit (p ! (i + j div 8)) (j mod 8) \<noteq> bit (c ! (i + j div 8)) (j mod 8)" for j
    unfolding w_def bit_xor_iff using bit_load_at [OF assms(1)] bit_load_at [OF assms(2)] assms(3) by auto
  have nb: "8 * nb \<le> k \<or> k < 8 * i + 64 \<or> n \<le> k div 8" "k < 8 * nb \<Longrightarrow> 8 * i \<le> k \<Longrightarrow> k - 8 * i < 64" for k
    using assms(3) unfolding nb_def by auto
  have k: "(8 * i + j) div 8 = i + j div 8" "(8 * i + j) mod 8 = j mod 8" for j by simp_all
  show "run_clusters (8 * i) count w \<union> changed_clusters p c n count nb = changed_clusters p c n count i"
  proof (intro set_eqI)
    fix k
    show "k \<in> run_clusters (8 * i) count w \<union> changed_clusters p c n count nb \<longleftrightarrow> k \<in> changed_clusters p c n count i"
    proof (cases "8 * i \<le> k")
      case True
      then obtain j where kj: "k = 8 * i + j" by (metis le_iff_add)
      have "j < 64 \<or> 8 * nb \<le> 8 * i + j" using assms(3) unfolding nb_def by auto
      then show ?thesis
        unfolding run_clusters_def changed_clusters_def kj by (auto simp: b k)
    next
      case False
      moreover have "i \<le> nb" by (simp add: nb_def)
      ultimately show ?thesis by (auto simp: run_clusters_def changed_clusters_def)
    qed
  qed
  show "j < 8 * (nb - i)" if "bit w j" for j
  proof -
    have "j < 64" "i + j div 8 < n" using that b by simp_all
    then have "j < 64" "j < 8 * (n - i)" by (simp_all add: less_diff_conv div_less_iff_less_mult [symmetric] mult.commute)
    then show ?thesis by (simp add: nb_def min_def)
  qed
qed

lemma skip_equal:
  fixes p c :: "byte list"
  assumes "n \<le> length p" "n \<le> length c" "i \<le> n"
  defines "j \<equiv> i + mismatch_distance (drop i (take n p)) (drop i (take n c))"
  shows "changed_clusters p c n count j = changed_clusters p c n count i" "i \<le> j" "j \<le> n"
proof -
  let ?z = "zip (drop i (take n p)) (drop i (take n c))"
  let ?d = "mismatch_distance (drop i (take n p)) (drop i (take n c))"
  have len: "length ?z = n - i" using assms(1,2) by simp
  have dl: "?d \<le> n - i" unfolding mismatch_distance_def using length_takeWhile_le [of _ ?z] len by metis
  show "i \<le> j" "j \<le> n" using dl assms(3) by (simp_all add: j_def)
  have eq: "p ! k = c ! k" if "i \<le> k" "k < j" for k
  proof -
    have kd: "k - i < ?d" using that by (simp add: j_def)
    then have "takeWhile (\<lambda>(x, y). x = y) ?z ! (k - i) = ?z ! (k - i)"
      unfolding mismatch_distance_def by (rule takeWhile_nth)
    moreover have "takeWhile (\<lambda>(x, y). x = y) ?z ! (k - i) \<in> set (takeWhile (\<lambda>(x, y). x = y) ?z)"
      using kd unfolding mismatch_distance_def by (rule nth_mem)
    ultimately have "case ?z ! (k - i) of (x, y) \<Rightarrow> x = y" by (metis set_takeWhileD)
    then show ?thesis using that kd dl assms(1,2) by (simp add: j_def)
  qed
  show "changed_clusters p c n count j = changed_clusters p c n count i"
  proof (intro set_eqI iffI)
    fix k assume k: "k \<in> changed_clusters p c n count i"
    then have "i \<le> k div 8" "p ! (k div 8) \<noteq> c ! (k div 8)"
      by (auto simp: changed_clusters_def less_eq_div_iff_mult_less_eq mult.commute)
    then have "j \<le> k div 8" using eq by (meson not_le)
    then have "8 * j \<le> k" by (simp add: less_eq_div_iff_mult_less_eq mult.commute)
    then show "k \<in> changed_clusters p c n count j" using k by (simp add: changed_clusters_def)
  qed (use \<open>i \<le> j\<close> in \<open>auto simp: changed_clusters_def\<close>)
qed

lemma changed_words_spec:
  assumes "changed_words heap B cs count n p c i st = Inr st'" "changes_inv B e st" "e \<le> 8 * i * cs"
    and "n \<le> length p" "n \<le> length c" "8 * n + 64 < two64" "0 < cs" "0 < B" "count * cs + B < two64"
  shows "\<exists>e'. changes_inv B e' st' \<and> cover B st' = cover B st \<union> changed_blocks B cs (changed_clusters p c n count i)"
  using assms
proof (induction heap B cs count n p c i st arbitrary: e rule: changed_words.induct)
  case (1 heap B cs count n p c i st)
  show ?case
  proof (cases "i < n")
    case False
    then have "changed_clusters p c n count i = {}" by (auto simp: changed_clusters_def)
    moreover have "st' = st" using "1.prems"(1) False by (subst (asm) changed_words.simps) simp
    ultimately show ?thesis using "1.prems"(2) by auto
  next
    case True
    let ?w = "LoadBitmapWord (drop i p) (n - i) XOR LoadBitmapWord (drop i c) (n - i)"
    let ?nb = "i + min 8 (n - i)"
    note cw = changed_word [OF "1.prems"(4,5) True]
    have nb: "i \<le> ?nb" "?nb \<le> n" "?nb - i \<le> 8" using True by auto
    have mul: "mul64 i 8 = 8 * i" using True "1.prems"(6) by (simp add: mul64_exact mult.commute)
    show ?thesis
    proof (cases "?w = 0")
      case zero: True
      let ?j = "?nb + mismatch_distance (drop ?nb (take n p)) (drop ?nb (take n c))"
      note sk = skip_equal [OF "1.prems"(4,5) nb(2)]
      have "run_clusters (8 * i) count ?w = {}" unfolding zero by (simp add: run_clusters_def)
      then have same: "changed_clusters p c n count ?j = changed_clusters p c n count i"
        using cw(1) [of count] sk(1) by simp
      have step: "changed_words heap B cs count n p c ?j st = Inr st'"
        using "1.prems"(1) True zero by (subst (asm) changed_words.simps) (simp add: Let_def)
      have "8 * i * cs \<le> 8 * ?j * cs" using nb(1) sk(2) by (intro mult_le_mono1) simp
      then have "e \<le> 8 * ?j * cs" using "1.prems"(3) by linarith
      from "1.IH"(1) [OF True refl refl zero step "1.prems"(2) this "1.prems"(4-9)] show ?thesis
        unfolding same .
    next
      case nonzero: False
      obtain st1 where st1: "changed_runs heap B cs count (8 * i) ?w st = Inr st1"
        and rest: "changed_words heap B cs count n p c ?nb st1 = Inr st'"
        using "1.prems"(1) True nonzero mul by (subst (asm) changed_words.simps) (auto simp: Let_def err_simps)
      have "e \<le> (8 * i + k) * cs" for k
        using "1.prems"(3) mult_le_mono1 [of "8 * i" "8 * i + k" cs] by linarith
      moreover have "8 * (?nb - i) \<le> 64" using nb(3) by simp
      moreover have "8 * i + 64 < two64" using True "1.prems"(6) by simp
      ultimately obtain e1 where e1: "changes_inv B e1 st1" "e1 = e \<or> e1 \<le> (8 * i + 8 * (?nb - i)) * cs"
        "cover B st1 = cover B st \<union> changed_blocks B cs (run_clusters (8 * i) count ?w)"
        using changed_runs_spec [OF st1 "1.prems"(2) _ cw(2)] "1.prems"(7-9) by blast
      have "8 * i + 8 * (?nb - i) = 8 * ?nb" using nb(1) by simp
      moreover have "8 * i * cs \<le> 8 * ?nb * cs" using nb(1) by (intro mult_le_mono1) simp
      ultimately have "e1 \<le> 8 * ?nb * cs" using e1(2) "1.prems"(3) by (elim disjE) (linarith, simp only:)
      from "1.IH"(2) [OF True refl refl nonzero rest e1(1) this "1.prems"(4-9)]
      show ?thesis unfolding e1(3) by (metis Un_assoc changed_blocks_Un cw(1))
    qed
  qed
qed

text \<open>The clusters whose allocation differs between two bitmaps of the same geometry.\<close>

definition differing_clusters :: "AllocationBitmap \<Rightarrow> AllocationBitmap \<Rightarrow> nat set" where
  "differing_clusters p c = {k. k < cluster_count p \<and> cluster_allocated p k \<noteq> cluster_allocated c k}"

lemma compare_bitmaps_spec:
  assumes "ab_inv p" "ab_inv c" "cluster_size p = cluster_size c" "cluster_count p = cluster_count c"
    and "2 \<le> B" "cluster_count p * cluster_size p + B < two64" "8 * BitmapByteCount p + 64 < two64"
    and "compare_bitmaps heap B len p c = Inr r"
  shows "ac_volume_size r = len" "bs_inv B (ac_block_offsets r)"
    "bs_set B (ac_block_offsets r) = changed_blocks B (cluster_size p) (differing_clusters p c)"
proof -
  let ?n = "BitmapByteCount p"
  obtain s rf rl out where w: "changed_words heap B (cluster_size p) (cluster_count p) ?n (BitmapData p)
      (BitmapData c) 0 (BitmapSet_new B (sub64 len 1), 0, 0) = Inr (s, rf, rl)"
    and ins: "BitmapSet_insert_range heap B s rf rl = Inr out"
    and r: "r = \<lparr>ac_volume_size = len, ac_block_offsets = out\<rparr>"
    using assms(8) unfolding compare_bitmaps_def by (auto simp: err_simps)
  have n: "?n = BitmapByteCount c" using assms(4) by (simp add: BitmapByteCount_def)
  have lens: "?n \<le> length (BitmapData p)" "?n \<le> length (BitmapData c)"
    using ab_invD(2) [OF assms(1)] ab_invD(2) [OF assms(2)] n by simp_all
  have "changes_inv B 0 (BitmapSet_new B (sub64 len 1), 0, 0)" using assms(5) by (simp add: bs_inv_new)
  then obtain e where e: "changes_inv B e (s, rf, rl)"
    "cover B (s, rf, rl) = cover B (BitmapSet_new B (sub64 len 1), 0, 0) \<union>
      changed_blocks B (cluster_size p) (changed_clusters (BitmapData p) (BitmapData c) ?n (cluster_count p) 0)"
    using changed_words_spec [OF w _ _ lens assms(7) ab_invD(1) [OF assms(1)] _ assms(6)] assms(5) by auto
  have "changed_clusters (BitmapData p) (BitmapData c) ?n (cluster_count p) 0 = differing_clusters p c"
  proof -
    have "k div 8 < ?n" if "k < cluster_count p" for k
      using that BitmapByteCount_bound [of p] by (simp add: div_less_iff_less_mult mult.commute)
    then show ?thesis
      using lens unfolding changed_clusters_def differing_clusters_def cluster_allocated_def cluster_bit_def n [symmetric]
      by auto
  qed
  moreover have "bs_set B out = cover B (s, rf, rl)" "bs_inv B out"
    using insert_range_cover [OF _ _ ins] e(1) by simp_all
  ultimately show "bs_inv B (ac_block_offsets r)"
    "bs_set B (ac_block_offsets r) = changed_blocks B (cluster_size p) (differing_clusters p c)"
    using e(2) r by (simp_all add: aligned_between_def)
  show "ac_volume_size r = len" using r by simp
qed

lemma ReadAllocationChangeBlocks_spec:
  assumes "ReadAllocationChangeBlocks heap B nt alloc (Inr v1) (Inr v2) = Inr r"
    and "volume_ok raw1 v1" "volume_ok raw2 v2" "maps_errors nt" "2 \<le> B" "B \<le> 4294967296"
  shows "\<exists>p c. LoadAllocationBitmap v1 = Inr p \<and> LoadAllocationBitmap v2 = Inr c \<and>
    cluster_size p = cluster_size c \<and> cluster_count p = cluster_count c \<and>
    bs_inv B (ac_block_offsets r) \<and>
    bs_set B (ac_block_offsets r) = changed_blocks B (cluster_size p) (differing_clusters p c)"
proof -
  obtain d1 d2 p c where d: "WindowsBlockDevice_FromHandle True nt alloc v1 False False = Inr d1"
      "WindowsBlockDevice_FromHandle True nt alloc v2 False False = Inr d2"
      "wb_bitmap d1 = Some p" "wb_bitmap d2 = Some c"
    and geo: "cluster_size p = cluster_size c" "cluster_count p = cluster_count c"
    and cmp: "compare_bitmaps heap B (wb_length d1) p c = Inr r"
    using assms(1) unfolding ReadAllocationChangeBlocks_def FromFilename_def
    by (auto simp: err_simps split: option.splits)
  have load: "LoadAllocationBitmap v1 = Inr p" "LoadAllocationBitmap v2 = Inr c"
    using FromHandle_inv(4) [OF d(1) assms(2,4) d(3)] FromHandle_inv(4) [OF d(2) assms(3,4) d(4)] .
  note p = LoadAllocationBitmap_inv [OF load(1) assms(2)] and c = LoadAllocationBitmap_inv [OF load(2) assms(3)]
  have "cluster_count p * 1 \<le> cluster_count p * cluster_size p"
    using ab_invD(1) [OF p(1)] by (intro mult_le_mono2) simp
  then have "cluster_count p < 9223372036854775808" using p(2) by linarith
  then have "8 * BitmapByteCount p + 64 < two64" unfolding BitmapByteCount_def by auto
  moreover have "cluster_count p * cluster_size p + B < two64" using p(2) assms(6) by linarith
  ultimately show ?thesis
    using compare_bitmaps_spec(2,3) [OF p(1) c(1) geo assms(5) _ _ cmp] load geo by blast
qed

end
