(* ===== verification/SviExtents.thy ===== *)
theory SviExtents
  imports AllocChanges
begin

text \<open>
  \<open>src/modules/svi_extents.ixx\<close>: the block ranges that the files under System
  Volume Information occupy, and its two clients, \<open>ReadBlockOffsets\<close> and
  \<open>AllocationBitmap::ExcludeVssStorage\<close>
  (\<open>src/modules/filesystem_allocation_changes.cpp\<close>).  The enumeration calls back
  for each range; a callback is a state transformer that may also throw, and the
  state survives an exception, as the captured object does in the source.
  The results show that the ranges cover every extent when rounding up, lie
  inside the extents when rounding down, and what the two clients make of them.
\<close>

record SviExtentsOptions =
  opt_block_size :: nat
  opt_cluster_size :: "nat option"
  opt_vss_only :: bool
  opt_round_up :: bool

abbreviation (input) vss_kBlockSize :: nat where "vss_kBlockSize \<equiv> 16384"

definition default_options :: SviExtentsOptions where
  "default_options = \<lparr>opt_block_size = vss_kBlockSize, opt_cluster_size = None,
     opt_vss_only = False, opt_round_up = True\<rparr>"

text \<open>A state and the exception that left it, if any.\<close>

type_synonym 's outcome = "'s \<times> error option"
type_synonym 's range_adder = "'s \<Rightarrow> nat \<Rightarrow> nat \<Rightarrow> 's outcome"

definition and_then :: "'s outcome \<Rightarrow> ('s \<Rightarrow> 's outcome option) \<Rightarrow> 's outcome option" where
  "and_then r f = (case r of (s, None) \<Rightarrow> f s | (s, Some e) \<Rightarrow> Some (s, Some e))"

definition and_then_opt :: "'s outcome option \<Rightarrow> ('s \<Rightarrow> 's outcome option) \<Rightarrow> 's outcome option" where
  "and_then_opt r f = Option.bind r (\<lambda>x. and_then x f)"

section \<open>One object\<close>

definition svi_range :: "SviExtentsOptions \<Rightarrow> nat \<Rightarrow> nat \<Rightarrow> nat \<Rightarrow> (nat \<times> nat) option" where
  "svi_range opts csize starting_cluster count =
     (let start = mul64 starting_cluster csize;
          end1 = add64 start (mul64 count csize);
          block_size = opt_block_size opts;
          first_block = start div block_size +
            (if \<not> opt_round_up opts \<and> start mod block_size \<noteq> 0 then 1 else 0);
          past_last_block = end1 div block_size +
            (if opt_round_up opts \<and> end1 mod block_size \<noteq> 0 then 1 else 0)
      in if first_block < past_last_block
         then Some (mul64 first_block block_size, mul64 past_last_block block_size) else None)"

definition SviAddRange ::
    "'s range_adder \<Rightarrow> SviExtentsOptions \<Rightarrow> nat \<Rightarrow> 's \<Rightarrow> nat \<Rightarrow> nat \<Rightarrow> 's outcome" where
  "SviAddRange add_range opts csize s starting_cluster count =
     (case svi_range opts csize starting_cluster count of
        None \<Rightarrow> (s, None) | Some (first, limit) \<Rightarrow> add_range s first limit)"

text \<open>
  A reply to \<open>FSCTL_GET_RETRIEVAL_POINTERS\<close>: whether the call completed and
  otherwise its error, the first virtual cluster, and the extents as pairs of
  \<open>NextVcn\<close> and \<open>Lcn\<close> (negative for a sparse extent).
\<close>

record pointers_reply =
  pr_completed :: bool
  pr_error :: nat
  pr_starting_vcn :: int
  pr_extents :: "(int \<times> int) list"

abbreviation (input) ERROR_HANDLE_EOF :: nat where "ERROR_HANDLE_EOF \<equiv> 38"

fun extent_loop ::
    "'s range_adder \<Rightarrow> SviExtentsOptions \<Rightarrow> nat \<Rightarrow> int \<Rightarrow> (int \<times> int) list \<Rightarrow> 's \<Rightarrow> 's outcome" where
  "extent_loop add_range opts csize current_vcn [] s = (s, None)"
| "extent_loop add_range opts csize current_vcn ((next_vcn, lcn) # extents) s =
     (if lcn \<ge> 0 then
        (case (FailFastCast u64 lcn, FailFastCast u64 (next_vcn - current_vcn)) of
           (Inr l, Inr n) \<Rightarrow>
             (case SviAddRange add_range opts csize s (nat l) (nat n) of
                (s', None) \<Rightarrow> extent_loop add_range opts csize next_vcn extents s'
              | r \<Rightarrow> r)
         | _ \<Rightarrow> (s, Some FastFail))
      else extent_loop add_range opts csize next_vcn extents s)"

definition last_vcn :: "int \<Rightarrow> (int \<times> int) list \<Rightarrow> int" where
  "last_vcn current_vcn extents = (if extents = [] then current_vcn else fst (last extents))"

partial_function (option) ReadExtents_loop ::
    "'s range_adder \<Rightarrow> SviExtentsOptions \<Rightarrow> nat \<Rightarrow> (int \<Rightarrow> pointers_reply) \<Rightarrow> int \<Rightarrow> 's \<Rightarrow> 's outcome option" where
  "ReadExtents_loop add_range opts csize pointers starting_vcn s =
     (let reply = pointers starting_vcn
      in if \<not> pr_completed reply \<and> pr_error reply = ERROR_HANDLE_EOF then Some (s, None)
         else if \<not> pr_completed reply \<and> pr_error reply \<noteq> ERROR_MORE_DATA
         then Some (s, Some (SystemError (pr_error reply) ''failed to retrieve System Volume Information extents''))
         else
           (case extent_loop add_range opts csize (pr_starting_vcn reply) (pr_extents reply) s of
              (s', Some e) \<Rightarrow> Some (s', Some e)
            | (s', None) \<Rightarrow>
                if pr_completed reply then Some (s', None)
                else ReadExtents_loop add_range opts csize pointers
                       (last_vcn (pr_starting_vcn reply) (pr_extents reply)) s'))"

definition ReadExtents ::
    "'s range_adder \<Rightarrow> SviExtentsOptions \<Rightarrow> nat \<Rightarrow> (int \<Rightarrow> pointers_reply) \<Rightarrow> 's \<Rightarrow> 's outcome option" where
  "ReadExtents add_range opts csize pointers s = ReadExtents_loop add_range opts csize pointers 0 s"

section \<open>The tree\<close>

text \<open>
  An object of the tree as the operating system presents it: the error of opening
  it (\<open>None\<close> for success), its retrieval pointers, its data streams, the batches
  that enumerating it as a directory returns, and the failure that ends the
  enumeration, if any.  An entry has its name, its attributes and its object.
\<close>

datatype svi_node = SviNode
  (nd_open: "nat option") (nd_pointers: "int \<Rightarrow> pointers_reply")
  (nd_streams: "nat + (wstring \<times> nat option \<times> (int \<Rightarrow> pointers_reply)) list")
  (nd_batches: "svi_entry list list") (nd_dir_error: "nat option")
and svi_entry = SviEntry (en_name: wstring) (en_directory: bool) (en_reparse: bool) (en_node: svi_node)

definition OpenObject :: "nat option \<Rightarrow> 's \<Rightarrow> 's outcome" where
  "OpenObject opened s =
     (s, map_option (\<lambda>err. SystemError err ''failed to open System Volume Information object'') opened)"

definition IsVssStorageFile :: "wstring \<Rightarrow> bool" where
  "IsVssStorageFile name =
     (let suffix1 = wide ''{3808876b-c176-4e48-b7ae-04046e6cc752}''
      in length suffix1 \<le> length name \<and> drop (length name - length suffix1) name = suffix1)"

fun stream_loop ::
    "'s range_adder \<Rightarrow> SviExtentsOptions \<Rightarrow> nat \<Rightarrow>
     (wstring \<times> nat option \<times> (int \<Rightarrow> pointers_reply)) list \<Rightarrow> 's \<Rightarrow> 's outcome option" where
  "stream_loop add_range opts csize [] s = Some (s, None)"
| "stream_loop add_range opts csize ((name, opened, pointers) # streams) s =
     (if name = wide ''::$DATA'' then stream_loop add_range opts csize streams s
      else and_then (OpenObject opened s) (\<lambda>s1.
           and_then_opt (ReadExtents add_range opts csize pointers s1) (\<lambda>s2.
             stream_loop add_range opts csize streams s2)))"

definition ReadNamedDataStreams ::
    "'s range_adder \<Rightarrow> SviExtentsOptions \<Rightarrow> nat \<Rightarrow>
     nat + (wstring \<times> nat option \<times> (int \<Rightarrow> pointers_reply)) list \<Rightarrow> 's \<Rightarrow> 's outcome option" where
  "ReadNamedDataStreams add_range opts csize streams s =
     (case streams of
        Inl hr \<Rightarrow> Some (s, Some (SystemError hr ''failed to enumerate System Volume Information streams''))
      | Inr ss \<Rightarrow> stream_loop add_range opts csize ss s)"

definition skip_entry :: "SviExtentsOptions \<Rightarrow> svi_entry \<Rightarrow> bool" where
  "skip_entry opts e \<longleftrightarrow> en_name e = wide ''.'' \<or> en_name e = wide ''..'' \<or>
     (opt_vss_only opts \<and> (en_directory e \<or> \<not> IsVssStorageFile (en_name e)))"

fun ReadObject ::
    "'s range_adder \<Rightarrow> SviExtentsOptions \<Rightarrow> nat \<Rightarrow> bool \<Rightarrow> bool \<Rightarrow> svi_node \<Rightarrow> 's \<Rightarrow> 's outcome option"
and enumerate_batches ::
    "'s range_adder \<Rightarrow> SviExtentsOptions \<Rightarrow> nat \<Rightarrow> svi_entry list list \<Rightarrow> nat option \<Rightarrow> 's \<Rightarrow> 's outcome option"
and enumerate_entries ::
    "'s range_adder \<Rightarrow> SviExtentsOptions \<Rightarrow> nat \<Rightarrow> svi_entry list \<Rightarrow> 's \<Rightarrow> 's outcome option" where
  "ReadObject add_range opts csize directory reparse (SviNode opened pointers streams batches dir_error) s =
     and_then_opt (ReadExtents add_range opts csize pointers s) (\<lambda>s1.
     and_then_opt (ReadNamedDataStreams add_range opts csize streams s1) (\<lambda>s2.
       if directory \<and> \<not> reparse
       then enumerate_batches add_range opts csize batches dir_error s2 else Some (s2, None)))"
| "enumerate_batches add_range opts csize [] dir_error s =
     Some (s, map_option (\<lambda>hr. SystemError hr ''failed to enumerate System Volume Information'') dir_error)"
| "enumerate_batches add_range opts csize (entries # batches) dir_error s =
     and_then_opt (enumerate_entries add_range opts csize entries s) (\<lambda>s1.
       enumerate_batches add_range opts csize batches dir_error s1)"
| "enumerate_entries add_range opts csize [] s = Some (s, None)"
| "enumerate_entries add_range opts csize (SviEntry name directory reparse node # entries) s =
     (if skip_entry opts (SviEntry name directory reparse node)
      then enumerate_entries add_range opts csize entries s
      else and_then (OpenObject (nd_open node) s) (\<lambda>s1.
           and_then_opt (ReadObject add_range opts csize directory reparse node s1) (\<lambda>s2.
             enumerate_entries add_range opts csize entries s2)))"

text \<open>
  \<open>root_attributes\<close>: the directory and reparse-point attributes of the root, or the
  failure of querying them.
\<close>

definition ReadTreeBlockOffsets ::
    "'s range_adder \<Rightarrow> SviExtentsOptions \<Rightarrow> nat \<Rightarrow> nat + bool \<times> bool \<Rightarrow> svi_node \<Rightarrow> 's \<Rightarrow> 's outcome option" where
  "ReadTreeBlockOffsets add_range opts csize root_attributes root s =
     and_then (OpenObject (nd_open root) s) (\<lambda>s1.
       if opt_vss_only opts
       then enumerate_batches add_range opts csize (nd_batches root) (nd_dir_error root) s1
       else (case root_attributes of
               Inl hr \<Rightarrow> Some (s1, Some (SystemError hr ''failed to query System Volume Information attributes''))
             | Inr (directory, reparse) \<Rightarrow> ReadObject add_range opts csize directory reparse root s1))"

definition EnumerateBlockRanges ::
    "volume \<Rightarrow> nat + bool \<times> bool \<Rightarrow> svi_node \<Rightarrow> 's range_adder \<Rightarrow> SviExtentsOptions \<Rightarrow> 's \<Rightarrow> 's outcome option" where
  "EnumerateBlockRanges v root_attributes root add_range opts s =
     (case opt_cluster_size opts of
        Some csize \<Rightarrow> ReadTreeBlockOffsets add_range opts csize root_attributes root s
      | None \<Rightarrow>
          (case QueryVolumeGeometry v None of
             Inl e \<Rightarrow> Some (s, Some e)
           | Inr (Inl err) \<Rightarrow> Some (s, Some (SystemError err ''failed to query the geometry for volume''))
           | Inr (Inr (_, csize)) \<Rightarrow> ReadTreeBlockOffsets add_range opts csize root_attributes root s))"

section \<open>The clients\<close>

definition insert_range_adder :: "heap \<Rightarrow> nat \<Rightarrow> BitmapSet range_adder" where
  "insert_range_adder heap B s first limit =
     (case BitmapSet_insert_range heap B s first limit of Inl e \<Rightarrow> (s, Some e) | Inr s' \<Rightarrow> (s', None))"

datatype extra_argument = NoExtra | DeviceLength nat | Populate BitmapSet

definition ReadBlockOffsets ::
    "heap \<Rightarrow> nat + volume \<Rightarrow> nat + bool \<times> bool \<Rightarrow> svi_node \<Rightarrow> extra_argument \<Rightarrow> BitmapSet result option" where
  "ReadBlockOffsets heap opened root_attributes root extra =
     (case opened of
        Inl err \<Rightarrow> Some (Inl (SystemError err ''failed to open SVI snapshot volume''))
      | Inr v \<Rightarrow>
          let length1 = (case extra of
                DeviceLength n \<Rightarrow> Inr n
              | _ \<Rightarrow> ebind (QueryDeviceLength v) (\<lambda>r. case r of
                       Inl err \<Rightarrow> Inl (SystemError err ''failed to query the length of SVI volume'')
                     | Inr n \<Rightarrow> Inr n));
              initial = (case extra of
                Populate s \<Rightarrow> Inr s
              | _ \<Rightarrow> ebind length1 (\<lambda>n. Inr (BitmapSet_new vss_kBlockSize (sub64 n 1))))
          in case initial of
               Inl e \<Rightarrow> Some (Inl e)
             | Inr s \<Rightarrow>
                 map_option (\<lambda>(s', e). case e of Some err \<Rightarrow> Inl err | None \<Rightarrow> Inr s')
                   (EnumerateBlockRanges v root_attributes root
                      (insert_range_adder heap vss_kBlockSize) default_options s))"

text \<open>
  \<open>ExcludeVssStorage\<close> reports an exception, including the failure to enable the
  backup privilege, and continues with the bitmap as it is then.
\<close>

definition mark_free_adder :: "AllocationBitmap range_adder" where
  "mark_free_adder b first limit =
     (MarkClustersFree b (drop_bit (cluster_shift b) first) (drop_bit (cluster_shift b) limit), None)"

definition ExcludeVssStorage ::
    "error option \<Rightarrow> volume \<Rightarrow> nat + bool \<times> bool \<Rightarrow> svi_node \<Rightarrow> AllocationBitmap \<Rightarrow> AllocationBitmap option" where
  "ExcludeVssStorage privilege_error v root_attributes root b =
     (case privilege_error of
        Some _ \<Rightarrow> Some b
      | None \<Rightarrow>
          map_option fst
            (EnumerateBlockRanges v root_attributes root mark_free_adder
               \<lparr>opt_block_size = cluster_size b, opt_cluster_size = Some (cluster_size b),
                opt_vss_only = True, opt_round_up = False\<rparr> b))"

section \<open>Ranges and their sinks\<close>

text \<open>
  The enumeration is generic in what receives the ranges.  Two sinks that handle each
  range alike handle a whole enumeration alike: after every success, and, if the first
  sink never fails (\<open>lenient\<close>), after every error of the enumeration too.
\<close>

definition related :: "('s \<Rightarrow> 't \<Rightarrow> bool) \<Rightarrow> bool \<Rightarrow> 's outcome \<Rightarrow> 't outcome \<Rightarrow> bool" where
  "related rel lenient x y \<longleftrightarrow> (snd x = None \<or> lenient \<longrightarrow> snd y = snd x \<and> rel (fst x) (fst y))"

definition related_opt :: "('s \<Rightarrow> 't \<Rightarrow> bool) \<Rightarrow> bool \<Rightarrow> 's outcome option \<Rightarrow> 't outcome option \<Rightarrow> bool" where
  "related_opt rel lenient x y \<longleftrightarrow> (\<forall>r. x = Some r \<and> (snd r = None \<or> lenient) \<longrightarrow> (\<exists>r'. y = Some r' \<and> related rel lenient r r'))"

locale range_sinks =
  fixes rel :: "'s \<Rightarrow> 't \<Rightarrow> bool" and add1 :: "'s range_adder" and add2 :: "'t range_adder" and lenient :: bool
  assumes add_related: "rel s t \<Longrightarrow> b < two64 \<Longrightarrow> add1 s a b = (s', None) \<Longrightarrow> \<exists>t'. add2 t a b = (t', None) \<and> rel s' t'"
    and add_lenient: "lenient \<Longrightarrow> snd (add1 s a b) = None"
begin

lemma related_Some: "related_opt rel lenient (Some x) (Some y) \<longleftrightarrow> related rel lenient x y"
  unfolding related_opt_def related_def by blast

lemma related_and_then:
  assumes "related rel lenient x y" "\<And>s t. rel s t \<Longrightarrow> related_opt rel lenient (f s) (g t)"
  shows "related_opt rel lenient (and_then x f) (and_then y g)"
  using assms by (cases x; cases y; cases "snd x") (auto simp: related_def related_opt_def and_then_def split: option.splits)

lemma related_and_then_opt:
  assumes "related_opt rel lenient x y" "\<And>s t. rel s t \<Longrightarrow> related_opt rel lenient (f s) (g t)"
  shows "related_opt rel lenient (and_then_opt x f) (and_then_opt y g)"
proof (cases x)
  case None
  then show ?thesis by (simp add: related_opt_def and_then_opt_def)
next
  case (Some r)
  show ?thesis
  proof (cases "snd r = None \<or> lenient")
    case True
    then obtain r' where "y = Some r'" "related rel lenient r r'" using assms(1) Some unfolding related_opt_def by blast
    then show ?thesis using related_and_then [OF _ assms(2)] Some by (simp add: and_then_opt_def)
  next
    case False
    then show ?thesis using Some by (cases r) (auto simp: related_opt_def and_then_opt_def and_then_def split: option.splits)
  qed
qed

lemma SviAddRange_related:
  assumes "rel s t"
  shows "related rel lenient (SviAddRange add1 opts csize s lcn n) (SviAddRange add2 opts csize t lcn n)"
proof (cases "svi_range opts csize lcn n")
  case None
  then show ?thesis using assms by (simp add: SviAddRange_def related_def)
next
  case (Some r)
  obtain a b where r: "r = (a, b)" by fastforce
  have "b < two64" using Some r by (auto simp: svi_range_def Let_def mul64_lt split: if_splits)
  then show ?thesis
    using add_related [OF assms, of b a] add_lenient [of s a b] Some r
    by (cases "add1 s a b") (auto simp: SviAddRange_def related_def)
qed

lemma extent_loop_related:
  "rel s t \<Longrightarrow> related rel lenient (extent_loop add1 opts csize vcn xs s) (extent_loop add2 opts csize vcn xs t)"
proof (induction xs arbitrary: vcn s t)
  case (Cons x xs)
  obtain nx l where x: "x = (nx, l)" by fastforce
  show ?case
  proof (cases "l \<ge> 0 \<and> (\<exists>a b. FailFastCast u64 l = Inr a \<and> FailFastCast u64 (nx - vcn) = Inr b)")
    case True
    then obtain a b where ab: "FailFastCast u64 l = Inr a" "FailFastCast u64 (nx - vcn) = Inr b" by blast
    obtain s1 e1 t1 e2 where r: "SviAddRange add1 opts csize s (nat a) (nat b) = (s1, e1)"
      "SviAddRange add2 opts csize t (nat a) (nat b) = (t1, e2)" by (metis surj_pair)
    have "related rel lenient (s1, e1) (t1, e2)" using SviAddRange_related [OF Cons(2), of opts csize "nat a" "nat b"] r by simp
    then show ?thesis using Cons(1) [of s1 t1 nx] True ab x r
      by (cases e1; cases e2) (auto simp: related_def)
  next
    case False
    then show ?thesis using Cons x by (auto simp: related_def split: sum.splits)
  qed
qed (simp add: related_def)

lemma ReadExtents_related:
  assumes "rel s t"
  shows "related_opt rel lenient (ReadExtents add1 opts csize pointers s) (ReadExtents add2 opts csize pointers t)"
proof -
  have "add = add1 \<longrightarrow> o1 = opts \<longrightarrow> c = csize \<longrightarrow> p = pointers \<longrightarrow> (\<forall>t. rel s t \<longrightarrow> snd r = None \<or> lenient \<longrightarrow>
      (\<exists>r'. ReadExtents_loop add2 opts csize pointers vcn t = Some r' \<and> related rel lenient r r'))"
    if "ReadExtents_loop add o1 c p vcn s = Some r" for add o1 c p vcn s r
  proof (rule ReadExtents_loop.raw_induct [where P = "\<lambda>add o1 c p vcn s r. add = add1 \<longrightarrow> o1 = opts \<longrightarrow> c = csize \<longrightarrow> p = pointers \<longrightarrow>
        (\<forall>t. rel s t \<longrightarrow> snd r = None \<or> lenient \<longrightarrow>
          (\<exists>r'. ReadExtents_loop add2 opts csize pointers vcn t = Some r' \<and> related rel lenient r r'))", OF _ that], goal_cases)
    case (1 f add o1 c p vcn s r)
    show ?case
    proof (intro impI allI)
      fix t
      assume eq: "add = add1" "o1 = opts" "c = csize" "p = pointers" and t: "rel s t" and ok: "snd r = None \<or> lenient"
      let ?x = "extent_loop add1 opts csize (pr_starting_vcn (pointers vcn)) (pr_extents (pointers vcn)) s"
      let ?y = "extent_loop add2 opts csize (pr_starting_vcn (pointers vcn)) (pr_extents (pointers vcn)) t"
      obtain s1 e1 t1 e2 where x: "?x = (s1, e1)" "?y = (t1, e2)" by (metis surj_pair)
      have re: "related rel lenient (s1, e1) (t1, e2)"
        using extent_loop_related [OF t, of opts csize "pr_starting_vcn (pointers vcn)" "pr_extents (pointers vcn)"] x by simp
      show "\<exists>r'. ReadExtents_loop add2 opts csize pointers vcn t = Some r' \<and> related rel lenient r r'"
      proof (cases "\<not> pr_completed (pointers vcn) \<and> pr_error (pointers vcn) \<noteq> ERROR_MORE_DATA")
        case True
        then show ?thesis using 1(2) eq t by (subst ReadExtents_loop.simps) (auto simp: Let_def related_def split: if_splits)
      next
        case False
        show ?thesis
        proof (cases "e1 = None \<and> \<not> pr_completed (pointers vcn)")
          case True
          then have "f add1 opts csize pointers (last_vcn (pr_starting_vcn (pointers vcn)) (pr_extents (pointers vcn))) s1 = Some r"
            using 1(2) False eq x by (simp add: Let_def)
          moreover have "rel s1 t1" using re True by (simp add: related_def)
          ultimately have "\<exists>r'. ReadExtents_loop add2 opts csize pointers
              (last_vcn (pr_starting_vcn (pointers vcn)) (pr_extents (pointers vcn))) t1 = Some r' \<and> related rel lenient r r'"
            using 1(1) ok by blast
          then show ?thesis using True False re x by (subst ReadExtents_loop.simps) (simp add: Let_def related_def)
        next
          case done1: False
          then have "r = (s1, e1)" using 1(2) False eq x by (auto simp: Let_def split: option.splits)
          then show ?thesis using done1 False re ok x
            by (subst ReadExtents_loop.simps) (auto simp: Let_def related_def split: option.splits)
        qed
      qed
    qed
  qed
  then show ?thesis using assms unfolding ReadExtents_def related_opt_def by blast
qed

lemma stream_loop_related:
  "rel s t \<Longrightarrow> related_opt rel lenient (stream_loop add1 opts csize xs s) (stream_loop add2 opts csize xs t)"
proof (induction xs arbitrary: s t)
  case (Cons x xs)
  obtain name opened pointers where x: "x = (name, opened, pointers)" by (metis prod_cases3)
  have "related rel lenient (OpenObject opened s) (OpenObject opened t)" using Cons(2) by (simp add: OpenObject_def related_def)
  then show ?case using Cons
    by (auto simp: x intro!: related_and_then related_and_then_opt ReadExtents_related)
qed (simp add: related_Some related_def)

lemma ReadNamedDataStreams_related:
  "rel s t \<Longrightarrow> related_opt rel lenient (ReadNamedDataStreams add1 opts csize streams s) (ReadNamedDataStreams add2 opts csize streams t)"
  by (cases streams) (simp_all add: ReadNamedDataStreams_def stream_loop_related related_Some related_def)

lemma tree_related_eq:
  "add = add1 \<Longrightarrow> rel s t \<Longrightarrow> related_opt rel lenient (ReadObject add opts csize dir reparse node s) (ReadObject add2 opts csize dir reparse node t)"
  "add = add1 \<Longrightarrow> rel s t \<Longrightarrow> related_opt rel lenient (enumerate_batches add opts csize bs err s) (enumerate_batches add2 opts csize bs err t)"
  "add = add1 \<Longrightarrow> rel s t \<Longrightarrow> related_opt rel lenient (enumerate_entries add opts csize es s) (enumerate_entries add2 opts csize es t)"
proof (induction add opts csize dir reparse node s and add opts csize bs err s and add opts csize es s
    arbitrary: t and t and t rule: ReadObject_enumerate_batches_enumerate_entries.induct)
qed (auto simp: related_Some related_def OpenObject_def
    intro!: related_and_then related_and_then_opt ReadExtents_related ReadNamedDataStreams_related)

lemmas tree_related = tree_related_eq [OF refl]

lemma EnumerateBlockRanges_related:
  assumes "rel s t"
  shows "related_opt rel lenient (EnumerateBlockRanges v attributes root1 add1 opts s) (EnumerateBlockRanges v attributes root1 add2 opts t)"
proof -
  have tree: "related_opt rel lenient (ReadTreeBlockOffsets add1 opts csize attributes root1 s) (ReadTreeBlockOffsets add2 opts csize attributes root1 t)" for csize
    unfolding ReadTreeBlockOffsets_def using assms tree_related
    by (intro related_and_then) (auto simp: OpenObject_def related_def related_Some split: sum.splits)
  show ?thesis using tree assms
    by (auto simp: EnumerateBlockRanges_def related_Some related_def split: option.splits sum.splits)
qed

end

section \<open>What the clients make of the ranges\<close>

definition collect_adder :: "(nat \<times> nat) list range_adder" where
  "collect_adder l first limit = (l @ [(first, limit)], None)"

definition range_blocks :: "nat \<Rightarrow> (nat \<times> nat) list \<Rightarrow> nat set" where
  "range_blocks B l = {v. v mod B = 0 \<and> (\<exists>(a, b) \<in> set l. a \<le> v \<and> v < b)}"

lemma range_blocks_simps [simp]:
  "range_blocks B [] = {}"
  "range_blocks B (l @ [(a, b)]) = range_blocks B l \<union> {v. a \<le> v \<and> v < b \<and> v mod B = 0}"
  by (auto simp: range_blocks_def)

interpretation inserted: range_sinks
  "\<lambda>s l. bs_inv B s \<and> bs_set B s = S \<union> range_blocks B l" "insert_range_adder heap B" collect_adder False for B S heap
proof (unfold_locales, goal_cases)
  case (1 s t b a s')
  then have "BitmapSet_insert_range heap B s a b = Inr s'" by (auto simp: insert_range_adder_def split: sum.splits)
  from BitmapSet_insert_range_spec(1,2) [OF _ 1(2) this] show ?case using 1(1) by (auto simp: collect_adder_def)
qed simp

text \<open>The clusters of a range, and the ranges that lie inside the volume.\<close>

definition range_clusters :: "AllocationBitmap \<Rightarrow> (nat \<times> nat) list \<Rightarrow> nat set" where
  "range_clusters b l = {c. \<exists>(first, limit) \<in> set l. first div cluster_size b \<le> c \<and> c < limit div cluster_size b}"

definition in_volume :: "AllocationBitmap \<Rightarrow> nat \<times> nat \<Rightarrow> bool" where
  "in_volume b r \<longleftrightarrow> fst r div cluster_size b < snd r div cluster_size b \<and> snd r div cluster_size b \<le> cluster_count b"

definition freed_exactly :: "AllocationBitmap \<Rightarrow> AllocationBitmap \<Rightarrow> (nat \<times> nat) list \<Rightarrow> bool" where
  "freed_exactly b b' l \<longleftrightarrow> cluster_size b' = cluster_size b \<and> cluster_shift b' = cluster_shift b \<and>
     cluster_count b' = cluster_count b \<and>
     (list_all (in_volume b) l \<longrightarrow> ab_inv b' \<and>
        (\<forall>c. cluster_allocated b' c \<longleftrightarrow> cluster_allocated b c \<and> c \<notin> range_clusters b l))"

interpretation freed: range_sinks "\<lambda>b' l. ab_inv b \<longrightarrow> freed_exactly b b' l" mark_free_adder collect_adder True for b
proof (unfold_locales, goal_cases)
  case (1 b' l limit first b2)
  have b2: "b2 = MarkClustersFree b' (drop_bit (cluster_shift b') first) (drop_bit (cluster_shift b') limit)"
    using 1(3) by (simp add: mark_free_adder_def)
  have "freed_exactly b b2 (l @ [(first, limit)])" if inv: "ab_inv b"
  proof -
    have f: "freed_exactly b b' l" using 1(1) inv by simp
    have size1: "cluster_size b = 2 ^ cluster_shift b" using inv by (simp add: ab_inv_def)
    have keep: "cluster_count b2 = cluster_count b'" "cluster_size b2 = cluster_size b'" "cluster_shift b2 = cluster_shift b'"
      by (simp_all add: b2 MarkClustersFree_def Let_def)
    have "ab_inv b2 \<and> (\<forall>c. cluster_allocated b2 c \<longleftrightarrow> cluster_allocated b c \<and> c \<notin> range_clusters b (l @ [(first, limit)]))"
      if l: "list_all (in_volume b) (l @ [(first, limit)])"
    proof -
      have "drop_bit (cluster_shift b') x = x div cluster_size b" for x :: nat
        using f size1 by (simp add: freed_exactly_def drop_bit_eq_div)
      moreover have "in_volume b (first, limit)" using l by simp
      ultimately show ?thesis
        using f l MarkClustersFree_spec(1,2) [of b' "first div cluster_size b" "limit div cluster_size b"]
        by (auto simp: freed_exactly_def in_volume_def b2 range_clusters_def)
    qed
    then show ?thesis using f keep by (simp add: freed_exactly_def)
  qed
  then show ?case by (simp add: collect_adder_def)
qed (simp add: mark_free_adder_def)

lemma ReadBlockOffsets_spec:
  assumes "ReadBlockOffsets heap (Inr v) attributes tree extra = Some (Inr s')"
    and "\<And>s. extra = Populate s \<Longrightarrow> bs_inv vss_kBlockSize s"
  shows "\<exists>l. EnumerateBlockRanges v attributes tree collect_adder default_options [] = Some (l, None) \<and>
    bs_inv vss_kBlockSize s' \<and>
    bs_set vss_kBlockSize s' = (case extra of Populate s \<Rightarrow> bs_set vss_kBlockSize s | _ \<Rightarrow> {}) \<union> range_blocks vss_kBlockSize l"
proof -
  let ?S = "case extra of Populate s \<Rightarrow> bs_set vss_kBlockSize s | _ \<Rightarrow> {}"
  obtain s where s: "bs_inv vss_kBlockSize s" "bs_set vss_kBlockSize s = ?S"
    and e: "EnumerateBlockRanges v attributes tree (insert_range_adder heap vss_kBlockSize) default_options s = Some (s', None)"
  proof (cases extra)
    case (Populate s)
    then show ?thesis using that [of s] assms by (auto simp: ReadBlockOffsets_def split: option.splits)
  next
    case (DeviceLength n)
    then show ?thesis using that [of "BitmapSet_new vss_kBlockSize (sub64 n 1)"] assms(1)
      by (auto simp: ReadBlockOffsets_def split: option.splits)
  next
    case NoExtra
    then obtain n where "EnumerateBlockRanges v attributes tree (insert_range_adder heap vss_kBlockSize) default_options
        (BitmapSet_new vss_kBlockSize (sub64 n 1)) = Some (s', None)"
      using assms(1) by (auto simp: ReadBlockOffsets_def Let_def ebind_def split: sum.splits option.splits)
    then show ?thesis using that [of "BitmapSet_new vss_kBlockSize (sub64 n 1)"] NoExtra by simp
  qed
  have "related_opt (\<lambda>s l. bs_inv vss_kBlockSize s \<and> bs_set vss_kBlockSize s = ?S \<union> range_blocks vss_kBlockSize l) False
      (Some (s', None)) (EnumerateBlockRanges v attributes tree collect_adder default_options [])"
    using inserted.EnumerateBlockRanges_related [of vss_kBlockSize s ?S "[]" v attributes tree heap default_options] s e by simp
  then show ?thesis by (auto simp: related_opt_def related_def)
qed

text \<open>The exclusion frees the clusters of the ranges seen before any error, and no others.\<close>

lemma ExcludeVssStorage_spec:
  assumes "ExcludeVssStorage None v attributes tree b = Some b'" "ab_inv b"
  shows "\<exists>l e. EnumerateBlockRanges v attributes tree collect_adder
      \<lparr>opt_block_size = cluster_size b, opt_cluster_size = Some (cluster_size b), opt_vss_only = True, opt_round_up = False\<rparr> [] =
      Some (l, e) \<and> freed_exactly b b' l"
proof -
  let ?opts = "\<lparr>opt_block_size = cluster_size b, opt_cluster_size = Some (cluster_size b), opt_vss_only = True, opt_round_up = False\<rparr>"
  obtain e where e: "EnumerateBlockRanges v attributes tree mark_free_adder ?opts b = Some (b', e)"
    using assms(1) by (auto simp: ExcludeVssStorage_def)
  have "freed_exactly b b []" using assms(2) by (simp add: freed_exactly_def range_clusters_def)
  then show ?thesis
    using freed.EnumerateBlockRanges_related [of b b "[]" v attributes tree ?opts] e assms(2)
    by (auto simp: related_opt_def related_def)
qed

section \<open>Extents and ranges\<close>

text \<open>
  Rounding up covers every byte of an extent with whole blocks; rounding down keeps
  the range inside the extent.
\<close>

lemma next_multiple:
  fixes e B :: nat
  assumes "0 < B"
  shows "e \<le> (e div B + (if e mod B \<noteq> 0 then 1 else 0)) * B" "(e div B + (if e mod B \<noteq> 0 then 1 else 0)) * B < e + B"
proof -
  have e: "e div B * B + e mod B = e" "e mod B < B" using assms by simp_all
  then show "e \<le> (e div B + (if e mod B \<noteq> 0 then 1 else 0)) * B" "(e div B + (if e mod B \<noteq> 0 then 1 else 0)) * B < e + B"
    using assms by (cases "e mod B = 0"; simp add: add_mult_distrib; linarith)+
qed

lemma svi_range_up:
  assumes "opt_round_up opts" "0 < opt_block_size opts" "lcn * csize + n * csize + opt_block_size opts < two64"
    and "lcn * csize \<le> x" "x < lcn * csize + n * csize"
  shows "\<exists>a b. svi_range opts csize lcn n = Some (a, b) \<and> a \<le> x \<and> x < b \<and> a mod opt_block_size opts = 0 \<and> b mod opt_block_size opts = 0"
proof -
  let ?B = "opt_block_size opts" and ?s = "lcn * csize" and ?e = "lcn * csize + n * csize"
  have w: "mul64 lcn csize = ?s" "mul64 n csize = n * csize" "add64 ?s (n * csize) = ?e"
    using assms(3) by (simp_all add: mul64_exact add64_exact)
  define p where "p = ?e div ?B + (if ?e mod ?B \<noteq> 0 then 1 else 0)"
  have up: "?e \<le> p * ?B" "p * ?B < ?e + ?B" using next_multiple [OF assms(2), of ?e] by (simp_all only: p_def)
  have down: "?s div ?B * ?B \<le> ?s" by simp
  have "?s div ?B < p"
  proof -
    have "?s div ?B * ?B < p * ?B" using down up(1) assms(4,5) by linarith
    then show ?thesis by simp
  qed
  moreover have "mul64 (?s div ?B) ?B = ?s div ?B * ?B" "mul64 p ?B = p * ?B"
    by (rule mul64_exact, use down up assms(3) in linarith)+
  ultimately have "svi_range opts csize lcn n = Some (?s div ?B * ?B, p * ?B)"
    using assms(1) by (simp add: svi_range_def Let_def w p_def)
  moreover have "?s div ?B * ?B \<le> x" "x < p * ?B" using down up(1) assms(4,5) by linarith+
  ultimately show ?thesis by simp
qed

lemma svi_range_down:
  assumes "\<not> opt_round_up opts" "0 < opt_block_size opts" "lcn * csize + n * csize + opt_block_size opts < two64"
    and "svi_range opts csize lcn n = Some (a, b)"
  shows "lcn * csize \<le> a" "a < b" "b \<le> lcn * csize + n * csize" "a mod opt_block_size opts = 0" "b mod opt_block_size opts = 0"
proof -
  let ?B = "opt_block_size opts" and ?s = "lcn * csize" and ?e = "lcn * csize + n * csize"
  have w: "mul64 lcn csize = ?s" "mul64 n csize = n * csize" "add64 ?s (n * csize) = ?e"
    using assms(3) by (simp_all add: mul64_exact add64_exact)
  define p where "p = ?s div ?B + (if ?s mod ?B \<noteq> 0 then 1 else 0)"
  have up: "?s \<le> p * ?B" "p * ?B < ?s + ?B" using next_multiple [OF assms(2), of ?s] by (simp_all only: p_def)
  have down: "?e div ?B * ?B \<le> ?e" by simp
  have m: "mul64 (?e div ?B) ?B = ?e div ?B * ?B" "mul64 p ?B = p * ?B"
    by (rule mul64_exact, use down up assms(3) in linarith)+
  have "p < ?e div ?B" "a = p * ?B" "b = ?e div ?B * ?B"
    using assms(1,4) m by (auto simp: svi_range_def Let_def w p_def split: if_splits)
  then show "?s \<le> a" "a < b" "b \<le> ?e" "a mod ?B = 0" "b mod ?B = 0" using up(1) down assms(2) by simp_all
qed

end
