(* ===== verification/Examples.thy ===== *)
theory Examples
  imports KnownData CountDiffering SyntheticDevice AllocChanges
begin

text \<open>
  Concrete values at which the properties are applied: a volume of two clusters of
  512 bytes, the first allocated and the second free, whose source byte at each
  position is the position modulo 256.
\<close>

definition ex_raw :: "nat \<Rightarrow> byte" where
  "ex_raw x = word_of_nat x"

definition ex_nt :: "nat \<Rightarrow> ntstatus" where
  "ex_nt err = (if err = 0 then 0 else - 1)"

definition ex_handle :: file_handle where
  "ex_handle = \<lparr>ReadFile = \<lambda>p n. None, GetOverlappedResult = \<lambda>p n. Inr (image_bytes ex_raw p n)\<rparr>"

definition ex_storage :: "byte list" where
  "ex_storage = replicate 16 0 @ [1, 0, 0, 0, 0, 0, 0, 0]"

definition ex_bitmap :: AllocationBitmap where
  "ex_bitmap = \<lparr>cluster_size = 512, cluster_shift = 9, cluster_count = 2, storage = ex_storage\<rparr>"

definition ex_device :: WindowsBlockDevice where
  "ex_device = \<lparr>wb_length = 1024, wb_handle = ex_handle, wb_sector_size = 512,
     wb_bitmap = Some ex_bitmap, wb_nt = ex_nt, wb_alloc = \<lambda>_. True\<rparr>"

lemma ex_handle_ok: "handle_ok ex_raw ex_handle" "maps_errors ex_nt" "handle_reads ex_handle p n"
  by (simp_all add: handle_ok_def ex_handle_def maps_errors_def ex_nt_def NT_SUCCESS_def handle_reads_def)

lemma ex_bitmap_inv: "ab_inv ex_bitmap"
  by (simp add: ab_inv_def ex_bitmap_def BitmapByteCount_def ex_storage_def)

lemma ex_device_inv: "wb_inv ex_raw ex_device"
proof -
  have "(512 :: nat) = 2 ^ 9" by simp
  then show ?thesis
    using ex_handle_ok ex_bitmap_inv unfolding wb_inv_def ex_device_def by (auto intro: exI [of _ 9])
qed

lemma ex_device_simps [simp]:
  "wb_length ex_device = 1024" "wb_sector_size ex_device = 512" "wb_bitmap ex_device = Some ex_bitmap"
  "wb_handle ex_device = ex_handle" "cluster_size ex_bitmap = 512" "cluster_count ex_bitmap = 2"
  "cluster_shift ex_bitmap = 9"
  by (simp_all add: ex_device_def ex_bitmap_def)

lemma ex_allocated: "cluster_allocated ex_bitmap 0" "\<not> cluster_allocated ex_bitmap (Suc 0)"
  by (simp_all add: cluster_allocated_def cluster_bit_def BitmapByteCount_def BitmapData_def
      ex_bitmap_def ex_storage_def)

lemma ex_content: "image_bytes (wb_content ex_raw ex_device) 510 4 = [254, 255, 0, 0]"
  by (simp add: image_bytes_def wb_content_def free_byte_def ex_allocated ex_raw_def upt_rec)

text \<open>The answers of the operating system from which that device is opened.\<close>

definition ok_call :: "'o \<Rightarrow> 'o ioctl_call" where
  "ok_call v = \<lparr>io_event = None, io_control = None, io_overlapped = None, io_output = v\<rparr>"

definition ex_volume :: volume where
  "ex_volume = \<lparr>vol_file_system = Inr (wide ''NTFS'' @ [0]), vol_length = ok_call 1024,
     vol_ntfs_data = ok_call (2, 512), vol_refs_data = ok_call (2, 512), vol_retrieval_base = ok_call 0,
     vol_bitmap = \<lambda>n. ok_call \<lparr>br_returned = 24, br_starting_lcn = 0, br_bitmap_size = 2,
        br_storage = take n (ex_storage @ replicate n 0)\<rparr>,
     vol_bytes_per_sector = ok_call 512, vol_alignment = Inr 0, vol_extended_dasd = ok_call (),
     vol_flags = Inr 0x80000, vol_file = ex_handle\<rparr>"

lemma ex_volume_ok: "volume_ok ex_raw ex_volume"
proof -
  have "(512 :: nat) = 2 ^ 9" by simp
  then show ?thesis
    using ex_handle_ok unfolding volume_ok_def ex_volume_def ok_call_def geometry_ok_def
    by (auto intro: exI [of _ 9])
qed

text \<open>The operations on which properties of successful calls are applied do succeed.\<close>

lemma ex_resize:
  "ReallocVector_resize (\<lambda>_. True) (ReallocVector_new 1 (two64 - 1)) 1 =
     Inr \<lparr>elem_size = 1, rv_max = 18446744073709551615, rv_size = 1, rv_reservation = 10,
          rv_storage = replicate 10 0\<rparr>"
  by (simp add: ReallocVector_resize_def resize_allocation_def new_reservation_size_def
      ReallocVector_new_def ReallocVector_max_size_def realloc_zeroed_def mul64_def)

lemma ex_known_data: "\<exists>out. MakeKnownDataMap (\<lambda>_. True) Arm64 ex_bitmap 1024 512 = Inr out"
  by (simp add: MakeKnownDataMap_def MakeKnownDataMap_generic_def ex_resize [simplified])

lemma ex_insert_range:
  "\<exists>s. BitmapSet_insert_range (\<lambda>_. True) 16384 (BitmapSet_new 16384 65536) 16384 49152 = Inr s"
  by (simp add: BitmapSet_insert_range_def BitmapSet_new_def block_index_def ReallocVector_resize_def
      resize_allocation_def new_reservation_size_def ReallocVector_new_def ReallocVector_max_size_def
      realloc_zeroed_def mul64_def add64_def split: prod.splits)

lemma ex_reduce: "\<exists>out. ReduceBitmap (\<lambda>_. True) c 4096 4194304 [1, 0] 1 = Inr out"
  by (simp add: ReduceBitmap_def ex_resize [simplified] ebind_def)

lemma ex_open: "\<exists>d. WindowsBlockDevice_FromHandle True ex_nt (\<lambda>_. True) ex_volume False False = Inr d"
  by (simp add: WindowsBlockDevice_FromHandle_def ex_volume_def QueryDeviceLength_def ok_call_def Ioctl_def
      check_read_only_def LoadAllocationBitmap_def QueryVolumeFileSystem_def QueryVolumeGeometry_def wide_def
      ebind_def QueryVolumeGeometry_from_def RequestVolumeBitmap_def FailFastMaybeCast_def TryCast_def
      u32_def u64_def add64_def i64_def cast_needs_check_def FailFastCast_def)

text \<open>Two images of eight bytes that differ in the second of two blocks of four.\<close>

definition ex_baseline :: MemoryBlockDevice where
  "ex_baseline = \<lparr>mem_length = 8, mem_contents = [1, 2, 3, 4, 5, 6, 7, 8]\<rparr>"

definition ex_payload :: MemoryBlockDevice where
  "ex_payload = \<lparr>mem_length = 8, mem_contents = [1, 2, 3, 4, 9, 9, 9, 9]\<rparr>"

definition ex_synthetic :: SyntheticBackupBlockDevice where
  "ex_synthetic = \<lparr>sy_length = 8, sy_baseline = memory.as_device ex_baseline,
     sy_payload = memory.as_device ex_payload, sy_bitmap = [2]\<rparr>"

definition ex_picky_handle :: file_handle where
  "ex_picky_handle = \<lparr>ReadFile = \<lambda>p n. if p mod 512 = 0 \<and> n mod 512 = 0 then None else Some 87,
     GetOverlappedResult = GetOverlappedResult ex_handle\<rparr>"

lemma ex_device_completes:
  "WindowsBlockDevice_Read ex_device 510 4 = Some (STATUS_SUCCESS, image_bytes (wb_content ex_raw ex_device) 510 4)"
  using Read_completes [OF ex_device_inv, of 4 510] ex_handle_ok
  by (simp add: aligned_start_def aligned_end_def div_up_def)

text \<open>A later snapshot of the same volume in which the first cluster was freed.\<close>

definition ex_bitmap2 :: AllocationBitmap where
  "ex_bitmap2 = ex_bitmap\<lparr>storage := replicate 24 0\<rparr>"

definition ex_volume2 :: volume where
  "ex_volume2 = ex_volume\<lparr>vol_bitmap := \<lambda>n. ok_call \<lparr>br_returned = 24, br_starting_lcn = 0, br_bitmap_size = 2,
        br_storage = replicate n 0\<rparr>\<rparr>"

lemma ex_volume2_ok: "volume_ok ex_raw ex_volume2"
  using ex_volume_ok by (simp add: volume_ok_def ex_volume2_def ok_call_def)

lemma CountTrailingZeros_one: "CountTrailingZeros 1 = 0" "CountTrailingZeros 512 = 9"
  using CountTrailingZeros_power [of 0] CountTrailingZeros_power [of 9] by simp_all

lemmas open_simps = WindowsBlockDevice_FromHandle_def QueryDeviceLength_def ok_call_def Ioctl_def
  check_read_only_def LoadAllocationBitmap_def QueryVolumeFileSystem_def QueryVolumeGeometry_def wide_def
  QueryVolumeGeometry_from_def RequestVolumeBitmap_def FailFastMaybeCast_def TryCast_def
  u32_def u64_def add64_def i64_def cast_needs_check_def FailFastCast_def

lemma ex_load: "LoadAllocationBitmap ex_volume = Inr ex_bitmap" "LoadAllocationBitmap ex_volume2 = Inr ex_bitmap2"
  by (simp_all add: open_simps ex_volume2_def ex_volume_def ex_bitmap2_def ex_bitmap_def ex_storage_def ebind_def
      CountTrailingZeros_one)

lemma ex_open_eq:
  "FromFilename ex_nt (\<lambda>_. True) (Inr ex_volume) = Inr ex_device"
  "FromFilename ex_nt (\<lambda>_. True) (Inr ex_volume2) = Inr (ex_device\<lparr>wb_bitmap := Some ex_bitmap2\<rparr>)"
  using ex_load by (simp_all add: FromFilename_def WindowsBlockDevice_FromHandle_def QueryDeviceLength_def Ioctl_def
      check_read_only_def TryCast_def FailFastCast_def u64_def ex_volume2_def ex_volume_def ok_call_def ebind_def ex_device_def)

lemma ex_runs:
  "changed_runs (\<lambda>_. True) 16384 512 2 0 1 (BitmapSet_new 16384 1023, 0, 0) =
     Inr (BitmapSet_new 16384 1023, 0, 16384)"
proof -
  have "after_run 1 = 2" "limit_bit 1 = 1"
    using CountTrailingZeros_power [of 1] by (simp_all add: after_run_def limit_bit_def CountTrailingZeros_one)
  moreover have "changed_runs (\<lambda>_. True) 16384 512 2 0 0 st = Inr st" for st
    by (subst changed_runs.simps) simp
  ultimately show ?thesis
    by (subst changed_runs.simps)
      (simp add: CountTrailingZeros_one add64_def mul64_def add_cluster_range_def Let_def)
qed

lemma ex_words:
  "changed_words (\<lambda>_. True) 16384 512 2 1 (1 # bs) (0 # bs) 0 (BitmapSet_new 16384 1023, 0, 0) =
     Inr (BitmapSet_new 16384 1023, 0, 16384)"
proof -
  have "changed_words (\<lambda>_. True) 16384 512 2 1 (1 # bs) (0 # bs) 1 st = Inr st" for st
    by (subst changed_words.simps) simp
  then show ?thesis by (subst changed_words.simps) (simp add: LoadBitmapWord_def mul64_def ex_runs)
qed

lemma ex_data:
  "BitmapData ex_bitmap = [1, 0, 0, 0, 0, 0, 0, 0]" "BitmapData ex_bitmap2 = [0, 0, 0, 0, 0, 0, 0, 0]"
  "BitmapByteCount ex_bitmap = 1" "cluster_size ex_bitmap2 = 512" "cluster_count ex_bitmap2 = 2"
proof -
  have "replicate 8 (0 :: byte) = [0, 0, 0, 0, 0, 0, 0, 0]" by (simp add: numeral_eq_Suc)
  then show "BitmapData ex_bitmap2 = [0, 0, 0, 0, 0, 0, 0, 0]" by (simp add: BitmapData_def ex_bitmap2_def)
qed (simp_all add: BitmapData_def BitmapByteCount_def ex_bitmap2_def ex_bitmap_def ex_storage_def)

lemma ex_compare: "\<exists>r. compare_bitmaps (\<lambda>_. True) 16384 1024 ex_bitmap ex_bitmap2 = Inr r"
proof -
  have "\<exists>s. BitmapSet_insert_range (\<lambda>_. True) 16384 (BitmapSet_new 16384 1023) 0 16384 = Inr s"
    by (simp add: BitmapSet_insert_range_def BitmapSet_new_def block_index_def ReallocVector_resize_def
      resize_allocation_def new_reservation_size_def ReallocVector_new_def ReallocVector_max_size_def
      realloc_zeroed_def mul64_def add64_def split: prod.splits)
  then show ?thesis
    using ex_words [of "[0, 0, 0, 0, 0, 0, 0]"] ex_data
    by (auto simp: compare_bitmaps_def sub64_def)
qed

lemma ex_allocation_changes:
  "\<exists>r. ReadAllocationChangeBlocks (\<lambda>_. True) 16384 ex_nt (\<lambda>_. True) (Inr ex_volume) (Inr ex_volume2) = Inr r"
  using ex_compare by (simp add: ReadAllocationChangeBlocks_def ex_open_eq) (simp add: ex_bitmap2_def)

lemma ex_differing: "differing_clusters ex_bitmap ex_bitmap2 = {0}"
proof -
  have "\<not> cluster_allocated ex_bitmap2 k" if "k < 2" for k
    using that by (auto simp: cluster_allocated_def cluster_bit_def BitmapByteCount_def BitmapData_def
        ex_bitmap2_def ex_bitmap_def less_2_cases_iff)
  moreover have "k < 2 \<Longrightarrow> cluster_allocated ex_bitmap k \<longleftrightarrow> k = 0" for k
    using ex_allocated by (auto simp: less_2_cases_iff)
  ultimately show ?thesis by (auto simp: differing_clusters_def)
qed

end
