(* ===== verification/VerifierState.thy ===== *)
theory VerifierState
  imports Prelude "HOL-Library.List_Lexorder" "HOL-Library.Product_Lexorder"
begin

text \<open>
  The data of the filesystem verifier and its shared \<open>VerificationState\<close>
  (\<open>src/modules/supervisor/native_backup/filesystem_verifier_impl.cpp\<close>, lines
  94 to 691).  Every method of the class takes its lock (or updates one atomic
  counter), so each is one atomic step on the record \<open>VerificationState\<close>.

  Counters of elements held in a container are natural numbers; byte counters
  are 64-bit and wrap or saturate as in the source.  A point of the steady clock
  is a natural number, and an exception is a value of the type \<open>error\<close>.

  The main result is the invariant \<open>vs_inv\<close>: the three counts that decide the
  verdict always equal the numbers of recorded mismatches, exclusions and
  matched errors.  \<open>recorder\<close> is the interface the planning and comparison
  code uses: what holds of its operations holds of every run of that code.
\<close>

section \<open>Data\<close>

datatype VerificationEndpoint = Synthetic | Real

datatype VerificationPhase =
    AttachingSynthetic | AttachingReal | Traversing | Planning | Comparing | Detaching | Complete

datatype ObjectKind = File | Directory | FileReparsePoint | DirectoryReparsePoint

datatype MismatchKind =
    ObjectMissingFromSynthetic | ObjectMissingFromReal | ObjectType
  | StreamMissingFromSynthetic | StreamMissingFromReal | StreamLength | StreamContents

datatype FilesystemOperation =
    QueryDirectory | OpenObjectOp | QueryStreams | OpenStreamOp | SeekStream | ReadStream

text \<open>Enumerators compare by their position.\<close>

fun op_rank :: "FilesystemOperation \<Rightarrow> nat" where
  "op_rank QueryDirectory = 0"
| "op_rank OpenObjectOp = 1"
| "op_rank QueryStreams = 2"
| "op_rank OpenStreamOp = 3"
| "op_rank SeekStream = 4"
| "op_rank ReadStream = 5"

lemma op_rank_inject [simp]: "op_rank a = op_rank b \<longleftrightarrow> a = b"
  by (cases a; cases b) simp_all

instantiation FilesystemOperation :: linorder
begin

definition less_eq_FilesystemOperation :: "FilesystemOperation \<Rightarrow> FilesystemOperation \<Rightarrow> bool" where
  "less_eq_FilesystemOperation a b \<longleftrightarrow> op_rank a \<le> op_rank b"

definition less_FilesystemOperation :: "FilesystemOperation \<Rightarrow> FilesystemOperation \<Rightarrow> bool" where
  "less_FilesystemOperation a b \<longleftrightarrow> op_rank a < op_rank b"

instance
  by standard (auto simp: less_eq_FilesystemOperation_def less_FilesystemOperation_def)

end

definition IsVssExcludedPath :: "wstring \<Rightarrow> bool" where
  "IsVssExcludedPath path \<longleftrightarrow> path = wide ''System Volume Information'' \<or>
     take 26 path = wide ''System Volume Information'' @ [92]"

record StreamRecord =
  sr_name :: wstring
  sr_length :: int

record ObjectRecord =
  ob_path :: wstring
  ob_kind :: ObjectKind
  ob_identity :: nat
  ob_streams :: "StreamRecord list"
  ob_streams_complete :: bool

record OperationFailure =
  of_error :: nat
  of_transferred :: nat

definition failure_of :: "nat \<Rightarrow> OperationFailure" where
  "failure_of err = \<lparr>of_error = err, of_transferred = 0\<rparr>"

record OperationIssueKey =
  ik_path :: wstring
  ik_stream :: wstring
  ik_operation :: FilesystemOperation
  ik_offset :: int

record OperationComparison =
  oc_key :: OperationIssueKey
  oc_requested :: nat
  oc_synthetic :: "OperationFailure option"
  oc_real :: "OperationFailure option"

record InventoryIssue =
  is_key :: OperationIssueKey
  is_failure :: OperationFailure

text \<open>The member-wise order of \<open>InventoryIssue\<close> (\<open>operator<=>\<close>), as a sort key.\<close>

definition issue_order ::
    "InventoryIssue \<Rightarrow> wstring \<times> wstring \<times> FilesystemOperation \<times> int \<times> nat \<times> nat" where
  "issue_order i = (ik_path (is_key i), ik_stream (is_key i), ik_operation (is_key i), ik_offset (is_key i),
     of_error (is_failure i), of_transferred (is_failure i))"

definition FailuresMatch :: "OperationFailure option \<Rightarrow> OperationFailure option \<Rightarrow> bool" where
  "FailuresMatch synthetic real =
     (case (synthetic, real) of (Some s, Some r) \<Rightarrow> s = r | _ \<Rightarrow> False)"

definition IsMatchedError :: "OperationComparison \<Rightarrow> bool" where
  "IsMatchedError c = FailuresMatch (oc_synthetic c) (oc_real c)"

definition IsOperationMismatch :: "OperationComparison \<Rightarrow> bool" where
  "IsOperationMismatch c \<longleftrightarrow> \<not> IsVssExcludedPath (ik_path (oc_key c)) \<and> \<not> IsMatchedError c"

definition IsContentOperationMismatch :: "OperationComparison \<Rightarrow> bool" where
  "IsContentOperationMismatch c \<longleftrightarrow> IsOperationMismatch c \<and>
     (ik_operation (oc_key c) = OpenStreamOp \<or> ik_operation (oc_key c) = SeekStream \<or>
      ik_operation (oc_key c) = ReadStream)"

definition IsVssExcludedDifference :: "OperationComparison \<Rightarrow> bool" where
  "IsVssExcludedDifference c \<longleftrightarrow> \<not> IsMatchedError c \<and> IsVssExcludedPath (ik_path (oc_key c))"

record FilesystemInventory =
  fi_root :: wstring
  fi_objects :: "ObjectRecord list"
  fi_issues :: "InventoryIssue list"
  fi_incomplete_directories :: "wstring list"

record ReadTask =
  rt_synthetic_object :: nat
  rt_real_object :: nat
  rt_synthetic_stream :: nat
  rt_real_stream :: nat
  rt_offset :: int
  rt_length :: nat

record ComparisonPlan =
  cp_available_bytes :: nat
  cp_selected_bytes :: nat
  cp_tasks :: "ReadTask list"

record MismatchDetail =
  md_kind :: MismatchKind
  md_path :: wstring
  md_stream :: wstring
  md_synthetic_kind :: ObjectKind
  md_real_kind :: ObjectKind
  md_synthetic_length :: int
  md_real_length :: int
  md_first_offset :: int
  md_synthetic_byte :: byte
  md_real_byte :: byte
  md_differing_bytes :: nat
  md_differing_chunks :: nat

text \<open>A \<open>MismatchDetail\<close> with the default member initializers.\<close>

definition mismatch :: "MismatchKind \<Rightarrow> wstring \<Rightarrow> wstring \<Rightarrow> MismatchDetail" where
  "mismatch kind path stream = \<lparr>md_kind = kind, md_path = path, md_stream = stream,
     md_synthetic_kind = File, md_real_kind = File, md_synthetic_length = 0, md_real_length = 0,
     md_first_offset = 0, md_synthetic_byte = 0, md_real_byte = 0, md_differing_bytes = 0,
     md_differing_chunks = 0\<rparr>"

record InventoryObservation =
  io_tasks_discovered :: nat
  io_tasks_completed :: nat
  io_directories :: nat
  io_objects :: nat
  io_streams :: nat
  io_stream_bytes :: nat
  io_failures :: nat

definition InventoryObservation_zero :: InventoryObservation where
  "InventoryObservation_zero = \<lparr>io_tasks_discovered = 0, io_tasks_completed = 0, io_directories = 0,
     io_objects = 0, io_streams = 0, io_stream_bytes = 0, io_failures = 0\<rparr>"

definition SaturatingSum :: "nat \<Rightarrow> nat \<Rightarrow> nat" where
  "SaturatingSum left right = (if right > (two64 - 1) - left then two64 - 1 else left + right)"

definition SaturationPrefix :: "nat \<Rightarrow> string" where
  "SaturationPrefix value = (if value = two64 - 1 then ''at least '' else [])"

record VerificationObservation =
  vo_plan_ready :: bool
  vo_comparison_complete :: bool
  vo_layout_entry_estimate :: "nat option"
  vo_traversal_started :: "nat option"
  vo_comparison_started :: "nat option"
  vo_mismatch_count :: nat
  vo_exclusion_count :: nat
  vo_matched_error_count :: nat
  vo_failure :: "error option"
  vo_cleanup_failures :: "string list"
  vo_phase :: VerificationPhase
  vo_synthetic :: InventoryObservation
  vo_real :: InventoryObservation
  vo_available_bytes :: nat
  vo_selected_bytes :: nat
  vo_compared_bytes :: nat
  vo_traversal_complete :: bool

text \<open>
  The flag \<open>failed\<close> and the exception \<open>failure\<close> are set together under the lock,
  so they are one option.
\<close>

record VerificationState =
  vs_observation :: VerificationObservation
  vs_mismatches :: "MismatchDetail list"
  vs_content_mismatches :: "wstring \<times> wstring \<rightharpoonup> nat"
  vs_operation_comparisons :: "OperationComparison set"
  vs_operation_comparison_records :: "OperationComparison list"

definition VerificationState_new :: VerificationState where
  "VerificationState_new = \<lparr>vs_observation = \<lparr>vo_plan_ready = False, vo_comparison_complete = False,
       vo_layout_entry_estimate = None, vo_traversal_started = None, vo_comparison_started = None,
       vo_mismatch_count = 0, vo_exclusion_count = 0, vo_matched_error_count = 0, vo_failure = None,
       vo_cleanup_failures = [], vo_phase = AttachingSynthetic, vo_synthetic = InventoryObservation_zero,
       vo_real = InventoryObservation_zero, vo_available_bytes = 0, vo_selected_bytes = 0,
       vo_compared_bytes = 0, vo_traversal_complete = False\<rparr>,
     vs_mismatches = [], vs_content_mismatches = Map.empty, vs_operation_comparisons = {},
     vs_operation_comparison_records = []\<rparr>"

section \<open>Operations\<close>

definition update_observation ::
    "(VerificationObservation \<Rightarrow> VerificationObservation) \<Rightarrow> VerificationState \<Rightarrow> VerificationState" where
  "update_observation f s = s\<lparr>vs_observation := f (vs_observation s)\<rparr>"

definition SetPhase :: "VerificationPhase \<Rightarrow> VerificationState \<Rightarrow> VerificationState" where
  "SetPhase phase = update_observation (\<lambda>o1. o1\<lparr>vo_phase := phase\<rparr>)"

definition BeginTraversal :: "nat \<Rightarrow> VerificationState \<Rightarrow> VerificationState" where
  "BeginTraversal now s =
     SetPhase Traversing (update_observation (\<lambda>o1. o1\<lparr>vo_traversal_started := Some now\<rparr>) s)"

text \<open>\<open>Inventory(endpoint)\<close> is a reference; the model updates through it.\<close>

definition update_inventory ::
    "VerificationEndpoint \<Rightarrow> (InventoryObservation \<Rightarrow> InventoryObservation) \<Rightarrow>
     VerificationState \<Rightarrow> VerificationState" where
  "update_inventory endpoint f = update_observation (\<lambda>o1. case endpoint of
       Synthetic \<Rightarrow> o1\<lparr>vo_synthetic := f (vo_synthetic o1)\<rparr>
     | Real \<Rightarrow> o1\<lparr>vo_real := f (vo_real o1)\<rparr>)"

definition RecordTraversalTasks :: "VerificationEndpoint \<Rightarrow> nat \<Rightarrow> VerificationState \<Rightarrow> VerificationState" where
  "RecordTraversalTasks endpoint count = update_inventory endpoint
     (\<lambda>i. i\<lparr>io_tasks_discovered := add64 (io_tasks_discovered i) count\<rparr>)"

text \<open>The compare-and-exchange loop of \<open>AddSaturating\<close> is one atomic update.\<close>

definition AddSaturating :: "nat \<Rightarrow> nat \<Rightarrow> nat" where
  "AddSaturating current addend =
     (if addend = 0 then current
      else if current = two64 - 1 then current else SaturatingSum current addend)"

definition RecordInventory ::
    "VerificationEndpoint \<Rightarrow> nat \<Rightarrow> nat \<Rightarrow> VerificationState \<Rightarrow> VerificationState" where
  "RecordInventory endpoint stream_count stream_bytes = update_inventory endpoint
     (\<lambda>i. i\<lparr>io_objects := add64 (io_objects i) 1,
            io_streams := add64 (io_streams i) stream_count,
            io_stream_bytes := AddSaturating (io_stream_bytes i) stream_bytes\<rparr>)"

definition RecordTraversalTaskCompleted :: "VerificationEndpoint \<Rightarrow> VerificationState \<Rightarrow> VerificationState" where
  "RecordTraversalTaskCompleted endpoint = update_inventory endpoint
     (\<lambda>i. i\<lparr>io_tasks_completed := add64 (io_tasks_completed i) 1\<rparr>)"

definition RecordDirectory :: "VerificationEndpoint \<Rightarrow> VerificationState \<Rightarrow> VerificationState" where
  "RecordDirectory endpoint = update_inventory endpoint
     (\<lambda>i. i\<lparr>io_directories := add64 (io_directories i) 1\<rparr>)"

definition RecordInventoryFailure :: "VerificationEndpoint \<Rightarrow> VerificationState \<Rightarrow> VerificationState" where
  "RecordInventoryFailure endpoint = update_inventory endpoint
     (\<lambda>i. i\<lparr>io_failures := add64 (io_failures i) 1\<rparr>)"

definition CompleteTraversal :: "VerificationState \<Rightarrow> VerificationState" where
  "CompleteTraversal = update_observation (\<lambda>o1. o1\<lparr>vo_traversal_complete := True\<rparr>)"

definition SetTraversalEstimate :: "nat \<Rightarrow> VerificationState \<Rightarrow> VerificationState" where
  "SetTraversalEstimate estimate = update_observation (\<lambda>o1. o1\<lparr>vo_layout_entry_estimate := Some estimate\<rparr>)"

definition SetPlan :: "ComparisonPlan \<Rightarrow> VerificationState \<Rightarrow> VerificationState" where
  "SetPlan plan = update_observation (\<lambda>o1. o1\<lparr>vo_available_bytes := cp_available_bytes plan,
     vo_selected_bytes := cp_selected_bytes plan, vo_plan_ready := True\<rparr>)"

definition RecordCompared :: "nat \<Rightarrow> VerificationState \<Rightarrow> VerificationState" where
  "RecordCompared bytes = update_observation
     (\<lambda>o1. o1\<lparr>vo_compared_bytes := add64 (vo_compared_bytes o1) bytes\<rparr>)"

definition CompleteComparison :: "VerificationState \<Rightarrow> VerificationState" where
  "CompleteComparison = update_observation (\<lambda>o1. o1\<lparr>vo_comparison_complete := True\<rparr>)"

definition BeginComparison :: "nat \<Rightarrow> VerificationState \<Rightarrow> VerificationState" where
  "BeginComparison now s =
     SetPhase Comparing (update_observation (\<lambda>o1. o1\<lparr>vo_comparison_started := Some now\<rparr>) s)"

definition Failed :: "VerificationState \<Rightarrow> bool" where
  "Failed s \<longleftrightarrow> vo_failure (vs_observation s) \<noteq> None"

definition Fail :: "error \<Rightarrow> VerificationState \<Rightarrow> VerificationState" where
  "Fail failure s =
     (if Failed s then s else update_observation (\<lambda>o1. o1\<lparr>vo_failure := Some failure\<rparr>) s)"

definition AppendMismatch :: "MismatchDetail \<Rightarrow> VerificationState \<Rightarrow> nat \<times> VerificationState" where
  "AppendMismatch m s =
     (length (vs_mismatches s),
      update_observation (\<lambda>o1. if IsVssExcludedPath (md_path m)
          then o1\<lparr>vo_exclusion_count := vo_exclusion_count o1 + 1\<rparr>
          else o1\<lparr>vo_mismatch_count := vo_mismatch_count o1 + 1\<rparr>)
        (s\<lparr>vs_mismatches := vs_mismatches s @ [m]\<rparr>))"

definition RecordMismatch :: "MismatchDetail \<Rightarrow> VerificationState \<Rightarrow> VerificationState" where
  "RecordMismatch m s = snd (AppendMismatch m s)"

definition RecordOperationComparison ::
    "OperationIssueKey \<Rightarrow> nat \<Rightarrow> OperationFailure option \<Rightarrow> OperationFailure option \<Rightarrow>
     VerificationState \<Rightarrow> VerificationState" where
  "RecordOperationComparison key requested synthetic real1 s =
     (let comparison = \<lparr>oc_key = key, oc_requested = requested, oc_synthetic = synthetic, oc_real = real1\<rparr>
      in if comparison \<in> vs_operation_comparisons s then s
         else update_observation (\<lambda>o1.
             if IsMatchedError comparison
             then o1\<lparr>vo_matched_error_count := vo_matched_error_count o1 + 1\<rparr>
             else if IsVssExcludedDifference comparison
             then o1\<lparr>vo_exclusion_count := vo_exclusion_count o1 + 1\<rparr>
             else o1\<lparr>vo_mismatch_count := vo_mismatch_count o1 + 1\<rparr>)
           (s\<lparr>vs_operation_comparisons := insert comparison (vs_operation_comparisons s),
              vs_operation_comparison_records := vs_operation_comparison_records s @ [comparison]\<rparr>))"

text \<open>The update of the stream's mismatch record, new or found.\<close>

definition accumulate_content :: "int \<Rightarrow> byte \<Rightarrow> byte \<Rightarrow> nat \<Rightarrow> MismatchDetail \<Rightarrow> MismatchDetail" where
  "accumulate_content first_offset synthetic_byte real_byte differing_bytes m =
     (let m1 = if first_offset < md_first_offset m
               then m\<lparr>md_first_offset := first_offset, md_synthetic_byte := synthetic_byte,
                      md_real_byte := real_byte\<rparr>
               else m
      in m1\<lparr>md_differing_bytes := add64 (md_differing_bytes m1) differing_bytes,
            md_differing_chunks := add64 (md_differing_chunks m1) 1\<rparr>)"

definition RecordContentMismatch ::
    "wstring \<Rightarrow> wstring \<Rightarrow> int \<Rightarrow> byte \<Rightarrow> byte \<Rightarrow> nat \<Rightarrow> VerificationState \<Rightarrow> VerificationState" where
  "RecordContentMismatch path stream first_offset synthetic_byte real_byte differing_bytes s =
     (let (index, s1) =
        (case vs_content_mismatches s (path, stream) of
           Some i \<Rightarrow> (i, s)
         | None \<Rightarrow>
             let (i, s0) = AppendMismatch ((mismatch StreamContents path stream)
                   \<lparr>md_first_offset := first_offset, md_synthetic_byte := synthetic_byte,
                    md_real_byte := real_byte\<rparr>) s
             in (i, s0\<lparr>vs_content_mismatches := (vs_content_mismatches s0)((path, stream) \<mapsto> i)\<rparr>))
      in s1\<lparr>vs_mismatches := (vs_mismatches s1)[index :=
           accumulate_content first_offset synthetic_byte real_byte differing_bytes (vs_mismatches s1 ! index)]\<rparr>)"

definition RecordCleanupFailure :: "string \<Rightarrow> VerificationState \<Rightarrow> VerificationState" where
  "RecordCleanupFailure failure = update_observation
     (\<lambda>o1. o1\<lparr>vo_cleanup_failures := vo_cleanup_failures o1 @ [failure]\<rparr>)"

text \<open>The records after the cursor and the advanced cursor.\<close>

definition NewMismatches :: "VerificationState \<Rightarrow> nat \<Rightarrow> MismatchDetail list \<times> nat" where
  "NewMismatches s cursor = (drop cursor (vs_mismatches s), length (vs_mismatches s))"

definition NewOperationComparisons :: "VerificationState \<Rightarrow> nat \<Rightarrow> OperationComparison list \<times> nat" where
  "NewOperationComparisons s cursor =
     (drop cursor (vs_operation_comparison_records s), length (vs_operation_comparison_records s))"

section \<open>The invariant of the counts\<close>

definition count_if :: "('a \<Rightarrow> bool) \<Rightarrow> 'a list \<Rightarrow> nat" where
  "count_if P xs = length (filter P xs)"

lemma count_if_simps [simp]:
  "count_if P [] = 0" "count_if P (xs @ ys) = count_if P xs + count_if P ys"
  "count_if P [x] = (if P x then 1 else 0)"
  by (simp_all add: count_if_def)

lemma count_if_update:
  assumes "i < length xs" "P y = P (xs ! i)"
  shows "count_if P (xs[i := y]) = count_if P xs"
proof -
  have "count_if P (take i xs @ z # drop (Suc i) xs) =
      count_if P (take i xs) + (if P z then 1 else 0) + count_if P (drop (Suc i) xs)" for z
    by (simp add: count_if_def)
  then show ?thesis using assms by (metis id_take_nth_drop upd_conv_take_nth_drop)
qed

lemma count_if_eq_0: "count_if P xs = 0 \<longleftrightarrow> (\<forall>x \<in> set xs. \<not> P x)"
  by (auto simp: count_if_def filter_empty_conv)

definition vs_inv :: "VerificationState \<Rightarrow> bool" where
  "vs_inv s \<longleftrightarrow>
     vo_mismatch_count (vs_observation s) =
       count_if (\<lambda>m. \<not> IsVssExcludedPath (md_path m)) (vs_mismatches s) +
       count_if IsOperationMismatch (vs_operation_comparison_records s) \<and>
     vo_exclusion_count (vs_observation s) =
       count_if (\<lambda>m. IsVssExcludedPath (md_path m)) (vs_mismatches s) +
       count_if IsVssExcludedDifference (vs_operation_comparison_records s) \<and>
     vo_matched_error_count (vs_observation s) =
       count_if IsMatchedError (vs_operation_comparison_records s) \<and>
     distinct (vs_operation_comparison_records s) \<and>
     set (vs_operation_comparison_records s) = vs_operation_comparisons s \<and>
     (\<forall>k i. vs_content_mismatches s k = Some i \<longrightarrow> i < length (vs_mismatches s) \<and>
        (md_path (vs_mismatches s ! i), md_stream (vs_mismatches s ! i)) = k)"

lemma vs_inv_new: "vs_inv VerificationState_new"
  by (simp add: vs_inv_def VerificationState_new_def)

lemmas observation_ops = SetPhase_def BeginTraversal_def update_inventory_def RecordTraversalTasks_def
  RecordInventory_def RecordTraversalTaskCompleted_def RecordDirectory_def RecordInventoryFailure_def
  CompleteTraversal_def SetTraversalEstimate_def SetPlan_def RecordCompared_def CompleteComparison_def
  BeginComparison_def Fail_def RecordCleanupFailure_def update_observation_def

lemma vs_inv_observation [simp]:
  "vs_inv (SetPhase p s) = vs_inv s" "vs_inv (BeginTraversal now s) = vs_inv s"
  "vs_inv (RecordTraversalTasks e n s) = vs_inv s" "vs_inv (RecordInventory e n b s) = vs_inv s"
  "vs_inv (RecordTraversalTaskCompleted e s) = vs_inv s" "vs_inv (RecordDirectory e s) = vs_inv s"
  "vs_inv (RecordInventoryFailure e s) = vs_inv s" "vs_inv (CompleteTraversal s) = vs_inv s"
  "vs_inv (SetTraversalEstimate n s) = vs_inv s" "vs_inv (SetPlan plan s) = vs_inv s"
  "vs_inv (RecordCompared n s) = vs_inv s" "vs_inv (CompleteComparison s) = vs_inv s"
  "vs_inv (BeginComparison now s) = vs_inv s" "vs_inv (Fail failure s) = vs_inv s"
  "vs_inv (RecordCleanupFailure c s) = vs_inv s"
  by (simp_all add: vs_inv_def observation_ops split: VerificationEndpoint.splits)

lemma AppendMismatch_inv:
  assumes "vs_inv s" "AppendMismatch m s = (i, s')"
  shows "vs_inv s'" "i = length (vs_mismatches s)" "vs_mismatches s' = vs_mismatches s @ [m]"
    "vs_content_mismatches s' = vs_content_mismatches s"
  using assms by (auto simp: vs_inv_def AppendMismatch_def update_observation_def nth_append less_Suc_eq)

lemma RecordMismatch_inv: "vs_inv s \<Longrightarrow> vs_inv (RecordMismatch m s)"
  using AppendMismatch_inv(1) [of s m "fst (AppendMismatch m s)"] by (simp add: RecordMismatch_def)

lemma RecordOperationComparison_inv:
  "vs_inv s \<Longrightarrow> vs_inv (RecordOperationComparison key requested synthetic real1 s)"
  by (auto simp: vs_inv_def RecordOperationComparison_def update_observation_def Let_def
      IsOperationMismatch_def IsVssExcludedDifference_def)

lemma accumulate_content_keeps [simp]:
  "md_path (accumulate_content a b c d m) = md_path m"
  "md_stream (accumulate_content a b c d m) = md_stream m"
  "md_kind (accumulate_content a b c d m) = md_kind m"
  by (simp_all add: accumulate_content_def Let_def)

lemma content_update_inv:
  assumes "vs_inv s" "i < length (vs_mismatches s)"
  shows "vs_inv (s\<lparr>vs_mismatches := (vs_mismatches s)[i := accumulate_content a b c d (vs_mismatches s ! i)]\<rparr>)"
  using assms by (auto simp: vs_inv_def count_if_update nth_list_update)

lemma RecordContentMismatch_inv:
  assumes "vs_inv s"
  shows "vs_inv (RecordContentMismatch path stream off b1 b2 n s)"
proof (cases "vs_content_mismatches s (path, stream)")
  case None
  define m0 where "m0 = (mismatch StreamContents path stream)
    \<lparr>md_first_offset := off, md_synthetic_byte := b1, md_real_byte := b2\<rparr>"
  obtain i s0 where a: "AppendMismatch m0 s = (i, s0)" by fastforce
  let ?s1 = "s0\<lparr>vs_content_mismatches := (vs_content_mismatches s0)((path, stream) \<mapsto> i)\<rparr>"
  note ap = AppendMismatch_inv [OF assms a]
  have "md_path m0 = path" "md_stream m0 = stream" by (simp_all add: m0_def mismatch_def)
  then have "vs_inv ?s1" "i < length (vs_mismatches ?s1)"
    using ap assms by (auto simp: vs_inv_def nth_append)
  from content_update_inv [OF this] show ?thesis
    using None a by (simp add: RecordContentMismatch_def m0_def)
next
  case (Some i)
  then have "i < length (vs_mismatches s)" using assms by (simp add: vs_inv_def)
  with Some assms show ?thesis by (simp add: RecordContentMismatch_def content_update_inv)
qed

section \<open>The interface of the planning and comparison code\<close>

text \<open>
  Planning and comparing touch the state only through these four operations: a
  predicate they keep is kept by every run.
\<close>

locale recorder =
  fixes kept :: "VerificationState \<Rightarrow> bool"
  assumes kept_mismatch: "kept s \<Longrightarrow> kept (RecordMismatch m s)"
    and kept_operation: "kept s \<Longrightarrow> kept (RecordOperationComparison key n a b s)"
    and kept_content: "kept s \<Longrightarrow> kept (RecordContentMismatch path stream off b1 b2 n s)"
    and kept_compared: "kept s \<Longrightarrow> kept (RecordCompared n s)"

interpretation counts: recorder vs_inv
  by unfold_locales (simp_all add: RecordMismatch_inv RecordOperationComparison_inv RecordContentMismatch_inv)

lemmas record_ops = RecordMismatch_def AppendMismatch_def RecordOperationComparison_def
  RecordContentMismatch_def RecordCompared_def update_observation_def Let_def

text \<open>A mismatch, once counted, is never taken back.\<close>

interpretation mismatches_grow: recorder "\<lambda>s. n \<le> vo_mismatch_count (vs_observation s)" for n
  by unfold_locales (auto simp: record_ops split: option.splits)

text \<open>Recording neither fails the verification nor completes it.\<close>

interpretation verdict_kept: recorder
  "\<lambda>s. vo_failure (vs_observation s) = e \<and> vo_comparison_complete (vs_observation s) = c" for e c
  by unfold_locales (auto simp: record_ops split: option.splits)

text \<open>A recorded operation comparison stays recorded.\<close>

interpretation comparisons_grow: recorder "\<lambda>s. C \<subseteq> set (vs_operation_comparison_records s)" for C
  by unfold_locales (auto simp: record_ops split: option.splits)

section \<open>The differences of one stream\<close>

text \<open>
  Several workers compare chunks of the same stream and record their differences
  in whatever order they finish.  The stream's entry is determined by the records
  alone: the lowest offset, the sum of the counts and the number of chunks.
\<close>

record content_record =
  cr_key :: "wstring \<times> wstring"
  cr_offset :: int
  cr_synthetic :: byte
  cr_real :: byte
  cr_bytes :: nat

definition record_content :: "content_record \<Rightarrow> VerificationState \<Rightarrow> VerificationState" where
  "record_content r = RecordContentMismatch (fst (cr_key r)) (snd (cr_key r)) (cr_offset r)
     (cr_synthetic r) (cr_real r) (cr_bytes r)"

definition records_of :: "wstring \<times> wstring \<Rightarrow> content_record list \<Rightarrow> content_record list" where
  "records_of k rs = filter (\<lambda>r. cr_key r = k) rs"

text \<open>The entry of stream \<open>k\<close> with the records \<open>rs\<close>, the first bytes being those of the record \<open>r\<close>.\<close>

definition entry_of :: "wstring \<times> wstring \<Rightarrow> content_record \<Rightarrow> content_record list \<Rightarrow> MismatchDetail" where
  "entry_of k r rs = (mismatch StreamContents (fst k) (snd k))
     \<lparr>md_first_offset := cr_offset r, md_synthetic_byte := cr_synthetic r, md_real_byte := cr_real r,
      md_differing_bytes := sum_list (map cr_bytes rs) mod two64, md_differing_chunks := length rs mod two64\<rparr>"

definition entry_ok :: "wstring \<times> wstring \<Rightarrow> content_record list \<Rightarrow> MismatchDetail \<Rightarrow> bool" where
  "entry_ok k rs m \<longleftrightarrow> (\<exists>r \<in> set rs. cr_offset r = Min (cr_offset ` set rs) \<and> m = entry_of k r rs)"

definition entries_ok :: "content_record list \<Rightarrow> VerificationState \<Rightarrow> bool" where
  "entries_ok rs s \<longleftrightarrow> (\<forall>k. case vs_content_mismatches s k of
       None \<Rightarrow> records_of k rs = []
     | Some i \<Rightarrow> i < length (vs_mismatches s) \<and> entry_ok k (records_of k rs) (vs_mismatches s ! i))"

lemma entry_ok_extend:
  assumes "entry_ok k rs m"
  shows "entry_ok k (rs @ [r]) (accumulate_content (cr_offset r) (cr_synthetic r) (cr_real r) (cr_bytes r) m)"
proof -
  obtain w where w: "w \<in> set rs" "cr_offset w = Min (cr_offset ` set rs)" "m = entry_of k w rs"
    using assms by (auto simp: entry_ok_def)
  then have "rs \<noteq> []" by auto
  then have mn: "Min (cr_offset ` set (rs @ [r])) = min (cr_offset r) (cr_offset w)" by (simp add: w(2))
  let ?w = "if cr_offset r < cr_offset w then r else w"
  have "accumulate_content (cr_offset r) (cr_synthetic r) (cr_real r) (cr_bytes r) m = entry_of k ?w (rs @ [r])"
    unfolding w(3) by (simp add: accumulate_content_def entry_of_def mismatch_def Let_def add64_def mod_simps)
  moreover have "?w \<in> set (rs @ [r])" "cr_offset ?w = Min (cr_offset ` set (rs @ [r]))"
    using w(1) unfolding mn by (auto simp: min_def)
  ultimately show ?thesis unfolding entry_ok_def by blast
qed

lemma entry_ok_first:
  "entry_ok k [r] (accumulate_content (cr_offset r) (cr_synthetic r) (cr_real r) (cr_bytes r)
     ((mismatch StreamContents (fst k) (snd k))\<lparr>md_first_offset := cr_offset r, md_synthetic_byte := cr_synthetic r,
        md_real_byte := cr_real r\<rparr>))"
  by (simp add: entry_ok_def entry_of_def accumulate_content_def mismatch_def add64_def Let_def)

text \<open>What one record changes: the entry of its stream, found or appended.\<close>

definition content_base :: "content_record \<Rightarrow> VerificationState \<Rightarrow> MismatchDetail" where
  "content_base r s = (case vs_content_mismatches s (cr_key r) of
       Some i \<Rightarrow> vs_mismatches s ! i
     | None \<Rightarrow> (mismatch StreamContents (fst (cr_key r)) (snd (cr_key r)))
         \<lparr>md_first_offset := cr_offset r, md_synthetic_byte := cr_synthetic r, md_real_byte := cr_real r\<rparr>)"

lemma record_content_effect:
  fixes r :: content_record
  assumes "vs_inv s"
  defines "s' \<equiv> record_content r s"
  obtains i where "vs_content_mismatches s' = (vs_content_mismatches s)(cr_key r \<mapsto> i)"
    "i < length (vs_mismatches s')" "length (vs_mismatches s) \<le> length (vs_mismatches s')"
    "vs_mismatches s' ! i =
       accumulate_content (cr_offset r) (cr_synthetic r) (cr_real r) (cr_bytes r) (content_base r s)"
    "\<And>j. j < length (vs_mismatches s) \<Longrightarrow> j \<noteq> i \<Longrightarrow> vs_mismatches s' ! j = vs_mismatches s ! j"
proof (cases "vs_content_mismatches s (cr_key r)")
  case None
  then show ?thesis
    by (intro that [of "length (vs_mismatches s)"])
      (simp_all add: s'_def record_content_def RecordContentMismatch_def AppendMismatch_def update_observation_def
        content_base_def nth_append)
next
  case (Some i)
  then have "i < length (vs_mismatches s)" using assms(1) unfolding vs_inv_def by blast
  with Some show ?thesis
    by (intro that [of i])
      (simp_all add: s'_def record_content_def RecordContentMismatch_def content_base_def fun_upd_idem)
qed

lemma entries_ok_step:
  assumes "vs_inv s" "entries_ok rs s"
  shows "entries_ok (rs @ [r]) (record_content r s)"
  unfolding entries_ok_def
proof
  fix k
  let ?s = "record_content r s" and ?k = "cr_key r"
  have old: "case vs_content_mismatches s k of None \<Rightarrow> records_of k rs = []
     | Some i \<Rightarrow> i < length (vs_mismatches s) \<and> entry_ok k (records_of k rs) (vs_mismatches s ! i)" for k
    using assms(2) unfolding entries_ok_def by blast
  obtain i where i: "vs_content_mismatches ?s = (vs_content_mismatches s)(?k \<mapsto> i)"
    "i < length (vs_mismatches ?s)" "length (vs_mismatches s) \<le> length (vs_mismatches ?s)"
    "vs_mismatches ?s ! i =
       accumulate_content (cr_offset r) (cr_synthetic r) (cr_real r) (cr_bytes r) (content_base r s)"
    "\<And>j. j < length (vs_mismatches s) \<Longrightarrow> j \<noteq> i \<Longrightarrow> vs_mismatches ?s ! j = vs_mismatches s ! j"
    using record_content_effect [OF assms(1)] by blast
  show "case vs_content_mismatches ?s k of None \<Rightarrow> records_of k (rs @ [r]) = []
     | Some i \<Rightarrow> i < length (vs_mismatches ?s) \<and> entry_ok k (records_of k (rs @ [r])) (vs_mismatches ?s ! i)"
  proof (cases "k = ?k")
    case True
    have "entry_ok ?k (records_of ?k rs @ [r]) (vs_mismatches ?s ! i)"
      using old [of ?k] entry_ok_first [of ?k r] entry_ok_extend [of ?k "records_of ?k rs" _ r]
      unfolding i(4) content_base_def by (auto split: option.splits)
    then show ?thesis using True i(1,2) by (simp add: records_of_def)
  next
    case False
    have "j \<noteq> i" if "vs_content_mismatches s k = Some j" for j
    proof
      assume "j = i"
      then have "vs_content_mismatches ?s k = Some i" "vs_content_mismatches ?s ?k = Some i"
        using that False i(1) by simp_all
      moreover have "vs_inv ?s" using assms(1) RecordContentMismatch_inv by (simp add: record_content_def)
      ultimately show False using False unfolding vs_inv_def by metis
    qed
    then show ?thesis
      using False old [of k] i by (auto simp: records_of_def split: option.splits)
  qed
qed

lemma entries_ok_fold: "vs_inv (fold record_content rs VerificationState_new) \<and>
    entries_ok rs (fold record_content rs VerificationState_new)"
proof (induction rs rule: rev_induct)
  case Nil
  then show ?case
    using vs_inv_new by (simp add: entries_ok_def records_of_def VerificationState_new_def)
next
  case (snoc r rs)
  then show ?case
    using entries_ok_step [of _ rs r] RecordContentMismatch_inv by (simp add: record_content_def)
qed

end
