(* ===== verification/CancelEvent.thy ===== *)
theory CancelEvent
  imports Main
begin

text \<open>
  The cancellation event that the long-running operations poll
  (\<open>wil::event_is_signaled\<close>).  It is a manual-reset event that another thread may
  signal at any time and that nothing resets, so a run is determined by the number
  of polls that still see it unsignalled: \<open>Some n\<close> is an event that the next
  \<open>n\<close> polls find unsignalled and every later one signalled, and \<open>None\<close> an event
  that is never signalled.
\<close>

type_synonym cancellation = "nat option"

fun event_is_signaled :: "cancellation \<Rightarrow> bool \<times> cancellation" where
  "event_is_signaled None = (False, None)"
| "event_is_signaled (Some 0) = (True, Some 0)"
| "event_is_signaled (Some (Suc n)) = (False, Some n)"

lemma signaled_stays: "event_is_signaled c = (True, c') \<Longrightarrow> event_is_signaled c' = (True, c')"
  by (cases c rule: event_is_signaled.cases) auto

lemma never_signaled [simp]: "event_is_signaled c = (b, None) \<longleftrightarrow> c = None \<and> \<not> b"
  by (cases c rule: event_is_signaled.cases) auto

end
