(* ===== verification/PlanBuilder.thy ===== *)
theory PlanBuilder
  imports Complex_Main VerifierState CancelEvent
begin

text \<open>
  The planning phase of the filesystem verifier
  (\<open>filesystem_verifier_impl.cpp\<close>, lines 1372 to 1722): the two inventories are
  merged by path, the differences of the namespaces are recorded, and every pair
  of comparable streams is cut into read tasks, of which a random sample is kept.

  The random engine and its distributions are the parameter \<open>randomness\<close>: a
  state type with the three calls the code makes of them.

  Results: an uncancelled plan is the fold of a list of events
  (\<open>BuildComparisonPlan_events\<close>); what the events are is the subject of the theory
  \<open>PlanCoverage\<close>.
\<close>

section \<open>Failures of an object\<close>

record InventoryFailures =
  if_open :: "OperationFailure option"
  if_streams :: "OperationFailure option"
  if_directory :: "OperationFailure option"

definition InventoryFailures_none :: InventoryFailures where
  "InventoryFailures_none = \<lparr>if_open = None, if_streams = None, if_directory = None\<rparr>"

text \<open>
  An inventory holds issues of the first three operations only; the others are
  \<open>std::unreachable\<close> in the source and are left without effect.
\<close>

fun add_failure :: "FilesystemOperation \<Rightarrow> OperationFailure \<Rightarrow> InventoryFailures \<Rightarrow> InventoryFailures" where
  "add_failure OpenObjectOp f r = r\<lparr>if_open := Some f\<rparr>"
| "add_failure QueryStreams f r = r\<lparr>if_streams := Some f\<rparr>"
| "add_failure QueryDirectory f r = r\<lparr>if_directory := Some f\<rparr>"
| "add_failure _ f r = r"

text \<open>The cursor is the list of the issues from its position on.\<close>

definition FailuresForObject ::
    "InventoryIssue list \<Rightarrow> wstring \<Rightarrow> InventoryFailures \<times> InventoryIssue list" where
  "FailuresForObject issues path =
     (let rest = dropWhile (\<lambda>i. ik_path (is_key i) < path) issues;
          here = takeWhile (\<lambda>i. ik_path (is_key i) = path) rest
      in (fold (\<lambda>i. add_failure (ik_operation (is_key i)) (is_failure i)) here InventoryFailures_none,
          dropWhile (\<lambda>i. ik_path (is_key i) = path) rest))"

definition RecordInventoryOperationComparison ::
    "wstring \<Rightarrow> FilesystemOperation \<Rightarrow> OperationFailure option \<Rightarrow> OperationFailure option \<Rightarrow>
     VerificationState \<Rightarrow> VerificationState" where
  "RecordInventoryOperationComparison path operation synthetic real1 s =
     (if synthetic = None \<and> real1 = None then s
      else RecordOperationComparison
        \<lparr>ik_path = path, ik_stream = [], ik_operation = operation, ik_offset = 0\<rparr> 0 synthetic real1 s)"

definition IsBelowIncompleteDirectory :: "FilesystemInventory \<Rightarrow> wstring \<Rightarrow> bool" where
  "IsBelowIncompleteDirectory inventory path \<longleftrightarrow>
     list_ex (\<lambda>directory. if directory = [] then path \<noteq> []
       else length directory < length path \<and> take (length directory) path = directory \<and>
            path ! length directory = 92)
       (fi_incomplete_directories inventory)"

definition ComparisonSurfaceIncomplete :: "FilesystemInventory \<Rightarrow> bool" where
  "ComparisonSurfaceIncomplete inventory \<longleftrightarrow>
     list_ex (\<lambda>directory. \<not> IsVssExcludedPath directory) (fi_incomplete_directories inventory)"

definition AddObjectMismatch ::
    "MismatchKind \<Rightarrow> ObjectRecord \<Rightarrow> VerificationState \<Rightarrow> VerificationState" where
  "AddObjectMismatch kind object1 = RecordMismatch (mismatch kind (ob_path object1) [])"

definition AddTypeMismatch ::
    "ObjectRecord \<Rightarrow> ObjectRecord \<Rightarrow> VerificationState \<Rightarrow> VerificationState" where
  "AddTypeMismatch synthetic real1 = RecordMismatch ((mismatch ObjectType (ob_path synthetic) [])
     \<lparr>md_synthetic_kind := ob_kind synthetic, md_real_kind := ob_kind real1\<rparr>)"

definition AddStreamMismatch ::
    "MismatchKind \<Rightarrow> ObjectRecord \<Rightarrow> StreamRecord \<Rightarrow> VerificationState \<Rightarrow> VerificationState" where
  "AddStreamMismatch kind object1 stream = RecordMismatch (mismatch kind (ob_path object1) (sr_name stream))"

definition AddLengthMismatch ::
    "ObjectRecord \<Rightarrow> StreamRecord \<Rightarrow> StreamRecord \<Rightarrow> VerificationState \<Rightarrow> VerificationState" where
  "AddLengthMismatch object1 synthetic real1 =
     RecordMismatch ((mismatch StreamLength (ob_path object1) (sr_name synthetic))
       \<lparr>md_synthetic_length := sr_length synthetic, md_real_length := sr_length real1\<rparr>)"

section \<open>The plan\<close>

record 'g randomness =
  rd_seed :: "32 word list \<Rightarrow> 'g"
  rd_uniform :: "nat \<Rightarrow> nat \<Rightarrow> 'g \<Rightarrow> nat \<times> 'g"
  rd_bernoulli :: "real \<Rightarrow> 'g \<Rightarrow> bool \<times> 'g"

text \<open>The variables of \<open>BuildComparisonPlan\<close> that its lambda and its loop update.\<close>

record 'g planning =
  pg_cancel :: cancellation
  pg_state :: VerificationState
  pg_result :: ComparisonPlan
  pg_fallback :: "ReadTask option"
  pg_task_count :: nat
  pg_random :: 'g

abbreviation (input) kReadChunkSize :: nat where "kReadChunkSize \<equiv> 4194304"

definition poll :: "'g planning \<Rightarrow> bool \<times> 'g planning" where
  "poll p = (let (b, c) = event_is_signaled (pg_cancel p) in (b, p\<lparr>pg_cancel := c\<rparr>))"

definition record_with :: "(VerificationState \<Rightarrow> VerificationState) \<Rightarrow> 'g planning \<Rightarrow> 'g planning" where
  "record_with f p = p\<lparr>pg_state := f (pg_state p)\<rparr>"

definition select_task :: "ReadTask \<Rightarrow> ComparisonPlan \<Rightarrow> ComparisonPlan" where
  "select_task task r = r\<lparr>cp_selected_bytes := add64 (cp_selected_bytes r) (rt_length task),
     cp_tasks := cp_tasks r @ [task]\<rparr>"

definition add_task :: "'g randomness \<Rightarrow> real \<Rightarrow> ReadTask \<Rightarrow> 'g planning \<Rightarrow> 'g planning" where
  "add_task R percentage task p =
     (let result = (pg_result p)\<lparr>cp_available_bytes := add64 (cp_available_bytes (pg_result p)) (rt_length task)\<rparr>;
          task_count = pg_task_count p + 1
      in if 100 \<le> percentage
         then p\<lparr>pg_result := select_task task result, pg_task_count := task_count\<rparr>
         else
           let (drawn, random1) = rd_uniform R 0 (task_count - 1) (pg_random p);
               fallback = (if drawn = 0 then Some task else pg_fallback p);
               (chosen, random2) = rd_bernoulli R (percentage / 100) random1
           in p\<lparr>pg_result := (if chosen then select_task task result else result),
                pg_fallback := fallback, pg_task_count := task_count, pg_random := random2\<rparr>)"

text \<open>The loop over the chunks of one pair of streams; \<open>False\<close> is a cancellation.\<close>

function chunk_loop ::
    "'g randomness \<Rightarrow> real \<Rightarrow> (int \<Rightarrow> nat \<Rightarrow> ReadTask) \<Rightarrow> int \<Rightarrow> int \<Rightarrow> 'g planning \<Rightarrow> bool \<times> 'g planning" where
  "chunk_loop R percentage task_at len offset p =
     (if offset < len then
        (case poll p of (cancelled, p1) \<Rightarrow>
           if cancelled then (False, p1)
           else let n = min kReadChunkSize (nat (len - offset))
                in chunk_loop R percentage task_at len (offset + int n) (add_task R percentage (task_at offset n) p1))
      else (True, p))"
  by pat_completeness auto
termination
  by (relation "measure (\<lambda>(R, percentage, task_at, len, offset, p). nat (len - offset))") auto

declare chunk_loop.simps [simp del]

definition read_task :: "nat \<Rightarrow> nat \<Rightarrow> nat \<Rightarrow> nat \<Rightarrow> int \<Rightarrow> nat \<Rightarrow> ReadTask" where
  "read_task so ro ss rs offset n = \<lparr>rt_synthetic_object = so, rt_real_object = ro,
     rt_synthetic_stream = ss, rt_real_stream = rs, rt_offset = offset, rt_length = n\<rparr>"

text \<open>
  The loop over the streams of two objects: \<open>i\<close> and \<open>j\<close> are the two indices, and
  the two lists the streams from those indices on.
\<close>

fun stream_merge ::
    "'g randomness \<Rightarrow> real \<Rightarrow> nat \<Rightarrow> nat \<Rightarrow> ObjectRecord \<Rightarrow> ObjectRecord \<Rightarrow> bool \<Rightarrow>
     nat \<Rightarrow> nat \<Rightarrow> StreamRecord list \<Rightarrow> StreamRecord list \<Rightarrow> 'g planning \<Rightarrow> bool \<times> 'g planning" where
  "stream_merge R percentage so ro synthetic real1 compare i j [] [] p = (True, p)"
| "stream_merge R percentage so ro synthetic real1 compare i j ss rs p =
     (case poll p of (cancelled, p1) \<Rightarrow>
        if cancelled then (False, p1)
        else case (ss, rs) of
          ([], r # rs') \<Rightarrow> stream_merge R percentage so ro synthetic real1 compare i (j + 1) [] rs'
            (record_with (AddStreamMismatch StreamMissingFromSynthetic real1 r) p1)
        | (s # ss', []) \<Rightarrow> stream_merge R percentage so ro synthetic real1 compare (i + 1) j ss' []
            (record_with (AddStreamMismatch StreamMissingFromReal synthetic s) p1)
        | (s # ss', r # rs') \<Rightarrow>
            if sr_name s < sr_name r then
              stream_merge R percentage so ro synthetic real1 compare (i + 1) j ss' rs
                (record_with (AddStreamMismatch StreamMissingFromReal synthetic s) p1)
            else if sr_name r < sr_name s then
              stream_merge R percentage so ro synthetic real1 compare i (j + 1) ss rs'
                (record_with (AddStreamMismatch StreamMissingFromSynthetic real1 r) p1)
            else if sr_length s \<noteq> sr_length r then
              stream_merge R percentage so ro synthetic real1 compare (i + 1) (j + 1) ss' rs'
                (record_with (AddLengthMismatch synthetic s r) p1)
            else if compare then
              (case chunk_loop R percentage (read_task so ro i j) (sr_length s) 0 p1 of
                 (finished, p2) \<Rightarrow>
                   if finished then stream_merge R percentage so ro synthetic real1 compare (i + 1) (j + 1) ss' rs' p2
                   else (False, p2))
            else stream_merge R percentage so ro synthetic real1 compare (i + 1) (j + 1) ss' rs' p1)"

definition AppendStreamTasks ::
    "'g randomness \<Rightarrow> real \<Rightarrow> nat \<Rightarrow> nat \<Rightarrow> ObjectRecord \<Rightarrow> ObjectRecord \<Rightarrow> bool \<Rightarrow> 'g planning \<Rightarrow>
     bool \<times> 'g planning" where
  "AppendStreamTasks R percentage so ro synthetic real1 compare p =
     stream_merge R percentage so ro synthetic real1 compare 0 0 (ob_streams synthetic) (ob_streams real1) p"

text \<open>The operation comparisons of two objects with the same path.\<close>

definition both_opened :: "InventoryFailures \<Rightarrow> InventoryFailures \<Rightarrow> bool" where
  "both_opened sf rf \<longleftrightarrow> if_open sf = None \<and> if_open rf = None"

definition object_operations ::
    "ObjectRecord \<Rightarrow> ObjectRecord \<Rightarrow> InventoryFailures \<Rightarrow> InventoryFailures \<Rightarrow>
     VerificationState \<Rightarrow> VerificationState" where
  "object_operations s r sf rf st =
     (let st1 = RecordInventoryOperationComparison (ob_path s) OpenObjectOp (if_open sf) (if_open rf) st
      in if both_opened sf rf then
           let st2 = RecordInventoryOperationComparison (ob_path s) QueryStreams (if_streams sf) (if_streams rf) st1
           in if ob_kind s = Directory \<and> ob_kind r = Directory
              then RecordInventoryOperationComparison (ob_path s) QueryDirectory (if_directory sf) (if_directory rf) st2
              else st2
         else st1)"

definition object_missing ::
    "FilesystemInventory \<Rightarrow> MismatchKind \<Rightarrow> ObjectRecord \<Rightarrow> VerificationState \<Rightarrow> VerificationState" where
  "object_missing other kind object1 st =
     (if IsBelowIncompleteDirectory other (ob_path object1) then st else AddObjectMismatch kind object1 st)"

text \<open>Whether the contents of a pair are compared, and the set of compared identities after it.\<close>

definition compare_contents :: "ObjectRecord \<Rightarrow> ObjectRecord \<Rightarrow> (nat \<times> nat) set \<Rightarrow> bool \<times> (nat \<times> nat) set" where
  "compare_contents s r compared =
     (if ob_identity s = 0 \<or> ob_identity r = 0 then (True, compared)
      else ((ob_identity s, ob_identity r) \<notin> compared, insert (ob_identity s, ob_identity r) compared))"

definition comparable :: "ObjectRecord \<Rightarrow> ObjectRecord \<Rightarrow> InventoryFailures \<Rightarrow> InventoryFailures \<Rightarrow> bool" where
  "comparable s r sf rf \<longleftrightarrow> both_opened sf rf \<and> ob_streams_complete s \<and> ob_streams_complete r"

text \<open>
  The main loop: the two indices, the objects from them on, the two issue cursors
  and the set of compared identities are its variables.
\<close>

fun object_merge ::
    "'g randomness \<Rightarrow> real \<Rightarrow> FilesystemInventory \<Rightarrow> FilesystemInventory \<Rightarrow> nat \<Rightarrow> nat \<Rightarrow>
     ObjectRecord list \<Rightarrow> ObjectRecord list \<Rightarrow> InventoryIssue list \<Rightarrow> InventoryIssue list \<Rightarrow>
     (nat \<times> nat) set \<Rightarrow> 'g planning \<Rightarrow> bool \<times> 'g planning" where
  "object_merge R percentage synthetic real1 i j [] [] si ri compared p = (True, p)"
| "object_merge R percentage synthetic real1 i j ss rs si ri compared p =
     (case poll p of (cancelled, p1) \<Rightarrow>
        if cancelled then (False, p1)
        else case (ss, rs) of
          ([], r # rs') \<Rightarrow> object_merge R percentage synthetic real1 i (j + 1) [] rs' si ri compared
            (record_with (object_missing synthetic ObjectMissingFromSynthetic r) p1)
        | (s # ss', []) \<Rightarrow> object_merge R percentage synthetic real1 (i + 1) j ss' [] si ri compared
            (record_with (object_missing real1 ObjectMissingFromReal s) p1)
        | (s # ss', r # rs') \<Rightarrow>
            if ob_path s < ob_path r then
              object_merge R percentage synthetic real1 (i + 1) j ss' rs si ri compared
                (record_with (object_missing real1 ObjectMissingFromReal s) p1)
            else if ob_path r < ob_path s then
              object_merge R percentage synthetic real1 i (j + 1) ss rs' si ri compared
                (record_with (object_missing synthetic ObjectMissingFromSynthetic r) p1)
            else
              let (sf, si1) = FailuresForObject si (ob_path s);
                  (rf, ri1) = FailuresForObject ri (ob_path r);
                  p2 = record_with (object_operations s r sf rf) p1
              in if ob_kind s \<noteq> ob_kind r then
                   object_merge R percentage synthetic real1 (i + 1) (j + 1) ss' rs' si1 ri1 compared
                     (record_with (AddTypeMismatch s r) p2)
                 else if comparable s r sf rf then
                   let (compare, compared1) = compare_contents s r compared
                   in case AppendStreamTasks R percentage i j s r compare p2 of
                        (finished, p3) \<Rightarrow>
                          if finished then
                            object_merge R percentage synthetic real1 (i + 1) (j + 1) ss' rs' si1 ri1 compared1 p3
                          else (False, p3)
                 else object_merge R percentage synthetic real1 (i + 1) (j + 1) ss' rs' si1 ri1 compared p2)"

text \<open>The four 32-bit parts of the identifier in memory order.\<close>

definition seed_parts :: "guid \<Rightarrow> 32 word list" where
  "seed_parts seed = map (\<lambda>i. ucast (drop_bit (32 * i) seed)) [0..<4]"

definition planning_start :: "'g randomness \<Rightarrow> guid \<Rightarrow> cancellation \<Rightarrow> VerificationState \<Rightarrow> 'g planning" where
  "planning_start R seed cancel state = \<lparr>pg_cancel = cancel, pg_state = state,
     pg_result = \<lparr>cp_available_bytes = 0, cp_selected_bytes = 0, cp_tasks = []\<rparr>,
     pg_fallback = None, pg_task_count = 0, pg_random = rd_seed R (seed_parts seed)\<rparr>"

definition with_fallback :: "ReadTask option \<Rightarrow> ComparisonPlan \<Rightarrow> ComparisonPlan" where
  "with_fallback fallback result =
     (case fallback of
        Some task \<Rightarrow> if cp_tasks result = []
          then result\<lparr>cp_selected_bytes := rt_length task, cp_tasks := [task]\<rparr> else result
      | None \<Rightarrow> result)"

definition BuildComparisonPlan ::
    "'g randomness \<Rightarrow> FilesystemInventory \<Rightarrow> FilesystemInventory \<Rightarrow> guid \<Rightarrow> real \<Rightarrow> cancellation \<Rightarrow>
     VerificationState \<Rightarrow> ComparisonPlan option \<times> cancellation \<times> VerificationState" where
  "BuildComparisonPlan R synthetic real1 seed percentage cancel state =
     (case object_merge R percentage synthetic real1 0 0 (fi_objects synthetic) (fi_objects real1)
        (fi_issues synthetic) (fi_issues real1) {} (planning_start R seed cancel state) of
        (finished, p) \<Rightarrow>
          (if finished then Some (with_fallback (pg_fallback p) (pg_result p)) else None,
           pg_cancel p, pg_state p))"

section \<open>The plan as a list of events\<close>

text \<open>
  Without cancellation the loops do nothing but record mismatches and operation
  comparisons and add tasks.  \<open>object_events\<close> lists what they do.
\<close>

datatype event = Mismatch MismatchDetail | Operation wstring FilesystemOperation "OperationFailure option" "OperationFailure option"
  | Add ReadTask

fun run_event :: "'g randomness \<Rightarrow> real \<Rightarrow> event \<Rightarrow> 'g planning \<Rightarrow> 'g planning" where
  "run_event R percentage (Mismatch m) p = record_with (RecordMismatch m) p"
| "run_event R percentage (Operation path op1 s r) p =
     record_with (RecordInventoryOperationComparison path op1 s r) p"
| "run_event R percentage (Add task) p = add_task R percentage task p"

abbreviation run_events :: "'g randomness \<Rightarrow> real \<Rightarrow> event list \<Rightarrow> 'g planning \<Rightarrow> 'g planning" where
  "run_events R percentage \<equiv> fold (run_event R percentage)"

function chunks :: "int \<Rightarrow> int \<Rightarrow> (int \<times> nat) list" where
  "chunks len offset =
     (if offset < len then let n = min kReadChunkSize (nat (len - offset)) in (offset, n) # chunks len (offset + int n)
      else [])"
  by pat_completeness auto
termination
  by (relation "measure (\<lambda>(len, offset). nat (len - offset))") auto

declare chunks.simps [simp del]

text \<open>Two lists merged by a key: the pairs with equal keys and the elements without partner.\<close>

fun merge_by :: "('a \<Rightarrow> 'k::linorder) \<Rightarrow> 'a list \<Rightarrow> 'a list \<Rightarrow> ('a option \<times> 'a option) list" where
  "merge_by k [] [] = []"
| "merge_by k [] (r # rs) = (None, Some r) # merge_by k [] rs"
| "merge_by k (s # ss) [] = (Some s, None) # merge_by k ss []"
| "merge_by k (s # ss) (r # rs) =
     (if k s < k r then (Some s, None) # merge_by k ss (r # rs)
      else if k r < k s then (None, Some r) # merge_by k (s # ss) rs
      else (Some s, Some r) # merge_by k ss rs)"

definition strict_by :: "('a \<Rightarrow> 'k::linorder) \<Rightarrow> 'a list \<Rightarrow> bool" where
  "strict_by k xs \<longleftrightarrow> sorted_wrt (\<lambda>a b. k a < k b) xs"

lemma merge_by_nil: "merge_by k [] rs = map (\<lambda>r. (None, Some r)) rs" "merge_by k ss [] = map (\<lambda>s. (Some s, None)) ss"
proof -
  show "merge_by k [] rs = map (\<lambda>r. (None, Some r)) rs" by (induction rs) simp_all
  show "merge_by k ss [] = map (\<lambda>s. (Some s, None)) ss" by (induction ss) simp_all
qed

lemma in_merge_by:
  assumes "strict_by k ss" "strict_by k rs"
  shows "(Some a, Some b) \<in> set (merge_by k ss rs) \<longleftrightarrow> a \<in> set ss \<and> b \<in> set rs \<and> k a = k b" (is ?P)
    and "(Some a, None) \<in> set (merge_by k ss rs) \<longleftrightarrow> a \<in> set ss \<and> (\<forall>r \<in> set rs. k r \<noteq> k a)" (is ?Q)
    and "(None, Some b) \<in> set (merge_by k ss rs) \<longleftrightarrow> b \<in> set rs \<and> (\<forall>s \<in> set ss. k s \<noteq> k b)" (is ?R)
    and "(None, None) \<notin> set (merge_by k ss rs)" (is ?S)
proof -
  have "?P \<and> ?Q \<and> ?R \<and> ?S" using assms
  proof (induction k ss rs rule: merge_by.induct)
    case (4 k s ss r rs)
    have less: "\<forall>x \<in> set ss. k s < k x" "\<forall>x \<in> set rs. k r < k x"
      and tails: "strict_by k ss" "strict_by k rs"
      using 4(4,5) by (simp_all add: strict_by_def)
    consider "k s < k r" | "k r < k s" "\<not> k s < k r" | "\<not> k s < k r" "\<not> k r < k s" "k s = k r"
      by (meson linorder_cases order.asym)
    then show ?case
    proof cases
      case 1
      have "\<forall>x \<in> set (r # rs). k x \<noteq> k s" using 1 less(2) by fastforce
      then show ?thesis using 4(1) [OF 1 tails(1) 4(5)] 1 by (simp, metis)
    next
      case 2
      have "\<forall>x \<in> set (s # ss). k x \<noteq> k r" using 2 less(1) by fastforce
      then show ?thesis using 4(2) [OF 2(2,1) 4(4) tails(2)] 2 by (simp, metis)
    next
      case 3
      have "\<forall>x \<in> set rs. k x \<noteq> k s" "\<forall>x \<in> set ss. k x \<noteq> k r" using 3 less by fastforce+
      then show ?thesis using 4(3) [OF 3(1,2) tails] 3 by (simp, metis)
    qed
  qed (auto simp: merge_by_nil)
  then show ?P ?Q ?R ?S by simp_all
qed

type_synonym 'a indexed = "nat \<times> 'a"

fun stream_event ::
    "nat \<Rightarrow> nat \<Rightarrow> ObjectRecord \<Rightarrow> ObjectRecord \<Rightarrow> bool \<Rightarrow>
     StreamRecord indexed option \<times> StreamRecord indexed option \<Rightarrow> event list" where
  "stream_event so ro synthetic real1 compare (None, None) = []"
| "stream_event so ro synthetic real1 compare (None, Some (j, r)) =
     [Mismatch (mismatch StreamMissingFromSynthetic (ob_path real1) (sr_name r))]"
| "stream_event so ro synthetic real1 compare (Some (i, s), None) =
     [Mismatch (mismatch StreamMissingFromReal (ob_path synthetic) (sr_name s))]"
| "stream_event so ro synthetic real1 compare (Some (i, s), Some (j, r)) =
     (if sr_length s \<noteq> sr_length r
      then [Mismatch ((mismatch StreamLength (ob_path synthetic) (sr_name s))
              \<lparr>md_synthetic_length := sr_length s, md_real_length := sr_length r\<rparr>)]
      else if compare then map (\<lambda>(offset, n). Add (read_task so ro i j offset n)) (chunks (sr_length s) 0)
      else [])"

abbreviation key_of :: "('a \<Rightarrow> 'k) \<Rightarrow> 'a indexed \<Rightarrow> 'k" where "key_of k x \<equiv> k (snd x)"

definition stream_events ::
    "nat \<Rightarrow> nat \<Rightarrow> ObjectRecord \<Rightarrow> ObjectRecord \<Rightarrow> bool \<Rightarrow> nat \<Rightarrow> nat \<Rightarrow> StreamRecord list \<Rightarrow> StreamRecord list \<Rightarrow> event list" where
  "stream_events so ro synthetic real1 compare i j ss rs =
     concat (map (stream_event so ro synthetic real1 compare)
       (merge_by (key_of sr_name) (enumerate i ss) (enumerate j rs)))"

definition operation_events ::
    "ObjectRecord \<Rightarrow> ObjectRecord \<Rightarrow> InventoryFailures \<Rightarrow> InventoryFailures \<Rightarrow> event list" where
  "operation_events s r sf rf =
     Operation (ob_path s) OpenObjectOp (if_open sf) (if_open rf) #
     (if both_opened sf rf then
        Operation (ob_path s) QueryStreams (if_streams sf) (if_streams rf) #
        (if ob_kind s = Directory \<and> ob_kind r = Directory
         then [Operation (ob_path s) QueryDirectory (if_directory sf) (if_directory rf)] else [])
      else [])"

definition missing_event :: "FilesystemInventory \<Rightarrow> MismatchKind \<Rightarrow> ObjectRecord \<Rightarrow> event list" where
  "missing_event other kind object1 =
     (if IsBelowIncompleteDirectory other (ob_path object1) then [] else [Mismatch (mismatch kind (ob_path object1) [])])"

definition failures_of :: "InventoryIssue list \<Rightarrow> wstring \<Rightarrow> InventoryFailures" where
  "failures_of issues path = fold (\<lambda>i. add_failure (ik_operation (is_key i)) (is_failure i))
     (filter (\<lambda>i. ik_path (is_key i) = path) issues) InventoryFailures_none"

definition type_event :: "ObjectRecord \<Rightarrow> ObjectRecord \<Rightarrow> event" where
  "type_event s r = Mismatch ((mismatch ObjectType (ob_path s) [])
     \<lparr>md_synthetic_kind := ob_kind s, md_real_kind := ob_kind r\<rparr>)"

fun object_events ::
    "FilesystemInventory \<Rightarrow> FilesystemInventory \<Rightarrow> (nat \<times> nat) set \<Rightarrow>
     (ObjectRecord indexed option \<times> ObjectRecord indexed option) list \<Rightarrow> event list" where
  "object_events synthetic real1 compared [] = []"
| "object_events synthetic real1 compared ((None, None) # xs) = object_events synthetic real1 compared xs"
| "object_events synthetic real1 compared ((None, Some (j, r)) # xs) =
     missing_event synthetic ObjectMissingFromSynthetic r @ object_events synthetic real1 compared xs"
| "object_events synthetic real1 compared ((Some (i, s), None) # xs) =
     missing_event real1 ObjectMissingFromReal s @ object_events synthetic real1 compared xs"
| "object_events synthetic real1 compared ((Some (i, s), Some (j, r)) # xs) =
     (let sf = failures_of (fi_issues synthetic) (ob_path s); rf = failures_of (fi_issues real1) (ob_path r)
      in operation_events s r sf rf @
         (if ob_kind s \<noteq> ob_kind r then type_event s r # object_events synthetic real1 compared xs
          else if comparable s r sf rf then
            let (compare, compared1) = compare_contents s r compared
            in stream_events i j s r compare 0 0 (ob_streams s) (ob_streams r) @
               object_events synthetic real1 compared1 xs
          else object_events synthetic real1 compared xs))"

subsection \<open>The loops run the events\<close>

definition strip :: "'g planning \<Rightarrow> 'g planning" where
  "strip p = p\<lparr>pg_cancel := None\<rparr>"

lemma strip_poll: "poll p = (b, p1) \<Longrightarrow> strip p1 = strip p"
  by (auto simp: poll_def strip_def split: prod.splits)

lemma poll_never: "pg_cancel p = None \<Longrightarrow> poll p = (False, p)"
  by (simp add: poll_def)

lemma strip_record [simp]: "strip (record_with f p) = record_with f (strip p)"
  by (simp add: strip_def record_with_def)

lemma strip_add [simp]: "strip (add_task R percentage task p) = add_task R percentage task (strip p)"
  by (simp add: strip_def add_task_def Let_def split: prod.splits)

lemma strip_event [simp]: "strip (run_event R percentage e p) = run_event R percentage e (strip p)"
  by (cases e) simp_all

lemma cancel_event [simp]: "pg_cancel (run_event R percentage e p) = pg_cancel p"
  by (cases e) (simp_all add: record_with_def add_task_def Let_def split: prod.splits)

lemma cancel_record [simp]: "pg_cancel (record_with f p) = pg_cancel p"
  by (simp add: record_with_def)

lemma cancel_add [simp]: "pg_cancel (add_task R percentage task p) = pg_cancel p"
  using cancel_event [of R percentage "Add task"] by simp

lemma chunk_loop_events:
  "chunk_loop R percentage task_at len offset p = (True, p') \<Longrightarrow>
   strip p' = run_events R percentage (map (\<lambda>(offset, n). Add (task_at offset n)) (chunks len offset)) (strip p)"
proof (induction R percentage task_at len offset p rule: chunk_loop.induct)
  case (1 R percentage task_at len offset p)
  obtain b p1 where p1: "poll p = (b, p1)" by fastforce
  show ?case
  proof (cases "offset < len")
    case True
    then have "\<not> b" using 1(2) p1 by (auto simp: chunk_loop.simps [of _ _ _ _ offset] split: if_splits)
    then show ?thesis
      using 1(2) 1(1) [OF True p1 [symmetric] \<open>\<not> b\<close> refl] True p1 strip_poll [OF p1]
      by (simp add: chunk_loop.simps [of _ _ _ _ offset] chunks.simps [of _ offset] Let_def)
  next
    case False
    then show ?thesis using 1(2) by (simp add: chunk_loop.simps [of _ _ _ _ offset] chunks.simps [of _ offset])
  qed
qed

lemma chunk_loop_never:
  "pg_cancel p = None \<Longrightarrow> \<exists>p'. chunk_loop R percentage task_at len offset p = (True, p') \<and> pg_cancel p' = None"
proof (induction R percentage task_at len offset p rule: chunk_loop.induct)
  case (1 R percentage task_at len offset p)
  show ?case
  proof (cases "offset < len")
    case True
    then show ?thesis
      using 1(1) [OF True poll_never [OF 1(2), symmetric] _ refl] 1(2)
      by (simp add: chunk_loop.simps [of _ _ _ _ offset] poll_never Let_def)
  next
    case False
    then show ?thesis using 1(2) by (simp add: chunk_loop.simps [of _ _ _ _ offset])
  qed
qed

lemmas add_mismatch_defs = AddStreamMismatch_def AddLengthMismatch_def AddObjectMismatch_def AddTypeMismatch_def

lemma stream_merge_events:
  "stream_merge R percentage so ro synthetic real1 compare i j ss rs p = (True, p') \<Longrightarrow>
   strip p' = run_events R percentage (stream_events so ro synthetic real1 compare i j ss rs) (strip p)"
proof (induction "length ss + length rs" arbitrary: i j ss rs p rule: less_induct)
  case less
  obtain b p1 where p1: "poll p = (b, p1)" by fastforce
  note IH = less(1) and run = less(2) and st = strip_poll [OF p1]
  consider "ss = []" "rs = []" | r rs' where "ss = []" "rs = r # rs'" | s ss' where "ss = s # ss'" "rs = []"
    | s ss' r rs' where "ss = s # ss'" "rs = r # rs'"
    by (cases ss; cases rs) auto
  then show ?case
  proof cases
    case 1
    then show ?thesis using run by (simp add: stream_events_def)
  next
    case 2
    then show ?thesis using run IH [of "[]" rs' i "j + 1"] p1 st
      by (auto simp: stream_events_def add_mismatch_defs split: if_splits)
  next
    case 3
    then show ?thesis using run IH [of ss' "[]" "i + 1" j] p1 st
      by (auto simp: stream_events_def add_mismatch_defs split: if_splits)
  next
    case 4
    have nb: "\<not> b" using run p1 4 by (auto split: if_splits)
    consider "sr_name s < sr_name r" | "sr_name r < sr_name s" "\<not> sr_name s < sr_name r"
      | "\<not> sr_name s < sr_name r" "\<not> sr_name r < sr_name s" by blast
    then show ?thesis
    proof cases
      case 1
      then show ?thesis using run IH [of ss' rs "i + 1" j] p1 st nb 4 by (simp add: stream_events_def add_mismatch_defs)
    next
      case 2
      then show ?thesis using run IH [of ss rs' i "j + 1"] p1 st nb 4 by (simp add: stream_events_def add_mismatch_defs)
    next
      case 3
      obtain finished p2 where p2: "chunk_loop R percentage (read_task so ro i j) (sr_length s) 0 p1 = (finished, p2)" by fastforce
      note tail = IH [of ss' rs' "i + 1" "j + 1"]
      show ?thesis
      proof (cases "sr_length s = sr_length r \<and> compare")
        case True
        then have "finished" using run p1 nb 4 3 p2 by (auto split: if_splits)
        then show ?thesis using run p1 st nb 4 3 p2 True tail [of p2] chunk_loop_events [of R percentage "read_task so ro i j" "sr_length s" 0 p1 p2]
          by (simp add: stream_events_def)
      next
        case False
        then show ?thesis using run p1 st nb 4 3 tail by (auto simp: stream_events_def add_mismatch_defs split: if_splits)
      qed
    qed
  qed
qed

lemma stream_merge_never:
  "pg_cancel p = None \<Longrightarrow>
   \<exists>p'. stream_merge R percentage so ro synthetic real1 compare i j ss rs p = (True, p') \<and> pg_cancel p' = None"
proof (induction "length ss + length rs" arbitrary: compare i j ss rs p rule: less_induct)
  case less
  note IH = less(1) and np = poll_never [OF less(2)]
  have "\<forall>n. \<exists>p2. chunk_loop R percentage (read_task so ro i j) n 0 p = (True, p2) \<and> pg_cancel p2 = None"
    using chunk_loop_never [OF less(2)] by simp
  then obtain g where p2: "\<And>n. chunk_loop R percentage (read_task so ro i j) n 0 p = (True, g n)" "\<And>n. pg_cancel (g n) = None"
    by (auto dest: choice)
  show ?case
  proof (cases ss; cases rs)
    fix s ss' r rs'
    assume "ss = s # ss'" "rs = r # rs'"
    then show ?thesis
      by (simp add: stream_merge.simps(2) [where i = i and j = j and p = p]
          np p2 IH less(2) del: stream_merge.simps)
  qed (simp_all add: np IH less(2))
qed

declare stream_merge.simps [simp del]

subsection \<open>The issue cursors\<close>

abbreviation issue_path :: "InventoryIssue \<Rightarrow> wstring" where "issue_path i \<equiv> ik_path (is_key i)"

definition cursor_ok :: "InventoryIssue list \<Rightarrow> ObjectRecord list \<Rightarrow> InventoryIssue list \<Rightarrow> bool" where
  "cursor_ok issues objects cursor \<longleftrightarrow> sorted (map issue_path cursor) \<and>
     (\<forall>x \<in> set objects. filter (\<lambda>i. issue_path i = ob_path x) cursor = filter (\<lambda>i. issue_path i = ob_path x) issues)"

lemma filter_after_drop:
  assumes "\<And>x. P x \<Longrightarrow> \<not> Q x"
  shows "filter Q (dropWhile P xs) = filter Q xs"
  using assms by (induction xs) auto

lemma takeWhile_sorted_eq:
  assumes "sorted (map f xs)" "\<forall>x \<in> set xs. q \<le> f x"
  shows "takeWhile (\<lambda>x. f x = q) xs = filter (\<lambda>x. f x = q) xs"
  using assms
proof (induction xs)
  case (Cons x xs)
  show ?case
  proof (cases "f x = q")
    case False
    then have "q < f x" using Cons(3) by (simp add: order.not_eq_order_implies_strict)
    then have "\<forall>y \<in> set xs. f y \<noteq> q" using Cons(2) by fastforce
    with False show ?thesis by simp
  qed (use Cons in simp)
qed simp

lemma dropWhile_sorted_ge:
  assumes "sorted (map f xs)"
  shows "\<forall>x \<in> set (dropWhile (\<lambda>x. f x < q) xs). (q :: 'k::linorder) \<le> f x"
  using assms by (induction xs) (auto simp: not_less intro: order_trans)

lemma sorted_dropWhile_map: "sorted (map f xs) \<Longrightarrow> sorted (map f (dropWhile P xs))"
  by (induction xs) auto

lemma FailuresForObject_spec:
  assumes "cursor_ok issues (x # xs) cursor" "\<forall>y \<in> set xs. ob_path x < ob_path y"
  obtains cursor' where "FailuresForObject cursor (ob_path x) = (failures_of issues (ob_path x), cursor')"
    "cursor_ok issues xs cursor'"
proof
  let ?d = "dropWhile (\<lambda>i. issue_path i < ob_path x) cursor"
  let ?c = "dropWhile (\<lambda>i. issue_path i = ob_path x) ?d"
  have srt: "sorted (map issue_path ?d)" using assms(1) by (simp add: cursor_ok_def sorted_dropWhile_map)
  have "takeWhile (\<lambda>i. issue_path i = ob_path x) ?d = filter (\<lambda>i. issue_path i = ob_path x) ?d"
    using assms(1) by (intro takeWhile_sorted_eq srt dropWhile_sorted_ge) (simp add: cursor_ok_def)
  also have "\<dots> = filter (\<lambda>i. issue_path i = ob_path x) cursor" by (rule filter_after_drop) auto
  also have "\<dots> = filter (\<lambda>i. issue_path i = ob_path x) issues" using assms(1) by (simp add: cursor_ok_def)
  finally show "FailuresForObject cursor (ob_path x) = (failures_of issues (ob_path x), ?c)"
    by (simp add: FailuresForObject_def failures_of_def)
  have "filter (\<lambda>i. issue_path i = ob_path y) ?c = filter (\<lambda>i. issue_path i = ob_path y) issues" if "y \<in> set xs" for y
  proof -
    have "ob_path x < ob_path y" using assms(2) that by blast
    then have "filter (\<lambda>i. issue_path i = ob_path y) ?c = filter (\<lambda>i. issue_path i = ob_path y) cursor"
      by (simp add: filter_after_drop order.asym less_imp_neq)
    then show ?thesis using assms(1) that by (simp add: cursor_ok_def)
  qed
  then show "cursor_ok issues xs ?c" using srt by (simp add: cursor_ok_def sorted_dropWhile_map)
qed

lemma cursor_ok_tail: "cursor_ok issues (x # xs) cursor \<Longrightarrow> cursor_ok issues xs cursor"
  by (simp add: cursor_ok_def)

lemma strip_operations:
  "record_with (object_operations s r sf rf) p = run_events R percentage (operation_events s r sf rf) p"
  by (simp add: object_operations_def operation_events_def record_with_def Let_def)

lemma strip_missing:
  "record_with (object_missing other kind x) p = run_events R percentage (missing_event other kind x) p"
  by (simp add: object_missing_def missing_event_def record_with_def add_mismatch_defs)

lemma strip_type: "record_with (AddTypeMismatch s r) p = run_event R percentage (type_event s r) p"
  by (simp add: type_event_def add_mismatch_defs)

lemma strip_events: "strip (run_events R percentage es p) = run_events R percentage es (strip p)"
  by (induction es arbitrary: p) simp_all

subsection \<open>The object loop\<close>

declare object_merge.simps [simp del]

lemma object_merge_events:
  assumes "object_merge R percentage synthetic real1 i j ss rs si ri compared p = (True, p')"
    and "strict_by ob_path ss" "strict_by ob_path rs"
    and "cursor_ok (fi_issues synthetic) ss si" "cursor_ok (fi_issues real1) rs ri"
  shows "strip p' = run_events R percentage
    (object_events synthetic real1 compared (merge_by (key_of ob_path) (enumerate i ss) (enumerate j rs))) (strip p)"
  using assms
proof (induction "length ss + length rs" arbitrary: i j ss rs si ri compared p rule: less_induct)
  case less
  obtain b p1 where p1: "poll p = (b, p1)" by fastforce
  note IH = less(1) and run = less(2) and strict = less(3,4) and cur = less(5,6) and st = strip_poll [OF p1]
  note step = object_merge.simps [where i = i and j = j and p = p]
  note missing = strip_missing [of _ _ _ _ R percentage]
  consider "ss = []" "rs = []" | r rs' where "ss = []" "rs = r # rs'" | s ss' where "ss = s # ss'" "rs = []"
    | s ss' r rs' where "ss = s # ss'" "rs = r # rs'"
    by (cases ss; cases rs) auto
  then show ?case
  proof cases
    case 1
    then show ?thesis using run by (simp add: step)
  next
    case 2
    have nb: "\<not> b" using run p1 2 by (auto simp: step split: if_splits)
    show ?thesis using 2 run IH [of "[]" rs' i "j + 1" si ri compared] p1 st nb strict cur
      by (simp add: step strip_events missing strict_by_def cursor_ok_tail)
  next
    case 3
    have nb: "\<not> b" using run p1 3 by (auto simp: step split: if_splits)
    show ?thesis using 3 run IH [of ss' "[]" "i + 1" j si ri compared] p1 st nb strict cur
      by (simp add: step strip_events missing strict_by_def cursor_ok_tail)
  next
    case 4
    have nb: "\<not> b" using run p1 4 by (auto simp: step split: if_splits)
    have tails: "strict_by ob_path ss'" "strict_by ob_path rs'" "\<forall>y \<in> set ss'. ob_path s < ob_path y"
      "\<forall>y \<in> set rs'. ob_path r < ob_path y" using strict 4 by (simp_all add: strict_by_def)
    consider "ob_path s < ob_path r" | "ob_path r < ob_path s" "\<not> ob_path s < ob_path r"
      | "\<not> ob_path s < ob_path r" "\<not> ob_path r < ob_path s" by blast
    then show ?thesis
    proof cases
      case 1
      then show ?thesis using run IH [of ss' rs "i + 1" j si ri compared] st nb 4 strict cur tails
        by (simp add: step p1 strip_events missing cursor_ok_tail)
    next
      case 2
      then show ?thesis using run IH [of ss rs' i "j + 1" si ri compared] st nb 4 strict cur tails
        by (simp add: step p1 strip_events missing cursor_ok_tail)
    next
      case 3
      obtain si1 where sf: "FailuresForObject si (ob_path s) = (failures_of (fi_issues synthetic) (ob_path s), si1)"
        "cursor_ok (fi_issues synthetic) ss' si1" using FailuresForObject_spec cur(1) tails(3) 4 by metis
      obtain ri1 where rf: "FailuresForObject ri (ob_path r) = (failures_of (fi_issues real1) (ob_path r), ri1)"
        "cursor_ok (fi_issues real1) rs' ri1" using FailuresForObject_spec cur(2) tails(4) 4 by metis
      let ?sf = "failures_of (fi_issues synthetic) (ob_path s)" and ?rf = "failures_of (fi_issues real1) (ob_path r)"
      obtain cmp compared1 where cc: "compare_contents s r compared = (cmp, compared1)" by fastforce
      define p2 where "p2 = record_with (object_operations s r ?sf ?rf) p1"
      have st2: "strip p2 = run_events R percentage (operation_events s r ?sf ?rf) (strip p)"
        by (simp add: p2_def strip_operations [of _ _ _ _ _ R percentage] strip_events st)
      obtain fin p3 where p3: "AppendStreamTasks R percentage i j s r cmp p2 = (fin, p3)" by fastforce
      note tail = IH [of ss' rs' "i + 1" "j + 1" si1 ri1] and oks = tails sf(2) rf(2)
      note run = run [unfolded 4 step(2)] and eqs = p1 nb 3 sf(1) rf(1) p2_def [symmetric]
      show ?thesis
      proof (cases "ob_kind s = ob_kind r \<and> comparable s r ?sf ?rf")
        case True
        then have fin using run p3 cc by (simp add: eqs split: if_splits)
        moreover have "strip p3 = run_events R percentage
            (stream_events i j s r cmp 0 0 (ob_streams s) (ob_streams r)) (strip p2)" if fin
          using stream_merge_events p3 that by (simp add: AppendStreamTasks_def)
        ultimately show ?thesis using run p3 cc True tail [of compared1 p3] oks st2 4
          by (simp add: eqs)
      next
        case False
        then show ?thesis using run tail [of compared] oks st2 4
          by (auto simp: eqs strip_type [of _ _ _ R percentage] strip_events Let_def split: if_splits)
      qed
    qed
  qed
qed

lemma object_merge_never:
  "pg_cancel p = None \<Longrightarrow>
   \<exists>p'. object_merge R percentage synthetic real1 i j ss rs si ri compared p = (True, p') \<and> pg_cancel p' = None"
proof (induction "length ss + length rs" arbitrary: i j ss rs si ri compared p rule: less_induct)
  case less
  note IH = less(1) and np = poll_never [OF less(2)] and step = object_merge.simps [where i = i and j = j and p = p]
  show ?case
  proof (cases ss; cases rs)
    fix s ss' r rs'
    assume c: "ss = s # ss'" "rs = r # rs'"
    define G where "G b f h = snd (AppendStreamTasks R percentage i j s r b (record_with (object_operations s r f h) p))" for b f h
    have G: "AppendStreamTasks R percentage i j s r b (record_with (object_operations s r f h) p) = (True, G b f h) \<and>
        pg_cancel (G b f h) = None" for b f h
      using stream_merge_never [of "record_with (object_operations s r f h) p" R percentage i j s r b 0 0
          "ob_streams s" "ob_streams r"] less(2) unfolding G_def AppendStreamTasks_def by (metis cancel_record snd_conv)
    show ?thesis by (simp add: c step np IH less(2) G split_beta Let_def)
  qed (simp_all add: step np IH less(2))
qed

definition plan_events :: "FilesystemInventory \<Rightarrow> FilesystemInventory \<Rightarrow> event list" where
  "plan_events synthetic real1 = object_events synthetic real1 {}
     (merge_by (key_of ob_path) (enumerate 0 (fi_objects synthetic)) (enumerate 0 (fi_objects real1)))"

definition inventory_ok :: "FilesystemInventory \<Rightarrow> bool" where
  "inventory_ok f \<longleftrightarrow> strict_by ob_path (fi_objects f) \<and> sorted (map issue_path (fi_issues f)) \<and>
     (\<forall>x \<in> set (fi_objects f). strict_by sr_name (ob_streams x))"

text \<open>A plan that is returned ran all the events.\<close>

lemma BuildComparisonPlan_events:
  assumes "BuildComparisonPlan R synthetic real1 seed percentage cancel state = (Some plan, cancel', state')"
    and "inventory_ok synthetic" "inventory_ok real1"
  defines "p \<equiv> run_events R percentage (plan_events synthetic real1) (planning_start R seed None state)"
  shows "plan = with_fallback (pg_fallback p) (pg_result p)" "state' = pg_state p"
proof -
  let ?m = "object_merge R percentage synthetic real1 0 0 (fi_objects synthetic) (fi_objects real1)
        (fi_issues synthetic) (fi_issues real1) {} (planning_start R seed cancel state)"
  obtain p' where m: "?m = (True, p')" and res: "plan = with_fallback (pg_fallback p') (pg_result p')" "state' = pg_state p'"
    using assms(1) by (auto simp: BuildComparisonPlan_def split: prod.splits if_splits)
  have "strip p' = p"
    using object_merge_events [OF m] assms(2,3)
    by (simp add: p_def plan_events_def inventory_ok_def cursor_ok_def planning_start_def strip_def)
  moreover have "pg_state (strip p') = pg_state p'" "pg_result (strip p') = pg_result p'" "pg_fallback (strip p') = pg_fallback p'"
    by (simp_all add: strip_def)
  ultimately show "plan = with_fallback (pg_fallback p) (pg_result p)" "state' = pg_state p" using res by simp_all
qed

lemma BuildComparisonPlan_returns:
  "\<exists>plan state'. BuildComparisonPlan R synthetic real1 seed percentage None state = (Some plan, None, state')"
  using object_merge_never [of "planning_start R seed None state" R percentage synthetic real1 0 0
      "fi_objects synthetic" "fi_objects real1" "fi_issues synthetic" "fi_issues real1" "{}"]
  by (auto simp: BuildComparisonPlan_def planning_start_def)

end
