(* ===== verification/PlanCoverage.thy ===== *)
theory PlanCoverage
  imports PlanBuilder
begin

text \<open>
  What a comparison plan contains.  The recorded mismatches are exactly the
  differences of the two inventories (\<open>plan_mismatches\<close>), and at 100 percent the
  tasks cover every byte of every comparable pair of streams (\<open>tasks_cover\<close>); with a
  smaller sample a plan is never empty when there is something to compare.
\<close>

section \<open>The recorded mismatches\<close>

fun mismatch_of :: "event \<Rightarrow> MismatchDetail list" where
  "mismatch_of (Mismatch m) = [m]"
| "mismatch_of _ = []"

abbreviation mismatches_of :: "event list \<Rightarrow> MismatchDetail list" where
  "mismatches_of es \<equiv> concat (map mismatch_of es)"

lemma mismatches_recorded:
  "vs_mismatches (pg_state (run_events R percentage es p)) = vs_mismatches (pg_state p) @ mismatches_of es"
proof (induction es arbitrary: p)
  case (Cons e es)
  have "vs_mismatches (pg_state (run_event R percentage e p)) = vs_mismatches (pg_state p) @ mismatch_of e"
    by (cases e) (auto simp: record_with_def RecordInventoryOperationComparison_def record_ops add_task_def split: prod.splits)
  with Cons show ?case by simp
qed simp

definition stream_differences :: "ObjectRecord \<Rightarrow> ObjectRecord \<Rightarrow> MismatchDetail set" where
  "stream_differences s r =
     {mismatch StreamMissingFromReal (ob_path s) (sr_name x) | x. x \<in> set (ob_streams s) \<and> sr_name x \<notin> sr_name ` set (ob_streams r)} \<union>
     {mismatch StreamMissingFromSynthetic (ob_path r) (sr_name y) | y. y \<in> set (ob_streams r) \<and> sr_name y \<notin> sr_name ` set (ob_streams s)} \<union>
     {(mismatch StreamLength (ob_path s) (sr_name x))\<lparr>md_synthetic_length := sr_length x, md_real_length := sr_length y\<rparr> | x y.
        x \<in> set (ob_streams s) \<and> y \<in> set (ob_streams r) \<and> sr_name x = sr_name y \<and> sr_length x \<noteq> sr_length y}"

text \<open>The objects whose streams are compared.\<close>

definition comparable_pair :: "FilesystemInventory \<Rightarrow> FilesystemInventory \<Rightarrow> ObjectRecord \<Rightarrow> ObjectRecord \<Rightarrow> bool" where
  "comparable_pair synthetic real1 s r \<longleftrightarrow> s \<in> set (fi_objects synthetic) \<and> r \<in> set (fi_objects real1) \<and>
     ob_path s = ob_path r \<and> ob_kind s = ob_kind r \<and>
     comparable s r (failures_of (fi_issues synthetic) (ob_path s)) (failures_of (fi_issues real1) (ob_path r))"

definition inventory_differences :: "FilesystemInventory \<Rightarrow> FilesystemInventory \<Rightarrow> MismatchDetail set" where
  "inventory_differences synthetic real1 =
     {mismatch ObjectMissingFromReal (ob_path s) [] | s. s \<in> set (fi_objects synthetic) \<and>
        ob_path s \<notin> ob_path ` set (fi_objects real1) \<and> \<not> IsBelowIncompleteDirectory real1 (ob_path s)} \<union>
     {mismatch ObjectMissingFromSynthetic (ob_path r) [] | r. r \<in> set (fi_objects real1) \<and>
        ob_path r \<notin> ob_path ` set (fi_objects synthetic) \<and> \<not> IsBelowIncompleteDirectory synthetic (ob_path r)} \<union>
     {(mismatch ObjectType (ob_path s) [])\<lparr>md_synthetic_kind := ob_kind s, md_real_kind := ob_kind r\<rparr> | s r.
        s \<in> set (fi_objects synthetic) \<and> r \<in> set (fi_objects real1) \<and> ob_path s = ob_path r \<and> ob_kind s \<noteq> ob_kind r} \<union>
     \<Union> {stream_differences s r | s r. comparable_pair synthetic real1 s r}"

lemma strict_by_enumerate [simp]: "strict_by (key_of k) (enumerate i xs) \<longleftrightarrow> strict_by k xs"
proof -
  have "strict_by (key_of k) ys \<longleftrightarrow> strict_by k (map snd ys)" for ys :: "(nat \<times> 'a) list"
    by (simp add: strict_by_def sorted_wrt_map)
  then show ?thesis by simp
qed

lemma snd_enumerate: "snd ` set (enumerate i xs) = set xs"
  by (metis list.set_map map_snd_enumerate)

text \<open>Membership in the merge of two indexed lists, for what does not look at the indices.\<close>

lemma merge_enumerate:
  fixes k :: "'a \<Rightarrow> 'k::linorder" and i j :: nat
  assumes "strict_by k ss" "strict_by k rs"
  defines "m \<equiv> set (merge_by (key_of k) (enumerate i ss) (enumerate j rs))"
  shows "(\<exists>a b. (Some (a, s), Some (b, r)) \<in> m) \<longleftrightarrow> s \<in> set ss \<and> r \<in> set rs \<and> k s = k r"
    and "(\<exists>a. (Some (a, s), None) \<in> m) \<longleftrightarrow> s \<in> set ss \<and> k s \<notin> k ` set rs"
    and "(\<exists>b. (None, Some (b, r)) \<in> m) \<longleftrightarrow> r \<in> set rs \<and> k r \<notin> k ` set ss"
proof -
  have ex: "(\<exists>a. (a, x) \<in> set (enumerate n xs)) \<longleftrightarrow> x \<in> set xs" for x :: 'a and n xs
    using snd_enumerate [of n xs] by force
  have all: "(\<forall>y \<in> set (enumerate n xs). k (snd y) \<noteq> q) \<longleftrightarrow> q \<notin> k ` set xs" for n xs q
    using snd_enumerate [of n xs] by force
  note m = in_merge_by [of "key_of k" "enumerate i ss" "enumerate j rs", simplified, OF assms(1,2)]
  show "(\<exists>a b. (Some (a, s), Some (b, r)) \<in> m) \<longleftrightarrow> s \<in> set ss \<and> r \<in> set rs \<and> k s = k r"
    unfolding m_def using ex [of s i ss] ex [of r j rs] by (simp add: m(1))
  show "(\<exists>a. (Some (a, s), None) \<in> m) \<longleftrightarrow> s \<in> set ss \<and> k s \<notin> k ` set rs"
    unfolding m_def m(2) using ex [of s i ss] all [of j rs "k s"] by simp
  show "(\<exists>b. (None, Some (b, r)) \<in> m) \<longleftrightarrow> r \<in> set rs \<and> k r \<notin> k ` set ss"
    unfolding m_def m(3) using ex [of r j rs] all [of i ss "k r"] by simp
qed

text \<open>A merged pair, by its shape.\<close>

lemma bex_merged:
  "(\<exists>x \<in> M. P x) \<longleftrightarrow> (None, None) \<in> M \<and> P (None, None) \<or>
     (\<exists>r. \<exists>b. (None, Some (b, r)) \<in> M \<and> P (None, Some (b, r))) \<or>
     (\<exists>s. \<exists>a. (Some (a, s), None) \<in> M \<and> P (Some (a, s), None)) \<or>
     (\<exists>s r. \<exists>a b. (Some (a, s), Some (b, r)) \<in> M \<and> P (Some (a, s), Some (b, r)))"
  (is "?l \<longleftrightarrow> ?r")
proof
  assume ?l
  then obtain x where x: "x \<in> M" "P x" by blast
  obtain a b where "x = (a, b)" by fastforce
  with x show ?r by (cases a; cases b) auto
qed blast

lemma set_mismatches_concat:
  "m \<in> set (mismatches_of (concat (map f xs))) \<longleftrightarrow> (\<exists>x \<in> set xs. m \<in> set (mismatches_of (f x)))"
  by auto

lemma paired_mismatch:
  "m \<in> set (mismatches_of (stream_event so ro s r c (Some (a, y), Some (b, z)))) \<longleftrightarrow>
   sr_length y \<noteq> sr_length z \<and>
   m = (mismatch StreamLength (ob_path s) (sr_name y))\<lparr>md_synthetic_length := sr_length y, md_real_length := sr_length z\<rparr>"
  by auto

lemma stream_events_mismatches:
  assumes "strict_by sr_name (ob_streams s)" "strict_by sr_name (ob_streams r)"
  shows "set (mismatches_of (stream_events i j s r c 0 0 (ob_streams s) (ob_streams r))) = stream_differences s r"
proof (rule set_eqI)
  fix m
  let ?M = "set (merge_by (key_of sr_name) (enumerate 0 (ob_streams s)) (enumerate 0 (ob_streams r)))"
  note me = merge_enumerate [OF assms, where i = 0 and j = 0]
  have "m \<in> set (mismatches_of (stream_events i j s r c 0 0 (ob_streams s) (ob_streams r))) \<longleftrightarrow>
      (\<exists>y. (\<exists>b. (None, Some (b, y)) \<in> ?M) \<and> m = mismatch StreamMissingFromSynthetic (ob_path r) (sr_name y)) \<or>
      (\<exists>y. (\<exists>a. (Some (a, y), None) \<in> ?M) \<and> m = mismatch StreamMissingFromReal (ob_path s) (sr_name y)) \<or>
      (\<exists>y z. (\<exists>a b. (Some (a, y), Some (b, z)) \<in> ?M) \<and> sr_length y \<noteq> sr_length z \<and>
         m = (mismatch StreamLength (ob_path s) (sr_name y))\<lparr>md_synthetic_length := sr_length y, md_real_length := sr_length z\<rparr>)"
    unfolding stream_events_def set_mismatches_concat bex_merged paired_mismatch by simp
  then show "m \<in> set (mismatches_of (stream_events i j s r c 0 0 (ob_streams s) (ob_streams r))) \<longleftrightarrow> m \<in> stream_differences s r"
    unfolding me stream_differences_def by simp blast
qed

text \<open>The mismatches that one pair of the object merge contributes, whatever was compared before.\<close>

fun pair_mismatches ::
    "FilesystemInventory \<Rightarrow> FilesystemInventory \<Rightarrow>
     ObjectRecord indexed option \<times> ObjectRecord indexed option \<Rightarrow> MismatchDetail set" where
  "pair_mismatches synthetic real1 (None, None) = {}"
| "pair_mismatches synthetic real1 (None, Some (j, r)) =
     (if IsBelowIncompleteDirectory synthetic (ob_path r) then {}
      else {mismatch ObjectMissingFromSynthetic (ob_path r) []})"
| "pair_mismatches synthetic real1 (Some (i, s), None) =
     (if IsBelowIncompleteDirectory real1 (ob_path s) then {}
      else {mismatch ObjectMissingFromReal (ob_path s) []})"
| "pair_mismatches synthetic real1 (Some (i, s), Some (j, r)) =
     (if ob_kind s \<noteq> ob_kind r
      then {(mismatch ObjectType (ob_path s) [])\<lparr>md_synthetic_kind := ob_kind s, md_real_kind := ob_kind r\<rparr>}
      else if comparable s r (failures_of (fi_issues synthetic) (ob_path s)) (failures_of (fi_issues real1) (ob_path r))
      then stream_differences s r else {})"

definition pair_streams_ok :: "ObjectRecord indexed option \<times> ObjectRecord indexed option \<Rightarrow> bool" where
  "pair_streams_ok x \<longleftrightarrow> (\<forall>i s. fst x = Some (i, s) \<longrightarrow> strict_by sr_name (ob_streams s)) \<and>
     (\<forall>j r. snd x = Some (j, r) \<longrightarrow> strict_by sr_name (ob_streams r))"

lemma object_events_mismatches:
  assumes "\<forall>x \<in> set xs. pair_streams_ok x"
  shows "set (mismatches_of (object_events synthetic real1 compared xs)) = (\<Union>x \<in> set xs. pair_mismatches synthetic real1 x)"
  using assms
proof (induction synthetic real1 compared xs rule: object_events.induct)
  case (5 synthetic real1 compared i s j r xs)
  obtain c compared1 where cc: "compare_contents s r compared = (c, compared1)" by fastforce
  have "strict_by sr_name (ob_streams s)" "strict_by sr_name (ob_streams r)"
    using 5(4) by (simp_all add: pair_streams_ok_def)
  note se = stream_events_mismatches [OF this, of i j c]
  have ops: "mismatches_of (operation_events s r f g) = []" for f g
    by (auto simp: operation_events_def)
  note IH = 5(1-3) [OF refl refl]
  show ?case using 5(4) IH cc by (simp add: ops Let_def type_event_def se [simplified])
qed (auto simp: missing_event_def)

abbreviation merged_objects ::
    "FilesystemInventory \<Rightarrow> FilesystemInventory \<Rightarrow> (ObjectRecord indexed option \<times> ObjectRecord indexed option) list" where
  "merged_objects synthetic real1 \<equiv>
     merge_by (key_of ob_path) (enumerate 0 (fi_objects synthetic)) (enumerate 0 (fi_objects real1))"

lemma merged_in:
  assumes "inventory_ok synthetic" "inventory_ok real1"
  shows "(Some a, Some b) \<in> set (merged_objects synthetic real1) \<Longrightarrow>
      a \<in> set (enumerate 0 (fi_objects synthetic)) \<and> b \<in> set (enumerate 0 (fi_objects real1)) \<and> ob_path (snd a) = ob_path (snd b)"
    and "(Some a, None) \<in> set (merged_objects synthetic real1) \<Longrightarrow> a \<in> set (enumerate 0 (fi_objects synthetic))"
    and "(None, Some b) \<in> set (merged_objects synthetic real1) \<Longrightarrow> b \<in> set (enumerate 0 (fi_objects real1))"
  using assms in_merge_by [of "key_of ob_path" "enumerate 0 (fi_objects synthetic)" "enumerate 0 (fi_objects real1)"]
  by (simp_all add: inventory_ok_def)

lemma merged_streams_ok:
  assumes "inventory_ok synthetic" "inventory_ok real1"
  shows "\<forall>x \<in> set (merged_objects synthetic real1). pair_streams_ok x"
proof
  fix x assume x: "x \<in> set (merged_objects synthetic real1)"
  obtain a b where ab: "x = (a, b)" by fastforce
  have mem: "(i, y) \<in> set (enumerate 0 ys) \<Longrightarrow> y \<in> set ys" for i and y :: ObjectRecord and ys
    using snd_enumerate [of 0 ys] by force
  have "strict_by sr_name (ob_streams s)" if "a = Some (i, s)" for i s
  proof -
    have "(i, s) \<in> set (enumerate 0 (fi_objects synthetic))"
      using merged_in(1,2) [OF assms] x that ab by (cases b) blast+
    then show ?thesis using mem assms(1) by (simp add: inventory_ok_def)
  qed
  moreover have "strict_by sr_name (ob_streams r)" if "b = Some (j, r)" for j r
  proof -
    have "(j, r) \<in> set (enumerate 0 (fi_objects real1))"
      using merged_in(1,3) [OF assms] x that ab by (cases a) blast+
    then show ?thesis using mem assms(2) by (simp add: inventory_ok_def)
  qed
  ultimately show "pair_streams_ok x" unfolding pair_streams_ok_def ab by simp
qed

theorem plan_mismatches:
  assumes "inventory_ok synthetic" "inventory_ok real1"
  shows "set (mismatches_of (plan_events synthetic real1)) = inventory_differences synthetic real1"
proof (rule set_eqI)
  fix m
  let ?M = "set (merged_objects synthetic real1)"
  have strict: "strict_by ob_path (fi_objects synthetic)" "strict_by ob_path (fi_objects real1)"
    using assms by (simp_all add: inventory_ok_def)
  note me = merge_enumerate [OF strict, where i = 0 and j = 0]
  have "m \<in> set (mismatches_of (plan_events synthetic real1)) \<longleftrightarrow> (\<exists>x \<in> ?M. m \<in> pair_mismatches synthetic real1 x)"
    unfolding plan_events_def object_events_mismatches [OF merged_streams_ok [OF assms]] by blast
  also have "\<dots> \<longleftrightarrow>
      (\<exists>r. (\<exists>b. (None, Some (b, r)) \<in> ?M) \<and> m \<in> pair_mismatches synthetic real1 (None, Some (0, r))) \<or>
      (\<exists>s. (\<exists>a. (Some (a, s), None) \<in> ?M) \<and> m \<in> pair_mismatches synthetic real1 (Some (0, s), None)) \<or>
      (\<exists>s r. (\<exists>a b. (Some (a, s), Some (b, r)) \<in> ?M) \<and> m \<in> pair_mismatches synthetic real1 (Some (0, s), Some (0, r)))"
    unfolding bex_merged by simp
  also have "\<dots> \<longleftrightarrow> m \<in> inventory_differences synthetic real1"
    unfolding me inventory_differences_def comparable_pair_def by (simp split: if_splits) blast
  finally show "m \<in> set (mismatches_of (plan_events synthetic real1)) \<longleftrightarrow> m \<in> inventory_differences synthetic real1" .
qed

section \<open>The tasks\<close>

fun task_of :: "event \<Rightarrow> ReadTask list" where
  "task_of (Add t) = [t]"
| "task_of _ = []"

abbreviation tasks_of :: "event list \<Rightarrow> ReadTask list" where
  "tasks_of es \<equiv> concat (map task_of es)"

lemma chunks_cover:
  assumes "offset \<le> k" "k < len"
  shows "\<exists>(a, n) \<in> set (chunks len offset). a \<le> k \<and> k < a + int n"
  using assms
proof (induction len offset rule: chunks.induct)
  case (1 len offset)
  let ?n = "min kReadChunkSize (nat (len - offset))"
  have lt: "offset < len" using 1(2,3) by simp
  show ?case
  proof (cases "k < offset + int ?n")
    case True
    then show ?thesis using 1(2) lt by (subst chunks.simps) (simp add: Let_def)
  next
    case False
    then have "\<exists>(a, n) \<in> set (chunks len (offset + int ?n)). a \<le> k \<and> k < a + int n" using 1(1) [OF lt refl] 1(3) by simp
    then show ?thesis using lt by (subst chunks.simps) (simp add: Let_def)
  qed
qed

lemma chunks_bounds:
  "(a, n) \<in> set (chunks len offset) \<Longrightarrow> offset \<le> a \<and> 0 < n \<and> n \<le> kReadChunkSize \<and> a + int n \<le> len"
proof (induction len offset rule: chunks.induct)
  case (1 len offset)
  show ?case using 1 by (subst (asm) (2) chunks.simps) (fastforce simp: Let_def split: if_splits)
qed

lemma chunks_total: "sum_list (map snd (chunks len offset)) = nat (len - offset)"
proof (induction len offset rule: chunks.induct)
  case (1 len offset)
  then show ?case by (subst chunks.simps) (auto simp: Let_def min_def)
qed

text \<open>A task that addresses streams \<open>x\<close> and \<open>y\<close> of the objects \<open>s\<close> and \<open>r\<close>.\<close>

definition task_streams ::
    "FilesystemInventory \<Rightarrow> FilesystemInventory \<Rightarrow> ReadTask \<Rightarrow> ObjectRecord \<Rightarrow> ObjectRecord \<Rightarrow> StreamRecord \<Rightarrow> StreamRecord \<Rightarrow> bool" where
  "task_streams synthetic real1 t s r x y \<longleftrightarrow>
     rt_synthetic_object t < length (fi_objects synthetic) \<and> fi_objects synthetic ! rt_synthetic_object t = s \<and>
     rt_real_object t < length (fi_objects real1) \<and> fi_objects real1 ! rt_real_object t = r \<and>
     rt_synthetic_stream t < length (ob_streams s) \<and> ob_streams s ! rt_synthetic_stream t = x \<and>
     rt_real_stream t < length (ob_streams r) \<and> ob_streams r ! rt_real_stream t = y"

definition task_valid :: "FilesystemInventory \<Rightarrow> FilesystemInventory \<Rightarrow> ReadTask \<Rightarrow> bool" where
  "task_valid synthetic real1 t \<longleftrightarrow> (\<exists>s r x y. task_streams synthetic real1 t s r x y \<and>
     comparable_pair synthetic real1 s r \<and> sr_name x = sr_name y \<and> sr_length x = sr_length y \<and>
     0 \<le> rt_offset t \<and> 0 < rt_length t \<and> rt_length t \<le> kReadChunkSize \<and> rt_offset t + int (rt_length t) \<le> sr_length x)"

definition task_covers :: "ReadTask \<Rightarrow> int \<Rightarrow> bool" where
  "task_covers t k \<longleftrightarrow> rt_offset t \<le> k \<and> k < rt_offset t + int (rt_length t)"

lemma stream_merged:
  assumes "strict_by sr_name (ob_streams s)" "strict_by sr_name (ob_streams r)"
  shows "(Some (a, x), Some (b, y)) \<in> set (merge_by (key_of sr_name) (enumerate 0 (ob_streams s)) (enumerate 0 (ob_streams r))) \<longleftrightarrow>
    a < length (ob_streams s) \<and> x = ob_streams s ! a \<and> b < length (ob_streams r) \<and> y = ob_streams r ! b \<and> sr_name x = sr_name y"
  using in_merge_by(1) [of "key_of sr_name" "enumerate 0 (ob_streams s)" "enumerate 0 (ob_streams r)" "(a, x)" "(b, y)"] assms
  by (auto simp: in_set_enumerate_eq)

lemma task_of_stream_event:
  "Add t \<in> set (stream_event i j s r c z) \<longleftrightarrow> c \<and> (\<exists>a x b y off n. z = (Some (a, x), Some (b, y)) \<and>
     sr_length x = sr_length y \<and> (off, n) \<in> set (chunks (sr_length x) 0) \<and> t = read_task i j a b off n)"
  by (cases "(i, j, s, r, c, z)" rule: stream_event.cases) auto

lemma in_tasks_of: "t \<in> set (tasks_of es) \<longleftrightarrow> Add t \<in> set es"
proof -
  have "t \<in> set (task_of e) \<longleftrightarrow> e = Add t" for e by (cases e) auto
  then show ?thesis by simp
qed

lemma stream_events_tasks:
  assumes "strict_by sr_name (ob_streams s)" "strict_by sr_name (ob_streams r)"
  shows "Add t \<in> set (stream_events i j s r c 0 0 (ob_streams s) (ob_streams r)) \<longleftrightarrow>
    c \<and> rt_synthetic_object t = i \<and> rt_real_object t = j \<and>
    rt_synthetic_stream t < length (ob_streams s) \<and> rt_real_stream t < length (ob_streams r) \<and>
    (let x = ob_streams s ! rt_synthetic_stream t; y = ob_streams r ! rt_real_stream t
     in sr_name x = sr_name y \<and> sr_length x = sr_length y \<and> (rt_offset t, rt_length t) \<in> set (chunks (sr_length x) 0))"
  (is "?l \<longleftrightarrow> ?r")
proof
  assume ?l
  then obtain z where z: "z \<in> set (merge_by (key_of sr_name) (enumerate 0 (ob_streams s)) (enumerate 0 (ob_streams r)))"
    "Add t \<in> set (stream_event i j s r c z)" by (auto simp: stream_events_def)
  from z(2) [unfolded task_of_stream_event] obtain a x b y off n where
    e: "c" "z = (Some (a, x), Some (b, y))" "sr_length x = sr_length y" "(off, n) \<in> set (chunks (sr_length x) 0)"
      "t = read_task i j a b off n" by blast
  then show ?r using z(1) unfolding e(2) stream_merged [OF assms] by (auto simp: read_task_def)
next
  assume r: ?r
  let ?a = "rt_synthetic_stream t" and ?b = "rt_real_stream t"
  let ?z = "(Some (?a, ob_streams s ! ?a), Some (?b, ob_streams r ! ?b))"
  have "?z \<in> set (merge_by (key_of sr_name) (enumerate 0 (ob_streams s)) (enumerate 0 (ob_streams r)))"
    using r unfolding stream_merged [OF assms] by (simp add: Let_def)
  moreover have "t = read_task i j ?a ?b (rt_offset t) (rt_length t)" using r by (simp add: read_task_def)
  then have "Add t \<in> set (stream_event i j s r c ?z)" using r unfolding task_of_stream_event by (simp add: Let_def) metis
  ultimately show ?l unfolding stream_events_def set_concat set_map by blast
qed

text \<open>Which pair's streams are queued for a given pair: its own, or those of an earlier hard link.\<close>

definition paired :: "FilesystemInventory \<Rightarrow> FilesystemInventory \<Rightarrow> ObjectRecord \<Rightarrow> ObjectRecord \<Rightarrow> bool" where
  "paired synthetic real1 s r \<longleftrightarrow> ob_kind s = ob_kind r \<and>
     comparable s r (failures_of (fi_issues synthetic) (ob_path s)) (failures_of (fi_issues real1) (ob_path r))"

abbreviation own_events :: "nat \<Rightarrow> nat \<Rightarrow> ObjectRecord \<Rightarrow> ObjectRecord \<Rightarrow> bool \<Rightarrow> event list" where
  "own_events i j s r c \<equiv> stream_events i j s r c 0 0 (ob_streams s) (ob_streams r)"

definition same_link :: "ObjectRecord \<Rightarrow> ObjectRecord \<Rightarrow> bool" where
  "same_link s s' \<longleftrightarrow> s' = s \<or> (ob_identity s \<noteq> 0 \<and> ob_identity s' = ob_identity s)"

definition queued ::
    "FilesystemInventory \<Rightarrow> FilesystemInventory \<Rightarrow> ObjectRecord \<Rightarrow> ObjectRecord \<Rightarrow>
     (ObjectRecord indexed option \<times> ObjectRecord indexed option) list \<Rightarrow> event list \<Rightarrow> bool" where
  "queued synthetic real1 s r xs es \<longleftrightarrow>
     (\<exists>i' s' j' r'. (Some (i', s'), Some (j', r')) \<in> set xs \<and> paired synthetic real1 s' r' \<and>
        same_link s s' \<and> same_link r r' \<and> set (own_events i' j' s' r' True) \<subseteq> set es)"

lemma queuedI:
  "(Some (i', s'), Some (j', r')) \<in> set xs \<Longrightarrow> paired synthetic real1 s' r' \<Longrightarrow> same_link s s' \<Longrightarrow> same_link r r' \<Longrightarrow>
   set (own_events i' j' s' r' True) \<subseteq> set es \<Longrightarrow> queued synthetic real1 s r xs es"
  unfolding queued_def by blast

lemma queued_mono: "queued synthetic real1 s r xs es \<Longrightarrow> set es \<subseteq> set es' \<Longrightarrow> queued synthetic real1 s r (x # xs) es'"
  unfolding queued_def by (meson list.set_intros(2) subset_trans)

lemma queued_later: "queued synthetic real1 s r xs es \<Longrightarrow> queued synthetic real1 s r (x # xs) (es0 @ es)"
  by (rule queued_mono) auto

lemma compare_contents_cases:
  assumes "compare_contents s r compared = (c, compared1)"
  shows "c \<or> (ob_identity s \<noteq> 0 \<and> ob_identity r \<noteq> 0 \<and> (ob_identity s, ob_identity r) \<in> compared)"
    "k \<in> compared1 \<Longrightarrow> k \<in> compared \<or> k = (ob_identity s, ob_identity r) \<and> c"
  using assms by (auto simp: compare_contents_def split: if_splits)

lemma object_events_queued:
  assumes "(Some (i, s), Some (j, r)) \<in> set xs" "paired synthetic real1 s r"
  shows "(ob_identity s \<noteq> 0 \<and> ob_identity r \<noteq> 0 \<and> (ob_identity s, ob_identity r) \<in> compared) \<or>
    queued synthetic real1 s r xs (object_events synthetic real1 compared xs)"
  using assms
proof (induction synthetic real1 compared xs rule: object_events.induct)
  case (5 synthetic real1 compared i0 s0 j0 r0 xs)
  let ?xs = "(Some (i0, s0), Some (j0, r0)) # xs"
  let ?es = "object_events synthetic real1 compared ?xs"
  obtain c compared1 where cc: "compare_contents s0 r0 compared = (c, compared1)" by fastforce
  have own: "queued synthetic real1 s r ?xs ?es" if "paired synthetic real1 s0 r0" c "same_link s s0" "same_link r r0"
    by (rule queuedI [of i0 s0 j0 r0]) (use that cc in \<open>auto simp: paired_def Let_def\<close>)
  show ?case
  proof (cases "(i, s, j, r) = (i0, s0, j0, r0)")
    case True
    then show ?thesis using own compare_contents_cases(1) [OF cc] 5(5) by (auto simp: same_link_def)
  next
    case False
    then have m: "(Some (i, s), Some (j, r)) \<in> set xs" using 5(4) by auto
    define after where "after = (if paired synthetic real1 s0 r0 then compared1 else compared)"
    have sub: "set (object_events synthetic real1 after xs) \<subseteq> set ?es"
      using cc by (auto simp: after_def paired_def Let_def)
    have IH: "(ob_identity s \<noteq> 0 \<and> ob_identity r \<noteq> 0 \<and> (ob_identity s, ob_identity r) \<in> after) \<or>
      queued synthetic real1 s r xs (object_events synthetic real1 after xs)"
      using 5(1-3) [OF refl refl] m 5(5) cc unfolding after_def paired_def by (cases "ob_kind s0 = ob_kind r0") simp_all
    have "queued synthetic real1 s r ?xs ?es" if "ob_identity s \<noteq> 0" "ob_identity r \<noteq> 0"
      "(ob_identity s, ob_identity r) \<in> after" "(ob_identity s, ob_identity r) \<notin> compared"
    proof -
      have "paired synthetic real1 s0 r0" "(ob_identity s, ob_identity r) \<in> compared1"
        using that(3,4) by (simp_all add: after_def split: if_splits)
      then show ?thesis using compare_contents_cases(2) [OF cc, of "(ob_identity s, ob_identity r)"] that own
        by (simp add: same_link_def del: object_events.simps)
    qed
    then show ?thesis using IH queued_mono [OF _ sub] by blast
  qed
qed (use queued_mono [OF _ subset_refl] queued_later in auto)

text \<open>Every task of a plan addresses a comparable pair of streams and lies inside them.\<close>

lemma object_events_tasks:
  "Add t \<in> set (object_events synthetic real1 compared xs) \<Longrightarrow>
   \<exists>i s j r c. (Some (i, s), Some (j, r)) \<in> set xs \<and> paired synthetic real1 s r \<and> Add t \<in> set (own_events i j s r c)"
proof (induction synthetic real1 compared xs rule: object_events.induct)
  case (5 synthetic real1 compared i0 s0 j0 r0 xs)
  obtain c compared1 where cc: "compare_contents s0 r0 compared = (c, compared1)" by fastforce
  have ops: "Add t \<notin> set (operation_events s0 r0 f g)" for f g by (simp add: operation_events_def)
  consider "paired synthetic real1 s0 r0" "Add t \<in> set (own_events i0 j0 s0 r0 c)"
    | "paired synthetic real1 s0 r0" "Add t \<in> set (object_events synthetic real1 compared1 xs)"
    | "\<not> paired synthetic real1 s0 r0" "Add t \<in> set (object_events synthetic real1 compared xs)"
    using 5(4) cc ops by (auto simp: paired_def Let_def type_event_def split: if_splits)
  then show ?case
  proof cases
    case 1
    then show ?thesis by (metis list.set_intros(1))
  next
    case 2
    then show ?thesis using 5(2) [OF refl refl _ _ cc [symmetric] refl] unfolding paired_def by (metis list.set_intros(2))
  next
    case 3
    then show ?thesis using 5(1,3) [OF refl refl] unfolding paired_def by (metis list.set_intros(2))
  qed
qed (auto simp: missing_event_def split: if_splits)

lemma merged_pair:
  assumes "inventory_ok synthetic" "inventory_ok real1" "(Some (i, s), Some (j, r)) \<in> set (merged_objects synthetic real1)"
  shows "i < length (fi_objects synthetic)" "fi_objects synthetic ! i = s" "j < length (fi_objects real1)"
    "fi_objects real1 ! j = r" "ob_path s = ob_path r" "strict_by sr_name (ob_streams s)" "strict_by sr_name (ob_streams r)"
    "s \<in> set (fi_objects synthetic)" "r \<in> set (fi_objects real1)"
proof -
  show m: "i < length (fi_objects synthetic)" "fi_objects synthetic ! i = s" "j < length (fi_objects real1)"
    "fi_objects real1 ! j = r" "ob_path s = ob_path r"
    using merged_in(1) [OF assms] by (simp_all add: in_set_enumerate_eq)
  show "strict_by sr_name (ob_streams s)" "strict_by sr_name (ob_streams r)"
    using merged_streams_ok [OF assms(1,2)] assms(3) by (auto simp: pair_streams_ok_def)
  show "s \<in> set (fi_objects synthetic)" "r \<in> set (fi_objects real1)" using m(1-4) by auto
qed

lemma plan_tasks_valid:
  assumes "inventory_ok synthetic" "inventory_ok real1" "t \<in> set (tasks_of (plan_events synthetic real1))"
  shows "task_valid synthetic real1 t"
proof -
  obtain i s j r c where p: "(Some (i, s), Some (j, r)) \<in> set (merged_objects synthetic real1)" "paired synthetic real1 s r"
    "Add t \<in> set (own_events i j s r c)"
    using object_events_tasks assms(3) unfolding in_tasks_of plan_events_def by blast
  note m = merged_pair [OF assms(1,2) p(1)]
  show ?thesis
    using p(2,3) m chunks_bounds unfolding stream_events_tasks [OF m(6,7)] task_valid_def task_streams_def comparable_pair_def paired_def Let_def
    by (smt (verit, best))
qed

text \<open>
  Every byte of a comparable pair is covered by a task of the pair itself or of a
  pair of hard links to the same two files.
\<close>

lemma plan_tasks_cover:
  assumes "inventory_ok synthetic" "inventory_ok real1" "comparable_pair synthetic real1 s r"
  obtains s' r' where "comparable_pair synthetic real1 s' r'" "same_link s s'" "same_link r r'"
    "\<And>a b k. a < length (ob_streams s') \<Longrightarrow> b < length (ob_streams r') \<Longrightarrow>
       sr_name (ob_streams s' ! a) = sr_name (ob_streams r' ! b) \<Longrightarrow>
       sr_length (ob_streams s' ! a) = sr_length (ob_streams r' ! b) \<Longrightarrow> 0 \<le> k \<Longrightarrow> k < sr_length (ob_streams s' ! a) \<Longrightarrow>
       \<exists>t \<in> set (tasks_of (plan_events synthetic real1)).
         task_streams synthetic real1 t s' r' (ob_streams s' ! a) (ob_streams r' ! b) \<and> task_covers t k"
proof -
  have strict: "strict_by ob_path (fi_objects synthetic)" "strict_by ob_path (fi_objects real1)"
    using assms(1,2) by (simp_all add: inventory_ok_def)
  obtain i j where "(Some (i, s), Some (j, r)) \<in> set (merged_objects synthetic real1)"
    using merge_enumerate(1) [OF strict, of s r 0 0] assms(3) by (auto simp: comparable_pair_def)
  moreover have "paired synthetic real1 s r" using assms(3) unfolding comparable_pair_def paired_def by blast
  ultimately have "queued synthetic real1 s r (merged_objects synthetic real1) (plan_events synthetic real1)"
    using object_events_queued [of i s j r _ synthetic real1 "{}"] by (simp add: plan_events_def)
  then obtain i' s' j' r' where q: "(Some (i', s'), Some (j', r')) \<in> set (merged_objects synthetic real1)"
    "paired synthetic real1 s' r'" "same_link s s'" "same_link r r'"
    "set (own_events i' j' s' r' True) \<subseteq> set (plan_events synthetic real1)" unfolding queued_def by blast
  note m = merged_pair [OF assms(1,2) q(1)]
  show thesis
  proof (rule that [of s' r'])
    show "comparable_pair synthetic real1 s' r'" using q(2) m unfolding comparable_pair_def paired_def by blast
    fix a b k
    assume h: "a < length (ob_streams s')" "b < length (ob_streams r')"
      "sr_name (ob_streams s' ! a) = sr_name (ob_streams r' ! b)"
      "sr_length (ob_streams s' ! a) = sr_length (ob_streams r' ! b)" "0 \<le> k" "k < sr_length (ob_streams s' ! a)"
    obtain off n where c: "(off, n) \<in> set (chunks (sr_length (ob_streams s' ! a)) 0)" "off \<le> k" "k < off + int n"
      using chunks_cover [OF h(5,6)] by blast
    let ?t = "read_task i' j' a b off n"
    have "Add ?t \<in> set (own_events i' j' s' r' True)"
      unfolding stream_events_tasks [OF m(6,7)] using h(1-4) c(1) by (simp add: read_task_def)
    then have "?t \<in> set (tasks_of (plan_events synthetic real1))" using q(5) unfolding in_tasks_of by blast
    moreover have "task_streams synthetic real1 ?t s' r' (ob_streams s' ! a) (ob_streams r' ! b)" "task_covers ?t k"
      using m h(1,2) c(2,3) by (simp_all add: task_streams_def task_covers_def read_task_def)
    ultimately show "\<exists>t \<in> set (tasks_of (plan_events synthetic real1)).
        task_streams synthetic real1 t s' r' (ob_streams s' ! a) (ob_streams r' ! b) \<and> task_covers t k" by blast
  qed (use q(3,4) in simp_all)
qed

section \<open>The returned plan\<close>

lemma add_task_all:
  assumes "100 \<le> percentage"
  shows "cp_tasks (pg_result (add_task R percentage t p)) = cp_tasks (pg_result p) @ [t]"
    "pg_fallback (add_task R percentage t p) = pg_fallback p"
  using assms by (simp_all add: add_task_def select_task_def Let_def)

lemma run_events_all:
  assumes "100 \<le> percentage"
  shows "cp_tasks (pg_result (run_events R percentage es p)) = cp_tasks (pg_result p) @ tasks_of es \<and>
    pg_fallback (run_events R percentage es p) = pg_fallback p"
proof (induction es arbitrary: p)
  case (Cons e es)
  have "cp_tasks (pg_result (run_event R percentage e p)) = cp_tasks (pg_result p) @ task_of e"
    by (cases e) (simp_all add: record_with_def add_task_all [OF assms])
  moreover have "pg_fallback (run_event R percentage e p) = pg_fallback p"
    by (cases e) (simp_all add: record_with_def add_task_all [OF assms])
  ultimately show ?case using Cons by simp
qed simp

definition drawn_from :: "ReadTask list \<Rightarrow> 'g planning \<Rightarrow> bool" where
  "drawn_from ts p \<longleftrightarrow> set (cp_tasks (pg_result p)) \<subseteq> set ts \<and> set_option (pg_fallback p) \<subseteq> set ts"

lemma run_events_sample:
  "drawn_from ts p \<Longrightarrow> drawn_from (ts @ tasks_of es) (run_events R percentage es p)"
proof (induction es arbitrary: ts p)
  case (Cons e es)
  have "drawn_from (ts @ task_of e) (run_event R percentage e p)"
    using Cons(2) by (cases e) (auto simp: drawn_from_def record_with_def add_task_def select_task_def Let_def split: prod.splits)
  from Cons(1) [OF this] show ?case by simp
qed simp

text \<open>A draw from a single number is that number, so the first task is held as the fallback.\<close>

lemma run_events_fallback:
  assumes "\<And>g. fst (rd_uniform R 0 0 g) = 0" "percentage < 100"
  shows "(pg_task_count p = 0 \<or> pg_fallback p \<noteq> None) \<Longrightarrow> (tasks_of es \<noteq> [] \<or> pg_task_count p \<noteq> 0) \<Longrightarrow>
    pg_fallback (run_events R percentage es p) \<noteq> None"
proof (induction es arbitrary: p)
  case (Cons e es)
  have "(pg_task_count (run_event R percentage e p) = 0 \<or> pg_fallback (run_event R percentage e p) \<noteq> None) \<and>
      (tasks_of es \<noteq> [] \<or> pg_task_count (run_event R percentage e p) \<noteq> 0)"
  proof (cases e)
    case (Add t)
    have "pg_fallback (add_task R percentage t p) \<noteq> None"
      using Cons(2) assms(1) [of "pg_random p"] assms(2) by (auto simp: add_task_def Let_def split: prod.splits)
    moreover have "pg_task_count (add_task R percentage t p) \<noteq> 0"
      by (simp add: add_task_def Let_def split: prod.splits)
    ultimately show ?thesis using Add by simp
  qed (use Cons(2,3) in \<open>simp_all add: record_with_def\<close>)
  then show ?case using Cons(1) by simp
qed simp

theorem BuildComparisonPlan_plan:
  assumes "BuildComparisonPlan R synthetic real1 seed percentage cancel state = (Some plan, cancel', state')"
    and "inventory_ok synthetic" "inventory_ok real1"
  shows "\<exists>ms. vs_mismatches state' = vs_mismatches state @ ms \<and> set ms = inventory_differences synthetic real1"
    and "set (cp_tasks plan) \<subseteq> set (tasks_of (plan_events synthetic real1))"
    and "100 \<le> percentage \<Longrightarrow> cp_tasks plan = tasks_of (plan_events synthetic real1)"
    and "(\<And>g. fst (rd_uniform R 0 0 g) = 0) \<Longrightarrow> tasks_of (plan_events synthetic real1) \<noteq> [] \<Longrightarrow> cp_tasks plan \<noteq> []"
proof -
  let ?start = "planning_start R seed None state" and ?es = "plan_events synthetic real1"
  let ?p = "run_events R percentage ?es ?start"
  note b = BuildComparisonPlan_events [OF assms]
  show "\<exists>ms. vs_mismatches state' = vs_mismatches state @ ms \<and> set ms = inventory_differences synthetic real1"
    using plan_mismatches [OF assms(2,3)] b(2) mismatches_recorded [where R = R and percentage = percentage and es = ?es and p = ?start]
    by (simp add: planning_start_def) 
  have "drawn_from [] ?start" by (simp add: drawn_from_def planning_start_def)
  from run_events_sample [OF this, of ?es R percentage]
  show "set (cp_tasks plan) \<subseteq> set (tasks_of ?es)"
    using b(1) by (auto simp: drawn_from_def with_fallback_def split: option.splits if_splits)
  show all: "cp_tasks plan = tasks_of ?es" if "100 \<le> percentage"
    using run_events_all [OF that, of R ?es ?start] b(1)
    by (auto simp: with_fallback_def planning_start_def)
  show "cp_tasks plan \<noteq> []" if "\<And>g. fst (rd_uniform R 0 0 g) = 0" "tasks_of ?es \<noteq> []"
  proof (cases "100 \<le> percentage")
    case False
    then have "pg_fallback ?p \<noteq> None"
      using run_events_fallback [of R percentage ?start ?es] that by (simp add: planning_start_def)
    then show ?thesis using b(1) by (auto simp: with_fallback_def split: if_splits)
  qed (use all that in simp)
qed

text \<open>Planning touches the verification state only through the recording operations, cancelled or not.\<close>

lemma poll_state: "poll p = (b, p1) \<Longrightarrow> pg_state p1 = pg_state p"
  by (auto simp: poll_def split: prod.splits)

lemma record_with_state [simp]: "pg_state (record_with f p) = f (pg_state p)"
  by (simp add: record_with_def)

lemma add_task_state [simp]: "pg_state (add_task R percentage t p) = pg_state p"
  by (simp add: add_task_def Let_def split: prod.splits)

lemma chunk_loop_state: "pg_state (snd (chunk_loop R percentage task_at len offset p)) = pg_state p"
proof (induction R percentage task_at len offset p rule: chunk_loop.induct)
  case (1 R percentage task_at len offset p)
  obtain b p1 where p1: "poll p = (b, p1)" by fastforce
  note IH = 1 [OF _ p1 [symmetric] _ refl]
  show ?case
    using IH poll_state [OF p1]
    by (cases "offset < len"; cases b) (simp_all add: chunk_loop.simps [of _ _ _ _ offset] p1 Let_def)
qed

context recorder begin

lemma kept_inventory_operation: "kept s \<Longrightarrow> kept (RecordInventoryOperationComparison path op1 f g s)"
  by (simp add: RecordInventoryOperationComparison_def kept_operation)

lemma kept_adds:
  assumes "kept s"
  shows "kept (AddStreamMismatch k x y s)" "kept (AddLengthMismatch x y z s)" "kept (AddTypeMismatch x x' s)"
    "kept (object_missing other k x s)" "kept (object_operations x x' f g s)"
  using assms by (simp_all add: add_mismatch_defs object_missing_def object_operations_def kept_mismatch kept_inventory_operation Let_def)

lemma kept_streams:
  "kept (pg_state p) \<Longrightarrow> kept (pg_state (snd (stream_merge R percentage so ro synthetic real1 c i j ss rs p)))"
proof (induction "length ss + length rs" arbitrary: c i j ss rs p rule: less_induct)
  case less
  note IH = less(1) and step = stream_merge.simps [where i = i and j = j and p = p]
  obtain b p1 where p1: "poll p = (b, p1)" by fastforce
  have k1: "kept (pg_state p1)" using less(2) poll_state [OF p1] by simp
  have k2: "kept (pg_state p2)" if "chunk_loop R percentage f n off p1 = (fin, p2)" for f n off fin p2
    using chunk_loop_state [of R percentage f n off p1] that k1 by simp
  note k = IH kept_adds [OF k1]
  show ?case
  proof (cases ss; cases rs)
    fix s ss' r rs'
    assume c: "ss = s # ss'" "rs = r # rs'"
    show ?thesis by (auto simp: c step p1 k k1 Let_def split: prod.split dest: k2)
  qed (simp_all add: step p1 k k1 less(2))
qed

lemma kept_objects:
  "kept (pg_state p) \<Longrightarrow> kept (pg_state (snd (object_merge R percentage synthetic real1 i j ss rs si ri compared p)))"
proof (induction "length ss + length rs" arbitrary: i j ss rs si ri compared p rule: less_induct)
  case less
  note IH = less(1) and step = object_merge.simps [where i = i and j = j and p = p]
  obtain b p1 where p1: "poll p = (b, p1)" by fastforce
  have k1: "kept (pg_state p1)" using less(2) poll_state [OF p1] by simp
  have k2: "kept (pg_state (record_with (object_operations x x' f g) p1))" for x x' f g
    by (simp add: kept_adds k1)
  have k3: "kept (pg_state p3)"
    if "AppendStreamTasks R percentage i' j' x x' c (record_with (object_operations x x' f g) p1) = (fin, p3)" for i' j' x x' c f g fin p3
    using kept_streams [OF k2 [of x x' f g], of R percentage i' j' x x' c] that by (metis AppendStreamTasks_def snd_conv)
  note k = IH kept_adds k1
  show ?case
  proof (cases ss; cases rs)
    fix s ss' r rs'
    assume c: "ss = s # ss'" "rs = r # rs'"
    show ?thesis by (auto simp: c step p1 k Let_def split: prod.split dest: k3)
  qed (simp_all add: step p1 k less(2))
qed

lemma kept_plan:
  assumes "BuildComparisonPlan R synthetic real1 seed percentage cancel state = (plan, cancel', state')" "kept state"
  shows "kept state'"
  using assms kept_objects [of "planning_start R seed cancel state" R percentage synthetic real1 0 0 "fi_objects synthetic"
      "fi_objects real1" "fi_issues synthetic" "fi_issues real1" "{}"]
  by (auto simp: BuildComparisonPlan_def planning_start_def split: prod.splits)

end

end
