(* ===== verification/Traversal.thy ===== *)
theory Traversal
  imports VerifierState "HOL-Library.Multiset"
begin

text \<open>
  The inventory of one mounted filesystem: \<open>FilesystemTraverser\<close> of
  \<open>src/modules/supervisor/native_backup/filesystem_verifier_impl.cpp\<close> (lines 775
  to 1370).  Four workers share a queue of tasks under one mutex.  Each locked
  section of the source is one atomic operation on the record \<open>Traverser\<close>, and
  \<open>step\<close> interleaves the sections of the workers in any order; cancellation may
  be signalled and a worker may fail at any point.

  The mounted view does not change while it is traversed, so a task carries the
  object that its path names: what opening it, listing its streams and listing
  its entries return.

  Results: whatever the schedule, the traversal terminates (\<open>step_terminates\<close>),
  no worker waits forever (\<open>no_idle_wait\<close>), and a traversal that ends without
  cancellation or failure has recorded every object, failure and incomplete
  directory of the tree exactly once (\<open>finished_inventory\<close>).
\<close>

section \<open>The filesystem\<close>

datatype fs_node = FsNode (fn_open: "nat option") (fn_streams: "nat + (wstring \<times> int) list") (fn_batches: "fs_batch list")
  and fs_batch = BatchFailed nat | Batch "fs_entry list"
  and fs_entry = FsEntry (en_name: wstring) (en_attributes: "32 word") (en_id: nat) (en_node: fs_node)

definition ClassifyObject :: "32 word \<Rightarrow> ObjectKind" where
  "ClassifyObject attributes =
     (let directory = (attributes AND 0x10 \<noteq> 0); reparse = (attributes AND 0x400 \<noteq> 0)
      in if directory \<and> reparse then DirectoryReparsePoint
         else if directory then Directory
         else if reparse then FileReparsePoint
         else File)"

definition QueryObjectStreams :: "fs_node \<Rightarrow> OperationFailure + StreamRecord list" where
  "QueryObjectStreams n =
     (case fn_streams n of
        Inl err \<Rightarrow> Inl (failure_of err)
      | Inr streams \<Rightarrow> Inr (sort_key sr_name (map (\<lambda>(name, size1).
          \<lparr>sr_name = (if name = wide ''::$DATA'' then [] else name), sr_length = size1\<rparr>) streams)))"

definition ChildPath :: "wstring \<Rightarrow> wstring \<Rightarrow> wstring" where
  "ChildPath parent name = (if parent = [] then name else parent @ [92] @ name)"

record TraversalTask =
  tt_path :: wstring
  tt_kind :: ObjectKind
  tt_identity :: "nat option"
  tt_node :: fs_node

section \<open>The shared state and its locked sections\<close>

record Traverser =
  tr_pending :: "TraversalTask list"
  tr_active :: nat
  tr_failure :: "error option"
  tr_inventory :: FilesystemInventory
  tr_streams_by_identity :: "nat \<rightharpoonup> nat"
  tr_state :: VerificationState

definition Queue :: "VerificationEndpoint \<Rightarrow> bool \<Rightarrow> TraversalTask list \<Rightarrow> Traverser \<Rightarrow> Traverser" where
  "Queue endpoint cancelled tasks t =
     (if tasks = [] \<or> cancelled \<or> tr_failure t \<noteq> None then t
      else t\<lparr>tr_pending := tr_pending t @ tasks,
             tr_state := RecordTraversalTasks endpoint (length tasks) (tr_state t)\<rparr>)"

text \<open>\<open>Take\<close> returns a task, returns nothing (the worker ends), or waits.\<close>

datatype taken = Task TraversalTask | NoTask | Wait

definition Take :: "bool \<Rightarrow> Traverser \<Rightarrow> taken \<times> Traverser" where
  "Take cancelled t =
     (if cancelled \<or> tr_failure t \<noteq> None then (NoTask, t)
      else case tr_pending t of
        task # rest \<Rightarrow> (Task task, t\<lparr>tr_pending := rest, tr_active := tr_active t + 1\<rparr>)
      | [] \<Rightarrow> (if tr_active t = 0 then NoTask else Wait, t))"

definition CompleteTask :: "VerificationEndpoint \<Rightarrow> Traverser \<Rightarrow> Traverser" where
  "CompleteTask endpoint t = t\<lparr>tr_active := tr_active t - 1,
     tr_state := RecordTraversalTaskCompleted endpoint (tr_state t)\<rparr>"

definition FailTraversal :: "error \<Rightarrow> Traverser \<Rightarrow> Traverser" where
  "FailTraversal e t = (if tr_failure t = None then t\<lparr>tr_failure := Some e\<rparr> else t)"

definition CachedStreams :: "Traverser \<Rightarrow> nat option \<Rightarrow> StreamRecord list option" where
  "CachedStreams t identity =
     (case identity of
        None \<Rightarrow> None
      | Some i \<Rightarrow>
          if i = 0 then None
          else (case tr_streams_by_identity t i of
                  None \<Rightarrow> None
                | Some index \<Rightarrow> Some (ob_streams (fi_objects (tr_inventory t) ! index))))"

definition stream_bytes :: "StreamRecord list \<Rightarrow> nat" where
  "stream_bytes streams = foldl (\<lambda>total s. if sr_length s > 0 then SaturatingSum total (nat (sr_length s)) else total) 0 streams"

definition Commit :: "VerificationEndpoint \<Rightarrow> ObjectRecord \<Rightarrow> Traverser \<Rightarrow> Traverser" where
  "Commit endpoint ob t =
     (let index = length (fi_objects (tr_inventory t));
          keys = tr_streams_by_identity t;
          remember = ob_streams_complete ob \<and> ob_kind ob \<noteq> Directory \<and> ob_identity ob \<noteq> 0
      in t\<lparr>tr_inventory := (tr_inventory t)\<lparr>fi_objects := fi_objects (tr_inventory t) @ [ob]\<rparr>,
           tr_streams_by_identity :=
             (if remember \<and> keys (ob_identity ob) = None then keys(ob_identity ob \<mapsto> index) else keys),
           tr_state := RecordInventory endpoint (length (ob_streams ob)) (stream_bytes (ob_streams ob)) (tr_state t)\<rparr>)"

definition issue :: "wstring \<Rightarrow> FilesystemOperation \<Rightarrow> OperationFailure \<Rightarrow> InventoryIssue" where
  "issue path operation failure =
     \<lparr>is_key = \<lparr>ik_path = path, ik_stream = [], ik_operation = operation, ik_offset = 0\<rparr>, is_failure = failure\<rparr>"

definition RecordIssue ::
    "VerificationEndpoint \<Rightarrow> wstring \<Rightarrow> FilesystemOperation \<Rightarrow> OperationFailure \<Rightarrow> bool \<Rightarrow> Traverser \<Rightarrow> Traverser" where
  "RecordIssue endpoint path operation failure incomplete_directory t =
     (let i = tr_inventory t
      in t\<lparr>tr_inventory := i\<lparr>fi_issues := fi_issues i @ [issue path operation failure],
             fi_incomplete_directories := fi_incomplete_directories i @ (if incomplete_directory then [path] else [])\<rparr>,
           tr_state := RecordInventoryFailure endpoint (tr_state t)\<rparr>)"

section \<open>Processing a task\<close>

text \<open>
  Apart from the lookup of cached streams, \<open>Process\<close> reads nothing shared: given
  the outcome of that lookup it performs a fixed sequence of locked sections.
\<close>

datatype action =
    DoIssue wstring FilesystemOperation OperationFailure bool
  | DoCommit ObjectRecord
  | DoQueue "TraversalTask list"
  | DoRecordDirectory
  | DoComplete

definition child_task :: "wstring \<Rightarrow> fs_entry \<Rightarrow> TraversalTask" where
  "child_task path e = \<lparr>tt_path = ChildPath path (en_name e), tt_kind = ClassifyObject (en_attributes e),
     tt_identity = Some (en_id e), tt_node = en_node e\<rparr>"

definition child_tasks :: "wstring \<Rightarrow> fs_entry list \<Rightarrow> TraversalTask list" where
  "child_tasks path es = map (child_task path) (filter (\<lambda>e. en_name e \<noteq> wide ''.'' \<and> en_name e \<noteq> wide ''..'') es)"

fun EnumerateDirectory :: "wstring \<Rightarrow> fs_batch list \<Rightarrow> action list" where
  "EnumerateDirectory path [] = []"
| "EnumerateDirectory path (BatchFailed err # bs) = [DoIssue path QueryDirectory (failure_of err) True]"
| "EnumerateDirectory path (Batch es # bs) = DoQueue (child_tasks path es) # EnumerateDirectory path bs"

definition object_of :: "TraversalTask \<Rightarrow> ObjectRecord" where
  "object_of task = \<lparr>ob_path = tt_path task, ob_kind = tt_kind task,
     ob_identity = (case tt_identity task of Some i \<Rightarrow> i | None \<Rightarrow> 0), ob_streams = [], ob_streams_complete = False\<rparr>"

definition stream_actions :: "TraversalTask \<Rightarrow> action list" where
  "stream_actions task =
     (case QueryObjectStreams (tt_node task) of
        Inl failure \<Rightarrow> [DoIssue (tt_path task) QueryStreams failure False, DoCommit (object_of task)]
      | Inr streams \<Rightarrow> [DoCommit ((object_of task)\<lparr>ob_streams := streams, ob_streams_complete := True\<rparr>)])"

definition Process :: "TraversalTask \<Rightarrow> StreamRecord list option \<Rightarrow> action list" where
  "Process task cached =
     (let object = object_of task;
          directory = (tt_kind task = Directory)
      in case fn_open (tt_node task) of
        Some err \<Rightarrow>
          [DoIssue (tt_path task) OpenObjectOp (failure_of err) directory, DoCommit object] @
          (if directory then [DoRecordDirectory] else [])
      | None \<Rightarrow>
          (case (if \<not> directory \<and> tt_identity task \<noteq> None then cached else None) of
             Some streams \<Rightarrow> [DoCommit (object\<lparr>ob_streams := streams, ob_streams_complete := True\<rparr>)]
           | None \<Rightarrow>
               stream_actions task @
               (if directory then EnumerateDirectory (tt_path task) (fn_batches (tt_node task)) @ [DoRecordDirectory]
                else []))) @ [DoComplete]"

fun perform :: "VerificationEndpoint \<Rightarrow> bool \<Rightarrow> action \<Rightarrow> Traverser \<Rightarrow> Traverser" where
  "perform endpoint cancelled (DoIssue path operation failure inc) t = RecordIssue endpoint path operation failure inc t"
| "perform endpoint cancelled (DoCommit ob) t = Commit endpoint ob t"
| "perform endpoint cancelled (DoQueue tasks) t = Queue endpoint cancelled tasks t"
| "perform endpoint cancelled DoRecordDirectory t = t\<lparr>tr_state := RecordDirectory endpoint (tr_state t)\<rparr>"
| "perform endpoint cancelled DoComplete t = CompleteTask endpoint t"

section \<open>The workers\<close>

datatype worker = Idle | Opened TraversalTask | Running "action list" | Stopped

record traversal =
  tv_traverser :: Traverser
  tv_workers :: "worker list"
  tv_cancelled :: bool

text \<open>
  \<open>Worker\<close>: take a task, look up its cached streams, perform its sections, until
  \<open>Take\<close> returns nothing.  An exception is recorded by \<open>Fail\<close> and ends the worker.
\<close>

inductive step :: "VerificationEndpoint \<Rightarrow> traversal \<Rightarrow> traversal \<Rightarrow> bool" for endpoint where
  take_task: "step endpoint v (v\<lparr>tv_traverser := t, tv_workers := (tv_workers v)[i := Opened task]\<rparr>)"
    if "i < length (tv_workers v)" "tv_workers v ! i = Idle"
      "Take (tv_cancelled v) (tv_traverser v) = (Task task, t)"
| take_none: "step endpoint v (v\<lparr>tv_workers := (tv_workers v)[i := Stopped]\<rparr>)"
    if "i < length (tv_workers v)" "tv_workers v ! i = Idle"
      "Take (tv_cancelled v) (tv_traverser v) = (NoTask, t)"
| open_task: "step endpoint v (v\<lparr>tv_workers := (tv_workers v)[i :=
        Running (Process task (CachedStreams (tv_traverser v) (tt_identity task)))]\<rparr>)"
    if "i < length (tv_workers v)" "tv_workers v ! i = Opened task"
| act: "step endpoint v (v\<lparr>tv_traverser := perform endpoint (tv_cancelled v) a (tv_traverser v),
        tv_workers := (tv_workers v)[i := if as = [] then Idle else Running as]\<rparr>)"
    if "i < length (tv_workers v)" "tv_workers v ! i = Running (a # as)"
| stop: "step endpoint v (v\<lparr>tv_workers := (tv_workers v)[i := Stopped]\<rparr>)"
    if "i < length (tv_workers v)" "tv_workers v ! i \<noteq> Stopped" "tv_cancelled v"
| fail: "step endpoint v (v\<lparr>tv_traverser := FailTraversal e (tv_traverser v), tv_workers := (tv_workers v)[i := Stopped]\<rparr>)"
    if "i < length (tv_workers v)" "tv_workers v ! i \<noteq> Stopped"
| cancel: "step endpoint v (v\<lparr>tv_cancelled := True\<rparr>)" if "\<not> tv_cancelled v"

inductive_cases stepE: "step endpoint v v'"

abbreviation (input) kVerificationWorkerCount :: nat where "kVerificationWorkerCount \<equiv> 4"

definition root_task :: "fs_node \<Rightarrow> TraversalTask" where
  "root_task root = \<lparr>tt_path = [], tt_kind = Directory, tt_identity = None, tt_node = root\<rparr>"

text \<open>
  \<open>Run\<close> queues the root and starts the workers; when starting one throws, the
  workers after it do not exist and the failure is recorded.
\<close>

definition Run_start :: "VerificationEndpoint \<Rightarrow> wstring \<Rightarrow> fs_node \<Rightarrow> nat \<Rightarrow> error option \<Rightarrow> VerificationState \<Rightarrow> traversal" where
  "Run_start endpoint rootpath root started start_failure s =
     (let t = Queue endpoint False [root_task root]
        \<lparr>tr_pending = [], tr_active = 0, tr_failure = None,
         tr_inventory = \<lparr>fi_root = rootpath, fi_objects = [], fi_issues = [], fi_incomplete_directories = []\<rparr>,
         tr_streams_by_identity = Map.empty, tr_state = s\<rparr>
      in \<lparr>tv_traverser = (case start_failure of None \<Rightarrow> t | Some e \<Rightarrow> FailTraversal e t),
          tv_workers = replicate started Idle, tv_cancelled = False\<rparr>)"

definition Run_result :: "traversal \<Rightarrow> FilesystemInventory option result" where
  "Run_result v =
     (case tr_failure (tv_traverser v) of
        Some e \<Rightarrow> Inl e
      | None \<Rightarrow>
          if tv_cancelled v then Inr None
          else let i = tr_inventory (tv_traverser v)
               in Inr (Some (i\<lparr>fi_objects := sort_key ob_path (fi_objects i),
                               fi_issues := sort_key issue_order (fi_issues i),
                               fi_incomplete_directories := sort (fi_incomplete_directories i)\<rparr>)))"

section \<open>The work of a whole tree\<close>

text \<open>
  All sections performed for an object and everything below it, with the queueing
  of a batch shown as \<open>DoQueue []\<close>.
\<close>

fun acts_node :: "wstring \<Rightarrow> ObjectKind \<Rightarrow> nat option \<Rightarrow> fs_node \<Rightarrow> action list"
  and acts_batches :: "wstring \<Rightarrow> fs_batch list \<Rightarrow> action list"
  and acts_entries :: "wstring \<Rightarrow> fs_entry list \<Rightarrow> action list" where
  "acts_node p k i (FsNode op st bs) =
     (let task = \<lparr>tt_path = p, tt_kind = k, tt_identity = i, tt_node = FsNode op st bs\<rparr>
      in case op of
        Some err \<Rightarrow> [DoIssue p OpenObjectOp (failure_of err) (k = Directory), DoCommit (object_of task)] @
          (if k = Directory then [DoRecordDirectory] else []) @ [DoComplete]
      | None \<Rightarrow> stream_actions task @
          (if k = Directory then acts_batches p bs @ [DoRecordDirectory] else []) @ [DoComplete])"
| "acts_batches p [] = []"
| "acts_batches p (BatchFailed err # bs) = [DoIssue p QueryDirectory (failure_of err) True]"
| "acts_batches p (Batch es # bs) = DoQueue [] # acts_entries p es @ acts_batches p bs"
| "acts_entries p [] = []"
| "acts_entries p (FsEntry name attributes id1 node # es) =
     (if name = wide ''.'' \<or> name = wide ''..'' then []
      else acts_node (ChildPath p name) (ClassifyObject attributes) (Some id1) node) @ acts_entries p es"

definition acts :: "TraversalTask \<Rightarrow> action list" where
  "acts task = acts_node (tt_path task) (tt_kind task) (tt_identity task) (tt_node task)"

fun flat :: "action \<Rightarrow> action list" where
  "flat (DoQueue tasks) = DoQueue [] # concat (map acts tasks)"
| "flat a = [a]"

abbreviation flats :: "action list \<Rightarrow> action list" where
  "flats as \<equiv> concat (map flat as)"

lemma acts_entries_eq: "acts_entries p es = concat (map acts (child_tasks p es))"
proof (induction es)
  case (Cons e es)
  then show ?case by (cases e) (auto simp: child_tasks_def child_task_def acts_def)
qed (simp add: child_tasks_def)

lemma acts_batches_eq: "acts_batches p bs = flats (EnumerateDirectory p bs)"
  by (induction p bs rule: EnumerateDirectory.induct) (simp_all add: acts_entries_eq)

lemma flats_stream: "flats (stream_actions task) = stream_actions task"
  by (simp add: stream_actions_def split: sum.splits)

lemma acts_eq: "acts task = flats (Process task None)"
  by (cases task; cases "tt_node task")
    (auto simp: acts_def Process_def acts_batches_eq flats_stream Let_def split: option.splits)

text \<open>
  Two names of one file show the same streams, so a cached list is the list a
  query would give: what the traverser relies on for hard links.
\<close>

definition links_agree :: "(nat \<Rightarrow> OperationFailure + StreamRecord list) \<Rightarrow> TraversalTask \<Rightarrow> bool" where
  "links_agree S task \<longleftrightarrow> (\<forall>i. tt_identity task = Some i \<and> i \<noteq> 0 \<and> tt_kind task \<noteq> Directory \<and>
     fn_open (tt_node task) = None \<longrightarrow> QueryObjectStreams (tt_node task) = S i)"

inductive below :: "TraversalTask \<Rightarrow> TraversalTask \<Rightarrow> bool" for rt where
  itself: "below rt rt"
| child: "below rt task \<Longrightarrow> DoQueue tasks \<in> set (Process task None) \<Longrightarrow> c \<in> set tasks \<Longrightarrow> below rt c"

section \<open>The invariant\<close>

text \<open>What a section adds to the inventory and to the queue.\<close>

fun commit_of :: "action \<Rightarrow> ObjectRecord list" where
  "commit_of (DoCommit ob) = [ob]"
| "commit_of _ = []"

fun issue_of :: "action \<Rightarrow> InventoryIssue list" where
  "issue_of (DoIssue path operation failure inc) = [issue path operation failure]"
| "issue_of _ = []"

fun incomplete_of :: "action \<Rightarrow> wstring list" where
  "incomplete_of (DoIssue path operation failure inc) = (if inc then [path] else [])"
| "incomplete_of _ = []"

fun queue_of :: "action \<Rightarrow> TraversalTask list" where
  "queue_of (DoQueue tasks) = tasks"
| "queue_of _ = []"

lemma perform_effect:
  assumes "\<not> cancelled" "tr_failure t = None"
  shows "fi_objects (tr_inventory (perform e cancelled a t)) = fi_objects (tr_inventory t) @ commit_of a"
    "fi_issues (tr_inventory (perform e cancelled a t)) = fi_issues (tr_inventory t) @ issue_of a"
    "fi_incomplete_directories (tr_inventory (perform e cancelled a t)) =
       fi_incomplete_directories (tr_inventory t) @ incomplete_of a"
    "tr_pending (perform e cancelled a t) = tr_pending t @ queue_of a"
    "tr_active (perform e cancelled a t) = (if a = DoComplete then tr_active t - 1 else tr_active t)"
    "tr_failure (perform e cancelled a t) = None"
  using assms by (cases a; simp add: RecordIssue_def Commit_def Queue_def CompleteTask_def Let_def)+

definition harvest :: "(action \<Rightarrow> 'b list) \<Rightarrow> action list \<Rightarrow> 'b multiset" where
  "harvest f as = mset (concat (map f as))"

lemma harvest_simps [simp]:
  "harvest f [] = {#}" "harvest f (a # as) = mset (f a) + harvest f as"
  "harvest f (as @ bs) = harvest f as + harvest f bs"
  by (simp_all add: harvest_def)

lemma harvest_concat: "harvest f (concat xss) = sum_list (map (harvest f) xss)"
  by (induction xss) simp_all

fun todo_worker :: "worker \<Rightarrow> action list" where
  "todo_worker (Opened task) = acts task"
| "todo_worker (Running as) = flats as"
| "todo_worker _ = []"

fun busy :: "worker \<Rightarrow> bool" where
  "busy (Opened _) = True"
| "busy (Running _) = True"
| "busy _ = False"

text \<open>The work still to be done, as seen by a projection of the sections.\<close>

definition remaining :: "(action \<Rightarrow> 'b list) \<Rightarrow> traversal \<Rightarrow> 'b multiset" where
  "remaining f v = sum_list (map (\<lambda>t. harvest f (acts t)) (tr_pending (tv_traverser v))) +
     sum_list (map (\<lambda>w. harvest f (todo_worker w)) (tv_workers v))"

lemma sum_list_replace:
  fixes g :: "'a \<Rightarrow> 'b multiset"
  assumes "i < length xs"
  shows "sum_list (map g (xs[i := y])) + g (xs ! i) = sum_list (map g xs) + g y"
proof -
  have "sum_list (map g (xs[i := y])) = sum_list (map g (take i xs)) + g y + sum_list (map g (drop (Suc i) xs))"
    using assms by (simp add: upd_conv_take_nth_drop add.assoc)
  moreover have "sum_list (map g xs) = sum_list (map g (take i xs)) + g (xs ! i) + sum_list (map g (drop (Suc i) xs))"
    using assms by (metis id_take_nth_drop list.simps(9) map_append sum_list.Cons sum_list.append add.assoc)
  ultimately show ?thesis by (simp add: ac_simps)
qed

text \<open>Accounting: what is recorded and what remains is the work of the whole tree.\<close>

definition accounts :: "TraversalTask \<Rightarrow> traversal \<Rightarrow> bool" where
  "accounts rt v \<longleftrightarrow>
     mset (fi_objects (tr_inventory (tv_traverser v))) + remaining commit_of v = harvest commit_of (acts rt) \<and>
     mset (fi_issues (tr_inventory (tv_traverser v))) + remaining issue_of v = harvest issue_of (acts rt) \<and>
     mset (fi_incomplete_directories (tr_inventory (tv_traverser v))) + remaining incomplete_of v =
       harvest incomplete_of (acts rt)"

definition commit_ok :: "(nat \<Rightarrow> OperationFailure + StreamRecord list) \<Rightarrow> ObjectRecord \<Rightarrow> bool" where
  "commit_ok S ob \<longleftrightarrow> (ob_streams_complete ob \<and> ob_kind ob \<noteq> Directory \<and> ob_identity ob \<noteq> 0 \<longrightarrow>
     S (ob_identity ob) = Inr (ob_streams ob))"

definition actions_ok :: "(nat \<Rightarrow> OperationFailure + StreamRecord list) \<Rightarrow> TraversalTask \<Rightarrow> action list \<Rightarrow> bool" where
  "actions_ok S rt as \<longleftrightarrow> (\<exists>bs. as = bs @ [DoComplete] \<and> DoComplete \<notin> set bs) \<and>
     (\<forall>ob. DoCommit ob \<in> set as \<longrightarrow> commit_ok S ob) \<and>
     (\<forall>ts. DoQueue ts \<in> set as \<longrightarrow> (\<forall>t \<in> set ts. below rt t))"

fun worker_ok :: "(nat \<Rightarrow> OperationFailure + StreamRecord list) \<Rightarrow> TraversalTask \<Rightarrow> worker \<Rightarrow> bool" where
  "worker_ok S rt (Opened t) \<longleftrightarrow> below rt t"
| "worker_ok S rt (Running as) \<longleftrightarrow> actions_ok S rt as"
| "worker_ok S rt _ \<longleftrightarrow> True"

definition cache_ok :: "(nat \<Rightarrow> OperationFailure + StreamRecord list) \<Rightarrow> Traverser \<Rightarrow> bool" where
  "cache_ok S t \<longleftrightarrow> (\<forall>i idx. tr_streams_by_identity t i = Some idx \<longrightarrow> idx < length (fi_objects (tr_inventory t)) \<and>
     S i = Inr (ob_streams (fi_objects (tr_inventory t) ! idx)))"

definition tv_inv :: "(nat \<Rightarrow> OperationFailure + StreamRecord list) \<Rightarrow> TraversalTask \<Rightarrow> traversal \<Rightarrow> bool" where
  "tv_inv S rt v \<longleftrightarrow> (\<forall>t \<in> set (tr_pending (tv_traverser v)). below rt t) \<and>
     (\<forall>w \<in> set (tv_workers v). worker_ok S rt w) \<and> cache_ok S (tv_traverser v) \<and>
     tr_active (tv_traverser v) = length (filter busy (tv_workers v)) \<and>
     (Stopped \<in> set (tv_workers v) \<longrightarrow> tr_pending (tv_traverser v) = [] \<and> filter busy (tv_workers v) = []) \<and>
     accounts rt v"

text \<open>A cancelled or failed traversal delivers no inventory, so nothing is required of it.\<close>

definition sound :: "(nat \<Rightarrow> OperationFailure + StreamRecord list) \<Rightarrow> TraversalTask \<Rightarrow> traversal \<Rightarrow> bool" where
  "sound S rt v \<longleftrightarrow> tv_cancelled v \<or> tr_failure (tv_traverser v) \<noteq> None \<or> tv_inv S rt v"

lemma Process_cached:
  assumes "links_agree S task" "cache_ok S t"
  shows "Process task (CachedStreams t (tt_identity task)) = Process task None"
proof (cases "CachedStreams t (tt_identity task)")
  case (Some streams)
  then obtain i where i: "tt_identity task = Some i" "i \<noteq> 0" "S i = Inr streams"
    using assms(2) by (auto simp: CachedStreams_def cache_ok_def split: option.splits if_splits)
  show ?thesis
  proof (cases "tt_kind task = Directory \<or> fn_open (tt_node task) \<noteq> None")
    case False
    then have "QueryObjectStreams (tt_node task) = Inr streams"
      using assms(1) i by (simp add: links_agree_def)
    then show ?thesis using False i Some by (simp add: Process_def Let_def stream_actions_def)
  qed (use Some in \<open>auto simp: Process_def Let_def split: option.splits\<close>)
qed simp

lemma EnumerateDirectory_actions:
  "DoComplete \<notin> set (EnumerateDirectory p bs)" "DoCommit ob \<notin> set (EnumerateDirectory p bs)"
  by (induction p bs rule: EnumerateDirectory.induct) simp_all

lemma Process_ok:
  assumes "below rt task" "links_agree S task"
  shows "actions_ok S rt (Process task None)"
proof -
  have "\<exists>bs. Process task None = bs @ [DoComplete] \<and> DoComplete \<notin> set bs"
    by (auto simp: Process_def Let_def stream_actions_def EnumerateDirectory_actions split: option.splits sum.splits)
  moreover have "commit_ok S ob" if "DoCommit ob \<in> set (Process task None)" for ob
    using that assms(2) by (auto simp: Process_def Let_def stream_actions_def EnumerateDirectory_actions commit_ok_def
        object_of_def links_agree_def split: option.splits sum.splits if_splits)
  moreover have "below rt t" if "DoQueue ts \<in> set (Process task None)" "t \<in> set ts" for ts t
    using child [OF assms(1) that] .
  ultimately show ?thesis unfolding actions_ok_def by blast
qed

lemma actions_ok_tail:
  assumes "actions_ok S rt (a # as)"
  shows "a = DoComplete \<longleftrightarrow> as = []" "as \<noteq> [] \<Longrightarrow> actions_ok S rt as"
proof -
  obtain bs where bs: "a # as = bs @ [DoComplete]" "DoComplete \<notin> set bs"
    using assms by (auto simp: actions_ok_def)
  then show "a = DoComplete \<longleftrightarrow> as = []" by (cases bs) auto
  show "actions_ok S rt as" if ne: "as \<noteq> []"
  proof -
    obtain cs where "as = cs @ [DoComplete]" "DoComplete \<notin> set cs"
      using bs ne by (cases bs) auto
    then show ?thesis using assms unfolding actions_ok_def by (metis list.set_intros(2))
  qed
qed

abbreviation pending_work :: "(action \<Rightarrow> 'b list) \<Rightarrow> Traverser \<Rightarrow> 'b multiset" where
  "pending_work f t \<equiv> sum_list (map (\<lambda>t. harvest f (acts t)) (tr_pending t))"

lemma remaining_step:
  assumes "i < length (tv_workers v)"
  shows "remaining f (v\<lparr>tv_traverser := t, tv_workers := (tv_workers v)[i := w]\<rparr>) +
      (pending_work f (tv_traverser v) + harvest f (todo_worker (tv_workers v ! i))) =
    remaining f v + (pending_work f t + harvest f (todo_worker w))"
  using sum_list_replace [OF assms, of "\<lambda>w. harvest f (todo_worker w)" w]
  by (simp add: remaining_def ac_simps)

lemma flat_harvest:
  "(\<And>ts. f (DoQueue ts) = []) \<Longrightarrow>
   harvest f (flat a) = mset (f a) + sum_list (map (\<lambda>t. harvest f (acts t)) (queue_of a))"
  by (cases a) (simp_all add: harvest_concat comp_def)

lemma remaining_act:
  assumes "i < length (tv_workers v)" "tv_workers v ! i = Running (a # as)"
    and "\<not> tv_cancelled v" "tr_failure (tv_traverser v) = None" "\<And>ts. f (DoQueue ts) = []"
  shows "remaining f v = mset (f a) + remaining f (v\<lparr>tv_traverser := perform e (tv_cancelled v) a (tv_traverser v),
    tv_workers := (tv_workers v)[i := if as = [] then Idle else Running as]\<rparr>)"
proof -
  have "todo_worker (if as = [] then Idle else Running as) = flats as" by simp
  with remaining_step [OF assms(1), of f, where t = "perform e (tv_cancelled v) a (tv_traverser v)"
      and w = "if as = [] then Idle else Running as"]
  show ?thesis
    using assms(2) flat_harvest [of f a, OF assms(5)] perform_effect(4) [OF assms(3,4), of e a] by (simp add: ac_simps)
qed

lemma accounts_act:
  assumes "accounts rt v" "i < length (tv_workers v)" "tv_workers v ! i = Running (a # as)"
    and "\<not> tv_cancelled v" "tr_failure (tv_traverser v) = None"
  shows "accounts rt (v\<lparr>tv_traverser := perform e (tv_cancelled v) a (tv_traverser v),
    tv_workers := (tv_workers v)[i := if as = [] then Idle else Running as]\<rparr>)"
  using assms(1) remaining_act [OF assms(2-5), of commit_of e] remaining_act [OF assms(2-5), of issue_of e]
    remaining_act [OF assms(2-5), of incomplete_of e]
  unfolding accounts_def by (simp add: perform_effect [OF assms(4,5)] ac_simps)

lemma accounts_move:
  assumes "accounts rt v" "i < length (tv_workers v)" "tr_inventory t = tr_inventory (tv_traverser v)"
    and "\<And>f :: action \<Rightarrow> ObjectRecord list. pending_work f (tv_traverser v) + harvest f (todo_worker (tv_workers v ! i)) =
        pending_work f t + harvest f (todo_worker w)"
    and "\<And>f :: action \<Rightarrow> InventoryIssue list. pending_work f (tv_traverser v) + harvest f (todo_worker (tv_workers v ! i)) =
        pending_work f t + harvest f (todo_worker w)"
    and "\<And>f :: action \<Rightarrow> wstring list. pending_work f (tv_traverser v) + harvest f (todo_worker (tv_workers v ! i)) =
        pending_work f t + harvest f (todo_worker w)"
  shows "accounts rt (v\<lparr>tv_traverser := t, tv_workers := (tv_workers v)[i := w]\<rparr>)"
  using assms(1) remaining_step [OF assms(2), of commit_of, where t = t and w = w]
    remaining_step [OF assms(2), of issue_of, where t = t and w = w]
    remaining_step [OF assms(2), of incomplete_of, where t = t and w = w] assms(4) [of commit_of] assms(5) [of issue_of] assms(6) [of incomplete_of]
  unfolding accounts_def by (simp add: assms(3))

lemma busy_update:
  assumes "i < length ws"
  shows "length (filter busy (ws[i := w])) + (if busy (ws ! i) then 1 else 0) =
    length (filter busy ws) + (if busy w then 1 else 0)"
proof -
  have "length (filter busy (ws[i := w])) = length (filter busy (take i ws)) + (if busy w then 1 else 0) +
      length (filter busy (drop (Suc i) ws))"
    using assms by (simp add: upd_conv_take_nth_drop)
  moreover have "length (filter busy ws) = length (filter busy (take i ws)) + (if busy (ws ! i) then 1 else 0) +
      length (filter busy (drop (Suc i) ws))"
    using arg_cong [OF id_take_nth_drop [OF assms], of "\<lambda>l. length (filter busy l)"] by simp
  ultimately show ?thesis by simp
qed

lemma no_stopped_update:
  "w \<noteq> Stopped \<Longrightarrow> Stopped \<in> set (ws[i := w]) \<Longrightarrow> Stopped \<in> set ws"
  using set_update_subset_insert [of ws i w] by auto

lemma busy_exists: "i < length ws \<Longrightarrow> busy (ws ! i) \<Longrightarrow> filter busy ws \<noteq> []"
  by (metis filter_empty_conv nth_mem)

lemma cache_ok_perform:
  assumes "cache_ok S t" "\<And>ob. a = DoCommit ob \<Longrightarrow> commit_ok S ob"
  shows "cache_ok S (perform e cancelled a t)"
proof (cases a)
  case (DoCommit ob)
  then show ?thesis
    using assms(1) assms(2) [OF DoCommit]
    by (auto simp: cache_ok_def Commit_def commit_ok_def Let_def nth_append less_Suc_eq split: if_splits)
qed (use assms(1) in \<open>simp_all add: cache_ok_def RecordIssue_def Queue_def CompleteTask_def Let_def\<close>)

lemma inv_take:
  assumes "tv_inv S rt v" "i < length (tv_workers v)" "tv_workers v ! i = Idle"
    and "tr_pending (tv_traverser v) = task # rest"
  shows "tv_inv S rt (v\<lparr>tv_traverser := (tv_traverser v)\<lparr>tr_pending := rest, tr_active := tr_active (tv_traverser v) + 1\<rparr>,
    tv_workers := (tv_workers v)[i := Opened task]\<rparr>)"
proof -
  let ?t = "(tv_traverser v)\<lparr>tr_pending := rest, tr_active := tr_active (tv_traverser v) + 1\<rparr>"
  have "accounts rt (v\<lparr>tv_traverser := ?t, tv_workers := (tv_workers v)[i := Opened task]\<rparr>)"
    using assms by (intro accounts_move) (simp_all add: tv_inv_def ac_simps)
  moreover have "Stopped \<notin> set (tv_workers v)" using assms(1,4) by (auto simp: tv_inv_def)
  then have "Stopped \<notin> set ((tv_workers v)[i := Opened task])" using no_stopped_update by blast
  moreover have "length (filter busy ((tv_workers v)[i := Opened task])) = tr_active (tv_traverser v) + 1"
    using busy_update [OF assms(2), of "Opened task"] assms(1,3) by (simp add: tv_inv_def)
  moreover have "worker_ok S rt w" if "w \<in> set ((tv_workers v)[i := Opened task])" for w
    using that assms(1,4) set_update_subset_insert [of "tv_workers v" i "Opened task"]
    by (auto simp: tv_inv_def)
  ultimately show ?thesis using assms(1,4) by (auto simp: tv_inv_def cache_ok_def)
qed

lemma inv_stop:
  assumes "tv_inv S rt v" "i < length (tv_workers v)" "tv_workers v ! i = Idle"
    and "tr_pending (tv_traverser v) = []" "tr_active (tv_traverser v) = 0"
  shows "tv_inv S rt (v\<lparr>tv_workers := (tv_workers v)[i := Stopped]\<rparr>)"
proof -
  have "accounts rt (v\<lparr>tv_traverser := tv_traverser v, tv_workers := (tv_workers v)[i := Stopped]\<rparr>)"
    using assms by (intro accounts_move) (simp_all add: tv_inv_def)
  moreover have "length (filter busy ((tv_workers v)[i := Stopped])) = 0"
    using busy_update [OF assms(2), of Stopped] assms(1,3,5) by (simp add: tv_inv_def)
  moreover have "worker_ok S rt w" if "w \<in> set ((tv_workers v)[i := Stopped])" for w
    using that assms(1) set_update_subset_insert [of "tv_workers v" i Stopped] by (auto simp: tv_inv_def)
  ultimately show ?thesis using assms by (auto simp: tv_inv_def)
qed

lemma inv_open:
  assumes "tv_inv S rt v" "i < length (tv_workers v)" "tv_workers v ! i = Opened task"
    and "\<And>t. below rt t \<Longrightarrow> links_agree S t"
  shows "tv_inv S rt (v\<lparr>tv_workers := (tv_workers v)[i :=
      Running (Process task (CachedStreams (tv_traverser v) (tt_identity task)))]\<rparr>)"
proof -
  have "worker_ok S rt (Opened task)" using assms(1,2,3) unfolding tv_inv_def by (metis nth_mem)
  then have b: "below rt task" by simp
  have eq: "Process task (CachedStreams (tv_traverser v) (tt_identity task)) = Process task None"
    using assms(1) by (intro Process_cached [OF assms(4) [OF b]]) (simp add: tv_inv_def)
  let ?w = "Running (Process task None)"
  have "accounts rt (v\<lparr>tv_traverser := tv_traverser v, tv_workers := (tv_workers v)[i := ?w]\<rparr>)"
    using assms(1,2,3) by (intro accounts_move) (simp_all add: tv_inv_def acts_eq)
  moreover have "Stopped \<notin> set (tv_workers v)"
    using assms(1,2,3) busy_exists [of i "tv_workers v"] by (auto simp: tv_inv_def)
  then have "Stopped \<notin> set ((tv_workers v)[i := ?w])" using no_stopped_update by blast
  moreover have "length (filter busy ((tv_workers v)[i := ?w])) = tr_active (tv_traverser v)"
    using busy_update [OF assms(2), of ?w] assms(1,3) by (simp add: tv_inv_def)
  moreover have "worker_ok S rt w" if "w \<in> set ((tv_workers v)[i := ?w])" for w
    using that assms(1) set_update_subset_insert [of "tv_workers v" i ?w] Process_ok [OF b assms(4) [OF b]]
    by (auto simp: tv_inv_def)
  ultimately show ?thesis using assms(1) unfolding eq by (auto simp: tv_inv_def)
qed

lemma inv_act:
  assumes "tv_inv S rt v" "i < length (tv_workers v)" "tv_workers v ! i = Running (a # as)"
    and "\<not> tv_cancelled v" "tr_failure (tv_traverser v) = None"
  shows "tv_inv S rt (v\<lparr>tv_traverser := perform e (tv_cancelled v) a (tv_traverser v),
    tv_workers := (tv_workers v)[i := if as = [] then Idle else Running as]\<rparr>)"
proof -
  let ?w = "if as = [] then Idle else Running as" and ?t = "perform e (tv_cancelled v) a (tv_traverser v)"
  note eff = perform_effect [OF assms(4,5)]
  have "worker_ok S rt (Running (a # as))" using assms(1,2,3) unfolding tv_inv_def by (metis nth_mem)
  then have ok: "actions_ok S rt (a # as)" by simp
  note tail = actions_ok_tail [OF ok]
  have "accounts rt (v\<lparr>tv_traverser := ?t, tv_workers := (tv_workers v)[i := ?w]\<rparr>)"
    using assms by (intro accounts_act) (simp_all add: tv_inv_def)
  moreover have "Stopped \<notin> set (tv_workers v)"
    using assms(1,2,3) busy_exists [of i "tv_workers v"] by (auto simp: tv_inv_def)
  then have "Stopped \<notin> set ((tv_workers v)[i := ?w])" using no_stopped_update [of ?w] by auto
  moreover have "tr_active ?t = length (filter busy ((tv_workers v)[i := ?w]))"
    using busy_update [OF assms(2), of ?w] assms(1,3) tail(1) eff(5) [of e a]
    by (auto simp: tv_inv_def split: if_splits)
  moreover have "worker_ok S rt w" if "w \<in> set ((tv_workers v)[i := ?w])" for w
    using that assms(1) set_update_subset_insert [of "tv_workers v" i ?w] tail(2)
    by (auto simp: tv_inv_def split: if_splits)
  moreover have "cache_ok S ?t"
    using assms(1) ok by (intro cache_ok_perform) (auto simp: tv_inv_def actions_ok_def)
  moreover have "below rt t" if "t \<in> set (tr_pending ?t)" for t
    using that assms(1) ok eff(4) [of e a] by (cases a) (auto simp: tv_inv_def actions_ok_def)
  ultimately show ?thesis by (auto simp: tv_inv_def)
qed

lemma sound_step:
  assumes "step e v v'" "sound S rt v" "\<And>t. below rt t \<Longrightarrow> links_agree S t"
  shows "sound S rt v'"
proof (cases "tv_cancelled v \<or> tr_failure (tv_traverser v) \<noteq> None")
  case True
  have keep: "tr_failure (perform e c a t) = tr_failure t" for c a t
    by (cases a) (simp_all add: RecordIssue_def Commit_def Queue_def CompleteTask_def Let_def)
  from assms(1) show ?thesis
    using True by (cases rule: step.cases) (auto simp: sound_def keep Take_def FailTraversal_def split: if_splits list.splits)
next
  case False
  then have inv: "tv_inv S rt v" and ok: "\<not> tv_cancelled v" "tr_failure (tv_traverser v) = None"
    using assms(2) by (auto simp: sound_def)
  from assms(1) show ?thesis
  proof (cases rule: step.cases)
    case (take_task i task t)
    then show ?thesis using inv_take [OF inv] ok by (auto simp: sound_def Take_def split: if_splits list.splits)
  next
    case (take_none i t)
    then show ?thesis using inv_stop [OF inv] ok by (auto simp: sound_def Take_def split: if_splits list.splits)
  next
    case (open_task i task)
    then show ?thesis using inv_open [OF inv _ _ assms(3)] by (simp add: sound_def)
  next
    case (act i a as)
    then show ?thesis using inv_act [OF inv _ _ ok] by (simp add: sound_def)
  next
    case (stop i)
    then show ?thesis using ok by simp
  next
    case (fail i err)
    then show ?thesis by (simp add: sound_def FailTraversal_def)
  next
    case cancel
    then show ?thesis by (simp add: sound_def)
  qed
qed

section \<open>The finished traversal\<close>

definition reachable ::
    "VerificationEndpoint \<Rightarrow> wstring \<Rightarrow> fs_node \<Rightarrow> nat \<Rightarrow> error option \<Rightarrow> VerificationState \<Rightarrow> traversal \<Rightarrow> bool" where
  "reachable e rootpath root started start_failure s v \<longleftrightarrow>
     (step e)\<^sup>*\<^sup>* (Run_start e rootpath root started start_failure s) v"

lemma sum_empties [simp]: "sum_list (replicate n {#}) = {#}"
  by (induction n) simp_all

lemma sound_start: "sound S (root_task root) (Run_start e rootpath root started f s)"
proof (cases f)
  case None
  have "filter busy (replicate started Idle) = []" by (induction started) simp_all
  then show ?thesis
    using None by (auto simp: sound_def Run_start_def Let_def tv_inv_def Queue_def accounts_def remaining_def
        cache_ok_def below.itself sum_list_replicate map_replicate_const)
next
  case (Some err)
  then show ?thesis by (simp add: sound_def Run_start_def Let_def FailTraversal_def Queue_def)
qed

lemma reachable_sound:
  assumes "reachable e rootpath root started f s v"
    and "\<And>t. below (root_task root) t \<Longrightarrow> links_agree S t"
  shows "sound S (root_task root) v"
  using assms(1) unfolding reachable_def
proof (induction rule: rtranclp_induct)
  case base
  then show ?case by (rule sound_start)
next
  case (step v v')
  then show ?case using sound_step [OF _ _ assms(2)] by blast
qed

definition finished :: "traversal \<Rightarrow> bool" where
  "finished v \<longleftrightarrow> tv_workers v \<noteq> [] \<and> (\<forall>w \<in> set (tv_workers v). w = Stopped)"

lemma remaining_finished:
  assumes "tv_inv S rt v" "finished v"
  shows "remaining g v = {#}"
proof -
  have "Stopped \<in> set (tv_workers v)" using assms(2) unfolding finished_def by (metis list.set_sel(1))
  then have "tr_pending (tv_traverser v) = []" using assms(1) by (auto simp: tv_inv_def)
  moreover have "map (\<lambda>w. harvest g (todo_worker w)) (tv_workers v) = map (\<lambda>_. {#}) (tv_workers v)"
    using assms(2) by (auto simp: finished_def)
  ultimately show ?thesis by (simp add: remaining_def map_replicate_const)
qed

lemma finished_inventory:
  assumes "reachable e rootpath root started f s v" "\<And>t. below (root_task root) t \<Longrightarrow> links_agree S t"
    and "finished v" "Run_result v = Inr (Some iv)"
  shows "mset (fi_objects iv) = harvest commit_of (acts (root_task root))"
    "mset (fi_issues iv) = harvest issue_of (acts (root_task root))"
    "mset (fi_incomplete_directories iv) = harvest incomplete_of (acts (root_task root))"
    "sorted (map ob_path (fi_objects iv))" "sorted (map issue_order (fi_issues iv))"
proof -
  let ?t = "tv_traverser v"
  from assms(4) have ok: "tr_failure ?t = None" "\<not> tv_cancelled v"
    by (auto simp: Run_result_def Let_def split: option.splits if_splits)
  with assms(4) have iv: "iv = (tr_inventory ?t)\<lparr>fi_objects := sort_key ob_path (fi_objects (tr_inventory ?t)),
      fi_issues := sort_key issue_order (fi_issues (tr_inventory ?t)),
      fi_incomplete_directories := sort (fi_incomplete_directories (tr_inventory ?t))\<rparr>"
    by (simp add: Run_result_def Let_def)
  have tv: "tv_inv S (root_task root) v" using reachable_sound [OF assms(1,2)] ok by (simp add: sound_def)
  note rem = remaining_finished [OF tv assms(3), of commit_of] remaining_finished [OF tv assms(3), of issue_of]
    remaining_finished [OF tv assms(3), of incomplete_of]
  show "mset (fi_objects iv) = harvest commit_of (acts (root_task root))"
    "mset (fi_issues iv) = harvest issue_of (acts (root_task root))"
    "mset (fi_incomplete_directories iv) = harvest incomplete_of (acts (root_task root))"
    "sorted (map ob_path (fi_objects iv))" "sorted (map issue_order (fi_issues iv))"
    using tv iv rem by (simp_all add: tv_inv_def accounts_def)
qed

text \<open>A worker that has not ended is busy or can take its next decision at once.\<close>

lemma no_idle_wait:
  assumes "reachable e rootpath root started f s v" "\<And>t. below (root_task root) t \<Longrightarrow> links_agree S t"
    and "i < length (tv_workers v)" "tv_workers v ! i \<noteq> Stopped"
  shows "\<exists>j < length (tv_workers v). busy (tv_workers v ! j) \<or>
    (tv_workers v ! j = Idle \<and> fst (Take (tv_cancelled v) (tv_traverser v)) \<noteq> Wait)"
proof (cases "\<exists>j < length (tv_workers v). busy (tv_workers v ! j)")
  case False
  then have "filter busy (tv_workers v) = []" by (auto simp: filter_empty_conv in_set_conv_nth)
  then have "fst (Take (tv_cancelled v) (tv_traverser v)) \<noteq> Wait"
    using reachable_sound [OF assms(1,2)] by (auto simp: sound_def tv_inv_def Take_def split: list.splits)
  moreover have "tv_workers v ! i = Idle" using False assms(3,4) by (cases "tv_workers v ! i") auto
  ultimately show ?thesis using assms(3) by blast
qed blast

section \<open>Termination\<close>

fun aw :: "action \<Rightarrow> nat" where
  "aw DoComplete = 4"
| "aw _ = 1"

definition wt :: "action list \<Rightarrow> nat" where
  "wt as = sum_list (map aw as)"

lemma wt_simps [simp]: "wt [] = 0" "wt (a # as) = aw a + wt as" "wt (as @ bs) = wt as + wt bs"
  by (simp_all add: wt_def)

lemma aw_pos: "0 < aw a"
  by (cases a) simp_all

fun ww :: "worker \<Rightarrow> nat" where
  "ww Idle = 1"
| "ww (Opened task) = wt (acts task)"
| "ww (Running as) = wt (flats as) - 2"
| "ww Stopped = 0"

definition weight :: "traversal \<Rightarrow> nat" where
  "weight v = sum_list (map (\<lambda>t. wt (acts t)) (tr_pending (tv_traverser v))) +
     sum_list (map ww (tv_workers v)) + (if tv_cancelled v then 0 else 1)"

fun shaped_worker :: "worker \<Rightarrow> bool" where
  "shaped_worker (Running as) \<longleftrightarrow> (\<exists>bs. as = bs @ [DoComplete] \<and> DoComplete \<notin> set bs)"
| "shaped_worker _ \<longleftrightarrow> True"

definition shaped :: "traversal \<Rightarrow> bool" where
  "shaped v \<longleftrightarrow> (\<forall>w \<in> set (tv_workers v). shaped_worker w)"

lemma Process_shape: "\<exists>bs. Process task c = bs @ [DoComplete] \<and> DoComplete \<notin> set bs"
  by (auto simp: Process_def Let_def stream_actions_def EnumerateDirectory_actions split: option.splits sum.splits)

lemma wt_Process: "wt (flats (Process task c)) \<le> wt (acts task)"
  unfolding acts_eq
  by (auto simp: Process_def Let_def stream_actions_def split: option.splits sum.splits)

lemma wt_Process_pos: "4 \<le> wt (flats (Process task c))"
proof -
  obtain bs where "Process task c = bs @ [DoComplete]" using Process_shape by blast
  then show ?thesis by simp
qed

lemma shaped_update:
  "shaped v \<Longrightarrow> shaped_worker w \<Longrightarrow> tv_workers v' = (tv_workers v)[i := w] \<Longrightarrow> shaped v'"
  using set_update_subset_insert [of "tv_workers v" i w] by (auto simp: shaped_def)

lemma shaped_tail:
  assumes "shaped_worker (Running (a # as))"
  shows "a = DoComplete \<longleftrightarrow> as = []" "as \<noteq> [] \<Longrightarrow> shaped_worker (Running as)"
proof -
  obtain bs where bs: "a # as = bs @ [DoComplete]" "DoComplete \<notin> set bs" using assms by auto
  then show "a = DoComplete \<longleftrightarrow> as = []" by (cases bs) auto
  show "as \<noteq> [] \<Longrightarrow> shaped_worker (Running as)" using bs by (cases bs) auto
qed

lemma shaped_step:
  assumes "step e v v'" "shaped v"
  shows "shaped v'"
  using assms(1)
proof (cases rule: step.cases)
  case (act i a as)
  then have "shaped_worker (Running (a # as))" using assms(2) by (metis nth_mem shaped_def)
  then have "shaped_worker (if as = [] then Idle else Running as)" using shaped_tail(2) by simp
  from shaped_update [OF assms(2) this, of v' i] show ?thesis using act(1) by simp
next
  case (open_task i task)
  have "shaped_worker (Running (Process task c))" for c
    unfolding shaped_worker.simps by (rule Process_shape)
  from shaped_update [OF assms(2) this, of v' i] show ?thesis using open_task(1) by simp
next
  case cancel
  then show ?thesis using assms(2) by (simp add: shaped_def)
qed (use shaped_update [OF assms(2), of _ v'] in simp_all)

lemma weight_update:
  fixes g :: "'a \<Rightarrow> nat"
  assumes "i < length xs"
  shows "sum_list (map g (xs[i := y])) + g (xs ! i) = sum_list (map g xs) + g y"
proof -
  have "sum_list (map g (xs[i := y])) = sum_list (map g (take i xs)) + g y + sum_list (map g (drop (Suc i) xs))"
    using assms by (simp add: upd_conv_take_nth_drop)
  moreover have "sum_list (map g xs) = sum_list (map g (take i xs)) + g (xs ! i) + sum_list (map g (drop (Suc i) xs))"
    using arg_cong [OF id_take_nth_drop [OF assms], of "\<lambda>l. sum_list (map g l)"] by simp
  ultimately show ?thesis by simp
qed

lemma weight_workers:
  assumes "i < length (tv_workers v)"
  shows "weight (v\<lparr>tv_traverser := t, tv_workers := (tv_workers v)[i := w]\<rparr>) +
      sum_list (map (\<lambda>t. wt (acts t)) (tr_pending (tv_traverser v))) + ww (tv_workers v ! i) =
    weight v + sum_list (map (\<lambda>t. wt (acts t)) (tr_pending t)) + ww w"
  using weight_update [OF assms, of ww w] by (simp add: weight_def)

lemma wt_flat: "wt (flat a) = aw a + sum_list (map (\<lambda>t. wt (acts t)) (queue_of a))"
proof (cases a)
  case (DoQueue ts)
  have "wt (concat (map acts ts)) = sum_list (map (\<lambda>t. wt (acts t)) ts)" by (induction ts) simp_all
  with DoQueue show ?thesis by simp
qed simp_all

lemma perform_pending:
  "sum_list (map (\<lambda>t. wt (acts t)) (tr_pending (perform e c a t))) \<le>
   sum_list (map (\<lambda>t. wt (acts t)) (tr_pending t)) + sum_list (map (\<lambda>t. wt (acts t)) (queue_of a))"
  by (cases a) (simp_all add: RecordIssue_def Commit_def Queue_def CompleteTask_def Let_def)

lemma acts_weight: "4 \<le> wt (acts task)"
  using wt_Process_pos [of task None] by (simp add: acts_eq)

lemma shaped_weight:
  assumes "shaped_worker (Running as)"
  shows "4 \<le> wt (flats as)"
  using assms by auto

lemma worker_weight_pos:
  assumes "shaped_worker w" "w \<noteq> Stopped"
  shows "0 < ww w"
proof (cases w)
  case (Opened task)
  then show ?thesis using acts_weight [of task] by simp
next
  case (Running as)
  then show ?thesis using shaped_weight [of as] assms(1) by (simp del: shaped_worker.simps)
qed (use assms(2) in simp_all)

lemma pending_fail: "tr_pending (FailTraversal err t) = tr_pending t"
  by (simp add: FailTraversal_def)

lemma weight_step:
  assumes "step e v v'" "shaped v"
  shows "weight v' < weight v"
  using assms(1)
proof (cases rule: step.cases)
  case (take_task i task t)
  then show ?thesis
    using weight_workers [of i v, where t = t and w = "Opened task"]
    by (auto simp: Take_def split: if_splits list.splits)
next
  case (take_none i t)
  then show ?thesis using weight_workers [of i v, where t = "tv_traverser v" and w = Stopped] by simp
next
  case (open_task i task)
  define p where "p = Process task (CachedStreams (tv_traverser v) (tt_identity task))"
  have "wt (flats p) - 2 < wt (acts task)"
    using wt_Process [of task "CachedStreams (tv_traverser v) (tt_identity task)"]
      wt_Process_pos [of task "CachedStreams (tv_traverser v) (tt_identity task)"] unfolding p_def by linarith
  then show ?thesis using open_task weight_workers [of i v, where t = "tv_traverser v" and w = "Running p"] by (simp add: p_def)
next
  case (act i a as)
  let ?w = "if as = [] then Idle else Running as" and ?t = "perform e (tv_cancelled v) a (tv_traverser v)"
  have sh: "shaped_worker (Running (a # as))" using act assms(2) by (metis nth_mem shaped_def)
  have "ww ?w + sum_list (map (\<lambda>t. wt (acts t)) (queue_of a)) < wt (flats (a # as)) - 2"
  proof (cases "as = []")
    case True
    then show ?thesis using shaped_tail(1) [OF sh] by simp
  next
    case False
    then show ?thesis
      using shaped_weight [OF shaped_tail(2) [OF sh]] aw_pos [of a] by (simp add: wt_flat)
  qed
  then show ?thesis
    using act weight_workers [of i v, where t = ?t and w = ?w] perform_pending [of e "tv_cancelled v" a "tv_traverser v"] by simp
next
  case (stop i)
  then have "0 < ww (tv_workers v ! i)" using assms(2) by (intro worker_weight_pos) (auto simp: shaped_def)
  then show ?thesis using stop weight_workers [of i v, where t = "tv_traverser v" and w = Stopped] by simp
next
  case (fail i err)
  then have "0 < ww (tv_workers v ! i)" using assms(2) by (intro worker_weight_pos) (auto simp: shaped_def)
  then show ?thesis
    using fail weight_workers [of i v, where t = "FailTraversal err (tv_traverser v)" and w = Stopped]
    by (simp add: pending_fail)
next
  case cancel
  then show ?thesis by (simp add: weight_def)
qed

lemma shaped_start: "shaped (Run_start e rootpath root started f s)"
  by (simp add: shaped_def Run_start_def Let_def)

lemma step_terminates:
  assumes "g 0 = Run_start e rootpath root started f s"
  shows "\<exists>n. \<not> step e (g n) (g (Suc n))"
proof (rule ccontr)
  assume "\<not> ?thesis"
  then have st: "step e (g n) (g (Suc n))" for n by blast
  have sh: "shaped (g n)" for n
  proof (induction n)
    case (Suc n)
    then show ?case using shaped_step [OF st] by blast
  qed (use assms shaped_start in simp)
  have "weight (g n) + n \<le> weight (g 0)" for n
  proof (induction n)
    case (Suc n)
    then show ?case using weight_step [OF st sh, of n] by simp
  qed simp
  then have "weight (g (Suc (weight (g 0)))) + Suc (weight (g 0)) \<le> weight (g 0)" .
  then show False by simp
qed

end
