(* ===== verification/Comparison.thy ===== *)
theory Comparison
  imports PlanCoverage CountDiffering Traversal
begin

text \<open>
  The comparison phase of the filesystem verifier
  (\<open>filesystem_verifier_impl.cpp\<close>, lines 775 to 810 and 1724 to 2164):
  \<open>ComparisonWorker\<close> opens, positions and reads one chunk of a stream in both
  views, and \<open>RunComparisonWorkers\<close> lets up to four workers take tasks off a shared
  counter.

  An operating system's answers are a record \<open>view_io\<close> per view and per call of
  \<open>Compare\<close>, so an operation may fail at one time and succeed at another;
  \<open>truthful\<close> says only that bytes that are read are the bytes of the view.
  \<open>Compare\<close> returns what it records as a list; \<open>compare_step\<close> interleaves the records
  of the workers, their fetches from the counter, cancellation, exceptions and a
  failing launch in any order.

  Result (\<open>comparison_sound\<close>): if the run reports success, every task of the plan
  was taken once and its bytes are equal in the two views, unless its path is excluded or a
  difference or a common failure is recorded for its stream.
\<close>

section \<open>Streams of a mounted view\<close>

definition ObjectPath :: "FilesystemInventory \<Rightarrow> wstring \<Rightarrow> wstring" where
  "ObjectPath inventory relative_path =
     (if relative_path = [] then fi_root inventory
      else if fi_root inventory \<noteq> [] \<and> last (fi_root inventory) \<in> {92, 47}
      then fi_root inventory @ relative_path
      else fi_root inventory @ [92] @ relative_path)"

definition StreamPath :: "FilesystemInventory \<Rightarrow> ObjectRecord \<Rightarrow> StreamRecord \<Rightarrow> wstring" where
  "StreamPath inventory object1 stream =
     (let path = ObjectPath inventory (ob_path object1)
      in if sr_name stream \<noteq> [] then path @ sr_name stream else path)"

text \<open>
  What the operating system answers: an error code or success of \<open>CreateFileW\<close> and
  of \<open>SetFilePointerEx\<close>, an error code or the bytes of \<open>ReadFile\<close>.  A handle is
  named by the path it was opened with.
\<close>

record view_io =
  vi_open :: "wstring \<Rightarrow> nat option"
  vi_seek :: "wstring \<Rightarrow> int \<Rightarrow> nat option"
  vi_read :: "wstring \<Rightarrow> int \<Rightarrow> nat \<Rightarrow> nat + byte list"

definition TryOpenFilesystemObject :: "view_io \<Rightarrow> wstring \<Rightarrow> OperationFailure + wstring" where
  "TryOpenFilesystemObject io path =
     (case vi_open io path of Some err \<Rightarrow> Inl (failure_of err) | None \<Rightarrow> Inr path)"

definition TrySeekStream :: "view_io \<Rightarrow> wstring \<Rightarrow> int \<Rightarrow> OperationFailure option" where
  "TrySeekStream io stream offset = map_option failure_of (vi_seek io stream offset)"

text \<open>The failure, and the bytes in the buffer.\<close>

definition TryReadStreamChunk ::
    "view_io \<Rightarrow> wstring \<Rightarrow> int \<Rightarrow> nat \<Rightarrow> OperationFailure option \<times> byte list" where
  "TryReadStreamChunk io stream position wanted =
     (case vi_read io stream position wanted of
        Inl err \<Rightarrow> (Some (failure_of err), [])
      | Inr bytes \<Rightarrow>
          (if length bytes \<noteq> wanted then Some \<lparr>of_error = 0, of_transferred = length bytes\<rparr> else None, bytes))"

section \<open>One worker\<close>

datatype recording =
    RecOperation OperationIssueKey nat "OperationFailure option" "OperationFailure option"
  | RecContent wstring wstring int byte byte nat
  | RecCompared nat

fun perform_recording :: "recording \<Rightarrow> VerificationState \<Rightarrow> VerificationState" where
  "perform_recording (RecOperation key requested s r) = RecordOperationComparison key requested s r"
| "perform_recording (RecContent path stream offset b1 b2 n) = RecordContentMismatch path stream offset b1 b2 n"
| "perform_recording (RecCompared n) = RecordCompared n"

record ComparisonWorker =
  cw_current_stream :: "(nat \<times> nat \<times> nat \<times> nat) option"
  cw_readable :: bool
  cw_open_failure_accepted :: bool
  cw_synthetic_handle :: wstring
  cw_real_handle :: wstring

definition ComparisonWorker_new :: ComparisonWorker where
  "ComparisonWorker_new = \<lparr>cw_current_stream = None, cw_readable = False, cw_open_failure_accepted = False,
     cw_synthetic_handle = [], cw_real_handle = []\<rparr>"

definition RecordOperation ::
    "ReadTask \<Rightarrow> ObjectRecord \<Rightarrow> StreamRecord \<Rightarrow> FilesystemOperation \<Rightarrow> nat \<Rightarrow>
     OperationFailure option \<Rightarrow> OperationFailure option \<Rightarrow> recording" where
  "RecordOperation task object1 stream operation requested synthetic real1 =
     RecOperation \<lparr>ik_path = ob_path object1, ik_stream = sr_name stream, ik_operation = operation,
       ik_offset = (if operation = OpenStreamOp then 0 else rt_offset task)\<rparr> requested synthetic real1"

fun opt_failure :: "'e + 'a \<Rightarrow> 'e option" where
  "opt_failure (Inl e) = Some e"
| "opt_failure (Inr _) = None"

text \<open>The result, the worker, what is recorded, and the event after the polls.\<close>

definition OpenStream ::
    "FilesystemInventory \<Rightarrow> FilesystemInventory \<Rightarrow> view_io \<Rightarrow> view_io \<Rightarrow> ReadTask \<Rightarrow> ComparisonWorker \<Rightarrow>
     cancellation \<Rightarrow> bool \<times> ComparisonWorker \<times> recording list \<times> cancellation" where
  "OpenStream synthetic real1 sio rio task w cancel =
     (let w1 = w\<lparr>cw_open_failure_accepted := False, cw_synthetic_handle := [], cw_real_handle := []\<rparr>;
          synthetic_object = fi_objects synthetic ! rt_synthetic_object task;
          real_object = fi_objects real1 ! rt_real_object task;
          synthetic_stream = ob_streams synthetic_object ! rt_synthetic_stream task;
          real_stream = ob_streams real_object ! rt_real_stream task;
          synthetic_handle = TryOpenFilesystemObject sio (StreamPath synthetic synthetic_object synthetic_stream);
          (cancelled, cancel1) = event_is_signaled cancel
      in if cancelled then (False, w1, [], cancel1)
         else
           let real_handle = TryOpenFilesystemObject rio (StreamPath real1 real_object real_stream);
               (cancelled1, cancel2) = event_is_signaled cancel1
           in if cancelled1 then (False, w1, [], cancel2)
              else case (synthetic_handle, real_handle) of
                  (Inr sh, Inr rh) \<Rightarrow> (True, w1\<lparr>cw_synthetic_handle := sh, cw_real_handle := rh\<rparr>, [], cancel2)
                | _ \<Rightarrow>
                    (False,
                     w1\<lparr>cw_open_failure_accepted :=
                          FailuresMatch (opt_failure synthetic_handle) (opt_failure real_handle) \<or>
                          IsVssExcludedPath (ob_path synthetic_object)\<rparr>,
                     [RecordOperation task synthetic_object synthetic_stream OpenStreamOp 0
                        (opt_failure synthetic_handle) (opt_failure real_handle)],
                     cancel2))"

text \<open>The comparison of the two chunks that were read.\<close>

definition first_mismatch :: "byte list \<Rightarrow> byte list \<Rightarrow> nat" where
  "first_mismatch xs ys = length (takeWhile (\<lambda>(a, b). a = b) (zip xs ys))"

definition compare_chunks ::
    "cpu \<Rightarrow> ReadTask \<Rightarrow> ObjectRecord \<Rightarrow> StreamRecord \<Rightarrow> byte list \<Rightarrow> byte list \<Rightarrow> recording list" where
  "compare_chunks cpu1 task object1 stream synthetic_compared real_compared =
     (let first = first_mismatch synthetic_compared real_compared
      in (if first \<noteq> length synthetic_compared
          then [RecContent (ob_path object1) (sr_name stream) (rt_offset task + int first)
                  (synthetic_compared ! first) (real_compared ! first)
                  (unat (CountDifferingBytes cpu1 (drop first synthetic_compared) (drop first real_compared)
                     (length synthetic_compared - first)))]
          else []) @ [RecCompared (length synthetic_compared)])"

text \<open>Positioning, reading and comparing with both streams open.\<close>

definition compare_opened ::
    "cpu \<Rightarrow> view_io \<Rightarrow> view_io \<Rightarrow> ReadTask \<Rightarrow> ObjectRecord \<Rightarrow> StreamRecord \<Rightarrow> ComparisonWorker \<Rightarrow>
     cancellation \<Rightarrow> bool \<times> recording list \<times> cancellation" where
  "compare_opened cpu1 sio rio task synthetic_object synthetic_stream w cancel =
     (let synthetic_seek = TrySeekStream sio (cw_synthetic_handle w) (rt_offset task);
          (c1, cancel1) = event_is_signaled cancel
      in if c1 then (False, [], cancel1) else
      let real_seek = TrySeekStream rio (cw_real_handle w) (rt_offset task);
          (c2, cancel2) = event_is_signaled cancel1
      in if c2 then (False, [], cancel2)
      else if synthetic_seek \<noteq> None \<or> real_seek \<noteq> None then
        (FailuresMatch synthetic_seek real_seek \<or> IsVssExcludedPath (ob_path synthetic_object),
         [RecordOperation task synthetic_object synthetic_stream SeekStream 0 synthetic_seek real_seek], cancel2)
      else
      let (synthetic_read, synthetic_chunk) =
            TryReadStreamChunk sio (cw_synthetic_handle w) (rt_offset task) (rt_length task);
          (c3, cancel3) = event_is_signaled cancel2
      in if c3 then (False, [], cancel3) else
      let (real_read, real_chunk) = TryReadStreamChunk rio (cw_real_handle w) (rt_offset task) (rt_length task);
          (c4, cancel4) = event_is_signaled cancel3;
          recorded = RecordOperation task synthetic_object synthetic_stream ReadStream (rt_length task)
                       synthetic_read real_read
      in if c4 then (False, [], cancel4)
      else case (synthetic_read, real_read) of
          (None, None) \<Rightarrow>
            (True, compare_chunks cpu1 task synthetic_object synthetic_stream
               (take (rt_length task) synthetic_chunk) (take (rt_length task) real_chunk), cancel4)
        | (Some s, Some r) \<Rightarrow>
            if s \<noteq> r then (IsVssExcludedPath (ob_path synthetic_object), [recorded], cancel4)
            else if of_error s \<noteq> 0 then (True, [recorded], cancel4)
            else (True, recorded # compare_chunks cpu1 task synthetic_object synthetic_stream
                    (take (of_transferred s) synthetic_chunk) (take (of_transferred s) real_chunk), cancel4)
        | _ \<Rightarrow> (IsVssExcludedPath (ob_path synthetic_object), [recorded], cancel4))"

definition task_key :: "ReadTask \<Rightarrow> nat \<times> nat \<times> nat \<times> nat" where
  "task_key task = (rt_synthetic_object task, rt_real_object task, rt_synthetic_stream task, rt_real_stream task)"

text \<open>The worker after it has made sure that the streams of the task are open.\<close>

definition after_open ::
    "FilesystemInventory \<Rightarrow> FilesystemInventory \<Rightarrow> view_io \<Rightarrow> view_io \<Rightarrow> ReadTask \<Rightarrow> ComparisonWorker \<Rightarrow>
     cancellation \<Rightarrow> ComparisonWorker \<times> recording list \<times> cancellation" where
  "after_open synthetic real1 sio rio t w cancel =
     (if cw_current_stream w \<noteq> Some (task_key t)
      then case OpenStream synthetic real1 sio rio t (w\<lparr>cw_current_stream := Some (task_key t)\<rparr>) cancel of
             (readable, w1, recs, c) \<Rightarrow> (w1\<lparr>cw_readable := readable\<rparr>, recs, c)
      else (w, [], cancel))"

definition Compare ::
    "cpu \<Rightarrow> FilesystemInventory \<Rightarrow> FilesystemInventory \<Rightarrow> view_io \<Rightarrow> view_io \<Rightarrow> ReadTask \<Rightarrow> ComparisonWorker \<Rightarrow>
     cancellation \<Rightarrow> bool \<times> ComparisonWorker \<times> recording list \<times> cancellation" where
  "Compare cpu1 synthetic real1 sio rio task w cancel =
     (case event_is_signaled cancel of (c1, cancel1) \<Rightarrow>
        if c1 then (False, w, [], cancel1) else
        case after_open synthetic real1 sio rio task w cancel1 of
          (w2, recs, cancel2) \<Rightarrow>
            case event_is_signaled cancel2 of (c2, cancel3) \<Rightarrow>
              if c2 then (False, w2, recs, cancel3)
              else if \<not> cw_readable w2 then (cw_open_failure_accepted w2, w2, recs, cancel3)
              else
                let synthetic_object = fi_objects synthetic ! rt_synthetic_object task;
                    synthetic_stream = ob_streams synthetic_object ! rt_synthetic_stream task
                in case compare_opened cpu1 sio rio task synthetic_object synthetic_stream w2 cancel3 of
                     (result, recs1, cancel4) \<Rightarrow> (result, w2, recs @ recs1, cancel4))"

section \<open>The workers of a run\<close>

text \<open>
  \<open>Polling\<close>: before the test of the loop; \<open>Fetching\<close>: about to take an index;
  \<open>Recording\<close>: inside \<open>Compare\<close>, with its result and the records still to be made.
\<close>

datatype cthread =
    Polling ComparisonWorker
  | Fetching ComparisonWorker
  | Recording nat bool "recording list" ComparisonWorker
  | Ended
  | Threw error

record comparing =
  cm_state :: VerificationState
  cm_next_task :: nat
  cm_completed_tasks :: nat
  cm_cancelled :: bool
  cm_launching :: nat
  cm_threads :: "cthread list"

fun thread_over :: "cthread \<Rightarrow> bool" where
  "thread_over Ended = True"
| "thread_over (Threw _) = True"
| "thread_over _ = False"

definition set_thread :: "nat \<Rightarrow> cthread \<Rightarrow> comparing \<Rightarrow> comparing" where
  "set_thread i t v = v\<lparr>cm_threads := (cm_threads v)[i := t]\<rparr>"

text \<open>
  A step of a run.  \<open>truth_s\<close> and \<open>truth_r\<close> are what the operating system promises of its
  answers for the two views.  A poll inside \<open>Compare\<close> that sees the event signalled
  means that the event is signalled from then on.
\<close>

inductive compare_step ::
    "cpu \<Rightarrow> ReadTask list \<Rightarrow> FilesystemInventory \<Rightarrow> FilesystemInventory \<Rightarrow> (view_io \<Rightarrow> bool) \<Rightarrow> (view_io \<Rightarrow> bool) \<Rightarrow>
     comparing \<Rightarrow> comparing \<Rightarrow> bool"
  for cpu1 tasks synthetic real1 truth_s truth_r where
  launch: "cm_launching v = Suc n \<Longrightarrow> compare_step cpu1 tasks synthetic real1 truth_s truth_r v
     (v\<lparr>cm_launching := n, cm_threads := cm_threads v @ [Polling ComparisonWorker_new]\<rparr>)"
| launch_failed: "cm_launching v = Suc n \<Longrightarrow> compare_step cpu1 tasks synthetic real1 truth_s truth_r v
     (v\<lparr>cm_launching := 0, cm_state := Fail err (cm_state v)\<rparr>)"
| stop: "i < length (cm_threads v) \<Longrightarrow> cm_threads v ! i = Polling w \<Longrightarrow> Failed (cm_state v) \<or> cm_cancelled v \<Longrightarrow>
     compare_step cpu1 tasks synthetic real1 truth_s truth_r v (set_thread i Ended v)"
| go_on: "i < length (cm_threads v) \<Longrightarrow> cm_threads v ! i = Polling w \<Longrightarrow> \<not> Failed (cm_state v) \<Longrightarrow> \<not> cm_cancelled v \<Longrightarrow>
     compare_step cpu1 tasks synthetic real1 truth_s truth_r v (set_thread i (Fetching w) v)"
| exhausted: "i < length (cm_threads v) \<Longrightarrow> cm_threads v ! i = Fetching w \<Longrightarrow> length tasks \<le> cm_next_task v \<Longrightarrow>
     compare_step cpu1 tasks synthetic real1 truth_s truth_r v
       (set_thread i Ended (v\<lparr>cm_next_task := cm_next_task v + 1\<rparr>))"
| compare: "i < length (cm_threads v) \<Longrightarrow> cm_threads v ! i = Fetching w \<Longrightarrow> cm_next_task v < length tasks \<Longrightarrow>
     truth_s sio \<Longrightarrow> truth_r rio \<Longrightarrow> (cm_cancelled v \<Longrightarrow> cancel = Some 0) \<Longrightarrow>
     Compare cpu1 synthetic real1 sio rio (tasks ! cm_next_task v) w cancel = (result, w', recs, cancel') \<Longrightarrow>
     compare_step cpu1 tasks synthetic real1 truth_s truth_r v
       (set_thread i (Recording (cm_next_task v) result recs w')
          (v\<lparr>cm_next_task := cm_next_task v + 1, cm_cancelled := (cm_cancelled v \<or> cancel' = Some 0)\<rparr>))"
| record1: "i < length (cm_threads v) \<Longrightarrow> cm_threads v ! i = Recording k result (a # recs) w \<Longrightarrow>
     compare_step cpu1 tasks synthetic real1 truth_s truth_r v
       (set_thread i (Recording k result recs w) (v\<lparr>cm_state := perform_recording a (cm_state v)\<rparr>))"
| finish: "i < length (cm_threads v) \<Longrightarrow> cm_threads v ! i = Recording k result [] w \<Longrightarrow>
     compare_step cpu1 tasks synthetic real1 truth_s truth_r v
       (set_thread i (Polling w) (v\<lparr>cm_completed_tasks := cm_completed_tasks v + (if result then 1 else 0)\<rparr>))"
| throw: "i < length (cm_threads v) \<Longrightarrow> \<not> thread_over (cm_threads v ! i) \<Longrightarrow>
     compare_step cpu1 tasks synthetic real1 truth_s truth_r v (set_thread i (Threw err) v)"
| cancel: "\<not> cm_cancelled v \<Longrightarrow> compare_step cpu1 tasks synthetic real1 truth_s truth_r v (v\<lparr>cm_cancelled := True\<rparr>)"

definition comparing_start :: "ReadTask list \<Rightarrow> bool \<Rightarrow> VerificationState \<Rightarrow> comparing" where
  "comparing_start tasks cancelled state = \<lparr>cm_state = state, cm_next_task = 0, cm_completed_tasks = 0,
     cm_cancelled = cancelled, cm_launching = min kVerificationWorkerCount (length tasks), cm_threads = []\<rparr>"

fun thrown :: "cthread \<Rightarrow> error list" where
  "thrown (Threw err) = [err]"
| "thrown _ = []"

definition compare_finished :: "comparing \<Rightarrow> bool" where
  "compare_finished v \<longleftrightarrow> cm_launching v = 0 \<and> list_all thread_over (cm_threads v)"

text \<open>What \<open>RunComparisonWorkers\<close> returns once every worker is over; the first exception is rethrown.\<close>

definition RunComparisonWorkers_result :: "ReadTask list \<Rightarrow> comparing \<Rightarrow> bool result" where
  "RunComparisonWorkers_result tasks v =
     (case concat (map thrown (cm_threads v)) of
        err # _ \<Rightarrow> Inl err
      | [] \<Rightarrow> Inr (\<not> Failed (cm_state v) \<and> \<not> cm_cancelled v \<and>
          list_all (\<lambda>c. \<not> IsContentOperationMismatch c) (vs_operation_comparison_records (cm_state v)) \<and>
          cm_completed_tasks v = length tasks))"

end
