(* ===== verification/ComparisonProofs.thy ===== *)
theory ComparisonProofs
  imports Comparison
begin

text \<open>
  The correctness of a comparison run.  \<open>comparison_sound\<close>: when \<open>RunComparisonWorkers\<close>
  reports success, every task of the plan was compared, and its bytes agree unless
  something is recorded for its stream.  The invariant \<open>cm_inv\<close> accounts for every index that a
  worker has taken.
\<close>

section \<open>What is accounted for\<close>

fun on_stream :: "wstring \<Rightarrow> wstring \<Rightarrow> recording \<Rightarrow> bool" where
  "on_stream path name (RecOperation key n s r) \<longleftrightarrow> ik_path key = path \<and> ik_stream key = name \<and> FailuresMatch s r"
| "on_stream path name (RecContent p q _ _ _ _) \<longleftrightarrow> p = path \<and> q = name"
| "on_stream path name (RecCompared _) \<longleftrightarrow> False"

text \<open>Something is, or is about to be, on record for the stream, or its path is excluded.\<close>

definition accounted :: "VerificationState \<Rightarrow> recording list \<Rightarrow> wstring \<Rightarrow> wstring \<Rightarrow> bool" where
  "accounted st recs path name \<longleftrightarrow> IsVssExcludedPath path \<or>
     (\<exists>c \<in> set (vs_operation_comparison_records st). ik_path (oc_key c) = path \<and> ik_stream (oc_key c) = name \<and> IsMatchedError c) \<or>
     vs_content_mismatches st (path, name) \<noteq> None \<or> (\<exists>a \<in> set recs. on_stream path name a)"

lemma records_grow: "set (vs_operation_comparison_records st) \<subseteq> set (vs_operation_comparison_records (perform_recording a st))"
  by (cases a) (auto intro!: comparisons_grow.kept_operation comparisons_grow.kept_content comparisons_grow.kept_compared)

lemma contents_grow:
  "vs_content_mismatches st k \<noteq> None \<Longrightarrow> vs_content_mismatches (perform_recording a st) k \<noteq> None"
  by (cases a) (auto simp: record_ops split: option.splits)

lemma accounted_grow: "accounted st recs path name \<Longrightarrow> accounted (perform_recording a st) recs path name"
  using records_grow [of st a] contents_grow [of st _ a] unfolding accounted_def by blast

lemma noted_performed:
  assumes "vs_inv st" "on_stream path name a"
  shows "accounted (perform_recording a st) recs path name"
proof (cases a)
  case (RecOperation key n s r)
  let ?c = "\<lparr>oc_key = key, oc_requested = n, oc_synthetic = s, oc_real = r\<rparr>"
  have "?c \<in> set (vs_operation_comparison_records (perform_recording a st))"
    using assms(1) RecOperation by (auto simp: vs_inv_def RecordOperationComparison_def Let_def update_observation_def)
  moreover have "IsMatchedError ?c" "ik_path key = path" "ik_stream key = name"
    using assms(2) RecOperation by (simp_all add: IsMatchedError_def)
  ultimately show ?thesis unfolding accounted_def by (metis OperationComparison.select_convs(1))
next
  case (RecContent p q off b1 b2 n)
  then have "vs_content_mismatches (perform_recording a st) (path, name) \<noteq> None"
    using assms(2) by (auto simp: record_ops split: option.splits)
  then show ?thesis unfolding accounted_def by blast
qed (use assms(2) in simp)

lemma accounted_performed:
  assumes "vs_inv st" "accounted st (a # recs) path name"
  shows "accounted (perform_recording a st) recs path name"
proof (cases "on_stream path name a")
  case False
  then have "accounted st recs path name" using assms(2) by (simp add: accounted_def)
  then show ?thesis by (rule accounted_grow)
qed (rule noted_performed [OF assms(1)])

lemma accounted_Fail [simp]: "accounted (Fail err st) recs path name = accounted st recs path name"
  by (simp add: accounted_def observation_ops)

section \<open>One call of Compare\<close>

definition truthful :: "(wstring \<Rightarrow> int \<Rightarrow> byte) \<Rightarrow> view_io \<Rightarrow> bool" where
  "truthful content io \<longleftrightarrow> (\<forall>h off n bs. vi_read io h off n = Inr bs \<longrightarrow>
     length bs \<le> n \<and> (\<forall>k < length bs. bs ! k = content h (off + int k)))"

abbreviation key_object :: "FilesystemInventory \<Rightarrow> nat \<times> nat \<times> nat \<times> nat \<Rightarrow> ObjectRecord" where
  "key_object synthetic k \<equiv> fi_objects synthetic ! fst k"

abbreviation key_stream :: "FilesystemInventory \<Rightarrow> nat \<times> nat \<times> nat \<times> nat \<Rightarrow> StreamRecord" where
  "key_stream synthetic k \<equiv> ob_streams (key_object synthetic k) ! fst (snd (snd k))"

definition key_synthetic :: "FilesystemInventory \<Rightarrow> nat \<times> nat \<times> nat \<times> nat \<Rightarrow> wstring" where
  "key_synthetic synthetic k = StreamPath synthetic (key_object synthetic k) (key_stream synthetic k)"

definition key_real :: "FilesystemInventory \<Rightarrow> nat \<times> nat \<times> nat \<times> nat \<Rightarrow> wstring" where
  "key_real real1 k = StreamPath real1 (fi_objects real1 ! fst (snd k)) (ob_streams (fi_objects real1 ! fst (snd k)) ! snd (snd (snd k)))"

abbreviation key_accounted :: "FilesystemInventory \<Rightarrow> VerificationState \<Rightarrow> recording list \<Rightarrow> nat \<times> nat \<times> nat \<times> nat \<Rightarrow> bool" where
  "key_accounted synthetic st recs k \<equiv> accounted st recs (ob_path (key_object synthetic k)) (sr_name (key_stream synthetic k))"

definition worker_ok ::
    "FilesystemInventory \<Rightarrow> FilesystemInventory \<Rightarrow> VerificationState \<Rightarrow> recording list \<Rightarrow> ComparisonWorker \<Rightarrow> bool" where
  "worker_ok synthetic real1 st recs w \<longleftrightarrow> (\<forall>k. cw_current_stream w = Some k \<longrightarrow>
     (cw_readable w \<longrightarrow> cw_synthetic_handle w = key_synthetic synthetic k \<and> cw_real_handle w = key_real real1 k) \<and>
     (\<not> cw_readable w \<longrightarrow> cw_open_failure_accepted w \<longrightarrow> key_accounted synthetic st recs k))"

definition task_equal ::
    "FilesystemInventory \<Rightarrow> FilesystemInventory \<Rightarrow> (wstring \<Rightarrow> int \<Rightarrow> byte) \<Rightarrow> (wstring \<Rightarrow> int \<Rightarrow> byte) \<Rightarrow> ReadTask \<Rightarrow> bool" where
  "task_equal synthetic real1 cs cr t \<longleftrightarrow>
     (\<forall>k. task_covers t k \<longrightarrow> cs (key_synthetic synthetic (task_key t)) k = cr (key_real real1 (task_key t)) k)"

lemma first_mismatch_end:
  assumes "length xs = length ys" "first_mismatch xs ys = length xs"
  shows "xs = ys"
  using assms
proof (induction xs ys rule: list_induct2)
  case (Cons x xs y ys)
  then show ?case by (cases "x = y") (simp_all add: first_mismatch_def)
qed simp

lemma compare_chunks_noted:
  assumes "length xs = length ys"
  shows "(\<exists>a \<in> set (compare_chunks c t x y xs ys). on_stream (ob_path x) (sr_name y) a) \<or> xs = ys"
  using first_mismatch_end [OF assms] by (auto simp: compare_chunks_def Let_def)

lemma read_full:
  assumes "truthful content io" "TryReadStreamChunk io h off n = (None, bs)"
  shows "length bs = n" "\<And>k. off \<le> k \<Longrightarrow> k < off + int n \<Longrightarrow> content h k = bs ! nat (k - off)"
proof -
  have r: "vi_read io h off n = Inr bs" and len: "length bs = n"
    using assms(2) by (auto simp: TryReadStreamChunk_def split: sum.splits if_splits)
  show "length bs = n" by (rule len)
  show "content h k = bs ! nat (k - off)" if "off \<le> k" "k < off + int n" for k
    using assms(1) r len that unfolding truthful_def by (metis add_diff_cancel_left' int_nat_eq nat_less_iff diff_ge_0_iff_ge diff_less_eq add.commute diff_add_cancel)
qed

lemma compare_opened_spec:
  assumes "compare_opened c sio rio t x y w cancel = (True, recs, cancel')"
    and "truthful cs sio" "truthful cr rio"
  shows "IsVssExcludedPath (ob_path x) \<or> (\<exists>a \<in> set recs. on_stream (ob_path x) (sr_name y) a) \<or>
    (\<forall>k. task_covers t k \<longrightarrow> cs (cw_synthetic_handle w) k = cr (cw_real_handle w) k)"
proof -
  obtain sr sc where s: "TryReadStreamChunk sio (cw_synthetic_handle w) (rt_offset t) (rt_length t) = (sr, sc)" by fastforce
  obtain rr rc where r: "TryReadStreamChunk rio (cw_real_handle w) (rt_offset t) (rt_length t) = (rr, rc)" by fastforce
  let ?ss = "TrySeekStream sio (cw_synthetic_handle w) (rt_offset t)"
  let ?rs = "TrySeekStream rio (cw_real_handle w) (rt_offset t)"
  show ?thesis
  proof (cases "(?ss \<noteq> None \<or> ?rs \<noteq> None) \<or> sr \<noteq> None \<or> rr \<noteq> None")
    case True
    then show ?thesis using assms(1) s r
      by (auto simp: compare_opened_def Let_def RecordOperation_def FailuresMatch_def split: prod.splits if_splits option.splits)
  next
    case False
    then have full: "length sc = rt_length t" "length rc = rt_length t"
      using read_full(1) [OF assms(2)] read_full(1) [OF assms(3)] s r by simp_all
    have recs: "recs = compare_chunks c t x y sc rc"
      using assms(1) False s r full by (simp add: compare_opened_def Let_def split: prod.splits if_splits)
    have "cs (cw_synthetic_handle w) k = cr (cw_real_handle w) k" if "sc = rc" "task_covers t k" for k
      using read_full(2) [OF assms(2), of "cw_synthetic_handle w" "rt_offset t" "rt_length t" sc k]
        read_full(2) [OF assms(3), of "cw_real_handle w" "rt_offset t" "rt_length t" rc k] s r False that
      by (simp add: task_covers_def)
    then show ?thesis using compare_chunks_noted [of sc rc c t x y] full recs by auto
  qed
qed

lemma OpenStream_spec:
  assumes "OpenStream synthetic real1 sio rio t w cancel = (readable, w1, recs, cancel')"
  shows "cw_current_stream w1 = cw_current_stream w"
    and "readable \<Longrightarrow> cw_synthetic_handle w1 = key_synthetic synthetic (task_key t) \<and> cw_real_handle w1 = key_real real1 (task_key t)"
    and "\<not> readable \<Longrightarrow> cw_open_failure_accepted w1 \<Longrightarrow> IsVssExcludedPath (ob_path (key_object synthetic (task_key t))) \<or>
      (\<exists>a \<in> set recs. on_stream (ob_path (key_object synthetic (task_key t))) (sr_name (key_stream synthetic (task_key t))) a)"
  using assms
  by (auto simp: OpenStream_def Let_def task_key_def key_synthetic_def key_real_def TryOpenFilesystemObject_def
      RecordOperation_def FailuresMatch_def split: prod.splits if_splits sum.splits option.splits)

lemma accounted_more: "accounted st recs path name \<Longrightarrow> set recs \<subseteq> set recs' \<Longrightarrow> accounted st recs' path name"
  unfolding accounted_def by blast

lemma after_open_ok:
  assumes "after_open synthetic real1 sio rio t w cancel = (w2, recs, cancel')" "worker_ok synthetic real1 st [] w"
  shows "cw_current_stream w2 = Some (task_key t)" "worker_ok synthetic real1 st recs w2"
proof -
  have "cw_current_stream w2 = Some (task_key t) \<and> worker_ok synthetic real1 st recs w2"
  proof (cases "cw_current_stream w = Some (task_key t)")
    case True
    then show ?thesis using assms by (simp add: after_open_def)
  next
    case False
    then obtain readable w1 where o: "OpenStream synthetic real1 sio rio t (w\<lparr>cw_current_stream := Some (task_key t)\<rparr>) cancel =
        (readable, w1, recs, cancel')" "w2 = w1\<lparr>cw_readable := readable\<rparr>"
      using assms(1) by (auto simp: after_open_def split: prod.splits)
    show ?thesis using OpenStream_spec [OF o(1)] o(2) by (auto simp: worker_ok_def accounted_def)
  qed
  then show "cw_current_stream w2 = Some (task_key t)" "worker_ok synthetic real1 st recs w2" by simp_all
qed

lemma Compare_spec:
  assumes "Compare c synthetic real1 sio rio t w cancel = (result, w', recs, cancel')"
    and "worker_ok synthetic real1 st [] w" "truthful cs sio" "truthful cr rio"
  shows "worker_ok synthetic real1 st recs w'"
    and "result \<Longrightarrow> key_accounted synthetic st recs (task_key t) \<or> task_equal synthetic real1 cs cr t"
proof -
  obtain c1 cancel1 where e1: "event_is_signaled cancel = (c1, cancel1)" by fastforce
  obtain w2 recs2 cancel2 where ao: "after_open synthetic real1 sio rio t w cancel1 = (w2, recs2, cancel2)" by (metis prod_cases3)
  obtain c2 cancel3 where e2: "event_is_signaled cancel2 = (c2, cancel3)" by fastforce
  let ?k = "task_key t"
  obtain res recs4 cancel4 where co: "compare_opened c sio rio t (key_object synthetic ?k) (key_stream synthetic ?k) w2 cancel3 =
    (res, recs4, cancel4)" by (metis prod_cases3)
  have cmp: "(result, w', recs, cancel') = (if c1 then (False, w, [], cancel1) else
      if c2 then (False, w2, recs2, cancel3)
      else if \<not> cw_readable w2 then (cw_open_failure_accepted w2, w2, recs2, cancel3)
      else (res, w2, recs2 @ recs4, cancel4))"
    using assms(1) e1 ao e2 co 
    by (auto simp: Compare_def task_key_def Let_def)
  note ok = after_open_ok [OF ao assms(2)]
  have more: "worker_ok synthetic real1 st (recs2 @ recs4) w2"
    using ok(2) accounted_more [of st recs2 _ _ "recs2 @ recs4"] unfolding worker_ok_def by auto
  show "worker_ok synthetic real1 st recs w'"
    using cmp assms(2) ok(2) more by (auto split: if_splits)
  show "key_accounted synthetic st recs ?k \<or> task_equal synthetic real1 cs cr t" if result
  proof (cases "cw_readable w2")
    case True
    then have r: "res" "recs = recs2 @ recs4" using cmp that by (auto split: if_splits)
    have h: "cw_synthetic_handle w2 = key_synthetic synthetic ?k" "cw_real_handle w2 = key_real real1 ?k"
      using ok True by (simp_all add: worker_ok_def)
    show ?thesis using compare_opened_spec [OF co [unfolded r(1) [THEN eqTrueI]] assms(3,4)] r(2)
      unfolding task_equal_def h accounted_def by auto
  next
    case False
    then have "cw_open_failure_accepted w2" "recs = recs2" using cmp that by (auto split: if_splits)
    then show ?thesis using ok False by (simp add: worker_ok_def)
  qed
qed

section \<open>The invariant of a run\<close>

fun thread_index :: "cthread \<Rightarrow> nat option" where
  "thread_index (Recording k _ _ _) = Some k"
| "thread_index _ = None"

definition index_ok ::
    "ReadTask list \<Rightarrow> FilesystemInventory \<Rightarrow> FilesystemInventory \<Rightarrow> (wstring \<Rightarrow> int \<Rightarrow> byte) \<Rightarrow> (wstring \<Rightarrow> int \<Rightarrow> byte) \<Rightarrow>
     VerificationState \<Rightarrow> recording list \<Rightarrow> nat \<Rightarrow> bool" where
  "index_ok tasks synthetic real1 cs cr st recs k \<longleftrightarrow>
     key_accounted synthetic st recs (task_key (tasks ! k)) \<or> task_equal synthetic real1 cs cr (tasks ! k)"

fun thread_ok ::
    "ReadTask list \<Rightarrow> FilesystemInventory \<Rightarrow> FilesystemInventory \<Rightarrow> (wstring \<Rightarrow> int \<Rightarrow> byte) \<Rightarrow> (wstring \<Rightarrow> int \<Rightarrow> byte) \<Rightarrow>
     VerificationState \<Rightarrow> cthread \<Rightarrow> bool" where
  "thread_ok tasks synthetic real1 cs cr st (Polling w) = worker_ok synthetic real1 st [] w"
| "thread_ok tasks synthetic real1 cs cr st (Fetching w) = worker_ok synthetic real1 st [] w"
| "thread_ok tasks synthetic real1 cs cr st (Recording k result recs w) \<longleftrightarrow> worker_ok synthetic real1 st recs w \<and>
     (result \<longrightarrow> index_ok tasks synthetic real1 cs cr st recs k)"
| "thread_ok tasks synthetic real1 cs cr st _ = True"

text \<open>
  The indices in the hands of the workers are distinct, taken, and not among the
  completed ones \<open>D\<close>.
\<close>

definition indices_ok :: "cthread list \<Rightarrow> nat \<Rightarrow> nat \<Rightarrow> nat set \<Rightarrow> bool" where
  "indices_ok ts taken n D \<longleftrightarrow>
     (\<forall>i j k. i < length ts \<longrightarrow> j < length ts \<longrightarrow> thread_index (ts ! i) = Some k \<longrightarrow> thread_index (ts ! j) = Some k \<longrightarrow> i = j) \<and>
     (\<forall>i k. i < length ts \<longrightarrow> thread_index (ts ! i) = Some k \<longrightarrow> k < taken \<and> k < n \<and> k \<notin> D) \<and>
     (\<forall>k \<in> D. k < taken \<and> k < n)"

definition cm_inv ::
    "ReadTask list \<Rightarrow> FilesystemInventory \<Rightarrow> FilesystemInventory \<Rightarrow> (wstring \<Rightarrow> int \<Rightarrow> byte) \<Rightarrow> (wstring \<Rightarrow> int \<Rightarrow> byte) \<Rightarrow>
     comparing \<Rightarrow> nat set \<Rightarrow> bool" where
  "cm_inv tasks synthetic real1 cs cr v D \<longleftrightarrow> vs_inv (cm_state v) \<and>
     (\<forall>th \<in> set (cm_threads v). thread_ok tasks synthetic real1 cs cr (cm_state v) th) \<and>
     indices_ok (cm_threads v) (cm_next_task v) (length tasks) D \<and>
     finite D \<and> card D = cm_completed_tasks v \<and>
     (\<forall>k \<in> D. index_ok tasks synthetic real1 cs cr (cm_state v) [] k)"

lemma indices_okI:
  assumes "\<And>i j k. i < length ts \<Longrightarrow> j < length ts \<Longrightarrow> thread_index (ts ! i) = Some k \<Longrightarrow> thread_index (ts ! j) = Some k \<Longrightarrow> i = j"
    and "\<And>i k. i < length ts \<Longrightarrow> thread_index (ts ! i) = Some k \<Longrightarrow> k < taken \<and> k < n \<and> k \<notin> D"
    and "\<And>k. k \<in> D \<Longrightarrow> k < taken \<and> k < n"
  shows "indices_ok ts taken n D"
  unfolding indices_ok_def using assms by blast

lemma indices_okD:
  assumes "indices_ok ts taken n D"
  shows "i < length ts \<Longrightarrow> j < length ts \<Longrightarrow> thread_index (ts ! i) = Some k \<Longrightarrow> thread_index (ts ! j) = Some k \<Longrightarrow> i = j"
    and "i < length ts \<Longrightarrow> thread_index (ts ! i) = Some k \<Longrightarrow> k < taken \<and> k < n \<and> k \<notin> D"
    and "k \<in> D \<Longrightarrow> k < taken \<and> k < n"
  using assms unfolding indices_ok_def by blast+

lemma indices_update:
  assumes "indices_ok ts taken n D" "thread_index t = None \<or> thread_index t = thread_index (ts ! i)" "taken \<le> taken'"
  shows "indices_ok (ts[i := t]) taken' n D"
proof (rule indices_okI)
  have old: "thread_index (ts ! j) = Some k" if "j < length (ts[i := t])" "thread_index (ts[i := t] ! j) = Some k" for j k
    using assms(2) that by (cases "j = i") auto
  note d = indices_okD [OF assms(1)]
  show "a = b" if "a < length (ts[i := t])" "b < length (ts[i := t])" "thread_index (ts[i := t] ! a) = Some k"
    "thread_index (ts[i := t] ! b) = Some k" for a b k
    using d(1) [of a b k] old that by simp
  show "k < taken' \<and> k < n \<and> k \<notin> D" if "a < length (ts[i := t])" "thread_index (ts[i := t] ! a) = Some k" for a k
    using d(2) [of a k] old that assms(3) by simp
  show "k < taken' \<and> k < n" if "k \<in> D" for k using d(3) [OF that] assms(3) by simp
qed

lemma indices_take:
  assumes "indices_ok ts taken n D" "taken < n" "i < length ts"
  shows "indices_ok (ts[i := Recording taken r recs w]) (Suc taken) n D"
proof -
  have other: "j \<noteq> i \<Longrightarrow> thread_index (ts[i := Recording taken r recs w] ! j) = thread_index (ts ! j)" for j by simp
  have here: "thread_index (ts[i := Recording taken r recs w] ! i) = Some taken" using assms(3) by simp
  have lt: "thread_index (ts ! j) = Some k \<Longrightarrow> j < length ts \<Longrightarrow> k < taken" for j k
    using assms(1) unfolding indices_ok_def by blast
  show ?thesis unfolding indices_ok_def length_list_update
  proof (intro conjI allI impI ballI)
    fix a b k
    assume h: "a < length ts" "b < length ts" "thread_index (ts[i := Recording taken r recs w] ! a) = Some k"
      "thread_index (ts[i := Recording taken r recs w] ! b) = Some k"
    show "a = b"
    proof (cases "a = i"; cases "b = i")
      assume "a \<noteq> i" "b \<noteq> i"
      then show ?thesis using h other assms(1) unfolding indices_ok_def by metis
    next
      assume "a = i" "b \<noteq> i"
      then show ?thesis using h other here lt [of b taken] by auto
    next
      assume "a \<noteq> i" "b = i"
      then show ?thesis using h other here lt [of a taken] by auto
    qed simp
  next
    fix a k
    assume h: "a < length ts" "thread_index (ts[i := Recording taken r recs w] ! a) = Some k"
    have "k < Suc taken \<and> k < n \<and> k \<notin> D"
    proof (cases "a = i")
      case True
      then show ?thesis using h here assms(1,2) unfolding indices_ok_def by auto
    next
      case False
      then show ?thesis using h other assms(1) unfolding indices_ok_def by (metis less_SucI)
    qed
    then show "k < Suc taken" "k < n" "k \<notin> D" by simp_all
  next
    fix k assume "k \<in> D"
    then show "k < Suc taken" "k < n" using assms(1) unfolding indices_ok_def by (blast intro: less_SucI)+
  qed
qed

lemma indices_finish:
  assumes "indices_ok ts taken n D" "i < length ts" "thread_index (ts ! i) = Some k" "thread_index t = None"
  shows "indices_ok (ts[i := t]) taken n (insert k D)" "k \<notin> D"
proof -
  show "k \<notin> D" using assms unfolding indices_ok_def by blast
  have other: "thread_index (ts[i := t] ! j) = Some l \<Longrightarrow> j < length ts \<Longrightarrow> j \<noteq> i \<and> thread_index (ts ! j) = Some l" for j l
    using assms(2,4) by (cases "j = i") auto
  note d = indices_okD [OF assms(1)]
  show "indices_ok (ts[i := t]) taken n (insert k D)"
  proof (rule indices_okI)
    show "a = b" if "a < length (ts[i := t])" "b < length (ts[i := t])" "thread_index (ts[i := t] ! a) = Some l"
      "thread_index (ts[i := t] ! b) = Some l" for a b l
      using d(1) [of a b l] other that by simp
    show "l < taken \<and> l < n \<and> l \<notin> insert k D" if "a < length (ts[i := t])" "thread_index (ts[i := t] ! a) = Some l" for a l
      using d(2) [of a l] d(1) [of a i k] other [of a l] that assms(2,3) by auto
    show "l < taken \<and> l < n" if "l \<in> insert k D" for l
      using d(2) [OF assms(2,3)] d(3) [of l] that by auto
  qed
qed

lemma thread_ok_grow: "thread_ok tasks synthetic real1 cs cr st th \<Longrightarrow> thread_ok tasks synthetic real1 cs cr (perform_recording a st) th"
  using accounted_grow [of st _ _ _ a] by (cases th) (auto simp: worker_ok_def index_ok_def)

lemma thread_ok_Fail [simp]: "thread_ok tasks synthetic real1 cs cr (Fail err st) th = thread_ok tasks synthetic real1 cs cr st th"
  by (cases th) (auto simp: worker_ok_def index_ok_def)

lemma index_ok_Fail [simp]: "index_ok tasks synthetic real1 cs cr (Fail err st) recs k = index_ok tasks synthetic real1 cs cr st recs k"
  by (simp add: index_ok_def)

lemma vs_inv_recording: "vs_inv st \<Longrightarrow> vs_inv (perform_recording a st)"
  by (cases a) (simp_all add: RecordOperationComparison_inv RecordContentMismatch_inv)

lemma threads_update:
  assumes "\<forall>th \<in> set ts. P th" "P t"
  shows "\<forall>th \<in> set (ts[i := t]). P th"
  using assms set_update_subset_insert [of ts i t] by blast

lemma cm_inv_set:
  assumes "cm_inv tasks synthetic real1 cs cr v D" "thread_index th = None \<or> thread_index th = thread_index (cm_threads v ! i)"
    and "thread_ok tasks synthetic real1 cs cr (cm_state v) th" "cm_next_task v \<le> taken"
  shows "cm_inv tasks synthetic real1 cs cr (set_thread i th (v\<lparr>cm_next_task := taken\<rparr>)) D"
  using assms indices_update [of "cm_threads v" "cm_next_task v" "length tasks" D th i taken]
    threads_update [of "cm_threads v" "thread_ok tasks synthetic real1 cs cr (cm_state v)" th i]
  unfolding cm_inv_def by (simp add: set_thread_def)

lemma cm_inv_step:
  assumes "compare_step cpu1 tasks synthetic real1 (truthful cs) (truthful cr) v v'" "cm_inv tasks synthetic real1 cs cr v D"
  shows "\<exists>D'. cm_inv tasks synthetic real1 cs cr v' D'"
proof -
  have vinv: "vs_inv (cm_state v)" and ths: "\<forall>th \<in> set (cm_threads v). thread_ok tasks synthetic real1 cs cr (cm_state v) th"
    and ix: "indices_ok (cm_threads v) (cm_next_task v) (length tasks) D" and fin: "finite D" "card D = cm_completed_tasks v"
    and dn: "\<forall>k \<in> D. index_ok tasks synthetic real1 cs cr (cm_state v) [] k"
    using assms(2) by (simp_all add: cm_inv_def)
  have at: "thread_ok tasks synthetic real1 cs cr (cm_state v) (cm_threads v ! i)" if "i < length (cm_threads v)" for i
    using ths that by simp
  note set0 = cm_inv_set [OF assms(2), where taken = "cm_next_task v", simplified]
  show ?thesis using assms(1)
  proof (cases rule: compare_step.cases)
    case (launch n)
    have "thread_ok tasks synthetic real1 cs cr (cm_state v) (Polling ComparisonWorker_new)"
      by (simp add: worker_ok_def ComparisonWorker_new_def)
    moreover have "indices_ok (cm_threads v @ [Polling ComparisonWorker_new]) (cm_next_task v) (length tasks) D"
      using ix by (auto simp: indices_ok_def nth_append less_Suc_eq)
    ultimately show ?thesis using assms(2) launch(1) unfolding cm_inv_def by auto
  next
    case (launch_failed n err)
    then have "cm_inv tasks synthetic real1 cs cr v' D" using assms(2) by (simp add: cm_inv_def)
    then show ?thesis ..
  next
    case (go_on i w)
    then show ?thesis using set0 [of "Fetching w" i] at [of i] by auto
  next
    case (exhausted i w)
    then show ?thesis using cm_inv_set [OF assms(2), of Ended i "cm_next_task v + 1"] by auto
  next
    case (compare i w sio rio cancel result w' recs cancel')
    have "worker_ok synthetic real1 (cm_state v) [] w" using at [OF compare(2)] compare(3) by simp
    from Compare_spec [OF compare(8) this compare(5,6)]
    have "thread_ok tasks synthetic real1 cs cr (cm_state v) (Recording (cm_next_task v) result recs w')"
      by (simp add: index_ok_def)
    from threads_update [OF ths this, of i] have "cm_inv tasks synthetic real1 cs cr v' D"
      using assms(2) compare(1) indices_take [OF ix compare(4,2)]
      unfolding cm_inv_def by (simp add: set_thread_def)
    then show ?thesis ..
  next
    case (record1 i k result a recs w)
    have "thread_ok tasks synthetic real1 cs cr (cm_state v) (Recording k result (a # recs) w)" using at [OF record1(2)] record1(3) by simp
    then have now: "thread_ok tasks synthetic real1 cs cr (perform_recording a (cm_state v)) (Recording k result recs w)"
      using accounted_performed [OF vinv] by (auto simp: worker_ok_def index_ok_def)
    have "\<forall>th \<in> set (cm_threads v). thread_ok tasks synthetic real1 cs cr (perform_recording a (cm_state v)) th"
      using ths thread_ok_grow by blast
    note threads_update [OF this now, of i]
    moreover have "indices_ok ((cm_threads v)[i := Recording k result recs w]) (cm_next_task v) (length tasks) D"
      using indices_update [OF ix] record1(3) by simp
    moreover have "\<forall>k \<in> D. index_ok tasks synthetic real1 cs cr (perform_recording a (cm_state v)) [] k"
      using dn accounted_grow unfolding index_ok_def by blast
    ultimately have "cm_inv tasks synthetic real1 cs cr v' D"
      using record1(1) vs_inv_recording [OF vinv] fin
      unfolding cm_inv_def by (simp add: set_thread_def)
    then show ?thesis ..
  next
    case (finish i k result w)
    have rec: "thread_ok tasks synthetic real1 cs cr (cm_state v) (Recording k result [] w)" using at [OF finish(2)] finish(3) by simp
    have "thread_index (cm_threads v ! i) = Some k" using finish(3) by simp
    note ixf = indices_finish [OF ix finish(2) this, of "Polling w"]
    show ?thesis
    proof (cases result)
      case True
      then have "cm_inv tasks synthetic real1 cs cr v' (insert k D)"
        using finish(1) rec ixf vinv fin dn threads_update [OF ths, of "Polling w" i] unfolding cm_inv_def by (simp add: set_thread_def)
      then show ?thesis ..
    next
      case False
      then show ?thesis using finish(1) rec set0 [of "Polling w" i] by auto
    qed
  next
    case cancel
    then have "cm_inv tasks synthetic real1 cs cr v' D" using assms(2) by (simp add: cm_inv_def)
    then show ?thesis ..
  qed (use set0 [of Ended] set0 [of "Threw _"] in auto)
qed

definition compare_reachable ::
    "cpu \<Rightarrow> ReadTask list \<Rightarrow> FilesystemInventory \<Rightarrow> FilesystemInventory \<Rightarrow> (view_io \<Rightarrow> bool) \<Rightarrow> (view_io \<Rightarrow> bool) \<Rightarrow>
     comparing \<Rightarrow> comparing \<Rightarrow> bool" where
  "compare_reachable cpu1 tasks synthetic real1 truth_s truth_r = (compare_step cpu1 tasks synthetic real1 truth_s truth_r)\<^sup>*\<^sup>*"

lemma cm_inv_start: "vs_inv st \<Longrightarrow> cm_inv tasks synthetic real1 cs cr (comparing_start tasks c st) {}"
  by (simp add: cm_inv_def comparing_start_def indices_ok_def)

lemma cm_inv_reachable:
  assumes "compare_reachable cpu1 tasks synthetic real1 (truthful cs) (truthful cr) v v'" "cm_inv tasks synthetic real1 cs cr v D"
  shows "\<exists>D'. cm_inv tasks synthetic real1 cs cr v' D'"
  using assms(1) unfolding compare_reachable_def
proof (induction rule: rtranclp_induct)
  case base
  then show ?case using assms(2) by blast
next
  case (step y z)
  then show ?case using cm_inv_step by blast
qed

theorem comparison_sound:
  assumes "compare_reachable cpu1 tasks synthetic real1 (truthful cs) (truthful cr) (comparing_start tasks c st) v" "vs_inv st"
    and "RunComparisonWorkers_result tasks v = Inr True" "t \<in> set tasks"
  shows "key_accounted synthetic (cm_state v) [] (task_key t) \<or> task_equal synthetic real1 cs cr t"
proof -
  obtain D where inv: "cm_inv tasks synthetic real1 cs cr v D"
    using cm_inv_reachable [OF assms(1) cm_inv_start [OF assms(2)]] by blast
  have n: "cm_completed_tasks v = length tasks"
    using assms(3) by (auto simp: RunComparisonWorkers_result_def split: list.splits)
  have sub: "D \<subseteq> {..<length tasks}" and D: "finite D" "card D = length tasks"
    using inv n unfolding cm_inv_def indices_ok_def by auto
  then have "D = {..<length tasks}" by (metis card_lessThan card_subset_eq finite_lessThan)
  moreover obtain k where "k < length tasks" "t = tasks ! k" using assms(4) by (metis in_set_conv_nth)
  ultimately show ?thesis using inv unfolding cm_inv_def index_ok_def by auto
qed

end
