(* ===== verification/OutputText.thy ===== *)
theory OutputText
  imports Complex_Main Prelude
begin

text \<open>
  What the program writes with \<open>devicefs::WriteToStream\<close>: a message is a format
  string with its arguments, as the source passes them.  Line breaks of the format
  strings are left out; numbers that the source formats from a \<open>double\<close> are
  real numbers.  \<open>WinErr\<close> is a Windows error code that is rendered as text, and
  \<open>What\<close> the text of an exception.
\<close>

datatype out_arg =
    Num int
  | Fixed real
  | Str string
  | Wide wstring
  | Guid guid
  | WinErr nat
  | What error

datatype message = Msg string "out_arg list"

abbreviation N :: "nat \<Rightarrow> out_arg" where "N n \<equiv> Num (int n)"

end
