(* ===== verification/ViewComparison.thy ===== *)
theory ViewComparison
  imports ComparisonProofs OutputText
begin

text \<open>
  The comparison of two mounted views from start to end:
  \<open>CompareFilesystems\<close>, \<open>AttachedVhdx\<close> and \<open>VerifyVolume\<close> of
  \<open>filesystem_verifier_impl.cpp\<close> (lines 693 to 773 and 1998 to 2164).

  The two concurrent traversals are given by what their futures return and what
  they leave in the counters (\<open>traversal_outcome\<close>); the theory \<open>Traversal\<close> shows what
  that can be.  The run of the comparison workers is given by its outcome too, which
  the theorems require to be one that \<open>RunComparisonWorkers\<close> can have.

  Result (\<open>verified_views\<close>): when the comparison of all content is complete and nothing is counted as a mismatch,
  the two views have the same ordinary objects with the same streams and the same bytes.
\<close>

section \<open>Comparing two mounted views\<close>

record traversal_outcome =
  to_synthetic :: "FilesystemInventory option result"
  to_real :: "FilesystemInventory option result"
  to_synthetic_seen :: InventoryObservation
  to_real_seen :: InventoryObservation
  to_estimate :: "nat option"
  to_estimate_failure :: "error option"

text \<open>The traversals and the optional estimate touch only their counters.\<close>

definition after_traversal :: "traversal_outcome \<Rightarrow> VerificationState \<Rightarrow> VerificationState" where
  "after_traversal t s =
     (let s1 = update_inventory Synthetic (\<lambda>_. to_synthetic_seen t) (update_inventory Real (\<lambda>_. to_real_seen t) s)
      in case to_estimate t of None \<Rightarrow> s1 | Some n \<Rightarrow> SetTraversalEstimate n s1)"

text \<open>A run of the workers, as one of the outcomes the interleaving allows.\<close>

definition RunComparisonWorkers ::
    "cpu \<Rightarrow> (view_io \<Rightarrow> bool) \<Rightarrow> (view_io \<Rightarrow> bool) \<Rightarrow> ComparisonPlan \<Rightarrow> FilesystemInventory \<Rightarrow> FilesystemInventory \<Rightarrow>
     VerificationState \<Rightarrow> bool result \<times> VerificationState \<Rightarrow> bool" where
  "RunComparisonWorkers cpu1 truth_s truth_r plan synthetic real1 state outcome \<longleftrightarrow>
     (\<exists>v. compare_reachable cpu1 (cp_tasks plan) synthetic real1 truth_s truth_r
            (comparing_start (cp_tasks plan) False state) v \<and> compare_finished v \<and>
          outcome = (RunComparisonWorkers_result (cp_tasks plan) v, cm_state v))"

type_synonym comparison_run =
  "ComparisonPlan \<Rightarrow> FilesystemInventory \<Rightarrow> FilesystemInventory \<Rightarrow> VerificationState \<Rightarrow> bool result \<times> VerificationState"

definition traversal_message :: "string \<Rightarrow> InventoryObservation \<Rightarrow> InventoryObservation \<Rightarrow> guid \<Rightarrow> message" where
  "traversal_message format s r volume_id = Msg format
     [Guid volume_id, N (io_directories s), N (io_objects s), N (io_streams s), Str (SaturationPrefix (io_stream_bytes s)),
      N (io_stream_bytes s), N (io_failures s), N (io_directories r), N (io_objects r), N (io_streams r),
      Str (SaturationPrefix (io_stream_bytes r)), N (io_stream_bytes r), N (io_failures r)]"

definition surface_failure :: error where
  "surface_failure = RuntimeError ''ordinary filesystem traversal failed to observe the complete namespace beneath at least one directory''"

text \<open>
  The exception that leaves the function, the messages and the state.  The first
  part ends with the two inventories, the second plans and compares.
\<close>

definition compare_inventories ::
    "'g randomness \<Rightarrow> comparison_run \<Rightarrow> nat \<Rightarrow> guid \<Rightarrow> guid \<Rightarrow> real \<Rightarrow> FilesystemInventory \<Rightarrow> FilesystemInventory \<Rightarrow>
     cancellation \<Rightarrow> VerificationState \<Rightarrow> error option \<times> message list \<times> VerificationState" where
  "compare_inventories R run now volume_id seed percentage synthetic real1 cancel state =
     (let state1 = CompleteTraversal state;
          observation = vs_observation state1;
          finished = traversal_message ''Filesystem traversal finished for volume {}. Synthetic: {} directories, {} object(s), {} stream(s), {}{} logical stream byte(s) observed, {} operation failure(s) Real B: {} directories, {} object(s), {} stream(s), {}{} logical stream byte(s) observed, {} operation failure(s)''
            (vo_synthetic observation) (vo_real observation) volume_id;
          incomplete = ComparisonSurfaceIncomplete synthetic \<or> ComparisonSurfaceIncomplete real1;
          state2 = SetPhase Planning state1;
          msgs = [finished, Msg ''Filesystem inventories are ready for volume {}; preparing content comparisons.'' [Guid volume_id]]
      in case BuildComparisonPlan R synthetic real1 seed percentage cancel state2 of
           (None, _, state3) \<Rightarrow> (None, msgs, state3)
         | (Some plan, cancel1, state3) \<Rightarrow>
             let state4 = SetPlan plan state3
             in if fst (event_is_signaled cancel1) then (None, msgs, state4)
                else case run plan synthetic real1 (BeginComparison now state4) of
                    (Inl err, state5) \<Rightarrow> (Some err, msgs, state5)
                  | (Inr False, state5) \<Rightarrow> (None, msgs, state5)
                  | (Inr True, state5) \<Rightarrow>
                      (None, msgs, if incomplete then Fail surface_failure state5 else CompleteComparison state5))"

definition CompareFilesystems ::
    "'g randomness \<Rightarrow> traversal_outcome \<Rightarrow> comparison_run \<Rightarrow> nat \<Rightarrow> nat \<Rightarrow> guid \<Rightarrow> guid \<Rightarrow> wstring \<Rightarrow> wstring \<Rightarrow> real \<Rightarrow>
     cancellation \<Rightarrow> VerificationState \<Rightarrow> error option \<times> message list \<times> VerificationState" where
  "CompareFilesystems R outcome run now1 now2 volume_id seed synthetic_root real_root percentage cancel state =
     (case event_is_signaled cancel of (cancelled, cancel1) \<Rightarrow>
        if cancelled then (None, [], state)
        else
          let state1 = after_traversal outcome (BeginTraversal now1 state);
              msgs = Msg ''Beginning concurrent filesystem traversal for volume {}. Synthetic volume: {} Real-B volume: {} Traversal workers per view: {}''
                  [Guid volume_id, Wide synthetic_root, Wide real_root, N kVerificationWorkerCount] #
                (case to_estimate_failure outcome of
                   None \<Rightarrow> []
                 | Some err \<Rightarrow>
                     [Msg ''Failed to start the optional layout count for volume {}. Verification will continue without a percentage or ETA.''
                        [Guid volume_id],
                      Msg ''Failure: {}'' [What err]])
          in case (to_synthetic outcome, to_real outcome) of
              (Inl err, _) \<Rightarrow> (Some err, msgs, state1)
            | (Inr _, Inl err) \<Rightarrow> (Some err, msgs, state1)
            | (Inr (Some synthetic), Inr (Some real1)) \<Rightarrow>
                if Failed state1 then (None, msgs, state1)
                else (case event_is_signaled cancel1 of (cancelled1, cancel2) \<Rightarrow>
                  if cancelled1 then (None, msgs, state1)
                  else case compare_inventories R run now2 volume_id seed percentage synthetic real1 cancel2 state1 of
                         (err, msgs1, state2) \<Rightarrow> (err, msgs @ msgs1, state2))
            | _ \<Rightarrow> (None, msgs, state1))"

section \<open>Attaching the views\<close>

text \<open>
  An attachment either throws or yields the root of the attached volume; the
  destructor records a failure to detach (here without the system's text for the status).  \<open>virtual_disk_lock\<close> only orders the
  attachments of different volumes.
\<close>

definition AttachedVhdx_Attach :: "wstring result \<Rightarrow> string \<Rightarrow> message list \<times> wstring result" where
  "AttachedVhdx_Attach reply name = ([Msg ''Preparing the {} VHDX attachment:'' [Str name]], reply)"

definition AttachedVhdx_destroy :: "nat \<Rightarrow> string \<Rightarrow> wstring \<Rightarrow> VerificationState \<Rightarrow> message list \<times> VerificationState" where
  "AttachedVhdx_destroy status name root1 state =
     (let state1 = SetPhase Detaching state;
          msgs = [Msg ''Detaching the {} VHDX view.'' [Str name], Msg ''Volume: {}'' [Wide root1]]
      in if status \<noteq> 0
         then (msgs, RecordCleanupFailure (''failed to detach the '' @ name @ '' VHDX view'') state1)
         else (msgs @ [Msg ''The {} VHDX view was detached.'' [Str name], Msg ''Volume: {}'' [Wide root1]], state1))"

text \<open>
  What verifying one volume observes of the system: the attachments, the clock,
  the random engine, the two traversals and the run of the workers.
\<close>

record 'g volume_run =
  vr_synthetic :: "wstring result"
  vr_real :: "wstring result"
  vr_detach_synthetic :: nat
  vr_detach_real :: nat
  vr_randomness :: "'g randomness"
  vr_outcome :: traversal_outcome
  vr_workers :: comparison_run
  vr_traversal_started :: nat
  vr_comparison_started :: nat

record FilesystemVerificationVolume =
  fv_volume_identifier :: guid
  fv_payload_snapshot_identifier :: guid
  fv_filename :: string

definition compare_roots ::
    "'g volume_run \<Rightarrow> guid \<Rightarrow> guid \<Rightarrow> wstring \<Rightarrow> wstring \<Rightarrow> real \<Rightarrow> cancellation \<Rightarrow> VerificationState \<Rightarrow>
     error option \<times> message list \<times> VerificationState" where
  "compare_roots V volume_id seed synthetic_root real_root percentage cancel state =
     CompareFilesystems (vr_randomness V) (vr_outcome V) (vr_workers V) (vr_traversal_started V) (vr_comparison_started V)
       volume_id seed synthetic_root real_root percentage cancel state"

text \<open>
  The destructors run in the reverse order of the constructions
  and the scope guard last, on every path.
\<close>

definition VerifyVolume ::
    "'g volume_run \<Rightarrow> FilesystemVerificationVolume \<Rightarrow> real \<Rightarrow> cancellation \<Rightarrow> VerificationState \<Rightarrow>
     error option \<times> message list \<times> VerificationState" where
  "VerifyVolume V volume percentage cancel state =
     (case event_is_signaled cancel of (cancelled, cancel1) \<Rightarrow>
        if cancelled then (None, [], state)
        else
          let state1 = SetPhase AttachingSynthetic state;
              (msgs1, synthetic) = AttachedVhdx_Attach (vr_synthetic V) ''synthetic''
          in case synthetic of
              Inl err \<Rightarrow> (Some err, msgs1, SetPhase Complete state1)
            | Inr synthetic_root \<Rightarrow>
                (case event_is_signaled cancel1 of (cancelled1, cancel2) \<Rightarrow>
                  let (err, msgs2, state2) =
                    (if cancelled1 then (None, [], state1)
                     else
                       let state2 = SetPhase AttachingReal state1;
                           (msgs2, real1) = AttachedVhdx_Attach (vr_real V) ''real B''
                       in case real1 of
                           Inl err \<Rightarrow> (Some err, msgs2, state2)
                         | Inr real_root \<Rightarrow>
                             let (err, msgs3, state3) = compare_roots V (fv_volume_identifier volume)
                                   (fv_payload_snapshot_identifier volume) synthetic_root real_root percentage cancel2 state2;
                                 (msgs4, state4) = AttachedVhdx_destroy (vr_detach_real V) ''real B'' real_root state3
                             in (err, msgs2 @ msgs3 @ msgs4, state4));
                      (msgs5, state5) = AttachedVhdx_destroy (vr_detach_synthetic V) ''synthetic'' synthetic_root state2
                  in (err, msgs1 @ msgs2 @ msgs5, SetPhase Complete state5)))"

section \<open>Complete comparisons\<close>

lemma after_traversal_keeps [simp]:
  "vs_inv (after_traversal t s) = vs_inv s" "vs_mismatches (after_traversal t s) = vs_mismatches s"
  "vo_comparison_complete (vs_observation (after_traversal t s)) = vo_comparison_complete (vs_observation s)"
  by (simp_all add: after_traversal_def Let_def vs_inv_def observation_ops split: option.splits)

lemma observation_keeps [simp]:
  "vs_mismatches (BeginTraversal n s) = vs_mismatches s" "vs_mismatches (CompleteTraversal s) = vs_mismatches s"
  "vs_mismatches (SetPhase p s) = vs_mismatches s" "vs_mismatches (SetPlan plan s) = vs_mismatches s"
  "vs_mismatches (BeginComparison n s) = vs_mismatches s" "vs_mismatches (CompleteComparison s) = vs_mismatches s"
  "vs_mismatches (Fail e s) = vs_mismatches s"
  by (simp_all add: observation_ops)

lemma complete_keeps [simp]:
  "vo_comparison_complete (vs_observation (BeginTraversal n s)) = vo_comparison_complete (vs_observation s)"
  "vo_comparison_complete (vs_observation (CompleteTraversal s)) = vo_comparison_complete (vs_observation s)"
  "vo_comparison_complete (vs_observation (SetPhase p s)) = vo_comparison_complete (vs_observation s)"
  "vo_comparison_complete (vs_observation (SetPlan plan s)) = vo_comparison_complete (vs_observation s)"
  "vo_comparison_complete (vs_observation (BeginComparison n s)) = vo_comparison_complete (vs_observation s)"
  "vo_comparison_complete (vs_observation (Fail e s)) = vo_comparison_complete (vs_observation s)"
  by (simp_all add: observation_ops)

text \<open>What the recording operations keep, a whole run of the workers keeps as long as failing keeps it.\<close>

context recorder begin

lemma kept_recording: "kept st \<Longrightarrow> kept (perform_recording a st)"
  by (cases a) (simp_all add: kept_operation kept_content kept_compared)

lemma kept_step:
  assumes "compare_step cpu1 tasks synthetic real1 ts tr v v'" "kept (cm_state v)" "\<And>st err. kept st \<Longrightarrow> kept (Fail err st)"
  shows "kept (cm_state v')"
  using assms(1) by (cases rule: compare_step.cases) (simp_all add: assms(2,3) kept_recording set_thread_def)

lemma kept_reachable:
  assumes "compare_reachable cpu1 tasks synthetic real1 ts tr v v'" "kept (cm_state v)" "\<And>st err. kept st \<Longrightarrow> kept (Fail err st)"
  shows "kept (cm_state v')"
  using assms(1) unfolding compare_reachable_def
  by (induction rule: rtranclp_induct) (use assms(2,3) kept_step in blast)+

end

text \<open>Neither planning nor comparing completes the comparison.\<close>

interpretation incomplete_kept: recorder "\<lambda>s. vo_comparison_complete (vs_observation s) = c" for c
  by unfold_locales (auto simp: record_ops split: option.splits)

text \<open>Recorded mismatches stay, up to the content counts.\<close>

definition mismatch_site :: "MismatchDetail \<Rightarrow> MismatchKind \<times> wstring \<times> wstring" where
  "mismatch_site m = (md_kind m, md_path m, md_stream m)"

lemma recorded_mismatches:
  "vs_mismatches (RecordMismatch m s) = vs_mismatches s @ [m]"
  "vs_mismatches (RecordOperationComparison key n a b s) = vs_mismatches s"
  "vs_mismatches (RecordCompared n s) = vs_mismatches s"
  by (simp_all add: record_ops)

interpretation sites_grow: recorder "\<lambda>s. vs_inv s \<and> C \<subseteq> mismatch_site ` set (vs_mismatches s)" for C
proof (unfold_locales, goal_cases)
  case (3 s path stream off b1 b2 n)
  let ?s = "RecordContentMismatch path stream off b1 b2 n s"
  have "mismatch_site ` set (vs_mismatches s) \<subseteq> mismatch_site ` set (vs_mismatches ?s)"
  proof (cases "vs_content_mismatches s (path, stream)")
    case None
    then show ?thesis by (auto simp: RecordContentMismatch_def AppendMismatch_def update_observation_def list_update_append)
  next
    case (Some i)
    have "i < length (vs_mismatches s)" using Some 3 by (simp add: vs_inv_def)
    then have "map mismatch_site (vs_mismatches ?s) = map mismatch_site (vs_mismatches s)"
      using Some by (intro nth_equalityI) (simp_all add: RecordContentMismatch_def mismatch_site_def nth_list_update)
    then show ?thesis by (metis list.set_map order_refl)
  qed
  then show ?case using 3 RecordContentMismatch_inv [of s path stream off b1 b2 n] by (meson subset_trans)
qed (auto simp: RecordMismatch_inv RecordOperationComparison_inv recorded_mismatches)

lemma complete_comparison:
  assumes "CompareFilesystems R outcome run now1 now2 volume_id seed sroot rroot percentage cancel state = (err, msgs, state')"
    and "\<not> vo_comparison_complete (vs_observation state)" "vo_comparison_complete (vs_observation state')"
    and "\<And>plan s r st. RunComparisonWorkers cpu1 ts tr plan s r st (run plan s r st)"
  obtains synthetic real1 plan cancel1 cancel2 state2 state3 v where
    "to_synthetic outcome = Inr (Some synthetic)" "to_real outcome = Inr (Some real1)"
    "BuildComparisonPlan R synthetic real1 seed percentage cancel1 state2 = (Some plan, cancel2, state3)"
    "vs_inv state2 = vs_inv state" "\<not> ComparisonSurfaceIncomplete synthetic" "\<not> ComparisonSurfaceIncomplete real1"
    "compare_reachable cpu1 (cp_tasks plan) synthetic real1 ts tr (comparing_start (cp_tasks plan) False (BeginComparison now2 (SetPlan plan state3))) v"
    "RunComparisonWorkers_result (cp_tasks plan) v = Inr True" "state' = CompleteComparison (cm_state v)"
proof -
  define state1 where "state1 = after_traversal outcome (BeginTraversal now1 state)"
  have nc: "\<not> vo_comparison_complete (vs_observation state1)" using assms(2) by (simp add: state1_def)
  obtain synthetic real1 cancel1 msgs1 where inv: "to_synthetic outcome = Inr (Some synthetic)" "to_real outcome = Inr (Some real1)"
    and ci: "compare_inventories R run now2 volume_id seed percentage synthetic real1 cancel1 state1 = (err, msgs1, state')"
    using assms(1-3) nc unfolding CompareFilesystems_def state1_def [symmetric] Let_def
    by (auto split: prod.splits if_splits sum.splits option.splits)
  define state2 where "state2 = SetPhase Planning (CompleteTraversal state1)"
  obtain p cancel2 state3 where b: "BuildComparisonPlan R synthetic real1 seed percentage cancel1 state2 = (p, cancel2, state3)"
    by (metis prod_cases3)
  have nc3: "\<not> vo_comparison_complete (vs_observation state3)"
    using incomplete_kept.kept_plan [OF b, of False] nc by (simp add: state2_def)
  let ?st = "\<lambda>plan. BeginComparison now2 (SetPlan plan state3)"
  show thesis
  proof (cases p)
    case None
    then show ?thesis using ci b nc3 assms(3) by (simp add: compare_inventories_def Let_def state2_def [symmetric])
  next
    case (Some plan)
    obtain v where v: "compare_reachable cpu1 (cp_tasks plan) synthetic real1 ts tr (comparing_start (cp_tasks plan) False (?st plan)) v"
      "run plan synthetic real1 (?st plan) = (RunComparisonWorkers_result (cp_tasks plan) v, cm_state v)"
      using assms(4) [of plan synthetic real1 "?st plan"] unfolding RunComparisonWorkers_def by auto
    have ncv: "\<not> vo_comparison_complete (vs_observation (cm_state v))"
      using incomplete_kept.kept_reachable [OF v(1), of False] nc3 by (simp add: comparing_start_def)
    have "RunComparisonWorkers_result (cp_tasks plan) v = Inr True \<and> \<not> ComparisonSurfaceIncomplete synthetic \<and>
        \<not> ComparisonSurfaceIncomplete real1 \<and> state' = CompleteComparison (cm_state v)"
      using ci b Some v(2) nc3 ncv assms(3)
      by (auto simp: compare_inventories_def Let_def state2_def [symmetric] split: if_splits sum.splits bool.splits)
    then show ?thesis using that [of synthetic real1 cancel1 state2 plan cancel2 state3 v] inv b Some v(1)
      by (simp add: state2_def state1_def)
  qed
qed

text \<open>The counters are the counts of the records after every comparison.\<close>

lemma CompareFilesystems_counts:
  assumes "CompareFilesystems R outcome run now1 now2 volume_id seed sroot rroot percentage cancel state = (err, msgs, state')"
    and "\<And>plan s r st. RunComparisonWorkers cpu1 ts tr plan s r st (run plan s r st)" "vs_inv state"
  shows "vs_inv state'"
proof -
  have ran: "vs_inv st'" if r: "run plan s r st = (b, st')" and inv: "vs_inv st" for plan s r st b st'
  proof -
    obtain v where v: "compare_reachable cpu1 (cp_tasks plan) s r ts tr (comparing_start (cp_tasks plan) False st) v" "cm_state v = st'"
      using assms(2) [of plan s r st] unfolding RunComparisonWorkers_def r by auto
    show ?thesis using counts.kept_reachable [OF v(1)] inv v(2) by (simp add: comparing_start_def)
  qed
  have compared: "vs_inv st'" if c: "compare_inventories R run now2 volume_id seed percentage s r cancel1 st = (e, m, st')" "vs_inv st"
    for s r cancel1 st e m st'
  proof -
    obtain p c2 st3 where b: "BuildComparisonPlan R s r seed percentage cancel1 (SetPhase Planning (CompleteTraversal st)) = (p, c2, st3)"
      by (metis prod_cases3)
    have st3: "vs_inv st3" using counts.kept_plan [OF b] that(2) by simp
    show ?thesis
      using c(1) b st3 ran [of _ s r "BeginComparison now2 (SetPlan (the p) st3)"]
      by (auto simp: compare_inventories_def Let_def split: option.splits prod.splits if_splits sum.splits bool.splits)
  qed
  show ?thesis
    using assms(1,3) compared [of _ _ _ "after_traversal outcome (BeginTraversal now1 state)"]
    by (auto simp: CompareFilesystems_def Let_def split: prod.splits if_splits sum.splits option.splits)
qed

section \<open>What a verified comparison means\<close>

lemma excluded_prefix:
  assumes "IsVssExcludedPath d" "take (length d) path = d" "length d < length path" "path ! length d = 92"
  shows "IsVssExcludedPath path"
proof -
  have path: "path = d @ 92 # drop (Suc (length d)) path"
    using assms(2-4) by (metis append_take_drop_id Cons_nth_drop_Suc)
  have len: "length (wide ''System Volume Information'') = 25" by (simp add: wide_def)
  from assms(1) consider "d = wide ''System Volume Information''" | "take 26 d = wide ''System Volume Information'' @ [92]"
    unfolding IsVssExcludedPath_def by blast
  then show ?thesis
  proof cases
    case 1
    then have "take 26 path = wide ''System Volume Information'' @ [92]" using len by (subst path) simp
    then show ?thesis unfolding IsVssExcludedPath_def by blast
  next
    case 2
    then have "length (take 26 d) = 26" using len by simp
    then have "26 \<le> length d" by simp
    then have "take 26 path = take 26 d" by (subst path) simp
    then show ?thesis using 2 unfolding IsVssExcludedPath_def by simp
  qed
qed

lemma surface_complete:
  assumes "\<not> ComparisonSurfaceIncomplete f" "IsBelowIncompleteDirectory f path"
  shows "IsVssExcludedPath path"
proof -
  obtain d where d: "d \<in> set (fi_incomplete_directories f)" "if d = [] then path \<noteq> [] else
      length d < length path \<and> take (length d) path = d \<and> path ! length d = 92"
    using assms(2) by (auto simp: IsBelowIncompleteDirectory_def list_ex_iff)
  have ex: "IsVssExcludedPath d" using assms(1) d(1) by (auto simp: ComparisonSurfaceIncomplete_def list_ex_iff)
  moreover have "d \<noteq> []" using ex by (auto simp: IsVssExcludedPath_def wide_def)
  ultimately show ?thesis using d(2) excluded_prefix by (metis (full_types))
qed

text \<open>
  Names of one file show one file: the same streams with the same content, and
  either all or none of them below the excluded directory.
\<close>

definition links_share :: "FilesystemInventory \<Rightarrow> (wstring \<Rightarrow> int \<Rightarrow> byte) \<Rightarrow> bool" where
  "links_share f content \<longleftrightarrow> (\<forall>s \<in> set (fi_objects f). \<forall>s' \<in> set (fi_objects f). same_link s s' \<longrightarrow>
     (IsVssExcludedPath (ob_path s') \<longleftrightarrow> IsVssExcludedPath (ob_path s)) \<and>
     (ob_streams_complete s \<longrightarrow> ob_streams_complete s' \<longrightarrow> ob_streams s' = ob_streams s) \<and>
     (\<forall>x. content (StreamPath f s' x) = content (StreamPath f s x)))"

definition views_agree ::
    "FilesystemInventory \<Rightarrow> FilesystemInventory \<Rightarrow> (wstring \<Rightarrow> int \<Rightarrow> byte) \<Rightarrow> (wstring \<Rightarrow> int \<Rightarrow> byte) \<Rightarrow> bool" where
  "views_agree synthetic real1 cs cr \<longleftrightarrow>
     (\<forall>s \<in> set (fi_objects synthetic). \<not> IsVssExcludedPath (ob_path s) \<longrightarrow>
        (\<exists>r \<in> set (fi_objects real1). ob_path r = ob_path s \<and> ob_kind r = ob_kind s)) \<and>
     (\<forall>r \<in> set (fi_objects real1). \<not> IsVssExcludedPath (ob_path r) \<longrightarrow>
        (\<exists>s \<in> set (fi_objects synthetic). ob_path s = ob_path r \<and> ob_kind s = ob_kind r)) \<and>
     (\<forall>s r. comparable_pair synthetic real1 s r \<and> \<not> IsVssExcludedPath (ob_path s) \<longrightarrow>
        set (ob_streams s) = set (ob_streams r) \<and>
        (\<forall>x \<in> set (ob_streams s). \<forall>k. 0 \<le> k \<and> k < sr_length x \<longrightarrow>
           cs (StreamPath synthetic s x) k = cr (StreamPath real1 r x) k))"

text \<open>Inventories whose only differences are excluded have the same objects and streams.\<close>

lemma namespaces_agree:
  assumes "\<And>m. m \<in> inventory_differences synthetic real1 \<Longrightarrow> IsVssExcludedPath (md_path m)"
    and "\<not> ComparisonSurfaceIncomplete synthetic" "\<not> ComparisonSurfaceIncomplete real1"
  shows "s \<in> set (fi_objects synthetic) \<Longrightarrow> \<not> IsVssExcludedPath (ob_path s) \<Longrightarrow>
      \<exists>r \<in> set (fi_objects real1). ob_path r = ob_path s \<and> ob_kind r = ob_kind s"
    and "r \<in> set (fi_objects real1) \<Longrightarrow> \<not> IsVssExcludedPath (ob_path r) \<Longrightarrow>
      \<exists>s \<in> set (fi_objects synthetic). ob_path s = ob_path r \<and> ob_kind s = ob_kind r"
    and "comparable_pair synthetic real1 a b \<Longrightarrow> \<not> IsVssExcludedPath (ob_path a) \<Longrightarrow> set (ob_streams a) = set (ob_streams b)"
proof -
  note d = assms(1) [unfolded inventory_differences_def]
  have kinds: "ob_kind s = ob_kind r" if "s \<in> set (fi_objects synthetic)" "r \<in> set (fi_objects real1)" "ob_path s = ob_path r"
    "\<not> IsVssExcludedPath (ob_path s)" for s r
  proof (rule ccontr)
    assume "ob_kind s \<noteq> ob_kind r"
    with that have "IsVssExcludedPath (md_path ((mismatch ObjectType (ob_path s) [])\<lparr>md_synthetic_kind := ob_kind s, md_real_kind := ob_kind r\<rparr>))"
      by (intro d) blast
    with that(4) show False by (simp add: mismatch_def)
  qed
  show "\<exists>r \<in> set (fi_objects real1). ob_path r = ob_path s \<and> ob_kind r = ob_kind s"
    if s: "s \<in> set (fi_objects synthetic)" "\<not> IsVssExcludedPath (ob_path s)" for s
  proof (cases "ob_path s \<in> ob_path ` set (fi_objects real1)")
    case False
    have "\<not> IsBelowIncompleteDirectory real1 (ob_path s)" using surface_complete [OF assms(3)] s(2) by blast
    with False s(1) have "IsVssExcludedPath (md_path (mismatch ObjectMissingFromReal (ob_path s) []))" by (intro d) blast
    with s(2) show ?thesis by (simp add: mismatch_def)
  next
    case True
    then obtain r where "r \<in> set (fi_objects real1)" "ob_path s = ob_path r" by blast
    with s kinds [of s r] show ?thesis by metis
  qed
  show "\<exists>s \<in> set (fi_objects synthetic). ob_path s = ob_path r \<and> ob_kind s = ob_kind r"
    if r: "r \<in> set (fi_objects real1)" "\<not> IsVssExcludedPath (ob_path r)" for r
  proof (cases "ob_path r \<in> ob_path ` set (fi_objects synthetic)")
    case False
    have "\<not> IsBelowIncompleteDirectory synthetic (ob_path r)" using surface_complete [OF assms(2)] r(2) by blast
    with False r(1) have "IsVssExcludedPath (md_path (mismatch ObjectMissingFromSynthetic (ob_path r) []))" by (intro d) blast
    with r(2) show ?thesis by (simp add: mismatch_def)
  next
    case True
    then obtain s where "s \<in> set (fi_objects synthetic)" "ob_path s = ob_path r" by force
    with r kinds [of s r] show ?thesis by metis
  qed
  show "set (ob_streams a) = set (ob_streams b)" if ab: "comparable_pair synthetic real1 a b" "\<not> IsVssExcludedPath (ob_path a)"
  proof -
    have path: "ob_path a = ob_path b" using ab(1) by (simp add: comparable_pair_def)
    have none: "stream_differences a b = {}"
    proof -
      have "m \<notin> stream_differences a b" for m
      proof
        assume m: "m \<in> stream_differences a b"
        then have "IsVssExcludedPath (md_path m)" using d ab(1) by blast
        moreover have "md_path m = ob_path a" using m path by (auto simp: stream_differences_def mismatch_def)
        ultimately show False using ab(2) by simp
      qed
      then show ?thesis by blast
    qed
    show ?thesis
      using none unfolding stream_differences_def by (auto simp: image_iff) (metis StreamRecord.equality old.unit.exhaust)+
  qed
qed

lemma links_shareD:
  assumes "links_share f content" "s \<in> set (fi_objects f)" "s' \<in> set (fi_objects f)" "same_link s s'"
  shows "IsVssExcludedPath (ob_path s') \<longleftrightarrow> IsVssExcludedPath (ob_path s)"
    and "ob_streams_complete s \<Longrightarrow> ob_streams_complete s' \<Longrightarrow> ob_streams s' = ob_streams s"
    and "content (StreamPath f s' x) = content (StreamPath f s x)"
  using assms unfolding links_share_def by simp_all

text \<open>With nothing counted, nothing is accounted for but exclusions.\<close>

lemma nothing_counted:
  assumes "vs_inv st" "vo_mismatch_count (vs_observation st) = 0"
  shows "m \<in> set (vs_mismatches st) \<Longrightarrow> IsVssExcludedPath (md_path m)"
    and "vo_matched_error_count (vs_observation st) = 0 \<Longrightarrow> accounted st [] path name \<Longrightarrow> IsVssExcludedPath path"
proof -
  have inv: "count_if (\<lambda>m. \<not> IsVssExcludedPath (md_path m)) (vs_mismatches st) = 0"
    using assms unfolding vs_inv_def by linarith
  then show ex: "m \<in> set (vs_mismatches st) \<Longrightarrow> IsVssExcludedPath (md_path m)" for m by (auto simp: count_if_eq_0)
  assume "vo_matched_error_count (vs_observation st) = 0" and acc: "accounted st [] path name"
  then have "count_if IsMatchedError (vs_operation_comparison_records st) = 0" using assms(1) unfolding vs_inv_def by linarith
  then have "\<forall>c \<in> set (vs_operation_comparison_records st). \<not> IsMatchedError c" by (simp add: count_if_eq_0)
  then consider "IsVssExcludedPath path" | i where "vs_content_mismatches st (path, name) = Some i"
    using acc unfolding accounted_def by auto
  then show "IsVssExcludedPath path"
  proof cases
    case 2
    then have "i < length (vs_mismatches st)" "md_path (vs_mismatches st ! i) = path"
      using assms(1) unfolding vs_inv_def by (metis fst_conv)+
    then show ?thesis using ex [of "vs_mismatches st ! i"] by simp
  qed
qed

lemma bytes_agree:
  assumes "inventory_ok synthetic" "inventory_ok real1" "links_share synthetic cs" "links_share real1 cr"
    and "\<And>t. t \<in> set (tasks_of (plan_events synthetic real1)) \<Longrightarrow>
      IsVssExcludedPath (ob_path (key_object synthetic (task_key t))) \<or> task_equal synthetic real1 cs cr t"
    and "\<And>a b. comparable_pair synthetic real1 a b \<Longrightarrow> \<not> IsVssExcludedPath (ob_path a) \<Longrightarrow> set (ob_streams a) = set (ob_streams b)"
    and "comparable_pair synthetic real1 s r" "\<not> IsVssExcludedPath (ob_path s)"
    and "x \<in> set (ob_streams s)" "0 \<le> k" "k < sr_length x"
  shows "cs (StreamPath synthetic s x) k = cr (StreamPath real1 r x) k"
proof -
  obtain s' r' where l: "comparable_pair synthetic real1 s' r'" "same_link s s'" "same_link r r'"
    and cov: "\<And>a b k. a < length (ob_streams s') \<Longrightarrow> b < length (ob_streams r') \<Longrightarrow>
       sr_name (ob_streams s' ! a) = sr_name (ob_streams r' ! b) \<Longrightarrow>
       sr_length (ob_streams s' ! a) = sr_length (ob_streams r' ! b) \<Longrightarrow> 0 \<le> k \<Longrightarrow> k < sr_length (ob_streams s' ! a) \<Longrightarrow>
       \<exists>t \<in> set (tasks_of (plan_events synthetic real1)).
         task_streams synthetic real1 t s' r' (ob_streams s' ! a) (ob_streams r' ! b) \<and> task_covers t k"
    using plan_tasks_cover [OF assms(1,2,7)] by blast
  have mem: "s \<in> set (fi_objects synthetic)" "s' \<in> set (fi_objects synthetic)" "r \<in> set (fi_objects real1)" "r' \<in> set (fi_objects real1)"
    and complete: "ob_streams_complete s" "ob_streams_complete s'"
    using l(1) assms(7) by (simp_all add: comparable_pair_def comparable_def)
  have nx: "\<not> IsVssExcludedPath (ob_path s')" and st: "ob_streams s' = ob_streams s"
    and eq: "cs (StreamPath synthetic s' x) = cs (StreamPath synthetic s x)" "cr (StreamPath real1 r' x) = cr (StreamPath real1 r x)"
    using links_shareD [OF assms(3) mem(1,2) l(2)] links_shareD [OF assms(4) mem(3,4) l(3)] assms(8) complete by simp_all
  have "x \<in> set (ob_streams s')" "x \<in> set (ob_streams r')" using assms(6) [OF l(1) nx] assms(9) st by simp_all
  then obtain a b where ab: "a < length (ob_streams s')" "ob_streams s' ! a = x" "b < length (ob_streams r')" "ob_streams r' ! b = x"
    by (metis in_set_conv_nth)
  obtain t where t: "t \<in> set (tasks_of (plan_events synthetic real1))" "task_streams synthetic real1 t s' r' x x" "task_covers t k"
    using cov [OF ab(1,3), of k] assms(10,11) unfolding ab(2,4) by blast
  have "key_synthetic synthetic (task_key t) = StreamPath synthetic s' x" "key_real real1 (task_key t) = StreamPath real1 r' x"
    "ob_path (key_object synthetic (task_key t)) = ob_path s'"
    using t(2) by (simp_all add: task_streams_def key_synthetic_def key_real_def task_key_def)
  with assms(5) [OF t(1)] nx t(3) have "cs (StreamPath synthetic s' x) k = cr (StreamPath real1 r' x) k"
    unfolding task_equal_def by auto
  with eq show ?thesis by simp
qed

theorem verified_views:
  assumes "CompareFilesystems R outcome run now1 now2 volume_id seed sroot rroot percentage cancel state = (err, msgs, state')"
    and "to_synthetic outcome = Inr (Some synthetic)" "to_real outcome = Inr (Some real1)"
    and "inventory_ok synthetic" "inventory_ok real1" "links_share synthetic cs" "links_share real1 cr"
    and "\<And>plan s r st. RunComparisonWorkers cpu1 (truthful cs) (truthful cr) plan s r st (run plan s r st)"
    and "vs_inv state" "\<not> vo_comparison_complete (vs_observation state)" "100 \<le> percentage"
    and "vo_comparison_complete (vs_observation state')" "vo_mismatch_count (vs_observation state') = 0"
    and "vo_matched_error_count (vs_observation state') = 0"
  shows "views_agree synthetic real1 cs cr"
proof -
  obtain plan cancel1 cancel2 state2 state3 v where
    b: "BuildComparisonPlan R synthetic real1 seed percentage cancel1 state2 = (Some plan, cancel2, state3)"
    and inv2: "vs_inv state2 = vs_inv state" and surface: "\<not> ComparisonSurfaceIncomplete synthetic" "\<not> ComparisonSurfaceIncomplete real1"
    and v: "compare_reachable cpu1 (cp_tasks plan) synthetic real1 (truthful cs) (truthful cr)
        (comparing_start (cp_tasks plan) False (BeginComparison now2 (SetPlan plan state3))) v"
      "RunComparisonWorkers_result (cp_tasks plan) v = Inr True" "state' = CompleteComparison (cm_state v)"
  proof (rule complete_comparison [OF assms(1,10,12,8)], goal_cases)
    case (1 synthetic' real' plan cancel1 cancel2 state2 state3 v)
    have "synthetic' = synthetic" "real' = real1" using 1(2,3) assms(2,3) by simp_all
    with 1 show ?case by blast
  qed
  have inv3: "vs_inv (BeginComparison now2 (SetPlan plan state3))"
    using counts.kept_plan [OF b] inv2 assms(9) by simp
  note plan = BuildComparisonPlan_plan [OF b assms(4,5)]
  obtain ms where ms: "vs_mismatches state3 = vs_mismatches state2 @ ms" "set ms = inventory_differences synthetic real1"
    using plan(1) by blast
  have fin: "vs_inv (cm_state v) \<and> mismatch_site ` set (vs_mismatches state3) \<subseteq> mismatch_site ` set (vs_mismatches (cm_state v))"
    using sites_grow.kept_reachable [OF v(1), of "mismatch_site ` set (vs_mismatches state3)"] inv3 by (simp add: comparing_start_def)
  have cnt: "vo_mismatch_count (vs_observation (cm_state v)) = 0" "vo_matched_error_count (vs_observation (cm_state v)) = 0"
    using assms(13,14) v(3) by (simp_all add: observation_ops)
  note zero = nothing_counted [OF conjunct1 [OF fin] cnt(1)]
  have diff: "IsVssExcludedPath (md_path m)" if "m \<in> inventory_differences synthetic real1" for m
  proof -
    have "mismatch_site m \<in> mismatch_site ` set (vs_mismatches (cm_state v))" using fin ms that by auto
    then obtain m' where "m' \<in> set (vs_mismatches (cm_state v))" "md_path m' = md_path m"
      by (metis (no_types, lifting) Pair_inject image_iff mismatch_site_def)
    then show ?thesis using zero(1) by metis
  qed
  note names = namespaces_agree [OF diff surface]
  have "IsVssExcludedPath (ob_path (key_object synthetic (task_key t))) \<or> task_equal synthetic real1 cs cr t"
    if "t \<in> set (tasks_of (plan_events synthetic real1))" for t
    using comparison_sound [OF v(1) inv3 v(2)] plan(3) [OF assms(11)] zero(2) [OF cnt(2)] that by metis
  note bytes = bytes_agree [OF assms(4-7) this names(3)]
  show ?thesis unfolding views_agree_def
  proof (intro conjI ballI impI allI)
    fix s r
    assume "comparable_pair synthetic real1 s r \<and> \<not> IsVssExcludedPath (ob_path s)"
    then show "set (ob_streams s) = set (ob_streams r)" using names(3) by simp
    fix x k
    assume "x \<in> set (ob_streams s)" "0 \<le> k \<and> k < sr_length x"
    with \<open>comparable_pair synthetic real1 s r \<and> \<not> IsVssExcludedPath (ob_path s)\<close>
    show "cs (StreamPath synthetic s x) k = cr (StreamPath real1 r x) k" using bytes [of s r x k] by simp
  qed (use names(1,2) in simp_all)
qed

end
