(* ===== verification/CommandLine.thy ===== *)
theory CommandLine
  imports Prelude
begin

text \<open>
  The command line of the devicefs process (\<open>ParseArgs\<close> and the options of
  \<open>filesystem.ixx\<close>, the classification of devices of \<open>rpc_client.cpp\<close>) and the
  decimal numbers it contains.  \<open>cli\<close> holds what is not this program's code: the
  conversion to wide characters, the comparison of filenames in the code page's
  locale, and the length of the prefix that WinFsp accepts.
\<close>

section \<open>Decimal numbers\<close>

definition digit :: "nat \<Rightarrow> char" where "digit n = char_of (48 + n)"

fun decimal :: "nat \<Rightarrow> string" where
  "decimal n = (if n < 10 then [digit n] else decimal (n div 10) @ [digit (n mod 10)])"

declare decimal.simps [simp del]

definition is_digit :: "char \<Rightarrow> bool" where
  "is_digit c \<longleftrightarrow> 48 \<le> (of_char c :: nat) \<and> (of_char c :: nat) < 58"

definition digits_value :: "string \<Rightarrow> nat" where
  "digits_value s = foldl (\<lambda>n c. 10 * n + (of_char c - 48)) 0 s"

text \<open>\<open>std::from_chars\<close> for an unsigned 64-bit number, with the part of the text that it leaves.\<close>

definition from_chars :: "string \<Rightarrow> (nat \<times> string) option" where
  "from_chars s =
     (let ds = takeWhile is_digit s
      in if ds = [] \<or> digits_value ds \<ge> 2 ^ 64 then None else Some (digits_value ds, dropWhile is_digit s))"

lemma of_char_digit: "n < 10 \<Longrightarrow> (of_char (digit n) :: nat) = 48 + n"
  by (simp add: digit_def)

lemma digit_ok: "n < 10 \<Longrightarrow> is_digit (digit n)"
  by (simp add: is_digit_def of_char_digit)

lemma decimal_digits: "list_all is_digit (decimal n) \<and> decimal n \<noteq> [] \<and> digits_value (decimal n) = n"
proof (induction n rule: decimal.induct)
  case (1 n)
  show ?case
  proof (cases "n < 10")
    case True
    then show ?thesis by (simp add: decimal.simps [of n] digit_ok of_char_digit digits_value_def)
  next
    case False
    then show ?thesis using 1
      by (simp add: decimal.simps [of n] digit_ok of_char_digit digits_value_def)
  qed
qed

text \<open>A number that is printed is read back.\<close>

lemma from_chars_decimal: "n < 2 ^ 64 \<Longrightarrow> from_chars (decimal n) = Some (n, [])"
proof -
  assume "n < 2 ^ 64"
  moreover have t: "takeWhile is_digit (decimal n) = decimal n" "dropWhile is_digit (decimal n) = []"
    using decimal_digits [of n] by (simp_all add: list_all_iff)
  ultimately show ?thesis using decimal_digits [of n] unfolding from_chars_def Let_def t by simp
qed

section \<open>Kinds of devices\<close>

definition kDeviceSourcePrefix :: string where "kDeviceSourcePrefix = [CHR 0x5C, CHR 0x5C, CHR 0x5C] @ ''rpc:''"
definition kTcpSourcePrefix :: string where "kTcpSourcePrefix = ''tcp:''"
definition kHandleDevicePrefix :: string where "kHandleDevicePrefix = [CHR 0x5C, CHR 0x5C, CHR 0x5C] @ ''handle:''"
definition kFileHandleDevicePrefix :: string where
  "kFileHandleDevicePrefix = [CHR 0x5C, CHR 0x5C, CHR 0x5C] @ ''file-handle:''"

definition starts_with :: "'a list \<Rightarrow> 'a list \<Rightarrow> bool" where
  "starts_with s p \<longleftrightarrow> take (length p) s = p"

lemma starts_with_append [simp]: "starts_with (p @ s) p"
  by (simp add: starts_with_def)

record Mapping =
  mp_name :: wstring
  mp_device :: string

definition IsRpcDevice :: "Mapping \<Rightarrow> bool" where
  "IsRpcDevice mapping = starts_with (mp_device mapping) kDeviceSourcePrefix"

definition IsTcpDevice :: "Mapping \<Rightarrow> bool" where
  "IsTcpDevice mapping \<longleftrightarrow> IsRpcDevice mapping \<and>
     starts_with (drop (length kDeviceSourcePrefix) (mp_device mapping)) kTcpSourcePrefix"

definition IsFileHandleDevice :: "Mapping \<Rightarrow> bool" where
  "IsFileHandleDevice mapping = starts_with (mp_device mapping) kFileHandleDevicePrefix"

definition IsWindowsDevice :: "Mapping \<Rightarrow> bool" where
  "IsWindowsDevice mapping \<longleftrightarrow> \<not> IsRpcDevice mapping \<and> \<not> IsFileHandleDevice mapping"

text \<open>The number of an inherited handle.\<close>

definition ParseInheritedHandle :: "string \<Rightarrow> nat result" where
  "ParseInheritedHandle value =
     (case from_chars value of
        Some (handle, []) \<Rightarrow> Inr handle
      | _ \<Rightarrow> Inl (InvalidArgument ''invalid inherited handle; expected an unsigned decimal integer''))"

lemmas device_prefixes = kDeviceSourcePrefix_def kHandleDevicePrefix_def kFileHandleDevicePrefix_def

lemma handle_kinds:
  "IsWindowsDevice \<lparr>mp_name = n, mp_device = kHandleDevicePrefix @ s\<rparr>"
  "IsFileHandleDevice \<lparr>mp_name = n, mp_device = kFileHandleDevicePrefix @ s\<rparr>"
  "\<not> IsRpcDevice \<lparr>mp_name = n, mp_device = kFileHandleDevicePrefix @ s\<rparr>"
  "IsRpcDevice \<lparr>mp_name = n, mp_device = kDeviceSourcePrefix @ s\<rparr>"
  "\<not> IsFileHandleDevice \<lparr>mp_name = n, mp_device = kDeviceSourcePrefix @ s\<rparr>"
  by (simp_all add: IsWindowsDevice_def IsRpcDevice_def IsFileHandleDevice_def starts_with_def device_prefixes)

section \<open>Options\<close>

record Options =
  op_network :: bool
  op_mount :: wstring
  op_read_user :: string
  op_stop_event :: string
  op_mappings :: "Mapping list"
  op_cache :: bool
  op_extended_dasd :: bool
  op_synthetic_free_clusters :: bool
  op_known_data_map_cluster_size :: "nat option"
  op_vhdx :: bool
  op_help :: bool

record cli =
  cl_transcode :: "string \<Rightarrow> wstring"
  cl_less :: "wstring \<Rightarrow> wstring \<Rightarrow> bool"
  cl_max_prefix :: nat

definition kDefaultStopEvent :: string where "kDefaultStopEvent = ''Local'' @ [CHR 0x5C] @ ''devicefs-stop''"

definition Options_default :: Options where
  "Options_default = \<lparr>op_network = False, op_mount = [], op_read_user = [], op_stop_event = kDefaultStopEvent,
     op_mappings = [], op_cache = False, op_extended_dasd = True, op_synthetic_free_clusters = False,
     op_known_data_map_cluster_size = None, op_vhdx = False, op_help = False\<rparr>"

definition missing_value :: "string \<Rightarrow> error" where
  "missing_value arg = InvalidArgument (arg @ '' requires a value'')"

text \<open>The loop over the arguments from index \<open>i\<close>.\<close>

fun parse_loop :: "cli \<Rightarrow> nat \<Rightarrow> string list \<Rightarrow> Options \<Rightarrow> Options result" where
  "parse_loop C i [] r = Inr r"
| "parse_loop C i (arg # rest) r =
     (if arg = ''-h'' \<or> arg = ''--help'' then parse_loop C (i + 1) rest (r\<lparr>op_help := True\<rparr>)
      else if arg = ''--mount'' then
        (case rest of [] \<Rightarrow> Inl (missing_value arg)
         | v # rest1 \<Rightarrow> parse_loop C (i + 2) rest1 (r\<lparr>op_mount := cl_transcode C v\<rparr>))
      else if arg = ''--read-user'' then
        (case rest of [] \<Rightarrow> Inl (missing_value arg)
         | v # rest1 \<Rightarrow> parse_loop C (i + 2) rest1 (r\<lparr>op_read_user := v\<rparr>))
      else if arg = ''--stop-event'' then
        (case rest of [] \<Rightarrow> Inl (missing_value arg)
         | v # rest1 \<Rightarrow> parse_loop C (i + 2) rest1 (r\<lparr>op_stop_event := v\<rparr>))
      else if arg = ''--map'' then
        (case rest of [] \<Rightarrow> Inl (missing_value arg)
         | name # rest1 \<Rightarrow>
             (case rest1 of [] \<Rightarrow> Inl (missing_value name)
              | device # rest2 \<Rightarrow>
                  parse_loop C (i + 3) rest2
                    (r\<lparr>op_mappings := op_mappings r @ [\<lparr>mp_name = cl_transcode C name, mp_device = device\<rparr>]\<rparr>)))
      else if arg = ''--cache'' then parse_loop C (i + 1) rest (r\<lparr>op_cache := True\<rparr>)
      else if arg = ''--no-extended-dasd-io'' then parse_loop C (i + 1) rest (r\<lparr>op_extended_dasd := False\<rparr>)
      else if arg = ''--synthetic-free-clusters'' then
        parse_loop C (i + 1) rest (r\<lparr>op_synthetic_free_clusters := True\<rparr>)
      else if arg = ''--expose-known-data-map'' then
        (case rest of [] \<Rightarrow> Inl (missing_value arg)
         | v # rest1 \<Rightarrow>
             (case from_chars v of
                Some (size1, []) \<Rightarrow>
                  if size1 = 0 then Inl (InvalidArgument ''--expose-known-data-map requires a positive byte count'')
                  else parse_loop C (i + 2) rest1 (r\<lparr>op_known_data_map_cluster_size := Some size1\<rparr>)
              | _ \<Rightarrow> Inl (InvalidArgument ''--expose-known-data-map requires a positive byte count'')))
      else if arg = ''--vhdx'' then parse_loop C (i + 1) rest (r\<lparr>op_vhdx := True\<rparr>)
      else Inl (InvalidArgument (''unknown option '' @ arg @ '' at argument '' @ decimal i)))"

declare parse_loop.simps(2) [simp del]

text \<open>The names already registered; two names are the same when neither is less.\<close>

definition kMaxNameLength :: nat where "kMaxNameLength = 255"

definition valid_name :: "wstring \<Rightarrow> bool" where
  "valid_name name \<longleftrightarrow> name \<noteq> [] \<and> name \<noteq> [46] \<and> name \<noteq> [46, 46] \<and> length name \<le> kMaxNameLength \<and>
     (\<forall>c \<in> set name. c \<noteq> 47 \<and> c \<noteq> 92 \<and> c \<noteq> 58)"

definition same_name :: "cli \<Rightarrow> wstring \<Rightarrow> wstring \<Rightarrow> bool" where
  "same_name C a b \<longleftrightarrow> \<not> cl_less C a b \<and> \<not> cl_less C b a"

definition register_name :: "cli \<Rightarrow> wstring \<Rightarrow> wstring list \<Rightarrow> wstring list result" where
  "register_name C name names =
     (if \<not> valid_name name then Inl (InvalidArgument ''invalid filename in --map'')
      else if list_ex (same_name C name) names then Inl (InvalidArgument ''duplicate filename in --map'')
      else Inr (name # names))"

definition kKnownDataMapSuffix :: wstring where "kKnownDataMapSuffix = wide ''.known-data.bitmap''"

definition mapping_names :: "Options \<Rightarrow> Mapping \<Rightarrow> wstring list" where
  "mapping_names r mapping =
     (if op_known_data_map_cluster_size r \<noteq> None \<and> IsWindowsDevice mapping
      then [mp_name mapping, mp_name mapping @ kKnownDataMapSuffix] else [mp_name mapping])"

fun register_names :: "cli \<Rightarrow> wstring list \<Rightarrow> wstring list \<Rightarrow> wstring list result" where
  "register_names C [] names = Inr names"
| "register_names C (n # ns) names = ebind (register_name C n names) (register_names C ns)"

text \<open>Drive letters become device paths; a network prefix loses its first backslash.\<close>

definition normalise_mount :: "cli \<Rightarrow> Options \<Rightarrow> Options result" where
  "normalise_mount C r =
     (let v0 = op_mount r;
          v1 = (if length v0 = 2 \<and> v0 ! 1 = 58 then [92, 92, 46, 92] @ v0 else v0);
          device_path = (starts_with v1 [92, 92, 63, 92] \<or> starts_with v1 [92, 92, 46, 92]);
          network = (\<not> device_path \<and> starts_with v1 [92]);
          v2 = (if network \<and> starts_with v1 [92, 92] then tl v1 else v1)
      in if network \<and> length v2 > cl_max_prefix C
         then Inl (InvalidArgument ''UNC mount prefix is too long'')
         else Inr (r\<lparr>op_mount := v2, op_network := network\<rparr>))"

definition ParseArgs :: "cli \<Rightarrow> string list \<Rightarrow> Options result" where
  "ParseArgs C args =
     ebind (parse_loop C 1 (tl args) Options_default) (\<lambda>r.
       if op_stop_event r = [] then Inl (InvalidArgument ''--stop-event must not be empty'')
       else if \<not> op_help r \<and> (op_mount r = [] \<or> op_mappings r = [])
       then Inl (InvalidArgument ''--mount and at least one --map are required'')
       else if op_known_data_map_cluster_size r \<noteq> None \<and> \<not> op_synthetic_free_clusters r
       then Inl (InvalidArgument ''--expose-known-data-map requires --synthetic-free-clusters'')
       else if op_known_data_map_cluster_size r \<noteq> None \<and> op_vhdx r
       then Inl (InvalidArgument ''--expose-known-data-map cannot be combined with --vhdx'')
       else ebind (register_names C (concat (map (mapping_names r) (op_mappings r))) []) (\<lambda>_. normalise_mount C r))"

text \<open>Accepted options name distinct valid files.\<close>

lemma register_names_Inr:
  assumes "register_names C ns names = Inr names'"
  shows "list_all valid_name ns" "\<And>i j. i < j \<Longrightarrow> j < length ns \<Longrightarrow> \<not> same_name C (ns ! j) (ns ! i)"
proof -
  have "list_all valid_name ns \<and> (\<forall>n \<in> set ns. \<forall>m \<in> set names. \<not> same_name C n m) \<and>
      (\<forall>i j. i < j \<longrightarrow> j < length ns \<longrightarrow> \<not> same_name C (ns ! j) (ns ! i))"
    using assms
  proof (induction ns arbitrary: names)
    case (Cons n ns)
    from Cons(2) have n: "valid_name n" "\<forall>m \<in> set names. \<not> same_name C n m" and ns: "register_names C ns (n # names) = Inr names'"
      by (auto simp: register_name_def list_ex_iff ebind_def split: if_splits)
    have IH: "list_all valid_name ns" "\<forall>k \<in> set ns. \<forall>m \<in> set (n # names). \<not> same_name C k m"
      "\<And>i j. i < j \<Longrightarrow> j < length ns \<Longrightarrow> \<not> same_name C (ns ! j) (ns ! i)"
      using Cons(1) [OF ns] by blast+
    have "\<not> same_name C ((n # ns) ! j) ((n # ns) ! i)" if "i < j" "j < length (n # ns)" for i j
    proof (cases i)
      case 0
      then show ?thesis using that IH(2) by (cases j) simp_all
    next
      case (Suc k)
      then show ?thesis using that IH(3) [of k "j - 1"] by (cases j) simp_all
    qed
    then show ?case using n IH(1,2) by simp
  qed simp
  then show "list_all valid_name ns" "\<And>i j. i < j \<Longrightarrow> j < length ns \<Longrightarrow> \<not> same_name C (ns ! j) (ns ! i)" by blast+
qed

lemma register_names_ok:
  assumes "list_all valid_name ns" "\<And>i j. i < j \<Longrightarrow> j < length ns \<Longrightarrow> \<not> same_name C (ns ! j) (ns ! i)"
    and "\<forall>n \<in> set ns. \<forall>m \<in> set names. \<not> same_name C n m"
  shows "\<exists>names'. register_names C ns names = Inr names'"
  using assms
proof (induction ns arbitrary: names)
  case (Cons n ns)
  have n: "register_name C n names = Inr (n # names)"
    using Cons(2,4) by (auto simp: register_name_def list_ex_iff)
  have "\<not> same_name C k n" if "k \<in> set ns" for k
  proof -
    obtain j where "j < length ns" "k = ns ! j" using \<open>k \<in> set ns\<close> by (metis in_set_conv_nth)
    then show ?thesis using Cons(3) [of 0 "Suc j"] by simp
  qed
  then have "\<exists>names'. register_names C ns (n # names) = Inr names'"
    using Cons(2,4) Cons(3) [of "Suc i" "Suc j" for i j] by (intro Cons(1)) auto
  then show ?case by (simp add: n)
qed simp

end
