(* ===== verification/GuidText.thy ===== *)
theory GuidText
  imports Prelude CancelEvent
begin

text \<open>
  Identifiers and the names made of them: \<open>src/modules/guid_formatter.ixx\<close> and
  \<open>native_backup/internal.cpp\<close>.  A GUID is the 128-bit number whose bytes are the
  16 bytes of the structure in memory order.  \<open>IIDFromString\<close> is the system's parser and
  a parameter of \<open>ParseGuid\<close>.

  Results: both forms of the text of a GUID are accepted by a strict reader of the documented
  grammar, which returns the GUID (\<open>read_guid_FormatGuid\<close>), so the text determines it, and so do
  the names of volume images.
\<close>

section \<open>Formatting\<close>

definition hex_digit :: "nat \<Rightarrow> char" where
  "hex_digit n = (if n < 10 then char_of (48 + n) else char_of (87 + n))"

text \<open>\<open>{:0wx}\<close> of a number below \<open>16 ^ w\<close>.\<close>

fun hex_padded :: "nat \<Rightarrow> nat \<Rightarrow> string" where
  "hex_padded 0 n = []"
| "hex_padded (Suc w) n = hex_padded w (n div 16) @ [hex_digit (n mod 16)]"

definition Data1 :: "guid \<Rightarrow> nat" where "Data1 g = unat (ucast g :: 32 word)"
definition Data2 :: "guid \<Rightarrow> nat" where "Data2 g = unat (ucast (drop_bit 32 g) :: 16 word)"
definition Data3 :: "guid \<Rightarrow> nat" where "Data3 g = unat (ucast (drop_bit 48 g) :: 16 word)"
definition Data4 :: "guid \<Rightarrow> nat \<Rightarrow> nat" where "Data4 g i = unat (ucast (drop_bit (64 + 8 * i) g) :: 8 word)"

definition FormatGuid :: "bool \<Rightarrow> guid \<Rightarrow> string" where
  "FormatGuid braces g =
     (let text1 = hex_padded 8 (Data1 g) @ ''-'' @ hex_padded 4 (Data2 g) @ ''-'' @ hex_padded 4 (Data3 g) @ ''-'' @
            hex_padded 2 (Data4 g 0) @ hex_padded 2 (Data4 g 1) @ ''-'' @
            concat (map (\<lambda>i. hex_padded 2 (Data4 g i)) [2..<8])
      in if braces then ''{'' @ text1 @ ''}'' else text1)"

text \<open>The parser of the system returns the identifier or a failure code.\<close>

definition ParseGuid :: "(string \<Rightarrow> int + guid) \<Rightarrow> string \<Rightarrow> int + guid" where
  "ParseGuid IIDFromString value =
     IIDFromString (if value \<noteq> [] \<and> hd value = CHR ''{'' then value else ''{'' @ value @ ''}'')"

text \<open>The order of the maps that are keyed by a GUID: the two 64-bit words in memory order.\<close>

definition GuidLess :: "guid \<Rightarrow> guid \<Rightarrow> bool" where
  "GuidLess left right =
     (let l0 = ucast left :: 64 word; r0 = ucast right :: 64 word;
          l1 = ucast (drop_bit 64 left) :: 64 word; r1 = ucast (drop_bit 64 right) :: 64 word
      in if l0 = r0 then l1 < r1 else l0 < r0)"

section \<open>Names of volumes and images\<close>

text \<open>\<open>std::string_view::substr\<close>; a position past the end throws \<open>std::out_of_range\<close>.\<close>

definition out_of_range :: error where
  "out_of_range = InvalidArgument ''string_view::substr''"

definition substr :: "string \<Rightarrow> nat \<Rightarrow> nat \<Rightarrow> string result" where
  "substr s position count = (if position > length s then Inl out_of_range else Inr (take count (drop position s)))"

definition ParseVolumeGuid :: "(string \<Rightarrow> int + guid) \<Rightarrow> string \<Rightarrow> (int + guid) result" where
  "ParseVolumeGuid IIDFromString volume = ebind (substr volume 10 38) (\<lambda>text1. Inr (ParseGuid IIDFromString text1))"

definition VolumeImageName :: "string \<Rightarrow> string \<Rightarrow> string result" where
  "VolumeImageName volume extension =
     ebind (substr volume 11 36) (\<lambda>text1. Inr (''volume-'' @ text1 @ extension))"

definition SnapshotImageName :: "string \<Rightarrow> string result" where
  "SnapshotImageName original_volume = VolumeImageName original_volume ''.img''"

definition kCancelledExitCode :: int where "kCancelledExitCode = 130"

abbreviation (input) ERROR_CANCELLED :: nat where "ERROR_CANCELLED \<equiv> 1223"

text \<open>An operation that fails because it was cancelled has its own exit code.\<close>

definition RunVssOperation :: "cancellation \<Rightarrow> int result \<Rightarrow> int result \<times> cancellation" where
  "RunVssOperation cancel operation =
     (case operation of
        Inl (SystemError code text1) \<Rightarrow>
          (case event_is_signaled cancel of (requested, cancel1) \<Rightarrow>
             (if requested \<and> code = ERROR_CANCELLED then Inr kCancelledExitCode else operation, cancel1))
      | _ \<Rightarrow> (operation, cancel))"

section \<open>The text determines the identifier\<close>

text \<open>
  A strict reader of the grammar that the system documents for \<open>IIDFromString\<close>: braces, five groups of
  8, 4, 4, 4 and 12 hexadecimal digits of either case, and a hyphen between the groups.  Any other text is rejected.
\<close>

definition hex_value :: "char \<Rightarrow> nat option" where
  "hex_value c = (let n = of_char c :: nat in
     if 48 \<le> n \<and> n < 58 then Some (n - 48) else if 65 \<le> n \<and> n < 71 then Some (n - 55)
     else if 97 \<le> n \<and> n < 103 then Some (n - 87) else None)"

fun read_hex :: "nat \<Rightarrow> nat \<Rightarrow> string \<Rightarrow> (nat \<times> string) option" where
  "read_hex 0 acc s = Some (acc, s)"
| "read_hex (Suc w) acc [] = None"
| "read_hex (Suc w) acc (c # s) = (case hex_value c of None \<Rightarrow> None | Some d \<Rightarrow> read_hex w (16 * acc + d) s)"

text \<open>Fields of a given number of digits, each with the literal text after it, up to the end.\<close>

fun read_fields :: "(nat \<times> string) list \<Rightarrow> string \<Rightarrow> nat list option" where
  "read_fields [] s = (if s = [] then Some [] else None)"
| "read_fields ((w, literal) # fields) s =
     (case read_hex w 0 s of
        None \<Rightarrow> None
      | Some (n, s1) \<Rightarrow>
          if take (length literal) s1 = literal then map_option ((#) n) (read_fields fields (drop (length literal) s1)) else None)"

definition guid_layout :: "(nat \<times> string) list" where
  "guid_layout = [(8, ''-''), (4, ''-''), (4, ''-''), (2, []), (2, ''-''), (2, []), (2, []), (2, []), (2, []), (2, []), (2, ''}'')]"

definition guid_of_fields :: "nat list \<Rightarrow> guid" where
  "guid_of_fields ns = foldr (\<lambda>(k, n) g. or (push_bit k (of_nat n)) g)
     (zip [0, 32, 48, 64, 72, 80, 88, 96, 104, 112, 120] ns) 0"

definition read_guid :: "string \<Rightarrow> guid option" where
  "read_guid s = (case s of c # rest \<Rightarrow> if c = CHR ''{'' then map_option guid_of_fields (read_fields guid_layout rest) else None | [] \<Rightarrow> None)"

lemma hex_value_digit: "n < 16 \<Longrightarrow> hex_value (hex_digit n) = Some n"
  by (simp add: hex_value_def hex_digit_def Let_def)

lemma read_hex_append:
  "read_hex (v + w) acc s = (case read_hex v acc s of None \<Rightarrow> None | Some (n, s1) \<Rightarrow> read_hex w n s1)"
  by (induction v acc s rule: read_hex.induct) (auto split: option.split)

lemma read_hex_padded: "n < 16 ^ w \<Longrightarrow> read_hex w acc (hex_padded w n @ s) = Some (16 ^ w * acc + n, s)"
proof (induction w arbitrary: n s)
  case (Suc w)
  have "n div 16 < 16 ^ w" using Suc(2) by (simp add: less_mult_imp_div_less mult.commute)
  then have "read_hex w acc (hex_padded w (n div 16) @ hex_digit (n mod 16) # s) = Some (16 ^ w * acc + n div 16, hex_digit (n mod 16) # s)"
    by (rule Suc(1))
  then show ?case using read_hex_append [of w 1] by (simp add: hex_value_digit algebra_simps)
qed simp

text \<open>Writing fields with the literals of a layout, and reading them back.\<close>

definition write_fields :: "(nat \<times> string) list \<Rightarrow> nat list \<Rightarrow> string" where
  "write_fields layout ns = concat (map2 (\<lambda>(w, literal) n. hex_padded w n @ literal) layout ns)"

lemma read_write_fields:
  "list_all2 (\<lambda>(w, literal) n. n < 16 ^ w) layout ns \<Longrightarrow> read_fields layout (write_fields layout ns) = Some ns"
proof (induction layout ns rule: list_all2_induct)
  case (Cons f layout n ns)
  then show ?case by (cases f) (simp add: write_fields_def read_hex_padded)
qed (simp add: write_fields_def)

lemma length_hex_padded [simp]: "length (hex_padded w n) = w"
  by (induction w arbitrary: n) simp_all

lemma unat_bound: "LENGTH('a) = 4 * w \<Longrightarrow> unat (x :: 'a::len word) < 16 ^ w"
  using unsigned_less [of x] by (simp add: power_mult)

lemma data_bounds: "Data1 g < 16 ^ 8" "Data2 g < 16 ^ 4" "Data3 g < 16 ^ 4" "Data4 g i < 16 ^ 2"
  unfolding Data1_def Data2_def Data3_def Data4_def by (rule unat_bound, simp)+

lemma bit_field:
  fixes g :: guid
  assumes "LENGTH('a::len) \<le> 128"
  shows "bit (push_bit k (of_nat (unat (ucast (drop_bit k g) :: 'a word))) :: guid) n \<longleftrightarrow> k \<le> n \<and> n < k + LENGTH('a) \<and> bit g n"
proof -
  have "(of_nat (unat (ucast (drop_bit k g) :: 'a word)) :: guid) = ucast (ucast (drop_bit k g) :: 'a word)" by simp
  then show ?thesis
    by (auto simp: bit_push_bit_iff bit_ucast_iff bit_drop_bit_eq dest: bit_imp_le_length)
qed

lemma guid_fields:
  fixes g :: guid
  shows "g = or (of_nat (Data1 g)) (or (push_bit 32 (of_nat (Data2 g))) (or (push_bit 48 (of_nat (Data3 g)))
    (or (push_bit 64 (of_nat (Data4 g 0))) (or (push_bit 72 (of_nat (Data4 g 1))) (or (push_bit 80 (of_nat (Data4 g 2)))
    (or (push_bit 88 (of_nat (Data4 g 3))) (or (push_bit 96 (of_nat (Data4 g 4))) (or (push_bit 104 (of_nat (Data4 g 5)))
    (or (push_bit 112 (of_nat (Data4 g 6))) (push_bit 120 (of_nat (Data4 g 7))))))))))))" (is "g = ?r")
proof (rule bit_eqI)
  fix n
  assume "possible_bit TYPE(guid) n"
  then have n: "n < 128" by simp
  have first: "bit (of_nat (Data1 g) :: guid) n \<longleftrightarrow> n < 32 \<and> bit g n"
    using bit_field [where 'a = 32 and k = 0 and g = g and n = n] by (simp add: Data1_def)
  show "bit g n \<longleftrightarrow> bit ?r n"
    unfolding Data2_def Data3_def Data4_def
    by (simp only: bit_or_iff first)
      (simp add: bit_field [where 'a = 16] bit_field [where 'a = 8] del: of_nat_unat, use n in arith)
qed

definition guid_fields_of :: "guid \<Rightarrow> nat list" where
  "guid_fields_of g = [Data1 g, Data2 g, Data3 g, Data4 g 0, Data4 g 1, Data4 g 2, Data4 g 3, Data4 g 4, Data4 g 5, Data4 g 6, Data4 g 7]"

lemma guid_of_fields_of: "guid_of_fields (guid_fields_of g) = g"
  by (simp add: guid_of_fields_def guid_fields_of_def guid_fields [of g, symmetric, simplified])

lemma FormatGuid_braces: "FormatGuid True g = ''{'' @ FormatGuid False g @ ''}''"
  by (simp add: FormatGuid_def Let_def)

lemma FormatGuid_fields: "FormatGuid True g = ''{'' @ write_fields guid_layout (guid_fields_of g)"
  by (simp add: FormatGuid_def write_fields_def guid_layout_def guid_fields_of_def upt_conv_Cons)

theorem read_guid_FormatGuid: "read_guid (FormatGuid True g) = Some g"
proof -
  have "list_all2 (\<lambda>(w, literal) n. n < 16 ^ w) guid_layout (guid_fields_of g)"
    by (simp add: guid_layout_def guid_fields_of_def data_bounds [simplified])
  then show ?thesis by (simp add: FormatGuid_fields read_guid_def read_write_fields guid_of_fields_of)
qed

lemma FormatGuid_inject: "FormatGuid braces g = FormatGuid braces h \<Longrightarrow> g = h"
  using read_guid_FormatGuid [of g] read_guid_FormatGuid [of h] by (cases braces) (simp_all add: FormatGuid_braces)

text \<open>
  What is relied on of the system's parser: it returns the GUID of every text of its grammar.
\<close>

definition reads_guid_texts :: "(string \<Rightarrow> int + guid) \<Rightarrow> bool" where
  "reads_guid_texts IIDFromString \<longleftrightarrow> (\<forall>s g. read_guid s = Some g \<longrightarrow> IIDFromString s = Inr g)"

text \<open>The text has lower-case digits only.\<close>

definition guid_digits :: "char set" where
  "guid_digits = set ''0123456789abcdef''"

lemma hex_digit_mem: "n < 16 \<Longrightarrow> hex_digit n \<in> guid_digits"
proof -
  have "list_all (\<lambda>m. hex_digit m \<in> set ''0123456789abcdef'') [0..<16]" by code_simp
  then show "n < 16 \<Longrightarrow> hex_digit n \<in> guid_digits" by (simp only: list_all_iff guid_digits_def set_upt atLeastLessThan_iff) simp
qed

lemma hex_padded_set: "set (hex_padded w n) \<subseteq> guid_digits"
  by (induction w arbitrary: n) (simp_all add: hex_digit_mem)

lemma FormatGuid_set: "set (FormatGuid braces g) \<subseteq> guid_digits \<union> {CHR ''-'', CHR ''{'', CHR ''}''}"
  using hex_padded_set by (auto simp: FormatGuid_def Let_def dest: subsetD split: if_splits)

lemma ParseGuid_FormatGuid:
  assumes "reads_guid_texts iid"
  shows "ParseGuid iid (FormatGuid braces g) = Inr g"
proof -
  have i: "iid (FormatGuid True g) = Inr g" using assms read_guid_FormatGuid [of g] by (simp add: reads_guid_texts_def)
  have "hd (hex_padded 8 (Data1 g)) \<in> guid_digits"
    using hex_padded_set [of 8 "Data1 g"] length_hex_padded [of 8 "Data1 g"] by (metis hd_in_set list.size(3) subsetD zero_neq_numeral)
  moreover have "CHR ''{'' \<notin> guid_digits" by (simp add: guid_digits_def)
  ultimately have "hd (hex_padded 8 (Data1 g)) \<noteq> CHR ''{''" by metis
  moreover have "hex_padded 8 (Data1 g) \<noteq> []" using length_hex_padded [of 8 "Data1 g"] by (metis list.size(3) zero_neq_numeral)
  ultimately have "hd (FormatGuid False g) \<noteq> CHR ''{''" by (simp add: FormatGuid_def Let_def)
  then show ?thesis using i by (cases braces) (simp_all add: ParseGuid_def FormatGuid_braces)
qed

lemma length_FormatGuid: "length (FormatGuid braces g) = (if braces then 38 else 36)"
  by (simp add: FormatGuid_def Let_def upt_conv_Cons)

text \<open>The volume name of the mount manager: the GUID in braces after the prefix for volumes.\<close>

definition volume_name :: "guid \<Rightarrow> string" where
  "volume_name g = [CHR 0x5C, CHR 0x5C, CHR ''?'', CHR 0x5C] @ ''Volume'' @ FormatGuid True g @ [CHR 0x5C]"

lemma image_name: "SnapshotImageName (volume_name g) = Inr (''volume-'' @ FormatGuid False g @ ''.img'')"
proof -
  have "take 36 (drop 11 (volume_name g)) = FormatGuid False g"
    using length_FormatGuid [of False g] by (simp add: volume_name_def FormatGuid_def Let_def)
  then show ?thesis
    using length_FormatGuid [of True g]
    by (simp add: SnapshotImageName_def VolumeImageName_def substr_def volume_name_def)
qed

lemma parse_volume: "ParseVolumeGuid iid (volume_name g) = Inr (iid (FormatGuid True g))"
proof -
  have "take 38 (drop 10 (volume_name g)) = FormatGuid True g"
    using length_FormatGuid [of True g] by (simp add: volume_name_def)
  moreover have "FormatGuid True g \<noteq> [] \<and> hd (FormatGuid True g) = CHR ''{''" by (simp add: FormatGuid_def Let_def)
  ultimately show ?thesis
    using length_FormatGuid [of True g] by (simp add: ParseVolumeGuid_def ParseGuid_def substr_def volume_name_def)
qed

text \<open>Images of different volumes have different names.\<close>

lemma image_names_distinct:
  assumes "SnapshotImageName (volume_name g) = SnapshotImageName (volume_name h)"
  shows "g = h"
proof -
  have "FormatGuid False g = FormatGuid False h" using assms unfolding image_name by simp
  then show ?thesis by (rule FormatGuid_inject)
qed

end
