(* ===== verification/DeviceFsProcess.thy ===== *)
theory DeviceFsProcess
  imports CommandLine CancelEvent OutputText GuidText
begin

text \<open>
  The supervisor's side of the devicefs process: \<open>devicefs_process.cpp\<close>.  The
  replies of the system are the arguments; a launch is what is handed to
  \<open>StartProcessWithHandles\<close>.

  Results: the command line that \<open>StartDeviceFs\<close> builds is one that \<open>ParseArgs\<close> accepts
  and understands as the request (\<open>StartDeviceFs_understood\<close>); the wait for readiness ends at the deadline
  (\<open>WaitForDeviceFs_ends\<close>) and reports readiness only for a process that still ran and a path that existed.
\<close>

section \<open>Requests\<close>

record DeviceFsSource =
  ds_name :: string
  ds_source :: string

record DeviceFsStartRequest =
  rq_sources :: "DeviceFsSource list"
  rq_inherited_handles :: "nat list"
  rq_mount_target :: string
  rq_read_user :: "string option"
  rq_rpc_endpoint :: "string option"
  rq_rpc_password :: "string option"
  rq_vhdx :: bool
  rq_expose_known_data_map :: bool

record DeviceFsProcess =
  dp_process :: nat
  dp_readiness_path :: string
  dp_stop_event_name :: string

record launch =
  la_argv :: "string list"
  la_suspended :: bool
  la_standard_input :: "string option"
  la_inherited_handles :: "nat list"
  la_environment :: "(string \<times> string) list"

text \<open>The unique name, the executable's path and the outcome of each system call in the order they are made.\<close>

record start_replies =
  st_unique_name :: string
  st_create_event :: "error option"
  st_executable :: string
  st_set_environment :: "error option"
  st_create_pipe :: "error option"
  st_write_password :: "error option"
  st_write_newline :: "error option"
  st_start :: "launch \<Rightarrow> nat result"

definition kPbsImageChunkSize :: nat where "kPbsImageChunkSize = 4194304"

definition kEndpointEnvironmentVariable :: string where "kEndpointEnvironmentVariable = ''DEVICEFS_RPC_ENDPOINT''"

definition source_arguments :: "string option \<Rightarrow> DeviceFsSource \<Rightarrow> string list" where
  "source_arguments rpc_endpoint source =
     [''--map'', ds_name source, if rpc_endpoint \<noteq> None then kDeviceSourcePrefix @ ds_source source else ds_source source]"

definition start_arguments :: "string \<Rightarrow> string \<Rightarrow> DeviceFsStartRequest \<Rightarrow> string list" where
  "start_arguments executable stop_event_name request =
     [executable, ''--devicefs'', ''--synthetic-free-clusters'', ''--cache''] @
     (if rq_vhdx request then [''--vhdx'']
      else if rq_rpc_endpoint request = None \<and> rq_expose_known_data_map request
      then [''--expose-known-data-map'', decimal kPbsImageChunkSize] else []) @
     [''--mount'', rq_mount_target request] @
     (case rq_read_user request of Some user \<Rightarrow> [''--read-user'', user] | None \<Rightarrow> []) @
     [''--stop-event'', stop_event_name] @
     concat (map (source_arguments (rq_rpc_endpoint request)) (rq_sources request))"

text \<open>The path of the first source below the mount target; the names of sources are relative.\<close>

definition readiness_path :: "DeviceFsStartRequest \<Rightarrow> string" where
  "readiness_path request =
     (case rq_sources request of [] \<Rightarrow> [] | source # _ \<Rightarrow> rq_mount_target request @ [CHR 0x5C] @ ds_name source)"

definition StartDeviceFs :: "start_replies \<Rightarrow> DeviceFsStartRequest \<Rightarrow> message list \<times> DeviceFsProcess result" where
  "StartDeviceFs S request =
     (let stop_event_name = ''Global'' @ [CHR 0x5C] @ ''devicefs-stop-'' @ st_unique_name S;
          arguments = start_arguments (st_executable S) stop_event_name request
      in case st_create_event S of
           Some err \<Rightarrow> ([], Inl err)
         | None \<Rightarrow>
             (case (rq_rpc_endpoint request, st_set_environment S) of
                (Some _, Some err) \<Rightarrow> ([], Inl err)
              | _ \<Rightarrow>
                  ([Msg ''Setting up virtual filesystem: {}'' (map Str arguments)],
                   let launch1 = \<lparr>la_argv = arguments, la_suspended = (rq_rpc_endpoint request \<noteq> None),
                         la_standard_input = map_option (\<lambda>p. p @ [CHR 0x0A]) (rq_rpc_password request),
                         la_inherited_handles = rq_inherited_handles request,
                         la_environment = (case rq_rpc_endpoint request of
                             Some endpoint \<Rightarrow> [(kEndpointEnvironmentVariable, endpoint)] | None \<Rightarrow> [])\<rparr>;
                       pipe = (case rq_rpc_password request of
                           None \<Rightarrow> Inr ()
                         | Some _ \<Rightarrow>
                             (case (st_create_pipe S, st_write_password S, st_write_newline S) of
                                (Some err, _, _) \<Rightarrow> Inl err
                              | (None, Some err, _) \<Rightarrow> Inl err
                              | (None, None, Some err) \<Rightarrow> Inl err
                              | _ \<Rightarrow> Inr ()))
                   in ebind pipe (\<lambda>_. ebind (st_start S launch1) (\<lambda>process.
                        Inr \<lparr>dp_process = process, dp_readiness_path = readiness_path request,
                              dp_stop_event_name = stop_event_name\<rparr>)))))"

text \<open>A thread that could not be resumed is an error.\<close>

definition ResumeDeviceFs :: "nat \<Rightarrow> error \<Rightarrow> unit result" where
  "ResumeDeviceFs previous_count err = (if previous_count = 4294967295 then Inl err else Inr ())"

section \<open>The backup's request\<close>

record Snapshot =
  sn_identifier :: guid
  sn_original_volume :: string
  sn_device :: string

record NamedFile =
  nf_name :: string
  nf_handle :: nat

definition kMountTarget :: string where
  "kMountTarget = ''C:'' @ [CHR 0x5C] @ ''ProgramData'' @ [CHR 0x5C] @ ''devicefs'' @ [CHR 0x5C] @ ''backup-mount''"

text \<open>\<open>std::map::at\<close> throws for an identifier that is not a key.\<close>

definition out_of_map :: error where "out_of_map = RuntimeError ''invalid map key''"

definition snapshot_source :: "(guid \<rightharpoonup> nat) \<Rightarrow> Snapshot \<Rightarrow> DeviceFsSource result" where
  "snapshot_source handles snapshot =
     ebind (SnapshotImageName (sn_original_volume snapshot)) (\<lambda>name.
       case handles (sn_identifier snapshot) of
         None \<Rightarrow> Inl out_of_map
       | Some handle \<Rightarrow> Inr \<lparr>ds_name = name, ds_source = kHandleDevicePrefix @ decimal handle\<rparr>)"

fun snapshot_sources :: "(guid \<rightharpoonup> nat) \<Rightarrow> Snapshot list \<Rightarrow> DeviceFsSource list result" where
  "snapshot_sources handles [] = Inr []"
| "snapshot_sources handles (s # ss) =
     ebind (snapshot_source handles s) (\<lambda>x. ebind (snapshot_sources handles ss) (\<lambda>xs. Inr (x # xs)))"

definition dirty_map_source :: "NamedFile \<Rightarrow> DeviceFsSource" where
  "dirty_map_source f = \<lparr>ds_name = nf_name f, ds_source = kFileHandleDevicePrefix @ decimal (nf_handle f)\<rparr>"

definition snapshot_request ::
    "Snapshot list \<Rightarrow> string \<Rightarrow> bool \<Rightarrow> (guid \<rightharpoonup> nat) \<Rightarrow> nat list \<Rightarrow> NamedFile list \<Rightarrow> DeviceFsStartRequest result" where
  "snapshot_request snapshots read_user use_known_data_map handles handle_values dirty_maps =
     ebind (snapshot_sources handles snapshots) (\<lambda>sources.
       Inr \<lparr>rq_sources = sources @ map dirty_map_source dirty_maps,
             rq_inherited_handles = handle_values @ map nf_handle dirty_maps,
             rq_mount_target = kMountTarget, rq_read_user = Some read_user, rq_rpc_endpoint = None,
             rq_rpc_password = None, rq_vhdx = False, rq_expose_known_data_map = use_known_data_map\<rparr>)"

text \<open>The handles of the map are passed in the order of their keys, \<open>handle_values\<close>.\<close>

definition StartDeviceFs_snapshots ::
    "start_replies \<Rightarrow> Snapshot list \<Rightarrow> string \<Rightarrow> bool \<Rightarrow> (guid \<rightharpoonup> nat) \<Rightarrow> nat list \<Rightarrow> NamedFile list \<Rightarrow>
     message list \<times> DeviceFsProcess result" where
  "StartDeviceFs_snapshots S snapshots read_user use_known_data_map handles handle_values dirty_maps =
     (case snapshot_request snapshots read_user use_known_data_map handles handle_values dirty_maps of
        Inl err \<Rightarrow> ([], Inl err)
      | Inr request \<Rightarrow> StartDeviceFs S request)"

section \<open>Waiting\<close>

text \<open>
  One round of the wait: the exit code of a process that has exited, whether the
  readiness path exists, and the time.  Running out of rounds is a wait that has not ended.
\<close>

record ready_poll =
  rp_exited :: "nat option"
  rp_exists :: bool
  rp_now :: nat

definition kStartTimeout :: nat where "kStartTimeout = 30000"

fun wait_ready :: "ready_poll list \<Rightarrow> nat \<Rightarrow> cancellation \<Rightarrow> bool result option" where
  "wait_ready [] deadline cancel = None"
| "wait_ready (p # ps) deadline cancel =
     (case rp_exited p of
        Some code \<Rightarrow> Some (Inl (RuntimeError (''devicefs exited with code '' @ decimal code @ '' before creating readiness path'')))
      | None \<Rightarrow>
          (case event_is_signaled cancel of (cancelled, cancel1) \<Rightarrow>
             if cancelled then Some (Inr False)
             else if rp_exists p then Some (Inr True)
             else if deadline \<le> rp_now p then Some (Inl (RuntimeError ''devicefs did not create readiness path in time''))
             else wait_ready ps deadline cancel1))"

definition WaitForDeviceFs :: "nat \<Rightarrow> ready_poll list \<Rightarrow> cancellation \<Rightarrow> bool result option" where
  "WaitForDeviceFs now polls cancel = wait_ready polls (now + kStartTimeout) cancel"

text \<open>The index of the object that a wait for any reports: the processes first, the event last.\<close>

record DeviceFsExit =
  de_process_index :: nat
  de_exit_code :: nat

definition WaitForDeviceFsExitOrCancellation :: "nat \<Rightarrow> nat list \<Rightarrow> DeviceFsExit option" where
  "WaitForDeviceFsExitOrCancellation signalled exit_codes =
     (if signalled < length exit_codes
      then Some \<lparr>de_process_index = signalled, de_exit_code = exit_codes ! signalled\<rparr> else None)"

section \<open>The owner of a process\<close>

text \<open>
  The destructor signals the stop event and waits; \<open>exited\<close> is whether the process
  ended within the timeout, and \<open>exit_code\<close> is \<open>None\<close> when it cannot be read.  The result is the
  message and the flag that confirms the exit.
\<close>

record DeviceFsChild =
  dc_devicefs :: DeviceFsProcess
  dc_exit_confirmed :: "bool option"

definition DeviceFsChild_new :: "DeviceFsProcess \<Rightarrow> bool \<Rightarrow> DeviceFsChild" where
  "DeviceFsChild_new process flagged = \<lparr>dc_devicefs = process, dc_exit_confirmed = (if flagged then Some False else None)\<rparr>"

definition DeviceFsChild_destroy :: "bool \<Rightarrow> nat option \<Rightarrow> DeviceFsChild \<Rightarrow> message list \<times> DeviceFsChild" where
  "DeviceFsChild_destroy exited exit_code child =
     (let process = dp_process (dc_devicefs child)
      in if exited then
           ((case exit_code of
               Some code \<Rightarrow>
                 if code \<noteq> 0 then [Msg ''backup-supervisor: informational: devicefs child process {} exited with a nonzero status: {}''
                   [N process, WinErr code]] else []
             | None \<Rightarrow> []),
            child\<lparr>dc_exit_confirmed := map_option (\<lambda>_. True) (dc_exit_confirmed child)\<rparr>)
         else ([Msg ''backup-supervisor: failed to stop devicefs child process {} (shutdown event {}): {}''
                  [N process, Str (dp_stop_event_name (dc_devicefs child)), WinErr 1460]], child))"

section \<open>The command line is understood\<close>

definition source_mapping :: "cli \<Rightarrow> string option \<Rightarrow> DeviceFsSource \<Rightarrow> Mapping" where
  "source_mapping C rpc_endpoint source = \<lparr>mp_name = cl_transcode C (ds_name source),
     mp_device = (if rpc_endpoint \<noteq> None then kDeviceSourcePrefix @ ds_source source else ds_source source)\<rparr>"

text \<open>The options that the request means, before the mount point is brought to its final form.\<close>

definition requested_options :: "cli \<Rightarrow> string \<Rightarrow> DeviceFsStartRequest \<Rightarrow> Options" where
  "requested_options C stop_event_name request =
     Options_default\<lparr>op_mount := cl_transcode C (rq_mount_target request),
       op_read_user := (case rq_read_user request of Some user \<Rightarrow> user | None \<Rightarrow> []),
       op_stop_event := stop_event_name,
       op_mappings := map (source_mapping C (rq_rpc_endpoint request)) (rq_sources request),
       op_cache := True, op_synthetic_free_clusters := True,
       op_known_data_map_cluster_size :=
         (if \<not> rq_vhdx request \<and> rq_rpc_endpoint request = None \<and> rq_expose_known_data_map request
          then Some kPbsImageChunkSize else None),
       op_vhdx := rq_vhdx request\<rparr>"

definition distinct_names :: "cli \<Rightarrow> wstring list \<Rightarrow> bool" where
  "distinct_names C names \<longleftrightarrow> list_all valid_name names \<and>
     (\<forall>i j. i < j \<and> j < length names \<longrightarrow> \<not> same_name C (names ! j) (names ! i))"

lemma parse_sources:
  "parse_loop C i (concat (map (source_arguments e) ss)) r =
     Inr (r\<lparr>op_mappings := op_mappings r @ map (source_mapping C e) ss\<rparr>)"
  by (induction ss arbitrary: i r) (simp_all add: source_arguments_def source_mapping_def parse_loop.simps(2))

lemma parse_chunk_size: "from_chars (decimal kPbsImageChunkSize) = Some (kPbsImageChunkSize, [])" "kPbsImageChunkSize \<noteq> 0"
  by (simp_all add: from_chars_decimal kPbsImageChunkSize_def)

lemma parse_request:
  "parse_loop C 1 (tl (tl (start_arguments executable stop_event_name request))) Options_default =
     Inr (requested_options C stop_event_name request)"
  by (cases "rq_read_user request")
    (simp_all add: start_arguments_def parse_loop.simps(2) parse_sources parse_chunk_size requested_options_def
      Options_default_def split: if_splits)

theorem StartDeviceFs_understood:
  assumes "rq_sources request \<noteq> []" "cl_transcode C (rq_mount_target request) \<noteq> []" "stop_event_name \<noteq> []"
    and "distinct_names C (concat (map (mapping_names (requested_options C stop_event_name request))
           (map (source_mapping C (rq_rpc_endpoint request)) (rq_sources request))))"
  shows "ParseArgs C (tl (start_arguments executable stop_event_name request)) =
    normalise_mount C (requested_options C stop_event_name request)"
proof -
  let ?r = "requested_options C stop_event_name request"
  have f: "op_mappings ?r = map (source_mapping C (rq_rpc_endpoint request)) (rq_sources request)"
    "op_mount ?r = cl_transcode C (rq_mount_target request)" "op_stop_event ?r = stop_event_name"
    "op_synthetic_free_clusters ?r" "op_known_data_map_cluster_size ?r \<noteq> None \<longrightarrow> \<not> op_vhdx ?r" "\<not> op_help ?r"
    by (simp_all add: requested_options_def Options_default_def)
  have "\<exists>names. register_names C (concat (map (mapping_names ?r) (op_mappings ?r))) [] = Inr names"
    using assms(4) unfolding f(1) distinct_names_def by (intro register_names_ok) simp_all
  then obtain names where "register_names C (concat (map (mapping_names ?r) (op_mappings ?r))) [] = Inr names" by blast
  then show ?thesis using assms(1-3) f(4-6)
    by (auto simp: ParseArgs_def parse_request [simplified] f(1-3))
qed

text \<open>The handle of a snapshot reaches the process that opens it.\<close>

lemma snapshot_handle_arrives:
  assumes "snapshot_source handles s = Inr source" "\<And>h. h \<in> ran handles \<Longrightarrow> h < 2 ^ 64"
  shows "\<exists>h. handles (sn_identifier s) = Some h \<and>
    ParseInheritedHandle (drop (length kHandleDevicePrefix) (mp_device (source_mapping C None source))) = Inr h \<and>
    starts_with (mp_device (source_mapping C None source)) kHandleDevicePrefix \<and>
    IsWindowsDevice (source_mapping C None source)"
proof -
  obtain name h where h: "handles (sn_identifier s) = Some h"
    and source: "source = \<lparr>ds_name = name, ds_source = kHandleDevicePrefix @ decimal h\<rparr>"
    using assms(1) by (auto simp: snapshot_source_def ebind_def split: sum.splits option.splits)
  have "h < 2 ^ 64" using h assms(2) by (metis ranI)
  then have "ParseInheritedHandle (decimal h) = Inr h" by (simp add: ParseInheritedHandle_def from_chars_decimal)
  then show ?thesis using h handle_kinds(1) by (simp add: source source_mapping_def)
qed

lemma snapshot_sources_nth:
  assumes "snapshot_sources handles ss = Inr sources"
  shows "length sources = length ss" "\<And>i. i < length ss \<Longrightarrow> snapshot_source handles (ss ! i) = Inr (sources ! i)"
proof -
  have "length sources = length ss \<and> (\<forall>i < length ss. snapshot_source handles (ss ! i) = Inr (sources ! i))"
    using assms
  proof (induction ss arbitrary: sources)
    case (Cons s ss)
    then obtain x xs where "snapshot_source handles s = Inr x" "snapshot_sources handles ss = Inr xs" "sources = x # xs"
      by (auto simp: ebind_def split: sum.splits)
    then show ?case using Cons(1) [of xs] by (auto simp: less_Suc_eq_0_disj)
  qed simp
  then show "length sources = length ss" "\<And>i. i < length ss \<Longrightarrow> snapshot_source handles (ss ! i) = Inr (sources ! i)" by blast+
qed

section \<open>The wait ends\<close>

theorem WaitForDeviceFs_ends:
  assumes "p \<in> set polls" "now + kStartTimeout \<le> rp_now p"
  shows "\<exists>r. WaitForDeviceFs now polls cancel = Some r"
proof -
  have "\<exists>r. wait_ready polls (now + kStartTimeout) cancel = Some r"
    using assms
  proof (induction polls arbitrary: cancel)
    case (Cons q qs)
    obtain b cancel1 where c: "event_is_signaled cancel = (b, cancel1)" by fastforce
    show ?case
    proof (cases "rp_exited q = None \<and> \<not> b \<and> \<not> rp_exists q \<and> \<not> now + kStartTimeout \<le> rp_now q")
      case True
      then have "p \<in> set qs" using Cons(2,3) by auto
      then show ?thesis using Cons(1) [of cancel1] Cons(3) True c by simp
    qed (auto simp: c split: option.splits)
  qed simp
  then show ?thesis by (simp add: WaitForDeviceFs_def)
qed

lemma WaitForDeviceFs_ready:
  assumes "WaitForDeviceFs now polls cancel = Some (Inr True)"
  shows "\<exists>p \<in> set polls. rp_exists p \<and> rp_exited p = None"
proof -
  have "wait_ready ps d c = Some (Inr True) \<Longrightarrow> \<exists>p \<in> set ps. rp_exists p \<and> rp_exited p = None" for ps d c
    by (induction ps d c rule: wait_ready.induct) (auto split: option.splits prod.splits if_splits)
  then show ?thesis using assms by (simp add: WaitForDeviceFs_def)
qed

end
