(* ===== verification/VerifierReport.thy ===== *)
theory VerifierReport
  imports ViewComparison DeviceFsProcess
begin

text \<open>
  Running and reporting the verification of volumes: \<open>StartVerification\<close>, the
  progress and result reports and the entry points of
  \<open>filesystem_verifier_impl.cpp\<close> (lines 2166 to 3046).

  Results: the exit status is zero exactly when every volume was compared completely
  without mismatch, failure or cleanup failure (\<open>final_status\<close>); the progress
  report never subtracts below zero (\<open>progress_remaining\<close>); the interim reports print every mismatch
  exactly once (\<open>reports_complete\<close>).
\<close>

section \<open>Jobs\<close>

text \<open>\<open>vj_operation\<close> is \<open>None\<close> for a future that is not valid, and else whether it is ready.\<close>

record VolumeJob =
  vj_volume_identifier :: guid
  vj_percentage :: real
  vj_state :: VerificationState
  vj_operation :: "bool option"
  vj_printed_mismatches :: nat
  vj_printed_operation_comparisons :: nat

text \<open>
  What the asynchronous operation leaves in the state, given its result; \<open>launch\<close>
  is the failure to start it.
\<close>

definition StartVerification ::
    "error option \<Rightarrow> guid \<Rightarrow> real \<Rightarrow> (VerificationState \<Rightarrow> error option \<times> message list \<times> VerificationState) \<Rightarrow>
     message list \<times> VolumeJob" where
  "StartVerification launch volume_identifier percentage operation =
     (let job = \<lparr>vj_volume_identifier = volume_identifier, vj_percentage = percentage, vj_state = VerificationState_new,
            vj_operation = None, vj_printed_mismatches = 0, vj_printed_operation_comparisons = 0\<rparr>
      in case launch of
           Some err \<Rightarrow> ([], job\<lparr>vj_state := SetPhase Complete (Fail err VerificationState_new)\<rparr>)
         | None \<Rightarrow>
             (case operation VerificationState_new of
                (None, msgs, state) \<Rightarrow> (msgs, job\<lparr>vj_state := state, vj_operation := Some True\<rparr>)
              | (Some err, msgs, state) \<Rightarrow>
                  (msgs, job\<lparr>vj_state := SetPhase Complete (Fail err state), vj_operation := Some True\<rparr>)))"

definition JobsReady :: "VolumeJob list \<Rightarrow> bool" where
  "JobsReady jobs = list_all (\<lambda>job. vj_operation job = None \<or> vj_operation job = Some True) jobs"

section \<open>Names\<close>

fun PhaseName :: "VerificationPhase \<Rightarrow> string" where
  "PhaseName AttachingSynthetic = ''attaching the synthetic VHDX''"
| "PhaseName AttachingReal = ''attaching the real-B VHDX''"
| "PhaseName Traversing = ''traversing both filesystems''"
| "PhaseName Planning = ''preparing content comparisons''"
| "PhaseName Comparing = ''comparing stream contents''"
| "PhaseName Detaching = ''detaching the VHDX views''"
| "PhaseName Complete = ''complete''"

fun ObjectKindName :: "ObjectKind \<Rightarrow> string" where
  "ObjectKindName File = ''file''"
| "ObjectKindName Directory = ''directory''"
| "ObjectKindName FileReparsePoint = ''file reparse point''"
| "ObjectKindName DirectoryReparsePoint = ''directory reparse point''"

definition DisplayPath :: "wstring \<Rightarrow> wstring" where
  "DisplayPath path = (if path = [] then [92] else path)"

fun OperationName :: "FilesystemOperation \<Rightarrow> string" where
  "OperationName QueryDirectory = ''enumerate directory''"
| "OperationName OpenObjectOp = ''open object''"
| "OperationName QueryStreams = ''enumerate object streams''"
| "OperationName OpenStreamOp = ''open stream''"
| "OperationName SeekStream = ''seek stream''"
| "OperationName ReadStream = ''read stream''"

section \<open>Reports\<close>

definition PrintOperationOutcome :: "string \<Rightarrow> OperationFailure option \<Rightarrow> nat \<Rightarrow> message list" where
  "PrintOperationOutcome name failure requested =
     (case failure of
        None \<Rightarrow> [Msg ''{} outcome: succeeded.'' [Str name]]
      | Some f \<Rightarrow>
          if of_error f = 0
          then [Msg ''{} outcome: returned {} of {} requested bytes.'' [Str name, N (of_transferred f), N requested]]
          else [Msg ''{} outcome: {}'' [Str name, WinErr (of_error f)]])"

definition difference_heading :: "bool \<Rightarrow> message" where
  "difference_heading excluded =
     (if excluded then Msg ''Identified difference in object known to be excluded from VSS snapshots:'' []
      else Msg ''*** FILESYSTEM VERIFICATION MISMATCH ***'' [])"

definition stream_line :: "wstring \<Rightarrow> message" where
  "stream_line stream = Msg ''Stream: {}'' [Wide (if stream = [] then wide ''(unnamed data stream)'' else stream)]"

definition PrintOperationComparison :: "guid \<Rightarrow> OperationComparison \<Rightarrow> message list" where
  "PrintOperationComparison volume_identifier c =
     (let key = oc_key c; op1 = ik_operation key; matched = IsMatchedError c
      in [if matched then Msg ''Matched filesystem error:'' [] else difference_heading (IsVssExcludedDifference c),
          Msg ''Volume ID: {}'' [Guid volume_identifier],
          Msg ''Object: {}'' [Wide (DisplayPath (ik_path key))]] @
         (if ik_stream key \<noteq> [] \<or> op1 = OpenStreamOp \<or> op1 = SeekStream \<or> op1 = ReadStream
          then [stream_line (ik_stream key)] else []) @
         [Msg ''Operation: {}'' [Str (OperationName op1)]] @
         (if op1 = SeekStream \<or> op1 = ReadStream then [Msg ''Stream offset: 0x{:x}'' [Num (ik_offset key)]] else []) @
         (if matched then PrintOperationOutcome ''Both views'' (oc_synthetic c) (oc_requested c)
          else PrintOperationOutcome ''Synthetic'' (oc_synthetic c) (oc_requested c) @
               PrintOperationOutcome ''Real B'' (oc_real c) (oc_requested c)))"

fun difference_line :: "MismatchKind \<Rightarrow> MismatchDetail \<Rightarrow> message" where
  "difference_line ObjectMissingFromSynthetic m = Msg ''Difference: the synthetic backup is missing this object.'' []"
| "difference_line ObjectMissingFromReal m =
     Msg ''Difference: the synthetic backup contains an object that is absent from real B.'' []"
| "difference_line ObjectType m = Msg ''Difference: synthetic type is {}; real-B type is {}.''
     [Str (ObjectKindName (md_synthetic_kind m)), Str (ObjectKindName (md_real_kind m))]"
| "difference_line StreamMissingFromSynthetic m = Msg ''Difference: the stream is missing from the synthetic backup.'' []"
| "difference_line StreamMissingFromReal m = Msg ''Difference: the stream exists only in the synthetic backup.'' []"
| "difference_line StreamLength m = Msg ''Difference: synthetic length is {} bytes; real-B length is {} bytes.''
     [Num (md_synthetic_length m), Num (md_real_length m)]"
| "difference_line StreamContents m = Msg ''First differing stream byte: 0x{:x}; synthetic=0x{:02x}, real-B=0x{:02x} Observed so far: {} differing byte(s) in {} read chunk(s).''
     [Num (md_first_offset m), N (unat (md_synthetic_byte m)), N (unat (md_real_byte m)),
      N (md_differing_bytes m), N (md_differing_chunks m)]"

definition PrintMismatch :: "guid \<Rightarrow> MismatchDetail \<Rightarrow> message list" where
  "PrintMismatch volume_identifier m =
     [difference_heading (IsVssExcludedPath (md_path m)),
      Msg ''Volume ID: {} Object: {}'' [Guid volume_identifier, Wide (DisplayPath (md_path m))]] @
     (if md_kind m \<in> {StreamMissingFromSynthetic, StreamMissingFromReal, StreamLength, StreamContents}
      then [stream_line (md_stream m)] else []) @
     [difference_line (md_kind m) m]"

definition print_new :: "VolumeJob \<Rightarrow> message list \<times> VolumeJob" where
  "print_new job =
     (let (mismatches, cursor) = NewMismatches (vj_state job) (vj_printed_mismatches job);
          (comparisons, cursor1) = NewOperationComparisons (vj_state job) (vj_printed_operation_comparisons job)
      in (concat (map (PrintMismatch (vj_volume_identifier job)) mismatches) @
          concat (map (PrintOperationComparison (vj_volume_identifier job)) (filter (\<lambda>c. \<not> IsMatchedError c) comparisons)),
          job\<lparr>vj_printed_mismatches := cursor, vj_printed_operation_comparisons := cursor1\<rparr>))"

definition PrintNewMismatches :: "VolumeJob list \<Rightarrow> message list \<times> VolumeJob list" where
  "PrintNewMismatches jobs = (concat (map (fst \<circ> print_new) jobs), map (snd \<circ> print_new) jobs)"

definition Percentage :: "nat \<Rightarrow> nat \<Rightarrow> real" where
  "Percentage completed whole = (if whole = 0 then 100 else real completed / real whole * 100)"

text \<open>The work that is known and not completed, and the denominator of the estimate.\<close>

definition not_completed :: "InventoryObservation \<Rightarrow> nat" where
  "not_completed i = (if io_tasks_discovered i > io_tasks_completed i
     then sub64 (io_tasks_discovered i) (io_tasks_completed i) else 0)"

definition estimated_tasks :: "InventoryObservation \<Rightarrow> nat \<Rightarrow> nat" where
  "estimated_tasks i estimate =
     (let observed = (if io_tasks_discovered i > io_tasks_completed i then io_tasks_discovered i else io_tasks_completed i)
      in if estimate > observed then estimate else observed)"

definition remaining_tasks :: "InventoryObservation \<Rightarrow> nat \<Rightarrow> nat" where
  "remaining_tasks i estimate = sub64 (estimated_tasks i estimate) (io_tasks_completed i)"

definition PrintTraversalProgress :: "string \<Rightarrow> InventoryObservation \<Rightarrow> nat option \<Rightarrow> real \<Rightarrow> message list" where
  "PrintTraversalProgress name i layout_entry_estimate elapsed =
     Msg ''{}: {} directories, {} object(s), {} stream(s), {}{} logical stream byte(s) observed; {} work item(s) not completed; {} operation failure(s)''
       [Str name, N (io_directories i), N (io_objects i), N (io_streams i), Str (SaturationPrefix (io_stream_bytes i)),
        N (io_stream_bytes i), N (not_completed i), N (io_failures i)] #
     (if elapsed > 0 \<and> not_completed i \<noteq> 0
      then [Msg ''Average traversal rate: {:.2f} directories/s, {:.2f} object(s)/s, {}{:.2f} logical stream MiB observed/s''
              [Fixed (real (io_directories i) / elapsed), Fixed (real (io_objects i) / elapsed),
               Str (SaturationPrefix (io_stream_bytes i)), Fixed (real (io_stream_bytes i) / (1024 * 1024 * elapsed))]]
      else []) @
     (case layout_entry_estimate of
        None \<Rightarrow> []
      | Some estimate \<Rightarrow>
          if elapsed \<le> 0 \<or> io_tasks_completed i = 0 \<or> not_completed i = 0 then []
          else
            let tasks_per_second = real (io_tasks_completed i) / elapsed
            in [Msg ''Approximate layout-based progress: {:.2f}% against a working estimate of {} work item(s); ETA {:.1f} minute(s) at the current average rate''
                  [Fixed (Percentage (io_tasks_completed i) (estimated_tasks i estimate)), N (estimated_tasks i estimate),
                   Fixed (real (remaining_tasks i estimate) / (tasks_per_second * 60))]])"

text \<open>The exit status of a failure: the code of a system error, if it has one, and else \<open>EXIT_FAILURE\<close>.\<close>

definition EXIT_FAILURE :: int where "EXIT_FAILURE = 1"
definition EXIT_SUCCESS :: int where "EXIT_SUCCESS = 0"

definition PrintVerificationFailure :: "string \<Rightarrow> error \<Rightarrow> message list \<times> int" where
  "PrintVerificationFailure prefix failure =
     ([Msg ''{}{}'' [Str prefix, What failure]],
      case failure of SystemError code _ \<Rightarrow> if code \<noteq> 0 then int code else EXIT_FAILURE | _ \<Rightarrow> EXIT_FAILURE)"

text \<open>\<open>seconds\<close> gives the seconds since a point of the clock.\<close>

definition print_job_progress :: "(nat \<Rightarrow> real) \<Rightarrow> VolumeJob \<Rightarrow> message list" where
  "print_job_progress seconds job =
     (let observation = vs_observation (vj_state job)
      in [Msg ''Volume ID: {}'' [Guid (vj_volume_identifier job)], Msg ''Phase: {}'' [Str (PhaseName (vo_phase observation))]] @
         (case vo_traversal_started observation of
            None \<Rightarrow> []
          | Some started \<Rightarrow>
              let elapsed = (if vo_traversal_complete observation then 0 else seconds started)
              in Msg ''Namespace traversal:'' [] #
                 PrintTraversalProgress ''Synthetic'' (vo_synthetic observation) (vo_layout_entry_estimate observation) elapsed @
                 PrintTraversalProgress ''Real B'' (vo_real observation) (vo_layout_entry_estimate observation) elapsed @
                 (if vo_traversal_complete observation
                  then [Msg ''Namespace traversal completed on both views.'' []] else [])) @
         (if vo_plan_ready observation
          then [Msg ''Selected content: {} of {} bytes ({:.2f}% actual) Compared: {} bytes ({:.2f}% of selection)''
                  [N (vo_selected_bytes observation), N (vo_available_bytes observation),
                   Fixed (Percentage (vo_selected_bytes observation) (vo_available_bytes observation)),
                   N (vo_compared_bytes observation),
                   Fixed (Percentage (vo_compared_bytes observation) (vo_selected_bytes observation))]]
          else []) @
         (case vo_comparison_started observation of
            None \<Rightarrow> []
          | Some started \<Rightarrow>
              [Msg ''Comparison rate: {:.2f} MiB/s''
                 [Fixed (if seconds started = 0 then 0
                         else real (vo_compared_bytes observation) / (1024 * 1024 * seconds started))]]) @
         [Msg ''Mismatches observed: {} VSS exclusions observed: {} Matched filesystem errors: {}''
            [N (vo_mismatch_count observation), N (vo_exclusion_count observation), N (vo_matched_error_count observation)]] @
         (case vo_failure observation of
            None \<Rightarrow> []
          | Some failure \<Rightarrow> fst (PrintVerificationFailure ''Verification failure: '' failure)))"

definition PrintProgress :: "(nat \<Rightarrow> real) \<Rightarrow> VolumeJob list \<Rightarrow> message list" where
  "PrintProgress seconds jobs =
     Msg ''Filesystem verification progress:'' [] # concat (map (print_job_progress seconds) jobs)"

section \<open>Final results\<close>

record final_counts =
  fc_error_exit_status :: int
  fc_verified :: nat
  fc_sample_verified :: nat
  fc_mismatched :: nat
  fc_error_volumes :: nat
  fc_incomplete :: nat
  fc_cleanup_failed :: nat
  fc_matched_error_volumes :: nat
  fc_exclusion_volumes :: nat

definition final_counts_start :: final_counts where
  "final_counts_start = \<lparr>fc_error_exit_status = EXIT_FAILURE, fc_verified = 0, fc_sample_verified = 0, fc_mismatched = 0,
     fc_error_volumes = 0, fc_incomplete = 0, fc_cleanup_failed = 0, fc_matched_error_volumes = 0, fc_exclusion_volumes = 0\<rparr>"

datatype volume_status = MismatchStatus bool | IncompleteStatus | SampleVerified | Verified

definition status_of :: "VerificationObservation \<Rightarrow> volume_status" where
  "status_of o1 =
     (if vo_mismatch_count o1 \<noteq> 0 then MismatchStatus (vo_comparison_complete o1)
      else if \<not> vo_comparison_complete o1 then IncompleteStatus
      else if vo_selected_bytes o1 \<noteq> vo_available_bytes o1 then SampleVerified
      else Verified)"

fun status_line :: "real \<Rightarrow> volume_status \<Rightarrow> message" where
  "status_line percentage (MismatchStatus True) = Msg ''Status: MISMATCH'' []"
| "status_line percentage (MismatchStatus False) = Msg ''Status: MISMATCH; comparison incomplete'' []"
| "status_line percentage IncompleteStatus = Msg ''Status: INCOMPLETE'' []"
| "status_line percentage SampleVerified = Msg ''Status: SAMPLE VERIFIED ({:.2f}% requested)'' [Fixed percentage]"
| "status_line percentage Verified = Msg ''Status: VERIFIED'' []"

fun count_status :: "volume_status \<Rightarrow> final_counts \<Rightarrow> final_counts" where
  "count_status (MismatchStatus _) c = c\<lparr>fc_mismatched := fc_mismatched c + 1\<rparr>"
| "count_status IncompleteStatus c = c\<lparr>fc_incomplete := fc_incomplete c + 1\<rparr>"
| "count_status SampleVerified c = c\<lparr>fc_sample_verified := fc_sample_verified c + 1\<rparr>"
| "count_status Verified c = c\<lparr>fc_verified := fc_verified c + 1\<rparr>"

text \<open>The first status that is not \<open>EXIT_FAILURE\<close> is kept.\<close>

definition count_failure :: "int \<Rightarrow> final_counts \<Rightarrow> final_counts" where
  "count_failure code c = c\<lparr>fc_error_volumes := fc_error_volumes c + 1,
     fc_error_exit_status := (if fc_error_exit_status c = EXIT_FAILURE \<and> code \<noteq> EXIT_FAILURE then code
                              else fc_error_exit_status c)\<rparr>"

definition count_job :: "VolumeJob \<Rightarrow> final_counts \<Rightarrow> final_counts" where
  "count_job job c =
     (let o1 = vs_observation (vj_state job);
          c1 = (if vo_matched_error_count o1 \<noteq> 0 then c\<lparr>fc_matched_error_volumes := fc_matched_error_volumes c + 1\<rparr> else c);
          c2 = (if vo_exclusion_count o1 \<noteq> 0 then c1\<lparr>fc_exclusion_volumes := fc_exclusion_volumes c1 + 1\<rparr> else c1);
          c3 = count_status (status_of o1) c2;
          c4 = (case vo_failure o1 of
                  None \<Rightarrow> c3
                | Some failure \<Rightarrow> count_failure (snd (PrintVerificationFailure ''Failure: '' failure)) c3)
      in if vo_cleanup_failures o1 \<noteq> [] then c4\<lparr>fc_cleanup_failed := fc_cleanup_failed c4 + 1\<rparr> else c4)"

definition print_job_results :: "VolumeJob \<Rightarrow> message list" where
  "print_job_results job =
     (let o1 = vs_observation (vj_state job); volume = vj_volume_identifier job; state = vj_state job
      in [Msg ''Volume ID: {}'' [Guid volume], status_line (vj_percentage job) (status_of o1)] @
         (case vo_failure o1 of None \<Rightarrow> [] | Some failure \<Rightarrow> fst (PrintVerificationFailure ''Failure: '' failure)) @
         [Msg ''Synthetic namespace: {} directories, {} object(s), {} stream(s), {}{} logical stream byte(s) observed, {} operation failure(s) Real-B namespace: {} directories, {} object(s), {} stream(s), {}{} logical stream byte(s) observed, {} operation failure(s)''
            [N (io_directories (vo_synthetic o1)), N (io_objects (vo_synthetic o1)), N (io_streams (vo_synthetic o1)),
             Str (SaturationPrefix (io_stream_bytes (vo_synthetic o1))), N (io_stream_bytes (vo_synthetic o1)), N (io_failures (vo_synthetic o1)),
             N (io_directories (vo_real o1)), N (io_objects (vo_real o1)), N (io_streams (vo_real o1)),
             Str (SaturationPrefix (io_stream_bytes (vo_real o1))), N (io_stream_bytes (vo_real o1)), N (io_failures (vo_real o1))]] @
         (if vo_plan_ready o1
          then [Msg ''Content available: {} bytes Content selected: {} bytes ({:.2f}%) Content compared: {} bytes ({:.2f}% of selection)''
                  [N (vo_available_bytes o1), N (vo_selected_bytes o1), Fixed (Percentage (vo_selected_bytes o1) (vo_available_bytes o1)),
                   N (vo_compared_bytes o1), Fixed (Percentage (vo_compared_bytes o1) (vo_selected_bytes o1))]]
          else [Msg ''Content comparison was not reached.'' []]) @
         [Msg ''Mismatches: {} VSS exclusions: {} Matched filesystem errors: {}''
            [N (vo_mismatch_count o1), N (vo_exclusion_count o1), N (vo_matched_error_count o1)]] @
         map (\<lambda>failure. Msg ''Cleanup failure: {}'' [Str failure]) (vo_cleanup_failures o1) @
         concat (map (PrintMismatch volume) (vs_mismatches state)) @
         concat (map (PrintOperationComparison volume) (filter (\<lambda>c. \<not> IsMatchedError c) (vs_operation_comparison_records state))) @
         concat (map (PrintOperationComparison volume) (filter IsMatchedError (vs_operation_comparison_records state))))"

definition PrintFinalResults :: "VolumeJob list \<Rightarrow> nat \<Rightarrow> nat \<Rightarrow> message list \<times> int" where
  "PrintFinalResults jobs optimization_unavailable preparation_failures =
     (let c = fold count_job jobs final_counts_start
      in (Msg ''Filesystem verification results:'' [] # concat (map print_job_results jobs) @
          [Msg ''Summary: {} verified, {} sample verified, {} mismatched, {} volume(s) with errors, {} incomplete, {} volume(s) with VSS exclusions, {} volume(s) with matched filesystem errors, {} volume(s) optimization unavailable, {} view-preparation failure(s), and {} cleanup-failure volume(s).''
             [N (fc_verified c), N (fc_sample_verified c), N (fc_mismatched c), N (fc_error_volumes c), N (fc_incomplete c),
              N (fc_exclusion_volumes c), N (fc_matched_error_volumes c), N optimization_unavailable,
              N preparation_failures, N (fc_cleanup_failed c)]],
          if fc_error_volumes c \<noteq> 0 \<or> fc_mismatched c \<noteq> 0 \<or> preparation_failures \<noteq> 0 \<or> fc_incomplete c \<noteq> 0 \<or>
             fc_cleanup_failed c \<noteq> 0
          then fc_error_exit_status c else EXIT_SUCCESS))"

section \<open>Waiting for the jobs\<close>

text \<open>
  The reply of \<open>CancelSynchronousIo\<close> for each registered thread, 0 for success; the
  first error other than \<open>ERROR_NOT_FOUND\<close> is returned.
\<close>

definition CancelPending :: "nat list \<Rightarrow> nat" where
  "CancelPending replies = fold (\<lambda>reply result. if reply = 0 then result
     else if reply \<noteq> 1168 \<and> result = 0 then reply else result) replies 0"

definition RequestPendingIoCancellation :: "nat list \<Rightarrow> nat \<Rightarrow> message list \<times> nat" where
  "RequestPendingIoCancellation replies first_failure =
     (let err = CancelPending replies
      in if err = 0 \<or> first_failure \<noteq> 0 then ([], first_failure)
         else ([Msg ''Failed to interrupt pending filesystem-verification I/O: {}'' [WinErr err]], err))"

text \<open>
  One round of the waiting loop: the state of the event, the replies to the
  cancellation, the time and the states of the jobs that the round observes.
\<close>

record round =
  ro_signaled :: bool
  ro_replies :: "nat list"
  ro_now :: nat
  ro_states :: "VerificationState list"

definition observe_jobs :: "VerificationState list \<Rightarrow> VolumeJob list \<Rightarrow> VolumeJob list" where
  "observe_jobs states jobs = map2 (\<lambda>st job. job\<lparr>vj_state := st\<rparr>) states jobs"

definition kProgressReportInterval :: nat where "kProgressReportInterval = 60000"

fun wait_rounds :: "(nat \<Rightarrow> nat \<Rightarrow> real) \<Rightarrow> round list \<Rightarrow> nat \<Rightarrow> nat \<Rightarrow> VolumeJob list \<Rightarrow> message list \<times> VolumeJob list" where
  "wait_rounds seconds [] next_progress cancellation_failure jobs = ([], jobs)"
| "wait_rounds seconds (r # rs) next_progress cancellation_failure jobs =
     (let (msgs1, failure1) = (if ro_signaled r then RequestPendingIoCancellation (ro_replies r) cancellation_failure
                               else ([], cancellation_failure));
          jobs1 = observe_jobs (ro_states r) jobs
      in if next_progress \<le> ro_now r then
           let (msgs2, jobs2) = PrintNewMismatches jobs1;
               (msgs3, jobs3) = wait_rounds seconds rs (ro_now r + kProgressReportInterval) failure1 jobs2
           in (msgs1 @ msgs2 @ PrintProgress (seconds (ro_now r)) jobs2 @ msgs3, jobs3)
         else
           let (msgs3, jobs3) = wait_rounds seconds rs next_progress failure1 jobs1
           in (msgs1 @ msgs3, jobs3))"

text \<open>The rounds are those before the jobs are ready; \<open>finals\<close> are the states of the finished jobs.\<close>

definition FinishVerification ::
    "(nat \<Rightarrow> nat \<Rightarrow> real) \<Rightarrow> nat \<Rightarrow> round list \<Rightarrow> VerificationState list \<Rightarrow> VolumeJob list \<Rightarrow> nat \<Rightarrow> nat \<Rightarrow> message list \<times> int" where
  "FinishVerification seconds start rounds finals jobs optimization_unavailable preparation_failures =
     (let (msgs, jobs1) = wait_rounds seconds rounds (start + kProgressReportInterval) 0 jobs;
          (msgs1, status) = PrintFinalResults (observe_jobs finals jobs1) optimization_unavailable preparation_failures
      in (msgs @ msgs1, status))"

section \<open>The optional estimate\<close>

text \<open>
  One attempt to count the layout entries of a volume: whether it opens, the entries of
  each batch, the error that ends the enumeration, and the time after it.
\<close>

record layout_attempt =
  la_open :: "nat option"
  la_batches :: "nat list"
  la_error :: nat
  la_now :: nat

abbreviation (input) ERROR_HANDLE_EOF :: nat where "ERROR_HANDLE_EOF \<equiv> 38"

fun count_batches :: "nat list \<Rightarrow> nat \<Rightarrow> nat \<Rightarrow> cancellation \<Rightarrow> (nat + nat) \<times> cancellation" where
  "count_batches [] err count1 cancel =
     (case event_is_signaled cancel of (cancelled, cancel1) \<Rightarrow>
        (if cancelled then Inl ERROR_CANCELLED else if err = ERROR_HANDLE_EOF then Inr count1 else Inl err, cancel1))"
| "count_batches (n # ns) err count1 cancel =
     (case event_is_signaled cancel of (cancelled, cancel1) \<Rightarrow>
        if cancelled then (Inl ERROR_CANCELLED, cancel1) else count_batches ns err (add64 count1 n) cancel1)"

definition query_once :: "layout_attempt \<Rightarrow> cancellation \<Rightarrow> (nat + nat) \<times> cancellation" where
  "query_once a cancel =
     (case event_is_signaled cancel of (cancelled, cancel1) \<Rightarrow>
        if cancelled then (Inl ERROR_CANCELLED, cancel1)
        else case la_open a of
            Some err \<Rightarrow> (Inl err, cancel1)
          | None \<Rightarrow> count_batches (la_batches a) (la_error a) 0 cancel1)"

text \<open>
  The attempts are repeated until one succeeds, the event is signalled, or an attempt
  ends after the deadline; each failed one before that is followed by a wait for the event.
\<close>

fun retry_estimate ::
    "string \<Rightarrow> guid \<Rightarrow> layout_attempt list \<Rightarrow> nat option \<Rightarrow> cancellation \<Rightarrow> nat option \<times> message list \<times> cancellation" where
  "retry_estimate name volume [] deadline cancel = (None, [], cancel)"
| "retry_estimate name volume (a # rest) deadline cancel =
     (case query_once a cancel of
        (Inr count1, cancel1) \<Rightarrow>
          (Some count1, [Msg ''Completed optional {} layout count for volume {}: {} entries. This count is used only for approximate traversal progress and ETA.''
             [Str name, Guid volume, N count1]], cancel1)
      | (Inl err, cancel1) \<Rightarrow>
          (case event_is_signaled cancel1 of (cancelled, cancel2) \<Rightarrow>
            if cancelled then (None, [], cancel2)
            else
              let again = (\<lambda>msgs deadline1.
                    case event_is_signaled cancel2 of (cancelled1, cancel3) \<Rightarrow>
                      if cancelled1 then (None, msgs, cancel3)
                      else case retry_estimate name volume rest (Some deadline1) cancel3 of
                             (result, msgs1, cancel4) \<Rightarrow> (result, msgs @ msgs1, cancel4))
              in case deadline of
                   None \<Rightarrow> again [Msg ''The optional {} layout count for volume {} returned {}; complete attempts will be retried for approximately {} seconds.''
                     [Str name, Guid volume, WinErr err, N 10]] (la_now a + 10000)
                 | Some d \<Rightarrow>
                     if d \<le> la_now a
                     then (None, [Msg ''The optional {} layout count for volume {} remained unavailable after retries ({}). This does not affect the verification result.''
                       [Str name, Guid volume, WinErr err]], cancel2)
                     else again [] d))"

definition TryEstimateTraversalLayoutEntries ::
    "string \<Rightarrow> guid \<Rightarrow> layout_attempt list \<Rightarrow> cancellation \<Rightarrow> nat option \<times> message list \<times> cancellation" where
  "TryEstimateTraversalLayoutEntries name volume attempts cancel =
     (case retry_estimate name volume attempts None cancel of (result, msgs, cancel1) \<Rightarrow>
        (result, Msg ''Obtaining an optional {} layout-entry estimate for volume {} for traversal progress and ETA.''
           [Str name, Guid volume] # msgs, cancel1))"

text \<open>The estimate of the real view and, without one, of the synthetic view; an exception is reported and dropped.\<close>

definition PublishTraversalLayoutEstimate ::
    "guid \<Rightarrow> error option \<Rightarrow> layout_attempt list \<Rightarrow> layout_attempt list \<Rightarrow> cancellation \<Rightarrow> VerificationState \<Rightarrow>
     message list \<times> VerificationState" where
  "PublishTraversalLayoutEstimate volume thrown1 real_attempts synthetic_attempts cancel state =
     (case thrown1 of
        Some err \<Rightarrow>
          ([Msg ''The optional layout count failed for volume {}. This does not affect the verification result.'' [Guid volume],
            Msg ''Failure: {}'' [What err]], state)
      | None \<Rightarrow>
          (case TryEstimateTraversalLayoutEntries ''real-B'' volume real_attempts cancel of
             (Some n, msgs, _) \<Rightarrow> (msgs, SetTraversalEstimate n state)
           | (None, msgs, cancel1) \<Rightarrow>
               (case event_is_signaled cancel1 of (cancelled, cancel2) \<Rightarrow>
                 let (estimate, msgs1, cancel3) =
                   (if cancelled then (None, [], cancel2)
                    else case TryEstimateTraversalLayoutEntries ''synthetic'' volume synthetic_attempts cancel2 of
                           (estimate, msgs1, cancel3) \<Rightarrow>
                             (estimate, Msg ''Trying the synthetic view for volume {} because the real-B view supplied no complete layout count.''
                                [Guid volume] # msgs1, cancel3))
                 in case estimate of
                      Some n \<Rightarrow> (msgs @ msgs1, SetTraversalEstimate n state)
                    | None \<Rightarrow>
                        if fst (event_is_signaled cancel3) then (msgs @ msgs1, state)
                        else (msgs @ msgs1 @ [Msg ''No complete layout count is available for volume {}; ordinary traversal will continue without a percentage or ETA.''
                               [Guid volume]], state))))"

section \<open>Entry points\<close>

text \<open>The system's path resolution, the conversion of text, the parser of identifiers and the error of a failed one.\<close>

record mount_system =
  ms_absolute :: "wstring \<Rightarrow> wstring"
  ms_volume_of :: "wstring \<Rightarrow> wstring result"
  ms_transcode :: "wstring \<Rightarrow> string"
  ms_iid :: "string \<Rightarrow> int + guid"
  ms_hresult :: "int \<Rightarrow> error"

definition MountedVolumeRoot :: "mount_system \<Rightarrow> wstring \<Rightarrow> wstring result" where
  "MountedVolumeRoot M mount =
     (let path = ms_absolute M mount; path1 = (if path \<noteq> [] \<and> last path = 92 then path else path @ [92])
      in ms_volume_of M path1)"

text \<open>What waiting for the jobs observes: the clock, the rounds and the failures to launch or to obtain privileges.\<close>

record run_environment =
  re_seconds :: "nat \<Rightarrow> nat \<Rightarrow> real"
  re_start :: nat
  re_rounds :: "round list"
  re_privileges :: "error option"
  re_launch :: "guid \<Rightarrow> error option"

definition finish_jobs :: "run_environment \<Rightarrow> (message list \<times> VolumeJob) list \<Rightarrow> nat \<Rightarrow> nat \<Rightarrow> message list \<times> int" where
  "finish_jobs env started optimization_unavailable preparation_failures =
     (let (msgs, status) = FinishVerification (re_seconds env) (re_start env) (re_rounds env) (map (vj_state \<circ> snd) started)
            (map snd started) optimization_unavailable preparation_failures
      in (concat (map fst started) @ msgs, status))"

definition VerifyMountedFilesystems ::
    "mount_system \<Rightarrow> run_environment \<Rightarrow> 'g volume_run \<Rightarrow> wstring \<Rightarrow> wstring \<Rightarrow> real \<Rightarrow> cancellation \<Rightarrow>
     (message list \<times> int) result" where
  "VerifyMountedFilesystems M env V synthetic_mount real_mount percentage cancel =
     (case event_is_signaled cancel of (cancelled, cancel1) \<Rightarrow>
        if cancelled then Inr ([], int ERROR_CANCELLED)
        else ebind (MountedVolumeRoot M synthetic_mount) (\<lambda>synthetic_root.
          ebind (MountedVolumeRoot M real_mount) (\<lambda>real_root.
          ebind (ParseVolumeGuid (ms_iid M) (ms_transcode M real_root)) (\<lambda>identifier.
            case identifier of
              Inl code \<Rightarrow> Inl (ms_hresult M code)
            | Inr volume \<Rightarrow>
                (case re_privileges env of
                   Some err \<Rightarrow> Inl err
                 | None \<Rightarrow> Inr (finish_jobs env
                     [StartVerification (re_launch env volume) volume percentage (\<lambda>state.
                        case compare_roots V volume volume synthetic_root real_root percentage cancel1 state of
                          (None, msgs, state1) \<Rightarrow> (None, msgs, SetPhase Complete state1)
                        | failed \<Rightarrow> failed)] 0 0))))))"

definition new_job :: "real \<Rightarrow> FilesystemVerificationVolume \<Rightarrow> VolumeJob" where
  "new_job percentage volume = \<lparr>vj_volume_identifier = fv_volume_identifier volume, vj_percentage = percentage,
     vj_state = VerificationState_new, vj_operation = None, vj_printed_mismatches = 0, vj_printed_operation_comparisons = 0\<rparr>"

text \<open>Each job polls the event on its own; \<open>views\<close> is what verifying each volume observes and how often its polls find the event unsignalled.\<close>

definition VerifyFilesystemViews ::
    "run_environment \<Rightarrow> (FilesystemVerificationVolume \<Rightarrow> 'g volume_run \<times> cancellation) \<Rightarrow>
     FilesystemVerificationVolume list \<Rightarrow> real \<Rightarrow> nat \<Rightarrow> nat \<Rightarrow> cancellation \<Rightarrow> (message list \<times> int) result" where
  "VerifyFilesystemViews env views volumes percentage optimization_unavailable preparation_failures cancel =
     (if volumes = [] then Inr (PrintFinalResults [] optimization_unavailable preparation_failures)
      else if fst (event_is_signaled cancel)
      then Inr (PrintFinalResults (map (new_job percentage) volumes) optimization_unavailable preparation_failures)
      else case re_privileges env of
          Some err \<Rightarrow> Inl err
        | None \<Rightarrow> Inr (finish_jobs env
            (map (\<lambda>volume. StartVerification (re_launch env (fv_volume_identifier volume)) (fv_volume_identifier volume)
               percentage (VerifyVolume (fst (views volume)) volume percentage (snd (views volume)))) volumes)
            optimization_unavailable preparation_failures))"

section \<open>The inventory of one image\<close>

text \<open>
  What an inventory of an image observes: the process that serves it, the
  attachment, the traversal and its counters, and at the end whether the process still runs.
\<close>

record inventory_run =
  iv_start :: start_replies
  iv_view_path :: string
  iv_now :: nat
  iv_polls :: "ready_poll list"
  iv_privileges :: "error option"
  iv_attach :: "wstring result"
  iv_detach :: nat
  iv_traversal_started :: nat
  iv_inventory :: "FilesystemInventory option result"
  iv_seen :: InventoryObservation
  iv_rounds :: "round list"
  iv_finished :: nat
  iv_process_exited :: bool
  iv_wait_any :: "nat \<times> nat"
  iv_stopped :: "bool \<times> nat option"

definition inventory_request :: "string \<Rightarrow> string \<Rightarrow> DeviceFsStartRequest" where
  "inventory_request device path =
     \<lparr>rq_sources = [\<lparr>ds_name = ''device.vhdx'', ds_source = device\<rparr>], rq_inherited_handles = [],
      rq_mount_target = path, rq_read_user = None, rq_rpc_endpoint = None, rq_rpc_password = None,
      rq_vhdx = True, rq_expose_known_data_map = False\<rparr>"

text \<open>The asynchronous operation: its exception, its messages and the state it leaves.\<close>

definition inventory_operation ::
    "inventory_run \<Rightarrow> string \<Rightarrow> string \<Rightarrow> VerificationState \<Rightarrow> error option \<times> message list \<times> VerificationState" where
  "inventory_operation I device vhdx_path state =
     (let (msgs1, view) = AttachedVhdx_Attach (iv_attach I) ''requested device''
      in case view of
           Inl err \<Rightarrow> (Some err, msgs1, SetPhase Complete state)
         | Inr root1 \<Rightarrow>
             let state1 = update_inventory Synthetic (\<lambda>_. iv_seen I) (BeginTraversal (iv_traversal_started I) state);
                 msgs2 = [Msg ''Beginning VHDX filesystem inventory: Source device: {} VHDX file: {} Attached volume: {} Traversal workers: {}''
                    [Str device, Str vhdx_path, Wide root1, N kVerificationWorkerCount]];
                 (err, msgs3, state2) =
                   (case iv_inventory I of
                      Inl err \<Rightarrow> (Some err, [], state1)
                    | Inr None \<Rightarrow> (Some (SystemError ERROR_CANCELLED ''VHDX filesystem inventory was cancelled''), [], state1)
                    | Inr (Some inventory) \<Rightarrow>
                        (None, map (\<lambda>issue1. Msg ''VHDX inventory failure: {} failed for '' [Str (OperationName (ik_operation (is_key issue1))),
                            Wide (DisplayPath (ik_path (is_key issue1))), WinErr (of_error (is_failure issue1))])
                            (fi_issues inventory), CompleteTraversal state1));
                 (msgs4, state3) = AttachedVhdx_destroy (iv_detach I) ''requested device'' root1 state2
             in (err, msgs1 @ msgs2 @ msgs3 @ msgs4, SetPhase Complete state3))"

definition inventory_elapsed :: "(nat \<Rightarrow> nat \<Rightarrow> real) \<Rightarrow> nat \<Rightarrow> VerificationObservation \<Rightarrow> real" where
  "inventory_elapsed seconds now o1 = (case vo_traversal_started o1 of Some started \<Rightarrow> seconds now started | None \<Rightarrow> 0)"

fun inventory_rounds :: "(nat \<Rightarrow> nat \<Rightarrow> real) \<Rightarrow> round list \<Rightarrow> nat \<Rightarrow> nat \<Rightarrow> message list" where
  "inventory_rounds seconds [] next_progress cancellation_failure = []"
| "inventory_rounds seconds (r # rs) next_progress cancellation_failure =
     (let (msgs1, failure1) = (if ro_signaled r then RequestPendingIoCancellation (ro_replies r) cancellation_failure
                               else ([], cancellation_failure))
      in if next_progress \<le> ro_now r
         then
           let o1 = vs_observation (hd (ro_states r))
           in msgs1 @ Msg ''VHDX inventory progress:'' [] #
              PrintTraversalProgress ''Requested device'' (vo_synthetic o1) None (inventory_elapsed seconds (ro_now r) o1) @
              inventory_rounds seconds rs (ro_now r + kProgressReportInterval) failure1
         else msgs1 @ inventory_rounds seconds rs next_progress failure1)"

text \<open>
  A failed inventory keeps the image available until the user interrupts, and
  then returns 1 or throws the failure on.
\<close>

definition preserve_for_manual_mount ::
    "inventory_run \<Rightarrow> string \<Rightarrow> out_arg \<Rightarrow> error option \<Rightarrow> cancellation \<Rightarrow> message list \<times> int result" where
  "preserve_for_manual_mount I vhdx_path text1 failure cancel =
     (Msg ''Automatic VHDX inventory failed: {}'' [text1] #
      (if \<not> fst (event_is_signaled cancel) \<and> \<not> iv_process_exited I
       then Msg ''The VHDX remains available for manual mounting: VHDX file: {} After unmounting any manual attachment, press Ctrl+C to stop devicefs.''
              [Str vhdx_path] #
            (case WaitForDeviceFsExitOrCancellation (fst (iv_wait_any I)) [snd (iv_wait_any I)] of
               Some exited \<Rightarrow> [Msg ''devicefs exited with code {}.'' [N (de_exit_code exited)]]
             | None \<Rightarrow> [])
       else []),
      case failure of None \<Rightarrow> Inr 1 | Some err \<Rightarrow> Inl err)"

definition inventory_result ::
    "inventory_run \<Rightarrow> (nat \<Rightarrow> nat \<Rightarrow> real) \<Rightarrow> string \<Rightarrow> string \<Rightarrow> cancellation \<Rightarrow> message list \<times> int result" where
  "inventory_result I seconds device vhdx_path cancel =
     (let (err, msgs, state) = inventory_operation I device vhdx_path VerificationState_new;
          progress = inventory_rounds seconds (iv_rounds I) (iv_now I + kProgressReportInterval) 0;
          o1 = vs_observation state;
          summary = Msg ''VHDX inventory {}:'' [Str (if vo_traversal_complete o1 then ''complete'' else ''incomplete'')] #
            PrintTraversalProgress ''Requested device'' (vo_synthetic o1) None (inventory_elapsed seconds (iv_finished I) o1) @
            map (\<lambda>failure. Msg ''Cleanup failure: {}'' [Str failure]) (vo_cleanup_failures o1);
          (msgs1, result) =
            (case err of
               Some e \<Rightarrow> preserve_for_manual_mount I vhdx_path (What e) (Some e) cancel
             | None \<Rightarrow>
                 if io_failures (vo_synthetic o1) \<noteq> 0
                 then preserve_for_manual_mount I vhdx_path (Str ''filesystem traversal reported errors'') None cancel
                 else ([], Inr (if vo_cleanup_failures o1 = [] then 0 else 1)))
      in (msgs @ progress @ summary @ msgs1, result))"

definition InventoryVhdx ::
    "inventory_run \<Rightarrow> (nat \<Rightarrow> nat \<Rightarrow> real) \<Rightarrow> string \<Rightarrow> cancellation \<Rightarrow> (message list \<times> int result) option" where
  "InventoryVhdx I seconds device cancel =
     (case StartDeviceFs (iv_start I) (inventory_request device (iv_view_path I)) of
        (msgs, Inl err) \<Rightarrow> Some (msgs, Inl err)
      | (msgs, Inr process) \<Rightarrow>
          let child = DeviceFsChild_new process False;
              finish = (\<lambda>(msgs1, result). (msgs @ msgs1 @ fst (DeviceFsChild_destroy (fst (iv_stopped I)) (snd (iv_stopped I)) child), result))
          in case WaitForDeviceFs (iv_now I) (iv_polls I) cancel of
               None \<Rightarrow> None
             | Some (Inl err) \<Rightarrow> Some (finish ([], Inl err))
             | Some (Inr False) \<Rightarrow> Some (finish ([], Inr (int ERROR_CANCELLED)))
             | Some (Inr True) \<Rightarrow>
                 (case iv_privileges I of
                    Some err \<Rightarrow> Some (finish ([], Inl err))
                  | None \<Rightarrow> Some (finish (inventory_result I seconds device (dp_readiness_path process) cancel))))"

text \<open>The exit status is zero exactly for a complete inventory without failures and with a clean detachment.\<close>

lemma inventory_status:
  "snd (inventory_result I seconds device path cancel) = Inr 0 \<longleftrightarrow>
   (\<exists>root1 inventory. iv_attach I = Inr root1 \<and> iv_inventory I = Inr (Some inventory) \<and> io_failures (iv_seen I) = 0 \<and> iv_detach I = 0)"
  by (auto simp: inventory_result_def inventory_operation_def AttachedVhdx_Attach_def AttachedVhdx_destroy_def Let_def
      preserve_for_manual_mount_def observation_ops VerificationState_new_def RecordCleanupFailure_def update_observation_def
      split: sum.splits option.splits)

section \<open>The exit status\<close>

text \<open>A volume whose comparison completed without mismatch, failure and cleanup failure.\<close>

definition job_good :: "VolumeJob \<Rightarrow> bool" where
  "job_good job \<longleftrightarrow> (let o1 = vs_observation (vj_state job) in
     vo_comparison_complete o1 \<and> vo_mismatch_count o1 = 0 \<and> vo_failure o1 = None \<and> vo_cleanup_failures o1 = [])"

definition troubles :: "final_counts \<Rightarrow> nat" where
  "troubles c = fc_error_volumes c + fc_mismatched c + fc_incomplete c + fc_cleanup_failed c"

lemma count_job_spec:
  "troubles (count_job job c) = 0 \<longleftrightarrow> troubles c = 0 \<and> job_good job"
  "fc_error_exit_status c \<noteq> 0 \<Longrightarrow> fc_error_exit_status (count_job job c) \<noteq> 0"
  by (auto simp: count_job_def job_good_def Let_def status_of_def count_failure_def PrintVerificationFailure_def
      EXIT_FAILURE_def troubles_def split: option.splits error.splits)

lemma fold_count_job:
  "(troubles (fold count_job jobs c) = 0 \<longleftrightarrow> troubles c = 0 \<and> list_all job_good jobs) \<and>
   (fc_error_exit_status c \<noteq> 0 \<longrightarrow> fc_error_exit_status (fold count_job jobs c) \<noteq> 0)"
proof (induction jobs arbitrary: c)
  case (Cons job jobs)
  then show ?case using count_job_spec [where job = job and c = c] by auto
qed simp

theorem final_status:
  "snd (PrintFinalResults jobs optimization_unavailable preparation_failures) = EXIT_SUCCESS \<longleftrightarrow>
   preparation_failures = 0 \<and> list_all job_good jobs"
proof -
  let ?c = "fold count_job jobs final_counts_start"
  have start: "troubles final_counts_start = 0" "fc_error_exit_status final_counts_start \<noteq> 0"
    by (simp_all add: troubles_def final_counts_start_def EXIT_FAILURE_def)
  have "troubles ?c = 0 \<longleftrightarrow> list_all job_good jobs" "fc_error_exit_status ?c \<noteq> 0"
    using fold_count_job [of jobs final_counts_start] start by simp_all
  then show ?thesis
    by (auto simp: PrintFinalResults_def Let_def EXIT_SUCCESS_def troubles_def)
qed

section \<open>Progress\<close>

definition observation_ok :: "InventoryObservation \<Rightarrow> bool" where
  "observation_ok i \<longleftrightarrow> io_tasks_discovered i < two64 \<and> io_tasks_completed i < two64"

theorem progress_remaining:
  assumes "observation_ok i" "estimate < two64"
  shows "io_tasks_completed i \<le> estimated_tasks i estimate"
    and "remaining_tasks i estimate = estimated_tasks i estimate - io_tasks_completed i"
    and "not_completed i \<le> remaining_tasks i estimate"
proof -
  have b: "io_tasks_completed i \<le> estimated_tasks i estimate" "estimated_tasks i estimate < two64"
    using assms by (auto simp: estimated_tasks_def observation_ok_def Let_def)
  then show "io_tasks_completed i \<le> estimated_tasks i estimate" by simp
  show r: "remaining_tasks i estimate = estimated_tasks i estimate - io_tasks_completed i"
    using b by (simp add: remaining_tasks_def sub64_exact)
  have "not_completed i = io_tasks_discovered i - io_tasks_completed i"
    using assms(1) by (auto simp: not_completed_def observation_ok_def sub64_exact)
  moreover have "io_tasks_discovered i \<le> estimated_tasks i estimate \<or> io_tasks_discovered i \<le> io_tasks_completed i"
    by (auto simp: estimated_tasks_def Let_def)
  ultimately show "not_completed i \<le> remaining_tasks i estimate" using r b(1) by linarith
qed

section \<open>Interim reports\<close>

text \<open>
  The states that successive reports of one job observe only grow.  \<open>report_messages\<close> is what each of the
  reports prints; together they print every mismatch and every unmatched operation comparison of the last one once.
\<close>

fun report_messages :: "VolumeJob \<Rightarrow> VerificationState list \<Rightarrow> message list list" where
  "report_messages job [] = []"
| "report_messages job (st # sts) =
     (let (msgs, job1) = print_new (job\<lparr>vj_state := st\<rparr>) in msgs # report_messages job1 sts)"

fun reported :: "VolumeJob \<Rightarrow> VerificationState list \<Rightarrow> (MismatchDetail list \<times> OperationComparison list) list" where
  "reported job [] = []"
| "reported job (st # sts) =
     (fst (NewMismatches st (vj_printed_mismatches job)), fst (NewOperationComparisons st (vj_printed_operation_comparisons job))) #
       reported (snd (print_new (job\<lparr>vj_state := st\<rparr>))) sts"

text \<open>The text of a report: its mismatches and then its unmatched comparisons.\<close>

definition report_text :: "guid \<Rightarrow> MismatchDetail list \<Rightarrow> OperationComparison list \<Rightarrow> message list" where
  "report_text volume ms cs = concat (map (PrintMismatch volume) ms) @
     concat (map (PrintOperationComparison volume) (filter (\<lambda>c. \<not> IsMatchedError c) cs))"

lemma report_messages_reported:
  "list_all2 (\<lambda>(msgs, st) (ms, cs). msgs = report_text (vj_volume_identifier job) ms cs \<and> set ms \<subseteq> set (vs_mismatches st))
     (zip (report_messages job sts) sts) (reported job sts) \<and> length (report_messages job sts) = length sts"
proof (induction sts arbitrary: job)
  case (Cons st sts)
  have id: "vj_volume_identifier (snd (print_new (job\<lparr>vj_state := st\<rparr>))) = vj_volume_identifier job"
    by (simp add: print_new_def split_beta)
  have "fst (print_new (job\<lparr>vj_state := st\<rparr>)) = report_text (vj_volume_identifier job)
      (fst (NewMismatches st (vj_printed_mismatches job))) (fst (NewOperationComparisons st (vj_printed_operation_comparisons job)))"
    by (simp add: print_new_def report_text_def split_beta)
  moreover have "set (fst (NewMismatches st n)) \<subseteq> set (vs_mismatches st)" for n
    by (simp add: NewMismatches_def set_drop_subset)
  ultimately show ?case using Cons.IH [of "snd (print_new (job\<lparr>vj_state := st\<rparr>))"] by (simp add: id split_beta)
qed simp

definition extends :: "VerificationState \<Rightarrow> VerificationState \<Rightarrow> bool" where
  "extends st st' \<longleftrightarrow> (\<exists>xs. map mismatch_site (vs_mismatches st') = map mismatch_site (vs_mismatches st) @ xs) \<and>
     (\<exists>ys. vs_operation_comparison_records st' = vs_operation_comparison_records st @ ys)"

definition seen :: "VolumeJob \<Rightarrow> VerificationState \<Rightarrow> bool" where
  "seen job st \<longleftrightarrow> vj_printed_mismatches job \<le> length (vs_mismatches st) \<and>
     vj_printed_operation_comparisons job \<le> length (vs_operation_comparison_records st)"

lemma extends_drop:
  assumes "extends st st'"
  shows "map mismatch_site (vs_mismatches st') = map mismatch_site (vs_mismatches st) @ map mismatch_site (drop (length (vs_mismatches st)) (vs_mismatches st'))"
    and "vs_operation_comparison_records st' = vs_operation_comparison_records st @
      drop (length (vs_operation_comparison_records st)) (vs_operation_comparison_records st')"
    and "length (vs_mismatches st) \<le> length (vs_mismatches st')"
    and "length (vs_operation_comparison_records st) \<le> length (vs_operation_comparison_records st')"
proof -
  obtain xs ys where x: "map mismatch_site (vs_mismatches st') = map mismatch_site (vs_mismatches st) @ xs"
    and y: "vs_operation_comparison_records st' = vs_operation_comparison_records st @ ys"
    using assms unfolding extends_def by blast
  have "drop (length (vs_mismatches st)) (map mismatch_site (vs_mismatches st')) = xs" using x by simp
  then show "map mismatch_site (vs_mismatches st') = map mismatch_site (vs_mismatches st) @ map mismatch_site (drop (length (vs_mismatches st)) (vs_mismatches st'))"
    using x by (simp add: drop_map [symmetric])
  show "vs_operation_comparison_records st' = vs_operation_comparison_records st @
      drop (length (vs_operation_comparison_records st)) (vs_operation_comparison_records st')" using y by simp
  show "length (vs_mismatches st) \<le> length (vs_mismatches st')" using arg_cong [OF x, of length] by simp
  show "length (vs_operation_comparison_records st) \<le> length (vs_operation_comparison_records st')" using y by simp
qed

theorem reports_complete:
  assumes "sts \<noteq> []" "successively extends sts" "seen job (hd sts)"
  shows "map mismatch_site (concat (map fst (reported job sts))) = drop (vj_printed_mismatches job) (map mismatch_site (vs_mismatches (last sts)))"
    and "concat (map snd (reported job sts)) = drop (vj_printed_operation_comparisons job) (vs_operation_comparison_records (last sts))"
proof -
  have "map mismatch_site (concat (map fst (reported job sts))) = drop (vj_printed_mismatches job) (map mismatch_site (vs_mismatches (last sts))) \<and>
    concat (map snd (reported job sts)) = drop (vj_printed_operation_comparisons job) (vs_operation_comparison_records (last sts))"
    using assms
  proof (induction sts arbitrary: job)
    case (Cons st sts)
    let ?job = "snd (print_new (job\<lparr>vj_state := st\<rparr>))"
    have cur: "vj_printed_mismatches ?job = length (vs_mismatches st)"
      "vj_printed_operation_comparisons ?job = length (vs_operation_comparison_records st)"
      by (simp_all add: print_new_def NewMismatches_def NewOperationComparisons_def)
    have le: "vj_printed_mismatches job \<le> length (vs_mismatches st)"
      "vj_printed_operation_comparisons job \<le> length (vs_operation_comparison_records st)"
      using Cons(4) by (simp_all add: seen_def)
    show ?case
    proof (cases "sts = []")
      case True
      then show ?thesis by (simp add: NewMismatches_def NewOperationComparisons_def drop_map [symmetric])
    next
      case False
      then have st: "extends st (hd sts)" "successively extends sts" using Cons(3) by (cases sts; simp)+
      have "seen ?job (hd sts)" using extends_drop(3,4) [OF st(1)] cur by (simp add: seen_def)
      note IH = Cons(1) [OF False st(2) this, unfolded cur]
      have "\<exists>xs ys. map mismatch_site (vs_mismatches (last sts)) = map mismatch_site (vs_mismatches st) @ xs \<and>
          vs_operation_comparison_records (last sts) = vs_operation_comparison_records st @ ys"
        using False st
      proof (induction sts arbitrary: st rule: list_nonempty_induct)
        case (single x)
        then show ?case by (auto simp: extends_def)
      next
        case (cons x xs)
        then have "extends x (hd xs)" "successively extends xs" by (cases xs; simp)+
        from cons(2) [OF this] cons(1,3) show ?case by (auto simp: extends_def)
      qed
      then show ?thesis using IH le False by (auto simp: NewMismatches_def NewOperationComparisons_def split_beta drop_map [symmetric])
    qed
  qed simp
  then show "map mismatch_site (concat (map fst (reported job sts))) = drop (vj_printed_mismatches job) (map mismatch_site (vs_mismatches (last sts)))"
    "concat (map snd (reported job sts)) = drop (vj_printed_operation_comparisons job) (vs_operation_comparison_records (last sts))"
    by simp_all
qed

section \<open>Order of the content records\<close>

text \<open>
  An entry is determined by its records (\<open>entries_ok_fold\<close>), so their order does not matter, if records of
  the same offset show the same bytes.
\<close>

definition records_consistent :: "content_record list \<Rightarrow> bool" where
  "records_consistent rs \<longleftrightarrow> (\<forall>r \<in> set rs. \<forall>r' \<in> set rs. cr_key r = cr_key r' \<longrightarrow> cr_offset r = cr_offset r' \<longrightarrow>
     cr_synthetic r = cr_synthetic r' \<and> cr_real r = cr_real r')"

lemma entry_ok_commute:
  assumes "mset rs = mset rs'" "\<forall>r \<in> set rs. cr_key r = k" "entry_ok k rs m" "entry_ok k rs' m'"
  shows "md_first_offset m = md_first_offset m' \<and> md_differing_bytes m = md_differing_bytes m' \<and>
    md_differing_chunks m = md_differing_chunks m' \<and> (records_consistent rs \<longrightarrow> m = m')"
proof -
  obtain r r' where r: "r \<in> set rs" "cr_offset r = Min (cr_offset ` set rs)" "m = entry_of k r rs"
    and r': "r' \<in> set rs'" "cr_offset r' = Min (cr_offset ` set rs')" "m' = entry_of k r' rs'"
    using assms(3,4) unfolding entry_ok_def by blast
  have set: "set rs = set rs'" and len: "length rs = length rs'" using mset_eq_setD [OF assms(1)] mset_eq_length [OF assms(1)] by simp_all
  have sum: "sum_list (map cr_bytes rs) = sum_list (map cr_bytes rs')"
    using arg_cong [OF assms(1), of "\<lambda>M. sum_mset (image_mset cr_bytes M)"] by (simp add: sum_mset_sum_list flip: mset_map)
  have off: "cr_offset r = cr_offset r'" using r(2) r'(2) set by simp
  have "cr_synthetic r = cr_synthetic r' \<and> cr_real r = cr_real r'" if "records_consistent rs"
    using assms(2) that r(1) r'(1) off unfolding records_consistent_def set by metis
  then show ?thesis using r(3) r'(3) len sum off by (simp add: entry_of_def)
qed

text \<open>The entry of a stream is that of its records: their lowest offset with the bytes there, and their sums.\<close>

lemma entry_ok_least:
  assumes "entry_ok k rs m"
  shows "\<exists>r \<in> set rs. (\<forall>r' \<in> set rs. cr_offset r \<le> cr_offset r') \<and> m = entry_of k r rs"
  using assms unfolding entry_ok_def by (metis List.finite_set Min_le finite_imageI imageI)

definition same_entry :: "wstring \<times> wstring \<Rightarrow> content_record list \<Rightarrow> MismatchDetail \<Rightarrow> MismatchDetail \<Rightarrow> bool" where
  "same_entry k rs m m' \<longleftrightarrow>
     md_first_offset m = md_first_offset m' \<and> md_differing_bytes m = md_differing_bytes m' \<and>
     md_differing_chunks m = md_differing_chunks m' \<and> (records_consistent rs \<longrightarrow> m = m') \<and>
     (\<exists>r \<in> set (records_of k rs). (\<forall>r' \<in> set (records_of k rs). cr_offset r \<le> cr_offset r') \<and> m = entry_of k r (records_of k rs))"

lemma records_commute:
  assumes "mset rs = mset rs'"
  shows "rel_option (\<lambda>i j. same_entry k rs (vs_mismatches (fold record_content rs VerificationState_new) ! i)
        (vs_mismatches (fold record_content rs' VerificationState_new) ! j))
    (vs_content_mismatches (fold record_content rs VerificationState_new) k)
    (vs_content_mismatches (fold record_content rs' VerificationState_new) k)"
proof -
  have m: "mset (records_of k rs) = mset (records_of k rs')" using assms by (simp add: records_of_def mset_filter)
  have c: "records_consistent rs \<longrightarrow> records_consistent (records_of k rs)" "\<forall>r \<in> set (records_of k rs). cr_key r = k"
    by (auto simp: records_consistent_def records_of_def)
  note e = conjunct2 [OF entries_ok_fold, unfolded entries_ok_def, rule_format, of k]
  let ?s = "fold record_content rs VerificationState_new" and ?s' = "fold record_content rs' VerificationState_new"
  have nonempty: "\<not> entry_ok k [] x" for x by (simp add: entry_ok_def)
  have none: "records_of k rs = [] \<longleftrightarrow> records_of k rs' = []" using mset_eq_length [OF m] by auto
  show ?thesis
  proof (cases "vs_content_mismatches ?s k"; cases "vs_content_mismatches ?s' k")
    fix i j
    assume i: "vs_content_mismatches ?s k = Some i" and j: "vs_content_mismatches ?s' k = Some j"
    have "entry_ok k (records_of k rs) (vs_mismatches ?s ! i)" "entry_ok k (records_of k rs') (vs_mismatches ?s' ! j)"
      using e [of rs] e [of rs'] i j by simp_all
    then show ?thesis
      using entry_ok_commute [OF m c(2)] entry_ok_least [of k "records_of k rs"] c(1) by (simp add: i j same_entry_def)
  qed (use e [of rs] e [of rs'] none nonempty in auto)
qed

end
