(* ===== verification/VerifierExamples.thy ===== *)
theory VerifierExamples
  imports VerifierReport
begin

text \<open>
  Concrete runs of the filesystem verifier: a view whose root directory holds one
  file \<open>a\<close> with one byte, its traversal by one worker, and the
  comparison of two equal such views.  \<open>sched\<close> is a scheduler: it takes
  one step of a traversal with a single worker.
\<close>

section \<open>A traversal\<close>

definition ex_file :: fs_node where
  "ex_file = FsNode None (Inr [(wide ''::$DATA'', 1)]) []"

definition ex_tree :: fs_node where
  "ex_tree = FsNode None (Inr []) [Batch [FsEntry (wide ''a'') 0x80 7 ex_file]]"

definition sched :: "VerificationEndpoint \<Rightarrow> traversal \<Rightarrow> traversal" where
  "sched e v =
     (case tv_workers v of
        [Idle] \<Rightarrow>
          (case Take (tv_cancelled v) (tv_traverser v) of
             (Task task, t) \<Rightarrow> v\<lparr>tv_traverser := t, tv_workers := [Opened task]\<rparr>
           | (NoTask, _) \<Rightarrow> v\<lparr>tv_workers := [Stopped]\<rparr>
           | (Wait, _) \<Rightarrow> v)
      | [Opened task] \<Rightarrow> v\<lparr>tv_workers := [Running (Process task (CachedStreams (tv_traverser v) (tt_identity task)))]\<rparr>
      | [Running (a # as)] \<Rightarrow> v\<lparr>tv_traverser := perform e (tv_cancelled v) a (tv_traverser v),
            tv_workers := [if as = [] then Idle else Running as]\<rparr>
      | _ \<Rightarrow> v)"

lemma sched_step: "(step e)\<^sup>*\<^sup>* v (sched e v)"
proof (cases "sched e v = v")
  case False
  then obtain w where w: "tv_workers v = [w]" by (auto simp: sched_def split: list.splits worker.splits)
  have i: "0 < length (tv_workers v)" "tv_workers v ! 0 = w" using w by simp_all
  have "step e v (sched e v)"
  proof (cases w)
    case Idle
    obtain r t where t: "Take (tv_cancelled v) (tv_traverser v) = (r, t)" by fastforce
    show ?thesis using False i w Idle t step.take_task [of 0 v _ t e] step.take_none [of 0 v t e]
      by (cases r) (auto simp: sched_def)
  next
    case (Opened task)
    then show ?thesis using i w step.open_task [of 0 v task e] by (simp add: sched_def)
  next
    case (Running as)
    show ?thesis
    proof (cases as)
      case (Cons a as')
      then show ?thesis using i w Running step.act [of 0 v a as' e] by (simp add: sched_def)
    qed (use False w Running in \<open>simp add: sched_def\<close>)
  qed (use False w in \<open>simp add: sched_def\<close>)
  then show ?thesis by blast
qed simp

primrec iterate :: "nat \<Rightarrow> ('a \<Rightarrow> 'a) \<Rightarrow> 'a \<Rightarrow> 'a" where
  "iterate 0 f v = v"
| "iterate (Suc n) f v = iterate n f (f v)"

lemma sched_iterate: "(step e)\<^sup>*\<^sup>* v (iterate n (sched e) v)"
proof (induction n arbitrary: v)
  case (Suc n)
  then show ?case using sched_step [of e v] by (simp add: rtranclp_trans)
qed simp

definition ex_walk :: traversal where
  "ex_walk = iterate (Suc (Suc (Suc (Suc (Suc (Suc (Suc (Suc (Suc (Suc (Suc 0))))))))))) (sched Synthetic)
     (Run_start Synthetic (wide ''V:'') ex_tree 1 None VerificationState_new)"

lemma ex_walk_reachable: "reachable Synthetic (wide ''V:'') ex_tree 1 None VerificationState_new ex_walk"
  unfolding reachable_def ex_walk_def by (rule sched_iterate)

lemmas walk_simps = sched_def Take_def Process_def stream_actions_def QueryObjectStreams_def
  object_of_def child_tasks_def child_task_def ChildPath_def ClassifyObject_def CachedStreams_def Commit_def Queue_def
  CompleteTask_def root_task_def Run_start_def ex_tree_def ex_file_def Let_def

definition ex_root_object :: ObjectRecord where
  "ex_root_object = \<lparr>ob_path = [], ob_kind = Directory, ob_identity = 0, ob_streams = [], ob_streams_complete = True\<rparr>"

definition ex_stream :: StreamRecord where
  "ex_stream = \<lparr>sr_name = [], sr_length = 1\<rparr>"

definition ex_file_object :: ObjectRecord where
  "ex_file_object = \<lparr>ob_path = wide ''a'', ob_kind = File, ob_identity = 7,
     ob_streams = [ex_stream], ob_streams_complete = True\<rparr>"

definition ex_inventory :: FilesystemInventory where
  "ex_inventory = \<lparr>fi_root = wide ''V:'', fi_objects = [ex_root_object, ex_file_object], fi_issues = [], fi_incomplete_directories = []\<rparr>"

lemma ex_walk_result: "finished ex_walk \<and> Run_result ex_walk = Inr (Some ex_inventory)"
  by (simp add: ex_walk_def walk_simps finished_def Run_result_def ex_inventory_def ex_root_object_def
      ex_file_object_def ex_stream_def wide_def)

lemma ex_below: "below (root_task ex_tree) t \<Longrightarrow> t = root_task ex_tree \<or> t = child_task [] (FsEntry (wide ''a'') 0x80 7 ex_file)"
proof (induction rule: below.induct)
  case (child task tasks c)
  then show ?case
    by (auto simp: root_task_def child_task_def child_tasks_def Process_def Let_def stream_actions_def
        QueryObjectStreams_def ex_tree_def ex_file_def ClassifyObject_def wide_def)
qed simp

lemma ex_links: "below (root_task ex_tree) t \<Longrightarrow> links_agree (\<lambda>_. Inr [ex_stream]) t"
  using ex_below [of t]
  by (auto simp: links_agree_def root_task_def child_task_def QueryObjectStreams_def ex_file_def ex_stream_def wide_def)

section \<open>A comparison\<close>

text \<open>
  The run of a plan by one worker.  A plan with several tasks, or one for a state that has
  failed already, is given the run in which the first worker cannot be started.
\<close>

definition ex_bytes :: "wstring \<Rightarrow> int \<Rightarrow> byte" where "ex_bytes path k = 42"

definition ex_io :: view_io where
  "ex_io = \<lparr>vi_open = (\<lambda>_. None), vi_seek = (\<lambda>_ _. None), vi_read = (\<lambda>path off n. Inr (map (\<lambda>k. ex_bytes path (off + int k)) [0..<n]))\<rparr>"

lemma ex_io_truthful: "truthful ex_bytes ex_io"
  by (auto simp: truthful_def ex_io_def)

definition ex_run :: "cpu \<Rightarrow> comparison_run" where
  "ex_run cpu1 plan s r st =
     (if cp_tasks plan = [] then (Inr (\<not> Failed st \<and> list_all (\<lambda>c. \<not> IsContentOperationMismatch c) (vs_operation_comparison_records st)), st)
      else if Failed st \<or> tl (cp_tasks plan) \<noteq> [] then (Inr False, Fail BadAlloc st)
      else case Compare cpu1 s r ex_io ex_io (hd (cp_tasks plan)) ComparisonWorker_new None of
             (result, w, recs, _) \<Rightarrow>
               let st1 = fold perform_recording recs st
               in (Inr (list_all (\<lambda>c. \<not> IsContentOperationMismatch c) (vs_operation_comparison_records st1) \<and> result), st1))"

lemma Failed_recording [simp]: "Failed (fold perform_recording recs st) = Failed st"
proof (induction recs arbitrary: st)
  case (Cons a recs)
  have "Failed (perform_recording a st) = Failed st"
    by (cases a) (auto simp: Failed_def record_ops split: option.splits)
  then show ?case using Cons by simp
qed simp

lemma Compare_uncancelled: "Compare cpu1 s r sio rio t w None = (result, w', recs, cancel) \<Longrightarrow> cancel = None"
  by (auto simp: Compare_def after_open_def OpenStream_def compare_opened_def Let_def
      split: prod.splits if_splits sum.splits option.splits)

lemma record_all:
  assumes "cm_threads v = [Recording k result recs w]"
  shows "(compare_step cpu1 tasks s r ts tr)\<^sup>*\<^sup>* v
    (v\<lparr>cm_state := fold perform_recording recs (cm_state v), cm_threads := [Recording k result [] w]\<rparr>)"
  using assms
proof (induction recs arbitrary: v)
  case (Cons a recs)
  have "compare_step cpu1 tasks s r ts tr v (v\<lparr>cm_state := perform_recording a (cm_state v), cm_threads := [Recording k result recs w]\<rparr>)"
    using compare_step.record1 [of 0 v k result a recs w] Cons(2) by (simp add: set_thread_def)
  then show ?case
    using Cons(1) [of "v\<lparr>cm_state := perform_recording a (cm_state v), cm_threads := [Recording k result recs w]\<rparr>"]
    by (simp add: converse_rtranclp_into_rtranclp)
next
  case Nil
  then show ?case by (cases v) simp
qed

text \<open>The run of a single task that is compared.\<close>

lemma single_run:
  fixes cpu1 s r ts tr t st
  assumes "\<not> Failed st" "Compare cpu1 s r ex_io ex_io t ComparisonWorker_new None = (result, w, recs, cancel)" "ts ex_io" "tr ex_io"
  defines "st1 \<equiv> fold perform_recording recs st"
  shows "compare_reachable cpu1 [t] s r ts tr (comparing_start [t] False st)
    \<lparr>cm_state = st1, cm_next_task = 2, cm_completed_tasks = (if result then 1 else 0), cm_cancelled = False, cm_launching = 0, cm_threads = [Ended]\<rparr>"
proof -
  let ?R = "compare_step cpu1 [t] s r ts tr"
  let ?v = "\<lambda>state n done1 ws. \<lparr>cm_state = state, cm_next_task = n, cm_completed_tasks = done1, cm_cancelled = False, cm_launching = 0, cm_threads = ws\<rparr>"
  let ?d = "if result then 1 else (0 :: nat)"
  have start: "comparing_start [t] False st = (?v st 0 0 [])\<lparr>cm_launching := Suc 0\<rparr>" by (simp add: comparing_start_def)
  have 1: "?R (comparing_start [t] False st) (?v st 0 0 [Polling ComparisonWorker_new])"
    using compare_step.launch [of "comparing_start [t] False st" 0] by (simp add: start)
  have 2: "?R (?v st 0 0 [Polling ComparisonWorker_new]) (?v st 0 0 [Fetching ComparisonWorker_new])"
    using compare_step.go_on [of 0 "?v st 0 0 [Polling ComparisonWorker_new]"] assms(1) by (simp add: set_thread_def)
  have 3: "?R (?v st 0 0 [Fetching ComparisonWorker_new]) (?v st 1 0 [Recording 0 result recs w])"
    using compare_step.compare [of 0 "?v st 0 0 [Fetching ComparisonWorker_new]" ComparisonWorker_new "[t]" ts ex_io tr ex_io None cpu1 s r result w recs None] assms(2-4)
      Compare_uncancelled [OF assms(2)] by (simp add: set_thread_def)
  have 4: "?R\<^sup>*\<^sup>* (?v st 1 0 [Recording 0 result recs w]) (?v st1 1 0 [Recording 0 result [] w])"
    using record_all [of "?v st 1 0 [Recording 0 result recs w]"] by (simp add: st1_def)
  have 5: "?R (?v st1 1 0 [Recording 0 result [] w]) (?v st1 1 ?d [Polling w])"
    using compare_step.finish [of 0 "?v st1 1 0 [Recording 0 result [] w]"] by (simp add: set_thread_def)
  have 6: "?R (?v st1 1 ?d [Polling w]) (?v st1 1 ?d [Fetching w])"
    using compare_step.go_on [of 0 "?v st1 1 ?d [Polling w]"] assms(1) by (simp add: set_thread_def st1_def)
  have 7: "?R (?v st1 1 ?d [Fetching w]) (?v st1 2 ?d [Ended])"
    using compare_step.exhausted [of 0 "?v st1 1 ?d [Fetching w]" w "[t]"] by (simp add: set_thread_def numeral_2_eq_2)
  show ?thesis unfolding compare_reachable_def
    using 1 2 3 4 5 6 7 by (meson converse_rtranclp_into_rtranclp rtranclp.rtrancl_into_rtrancl rtranclp_trans)
qed

lemma launch_failed_run:
  assumes "tasks \<noteq> []"
  shows "compare_reachable cpu1 tasks s r ts tr (comparing_start tasks False st)
    \<lparr>cm_state = Fail BadAlloc st, cm_next_task = 0, cm_completed_tasks = 0, cm_cancelled = False, cm_launching = 0, cm_threads = []\<rparr>"
proof -
  obtain n where "cm_launching (comparing_start tasks False st) = Suc n"
    using assms by (cases tasks) (auto simp: comparing_start_def)
  from compare_step.launch_failed [OF this, of cpu1 tasks s r ts tr BadAlloc] show ?thesis
    by (simp add: compare_reachable_def comparing_start_def)
qed

lemma ex_run_allowed: "RunComparisonWorkers cpu1 (truthful ex_bytes) (truthful ex_bytes) plan s r st (ex_run cpu1 plan s r st)"
proof -
  consider "cp_tasks plan = []" | "cp_tasks plan \<noteq> []" "Failed st \<or> tl (cp_tasks plan) \<noteq> []" |
    t where "cp_tasks plan = [t]" "\<not> Failed st"
    by (cases "cp_tasks plan") auto
  then show ?thesis
  proof cases
    case 1
    then show ?thesis unfolding RunComparisonWorkers_def
      by (intro exI [of _ "comparing_start [] False st"])
        (simp add: ex_run_def compare_reachable_def compare_finished_def comparing_start_def RunComparisonWorkers_result_def)
  next
    case 2
    show ?thesis unfolding RunComparisonWorkers_def
      by (intro exI conjI, rule launch_failed_run [OF 2(1)])
        (use 2 in \<open>auto simp: ex_run_def compare_finished_def RunComparisonWorkers_result_def Failed_def Fail_def update_observation_def\<close>)
  next
    case 3
    obtain result w recs c where c: "Compare cpu1 s r ex_io ex_io t ComparisonWorker_new None = (result, w, recs, c)"
      by (metis prod_cases4)
    show ?thesis unfolding RunComparisonWorkers_def 3(1)
      by (intro exI conjI, rule single_run [where ts = "truthful ex_bytes" and tr = "truthful ex_bytes", OF 3(2) c ex_io_truthful ex_io_truthful])
        (use 3 c in \<open>auto simp: ex_run_def compare_finished_def RunComparisonWorkers_result_def Let_def\<close>)
  qed
qed

definition ex_outcome :: traversal_outcome where
  "ex_outcome = \<lparr>to_synthetic = Inr (Some ex_inventory), to_real = Inr (Some ex_inventory),
     to_synthetic_seen = InventoryObservation_zero, to_real_seen = InventoryObservation_zero,
     to_estimate = None, to_estimate_failure = None\<rparr>"

definition ex_randomness :: "unit randomness" where
  "ex_randomness = \<lparr>rd_seed = (\<lambda>_. ()), rd_uniform = (\<lambda>_ _ g. (0, g)), rd_bernoulli = (\<lambda>_ g. (True, g))\<rparr>"

lemma ex_inventory_ok: "inventory_ok ex_inventory"
  by (simp add: inventory_ok_def ex_inventory_def ex_root_object_def ex_file_object_def strict_by_def wide_def)

lemma ex_links_share: "links_share ex_inventory ex_bytes"
  by (auto simp: links_share_def ex_inventory_def ex_bytes_def same_link_def ex_root_object_def ex_file_object_def)

definition ex_compared :: "error option \<times> message list \<times> VerificationState" where
  "ex_compared = CompareFilesystems ex_randomness ex_outcome (ex_run Arm64) 0 0 0 0 (wide ''V:'') (wide ''W:'') 100 None VerificationState_new"

definition ex_task :: ReadTask where
  "ex_task = \<lparr>rt_synthetic_object = 1, rt_real_object = 1, rt_synthetic_stream = 0, rt_real_stream = 0, rt_offset = 0, rt_length = 1\<rparr>"

lemma ex_plan: "BuildComparisonPlan ex_randomness ex_inventory ex_inventory 0 100 None st =
   (Some \<lparr>cp_available_bytes = 1, cp_selected_bytes = 1, cp_tasks = [ex_task]\<rparr>, None, st)"
  by (simp add: BuildComparisonPlan_def ex_inventory_def ex_root_object_def ex_file_object_def ex_stream_def planning_start_def poll_def
      FailuresForObject_def object_operations_def record_with_def comparable_def both_opened_def InventoryFailures_none_def
      RecordInventoryOperationComparison_def compare_contents_def AppendStreamTasks_def object_merge.simps stream_merge.simps chunk_loop.simps add_task_def select_task_def
      read_task_def with_fallback_def ex_task_def ex_randomness_def wide_def Let_def add64_def)

lemma ex_compare_task: "Compare Arm64 ex_inventory ex_inventory ex_io ex_io ex_task ComparisonWorker_new None =
   (True, \<lparr>cw_current_stream = Some (1, 1, 0, 0), cw_readable = True, cw_open_failure_accepted = False,
      cw_synthetic_handle = wide ''V:'' @ [92] @ wide ''a'', cw_real_handle = wide ''V:'' @ [92] @ wide ''a''\<rparr>, [RecCompared 1], None)"
  by (simp add: Compare_def after_open_def ComparisonWorker_new_def OpenStream_def ex_io_def TryOpenFilesystemObject_def ex_task_def
      ex_inventory_def ex_root_object_def ex_file_object_def ex_stream_def StreamPath_def ObjectPath_def compare_opened_def task_key_def
      TrySeekStream_def TryReadStreamChunk_def compare_chunks_def first_mismatch_def ex_bytes_def wide_def Let_def)

lemma ex_compared_state:
  "fst ex_compared = None \<and> (let o1 = vs_observation (snd (snd ex_compared)) in vo_comparison_complete o1 \<and> vo_mismatch_count o1 = 0 \<and>
     vo_matched_error_count o1 = 0 \<and> vo_compared_bytes o1 = 1)"
  by (simp add: ex_compared_def CompareFilesystems_def compare_inventories_def ex_outcome_def after_traversal_def ex_plan ex_run_def
      ex_compare_task observation_ops record_ops VerificationState_new_def ComparisonSurfaceIncomplete_def Failed_def
      InventoryObservation_zero_def add64_def Let_def, simp add: ex_inventory_def)

text \<open>Four workers at the start of a traversal.\<close>

definition ex_begun :: traversal where
  "ex_begun = Run_start Real (wide ''V:'') ex_tree 4 None VerificationState_new"

lemma ex_begun_reachable: "reachable Real (wide ''V:'') ex_tree 4 None VerificationState_new ex_begun"
  by (simp add: reachable_def ex_begun_def)

lemma ex_begun_workers: "tv_workers ex_begun = [Idle, Idle, Idle, Idle]"
  by (simp add: ex_begun_def Run_start_def numeral_eq_Suc Let_def)

section \<open>A difference\<close>

text \<open>The second view lacks the root.\<close>

definition ex_rootless :: FilesystemInventory where
  "ex_rootless = ex_inventory\<lparr>fi_objects := [ex_file_object]\<rparr>"

lemma ex_rootless_ok: "inventory_ok ex_rootless"
  by (simp add: inventory_ok_def ex_rootless_def ex_inventory_def ex_file_object_def ex_stream_def strict_by_def)

definition ex_planned :: "ComparisonPlan option \<times> cancellation \<times> VerificationState" where
  "ex_planned = BuildComparisonPlan ex_randomness ex_inventory ex_rootless 0 100 None VerificationState_new"

definition ex_planned_state :: VerificationState where
  "ex_planned_state = RecordMismatch (mismatch ObjectMissingFromReal [] []) VerificationState_new"

lemma ex_planned_eq: "BuildComparisonPlan ex_randomness ex_inventory ex_rootless 0 100 None VerificationState_new =
   (Some \<lparr>cp_available_bytes = 1, cp_selected_bytes = 1, cp_tasks = [ex_task\<lparr>rt_real_object := 0\<rparr>]\<rparr>, None, ex_planned_state)"
  by (simp add: BuildComparisonPlan_def ex_inventory_def ex_rootless_def ex_root_object_def ex_file_object_def ex_stream_def planning_start_def poll_def
      FailuresForObject_def object_operations_def record_with_def comparable_def both_opened_def InventoryFailures_none_def
      RecordInventoryOperationComparison_def compare_contents_def AppendStreamTasks_def object_merge.simps stream_merge.simps chunk_loop.simps
      add_task_def select_task_def object_missing_def IsBelowIncompleteDirectory_def AddObjectMismatch_def
      read_task_def with_fallback_def ex_task_def ex_randomness_def wide_def Let_def add64_def ex_planned_state_def)

lemma ex_planned_mismatches: "vs_mismatches ex_planned_state = [mismatch ObjectMissingFromReal [] []]"
  by (simp add: ex_planned_state_def recorded_mismatches VerificationState_new_def)

definition ex_record :: "int \<Rightarrow> content_record" where
  "ex_record off = \<lparr>cr_key = ([97], []), cr_offset = off, cr_synthetic = 1, cr_real = 2, cr_bytes = 1\<rparr>"

definition ex_recorded :: VerificationState where
  "ex_recorded = RecordMismatch (mismatch ObjectMissingFromReal [97] []) VerificationState_new"

definition ex_job :: VolumeJob where
  "ex_job = new_job 100 \<lparr>fv_volume_identifier = 1, fv_payload_snapshot_identifier = 2, fv_filename = ''a.vhdx''\<rparr>"

lemma ex_report: "extends VerificationState_new ex_recorded" "seen ex_job VerificationState_new"
  by (simp_all add: extends_def seen_def ex_job_def new_job_def ex_recorded_def record_ops VerificationState_new_def)

section \<open>A command line\<close>

text \<open>Names are compared as lists of characters here.\<close>

definition ex_cli :: cli where
  "ex_cli = \<lparr>cl_transcode = wide, cl_less = (<), cl_max_prefix = 63\<rparr>"

definition ex_request :: DeviceFsStartRequest where
  "ex_request = \<lparr>rq_sources = [\<lparr>ds_name = ''a.img'', ds_source = kHandleDevicePrefix @ decimal 12\<rparr>, \<lparr>ds_name = ''a.map'', ds_source = kFileHandleDevicePrefix @ decimal 34\<rparr>],
     rq_inherited_handles = [12, 34], rq_mount_target = ''C:/m'', rq_read_user = Some ''u'', rq_rpc_endpoint = None, rq_rpc_password = None,
     rq_vhdx = False, rq_expose_known_data_map = True\<rparr>"

lemma ex_name_list: "concat (map (mapping_names (requested_options ex_cli ''e'' ex_request))
    (map (source_mapping ex_cli (rq_rpc_endpoint ex_request)) (rq_sources ex_request))) =
    [wide ''a.img'', wide ''a.img.known-data.bitmap'', wide ''a.map'']"
  using handle_kinds(1) [of "wide ''a.img''" "decimal 12"] handle_kinds(2) [of "wide ''a.map''" "decimal 34"]
  by (simp add: ex_request_def mapping_names_def source_mapping_def requested_options_def Options_default_def
      kKnownDataMapSuffix_def ex_cli_def wide_def IsWindowsDevice_def)

lemma ex_names: "distinct_names ex_cli (concat (map (mapping_names (requested_options ex_cli ''e'' ex_request))
    (map (source_mapping ex_cli (rq_rpc_endpoint ex_request)) (rq_sources ex_request))))"
  unfolding ex_name_list
  by (auto simp: distinct_names_def valid_name_def kMaxNameLength_def same_name_def ex_cli_def wide_def less_Suc_eq)

lemma ex_mount: "normalise_mount ex_cli (requested_options ex_cli ''e'' ex_request) = Inr (requested_options ex_cli ''e'' ex_request)"
  by (simp add: normalise_mount_def requested_options_def Options_default_def ex_request_def ex_cli_def wide_def starts_with_def Let_def)

end
