(* ===== verification/VerifierClaims.thy ===== *)
theory VerifierClaims
  imports VerifierExamples
begin

text \<open>
  The properties of the filesystem verifier and of the process it starts, each
  with a concrete instance.
\<close>

section \<open>The verdict\<close>

text \<open>
  C17: a comparison of two views at 100 per cent that completes and counts neither a
  mismatch nor a matched error has compared equal views: the same ordinary objects of the same kind, and for every
  object that both views could list, the same streams with the same bytes, whatever the interleaving of the workers was.
  This holds of views whose hard links are not split by the exclusions (\<open>links_share\<close>): the names that are linked to one
  file are all or none under \<open>System Volume Information\<close>, and show the same streams and bytes.  Without this condition
  the code can miss a difference, because it compares a linked file once, under the first of its names.
\<close>

theorem verified_views_agree:
  assumes "CompareFilesystems R outcome run now1 now2 volume_id seed sroot rroot percentage cancel state = (err, msgs, state')"
    and "to_synthetic outcome = Inr (Some synthetic)" "to_real outcome = Inr (Some real1)"
    and "inventory_ok synthetic" "inventory_ok real1" "links_share synthetic cs" "links_share real1 cr"
    and "\<And>plan s r st. RunComparisonWorkers cpu1 (truthful cs) (truthful cr) plan s r st (run plan s r st)"
    and "vs_inv state" "\<not> vo_comparison_complete (vs_observation state)" "100 \<le> percentage"
    and "vo_comparison_complete (vs_observation state')" "vo_mismatch_count (vs_observation state') = 0"
    and "vo_matched_error_count (vs_observation state') = 0"
  shows "views_agree synthetic real1 cs cr"
  using assms by (rule verified_views)

theorem verified_views_agree_witness:
  "vo_compared_bytes (vs_observation (snd (snd ex_compared))) = 1 \<and> views_agree ex_inventory ex_inventory ex_bytes ex_bytes"
proof -
  obtain err msgs state' where e: "ex_compared = (err, msgs, state')" by (metis prod_cases3)
  have s: "vo_comparison_complete (vs_observation state')" "vo_mismatch_count (vs_observation state') = 0"
    "vo_matched_error_count (vs_observation state') = 0" "vo_compared_bytes (vs_observation state') = 1"
    using ex_compared_state [unfolded e] by (simp_all add: Let_def)
  have "views_agree ex_inventory ex_inventory ex_bytes ex_bytes"
    by (rule verified_views_agree [OF e [unfolded ex_compared_def] _ _ ex_inventory_ok ex_inventory_ok ex_links_share
          ex_links_share ex_run_allowed vs_inv_new _ _ s(1-3)])
      (simp_all add: ex_outcome_def VerificationState_new_def)
  then show ?thesis unfolding e using s(4) by simp
qed

text \<open>
  C18: the exit status of a verification is zero exactly when no view preparation failed
  and every volume was compared completely, without a mismatch, a failure or a cleanup failure.
\<close>

theorem exit_status_zero:
  "snd (PrintFinalResults jobs optimization_unavailable preparation_failures) = EXIT_SUCCESS \<longleftrightarrow>
   preparation_failures = 0 \<and> list_all job_good jobs"
  by (rule final_status)

text \<open>
  C19: the counters that the reports print are the counts of the recorded differences:
  a whole comparison of two views, with every interleaving of its workers, keeps this.
\<close>

theorem comparison_keeps_counts:
  assumes "CompareFilesystems R outcome run now1 now2 volume_id seed sroot rroot percentage cancel state = (err, msgs, state')"
    and "\<And>plan s r st. RunComparisonWorkers cpu1 ts tr plan s r st (run plan s r st)" "vs_inv state"
  shows "vs_inv state'"
  using assms by (rule CompareFilesystems_counts)

theorem comparison_keeps_counts_witness: "vs_inv (snd (snd ex_compared))"
proof -
  obtain err msgs state' where e: "ex_compared = (err, msgs, state')" by (metis prod_cases3)
  have "vs_inv state'"
    by (rule comparison_keeps_counts [OF e [unfolded ex_compared_def] ex_run_allowed vs_inv_new])
  then show ?thesis unfolding e by simp
qed

section \<open>The traversal\<close>

text \<open>
  C20: a traversal that ends without cancellation or failure has recorded every object,
  every failed operation and every incomplete directory of the tree exactly once, and sorted them, whatever the schedule of the workers was.
\<close>

theorem traversal_exact:
  assumes "reachable e rootpath tree started f s v" "\<And>t. below (root_task tree) t \<Longrightarrow> links_agree S t"
    and "finished v" "Run_result v = Inr (Some iv)"
  shows "mset (fi_objects iv) = harvest commit_of (acts (root_task tree)) \<and>
    mset (fi_issues iv) = harvest issue_of (acts (root_task tree)) \<and>
    mset (fi_incomplete_directories iv) = harvest incomplete_of (acts (root_task tree)) \<and>
    sorted (map ob_path (fi_objects iv)) \<and> sorted (map issue_order (fi_issues iv))"
  using finished_inventory [OF assms] by blast

theorem traversal_exact_witness:
  "Run_result ex_walk = Inr (Some ex_inventory) \<and>
   mset (fi_objects ex_inventory) = harvest commit_of (acts (root_task ex_tree))"
  using traversal_exact [OF ex_walk_reachable ex_links conjunct1 [OF ex_walk_result] conjunct2 [OF ex_walk_result]]
    ex_walk_result by blast

text \<open>C21: a traversal ends under every schedule of its workers: no run is infinite.\<close>

theorem traversal_terminates:
  "\<not> (\<exists>g. g 0 = Run_start e rootpath tree started f s \<and> (\<forall>n. step e (g n) (g (Suc n))))"
  using step_terminates by metis

text \<open>
  C22: no worker waits forever: whenever a worker has not stopped, some worker can act,
  or some idle worker finds a task or finds out that there is none left.
\<close>

theorem traversal_not_stuck:
  assumes "reachable e rootpath tree started f s v" "\<And>t. below (root_task tree) t \<Longrightarrow> links_agree S t"
    and "i < length (tv_workers v)" "tv_workers v ! i \<noteq> Stopped"
  shows "\<exists>j < length (tv_workers v). busy (tv_workers v ! j) \<or>
    (tv_workers v ! j = Idle \<and> fst (Take (tv_cancelled v) (tv_traverser v)) \<noteq> Wait)"
  using assms by (rule no_idle_wait)

theorem traversal_not_stuck_witness:
  "\<exists>j < length (tv_workers ex_begun). busy (tv_workers ex_begun ! j) \<or>
    (tv_workers ex_begun ! j = Idle \<and> fst (Take (tv_cancelled ex_begun) (tv_traverser ex_begun)) \<noteq> Wait)"
  by (rule traversal_not_stuck [OF ex_begun_reachable ex_links, where i = 1]) (simp_all add: ex_begun_workers)

section \<open>The plan\<close>

text \<open>
  C23: a plan that is built has recorded exactly the differences of the two inventories:
  the objects missing from one view (unless an ancestor could not be listed), the differing kinds, and for every comparable pair the
  missing streams and the differing lengths.
\<close>

theorem plan_records_differences:
  assumes "BuildComparisonPlan R synthetic real1 seed percentage cancel state = (Some plan, cancel', state')"
    and "inventory_ok synthetic" "inventory_ok real1"
  shows "\<exists>ms. vs_mismatches state' = vs_mismatches state @ ms \<and> set ms = inventory_differences synthetic real1"
  using assms by (rule BuildComparisonPlan_plan(1))

theorem plan_records_differences_witness:
  "\<exists>ms. vs_mismatches (snd (snd ex_planned)) = ms \<and> set ms = inventory_differences ex_inventory ex_rootless \<and>
     ms = [mismatch ObjectMissingFromReal [] []]"
proof -
  have "\<exists>ms. vs_mismatches ex_planned_state = vs_mismatches VerificationState_new @ ms \<and>
      set ms = inventory_differences ex_inventory ex_rootless"
    by (rule plan_records_differences [OF ex_planned_eq ex_inventory_ok ex_rootless_ok])
  then show ?thesis using ex_planned_eq ex_planned_mismatches
    by (simp add: ex_planned_def VerificationState_new_def)
qed

text \<open>
  C24: every task of a plan reads between one byte and one chunk inside two streams of the same name and length
  of a comparable pair, with indices inside the inventories; at 100 per cent the tasks are all the tasks, and a sample is never empty when there is a task.
\<close>

theorem plan_tasks_in_bounds:
  assumes "BuildComparisonPlan R synthetic real1 seed percentage cancel state = (Some plan, cancel', state')"
    and "inventory_ok synthetic" "inventory_ok real1" "\<And>g. fst (rd_uniform R 0 0 g) = 0"
  shows "list_all (task_valid synthetic real1) (cp_tasks plan) \<and>
    (100 \<le> percentage \<longrightarrow> cp_tasks plan = tasks_of (plan_events synthetic real1)) \<and>
    (tasks_of (plan_events synthetic real1) \<noteq> [] \<longrightarrow> cp_tasks plan \<noteq> [])"
  using BuildComparisonPlan_plan [OF assms(1-3)] plan_tasks_valid [OF assms(2,3)] assms(4) by (auto simp: list_all_iff)

theorem plan_tasks_in_bounds_witness:
  "list_all (task_valid ex_inventory ex_inventory) [ex_task] \<and>
   [ex_task] = tasks_of (plan_events ex_inventory ex_inventory)"
proof -
  have "fst (rd_uniform ex_randomness 0 0 g) = 0" for g by (simp add: ex_randomness_def)
  from plan_tasks_in_bounds [OF ex_plan [of VerificationState_new] ex_inventory_ok ex_inventory_ok this]
  show ?thesis unfolding ComparisonPlan.select_convs by blast
qed

section \<open>Recording\<close>



section \<open>Reports\<close>

text \<open>
  C26: the progress report subtracts without wrapping around: the estimated number of tasks is
  at least the number of completed ones, and at least what is known to be left remains.
\<close>

theorem progress_does_not_wrap:
  assumes "observation_ok i" "estimate < two64"
  shows "remaining_tasks i estimate + io_tasks_completed i = estimated_tasks i estimate \<and>
    not_completed i \<le> remaining_tasks i estimate"
  using progress_remaining [OF assms] by simp

theorem progress_does_not_wrap_witness:
  "remaining_tasks (InventoryObservation_zero\<lparr>io_tasks_discovered := 7, io_tasks_completed := 3\<rparr>) 5 + 3 =
   estimated_tasks (InventoryObservation_zero\<lparr>io_tasks_discovered := 7, io_tasks_completed := 3\<rparr>) 5"
  using progress_does_not_wrap [of "InventoryObservation_zero\<lparr>io_tasks_discovered := 7, io_tasks_completed := 3\<rparr>" 5]
  by (simp add: observation_ok_def)

text \<open>
  C27: the interim reports of a volume print one text per observed state, and together they print every mismatch,
  and every compared operation that did not fail alike on both views, that was recorded up to the last of them once and in
  order.  The text of a mismatch is that of its details in the observed state; it names the volume, the object and
  the difference, that of an operation the object and the operation.
\<close>

theorem reports_print_all:
  assumes "sts \<noteq> []" "successively extends sts" "seen job (hd sts)"
  shows "\<exists>reports. length (report_messages job sts) = length sts \<and>
    list_all2 (\<lambda>(msgs, st) (ms, cs). msgs = report_text (vj_volume_identifier job) ms cs \<and> set ms \<subseteq> set (vs_mismatches st))
      (zip (report_messages job sts) sts) reports \<and>
    map mismatch_site (concat (map fst reports)) = drop (vj_printed_mismatches job) (map mismatch_site (vs_mismatches (last sts))) \<and>
    concat (map snd reports) = drop (vj_printed_operation_comparisons job) (vs_operation_comparison_records (last sts)) \<and>
    (\<forall>m. {Msg ''Volume ID: {} Object: {}'' [Guid (vj_volume_identifier job), Wide (DisplayPath (md_path m))],
          difference_line (md_kind m) m} \<subseteq> set (PrintMismatch (vj_volume_identifier job) m)) \<and>
    (\<forall>c. {Msg ''Object: {}'' [Wide (DisplayPath (ik_path (oc_key c)))],
          Msg ''Operation: {}'' [Str (OperationName (ik_operation (oc_key c)))]}
         \<subseteq> set (PrintOperationComparison (vj_volume_identifier job) c))"
proof (intro exI [of _ "reported job sts"] conjI allI)
  show "length (report_messages job sts) = length sts" using report_messages_reported by blast
  show "list_all2 (\<lambda>(msgs, st) (ms, cs). msgs = report_text (vj_volume_identifier job) ms cs \<and> set ms \<subseteq> set (vs_mismatches st))
      (zip (report_messages job sts) sts) (reported job sts)" using report_messages_reported by blast
qed (simp_all add: reports_complete [OF assms] PrintMismatch_def PrintOperationComparison_def Let_def)

theorem reports_print_all_witness:
  "\<exists>reports. length (report_messages ex_job [VerificationState_new, ex_recorded]) = 2 \<and>
    list_all2 (\<lambda>(msgs, st) (ms, cs). msgs = report_text (vj_volume_identifier ex_job) ms cs \<and> set ms \<subseteq> set (vs_mismatches st))
      (zip (report_messages ex_job [VerificationState_new, ex_recorded]) [VerificationState_new, ex_recorded]) reports \<and>
    map mismatch_site (concat (map fst reports)) = map mismatch_site (vs_mismatches ex_recorded)"
proof -
  have e: "[VerificationState_new, ex_recorded] \<noteq> []" "successively extends [VerificationState_new, ex_recorded]"
    "seen ex_job (hd [VerificationState_new, ex_recorded])" using ex_report by simp_all
  have "vj_printed_mismatches ex_job = 0" by (simp add: ex_job_def new_job_def)
  then show ?thesis using reports_print_all [OF e] by auto
qed

section \<open>Names and the process\<close>

lemma hex_padded_numeral: "hex_padded (numeral k) n = hex_padded (pred_numeral k) (n div 16) @ [hex_digit (n mod 16)]"
  by (simp only: numeral_eq_Suc hex_padded.simps)

lemma ex_guid_fields:
  "Data1 81985529216486895 = 2309737967" "Data2 81985529216486895 = 17767" "Data3 81985529216486895 = 291"
  "Data4 81985529216486895 0 = 0" "Data4 81985529216486895 (Suc 0) = 0" "Data4 81985529216486895 2 = 0"
  "Data4 81985529216486895 3 = 0" "Data4 81985529216486895 4 = 0" "Data4 81985529216486895 5 = 0"
  "Data4 81985529216486895 6 = 0" "Data4 81985529216486895 7 = 0"
  by (simp_all add: Data1_def Data2_def Data3_def Data4_def unsigned_ucast_eq take_bit_eq_mod drop_bit_eq_div unsigned_drop_bit_eq)

text \<open>
  C28: \<open>ParseGuid\<close> reads back the identifier that \<open>FormatGuid\<close> wrote, with braces and without them, for
  every reader of the system that reads identifiers in the documented form, and \<open>ParseVolumeGuid\<close> reads it from the name
  of a volume; and the text has no character that a file name or a command line would treat specially, only
  hexadecimal digits, hyphens and braces.
\<close>

theorem guid_text_roundtrip:
  assumes "reads_guid_texts iid"
  shows "ParseGuid iid (FormatGuid braces g) = Inr g \<and> ParseVolumeGuid iid (volume_name g) = Inr (Inr g) \<and>
    set (FormatGuid braces g) \<subseteq> guid_digits \<union> {CHR ''-'', CHR ''{'', CHR ''}''}"
  using ParseGuid_FormatGuid [OF assms] assms read_guid_FormatGuid [of g] FormatGuid_set
  by (simp add: parse_volume reads_guid_texts_def)

theorem guid_text_roundtrip_witness:
  "let iid = (\<lambda>s. case read_guid s of Some g \<Rightarrow> Inr g | None \<Rightarrow> Inl (- 2147024809)) in
   ParseGuid iid (FormatGuid True 81985529216486895) = Inr 81985529216486895 \<and>
   ParseGuid iid (FormatGuid False 81985529216486895) = Inr 81985529216486895 \<and>
   FormatGuid False 81985529216486895 = ''89abcdef-4567-0123-0000-000000000000''"
proof -
  have iid: "reads_guid_texts (\<lambda>s. case read_guid s of Some g \<Rightarrow> Inr g | None \<Rightarrow> Inl (- 2147024809))"
    by (simp add: reads_guid_texts_def)
  have "FormatGuid False 81985529216486895 = ''89abcdef-4567-0123-0000-000000000000''"
    by (simp add: FormatGuid_def Let_def ex_guid_fields upt_conv_Cons hex_padded_numeral hex_digit_def char_of_def bit_0)
  then show ?thesis unfolding Let_def using guid_text_roundtrip [OF iid] by blast
qed

text \<open>
  C29: the command line that the supervisor builds for a devicefs process is read back by that
  process as the request: the same files with the same sources in the same order, and the same modes.
\<close>

theorem command_line_understood:
  assumes "rq_sources request \<noteq> []" "cl_transcode C (rq_mount_target request) \<noteq> []" "stop_event_name \<noteq> []"
    and "distinct_names C (concat (map (mapping_names (requested_options C stop_event_name request))
           (map (source_mapping C (rq_rpc_endpoint request)) (rq_sources request))))"
  shows "ParseArgs C (tl (start_arguments executable stop_event_name request)) =
    normalise_mount C (requested_options C stop_event_name request)"
  using assms by (rule StartDeviceFs_understood)

theorem command_line_understood_witness:
  "ParseArgs ex_cli (tl (start_arguments ''s.exe'' ''e'' ex_request)) =
     Inr (requested_options ex_cli ''e'' ex_request)"
proof -
  have "ParseArgs ex_cli (tl (start_arguments ''s.exe'' ''e'' ex_request)) =
      normalise_mount ex_cli (requested_options ex_cli ''e'' ex_request)"
    by (rule command_line_understood [OF _ _ _ ex_names]) (simp_all add: ex_request_def ex_cli_def wide_def)
  then show ?thesis by (simp add: ex_mount)
qed

text \<open>C30: the wait for the readiness of a devicefs process ends: at the latest when the clock has passed the deadline.\<close>

theorem ready_wait_ends:
  assumes "p \<in> set polls" "now + kStartTimeout \<le> rp_now p"
  shows "\<exists>r. WaitForDeviceFs now polls cancel = Some r"
  using assms by (rule WaitForDeviceFs_ends)

theorem ready_wait_ends_witness:
  "\<exists>r. WaitForDeviceFs 5 [\<lparr>rp_exited = None, rp_exists = False, rp_now = 100\<rparr>, \<lparr>rp_exited = None, rp_exists = False, rp_now = 30005\<rparr>] None = Some r"
  by (rule ready_wait_ends [where p = "\<lparr>rp_exited = None, rp_exists = False, rp_now = 30005\<rparr>"]) (simp_all add: kStartTimeout_def)

end
