(* ===== verification/VssProofs.thy ===== *)
theory VssProofs
  imports VssDescriptors "HOL-Library.Multiset"
begin

text \<open>
  Correctness of the VSS metadata reader.  The locale \<open>metadata_chain\<close> is the contract of
  one iteration of a chain walk: it visits a block that was not visited before.  It gives
  termination and the trace of the walk; the catalog and the descriptor list are its interpretations.
\<close>

section \<open>Chains return\<close>

definition metadata_block :: "nat \<Rightarrow> nat" where
  "metadata_block offset = offset - offset mod vss_kBlockSize"

lemma and_not64_block: "offset < two64 \<Longrightarrow> and_not64 offset (vss_kBlockSize - 1) = metadata_block offset"
  using and_not64_mask [of 14 offset] by (simp add: metadata_block_def)

lemma metadata_block_le: "metadata_block offset \<le> offset"
  by (simp add: metadata_block_def)

lemma metadata_block_mod: "metadata_block offset mod vss_kBlockSize = 0"
  unfolding metadata_block_def by (simp add: minus_mod_eq_mult_div)

text \<open>The offsets that a walk visits, from the first to the end of the chain.\<close>

fun trace :: "('s \<Rightarrow> nat \<Rightarrow> ('s \<times> nat) result) \<Rightarrow> 's \<Rightarrow> nat \<Rightarrow> nat list \<Rightarrow> 's \<Rightarrow> bool" where
  "trace body s offset [] r \<longleftrightarrow> offset = 0 \<and> r = s"
| "trace body s offset (x # xs) r \<longleftrightarrow> offset \<noteq> 0 \<and> x = offset \<and>
     (\<exists>s' n. body s offset = Inr (s', n) \<and> trace body s' n xs r)"

locale metadata_chain =
  fixes body :: "'s \<Rightarrow> nat \<Rightarrow> ('s \<times> nat) result"
    and good :: "'s \<Rightarrow> bool"
    and visited :: "'s \<Rightarrow> nat set"
  assumes next_bound: "good s \<Longrightarrow> offset < two64 \<Longrightarrow> body s offset = Inr (s', n) \<Longrightarrow> n < two64"
    and next_good: "good s \<Longrightarrow> offset < two64 \<Longrightarrow> body s offset = Inr (s', n) \<Longrightarrow> good s'"
    and next_fresh: "good s \<Longrightarrow> offset < two64 \<Longrightarrow> body s offset = Inr (s', n) \<Longrightarrow> metadata_block offset \<notin> visited s"
    and next_visited: "good s \<Longrightarrow> offset < two64 \<Longrightarrow> body s offset = Inr (s', n) \<Longrightarrow>
          visited s' = insert (metadata_block offset) (visited s)"
begin

lemma chain_walk:
  assumes "good s" "offset < two64"
  shows "\<exists>r. chain body s offset = Some r \<and> (\<forall>t. r = Inr t \<longrightarrow>
    (\<exists>xs. trace body s offset xs t \<and> good t \<and> distinct (map metadata_block xs) \<and>
       (\<forall>x \<in> set xs. x < two64 \<and> metadata_block x \<notin> visited s)))"
  using assms
proof (induction "card ({..<two64} - visited s)" arbitrary: s offset rule: less_induct)
  case less
  show ?case
  proof (cases "offset = 0")
    case True
    then show ?thesis using less.prems by (subst chain.simps) (auto intro: exI [of _ "[]"])
  next
    case False
    show ?thesis
    proof (cases "body s offset")
      case (Inl e)
      then show ?thesis using False by (subst chain.simps) simp
    next
      case (Inr sn)
      obtain s' n where b: "body s offset = Inr (s', n)" using Inr by (cases sn) simp
      note facts = next_bound [OF less.prems b] next_good [OF less.prems b]
        next_fresh [OF less.prems b] next_visited [OF less.prems b]
      have "metadata_block offset < two64" using less.prems(2) metadata_block_le le_less_trans by blast
      then have "{..<two64} - visited s' \<subset> {..<two64} - visited s" using facts(3,4) by auto
      then have "card ({..<two64} - visited s') < card ({..<two64} - visited s)"
        by (intro psubset_card_mono) simp_all
      from less.hyps [OF this facts(2,1)] obtain r where r: "chain body s' n = Some r"
        and t: "\<And>t. r = Inr t \<Longrightarrow> \<exists>xs. trace body s' n xs t \<and> good t \<and> distinct (map metadata_block xs) \<and>
          (\<forall>x \<in> set xs. x < two64 \<and> metadata_block x \<notin> visited s')" by blast
      have "\<exists>xs. trace body s offset xs t \<and> good t \<and> distinct (map metadata_block xs) \<and>
          (\<forall>x \<in> set xs. x < two64 \<and> metadata_block x \<notin> visited s)" if rt: "r = Inr t" for t
      proof -
        from t [OF rt] obtain xs where xs: "trace body s' n xs t" "good t" "distinct (map metadata_block xs)"
          "\<forall>x \<in> set xs. x < two64 \<and> metadata_block x \<notin> visited s'" by blast
        have "trace body s offset (offset # xs) t" using False b xs(1) by auto
        moreover have "distinct (map metadata_block (offset # xs))"
          using xs(3,4) facts(4) by auto
        moreover have "\<forall>x \<in> set (offset # xs). x < two64 \<and> metadata_block x \<notin> visited s"
          using xs(4) facts(3,4) less.prems(2) by auto
        ultimately show ?thesis using xs(2) by blast
      qed
      moreover have "chain body s offset = Some r" using False b r by (subst chain.simps) simp
      ultimately show ?thesis by blast
    qed
  qed
qed

lemma chain_returns: "good s \<Longrightarrow> offset < two64 \<Longrightarrow> \<exists>r. chain body s offset = Some r"
  using chain_walk by blast

lemma chain_trace:
  assumes "chain body s offset = Some (Inr t)" "good s" "offset < two64"
  obtains xs where "trace body s offset xs t" "distinct (map metadata_block xs)" "\<And>x. x \<in> set xs \<Longrightarrow> x < two64"
  using chain_walk [OF assms(2,3)] assms(1) by auto

end

text \<open>A chain of distinct blocks is short enough for 64-bit counters.\<close>

lemma chain_length:
  assumes "distinct (map metadata_block xs)" "\<And>x. x \<in> set xs \<Longrightarrow> x < two64"
  shows "length xs \<le> 1125899906842624"
proof -
  let ?f = "\<lambda>x :: nat. x div vss_kBlockSize"
  have "inj_on ?f (set (map metadata_block xs))"
    by (rule inj_onI) (auto simp: metadata_block_def minus_mod_eq_mult_div)
  then have "card (?f ` set (map metadata_block xs)) = length xs"
    using distinct_card [OF assms(1)] by (simp add: card_image)
  moreover have "?f ` set (map metadata_block xs) \<subseteq> {..<1125899906842624}"
  proof
    fix y assume "y \<in> ?f ` set (map metadata_block xs)"
    then obtain x where x: "x \<in> set xs" "y = metadata_block x div vss_kBlockSize" by auto
    have "metadata_block x < two64" using assms(2) [OF x(1)] metadata_block_le le_less_trans by blast
    then show "y \<in> {..<1125899906842624}" using x(2) by simp
  qed
  ultimately show ?thesis using card_mono [of "{..<1125899906842624}"] by (metis card_lessThan finite_lessThan)
qed

section \<open>The two chains\<close>

lemma length_kVssIdentifier [simp]: "length kVssIdentifier = 16"
  by (simp add: kVssIdentifier_def)

lemma VisitMetadataBlock_spec:
  assumes "VisitMetadataBlock heap v offset msg = Inr v'" "mb_inv vss_kBlockSize v" "offset < two64"
  shows "mb_inv vss_kBlockSize v'" "metadata_block offset \<notin> mb_abs vss_kBlockSize v"
    "mb_abs vss_kBlockSize v' = insert (metadata_block offset) (mb_abs vss_kBlockSize v)"
proof -
  have ins: "MaybeBitmapSet_insert heap vss_kBlockSize v (metadata_block offset) = Inr (True, v')"
    using assms(1) by (auto simp: VisitMetadataBlock_def and_not64_block [OF assms(3), simplified] err_simps split: if_splits)
  have "metadata_block offset < two64" using assms(3) metadata_block_le le_less_trans by blast
  note maybe_facts = maybe.insert_inv [OF assms(2) this ins] maybe.insert_new [OF assms(2) this ins] maybe.insert_abs [OF assms(2) this ins]
  then show "mb_inv vss_kBlockSize v'" "metadata_block offset \<notin> mb_abs vss_kBlockSize v"
    "mb_abs vss_kBlockSize v' = insert (metadata_block offset) (mb_abs vss_kBlockSize v)" by simp_all
qed

lemma catalog_block_Inr:
  assumes "catalog_block heap src (v, stores) offset = Inr ((v', stores'), n)"
  obtains data where "RawSource_Read src vss_kBlockSize offset = Inr data"
    "VisitMetadataBlock heap v offset ''the VSS catalog chain repeated a metadata block'' = Inr v'"
    "efold catalog_entry stores (catalog_entries data) = Inr stores'" "n = ReadField64 data 40"
  using assms by (auto simp: catalog_block_def Let_def err_simps)

interpretation catalog: metadata_chain "catalog_block heap src"
  "\<lambda>s. mb_inv vss_kBlockSize (fst s)" "\<lambda>s. mb_abs vss_kBlockSize (fst s)" for heap src
proof (unfold_locales, goal_cases)
  case (1 s offset s' n)
  then show ?case by (cases s; cases s') (auto elim!: catalog_block_Inr)
next
  case (2 s offset s' n)
  then show ?case by (cases s; cases s') (auto elim!: catalog_block_Inr dest: VisitMetadataBlock_spec(1))
next
  case (3 s offset s' n)
  then show ?case by (cases s; cases s') (auto elim!: catalog_block_Inr dest: VisitMetadataBlock_spec(2))
next
  case (4 s offset s' n)
  then show ?case by (cases s; cases s') (auto elim!: catalog_block_Inr dest: VisitMetadataBlock_spec(3))
qed

text \<open>What one record, and one list block, do to the state of the walk.\<close>

lemma list_record_Inr:
  assumes "list_record heap consume st bytes = Inr st'"
  shows "st' = st \<and> empty_descriptor (parse_descriptor bytes) \<or>
    \<not> empty_descriptor (parse_descriptor bytes) \<and>
    (bd_flags (parse_descriptor bytes) AND kForwarderFlag \<noteq> 0 \<longrightarrow> bd_store_offset (parse_descriptor bytes) = 0) \<and>
    DescriptorState_Insert heap (ls_state st) (parse_descriptor bytes) = Inr (ls_state st') \<and>
    consume (ls_consumed st) (parse_descriptor bytes) = Inr (ls_consumed st') \<and>
    ls_visited st' = ls_visited st \<and> list_block_count (ls_counts st') = list_block_count (ls_counts st) \<and>
    descriptor_count (ls_counts st') = add64 (descriptor_count (ls_counts st)) 1"
  using assms by (auto simp: list_record_def Let_def err_simps split: if_splits)

definition block_records :: "byte list \<Rightarrow> BlockDescriptor list" where
  "block_records data = filter (\<lambda>d. \<not> empty_descriptor d) (map parse_descriptor (descriptor_slots data))"

definition forwarder_ok :: "BlockDescriptor \<Rightarrow> bool" where
  "forwarder_ok d \<longleftrightarrow> (bd_flags d AND kForwarderFlag \<noteq> 0 \<longrightarrow> bd_store_offset d = 0)"

text \<open>
  \<open>walked st ds k st'\<close>: between \<open>st\<close> and \<open>st'\<close> the walk has read \<open>k\<close> blocks and
  validated, consumed and counted exactly the records \<open>ds\<close>.
\<close>

definition walked :: "heap \<Rightarrow> ('s \<Rightarrow> BlockDescriptor \<Rightarrow> 's result) \<Rightarrow> 's list_state \<Rightarrow> BlockDescriptor list \<Rightarrow> nat \<Rightarrow> 's list_state \<Rightarrow> bool" where
  "walked heap consume st ds k st' \<longleftrightarrow>
     efold (DescriptorState_Insert heap) (ls_state st) ds = Inr (ls_state st') \<and>
     efold consume (ls_consumed st) ds = Inr (ls_consumed st') \<and>
     list_block_count (ls_counts st') mod two64 = (list_block_count (ls_counts st) + k) mod two64 \<and>
     descriptor_count (ls_counts st') mod two64 = (descriptor_count (ls_counts st) + length ds) mod two64 \<and>
     list_all forwarder_ok ds"

lemma walked_append:
  assumes "walked heap consume st ds k st'" "walked heap consume st' ds' k' st''"
  shows "walked heap consume st (ds @ ds') (k + k') st''"
proof -
  have add: "e mod two64 = (c + (a + b)) mod two64"
    if "d mod two64 = (c + a) mod two64" "e mod two64 = (d + b) mod two64" for a b c d e :: nat
    using that by (metis add.assoc mod_add_left_eq)
  note a = assms(1) [unfolded walked_def] and b = assms(2) [unfolded walked_def]
  show ?thesis unfolding walked_def
  proof (intro conjI)
    show "efold (DescriptorState_Insert heap) (ls_state st) (ds @ ds') = Inr (ls_state st'')"
      "efold consume (ls_consumed st) (ds @ ds') = Inr (ls_consumed st'')"
      using a b by (simp_all only: efold_append ebind_simps)
    show "list_block_count (ls_counts st'') mod two64 = (list_block_count (ls_counts st) + (k + k')) mod two64"
      using a b by (intro add [of "list_block_count (ls_counts st')"]) blast+
    show "descriptor_count (ls_counts st'') mod two64 = (descriptor_count (ls_counts st) + length (ds @ ds')) mod two64"
      unfolding length_append using a b by (intro add [of "descriptor_count (ls_counts st')"]) blast+
    show "list_all forwarder_ok (ds @ ds')" using a b by (simp only: list_all_append)
  qed
qed

lemma list_records_walked:
  assumes "efold (list_record heap consume) st slots = Inr st'"
  shows "walked heap consume st (filter (\<lambda>d. \<not> empty_descriptor d) (map parse_descriptor slots)) 0 st' \<and>
    ls_visited st' = ls_visited st"
  using assms
proof (induction slots arbitrary: st)
  case (Cons bytes slots)
  then obtain st1 where st1: "list_record heap consume st bytes = Inr st1"
    and rest: "efold (list_record heap consume) st1 slots = Inr st'" by (auto simp: err_simps)
  note IH = Cons.IH [OF rest]
  show ?case
  proof (cases "empty_descriptor (parse_descriptor bytes)")
    case True
    then show ?thesis using list_record_Inr [OF st1] IH by auto
  next
    case False
    then have "walked heap consume st [parse_descriptor bytes] 0 st1" "ls_visited st1 = ls_visited st"
      using list_record_Inr [OF st1] by (auto simp: walked_def forwarder_ok_def add64_def)
    then show ?thesis using False walked_append [of heap consume st "[parse_descriptor bytes]" 0 st1] IH by auto
  qed
qed (simp add: walked_def)

definition list_block_ok :: "byte list \<Rightarrow> bool" where
  "list_block_ok data \<longleftrightarrow> HasIdentifier data 16 \<and> (ReadField data 16 :: 32 word) = 1 \<and> (ReadField data 20 :: 32 word) = 3"

lemma list_block_Inr:
  assumes "list_block heap src consume st offset = Inr (st', n)"
  obtains data where "RawSource_Read src vss_kBlockSize offset = Inr data" "list_block_ok data" "n = ReadField64 data 40"
    "VisitMetadataBlock heap (ls_visited st) offset ''the VSS descriptor-list chain repeated a metadata block'' = Inr (ls_visited st')"
    "walked heap consume st (block_records data) 1 st'"
proof -
  obtain data visited' header where d: "RawSource_Read src vss_kBlockSize offset = Inr data"
      "VisitMetadataBlock heap (ls_visited st) offset ''the VSS descriptor-list chain repeated a metadata block'' = Inr visited'"
      "ParseStoreBlockHeader data = Inr header" "sh_record_type header = 3" "n = sh_next_offset header"
    and e: "efold (list_record heap consume) (st\<lparr>ls_visited := visited',
        ls_counts := (ls_counts st)\<lparr>list_block_count := add64 (list_block_count (ls_counts st)) 1\<rparr>\<rparr>) (descriptor_slots data) = Inr st'"
    using assms by (auto simp: list_block_def err_simps)
  have "walked heap consume st [] 1 (st\<lparr>ls_visited := visited',
      ls_counts := (ls_counts st)\<lparr>list_block_count := add64 (list_block_count (ls_counts st)) 1\<rparr>\<rparr>)"
    by (simp add: walked_def add64_def)
  from walked_append [OF this conjunct1 [OF list_records_walked [OF e]]]
  have "walked heap consume st (block_records data) 1 st'" by (simp add: block_records_def)
  moreover have "list_block_ok data" "n = ReadField64 data 40"
    using d(3-5) by (auto simp: ParseStoreBlockHeader_def list_block_ok_def split: if_splits)
  moreover have "ls_visited st' = visited'" using conjunct2 [OF list_records_walked [OF e]] by simp
  ultimately show thesis using that d(1,2) by blast
qed

interpretation descriptor_list: metadata_chain "list_block heap src consume"
  "\<lambda>st. mb_inv vss_kBlockSize (ls_visited st)" "\<lambda>st. mb_abs vss_kBlockSize (ls_visited st)" for heap src consume
proof (unfold_locales, goal_cases)
  case (1 s offset s' n)
  then show ?case by (auto elim!: list_block_Inr)
next
  case (2 s offset s' n)
  then show ?case by (auto elim!: list_block_Inr dest: VisitMetadataBlock_spec(1))
next
  case (3 s offset s' n)
  then show ?case by (auto elim!: list_block_Inr dest: VisitMetadataBlock_spec(2))
next
  case (4 s offset s' n)
  then show ?case by (auto elim!: list_block_Inr dest: VisitMetadataBlock_spec(3))
qed

section \<open>Every reader returns\<close>

lemma ReadCatalog_returns: "offset < two64 \<Longrightarrow> \<exists>r. ReadCatalog heap src offset = Some r"
  using catalog.chain_returns [of "(MaybeBitmapSet_new (sub64 (vs_size src) 1), [])" offset heap src]
  by (auto simp: ReadCatalog_def)

lemma ReadCatalogOffset_lt: "ReadCatalogOffset data = Inr offset \<Longrightarrow> offset < two64"
  by (auto simp: ReadCatalogOffset_def Let_def err_simps)

lemma ReadStoreCatalog_returns: "\<exists>r. ReadStoreCatalog heap source = Some r"
proof -
  have "\<exists>r. ReadStores heap src = Some r" for src
  proof (cases "ReadStores heap src")
    case None
    then obtain data offset where "ReadCatalogOffset data = Inr offset" "ReadCatalog heap src offset = None"
      by (auto simp: ReadStores_def err_simps split: sum.splits)
    then show ?thesis using ReadCatalog_returns [OF ReadCatalogOffset_lt, of data offset heap src] by simp
  qed simp
  then show ?thesis by (cases source) (simp_all add: ReadStoreCatalog_def)
qed

lemma ReadDescriptorList_returns:
  "cs_list_offset store < two64 \<Longrightarrow> \<exists>r. ReadDescriptorList heap src store consume s = Some r"
  by (auto simp: ReadDescriptorList_def split: sum.splits intro!: descriptor_list.chain_returns)

lemma enumerate_stores_returns:
  "list_all (\<lambda>store. cs_list_offset store < two64) stores \<Longrightarrow> \<exists>r. enumerate_stores heap src consume stores counts s = Some r"
proof (induction stores arbitrary: counts s)
  case (Cons store stores)
  obtain r where "ReadDescriptorList heap src store consume s = Some r"
    using ReadDescriptorList_returns Cons.prems by fastforce
  then show ?case using Cons by (auto split: sum.splits)
qed simp

section \<open>What a descriptor list delivers\<close>

text \<open>The blocks of the list, in order: each one is well formed and names its successor.\<close>

fun list_chain :: "vss_source \<Rightarrow> nat \<Rightarrow> (nat \<times> byte list) list \<Rightarrow> bool" where
  "list_chain src offset [] \<longleftrightarrow> offset = 0"
| "list_chain src offset ((position, data) # blocks) \<longleftrightarrow> offset \<noteq> 0 \<and> position = offset \<and>
     RawSource_Read src vss_kBlockSize offset = Inr data \<and> list_block_ok data \<and>
     list_chain src (ReadField64 data 40) blocks"

definition chain_records :: "(nat \<times> byte list) list \<Rightarrow> BlockDescriptor list" where
  "chain_records blocks = concat (map (\<lambda>(_, data). block_records data) blocks)"

lemma trace_walked:
  assumes "trace (list_block heap src consume) st offset xs st'"
  shows "\<exists>blocks. map fst blocks = xs \<and> list_chain src offset blocks \<and>
    walked heap consume st (chain_records blocks) (length blocks) st'"
  using assms
proof (induction xs arbitrary: st offset)
  case Nil
  then show ?case by (simp add: walked_def chain_records_def)
next
  case (Cons x xs)
  then obtain st1 n where b: "list_block heap src consume st offset = Inr (st1, n)"
    and t: "trace (list_block heap src consume) st1 n xs st'" and x: "x = offset" "offset \<noteq> 0" by auto
  from b obtain data where data: "RawSource_Read src vss_kBlockSize offset = Inr data" "list_block_ok data"
      "n = ReadField64 data 40" "walked heap consume st (block_records data) 1 st1"
    by (rule list_block_Inr)
  from Cons.IH [OF t] obtain blocks where bl: "map fst blocks = xs" "list_chain src n blocks"
      "walked heap consume st1 (chain_records blocks) (length blocks) st'" by blast
  have "walked heap consume st (chain_records ((offset, data) # blocks)) (length ((offset, data) # blocks)) st'"
    using walked_append [OF data(4) bl(3)] by (simp add: chain_records_def)
  then show ?case using bl(1,2) data(1-3) x by (intro exI [of _ "(offset, data) # blocks"]) simp
qed

lemma list_record_counts_lt:
  assumes "list_record heap consume st bytes = Inr st'"
    and "list_block_count (ls_counts st) < two64" "descriptor_count (ls_counts st) < two64"
  shows "list_block_count (ls_counts st') < two64 \<and> descriptor_count (ls_counts st') < two64"
  using list_record_Inr [OF assms(1)] assms(2,3) by auto

lemma trace_counts_lt:
  assumes "trace (list_block heap src consume) st offset xs st'"
    and "list_block_count (ls_counts st) < two64 \<and> descriptor_count (ls_counts st) < two64"
  shows "list_block_count (ls_counts st') < two64 \<and> descriptor_count (ls_counts st') < two64"
  using assms
proof (induction xs arbitrary: st offset)
  case (Cons x xs)
  then obtain st1 n where b: "list_block heap src consume st offset = Inr (st1, n)"
    and t: "trace (list_block heap src consume) st1 n xs st'" by auto
  from b obtain data visited' where e: "efold (list_record heap consume) (st\<lparr>ls_visited := visited',
      ls_counts := (ls_counts st)\<lparr>list_block_count := add64 (list_block_count (ls_counts st)) 1\<rparr>\<rparr>) (descriptor_slots data) = Inr st1"
    by (auto simp: list_block_def err_simps)
  have "list_block_count (ls_counts st1) < two64 \<and> descriptor_count (ls_counts st1) < two64"
  proof (rule efold_invariant [OF e], goal_cases)
    case 1
    then show ?case using Cons.prems(2) by simp
  next
    case (2 s x s')
    then show ?case using list_record_counts_lt by blast
  qed
  then show ?case using Cons.IH [OF t] by blast
qed simp

lemma length_block_records: "length (block_records data) \<le> 508"
  using length_filter_le [of "\<lambda>d. \<not> empty_descriptor d" "map parse_descriptor (descriptor_slots data)"]
  by (simp add: block_records_def descriptor_slots_def)

lemma length_chain_records: "length (chain_records blocks) \<le> 508 * length blocks"
proof (induction blocks)
  case (Cons b blocks)
  then show ?case using length_block_records [of "snd b"] by (cases b) (simp add: chain_records_def)
qed (simp add: chain_records_def)

text \<open>
  A list that is read to its end consists of distinct blocks; every nonempty record was
  accepted by the validation and given to the consumer, in order, and the counts are exact.
\<close>

lemma ReadDescriptorList_spec:
  assumes "ReadDescriptorList heap src store consume s = Some (Inr (counts, s'))" "cs_list_offset store < two64"
  shows "\<exists>blocks state state'. list_chain src (cs_list_offset store) blocks \<and>
    distinct (map (metadata_block \<circ> fst) blocks) \<and>
    DescriptorState_new (cs_volume_size store) = Inr state \<and>
    efold (DescriptorState_Insert heap) state (chain_records blocks) = Inr state' \<and>
    efold consume s (chain_records blocks) = Inr s' \<and> list_all forwarder_ok (chain_records blocks) \<and>
    list_block_count counts = length blocks \<and> descriptor_count counts = length (chain_records blocks)"
proof -
  obtain state where st: "DescriptorState_new (cs_volume_size store) = Inr state"
    using assms(1) by (auto simp: ReadDescriptorList_def split: sum.splits)
  define st0 where "st0 = \<lparr>ls_visited = MaybeBitmapSet_new (sub64 (vs_size src) 1), ls_state = state, ls_consumed = s,
      ls_counts = \<lparr>list_block_count = 0, descriptor_count = 0\<rparr>\<rparr>"
  have good: "mb_inv vss_kBlockSize (ls_visited st0)" by (simp add: st0_def)
  obtain st' where c: "chain (list_block heap src consume) st0 (cs_list_offset store) = Some (Inr st')"
    and r: "counts = ls_counts st'" "s' = ls_consumed st'"
    using assms(1) st by (auto simp: ReadDescriptorList_def st0_def err_simps)
  from descriptor_list.chain_trace [OF c good assms(2)] obtain xs
    where xs: "trace (list_block heap src consume) st0 (cs_list_offset store) xs st'"
      "distinct (map metadata_block xs)" "\<And>x. x \<in> set xs \<Longrightarrow> x < two64" by blast
  from trace_walked [OF xs(1)] obtain blocks where bl: "map fst blocks = xs"
      "list_chain src (cs_list_offset store) blocks"
      "walked heap consume st0 (chain_records blocks) (length blocks) st'" by blast
  have n: "length blocks \<le> 1125899906842624"
    using chain_length [OF xs(2,3)] bl(1) by (metis length_map)
  then have m: "length (chain_records blocks) < two64" using length_chain_records [of blocks] by linarith
  have "list_block_count (ls_counts st') < two64 \<and> descriptor_count (ls_counts st') < two64"
    by (rule trace_counts_lt [OF xs(1)]) (simp add: st0_def)
  then have "list_block_count counts = length blocks" "descriptor_count counts = length (chain_records blocks)"
    using bl(3) n m r(1) by (simp_all add: walked_def st0_def)
  moreover have "distinct (map (metadata_block \<circ> fst) blocks)" using xs(2) bl(1) by (metis map_map)
  ultimately show ?thesis using st bl(2,3) r(2) by (auto simp: walked_def st0_def)
qed

section \<open>The validation of the records\<close>

text \<open>The validation on plain sets: the forward and the reverse keys, \<open>None\<close> for a rejected record.\<close>

definition insert_descriptor :: "nat \<Rightarrow> nat set \<times> nat set \<Rightarrow> BlockDescriptor \<Rightarrow> (nat set \<times> nat set) option" where
  "insert_descriptor volume_size = (\<lambda>(F, R) d.
     let overlay = bit (bd_flags d) 1; forwarder = bit (bd_flags d) 0;
         original = metadata_block (bd_original_offset d); target = metadata_block (bd_relative_offset d);
         self = (forwarder \<and> bd_original_offset d = bd_relative_offset d)
     in if bit (bd_flags d) 2 \<or> overlay \<and> self then Some (F, R)
        else if volume_size \<le> bd_original_offset d then None
        else
          let found = (\<not> overlay \<and> original \<in> R); R' = (if found then R - {original} else R)
          in if \<not> found \<and> self then Some (F, R')
             else if \<not> found \<and> overlay \<and> original \<in> F then Some (F, R')
             else
               let F' = (if found then F else insert original F)
               in if \<not> forwarder then Some (F', R')
                  else if volume_size \<le> bd_relative_offset d then None
                  else Some (F', insert target R'))"

definition ds_abs :: "DescriptorState \<Rightarrow> nat set \<times> nat set" where
  "ds_abs st = (bs_set vss_kBlockSize (ds_forward st), bs_set vss_kBlockSize (ds_reverse st))"

definition ds_inv :: "DescriptorState \<Rightarrow> bool" where
  "ds_inv st \<longleftrightarrow> ds_volume_size st < two64 \<and>
     bs_inv vss_kBlockSize (ds_forward st) \<and> bs_inv vss_kBlockSize (ds_reverse st) \<and>
     (\<forall>v < ds_volume_size st. v div vss_kBlockSize div 64 < rv_max (bm_words (ds_forward st)) \<and>
        v div vss_kBlockSize div 64 < rv_max (bm_words (ds_reverse st))) \<and>
     fst (ds_abs st) \<union> snd (ds_abs st) \<subseteq> {..<ds_volume_size st}"

lemma DescriptorState_new_inv:
  assumes "DescriptorState_new n = Inr st"
  shows "ds_inv st" "ds_volume_size st = n" "ds_abs st = ({}, {})" "0 < n"
proof -
  have n: "0 < n" "n < 9223372036854775808"
    and st: "st = \<lparr>ds_volume_size = n, ds_forward = BitmapSet_new vss_kBlockSize (sub64 n 1), ds_reverse = BitmapSet_new vss_kBlockSize (sub64 n 1)\<rparr>"
    using assms by (auto simp: DescriptorState_new_def in_type_def i64_def split: if_splits)
  have "sub64 n 1 = n - 1" using n by (intro sub64_exact) simp_all
  then have "v div vss_kBlockSize div 64 < rv_max (bm_words (BitmapSet_new vss_kBlockSize (sub64 n 1)))" if "v < n" for v
    using BitmapSet_new_room [of vss_kBlockSize "n - 1" v] that n by auto
  then show "ds_inv st" "ds_volume_size st = n" "ds_abs st = ({}, {})" "0 < n"
    using n unfolding st ds_inv_def ds_abs_def by auto
qed

lemma and_flag_bits:
  "(w :: 32 word) AND kForwarderFlag \<noteq> 0 \<longleftrightarrow> bit w 0"
  "w AND kOverlayFlag \<noteq> 0 \<longleftrightarrow> bit w 1"
  "w AND kNotUsedFlag \<noteq> 0 \<longleftrightarrow> bit w 2"
  using and_exp_eq_0_iff_not_bit [of w 0] and_exp_eq_0_iff_not_bit [of w 1] and_exp_eq_0_iff_not_bit [of w 2] by simp_all

lemma ds_key:
  assumes "ds_inv st" "offset < ds_volume_size st"
  shows "and_not64 offset (vss_kBlockSize - 1) = metadata_block offset" "metadata_block offset < ds_volume_size st"
    "metadata_block offset < two64"
proof -
  have "offset < two64" using assms by (simp add: ds_inv_def)
  then show "and_not64 offset (vss_kBlockSize - 1) = metadata_block offset" by (rule and_not64_block)
  show "metadata_block offset < ds_volume_size st" "metadata_block offset < two64"
    using assms(2) \<open>offset < two64\<close> metadata_block_le [of offset] by linarith+
qed

lemma key_insert:
  assumes "bs_inv vss_kBlockSize s" "\<forall>n. heap n" "k < two64" "k mod vss_kBlockSize = 0"
    "k div vss_kBlockSize div 64 < rv_max (bm_words s)"
  obtains s' where "BitmapSet_insert heap vss_kBlockSize s k = Inr (k \<notin> bs_set vss_kBlockSize s, s')" "bs_inv vss_kBlockSize s'"
    "bs_set vss_kBlockSize s' = insert k (bs_set vss_kBlockSize s)" "rv_max (bm_words s') = rv_max (bm_words s)"
proof -
  obtain r s' where r: "BitmapSet_insert heap vss_kBlockSize s k = Inr (r, s')"
    using insert_aligned_total [of vss_kBlockSize s k heap] assms unfolding BitmapSet_insert_def by auto
  show thesis using BitmapSet_insert_spec [OF assms(1,3) r] r by (intro that [of s']) simp_all
qed

lemma ds_insert_reverse:
  assumes "ds_inv st" "\<forall>n. heap n" "offset < ds_volume_size st"
  obtains r s' where "BitmapSet_insert heap vss_kBlockSize (ds_reverse st) (metadata_block offset) = Inr (r, s')"
    "ds_inv (st\<lparr>ds_reverse := s'\<rparr>)"
    "ds_abs (st\<lparr>ds_reverse := s'\<rparr>) = (fst (ds_abs st), insert (metadata_block offset) (snd (ds_abs st)))"
proof -
  note key = ds_key [OF assms(1,3)]
  obtain s' where "BitmapSet_insert heap vss_kBlockSize (ds_reverse st) (metadata_block offset) =
      Inr (metadata_block offset \<notin> bs_set vss_kBlockSize (ds_reverse st), s')" "bs_inv vss_kBlockSize s'"
      "bs_set vss_kBlockSize s' = insert (metadata_block offset) (bs_set vss_kBlockSize (ds_reverse st))"
      "rv_max (bm_words s') = rv_max (bm_words (ds_reverse st))"
    by (rule key_insert [of "ds_reverse st" heap "metadata_block offset"])
      (use assms key metadata_block_mod in \<open>simp_all add: ds_inv_def\<close>)
  then show thesis using assms(1) key(2) by (intro that) (auto simp: ds_inv_def ds_abs_def)
qed

lemma ds_insert_forward:
  assumes "ds_inv st" "\<forall>n. heap n" "offset < ds_volume_size st"
  obtains s' where "BitmapSet_insert heap vss_kBlockSize (ds_forward st) (metadata_block offset) =
      Inr (metadata_block offset \<notin> fst (ds_abs st), s')" "ds_inv (st\<lparr>ds_forward := s'\<rparr>)"
    "ds_abs (st\<lparr>ds_forward := s'\<rparr>) = (insert (metadata_block offset) (fst (ds_abs st)), snd (ds_abs st))"
proof -
  note key = ds_key [OF assms(1,3)]
  obtain s' where "BitmapSet_insert heap vss_kBlockSize (ds_forward st) (metadata_block offset) =
      Inr (metadata_block offset \<notin> bs_set vss_kBlockSize (ds_forward st), s')" "bs_inv vss_kBlockSize s'"
      "bs_set vss_kBlockSize s' = insert (metadata_block offset) (bs_set vss_kBlockSize (ds_forward st))"
      "rv_max (bm_words s') = rv_max (bm_words (ds_forward st))"
    by (rule key_insert [of "ds_forward st" heap "metadata_block offset"])
      (use assms key metadata_block_mod in \<open>simp_all add: ds_inv_def\<close>)
  then show thesis using assms(1) key(2) by (intro that) (auto simp: ds_inv_def ds_abs_def)
qed

lemma ds_erase:
  assumes "ds_inv st"
  obtains n s' where "BitmapSet_erase vss_kBlockSize (ds_reverse st) (metadata_block offset) = Inr (n, s')"
    "n \<noteq> 0 \<longleftrightarrow> metadata_block offset \<in> snd (ds_abs st)" "ds_inv (st\<lparr>ds_reverse := s'\<rparr>)"
    "ds_abs (st\<lparr>ds_reverse := s'\<rparr>) = (fst (ds_abs st), snd (ds_abs st) - {metadata_block offset})"
proof -
  obtain n s' where e: "BitmapSet_erase vss_kBlockSize (ds_reverse st) (metadata_block offset) = Inr (n, s')"
    using erase_total [of vss_kBlockSize] metadata_block_mod by fastforce
  note sp = BitmapSet_erase_spec [OF _ e]
  show thesis using assms sp e by (intro that [OF e]) (auto simp: ds_inv_def ds_abs_def)
qed

text \<open>The steps before the forwarder target is recorded.\<close>

lemma insert_original_refines:
  assumes "ds_inv st" "\<forall>n. heap n" "offset < ds_volume_size st" "\<not> (overlay \<and> self)"
    and "original = metadata_block offset" "ds_abs st = (F, R)"
  defines "found \<equiv> \<not> overlay \<and> original \<in> R"
  shows "\<exists>st1. insert_original heap st overlay self original =
      Inr (\<not> found \<and> (self \<or> overlay \<and> original \<in> F), st1) \<and> ds_inv st1 \<and> ds_volume_size st1 = ds_volume_size st \<and>
      ds_abs st1 = (if found \<or> self then F else insert original F, if found then R - {original} else R)"
proof -
  have "\<exists>n s'. (if \<not> overlay then BitmapSet_erase vss_kBlockSize (ds_reverse st) original else Inr (0, ds_reverse st)) = Inr (n, s') \<and>
      (\<not> overlay \<and> n \<noteq> 0 \<longleftrightarrow> found) \<and> ds_inv (st\<lparr>ds_reverse := s'\<rparr>) \<and>
      ds_abs (st\<lparr>ds_reverse := s'\<rparr>) = (F, if found then R - {original} else R)"
  proof (cases overlay)
    case True
    then show ?thesis using assms(1,6) by (auto simp: found_def ds_abs_def)
  next
    case False
    obtain n s' where "BitmapSet_erase vss_kBlockSize (ds_reverse st) original = Inr (n, s')"
      "n \<noteq> 0 \<longleftrightarrow> original \<in> R" "ds_inv (st\<lparr>ds_reverse := s'\<rparr>)" "ds_abs (st\<lparr>ds_reverse := s'\<rparr>) = (F, R - {original})"
      using ds_erase [OF assms(1), of offset] assms(5,6) by auto
    then show ?thesis using False by (auto simp: found_def)
  qed
  then obtain n s' where e: "(if \<not> overlay then BitmapSet_erase vss_kBlockSize (ds_reverse st) original else Inr (0, ds_reverse st)) = Inr (n, s')"
      "\<not> overlay \<and> n \<noteq> 0 \<longleftrightarrow> found" and st1: "ds_inv (st\<lparr>ds_reverse := s'\<rparr>)"
      "ds_abs (st\<lparr>ds_reverse := s'\<rparr>) = (F, if found then R - {original} else R)" by blast
  let ?st1 = "st\<lparr>ds_reverse := s'\<rparr>"
  obtain f' where f': "BitmapSet_insert heap vss_kBlockSize (ds_forward ?st1) original = Inr (original \<notin> F, f')"
      "ds_inv (?st1\<lparr>ds_forward := f'\<rparr>)" "ds_abs (?st1\<lparr>ds_forward := f'\<rparr>) = (insert original F, if found then R - {original} else R)"
    using ds_insert_forward [OF st1(1) assms(2), of offset] assms(3,5) st1(2) by auto
  show ?thesis
  proof (cases "found \<or> self")
    case True
    then show ?thesis using e st1 assms(4) by (auto simp: insert_original_def Let_def found_def)
  next
    case False
    have "insert_original heap st overlay self original = Inr (overlay \<and> original \<in> F, ?st1\<lparr>ds_forward := f'\<rparr>)"
      unfolding insert_original_def e(1) using False e(2) f'(1) by (auto simp: Let_def)
    then show ?thesis using False f'(2,3) by auto
  qed
qed

lemma DescriptorState_Insert_refines:
  assumes "ds_inv st" "\<forall>n. heap n"
  shows "case DescriptorState_Insert heap st d of
      Inr st' \<Rightarrow> ds_inv st' \<and> ds_volume_size st' = ds_volume_size st \<and> insert_descriptor (ds_volume_size st) (ds_abs st) d = Some (ds_abs st')
    | Inl e \<Rightarrow> (\<exists>m. e = RuntimeError m) \<and> insert_descriptor (ds_volume_size st) (ds_abs st) d = None"
proof -
  let ?overlay = "bit (bd_flags d) 1" and ?forwarder = "bit (bd_flags d) 0"
  let ?self = "?forwarder \<and> bd_original_offset d = bd_relative_offset d"
  obtain F R where FR: "ds_abs st = (F, R)" by fastforce
  show ?thesis
  proof (cases "bit (bd_flags d) 2 \<or> ?overlay \<and> ?self \<or> ds_volume_size st \<le> bd_original_offset d")
    case True
    then show ?thesis using assms(1) FR
      by (auto simp: DescriptorState_Insert_def insert_descriptor_def and_flag_bits DescriptorState_Key_def Let_def)
  next
    case False
    let ?original = "metadata_block (bd_original_offset d)"
    let ?found = "\<not> ?overlay \<and> ?original \<in> R"
    have lt: "bd_original_offset d < ds_volume_size st" and ov: "\<not> (?overlay \<and> ?self)" using False by auto
    from insert_original_refines [OF assms(1,2) lt ov refl FR] obtain st1
      where st1: "insert_original heap st ?overlay ?self ?original = Inr (\<not> ?found \<and> (?self \<or> ?overlay \<and> ?original \<in> F), st1)"
        "ds_inv st1" "ds_volume_size st1 = ds_volume_size st"
        "ds_abs st1 = (if ?found \<or> ?self then F else insert ?original F, if ?found then R - {?original} else R)" by auto
    have ins: "DescriptorState_Insert heap st d =
        (if \<not> ?found \<and> (?self \<or> ?overlay \<and> ?original \<in> F) \<or> \<not> ?forwarder then Inr st1
         else ebind (DescriptorState_Key st1 (bd_relative_offset d) ''a VSS forwarder target'') (\<lambda>target.
              ebind (BitmapSet_insert heap vss_kBlockSize (ds_reverse st1) target) (\<lambda>(_, reverse'). Inr (st1\<lparr>ds_reverse := reverse'\<rparr>))))"
    proof -
      have "DescriptorState_Key st (bd_original_offset d) m = Inr ?original" for m
        using lt ds_key(1) [OF assms(1) lt] by (simp add: DescriptorState_Key_def)
      moreover have "\<not> bit (bd_flags d) 2" using False by blast
      ultimately show ?thesis unfolding DescriptorState_Insert_def and_flag_bits Let_def
        by (simp only: ov if_False ebind_simps st1(1) prod.case)
    qed
    show ?thesis
    proof (cases "\<not> ?found \<and> (?self \<or> ?overlay \<and> ?original \<in> F) \<or> \<not> ?forwarder")
      case True
      then show ?thesis unfolding ins using False st1(2-4) FR by (auto simp: insert_descriptor_def Let_def)
    next
      case go: False
      show ?thesis
      proof (cases "ds_volume_size st \<le> bd_relative_offset d")
        case True
        then show ?thesis unfolding ins using go False st1(3) FR
          by (auto simp: insert_descriptor_def DescriptorState_Key_def Let_def)
      next
        case rel: False
        then have rel1: "bd_relative_offset d < ds_volume_size st1" using st1(3) by simp
        obtain r s' where "BitmapSet_insert heap vss_kBlockSize (ds_reverse st1) (metadata_block (bd_relative_offset d)) = Inr (r, s')"
          "ds_inv (st1\<lparr>ds_reverse := s'\<rparr>)" "ds_abs (st1\<lparr>ds_reverse := s'\<rparr>) = (fst (ds_abs st1), insert (metadata_block (bd_relative_offset d)) (snd (ds_abs st1)))"
          using ds_insert_reverse [OF st1(2) assms(2) rel1] by metis
        then show ?thesis unfolding ins using go False rel st1(3,4) FR ds_key(1) [OF st1(2) rel1]
          by (auto simp: insert_descriptor_def DescriptorState_Key_def Let_def)
      qed
    qed
  qed
qed

text \<open>Keys of rejected and accepted records: an accepted list has only used originals inside the volume.\<close>

definition original_checked :: "nat \<Rightarrow> BlockDescriptor \<Rightarrow> bool" where
  "original_checked volume_size d \<longleftrightarrow> bit (bd_flags d) 2 \<or>
     bit (bd_flags d) 1 \<and> bit (bd_flags d) 0 \<and> bd_original_offset d = bd_relative_offset d \<or>
     bd_original_offset d < volume_size"

lemma Insert_checked:
  "DescriptorState_Insert heap st d = Inr st' \<Longrightarrow> original_checked (ds_volume_size st) d \<and> ds_volume_size st' = ds_volume_size st"
proof -
  assume ok: "DescriptorState_Insert heap st d = Inr st'"
  have vol: "ds_volume_size st1 = ds_volume_size st" if "insert_original heap st ov self original = Inr (fin, st1)" for ov self original fin st1
    using that by (auto simp: insert_original_def Let_def err_simps split: if_splits)
  show ?thesis
  proof (cases "bit (bd_flags d) 2 \<or> bit (bd_flags d) 1 \<and> bit (bd_flags d) 0 \<and> bd_original_offset d = bd_relative_offset d")
    case True
    then have "original_checked (ds_volume_size st) d" unfolding original_checked_def by blast
    moreover have "st' = st" using ok True unfolding DescriptorState_Insert_def Let_def and_flag_bits by (auto split: if_split_asm)
    ultimately show ?thesis by simp
  next
    case False
    let ?overlay = "bit (bd_flags d) 1"
    let ?self = "bit (bd_flags d) 0 \<and> bd_original_offset d = bd_relative_offset d"
    obtain original fin st1 where k: "DescriptorState_Key st (bd_original_offset d)
        (if ?overlay then ''a VSS forward descriptor offset'' else ''a VSS reverse descriptor offset'') = Inr original"
      and i: "insert_original heap st ?overlay ?self original = Inr (fin, st1)"
      and s': "st' = st1 \<or> (\<exists>R. st' = st1\<lparr>ds_reverse := R\<rparr>)"
      using ok False unfolding DescriptorState_Insert_def and_flag_bits Let_def
      by (auto simp: ebind_eq_Inr split: if_split_asm) blast+
    have "bd_original_offset d < ds_volume_size st" using k by (simp add: DescriptorState_Key_def split: if_split_asm)
    then show ?thesis using vol [OF i] s' by (auto simp: original_checked_def)
  qed
qed

lemma efold_Insert_checked:
  "efold (DescriptorState_Insert heap) st ds = Inr st' \<Longrightarrow> list_all (original_checked (ds_volume_size st)) ds"
proof (induction ds arbitrary: st)
  case (Cons d ds)
  then obtain st1 where st1: "DescriptorState_Insert heap st d = Inr st1" "efold (DescriptorState_Insert heap) st1 ds = Inr st'"
    by (auto simp: err_simps)
  show ?case using Insert_checked [OF st1(1)] Cons.IH [OF st1(2)] by simp
qed simp

section \<open>Reading the source\<close>

text \<open>The requests for whole sectors: aligned, covering the wanted bytes, and no longer than the buffer.\<close>

lemma raw_range_spec:
  assumes "0 < sector" "offset + requested + sector < two64" "0 < requested"
  defines "first \<equiv> fst (raw_range sector offset requested)" and "len \<equiv> snd (raw_range sector offset requested)"
  shows "first mod sector = 0" "len mod sector = 0" "first \<le> offset" "offset + requested \<le> first + len"
    "len \<le> requested + 2 * (sector - 1)"
proof -
  let ?e = "offset + requested"
  define up where "up = (if ?e mod sector \<noteq> 0 then ?e + (sector - ?e mod sector) else ?e)"
  have r: "?e mod sector < sector" "offset mod sector < sector" "offset mod sector \<le> offset" using assms(1) by simp_all
  have "add64 offset requested = ?e" using assms(2) by (intro add64_exact) linarith
  moreover have "add64 ?e (sector - ?e mod sector) = ?e + (sector - ?e mod sector)"
    using assms(2) r by (intro add64_exact) linarith
  moreover have "sub64 up (offset - offset mod sector) = up - (offset - offset mod sector)"
  proof (rule sub64_exact)
    have "offset \<le> up" "up < two64" using assms(2) r unfolding up_def by (simp_all only: split: if_split) linarith+
    then show "offset - offset mod sector \<le> up" "up < two64" by linarith+
  qed
  ultimately have eq: "first = offset - offset mod sector" "len = up - (offset - offset mod sector)"
    unfolding first_def len_def raw_range_def Let_def by (simp_all add: up_def cong: if_cong)
  show "first mod sector = 0" unfolding eq using assms(1) by (rule round_down(1))
  have um: "up mod sector = 0"
  proof (cases "?e mod sector = 0")
    case False
    then have "up = (?e - ?e mod sector) + sector" using r(1) by (simp add: up_def)
    then show ?thesis using round_down(1) [OF assms(1), of ?e] by (simp only: mod_add_self2)
  qed (simp add: up_def)
  have fu: "first \<le> up" using eq(1) by (simp add: up_def) linarith
  then show "len mod sector = 0" unfolding eq(2) eq(1) [symmetric]
    using um \<open>first mod sector = 0\<close> by (metis dvd_diff_nat dvd_eq_mod_eq_0)
  show "first \<le> offset" using eq(1) by simp
  show "?e \<le> first + len" "len \<le> requested + 2 * (sector - 1)"
  proof -
    have up: "?e \<le> up" "up \<le> ?e + (sector - 1)" using r(1) unfolding up_def by (simp_all only: split: if_split) linarith+
    moreover have "first + len = up" using fu eq by linarith
    moreover have "offset \<le> first + (sector - 1)" using eq(1) r(2,3) by linarith
    ultimately show "?e \<le> first + len" "len \<le> requested + 2 * (sector - 1)" by linarith+
  qed
qed

text \<open>A source that exposes an image: a complete reply holds the bytes of the image.\<close>

definition source_of :: "(nat \<Rightarrow> byte) \<Rightarrow> vss_source \<Rightarrow> bool" where
  "source_of img src \<longleftrightarrow> vs_size src + vs_sector_size src < two64 \<and>
     (\<forall>p n bytes. vs_read src p n = Inr bytes \<longrightarrow> length bytes = n \<longrightarrow> bytes = image_bytes img p n)"

lemma RawSource_Read_spec:
  assumes "source_of img src" "0 < sz" "RawSource_Read src sz offset = Inr data"
  shows "data = image_bytes img offset sz" "offset + sz \<le> vs_size src"
proof -
  have b: "offset + sz \<le> vs_size src" using assms(3) by (auto simp: RawSource_Read_def split: if_splits)
  have exact: "bytes = image_bytes img p n" if "ReadExact src p n = Inr bytes" for p n bytes
    using that assms(1) by (auto simp: ReadExact_def source_of_def split: sum.splits if_splits)
  have "data = image_bytes img offset sz"
  proof (cases "vs_sector_size src = 0")
    case True
    then show ?thesis using assms(3) b by (auto simp: RawSource_Read_def err_simps dest!: exact)
  next
    case False
    obtain first len where fl: "raw_range (vs_sector_size src) offset sz = (first, len)" by fastforce
    obtain bytes raw_size where r: "FailFastCast u32 (int len) = Inr raw_size" "ReadExact src first (nat raw_size) = Inr bytes"
        "data = take sz (drop (offset - first) bytes)"
      using assms(3) False b fl by (auto simp: RawSource_Read_def ReadRawExact_def err_simps)
    have "bytes = image_bytes img first len" using exact [OF r(2)] r(1) by (auto simp: FailFastCast_eq)
    moreover have "first \<le> offset" "offset + sz \<le> first + len"
      using raw_range_spec(3,4) [of "vs_sector_size src" offset sz] False b assms(1,2) fl by (auto simp: source_of_def)
    ultimately show ?thesis using r(3) by simp
  qed
  then show "data = image_bytes img offset sz" "offset + sz \<le> vs_size src" using b by simp_all
qed

text \<open>An opened source has a buffer for the longest request.\<close>

lemma RawSource_Open_buffer:
  assumes "RawSource_Open ordinal_equal create_file path = Inr src" "offset + sz + vs_sector_size src < two64"
    and "0 < sz" "sz \<le> vss_kBlockSize"
  shows "sz \<le> vs_buffer_size src"
    and "0 < vs_sector_size src \<Longrightarrow> snd (raw_range (vs_sector_size src) offset sz) \<le> vs_buffer_size src"
proof -
  have b: "vs_buffer_size src = vss_kBlockSize + (if vs_sector_size src = 0 then 0 else 2 * (vs_sector_size src - 1))"
    using assms(1) by (auto simp: RawSource_Open_def Let_def err_simps split: sum.splits prod.splits if_splits)
  then show "sz \<le> vs_buffer_size src" using assms(4) by simp
  show "snd (raw_range (vs_sector_size src) offset sz) \<le> vs_buffer_size src" if "0 < vs_sector_size src"
    using raw_range_spec(5) [OF that assms(2,3)] b that assms(4) by simp
qed

section \<open>Selecting the interval\<close>

lemma select_loop_spec:
  "select_loop stores g selected = Inr r \<longleftrightarrow>
     (case selected of
        None \<Rightarrow> (case r of None \<Rightarrow> filter (\<lambda>s. cs_has_in_volume_data s \<and> cs_snapshot_identifier s = Some g) stores = []
                        | Some st \<Rightarrow> filter (\<lambda>s. cs_has_in_volume_data s \<and> cs_snapshot_identifier s = Some g) stores = [st])
      | Some st \<Rightarrow> r = Some st \<and> filter (\<lambda>s. cs_has_in_volume_data s \<and> cs_snapshot_identifier s = Some g) stores = [])"
  by (induction stores g selected rule: select_loop.induct) (auto split: option.splits)

lemma SelectCatalogStore_spec:
  "SelectCatalogStore stores g = Inr st \<longleftrightarrow>
     filter (\<lambda>s. cs_has_in_volume_data s \<and> cs_snapshot_identifier s = Some g) stores = [st]"
  by (auto simp: SelectCatalogStore_def err_simps select_loop_spec split: option.splits)

lemma filter_singleton_mset:
  assumes "mset xs = mset ys"
  shows "filter p xs = [x] \<longleftrightarrow> filter p ys = [x]"
  using assms by (metis mset_filter mset_single_iff)

lemma SelectCatalogStore_order:
  "mset stores = mset stores' \<Longrightarrow> SelectCatalogStore stores g = Inr st \<longleftrightarrow> SelectCatalogStore stores' g = Inr st"
  unfolding SelectCatalogStore_spec by (rule filter_singleton_mset)

text \<open>The checks pass exactly when creation times increase strictly and every store is usable.\<close>

definition usable :: "nat \<Rightarrow> CatalogStore \<Rightarrow> bool" where
  "usable n s \<longleftrightarrow> cs_has_in_volume_data s \<and> cs_volume_size s = n"

lemma check_interval_spec:
  assumes "sorted (map cs_creation_time stores)" "\<forall>p \<in> set_option previous. \<forall>s \<in> set stores. cs_creation_time p \<le> cs_creation_time s"
  shows "check_interval n previous stores = Inr () \<longleftrightarrow>
     distinct (map cs_creation_time stores) \<and> (\<forall>p \<in> set_option previous. \<forall>s \<in> set stores. cs_creation_time p < cs_creation_time s) \<and>
     list_all (usable n) stores"
  using assms
proof (induction n previous stores rule: check_interval.induct)
  case (2 n previous store stores)
  let ?tie = "case previous of None \<Rightarrow> False | Some p \<Rightarrow> cs_creation_time p = cs_creation_time store"
  have tie: "\<not> ?tie \<longleftrightarrow> (\<forall>p \<in> set_option previous. cs_creation_time p < cs_creation_time store)"
    using 2(3) by (auto split: option.splits)
  have later: "(\<forall>p \<in> set_option previous. \<forall>s \<in> set (store # stores). cs_creation_time p < cs_creation_time s) \<longleftrightarrow>
      (\<forall>p \<in> set_option previous. cs_creation_time p < cs_creation_time store)"
    using 2(2) by (fastforce intro: less_le_trans)
  have dist: "distinct (map cs_creation_time (store # stores)) \<longleftrightarrow>
      distinct (map cs_creation_time stores) \<and> (\<forall>s \<in> set stores. cs_creation_time store < cs_creation_time s)"
    using 2(2) by (auto simp: less_le)
  have "check_interval n (Some store) stores = Inr () \<longleftrightarrow>
     distinct (map cs_creation_time stores) \<and> (\<forall>s \<in> set stores. cs_creation_time store < cs_creation_time s) \<and> list_all (usable n) stores"
    if "cs_has_in_volume_data store" "cs_volume_size store = n" "\<not> ?tie"
    using 2(1) [OF that(3)] 2(2) that(1,2) by simp
  then show ?case unfolding later dist tie [symmetric] check_interval.simps(2)
    by (cases ?tie; cases "cs_has_in_volume_data store"; cases "cs_volume_size store = n") (simp_all add: usable_def [of n store])
qed simp

definition in_interval :: "CatalogStore \<Rightarrow> CatalogStore \<Rightarrow> CatalogStore \<Rightarrow> bool" where
  "in_interval baseline payload s \<longleftrightarrow> cs_creation_time baseline \<le> cs_creation_time s \<and> cs_creation_time s \<le> cs_creation_time payload"

lemma check_interval_unit: "check_interval n previous stores = Inr u \<longleftrightarrow> check_interval n previous stores = Inr ()"
  by (cases u) simp

text \<open>An interval exists exactly when both ends are unambiguous and the stores between them can be ordered and used.\<close>

lemma select_interval_Inr:
  "select_interval stores b p = Inr iv \<longleftrightarrow>
     (\<exists>baseline payload. SelectCatalogStore stores b = Inr baseline \<and> SelectCatalogStore stores p = Inr payload \<and>
        cs_creation_time baseline < cs_creation_time payload \<and>
        distinct (map cs_creation_time (filter (in_interval baseline payload) stores)) \<and>
        list_all (usable (cs_volume_size payload)) (filter (in_interval baseline payload) stores) \<and>
        iv = \<lparr>ci_payload = payload, ci_stores = butlast (sort_key cs_creation_time (filter (in_interval baseline payload) stores))\<rparr>)"
proof -
  have check: "check_interval n None (sort_key cs_creation_time xs) = Inr () \<longleftrightarrow>
      distinct (map cs_creation_time xs) \<and> list_all (usable n) xs" for n xs
  proof -
    have "distinct (map cs_creation_time (sort_key cs_creation_time xs)) \<longleftrightarrow> distinct (map cs_creation_time xs)"
      by (intro mset_eq_imp_distinct_iff) simp
    moreover have "list_all (usable n) (sort_key cs_creation_time xs) \<longleftrightarrow> list_all (usable n) xs"
      by (simp only: list_all_iff set_sort)
    ultimately show ?thesis using check_interval_spec [of "sort_key cs_creation_time xs" None n] by simp
  qed
  have "select_interval stores b p = Inr iv \<longleftrightarrow>
     (\<exists>baseline payload. SelectCatalogStore stores b = Inr baseline \<and> SelectCatalogStore stores p = Inr payload \<and>
        cs_creation_time baseline < cs_creation_time payload \<and>
        check_interval (cs_volume_size payload) None (sort_key cs_creation_time (filter (in_interval baseline payload) stores)) = Inr () \<and>
        iv = \<lparr>ci_payload = payload, ci_stores = butlast (sort_key cs_creation_time (filter (in_interval baseline payload) stores))\<rparr>)"
    unfolding select_interval_def in_interval_def [abs_def] Let_def
    by (simp only: ebind_eq_Inr checks_Inr not_le butlast_conv_take) auto
  then show ?thesis unfolding check by blast
qed

text \<open>The order in which the catalog lists the stores does not matter.\<close>

lemma select_interval_order:
  assumes "mset stores = mset stores'"
  shows "select_interval stores b p = Inr iv \<longleftrightarrow> select_interval stores' b p = Inr iv"
proof -
  have one: "select_interval ys b p = Inr iv" if m: "mset xs = mset ys" and xs: "select_interval xs b p = Inr iv" for xs ys
  proof -
    obtain baseline payload where s: "SelectCatalogStore xs b = Inr baseline" "SelectCatalogStore xs p = Inr payload"
        "cs_creation_time baseline < cs_creation_time payload"
        "distinct (map cs_creation_time (filter (in_interval baseline payload) xs))"
        "list_all (usable (cs_volume_size payload)) (filter (in_interval baseline payload) xs)"
        "iv = \<lparr>ci_payload = payload, ci_stores = butlast (sort_key cs_creation_time (filter (in_interval baseline payload) xs))\<rparr>"
      using xs unfolding select_interval_Inr by blast
    let ?fx = "filter (in_interval baseline payload) xs" and ?fy = "filter (in_interval baseline payload) ys"
    have f: "mset ?fx = mset ?fy" using m by (simp only: mset_filter)
    then have set: "set ?fx = set ?fy" by (rule mset_eq_setD)
    have "distinct (map cs_creation_time ?fy)"
      using s(4) f by (metis mset_eq_imp_distinct_iff mset_map)
    moreover have "list_all (usable (cs_volume_size payload)) ?fy" using s(5) set by (simp only: list_all_iff)
    moreover have "sort_key cs_creation_time ?fx = sort_key cs_creation_time ?fy"
      using s(4) f by (intro sort_key_inj_key_eq) (simp_all add: distinct_map)
    moreover have "SelectCatalogStore ys b = Inr baseline" "SelectCatalogStore ys p = Inr payload"
      using s(1,2) SelectCatalogStore_order [OF m] by blast+
    ultimately show ?thesis unfolding select_interval_Inr using s(3,6) by metis
  qed
  show ?thesis using one [OF assms] one [OF assms [symmetric]] by blast
qed

text \<open>What an interval contains.\<close>

lemma select_interval_spec:
  assumes "select_interval stores b p = Inr iv"
  shows "\<exists>baseline. SelectCatalogStore stores b = Inr baseline \<and> SelectCatalogStore stores p = Inr (ci_payload iv) \<and>
    set (ci_stores iv) = {s \<in> set stores. cs_creation_time baseline \<le> cs_creation_time s \<and> cs_creation_time s < cs_creation_time (ci_payload iv)} \<and>
    baseline \<in> set (ci_stores iv) \<and> sorted_wrt (\<lambda>s t. cs_creation_time s < cs_creation_time t) (ci_stores iv) \<and>
    list_all (usable (cs_volume_size (ci_payload iv))) (ci_stores iv)"
proof -
  obtain baseline payload where s: "SelectCatalogStore stores b = Inr baseline" "SelectCatalogStore stores p = Inr payload"
      "cs_creation_time baseline < cs_creation_time payload"
      "distinct (map cs_creation_time (filter (in_interval baseline payload) stores))"
      "list_all (usable (cs_volume_size payload)) (filter (in_interval baseline payload) stores)"
      "iv = \<lparr>ci_payload = payload, ci_stores = butlast (sort_key cs_creation_time (filter (in_interval baseline payload) stores))\<rparr>"
    using assms unfolding select_interval_Inr by blast
  let ?f = "filter (in_interval baseline payload) stores"
  define ordered where "ordered = sort_key cs_creation_time ?f"
  have set: "set ordered = {s \<in> set stores. in_interval baseline payload s}" by (auto simp: ordered_def)
  have "baseline \<in> set stores" "payload \<in> set stores"
    using s(1,2) unfolding SelectCatalogStore_spec by (metis (no_types, lifting) filter_is_subset list.set_intros(1) subsetD)+
  then have mem: "payload \<in> set ordered" "baseline \<in> set ordered" using s(3) by (auto simp: set in_interval_def)
  have "distinct (map cs_creation_time ordered)"
    using s(4) by (metis ordered_def mset_eq_imp_distinct_iff mset_map mset_sort)
  then have strict: "sorted_wrt (\<lambda>s t. cs_creation_time s < cs_creation_time t) ordered"
    using strict_sorted_iff [of "map cs_creation_time ordered"] sorted_sort_key [of cs_creation_time ?f]
    unfolding ordered_def sorted_wrt_map by blast
  have ne: "ordered \<noteq> []" using mem by auto
  then have parts: "ordered = butlast ordered @ [last ordered]" by simp
  then have bl: "sorted_wrt (\<lambda>s t. cs_creation_time s < cs_creation_time t) (butlast ordered)"
    "\<And>s. s \<in> set (butlast ordered) \<Longrightarrow> cs_creation_time s < cs_creation_time (last ordered)"
    using strict by (metis sorted_wrt_append, metis list.set_intros(1) sorted_wrt_append)
  have last_le: "cs_creation_time (last ordered) \<le> cs_creation_time payload"
    using set last_in_set [OF ne] by (auto simp: in_interval_def)
  have last_pay: "last ordered = payload"
  proof (rule ccontr)
    assume "last ordered \<noteq> payload"
    then have "payload \<in> set (butlast ordered)" using mem(1) parts by (metis UnE empty_iff empty_set set_ConsD set_append)
    then show False using bl(2) last_le by fastforce
  qed
  have sub: "set (butlast ordered) = {s \<in> set ordered. cs_creation_time s < cs_creation_time payload}"
  proof (intro set_eqI iffI)
    fix s assume "s \<in> set (butlast ordered)"
    then show "s \<in> {s \<in> set ordered. cs_creation_time s < cs_creation_time payload}"
      using bl(2) last_pay in_set_butlastD by fastforce
  next
    fix s assume a: "s \<in> {s \<in> set ordered. cs_creation_time s < cs_creation_time payload}"
    then have "s \<noteq> last ordered" using last_pay by auto
    then show "s \<in> set (butlast ordered)" using a parts by (metis UnE empty_iff empty_set mem_Collect_eq set_ConsD set_append)
  qed
  have iv: "ci_payload iv = payload" "ci_stores iv = butlast ordered" using s(6) by (simp_all add: ordered_def)
  have "set (butlast ordered) = {s \<in> set stores. cs_creation_time baseline \<le> cs_creation_time s \<and> cs_creation_time s < cs_creation_time payload}"
    unfolding sub set by (auto simp: in_interval_def)
  moreover have "baseline \<in> set (butlast ordered)" unfolding sub using mem(2) s(3) by simp
  moreover have "list_all (usable (cs_volume_size payload)) (butlast ordered)"
    using s(5) by (auto simp: list_all_iff sub set)
  ultimately show ?thesis unfolding iv using s(1,2) bl(1) by blast
qed

section \<open>All stores of an interval\<close>

text \<open>
  \<open>store_records src store ds\<close>: \<open>ds\<close> are the records of the store's list on \<open>src\<close>, from a
  chain of distinct blocks, and validation has accepted them.
\<close>

definition store_records :: "vss_source \<Rightarrow> CatalogStore \<Rightarrow> BlockDescriptor list \<Rightarrow> bool" where
  "store_records src store ds \<longleftrightarrow>
     (\<exists>blocks. list_chain src (cs_list_offset store) blocks \<and> distinct (map (metadata_block \<circ> fst) blocks) \<and>
        ds = chain_records blocks \<and> list_all forwarder_ok ds \<and> list_all (original_checked (cs_volume_size store)) ds)"

lemma ReadDescriptorList_records:
  assumes "ReadDescriptorList heap src store consume s = Some (Inr (counts, s'))" "cs_list_offset store < two64"
  obtains ds where "store_records src store ds" "efold consume s ds = Inr s'" "descriptor_count counts = length ds"
proof -
  from ReadDescriptorList_spec [OF assms] obtain blocks state state' where b:
      "list_chain src (cs_list_offset store) blocks" "distinct (map (metadata_block \<circ> fst) blocks)"
      "DescriptorState_new (cs_volume_size store) = Inr state"
      "efold (DescriptorState_Insert heap) state (chain_records blocks) = Inr state'"
      "efold consume s (chain_records blocks) = Inr s'" "list_all forwarder_ok (chain_records blocks)"
      "descriptor_count counts = length (chain_records blocks)" by blast
  have "list_all (original_checked (cs_volume_size store)) (chain_records blocks)"
    using efold_Insert_checked [OF b(4)] DescriptorState_new_inv(2) [OF b(3)] by simp
  then show thesis using b by (intro that [of "chain_records blocks"]) (auto simp: store_records_def)
qed

lemma list_chain_unique:
  "list_chain src offset blocks \<Longrightarrow> list_chain src offset blocks' \<Longrightarrow> blocks = blocks'"
proof (induction blocks arbitrary: offset blocks')
  case Nil
  then show ?case by (cases blocks') auto
next
  case (Cons b blocks)
  then show ?case by (cases b; cases blocks') auto
qed

lemma store_records_unique: "store_records src store ds \<Longrightarrow> store_records src store ds' \<Longrightarrow> ds = ds'"
  unfolding store_records_def using list_chain_unique by blast

lemma enumerate_stores_records:
  assumes "enumerate_stores heap src consume stores counts s = Some (Inr (counts', s'))"
    and "list_all (\<lambda>store. cs_list_offset store < two64) stores"
  shows "\<exists>dss. list_all2 (store_records src) stores dss \<and> efold consume s (concat dss) = Inr s' \<and>
    descriptor_count counts' mod two64 = (descriptor_count counts + length (concat dss)) mod two64"
  using assms
proof (induction stores arbitrary: counts s)
  case (Cons store stores)
  then obtain current s1 where r: "ReadDescriptorList heap src store consume s = Some (Inr (current, s1))"
    and e: "enumerate_stores heap src consume stores
            \<lparr>list_block_count = add64 (list_block_count counts) (list_block_count current),
             descriptor_count = add64 (descriptor_count counts) (descriptor_count current)\<rparr> s1 = Some (Inr (counts', s'))"
    by (auto split: option.splits sum.splits)
  have off: "cs_list_offset store < two64" "list_all (\<lambda>store. cs_list_offset store < two64) stores" using Cons.prems(2) by simp_all
  from ReadDescriptorList_records [OF r off(1)] obtain ds
    where ds: "store_records src store ds" "efold consume s ds = Inr s1" "descriptor_count current = length ds" by blast
  from Cons.IH [OF e off(2)] obtain dss where dss: "list_all2 (store_records src) stores dss" "efold consume s1 (concat dss) = Inr s'"
      "descriptor_count counts' mod two64 = (add64 (descriptor_count counts) (length ds) + length (concat dss)) mod two64"
    using ds(3) by auto
  have "descriptor_count counts' mod two64 = (descriptor_count counts + length (concat (ds # dss))) mod two64"
    using dss(3) by (simp add: add64_def mod_add_left_eq add.assoc)
  then show ?case using ds dss(1,2) by (intro exI [of _ "ds # dss"]) (simp add: efold_append)
qed simp

text \<open>The stores of a catalog have 64-bit list offsets, and those with data have an identifier.\<close>

definition store_ok :: "CatalogStore \<Rightarrow> bool" where
  "store_ok s \<longleftrightarrow> cs_list_offset s < two64 \<and> cs_volume_size s < two64"

lemma update_first_set: "x \<in> set (update_first p f xs) \<Longrightarrow> x \<in> set xs \<or> (\<exists>y \<in> set xs. x = f y)"
  by (induction xs) (auto split: if_splits)

lemma catalog_entry_ok:
  assumes "list_all store_ok stores" "catalog_entry stores entry = Inr stores'"
  shows "list_all store_ok stores'"
  using assms by (auto simp: catalog_entry_def Let_def err_simps list_all_iff store_ok_def split: if_splits dest!: update_first_set)

lemma trace_catalog_ok:
  assumes "trace (catalog_block heap src) s offset xs s'" "list_all store_ok (snd s)"
  shows "list_all store_ok (snd s')"
  using assms
proof (induction xs arbitrary: s offset)
  case (Cons x xs)
  then obtain s1 n where b: "catalog_block heap src s offset = Inr (s1, n)"
    and t: "trace (catalog_block heap src) s1 n xs s'" by auto
  obtain v stores v1 stores1 where s: "s = (v, stores)" "s1 = (v1, stores1)" by fastforce
  from b s obtain data where e: "efold catalog_entry stores (catalog_entries data) = Inr stores1"
    by (auto elim: catalog_block_Inr)
  have "list_all store_ok stores1"
    by (rule efold_invariant [OF e, of "list_all store_ok"]) (use Cons.prems(2) s catalog_entry_ok in auto)
  then show ?case using Cons.IH [OF t] s by simp
qed simp

lemma ReadStoreHeaders_ok:
  "ReadStoreHeaders src stores = Inr stores' \<Longrightarrow> list_all store_ok stores \<Longrightarrow>
   list_all (\<lambda>s. store_ok s \<and> (cs_has_in_volume_data s \<longrightarrow> cs_snapshot_identifier s \<noteq> None)) stores'"
  by (induction stores arbitrary: stores') (auto simp: err_simps read_store_header_def store_ok_def split: if_splits)

lemma ReadStoreCatalog_ok:
  assumes "ReadStoreCatalog heap source = Some (Inr stores)"
  shows "list_all (\<lambda>s. store_ok s \<and> (cs_has_in_volume_data s \<longrightarrow> cs_snapshot_identifier s \<noteq> None)) stores"
proof -
  obtain src offset stores0 data where r: "ReadCatalogOffset data = Inr offset" "ReadCatalog heap src offset = Some (Inr stores0)"
      "ReadStoreHeaders src stores0 = Inr stores"
    using assms by (auto simp: ReadStoreCatalog_def ReadStores_def err_simps split: sum.splits if_splits)
  obtain v where c: "chain (catalog_block heap src) (MaybeBitmapSet_new (sub64 (vs_size src) 1), []) offset = Some (Inr (v, stores0))"
    using r(2) by (auto simp: ReadCatalog_def err_simps)
  from catalog.chain_trace [OF c _ ReadCatalogOffset_lt [OF r(1)]] obtain xs
    where "trace (catalog_block heap src) (MaybeBitmapSet_new (sub64 (vs_size src) 1), []) offset xs (v, stores0)" by auto
  from trace_catalog_ok [OF this] have "list_all store_ok stores0" by simp
  with ReadStoreHeaders_ok [OF r(3)] show ?thesis .
qed

end
