(* ===== verification/DirtyMap.thy ===== *)
theory DirtyMap
  imports VssProofs DeviceFsProcess ReduceBitmaps
begin

text \<open>
  The dirty map of an incremental backup: \<open>BuildDirtyBlockMap\<close>
  (\<open>supervisor/native_backup/incremental.cpp\<close>) collects the blocks of the VSS descriptors, of the
  allocation changes and of System Volume Information; \<open>MakeDirtyBitmap\<close>,
  \<open>TryPrepareAndWriteDirtyMapForSnapshot\<close> and \<open>PrepareDirtyMaps\<close> (\<open>production_incremental.cpp\<close>) turn it into
  the files that the backup receives.

  The results show that the map is exactly the union of the three contributions, with exact
  counts, that a bit of the file is set exactly when the map has a block in its chunk, and
  that the backup is incremental only together with at least one map.
\<close>

section \<open>Building the map\<close>

record DirtyBlockMap =
  dm_volume_size :: nat
  dm_block_offsets :: BitmapSet
  dm_descriptor_store_count :: nat
  dm_descriptor_count :: nat
  dm_descriptor_list_block_count :: nat
  dm_descriptor_block_count :: nat
  dm_allocation_block_count :: nat
  dm_svi_block_count :: nat

text \<open>
  A snapshot device: what opening its path gives each of the readers.  The VSS metadata is
  opened once for the catalog and once for the descriptors.
\<close>

record snapshot_device =
  sd_catalog :: "vss_source result"
  sd_descriptors :: "vss_source result"
  sd_volume :: "nat + volume"
  sd_svi_volume :: "nat + volume"
  sd_svi_attributes :: "nat + bool \<times> bool"
  sd_svi_root :: svi_node

definition add_offset :: "heap \<Rightarrow> nat \<Rightarrow> BitmapSet \<Rightarrow> nat \<Rightarrow> BitmapSet result" where
  "add_offset heap volume_size s offset =
     (if offset < volume_size
      then ebind (BitmapSet_insert heap vss_kBlockSize s (and_not64 offset (vss_kBlockSize - 1))) (\<lambda>(_, s'). Inr s')
      else Inr s)"

definition add_descriptor :: "heap \<Rightarrow> nat \<Rightarrow> BitmapSet \<Rightarrow> BlockDescriptor \<Rightarrow> BitmapSet result" where
  "add_descriptor heap volume_size s descriptor =
     ebind (add_offset heap volume_size s (bd_original_offset descriptor)) (\<lambda>s1.
     ebind (add_offset heap volume_size s1 (bd_store_offset descriptor)) (\<lambda>s2.
       if bd_flags descriptor AND kForwarderFlag \<noteq> 0
       then add_offset heap volume_size s2 (bd_relative_offset descriptor) else Inr s2))"

text \<open>The two calls of \<open>ReadBlockOffsets\<close>, under the backup privilege.\<close>

definition read_svi_blocks ::
    "heap \<Rightarrow> error option \<Rightarrow> snapshot_device \<Rightarrow> snapshot_device \<Rightarrow> nat \<Rightarrow> BitmapSet result option" where
  "read_svi_blocks heap privilege_error baseline payload volume_length =
     (case privilege_error of
        Some e \<Rightarrow> Some (Inl e)
      | None \<Rightarrow>
          (case ReadBlockOffsets heap (sd_svi_volume baseline) (sd_svi_attributes baseline) (sd_svi_root baseline)
                  (DeviceLength volume_length) of
             None \<Rightarrow> None
           | Some (Inl e) \<Rightarrow> Some (Inl e)
           | Some (Inr s) \<Rightarrow>
               ReadBlockOffsets heap (sd_svi_volume payload) (sd_svi_attributes payload) (sd_svi_root payload) (Populate s)))"

definition merge_blocks ::
    "heap \<Rightarrow> CatalogInterval \<Rightarrow> BitmapSet \<Rightarrow> BitmapSet \<Rightarrow> BlockDescriptorCounts \<Rightarrow> BitmapSet \<Rightarrow> DirtyBlockMap result" where
  "merge_blocks heap catalog allocation_blocks svi_blocks counts descriptor_blocks =
     ebind (BitmapSet_merge heap False descriptor_blocks allocation_blocks) (\<lambda>(merged, _).
     ebind (BitmapSet_merge heap False merged svi_blocks) (\<lambda>(merged', _).
       Inr \<lparr>dm_volume_size = cs_volume_size (ci_payload catalog), dm_block_offsets = merged',
            dm_descriptor_store_count = length (ci_stores catalog),
            dm_descriptor_count = descriptor_count counts,
            dm_descriptor_list_block_count = list_block_count counts,
            dm_descriptor_block_count = bm_size descriptor_blocks,
            dm_allocation_block_count = bm_size allocation_blocks,
            dm_svi_block_count = bm_size svi_blocks\<rparr>))"

definition BuildDirtyBlockMap ::
    "heap \<Rightarrow> (nat \<Rightarrow> ntstatus) \<Rightarrow> (nat \<Rightarrow> bool) \<Rightarrow> error option \<Rightarrow> guid \<Rightarrow> guid \<Rightarrow>
     snapshot_device \<Rightarrow> snapshot_device \<Rightarrow> DirtyBlockMap result option" where
  "BuildDirtyBlockMap heap nt alloc privilege_error baseline_identifier payload_identifier baseline payload =
     (case ReadBlockDescriptorIntervalCatalog heap (sd_catalog payload) baseline_identifier payload_identifier of
        None \<Rightarrow> None
      | Some (Inl e) \<Rightarrow> Some (Inl e)
      | Some (Inr catalog) \<Rightarrow>
          (case ReadAllocationChangeBlocks heap vss_kBlockSize nt alloc (sd_volume baseline) (sd_volume payload) of
             Inl e \<Rightarrow> Some (Inl e)
           | Inr allocation_blocks \<Rightarrow>
               let volume_size = cs_volume_size (ci_payload catalog)
               in if volume_size \<noteq> ac_volume_size allocation_blocks
                  then Some (Inl (RuntimeError ''the VSS descriptors and the allocation bitmaps report different volume sizes''))
                  else
                    (case read_svi_blocks heap privilege_error baseline payload volume_size of
                       None \<Rightarrow> None
                     | Some (Inl e) \<Rightarrow> Some (Inl e)
                     | Some (Inr svi_blocks) \<Rightarrow>
                         map_option (\<lambda>r. ebind r (\<lambda>(counts, descriptor_blocks).
                             merge_blocks heap catalog (ac_block_offsets allocation_blocks) svi_blocks counts descriptor_blocks))
                           (EnumerateBlockDescriptors heap (sd_descriptors payload) (ci_stores catalog)
                              (add_descriptor heap volume_size)
                              (BitmapSet_new vss_kBlockSize (sub64 volume_size 1))))))"

section \<open>The bitmap of the chunks\<close>

abbreviation (input) kPbsImageChunkSize :: nat where "kPbsImageChunkSize \<equiv> 4194304"

definition storage_bytes :: "64 word list \<Rightarrow> byte list" where
  "storage_bytes ws = concat (map (le_bytes 8) ws)"

definition MakeDirtyBitmap :: "heap \<Rightarrow> cpu \<Rightarrow> DirtyBlockMap \<Rightarrow> byte list result" where
  "MakeDirtyBitmap heap c map1 =
     (let chunks = dm_volume_size map1 div kPbsImageChunkSize + (if dm_volume_size map1 mod kPbsImageChunkSize \<noteq> 0 then 1 else 0)
      in ebind (FailFastMaybeCast u64 u64 (int (chunks div 8 + (if chunks mod 8 \<noteq> 0 then 1 else 0)))) (\<lambda>bytes.
           ReduceBitmap heap c vss_kBlockSize kPbsImageChunkSize (storage_bytes (BitmapSet_storage (dm_block_offsets map1))) (nat bytes)))"

section \<open>Preparing the files\<close>

definition is_runtime_error :: "error \<Rightarrow> bool" where
  "is_runtime_error e = (case e of RuntimeError _ \<Rightarrow> True | SystemError _ _ \<Rightarrow> True | _ \<Rightarrow> False)"

text \<open>
  The file operations for one map: the error of naming a temporary file, of writing it, of
  reopening it, of making the new handle inheritable, and the reopened handle.
\<close>

record map_file_system =
  mf_path :: "error option"
  mf_write :: "nat option"
  mf_reopen :: "nat + nat"
  mf_inherit :: "nat option"

type_synonym prepared_file = "NamedFile \<times> byte list"

text \<open>
  The prepared file with its contents, \<open>None\<close> for the empty \<open>NamedFile\<close>.  \<open>build\<close> is the outcome of
  \<open>BuildDirtyBlockMap\<close>.
\<close>

definition TryPrepareAndWriteDirtyMapForSnapshot ::
    "heap \<Rightarrow> cpu \<Rightarrow> map_file_system \<Rightarrow> DirtyBlockMap result \<Rightarrow> Snapshot \<Rightarrow> prepared_file option result" where
  "TryPrepareAndWriteDirtyMapForSnapshot heap c files build snapshot =
     ebind (SnapshotImageName (sn_original_volume snapshot)) (\<lambda>name.
       let attempt = ebind build (\<lambda>map1.
             if BitmapSet_empty (dm_block_offsets map1) then Inr None
             else case mf_path files of Some e \<Rightarrow> Inl e | None \<Rightarrow> Inr (Some map1))
       in case attempt of
            Inl e \<Rightarrow> if is_runtime_error e then Inr None else Inl e
          | Inr None \<Rightarrow> Inr None
          | Inr (Some map1) \<Rightarrow>
              ebind (MakeDirtyBitmap heap c map1) (\<lambda>contents.
                if mf_write files \<noteq> None then Inr None
                else case mf_reopen files of
                       Inl _ \<Rightarrow> Inr None
                     | Inr handle \<Rightarrow>
                         if mf_inherit files \<noteq> None then Inr None
                         else Inr (Some (\<lparr>nf_name = name @ ''.dirty.bitmap'', nf_handle = handle\<rparr>, contents))))"

record PreparedDirtyMaps =
  pd_previous_backup_time :: "int option"
  pd_files :: "prepared_file list"

definition no_dirty_maps :: PreparedDirtyMaps where
  "no_dirty_maps = \<lparr>pd_previous_backup_time = None, pd_files = []\<rparr>"

text \<open>
  The previous backup: the exit code of retrieving its manifest, and what parsing gives, its
  time and its snapshot volumes by GUID (\<open>'b\<close>), or the failure of querying them.
\<close>

record 'b previous_backup =
  pb_exit_code :: int
  pb_manifest :: "(int option \<times> (guid \<rightharpoonup> 'b) result) result"

definition previous_manifest :: "'b previous_backup result \<Rightarrow> (int option \<times> (guid \<rightharpoonup> 'b) result) option result" where
  "previous_manifest retrieval =
     (let attempt = ebind retrieval (\<lambda>r. if pb_exit_code r \<noteq> 0 then Inr None else ebind (pb_manifest r) (\<lambda>m. Inr (Some m)))
      in case attempt of Inl e \<Rightarrow> if is_runtime_error e then Inr None else Inl e | Inr m \<Rightarrow> Inr m)"

text \<open>The snapshots that have a baseline, in order; \<open>value()\<close> of a GUID that does not parse throws.\<close>

fun pair_snapshots ::
    "(string \<Rightarrow> int + guid) \<Rightarrow> (guid \<rightharpoonup> 'b) \<Rightarrow> Snapshot list \<Rightarrow> (Snapshot \<times> 'b) list result" where
  "pair_snapshots iid baselines [] = Inr []"
| "pair_snapshots iid baselines (snapshot # snapshots) =
     ebind (ParseVolumeGuid iid (sn_original_volume snapshot)) (\<lambda>parsed.
       case parsed of
         Inl _ \<Rightarrow> Inl (InvalidArgument ''bad expected access'')
       | Inr volume \<Rightarrow>
           (case baselines volume of
              None \<Rightarrow> pair_snapshots iid baselines snapshots
            | Some baseline \<Rightarrow>
                ebind (pair_snapshots iid baselines snapshots) (\<lambda>rest. Inr ((snapshot, baseline) # rest))))"

text \<open>
  Collecting the futures in order: \<open>Get\<close> rethrows what its task threw, and the files
  collected before that stay in the vector.
\<close>

fun collect_files :: "('p \<Rightarrow> prepared_file option result) \<Rightarrow> 'p list \<Rightarrow> prepared_file list \<Rightarrow> prepared_file list outcome" where
  "collect_files prepare [] files = (files, None)"
| "collect_files prepare (pair # pairs) files =
     (case prepare pair of
        Inl e \<Rightarrow> (files, Some e)
      | Inr None \<Rightarrow> collect_files prepare pairs files
      | Inr (Some file) \<Rightarrow> collect_files prepare pairs (files @ [file]))"

text \<open>
  The callback that builds the maps, while the successor snapshots exist: the failure of
  enabling the privilege leaves no files, the failure of creating a work object is an exception.
\<close>

definition build_maps ::
    "error option \<Rightarrow> error option \<Rightarrow> ('p \<Rightarrow> prepared_file option result) \<Rightarrow> 'p list \<Rightarrow> prepared_file list outcome" where
  "build_maps privilege_error future_error prepare pairs =
     (if privilege_error \<noteq> None then ([], None)
      else case future_error of
             Some e \<Rightarrow> ([], Some e)
           | None \<Rightarrow> collect_files prepare pairs [])"

text \<open>
  \<open>create_error\<close>: the failure of creating the successor set, before the callback.  The set is deleted
  afterwards, because the callback returned 1; a failure of that is reported and not thrown.
\<close>

definition successor_run :: "error option \<Rightarrow> prepared_file list outcome \<Rightarrow> prepared_file list \<times> int result" where
  "successor_run create_error callback =
     (case create_error of
        Some e \<Rightarrow> ([], Inl e)
      | None \<Rightarrow>
          (case callback of
             (files, Some e) \<Rightarrow> (files, Inl e)
           | (files, None) \<Rightarrow> (files, Inr 1)))"

definition PrepareDirtyMaps ::
    "(string \<Rightarrow> int + guid) \<Rightarrow> cancellation \<Rightarrow> 'b previous_backup result \<Rightarrow> error option \<Rightarrow> error option \<Rightarrow> error option \<Rightarrow>
     (Snapshot \<times> 'b \<Rightarrow> prepared_file option result) \<Rightarrow> Snapshot list \<Rightarrow> PreparedDirtyMaps result" where
  "PrepareDirtyMaps iid cancel retrieval create_error privilege_error future_error prepare payload =
     ebind (previous_manifest retrieval) (\<lambda>previous.
       case previous of
         None \<Rightarrow> Inr no_dirty_maps
       | Some (None, _) \<Rightarrow> Inr no_dirty_maps
       | Some (Some backup_time, query) \<Rightarrow>
           ebind query (\<lambda>baselines.
           ebind (pair_snapshots iid baselines payload) (\<lambda>pairs.
             if pairs = [] then Inr no_dirty_maps
             else
               let (files, run) = successor_run create_error (build_maps privilege_error future_error prepare pairs)
               in case fst (RunVssOperation cancel run) of
                    Inl e \<Rightarrow> if is_runtime_error e then Inr no_dirty_maps else Inl e
                  | Inr _ \<Rightarrow>
                      Inr \<lparr>pd_previous_backup_time = (if files = [] then None else Some backup_time), pd_files = files\<rparr>)))"

section \<open>What the map contains\<close>

definition offset_blocks :: "nat \<Rightarrow> nat set \<Rightarrow> nat set" where
  "offset_blocks volume_size xs = metadata_block ` {x \<in> xs. x < volume_size}"

definition descriptor_offsets :: "BlockDescriptor \<Rightarrow> nat set" where
  "descriptor_offsets d = {bd_original_offset d, bd_store_offset d} \<union> (if bit (bd_flags d) 0 then {bd_relative_offset d} else {})"

lemma offset_blocks_Un: "offset_blocks n (A \<union> B) = offset_blocks n A \<union> offset_blocks n B"
  by (auto simp: offset_blocks_def)

lemma add_offset_spec:
  assumes "add_offset heap n s offset = Inr s'" "bs_inv vss_kBlockSize s" "n < two64"
  shows "bs_inv vss_kBlockSize s' \<and> bs_set vss_kBlockSize s' = bs_set vss_kBlockSize s \<union> offset_blocks n {offset}"
proof (cases "offset < n")
  case True
  then obtain r where r: "BitmapSet_insert heap vss_kBlockSize s (metadata_block offset) = Inr (r, s')"
    using assms(1,3) and_not64_block [of offset] by (auto simp: add_offset_def err_simps)
  have "metadata_block offset < two64" using True assms(3) metadata_block_le [of offset] by linarith
  from BitmapSet_insert_spec(1,2) [OF assms(2) this r] show ?thesis using True by (auto simp: offset_blocks_def)
next
  case False
  then show ?thesis using assms by (auto simp: add_offset_def offset_blocks_def)
qed

lemma add_descriptor_spec:
  assumes "add_descriptor heap n s d = Inr s'" "bs_inv vss_kBlockSize s" "n < two64"
  shows "bs_inv vss_kBlockSize s' \<and> bs_set vss_kBlockSize s' = bs_set vss_kBlockSize s \<union> offset_blocks n (descriptor_offsets d)"
proof -
  obtain s1 s2 where s: "add_offset heap n s (bd_original_offset d) = Inr s1" "add_offset heap n s1 (bd_store_offset d) = Inr s2"
    and e: "(if bit (bd_flags d) 0 then add_offset heap n s2 (bd_relative_offset d) else Inr s2) = Inr s'"
    using assms(1) unfolding add_descriptor_def and_flag_bits by (auto simp: err_simps)
  note s1 = add_offset_spec [OF s(1) assms(2,3)]
  note s2 = add_offset_spec [OF s(2) conjunct1 [OF s1] assms(3)]
  have two: "offset_blocks n (descriptor_offsets d) = offset_blocks n {bd_original_offset d} \<union> offset_blocks n {bd_store_offset d} \<union>
      (if bit (bd_flags d) 0 then offset_blocks n {bd_relative_offset d} else {})"
    by (auto simp: offset_blocks_def descriptor_offsets_def)
  show ?thesis
  proof (cases "bit (bd_flags d) 0")
    case True
    then have "add_offset heap n s2 (bd_relative_offset d) = Inr s'" using e by simp
    from add_offset_spec [OF this conjunct1 [OF s2] assms(3)] show ?thesis using True s1 s2 unfolding two by auto
  next
    case False
    then show ?thesis using e s1 s2 unfolding two by auto
  qed
qed

lemma efold_add_descriptor:
  assumes "efold (add_descriptor heap n) s ds = Inr s'" "bs_inv vss_kBlockSize s" "n < two64"
  shows "bs_inv vss_kBlockSize s' \<and>
    bs_set vss_kBlockSize s' = bs_set vss_kBlockSize s \<union> offset_blocks n (\<Union> (descriptor_offsets ` set ds))"
  using assms
proof (induction ds arbitrary: s)
  case (Cons d ds)
  then obtain s1 where s1: "add_descriptor heap n s d = Inr s1" "efold (add_descriptor heap n) s1 ds = Inr s'" by (auto simp: err_simps)
  note a = add_descriptor_spec [OF s1(1) Cons.prems(2,3)]
  from Cons.IH [OF s1(2) conjunct1 [OF a] Cons.prems(3)] a show ?case by (auto simp: offset_blocks_Un)
qed (simp add: offset_blocks_def)

lemma interval_stores_ok:
  assumes "ReadBlockDescriptorIntervalCatalog heap source b p = Some (Inr iv)"
  shows "list_all (\<lambda>store. cs_list_offset store < two64) (ci_stores iv)" "cs_volume_size (ci_payload iv) < two64"
proof -
  obtain stores where st: "ReadStoreCatalog heap source = Some (Inr stores)" "select_interval stores b p = Inr iv"
    using assms by (auto simp: ReadBlockDescriptorIntervalCatalog_def err_simps)
  have ok: "list_all store_ok stores" using ReadStoreCatalog_ok [OF st(1)] by (rule list.pred_mono_strong) blast
  obtain baseline :: CatalogStore where b: "SelectCatalogStore stores p = Inr (ci_payload iv)"
      "set (ci_stores iv) = {s \<in> set stores. cs_creation_time baseline \<le> cs_creation_time s \<and> cs_creation_time s < cs_creation_time (ci_payload iv)}"
    using select_interval_spec [OF st(2)] by (elim exE conjE) (rule that)
  have "ci_payload iv \<in> set (filter (\<lambda>s. cs_has_in_volume_data s \<and> cs_snapshot_identifier s = Some p) stores)"
    using b(1) unfolding SelectCatalogStore_spec by simp
  then have "ci_payload iv \<in> set stores" by simp
  then show "list_all (\<lambda>store. cs_list_offset store < two64) (ci_stores iv)" "cs_volume_size (ci_payload iv) < two64"
    using ok b(2) by (auto simp: list_all_iff store_ok_def)
qed

text \<open>The ranges of the files under System Volume Information of a snapshot.\<close>

definition svi_ranges :: "snapshot_device \<Rightarrow> (nat \<times> nat) list \<Rightarrow> bool" where
  "svi_ranges d l \<longleftrightarrow> (\<exists>v. sd_svi_volume d = Inr v \<and>
     EnumerateBlockRanges v (sd_svi_attributes d) (sd_svi_root d) collect_adder default_options [] = Some (l, None))"

lemma read_svi_blocks_spec:
  assumes "read_svi_blocks heap pe baseline payload n = Some (Inr s)"
  shows "\<exists>l1 l2. svi_ranges baseline l1 \<and> svi_ranges payload l2 \<and> bs_inv vss_kBlockSize s \<and>
    bs_set vss_kBlockSize s = range_blocks vss_kBlockSize l1 \<union> range_blocks vss_kBlockSize l2"
proof -
  obtain s0 where r: "ReadBlockOffsets heap (sd_svi_volume baseline) (sd_svi_attributes baseline) (sd_svi_root baseline) (DeviceLength n) = Some (Inr s0)"
      "ReadBlockOffsets heap (sd_svi_volume payload) (sd_svi_attributes payload) (sd_svi_root payload) (Populate s0) = Some (Inr s)"
    using assms by (auto simp: read_svi_blocks_def split: option.splits sum.splits)
  obtain v1 v2 where v: "sd_svi_volume baseline = Inr v1" "sd_svi_volume payload = Inr v2"
    using r by (cases "sd_svi_volume baseline"; cases "sd_svi_volume payload") (simp_all add: ReadBlockOffsets_def)
  from ReadBlockOffsets_spec [OF r(1) [unfolded v]] obtain l1 where l1: "svi_ranges baseline l1" "bs_inv vss_kBlockSize s0"
      "bs_set vss_kBlockSize s0 = range_blocks vss_kBlockSize l1" by (auto simp: svi_ranges_def v)
  from ReadBlockOffsets_spec [OF r(2) [unfolded v]] obtain l2 where l2: "svi_ranges payload l2" "bs_inv vss_kBlockSize s"
      "bs_set vss_kBlockSize s = bs_set vss_kBlockSize s0 \<union> range_blocks vss_kBlockSize l2" using l1(2) by (auto simp: svi_ranges_def v)
  show ?thesis using l1 l2 by blast
qed

lemma enumerate_add_spec:
  assumes "EnumerateBlockDescriptors heap source stores (add_descriptor heap n) (BitmapSet_new vss_kBlockSize m) = Some (Inr (counts, s))"
    and "list_all (\<lambda>store. cs_list_offset store < two64) stores" "n < two64"
  shows "\<exists>src dss. source = Inr src \<and> list_all2 (store_records src) stores dss \<and> bs_inv vss_kBlockSize s \<and>
    bs_set vss_kBlockSize s = offset_blocks n (\<Union> (descriptor_offsets ` set (concat dss)))"
proof -
  obtain src where src: "source = Inr src" "enumerate_stores heap src (add_descriptor heap n) stores
      \<lparr>list_block_count = 0, descriptor_count = 0\<rparr> (BitmapSet_new vss_kBlockSize m) = Some (Inr (counts, s))"
    using assms(1) by (auto simp: EnumerateBlockDescriptors_def split: sum.splits)
  from enumerate_stores_records [OF src(2) assms(2)] obtain dss where dss: "list_all2 (store_records src) stores dss"
      "efold (add_descriptor heap n) (BitmapSet_new vss_kBlockSize m) (concat dss) = Inr s" by blast
  from efold_add_descriptor [OF dss(2) _ assms(3)] show ?thesis using src(1) dss(1) by auto
qed

lemma merge_blocks_spec:
  assumes "merge_blocks heap catalog A S counts D = Inr m" "bs_inv vss_kBlockSize A" "bs_inv vss_kBlockSize S" "bs_inv vss_kBlockSize D"
  shows "bs_inv vss_kBlockSize (dm_block_offsets m)"
    "bs_set vss_kBlockSize (dm_block_offsets m) = bs_set vss_kBlockSize D \<union> bs_set vss_kBlockSize A \<union> bs_set vss_kBlockSize S"
    "dm_volume_size m = cs_volume_size (ci_payload catalog)"
    "dm_descriptor_block_count m = card (bs_set vss_kBlockSize D)" "dm_allocation_block_count m = card (bs_set vss_kBlockSize A)"
    "dm_svi_block_count m = card (bs_set vss_kBlockSize S)"
proof -
  obtain d1 a1 d2 s2 where e: "BitmapSet_merge heap False D A = Inr (d1, a1)" "BitmapSet_merge heap False d1 S = Inr (d2, s2)"
    and m: "m = \<lparr>dm_volume_size = cs_volume_size (ci_payload catalog), dm_block_offsets = d2,
            dm_descriptor_store_count = length (ci_stores catalog), dm_descriptor_count = descriptor_count counts,
            dm_descriptor_list_block_count = list_block_count counts, dm_descriptor_block_count = bm_size D,
            dm_allocation_block_count = bm_size A, dm_svi_block_count = bm_size S\<rparr>"
    using assms(1) by (auto simp: merge_blocks_def err_simps)
  note f = BitmapSet_merge_spec [OF assms(4,2) e(1)]
  note g = BitmapSet_merge_spec [OF f(1) assms(3) e(2)]
  show "bs_inv vss_kBlockSize (dm_block_offsets m)"
    "bs_set vss_kBlockSize (dm_block_offsets m) = bs_set vss_kBlockSize D \<union> bs_set vss_kBlockSize A \<union> bs_set vss_kBlockSize S"
    "dm_volume_size m = cs_volume_size (ci_payload catalog)"
    "dm_descriptor_block_count m = card (bs_set vss_kBlockSize D)" "dm_allocation_block_count m = card (bs_set vss_kBlockSize A)"
    "dm_svi_block_count m = card (bs_set vss_kBlockSize S)"
    using m f(3) g(1,3) assms bs_size_card by auto
qed

lemma BuildDirtyBlockMap_spec:
  assumes "BuildDirtyBlockMap heap nt alloc pe b p baseline payload = Some (Inr m)"
    and "sd_volume baseline = Inr v1" "sd_volume payload = Inr v2" "volume_ok raw1 v1" "volume_ok raw2 v2" "maps_errors nt"
  shows "\<exists>iv src dss before after l1 l2.
    ReadBlockDescriptorIntervalCatalog heap (sd_catalog payload) b p = Some (Inr iv) \<and> sd_descriptors payload = Inr src \<and>
    list_all2 (store_records src) (ci_stores iv) dss \<and>
    LoadAllocationBitmap v1 = Inr before \<and> LoadAllocationBitmap v2 = Inr after \<and> cluster_size before = cluster_size after \<and>
    svi_ranges baseline l1 \<and> svi_ranges payload l2 \<and>
    bs_inv vss_kBlockSize (dm_block_offsets m) \<and> dm_volume_size m = cs_volume_size (ci_payload iv) \<and>
    bs_set vss_kBlockSize (dm_block_offsets m) =
      offset_blocks (dm_volume_size m) (\<Union> (descriptor_offsets ` set (concat dss))) \<union>
      changed_blocks vss_kBlockSize (cluster_size before) (differing_clusters before after) \<union>
      range_blocks vss_kBlockSize l1 \<union> range_blocks vss_kBlockSize l2"
proof -
  obtain iv A S counts D where iv: "ReadBlockDescriptorIntervalCatalog heap (sd_catalog payload) b p = Some (Inr iv)"
    and A: "ReadAllocationChangeBlocks heap vss_kBlockSize nt alloc (Inr v1) (Inr v2) = Inr A"
    and S: "read_svi_blocks heap pe baseline payload (cs_volume_size (ci_payload iv)) = Some (Inr S)"
    and D: "EnumerateBlockDescriptors heap (sd_descriptors payload) (ci_stores iv) (add_descriptor heap (cs_volume_size (ci_payload iv)))
        (BitmapSet_new vss_kBlockSize (sub64 (cs_volume_size (ci_payload iv)) 1)) = Some (Inr (counts, D))"
    and m: "merge_blocks heap iv (ac_block_offsets A) S counts D = Inr m"
    using assms(1-3) unfolding BuildDirtyBlockMap_def Let_def
    by (auto simp: err_simps split: option.splits sum.splits if_splits)
  obtain before after where ba: "LoadAllocationBitmap v1 = Inr before" "LoadAllocationBitmap v2 = Inr after"
      "cluster_size before = cluster_size after" "bs_inv vss_kBlockSize (ac_block_offsets A)"
      "bs_set vss_kBlockSize (ac_block_offsets A) = changed_blocks vss_kBlockSize (cluster_size before) (differing_clusters before after)"
    using ReadAllocationChangeBlocks_spec [OF A assms(4-6)] by auto
  obtain l1 l2 where l: "svi_ranges baseline l1" "svi_ranges payload l2" "bs_inv vss_kBlockSize S"
      "bs_set vss_kBlockSize S = range_blocks vss_kBlockSize l1 \<union> range_blocks vss_kBlockSize l2"
    using read_svi_blocks_spec [OF S] by blast
  obtain src dss where d: "sd_descriptors payload = Inr src" "list_all2 (store_records src) (ci_stores iv) dss" "bs_inv vss_kBlockSize D"
      "bs_set vss_kBlockSize D = offset_blocks (cs_volume_size (ci_payload iv)) (\<Union> (descriptor_offsets ` set (concat dss)))"
    using enumerate_add_spec [OF D interval_stores_ok [OF iv]] by blast
  note mm = merge_blocks_spec [OF m ba(4) l(3) d(3)]
  show ?thesis
    using iv d(1,2) ba(1-3) l(1,2) mm(1,3) mm(2) [unfolded ba(5) l(4) d(4)] unfolding mm(3) by (metis Un_assoc)
qed

section \<open>What the bitmap of the chunks contains\<close>

lemma length_storage_bytes [simp]: "length (storage_bytes ws) = 8 * length ws"
  by (induction ws) (simp_all add: storage_bytes_def)

lemma storage_byte: "j < 8 * length ws \<Longrightarrow> storage_bytes ws ! j = ucast (drop_bit (8 * (j mod 8)) (ws ! (j div 8)))"
proof (induction ws arbitrary: j)
  case (Cons w ws)
  show ?case
  proof (cases "j < 8")
    case True
    then show ?thesis by (simp add: storage_bytes_def nth_append)
  next
    case False
    then have "storage_bytes (w # ws) ! j = storage_bytes ws ! (j - 8)" by (simp add: storage_bytes_def nth_append)
    moreover have "j - 8 < 8 * length ws" using False Cons.prems by simp
    moreover have "(j - 8) mod 8 = j mod 8" "j div 8 = Suc ((j - 8) div 8)" using False by (simp_all add: le_mod_geq le_div_geq)
    ultimately show ?thesis using Cons.IH [of "j - 8"] by simp
  qed
qed simp

text \<open>A region of 32 bytes is nonzero exactly when one of its 256 bits is set.\<close>

lemma storage_bit:
  assumes "i div 64 < length ws"
  shows "bit (storage_bytes ws ! (i div 8)) (i mod 8) \<longleftrightarrow> bit (ws ! (i div 64)) (i mod 64)"
proof -
  have "i div 8 < 8 * length ws" using assms by linarith
  moreover have "8 * (i div 8 mod 8) + i mod 8 = i mod 64" "i div 8 div 8 = i div 64"
    using mod_mult2_eq [of i 8 8] div_mult2_eq [of i 8 8] by simp_all
  ultimately show ?thesis by (simp add: storage_byte bit_ucast_iff bit_drop_bit_eq)
qed

lemma nz_region:
  "0 < g \<Longrightarrow> nz (take g (drop (k * g) (input :: 'a::len word list))) \<longleftrightarrow> (\<exists>j < length input. j div g = k \<and> input ! j \<noteq> 0)"
proof -
  assume g: "0 < g"
  have "j div g = k \<longleftrightarrow> k * g \<le> j \<and> j < k * g + g" for j
    using g by (metis add.commute div_nat_eqI dividend_less_div_times div_times_less_eq_dividend mult.commute mult_Suc_right)
  then have "(\<exists>j < length input. j div g = k \<and> input ! j \<noteq> 0) \<longleftrightarrow>
      (\<exists>i < min g (length input - k * g). input ! (k * g + i) \<noteq> 0)"
    by (auto simp: nat_le_iff_add less_diff_conv add.commute)
  moreover have "nz xs \<longleftrightarrow> (\<exists>i < length xs. xs ! i \<noteq> 0)" for xs :: "'a word list" by (auto simp: nz_def set_conv_nth)
  moreover have "(\<exists>i < min g (length input - k * g). take g (drop (k * g) input) ! i \<noteq> 0) \<longleftrightarrow>
      (\<exists>i < min g (length input - k * g). input ! (k * g + i) \<noteq> 0)"
    by (intro ex_cong) auto
  ultimately show ?thesis by (simp add: min.commute)
qed

lemma region_blocks:
  "region_nz 32 (storage_bytes ws) k \<longleftrightarrow> (\<exists>i. i div 256 = k \<and> i div 64 < length ws \<and> bit (ws ! (i div 64)) (i mod 64))"
proof -
  have "(\<exists>j < 8 * length ws. j div 32 = k \<and> storage_bytes ws ! j \<noteq> 0) \<longleftrightarrow>
      (\<exists>j < 8 * length ws. j div 32 = k \<and> (\<exists>b < 8. bit (storage_bytes ws ! j) b))"
    by (simp add: word_neq_0_bit)
  also have "\<dots> \<longleftrightarrow> (\<exists>i. i div 256 = k \<and> i div 64 < length ws \<and> bit (storage_bytes ws ! (i div 8)) (i mod 8))"
  proof
    assume "\<exists>j < 8 * length ws. j div 32 = k \<and> (\<exists>b < 8. bit (storage_bytes ws ! j) b)"
    then obtain j b where "j < 8 * length ws" "j div 32 = k" "b < 8" "bit (storage_bytes ws ! j) b" by blast
    moreover have "(8 * j + b) div 8 = j" "(8 * j + b) mod 8 = b" "(8 * j + b) div 256 = j div 32" "(8 * j + b) div 64 = j div 8"
      using \<open>b < 8\<close> div_mult2_eq [of "8 * j + b" 8 32] div_mult2_eq [of "8 * j + b" 8 8] by simp_all
    ultimately show "\<exists>i. i div 256 = k \<and> i div 64 < length ws \<and> bit (storage_bytes ws ! (i div 8)) (i mod 8)"
      by (intro exI [of _ "8 * j + b"]) (simp add: less_mult_imp_div_less mult.commute)
  next
    assume "\<exists>i. i div 256 = k \<and> i div 64 < length ws \<and> bit (storage_bytes ws ! (i div 8)) (i mod 8)"
    then obtain i where i: "i div 256 = k" "i div 64 < length ws" "bit (storage_bytes ws ! (i div 8)) (i mod 8)" by blast
    have "i div 8 div 32 = k" "i div 8 < 8 * length ws" "i mod 8 < 8" using i(1,2) by (simp_all add: div_mult2_eq [symmetric])
    then show "\<exists>j < 8 * length ws. j div 32 = k \<and> (\<exists>b < 8. bit (storage_bytes ws ! j) b)" using i(3) by blast
  qed
  finally show ?thesis unfolding region_nz_def using storage_bit by (auto simp: nz_region)
qed

lemma MakeDirtyBitmap_spec:
  assumes "MakeDirtyBitmap heap c m = Inr out" "bs_inv vss_kBlockSize (dm_block_offsets m)" "dm_volume_size m < two64"
  shows "div_up (dm_volume_size m) kPbsImageChunkSize \<le> 8 * length out"
    and "k < 8 * length out \<Longrightarrow> obit out k \<longleftrightarrow> (\<exists>v \<in> bs_set vss_kBlockSize (dm_block_offsets m). v div kPbsImageChunkSize = k)"
proof -
  let ?ws = "bm_words (dm_block_offsets m)" and ?chunks = "div_up (dm_volume_size m) kPbsImageChunkSize"
  let ?input = "storage_bytes (ReallocVector_contents ?ws)"
  have r: "ReduceBitmap heap c vss_kBlockSize kPbsImageChunkSize ?input (div_up ?chunks 8) = Inr out"
    using assms(1) unfolding MakeDirtyBitmap_def Let_def div_up_def [symmetric] BitmapSet_storage_def
    by (simp add: FailFastMaybeCast_def cast_needs_check_def u64_def)
  note spec = ReduceBitmap_spec [OF _ r]
  have ok: "resolution_ok vss_kBlockSize kPbsImageChunkSize" by (simp add: resolution_ok_def)
  have "div_up ?chunks 8 \<le> length out" using spec(1) [OF ok] by simp
  then show "?chunks \<le> 8 * length out" using div_up_bound [of 8 ?chunks] by linarith
  have inv: "rv_inv ?ws" using assms(2) by (simp add: bs_inv_def)
  have "(\<exists>i. i div 256 = k \<and> i div 64 < length (ReallocVector_contents ?ws) \<and> bit (ReallocVector_contents ?ws ! (i div 64)) (i mod 64)) \<longleftrightarrow>
      (\<exists>i \<in> rv_bits ?ws. i div 256 = k)"
    using nth_contents [OF inv] length_contents [OF inv] by (auto simp: rv_bits_def)
  also have "\<dots> \<longleftrightarrow> (\<exists>v \<in> bs_set vss_kBlockSize (dm_block_offsets m). v div kPbsImageChunkSize = k)"
    by (auto simp: bs_set_def)
  finally show "obit out k \<longleftrightarrow> (\<exists>v \<in> bs_set vss_kBlockSize (dm_block_offsets m). v div kPbsImageChunkSize = k)"
    if "k < 8 * length out"
    using spec(2) [OF ok that] by (simp add: region_blocks)
qed

section \<open>What the backup receives\<close>

lemma TryPrepare_file:
  assumes "TryPrepareAndWriteDirtyMapForSnapshot heap c files build snapshot = Inr (Some (nf, contents))"
  shows "\<exists>m name. build = Inr m \<and> \<not> BitmapSet_empty (dm_block_offsets m) \<and> MakeDirtyBitmap heap c m = Inr contents \<and>
    SnapshotImageName (sn_original_volume snapshot) = Inr name \<and> nf_name nf = name @ ''.dirty.bitmap'' \<and> mf_reopen files = Inr (nf_handle nf)"
  using assms unfolding TryPrepareAndWriteDirtyMapForSnapshot_def Let_def
  by (cases build; cases "mf_path files"; cases "mf_write files"; cases "mf_reopen files"; cases "mf_inherit files")
    (auto simp: err_simps split: if_splits)

text \<open>A failure to build or to store a map is reported and leaves the volume without a map.\<close>

lemma TryPrepare_failure:
  assumes "SnapshotImageName (sn_original_volume snapshot) = Inr name"
    and "(\<exists>e. build = Inl e \<and> is_runtime_error e) \<or>
      (\<exists>m contents. build = Inr m \<and> MakeDirtyBitmap heap c m = Inr contents \<and> mf_path files = None \<and>
         (mf_write files \<noteq> None \<or> (\<exists>e. mf_reopen files = Inl e) \<or> mf_inherit files \<noteq> None))"
  shows "TryPrepareAndWriteDirtyMapForSnapshot heap c files build snapshot = Inr None"
  using assms by (auto simp: TryPrepareAndWriteDirtyMapForSnapshot_def Let_def split: sum.splits if_splits option.splits)

lemma collect_files_spec:
  "collect_files prepare pairs files0 = (files, err) \<Longrightarrow>
   \<exists>fs. files = files0 @ fs \<and> (\<forall>f \<in> set fs. \<exists>pair \<in> set pairs. prepare pair = Inr (Some f))"
proof (induction pairs arbitrary: files0)
  case (Cons pair pairs)
  show ?case
  proof (cases "prepare pair")
    case (Inr r)
    then show ?thesis using Cons by (cases r) fastforce+
  qed (use Cons in simp)
qed simp

lemma pair_snapshots_mem:
  "pair_snapshots iid baselines snapshots = Inr pairs \<Longrightarrow> (s, b) \<in> set pairs \<Longrightarrow>
   s \<in> set snapshots \<and> (\<exists>g. ParseVolumeGuid iid (sn_original_volume s) = Inr (Inr g) \<and> baselines g = Some b)"
proof (induction snapshots arbitrary: pairs)
  case (Cons x xs)
  then obtain g where g: "ParseVolumeGuid iid (sn_original_volume x) = Inr (Inr g)"
    by (auto simp: err_simps split: sum.splits)
  show ?case
  proof (cases "baselines g")
    case None
    then show ?thesis using Cons g by auto
  next
    case (Some y)
    then obtain rest where "pair_snapshots iid baselines xs = Inr rest" "pairs = (x, y) # rest" using Cons.prems(1) g by (auto simp: err_simps)
    then show ?thesis using Cons.IH Cons.prems(2) g Some by auto
  qed
qed simp

lemma PrepareDirtyMaps_spec:
  assumes "PrepareDirtyMaps iid cancel retrieval ce pe fe prepare payload = Inr pd"
  shows "pd_previous_backup_time pd \<noteq> None \<longleftrightarrow> pd_files pd \<noteq> []"
    and "f \<in> set (pd_files pd) \<Longrightarrow> \<exists>s b. s \<in> set payload \<and> prepare (s, b) = Inr (Some f)"
proof -
  have run: "files = [] \<or> (\<exists>err. callback = (files, err))" if "successor_run ce callback = (files, run)" for callback files run
    using that by (auto simp: successor_run_def split: option.splits prod.splits)
  have "pd = no_dirty_maps \<or> (\<exists>t pairs baselines files err. pair_snapshots iid baselines payload = Inr pairs \<and>
      (files = [] \<or> build_maps pe fe prepare pairs = (files, err)) \<and>
      pd = \<lparr>pd_previous_backup_time = (if files = [] then None else Some t), pd_files = files\<rparr>)"
  proof (cases "pd = no_dirty_maps")
    case False
    obtain prev where prev: "previous_manifest retrieval = Inr prev"
      using assms by (auto simp: PrepareDirtyMaps_def ebind_eq_Inr)
    then obtain tt query where "prev = Some (tt, query)" "tt \<noteq> None"
      using assms False by (cases prev; cases "fst (the prev)") (auto simp: PrepareDirtyMaps_def)
    then obtain t where "previous_manifest retrieval = Inr (Some (Some t, query))" using prev by auto
    then obtain baselines pairs where p: "pair_snapshots iid baselines payload = Inr pairs" "pairs \<noteq> []"
        "(case successor_run ce (build_maps pe fe prepare pairs) of (files, run) \<Rightarrow>
          (case fst (RunVssOperation cancel run) of
             Inl e \<Rightarrow> if is_runtime_error e then Inr no_dirty_maps else Inl e
           | Inr _ \<Rightarrow> Inr \<lparr>pd_previous_backup_time = (if files = [] then None else Some t), pd_files = files\<rparr>)) = Inr pd"
      using assms False unfolding PrepareDirtyMaps_def Let_def by (auto simp: ebind_eq_Inr split: if_split_asm)
    obtain files r where f: "successor_run ce (build_maps pe fe prepare pairs) = (files, r)" by fastforce
    have "pd = \<lparr>pd_previous_backup_time = (if files = [] then None else Some t), pd_files = files\<rparr>"
      using p(3) False unfolding f by (auto split: sum.splits if_split_asm)
    then show ?thesis using run [OF f] p(1) by blast
  qed simp
  then consider "pd = no_dirty_maps" | t pairs baselines files err where "pair_snapshots iid baselines payload = Inr pairs"
      "files = [] \<or> build_maps pe fe prepare pairs = (files, err)"
      "pd = \<lparr>pd_previous_backup_time = (if files = [] then None else Some t), pd_files = files\<rparr>" by blast
  then have "(pd_previous_backup_time pd \<noteq> None \<longleftrightarrow> pd_files pd \<noteq> []) \<and>
      (\<forall>f \<in> set (pd_files pd). \<exists>s b. s \<in> set payload \<and> prepare (s, b) = Inr (Some f))"
  proof cases
    case 1
    then show ?thesis by (simp add: no_dirty_maps_def)
  next
    case 2
    have "\<exists>s b. s \<in> set payload \<and> prepare (s, b) = Inr (Some f)" if f: "f \<in> set files" for f
    proof -
      have "collect_files prepare pairs [] = (files, err)"
        using 2(2) f by (auto simp: build_maps_def split: if_splits option.splits)
      then obtain pair where "pair \<in> set pairs" "prepare pair = Inr (Some f)" using collect_files_spec f by fastforce
      then show ?thesis using pair_snapshots_mem [OF 2(1)] by (metis surj_pair)
    qed
    then show ?thesis using 2(3) by simp
  qed
  then show "pd_previous_backup_time pd \<noteq> None \<longleftrightarrow> pd_files pd \<noteq> []"
    "f \<in> set (pd_files pd) \<Longrightarrow> \<exists>s b. s \<in> set payload \<and> prepare (s, b) = Inr (Some f)" by blast+
qed

end
