(* ===== verification/MapVerification.thy ===== *)
theory MapVerification
  imports DirtyMap CountDiffering SyntheticDevice CancelEvent
begin

text \<open>
  The verification of a dirty map
  (\<open>supervisor/native_backup/incremental_diagnostics.cpp\<close>): four workers per volume read both
  snapshots chunk by chunk, zero the free clusters as the backup does, count the
  blocks that differ and, of these, the blocks that the map lacks, and record their counts under a
  lock.  A worker is a state machine whose steps are the polls of the failure flag and the
  locked sections, and \<open>verify_step\<close> interleaves the workers with the thread that starts them.
\<close>

section \<open>Observations\<close>

abbreviation (input) kComparisonChunkSize :: nat where "kComparisonChunkSize \<equiv> 4194304"
abbreviation (input) kVerificationWorkerCount :: nat where "kVerificationWorkerCount \<equiv> 4"
abbreviation (input) kMapBlockSize :: nat where "kMapBlockSize \<equiv> 16384"

record UnexpectedDifference =
  ud_block_offset :: nat
  ud_byte_offset :: nat
  ud_baseline :: byte
  ud_payload :: byte

record ComparisonObservation =
  ob_compared_bytes :: nat
  ob_differing_bytes :: nat
  ob_differing_blocks :: nat
  ob_uncovered_bytes :: nat
  ob_uncovered_blocks :: nat
  ob_first_uncovered :: "UnexpectedDifference option"
  ob_uncovered_clusters :: "nat list"
  ob_failure :: string

definition no_observation :: ComparisonObservation where
  "no_observation = \<lparr>ob_compared_bytes = 0, ob_differing_bytes = 0, ob_differing_blocks = 0, ob_uncovered_bytes = 0,
     ob_uncovered_blocks = 0, ob_first_uncovered = None, ob_uncovered_clusters = [], ob_failure = ''''\<rparr>"

record MapVerificationState =
  mv_observation :: ComparisonObservation
  mv_failed :: bool

definition MapVerificationState_new :: MapVerificationState where
  "MapVerificationState_new = \<lparr>mv_observation = no_observation, mv_failed = False\<rparr>"

definition earlier_difference ::
    "UnexpectedDifference option \<Rightarrow> UnexpectedDifference option \<Rightarrow> UnexpectedDifference option" where
  "earlier_difference new old =
     (case new of
        None \<Rightarrow> old
      | Some n \<Rightarrow>
          (case old of
             None \<Rightarrow> new
           | Some u \<Rightarrow> if ud_byte_offset n < ud_byte_offset u then new else old))"

definition MapVerificationState_Record ::
    "MapVerificationState \<Rightarrow> nat \<Rightarrow> ComparisonObservation \<Rightarrow> MapVerificationState" where
  "MapVerificationState_Record st compared_bytes observation =
     (let old = mv_observation st
      in st\<lparr>mv_observation := old\<lparr>
           ob_compared_bytes := add64 (ob_compared_bytes old) compared_bytes,
           ob_differing_bytes := add64 (ob_differing_bytes old) (ob_differing_bytes observation),
           ob_differing_blocks := add64 (ob_differing_blocks old) (ob_differing_blocks observation),
           ob_uncovered_bytes := add64 (ob_uncovered_bytes old) (ob_uncovered_bytes observation),
           ob_uncovered_blocks := add64 (ob_uncovered_blocks old) (ob_uncovered_blocks observation),
           ob_uncovered_clusters := ob_uncovered_clusters old @ ob_uncovered_clusters observation,
           ob_first_uncovered := earlier_difference (ob_first_uncovered observation) (ob_first_uncovered old)\<rparr>\<rparr>)"

definition MapVerificationState_Fail :: "MapVerificationState \<Rightarrow> string \<Rightarrow> MapVerificationState" where
  "MapVerificationState_Fail st err =
     (let old = mv_observation st
      in st\<lparr>mv_observation := (if ob_failure old = '''' then old\<lparr>ob_failure := err\<rparr> else old), mv_failed := True\<rparr>)"

section \<open>Reading the snapshots\<close>

record VerificationAllocation =
  va_baseline :: SnapshotAllocationBitmap
  va_payload :: SnapshotAllocationBitmap

definition LoadVerificationAllocation ::
    "(nat \<Rightarrow> ntstatus) \<Rightarrow> (nat \<Rightarrow> bool) \<Rightarrow> nat + volume \<Rightarrow> nat + volume \<Rightarrow> VerificationAllocation result" where
  "LoadVerificationAllocation nt alloc baseline_device payload_device =
     ebind (LoadSnapshotAllocationBitmap nt alloc baseline_device) (\<lambda>baseline.
     ebind (LoadSnapshotAllocationBitmap nt alloc payload_device) (\<lambda>payload.
       if sn_volume_size baseline \<noteq> sn_volume_size payload
       then Inl (RuntimeError ''the retained snapshot and the new snapshot differ in size'')
       else Inr \<lparr>va_baseline = baseline, va_payload = payload\<rparr>))"

text \<open>
  A snapshot as a worker sees it: the errors of opening, aligning, seeking, whether the buffer
  can be allocated, and \<open>ReadFile\<close> at a file position (the error, or the bytes it completed).
\<close>

record snapshot_io =
  io_open :: "nat option"
  io_alignment :: "nat + nat"
  io_buffer :: bool
  io_seek :: "nat option"
  io_read :: "nat \<Rightarrow> nat \<Rightarrow> nat + byte list"

definition OpenVerificationSnapshot :: "snapshot_io \<Rightarrow> unit result" where
  "OpenVerificationSnapshot s =
     (case io_open s of
        Some err \<Rightarrow> Inl (SystemError err ''could not open the snapshot for incremental verification'')
      | None \<Rightarrow> Inr ())"

definition AllocateComparisonBuffer :: "snapshot_io \<Rightarrow> unit result" where
  "AllocateComparisonBuffer s =
     (case io_alignment s of
        Inl err \<Rightarrow> Inl (SystemError err ''could not query buffer alignment for verification snapshot'')
      | Inr _ \<Rightarrow>
          if \<not> io_buffer s
          then Inl (SystemError ERROR_NOT_ENOUGH_MEMORY ''could not allocate an incremental verification buffer'')
          else Inr ())"

definition SeekVerificationSnapshot :: "snapshot_io \<Rightarrow> nat \<Rightarrow> nat result" where
  "SeekVerificationSnapshot s offset =
     ebind (FailFastCast i64 (int offset)) (\<lambda>position.
       case io_seek s of
         Some err \<Rightarrow> Inl (SystemError err ''could not seek the snapshot'')
       | None \<Rightarrow> Inr (nat position))"

definition ReadVerificationChunk :: "snapshot_io \<Rightarrow> nat \<Rightarrow> nat \<Rightarrow> byte list result" where
  "ReadVerificationChunk s position sz =
     ebind (FailFastCast u32 (int sz)) (\<lambda>requested.
       case io_read s position (nat requested) of
         Inl err \<Rightarrow> Inl (SystemError err ''could not read the snapshot during incremental verification'')
       | Inr bytes \<Rightarrow>
           if length bytes \<noteq> nat requested
           then Inl (RuntimeError ''the incremental verification read completed short'')
           else Inr bytes)"

section \<open>Comparing a chunk\<close>

definition cluster_differs :: "byte list \<Rightarrow> byte list \<Rightarrow> nat \<Rightarrow> nat \<Rightarrow> nat \<Rightarrow> nat \<Rightarrow> bool" where
  "cluster_differs baseline payload block_offset block_end cluster_size1 cluster =
     (let cluster_start = mul64 cluster cluster_size1;
          cluster_end = add64 cluster_start cluster_size1;
          start = max block_offset cluster_start;
          relative = start - block_offset;
          size1 = min block_end cluster_end - start
      in take size1 (drop relative baseline) \<noteq> take size1 (drop relative payload))"

definition AppendDifferingClusters :: "byte list \<Rightarrow> byte list \<Rightarrow> nat \<Rightarrow> nat \<Rightarrow> nat list \<Rightarrow> nat list" where
  "AppendDifferingClusters baseline payload block_offset cluster_size1 clusters =
     (let block_end = add64 block_offset (length baseline);
          first_cluster = block_offset div cluster_size1;
          past_last_cluster = (block_end - 1) div cluster_size1 + 1
      in clusters @ filter (cluster_differs baseline payload block_offset block_end cluster_size1)
           [first_cluster..<past_last_cluster])"

text \<open>\<open>std::ranges::mismatch\<close> from a position on.\<close>

definition first_mismatch :: "byte list \<Rightarrow> byte list \<Rightarrow> nat \<Rightarrow> nat option" where
  "first_mismatch baseline payload relative =
     (case filter (\<lambda>i. baseline ! i \<noteq> payload ! i) [relative..<length baseline] of
        [] \<Rightarrow> None | i # _ \<Rightarrow> Some i)"

lemma first_mismatch_Some:
  assumes "first_mismatch b p r = Some i"
  shows "r \<le> i" "i < length b" "b ! i \<noteq> p ! i" "\<And>j. r \<le> j \<Longrightarrow> j < i \<Longrightarrow> b ! j = p ! j"
proof -
  obtain rest where f: "filter (\<lambda>i. b ! i \<noteq> p ! i) [r..<length b] = i # rest"
    using assms by (auto simp: first_mismatch_def split: list.splits)
  obtain us vs where s: "[r..<length b] = us @ i # vs" "\<forall>u \<in> set us. b ! u = p ! u" "b ! i \<noteq> p ! i"
    using f by (auto simp: filter_eq_Cons_iff)
  have i: "i \<in> set [r..<length b]" using s(1) by (metis in_set_conv_decomp)
  then show "r \<le> i" "i < length b" "b ! i \<noteq> p ! i" using s(3) by simp_all
  show "b ! j = p ! j" if "r \<le> j" "j < i" for j
  proof -
    have "j \<in> set (us @ i # vs)" using that i unfolding s(1) [symmetric] by simp
    moreover have "sorted_wrt (<) (us @ i # vs)" unfolding s(1) [symmetric] by (rule sorted_wrt_upt)
    ultimately have "j \<in> set us" using that(2) by (fastforce simp: sorted_wrt_append)
    then show ?thesis using s(2) by blast
  qed
qed

lemma first_mismatch_None: "first_mismatch b p r = None \<longleftrightarrow> (\<forall>i. r \<le> i \<and> i < length b \<longrightarrow> b ! i = p ! i)"
proof -
  have "first_mismatch b p r = None \<longleftrightarrow> filter (\<lambda>i. b ! i \<noteq> p ! i) [r..<length b] = []"
    by (simp add: first_mismatch_def split: list.split)
  also have "\<dots> \<longleftrightarrow> (\<forall>i. r \<le> i \<and> i < length b \<longrightarrow> b ! i = p ! i)" unfolding filter_empty_conv by auto
  finally show ?thesis .
qed

text \<open>What one differing block adds to the result, with the map and without one.\<close>

definition observe_block ::
    "cpu \<Rightarrow> byte list \<Rightarrow> byte list \<Rightarrow> nat \<Rightarrow> nat \<Rightarrow> string + DirtyBlockMap \<Rightarrow> nat \<Rightarrow> ComparisonObservation \<Rightarrow> ComparisonObservation result" where
  "observe_block c baseline payload chunk_offset cluster_size1 dirty_map first_relative result1 =
     (let relative = first_relative - first_relative mod kMapBlockSize;
          size1 = min kMapBlockSize (length baseline - relative);
          differing_bytes = unat (CountDifferingBytes c (drop first_relative baseline) (drop first_relative payload)
                                    (relative + size1 - first_relative));
          result2 = result1\<lparr>ob_differing_bytes := add64 (ob_differing_bytes result1) differing_bytes,
                            ob_differing_blocks := add64 (ob_differing_blocks result1) 1\<rparr>
      in case dirty_map of
           Inl _ \<Rightarrow> Inr result2
         | Inr map1 \<Rightarrow>
             let block_offset = add64 chunk_offset relative
             in ebind (BitmapSet_contains vss_kBlockSize (dm_block_offsets map1) block_offset) (\<lambda>covered.
                  if covered then Inr result2
                  else Inr (result2\<lparr>ob_uncovered_bytes := add64 (ob_uncovered_bytes result2) differing_bytes,
                       ob_uncovered_blocks := add64 (ob_uncovered_blocks result2) 1,
                       ob_uncovered_clusters := AppendDifferingClusters (take size1 (drop relative baseline))
                         (take size1 (drop relative payload)) block_offset cluster_size1 (ob_uncovered_clusters result2),
                       ob_first_uncovered := (case ob_first_uncovered result2 of
                           Some u \<Rightarrow> Some u
                         | None \<Rightarrow> Some \<lparr>ud_block_offset = block_offset, ud_byte_offset = add64 chunk_offset first_relative,
                                         ud_baseline = baseline ! first_relative, ud_payload = payload ! first_relative\<rparr>)\<rparr>)))"

function compare_loop ::
    "cpu \<Rightarrow> byte list \<Rightarrow> byte list \<Rightarrow> nat \<Rightarrow> nat \<Rightarrow> string + DirtyBlockMap \<Rightarrow> nat \<Rightarrow> ComparisonObservation \<Rightarrow> ComparisonObservation result" where
  "compare_loop c baseline payload chunk_offset cluster_size1 dirty_map relative result1 =
     (if relative < length baseline then
        (case first_mismatch baseline payload relative of
           None \<Rightarrow> Inr result1
         | Some first_relative \<Rightarrow>
             (case observe_block c baseline payload chunk_offset cluster_size1 dirty_map first_relative result1 of
                Inl e \<Rightarrow> Inl e
              | Inr result2 \<Rightarrow>
                  compare_loop c baseline payload chunk_offset cluster_size1 dirty_map
                    (first_relative - first_relative mod kMapBlockSize + kMapBlockSize) result2))
      else Inr result1)"
  by pat_completeness auto

termination
proof (relation "measure (\<lambda>(_, b, _, _, _, _, r, _). length b - r)", goal_cases)
  case (2 c b p off cs m r res i res2)
  have "i < i - i mod kMapBlockSize + kMapBlockSize" using round_down(3) [of kMapBlockSize i] by simp
  then show ?case using first_mismatch_Some(1,2) [OF 2(2)] 2(1) by simp
qed simp

declare compare_loop.simps [simp del]

definition CompareVerificationChunk ::
    "cpu \<Rightarrow> byte list \<Rightarrow> byte list \<Rightarrow> nat \<Rightarrow> nat \<Rightarrow> string + DirtyBlockMap \<Rightarrow> ComparisonObservation result" where
  "CompareVerificationChunk c baseline payload chunk_offset cluster_size1 dirty_map =
     compare_loop c baseline payload chunk_offset cluster_size1 dirty_map 0 no_observation"

section \<open>The workers\<close>

text \<open>What \<open>error.what()\<close> of a caught exception returns.\<close>

definition error_what :: "error \<Rightarrow> string" where
  "error_what e = (case e of RuntimeError s \<Rightarrow> s | SystemError _ s \<Rightarrow> s | InvalidArgument s \<Rightarrow> s | _ \<Rightarrow> '''')"

datatype worker_phase = Starting | Checking | Reading | Finished | Threw error

record worker =
  wk_start :: nat
  wk_end :: nat
  wk_phase :: worker_phase
  wk_offset :: nat
  wk_baseline_position :: nat
  wk_payload_position :: nat

definition new_worker :: "nat \<times> nat \<Rightarrow> worker" where
  "new_worker r = \<lparr>wk_start = fst r, wk_end = snd r, wk_phase = Starting, wk_offset = fst r,
     wk_baseline_position = 0, wk_payload_position = 0\<rparr>"

definition VerificationWorkerRange :: "nat \<Rightarrow> nat \<Rightarrow> nat \<times> nat" where
  "VerificationWorkerRange volume_size worker_index =
     (let chunk_count = volume_size div kComparisonChunkSize + (if volume_size mod kComparisonChunkSize \<noteq> 0 then 1 else 0);
          first_chunk = mul64 chunk_count worker_index div kVerificationWorkerCount;
          past_last_chunk = mul64 chunk_count (worker_index + 1) div kVerificationWorkerCount
      in (mul64 first_chunk kComparisonChunkSize, min (mul64 past_last_chunk kComparisonChunkSize) volume_size))"

text \<open>Opening, allocating and seeking, in the order of the source.\<close>

definition prepare_worker :: "snapshot_io \<Rightarrow> snapshot_io \<Rightarrow> nat \<Rightarrow> (nat \<times> nat) result" where
  "prepare_worker baseline payload range_start =
     ebind (OpenVerificationSnapshot baseline) (\<lambda>_.
     ebind (OpenVerificationSnapshot payload) (\<lambda>_.
     ebind (AllocateComparisonBuffer baseline) (\<lambda>_.
     ebind (AllocateComparisonBuffer payload) (\<lambda>_.
     ebind (SeekVerificationSnapshot baseline range_start) (\<lambda>baseline_position.
     ebind (SeekVerificationSnapshot payload range_start) (\<lambda>payload_position.
       Inr (baseline_position, payload_position)))))))"

text \<open>
  One iteration of the loop of \<open>VerifySnapshotRange\<close> between its poll and \<open>Record\<close>; \<open>None\<close> if
  \<open>SynthesizeFreeClusters\<close> did not return.
\<close>

definition verify_chunk ::
    "cpu \<Rightarrow> VerificationAllocation \<Rightarrow> string + DirtyBlockMap \<Rightarrow> snapshot_io \<Rightarrow> snapshot_io \<Rightarrow> worker \<Rightarrow>
     (nat \<times> ComparisonObservation) result option" where
  "verify_chunk c allocation dirty_map baseline payload w =
     (let size1 = min kComparisonChunkSize (wk_end w - wk_offset w)
      in case ebind (ReadVerificationChunk baseline (wk_baseline_position w) size1) (\<lambda>b.
              ebind (ReadVerificationChunk payload (wk_payload_position w) size1) (\<lambda>p. Inr (b, p))) of
           Inl e \<Rightarrow> Some (Inl e)
         | Inr (b, p) \<Rightarrow>
             (case (SnapshotAllocationBitmap_SynthesizeFreeClusters (va_baseline allocation) b (wk_offset w),
                    SnapshotAllocationBitmap_SynthesizeFreeClusters (va_payload allocation) p (wk_offset w)) of
                (Some b', Some p') \<Rightarrow>
                  Some (ebind (CompareVerificationChunk c b' p' (wk_offset w)
                                 (cluster_size (sn_bitmap (va_baseline allocation))) dirty_map)
                          (\<lambda>observation. Inr (size1, observation)))
              | _ \<Rightarrow> None))"

text \<open>\<open>catch (const std::runtime_error &)\<close>; any other exception is kept by the future.\<close>

definition worker_throws :: "MapVerificationState \<Rightarrow> worker \<Rightarrow> error \<Rightarrow> MapVerificationState \<times> worker" where
  "worker_throws st w e =
     (if is_runtime_error e then (MapVerificationState_Fail st (error_what e), w\<lparr>wk_phase := Finished\<rparr>)
      else (st, w\<lparr>wk_phase := Threw e\<rparr>))"

text \<open>
  One step of \<open>VerifySnapshotRange\<close>; \<open>cancelled\<close> is what a poll of the cancellation event sees.
\<close>

definition worker_step ::
    "cpu \<Rightarrow> VerificationAllocation \<Rightarrow> string + DirtyBlockMap \<Rightarrow> bool \<Rightarrow> snapshot_io \<Rightarrow> snapshot_io \<Rightarrow>
     MapVerificationState \<Rightarrow> worker \<Rightarrow> (MapVerificationState \<times> worker) option" where
  "worker_step c allocation dirty_map cancelled baseline payload st w =
     (case wk_phase w of
        Starting \<Rightarrow>
          if mv_failed st \<or> cancelled then Some (st, w\<lparr>wk_phase := Finished\<rparr>)
          else (case prepare_worker baseline payload (wk_start w) of
                  Inl e \<Rightarrow> Some (worker_throws st w e)
                | Inr (bp, pp) \<Rightarrow>
                    Some (st, w\<lparr>wk_phase := Checking, wk_offset := wk_start w,
                                wk_baseline_position := bp, wk_payload_position := pp\<rparr>))
      | Checking \<Rightarrow>
          if wk_offset w < wk_end w
          then (if mv_failed st \<or> cancelled then Some (st, w\<lparr>wk_phase := Finished\<rparr>)
                else Some (st, w\<lparr>wk_phase := Reading\<rparr>))
          else Some (st, w\<lparr>wk_phase := Finished\<rparr>)
      | Reading \<Rightarrow>
          map_option (\<lambda>r. case r of
              Inl e \<Rightarrow> worker_throws st w e
            | Inr (size1, observation) \<Rightarrow>
                (MapVerificationState_Record st size1 observation,
                 w\<lparr>wk_phase := Checking, wk_offset := add64 (wk_offset w) kComparisonChunkSize,
                   wk_baseline_position := wk_baseline_position w + size1,
                   wk_payload_position := wk_payload_position w + size1\<rparr>))
            (verify_chunk c allocation dirty_map baseline payload w)
      | _ \<Rightarrow> None)"

section \<open>One volume\<close>

text \<open>\<open>vr_next\<close> is the loop variable of \<open>StartVerificationWorkers\<close>, \<open>None\<close> after its return.\<close>

record verification_run =
  vr_state :: MapVerificationState
  vr_next :: "nat option"
  vr_workers :: "worker list"

definition StartVerificationWorker :: "error option \<Rightarrow> verification_run \<Rightarrow> nat \<times> nat \<Rightarrow> bool \<times> verification_run" where
  "StartVerificationWorker async_error run range1 =
     (case async_error of
        None \<Rightarrow> (True, run\<lparr>vr_workers := vr_workers run @ [new_worker range1]\<rparr>)
      | Some e \<Rightarrow> (False, run\<lparr>vr_state := MapVerificationState_Fail (vr_state run) (error_what e)\<rparr>))"

definition start_step :: "nat \<Rightarrow> bool \<Rightarrow> error option \<Rightarrow> verification_run \<Rightarrow> verification_run option" where
  "start_step volume_size cancelled async_error run =
     (case vr_next run of
        None \<Rightarrow> None
      | Some worker_index \<Rightarrow>
          if \<not> worker_index < kVerificationWorkerCount then Some (run\<lparr>vr_next := None\<rparr>)
          else if mv_failed (vr_state run) \<or> cancelled then Some (run\<lparr>vr_next := None\<rparr>)
          else
            let range1 = VerificationWorkerRange volume_size worker_index
            in if fst range1 = snd range1 then Some (run\<lparr>vr_next := Some (worker_index + 1)\<rparr>)
               else (case StartVerificationWorker async_error run range1 of
                       (started, run') \<Rightarrow>
                         Some (run'\<lparr>vr_next := (if started then Some (worker_index + 1) else None)\<rparr>)))"

text \<open>
  The interleavings.  \<open>B\<close> and \<open>P\<close> are the behaviours that handles of the two snapshots may
  show, and \<open>may_cancel\<close> tells whether the event may be signalled.
\<close>

inductive verify_step ::
    "cpu \<Rightarrow> nat \<Rightarrow> VerificationAllocation \<Rightarrow> string + DirtyBlockMap \<Rightarrow> snapshot_io set \<Rightarrow> snapshot_io set \<Rightarrow> bool \<Rightarrow>
     verification_run \<Rightarrow> verification_run \<Rightarrow> bool"
  for c volume_size allocation dirty_map B P may_cancel where
  starting: "start_step volume_size cancelled async_error run = Some run' \<Longrightarrow> (cancelled \<longrightarrow> may_cancel) \<Longrightarrow>
    verify_step c volume_size allocation dirty_map B P may_cancel run run'"
| working: "i < length (vr_workers run) \<Longrightarrow> baseline \<in> B \<Longrightarrow> payload \<in> P \<Longrightarrow> (cancelled \<longrightarrow> may_cancel) \<Longrightarrow>
    worker_step c allocation dirty_map cancelled baseline payload (vr_state run) (vr_workers run ! i) = Some (st', w') \<Longrightarrow>
    verify_step c volume_size allocation dirty_map B P may_cancel run
      (run\<lparr>vr_state := st', vr_workers := (vr_workers run)[i := w']\<rparr>)"

definition initial_run :: "MapVerificationState \<Rightarrow> verification_run" where
  "initial_run st = \<lparr>vr_state = st, vr_next = Some 0, vr_workers = []\<rparr>"

definition run_finished :: "verification_run \<Rightarrow> bool" where
  "run_finished run \<longleftrightarrow> vr_next run = None \<and> list_all (\<lambda>w. wk_phase w = Finished) (vr_workers run)"

end
