(* ===== verification/MapVerificationProofs.thy ===== *)
theory MapVerificationProofs
  imports MapVerification
begin

text \<open>
  Correctness of the map verification: a chunk comparison counts exactly the differing and
  the uncovered blocks of its chunk, the shared observation is exact for the chunks recorded so far under every
  interleaving, and a volume whose comparison is complete and shows no uncovered block has a map that covers every difference.
\<close>

section \<open>Exact observations\<close>

definition uncovered :: "(nat \<Rightarrow> byte) \<Rightarrow> (nat \<Rightarrow> byte) \<Rightarrow> string + DirtyBlockMap \<Rightarrow> nat \<Rightarrow> bool" where
  "uncovered ca cp mp x \<longleftrightarrow> ca x \<noteq> cp x \<and>
     (case mp of Inl _ \<Rightarrow> False | Inr m \<Rightarrow> x div kMapBlockSize * kMapBlockSize \<notin> bs_set vss_kBlockSize (dm_block_offsets m))"

definition blocks_in :: "(nat \<Rightarrow> bool) \<Rightarrow> nat set \<Rightarrow> nat set" where
  "blocks_in Q S = (\<lambda>x. x div kMapBlockSize) ` {x \<in> S. Q x}"

definition first_of :: "(nat \<Rightarrow> byte) \<Rightarrow> (nat \<Rightarrow> byte) \<Rightarrow> (nat \<Rightarrow> bool) \<Rightarrow> nat set \<Rightarrow> UnexpectedDifference option \<Rightarrow> bool" where
  "first_of ca cp Q S f \<longleftrightarrow>
     (case f of
        None \<Rightarrow> \<forall>x \<in> S. \<not> Q x
      | Some u \<Rightarrow> ud_byte_offset u \<in> S \<and> Q (ud_byte_offset u) \<and> (\<forall>x \<in> S. Q x \<longrightarrow> ud_byte_offset u \<le> x) \<and>
          ud_baseline u = ca (ud_byte_offset u) \<and> ud_payload u = cp (ud_byte_offset u) \<and>
          ud_block_offset u = ud_byte_offset u div kMapBlockSize * kMapBlockSize)"

text \<open>\<open>observes ca cp cs mp S r\<close>: the counts of \<open>r\<close> are exact for the bytes \<open>S\<close> of the two images.\<close>

definition observes ::
    "(nat \<Rightarrow> byte) \<Rightarrow> (nat \<Rightarrow> byte) \<Rightarrow> nat \<Rightarrow> string + DirtyBlockMap \<Rightarrow> nat set \<Rightarrow> ComparisonObservation \<Rightarrow> bool" where
  "observes ca cp cs mp S r \<longleftrightarrow>
     ob_differing_bytes r = card {x \<in> S. ca x \<noteq> cp x} \<and>
     ob_differing_blocks r = card (blocks_in (\<lambda>x. ca x \<noteq> cp x) S) \<and>
     ob_uncovered_bytes r = card {x \<in> S. uncovered ca cp mp x} \<and>
     ob_uncovered_blocks r = card (blocks_in (uncovered ca cp mp) S) \<and>
     first_of ca cp (uncovered ca cp mp) S (ob_first_uncovered r) \<and>
     set (ob_uncovered_clusters r) = (\<lambda>x. x div cs) ` {x \<in> S. uncovered ca cp mp x}"

definition add_observation :: "ComparisonObservation \<Rightarrow> ComparisonObservation \<Rightarrow> ComparisonObservation" where
  "add_observation old new = old\<lparr>
     ob_differing_bytes := add64 (ob_differing_bytes old) (ob_differing_bytes new),
     ob_differing_blocks := add64 (ob_differing_blocks old) (ob_differing_blocks new),
     ob_uncovered_bytes := add64 (ob_uncovered_bytes old) (ob_uncovered_bytes new),
     ob_uncovered_blocks := add64 (ob_uncovered_blocks old) (ob_uncovered_blocks new),
     ob_uncovered_clusters := ob_uncovered_clusters old @ ob_uncovered_clusters new,
     ob_first_uncovered := earlier_difference (ob_first_uncovered new) (ob_first_uncovered old)\<rparr>"

lemma Record_eq:
  "MapVerificationState_Record st n ob = st\<lparr>mv_observation :=
     (add_observation (mv_observation st) ob)\<lparr>ob_compared_bytes := add64 (ob_compared_bytes (mv_observation st)) n\<rparr>\<rparr>"
  by (simp add: MapVerificationState_Record_def add_observation_def Let_def)

lemma observes_empty: "observes ca cp cs mp {} no_observation"
  by (simp add: observes_def no_observation_def blocks_in_def first_of_def)

lemma observes_none:
  assumes "\<forall>x \<in> T. ca x = cp x" "observes ca cp cs mp S r"
  shows "observes ca cp cs mp (S \<union> T) r"
proof -
  have e: "{x \<in> S \<union> T. ca x \<noteq> cp x} = {x \<in> S. ca x \<noteq> cp x}"
    "{x \<in> S \<union> T. uncovered ca cp mp x} = {x \<in> S. uncovered ca cp mp x}"
    using assms(1) by (auto simp: uncovered_def)
  moreover have "first_of ca cp (uncovered ca cp mp) (S \<union> T) f \<longleftrightarrow> first_of ca cp (uncovered ca cp mp) S f" for f
    using assms(1) by (cases f) (auto simp: first_of_def uncovered_def)
  ultimately show ?thesis using assms(2) unfolding observes_def blocks_in_def by simp
qed

text \<open>Recording two disjoint parts that share no block.\<close>

definition separate :: "nat set \<Rightarrow> nat set \<Rightarrow> bool" where
  "separate S T \<longleftrightarrow> (\<lambda>x. x div kMapBlockSize) ` S \<inter> (\<lambda>x. x div kMapBlockSize) ` T = {}"

lemma card_parts:
  assumes "separate S T" "finite S" "finite T"
  shows "card {x \<in> S \<union> T. Q x} = card {x \<in> S. Q x} + card {x \<in> T. Q x}"
    "card (blocks_in Q (S \<union> T)) = card (blocks_in Q S) + card (blocks_in Q T)"
proof -
  have "S \<inter> T = {}" using assms(1) by (auto simp: separate_def)
  then have "{x \<in> S. Q x} \<inter> {x \<in> T. Q x} = {}" by auto
  moreover have "{x \<in> S \<union> T. Q x} = {x \<in> S. Q x} \<union> {x \<in> T. Q x}" by auto
  ultimately show "card {x \<in> S \<union> T. Q x} = card {x \<in> S. Q x} + card {x \<in> T. Q x}"
    using assms(2,3) by (simp add: card_Un_disjoint)
  have "blocks_in Q (S \<union> T) = blocks_in Q S \<union> blocks_in Q T" by (auto simp: blocks_in_def)
  moreover have "blocks_in Q S \<inter> blocks_in Q T = {}" using assms(1) by (auto simp: separate_def blocks_in_def)
  ultimately show "card (blocks_in Q (S \<union> T)) = card (blocks_in Q S) + card (blocks_in Q T)"
    using assms(2,3) by (simp add: card_Un_disjoint blocks_in_def)
qed

lemma blocks_in_le: "finite S \<Longrightarrow> card (blocks_in Q S) \<le> card {x \<in> S. Q x}"
  unfolding blocks_in_def by (rule card_image_le) simp

lemma first_of_Un:
  assumes "first_of ca cp Q S f" "first_of ca cp Q T g"
  shows "first_of ca cp Q (S \<union> T) (earlier_difference g f)"
  using assms by (cases f; cases g) (auto simp: first_of_def earlier_difference_def)

lemma observes_Un:
  assumes "observes ca cp cs mp S r" "observes ca cp cs mp T r'" "separate S T" "finite S" "finite T" "card (S \<union> T) < two64"
  shows "observes ca cp cs mp (S \<union> T) (add_observation r r')"
proof -
  have bound: "card {x \<in> S \<union> T. Q x} < two64" for Q
  proof -
    have "card {x \<in> S \<union> T. Q x} \<le> card (S \<union> T)" using assms(4,5) by (intro card_mono) auto
    then show ?thesis using assms(6) by linarith
  qed
  have add: "add64 (card {x \<in> S. Q x}) (card {x \<in> T. Q x}) = card {x \<in> S \<union> T. Q x}" for Q
    using bound [of Q] card_parts(1) [OF assms(3-5), of Q] by (simp add: add64_exact)
  have addb: "add64 (card (blocks_in Q S)) (card (blocks_in Q T)) = card (blocks_in Q (S \<union> T))" for Q
    using bound [of Q] blocks_in_le [of "S \<union> T" Q] assms(4,5) card_parts(2) [OF assms(3-5), of Q] by (simp add: add64_exact)
  have "(\<lambda>x. x div cs) ` {x \<in> S \<union> T. uncovered ca cp mp x} =
      (\<lambda>x. x div cs) ` {x \<in> S. uncovered ca cp mp x} \<union> (\<lambda>x. x div cs) ` {x \<in> T. uncovered ca cp mp x}" by auto
  then show ?thesis
    using assms(1,2) first_of_Un [of ca cp "uncovered ca cp mp" S "ob_first_uncovered r" T "ob_first_uncovered r'"]
    unfolding observes_def add_observation_def by (simp add: add addb)
qed

section \<open>The clusters of a block\<close>

lemma take_drop_image_neq:
  assumes "a + k \<le> n"
  shows "take k (drop a (image_bytes ca off n)) \<noteq> take k (drop a (image_bytes cp off n)) \<longleftrightarrow>
    (\<exists>x. off + a \<le> x \<and> x < off + a + k \<and> ca x \<noteq> cp x)"
proof -
  have "image_bytes ca p k = image_bytes cp p k \<longleftrightarrow> (\<forall>x. p \<le> x \<and> x < p + k \<longrightarrow> ca x = cp x)" for p
    by (auto simp: image_bytes_def)
  then show ?thesis using assms by auto
qed

lemma AppendDifferingClusters_set:
  assumes "0 < cs" "0 < n" "off + n + cs < two64"
  shows "set (AppendDifferingClusters (image_bytes ca off n) (image_bytes cp off n) off cs l) =
    set l \<union> (\<lambda>x. x div cs) ` {x \<in> {off..<off + n}. ca x \<noteq> cp x}"
proof -
  let ?e = "off + n"
  have e: "add64 off n = ?e" using assms(3) by (intro add64_exact) simp
  have d: "cluster_differs (image_bytes ca off n) (image_bytes cp off n) off ?e cs k \<longleftrightarrow>
      (\<exists>x \<in> {off..<?e}. ca x \<noteq> cp x \<and> x div cs = k)" if k: "off div cs \<le> k" "k \<le> (?e - 1) div cs" for k
  proof -
    have "k * cs \<le> (?e - 1) div cs * cs" using k(2) by (rule mult_le_mono1)
    then have kc: "k * cs \<le> ?e - 1" by (meson div_times_less_eq_dividend le_trans)
    then have ex: "mul64 k cs = k * cs" "add64 (k * cs) cs = k * cs + cs"
      using assms by (simp_all add: mul64_exact add64_exact)
    have "off < k * cs + cs"
    proof -
      have "off < (off div cs + 1) * cs" using dividend_less_div_times [OF assms(1)] by simp
      also have "\<dots> \<le> (k + 1) * cs" using k(1) by (intro mult_le_mono1) simp
      finally show ?thesis by simp
    qed
    then have sz: "max off (k * cs) < min ?e (k * cs + cs)" using kc assms(1,2) by auto
    have x: "(off \<le> x \<and> x < ?e \<and> x div cs = k) \<longleftrightarrow> max off (k * cs) \<le> x \<and> x < min ?e (k * cs + cs)" for x
    proof -
      have "x div cs = k \<longleftrightarrow> k * cs \<le> x \<and> x < k * cs + cs"
        using assms(1) by (metis add.commute div_nat_eqI dividend_less_div_times div_times_less_eq_dividend mult.commute mult_Suc_right)
      then show ?thesis by auto
    qed
    have "off + (max off (k * cs) - off) + (min ?e (k * cs + cs) - max off (k * cs)) = min ?e (k * cs + cs)"
      "off + (max off (k * cs) - off) = max off (k * cs)" "max off (k * cs) - off + (min ?e (k * cs + cs) - max off (k * cs)) \<le> n"
      using sz by auto
    then have cd: "cluster_differs (image_bytes ca off n) (image_bytes cp off n) off ?e cs k \<longleftrightarrow>
        (\<exists>x. max off (k * cs) \<le> x \<and> x < min ?e (k * cs + cs) \<and> ca x \<noteq> cp x)"
      unfolding cluster_differs_def Let_def ex by (simp only: take_drop_image_neq)
    have "(\<exists>x \<in> {off..<?e}. ca x \<noteq> cp x \<and> x div cs = k) \<longleftrightarrow> (\<exists>x. (off \<le> x \<and> x < ?e \<and> x div cs = k) \<and> ca x \<noteq> cp x)" by auto
    also have "\<dots> \<longleftrightarrow> (\<exists>x. max off (k * cs) \<le> x \<and> x < min ?e (k * cs + cs) \<and> ca x \<noteq> cp x)" unfolding x conj_assoc ..
    finally show ?thesis using cd by simp
  qed
  have r: "off div cs \<le> x div cs \<and> x div cs \<le> (?e - 1) div cs" if "x \<in> {off..<?e}" for x
    using that by (auto intro!: div_le_mono)
  have "set (filter (cluster_differs (image_bytes ca off n) (image_bytes cp off n) off ?e cs) [off div cs..<(?e - 1) div cs + 1]) =
      (\<lambda>x. x div cs) ` {x \<in> {off..<?e}. ca x \<noteq> cp x}"
  proof (intro set_eqI)
    fix k
    have "k \<in> set (filter (cluster_differs (image_bytes ca off n) (image_bytes cp off n) off ?e cs) [off div cs..<(?e - 1) div cs + 1]) \<longleftrightarrow>
        off div cs \<le> k \<and> k \<le> (?e - 1) div cs \<and> cluster_differs (image_bytes ca off n) (image_bytes cp off n) off ?e cs k"
      by auto
    also have "\<dots> \<longleftrightarrow> (\<exists>x \<in> {off..<?e}. ca x \<noteq> cp x \<and> x div cs = k)" using d r by metis
    finally show "k \<in> set (filter (cluster_differs (image_bytes ca off n) (image_bytes cp off n) off ?e cs) [off div cs..<(?e - 1) div cs + 1]) \<longleftrightarrow>
        k \<in> (\<lambda>x. x div cs) ` {x \<in> {off..<?e}. ca x \<noteq> cp x}" by blast
  qed
  then show ?thesis unfolding AppendDifferingClusters_def Let_def length_image_bytes e by simp
qed

section \<open>The chunk comparison\<close>

text \<open>
  \<open>block_obs\<close> is what one block that differs first at byte \<open>x\<close> contributes; \<open>observe_block\<close> adds
  it to a result that knows only earlier bytes.
\<close>

definition block_obs ::
    "(nat \<Rightarrow> byte) \<Rightarrow> (nat \<Rightarrow> byte) \<Rightarrow> nat \<Rightarrow> string + DirtyBlockMap \<Rightarrow> nat \<Rightarrow> nat \<Rightarrow> nat \<Rightarrow> ComparisonObservation" where
  "block_obs ca cp cs mp b n x =
     (let k = card {y \<in> {b..<b + n}. ca y \<noteq> cp y}
      in if uncovered ca cp mp x
         then no_observation\<lparr>ob_differing_bytes := k, ob_differing_blocks := 1, ob_uncovered_bytes := k, ob_uncovered_blocks := 1,
                ob_first_uncovered := Some \<lparr>ud_block_offset = b, ud_byte_offset = x, ud_baseline = ca x, ud_payload = cp x\<rparr>,
                ob_uncovered_clusters := AppendDifferingClusters (image_bytes ca b n) (image_bytes cp b n) b cs []\<rparr>
         else no_observation\<lparr>ob_differing_bytes := k, ob_differing_blocks := 1\<rparr>)"

lemma same_block:
  assumes "b mod kMapBlockSize = 0" "b \<le> y" "y < b + n" "n \<le> kMapBlockSize"
  shows "y div kMapBlockSize * kMapBlockSize = b"
proof -
  obtain k where k: "b = k * kMapBlockSize" using assms(1) div_mult_mod_eq [of b kMapBlockSize] by auto
  then have "y div kMapBlockSize = k" using assms(2-4) by (intro div_nat_eqI) simp_all
  then show ?thesis using k by simp
qed

lemma block_obs_observes:
  assumes "b mod kMapBlockSize = 0" "n \<le> kMapBlockSize" "b \<le> x" "x < b + n" "ca x \<noteq> cp x"
    and "\<And>y. b \<le> y \<Longrightarrow> y < x \<Longrightarrow> ca y = cp y" "0 < cs" "b + n + cs < two64"
  shows "observes ca cp cs mp {b..<b + n} (block_obs ca cp cs mp b n x)"
proof -
  let ?T = "{b..<b + n}" and ?D = "\<lambda>y. ca y \<noteq> cp y" and ?U = "uncovered ca cp mp"
  have blk: "y div kMapBlockSize * kMapBlockSize = b" if "y \<in> ?T" for y
    using same_block [OF assms(1) _ _ assms(2), of y] that by simp
  then have one: "y div kMapBlockSize = b div kMapBlockSize" if "y \<in> ?T" for y
    using that by (metis div_mult_self_is_m zero_less_numeral)
  have U: "?U y \<longleftrightarrow> ?D y \<and> ?U x" if "y \<in> ?T" for y
  proof -
    have "y div kMapBlockSize * kMapBlockSize = x div kMapBlockSize * kMapBlockSize" using blk [OF that] blk [of x] assms(3,4) by simp
    then show ?thesis unfolding uncovered_def using assms(5) by (cases mp) simp_all
  qed
  have blocks: "blocks_in Q ?T = {b div kMapBlockSize}" if "Q x" for Q
  proof -
    have "blocks_in Q ?T = (\<lambda>_. b div kMapBlockSize) ` {y \<in> ?T. Q y}"
      unfolding blocks_in_def by (intro image_cong refl) (rule one, simp)
    moreover have "x \<in> {y \<in> ?T. Q y}" using assms(3,4) that by simp
    ultimately show ?thesis by (metis image_constant)
  qed
  have Deq: "{y \<in> ?T. ?U y} = (if ?U x then {y \<in> ?T. ?D y} else {})" using U by auto
  have Beq: "blocks_in ?U ?T = (if ?U x then {b div kMapBlockSize} else {})" using blocks [of ?U] U by (auto simp: blocks_in_def)
  have "set (AppendDifferingClusters (image_bytes ca b n) (image_bytes cp b n) b cs []) = (\<lambda>x. x div cs) ` {y \<in> ?T. ?D y}"
    using AppendDifferingClusters_set [OF assms(7) _ assms(8), where l = "[]"] assms(3,4) by simp
  moreover have "first_of ca cp ?U ?T (if ?U x then Some \<lparr>ud_block_offset = b, ud_byte_offset = x, ud_baseline = ca x, ud_payload = cp x\<rparr> else None)"
  proof -
    have "x \<le> y" if "y \<in> ?T" "?U y" for y using assms(6) [of y] that U by (meson atLeastLessThan_iff not_le)
    moreover have "x div kMapBlockSize * kMapBlockSize = b" "x \<in> ?T" using blk assms(3,4) by simp_all
    moreover have "\<forall>y \<in> ?T. \<not> ?U y" if "\<not> ?U x" using that U by blast
    ultimately show ?thesis by (cases "?U x") (simp_all add: first_of_def)
  qed
  ultimately show ?thesis
    unfolding observes_def Deq Beq using blocks [of ?D, OF assms(5)]
    by (cases "?U x") (simp_all only: block_obs_def Let_def if_True if_False, simp_all add: no_observation_def)
qed

lemma card_differing:
  assumes "i + k \<le> n"
  shows "differing (drop i (image_bytes ca off n)) (drop i (image_bytes cp off n)) 0 k = card {y \<in> {off + i..<off + i + k}. ca y \<noteq> cp y}"
proof -
  have "{y \<in> {off + i..<off + i + k}. ca y \<noteq> cp y} = (\<lambda>j. off + i + j) ` {j. j < k \<and> ca (off + i + j) \<noteq> cp (off + i + j)}"
  proof (intro set_eqI iffI)
    fix y assume "y \<in> {y \<in> {off + i..<off + i + k}. ca y \<noteq> cp y}"
    then show "y \<in> (\<lambda>j. off + i + j) ` {j. j < k \<and> ca (off + i + j) \<noteq> cp (off + i + j)}"
      by (intro image_eqI [of _ _ "y - (off + i)"]) auto
  qed auto
  then have "card {y \<in> {off + i..<off + i + k}. ca y \<noteq> cp y} = card {j. j < k \<and> ca (off + i + j) \<noteq> cp (off + i + j)}"
    by (simp add: card_image inj_on_def)
  also have "{j. j < k \<and> ca (off + i + j) \<noteq> cp (off + i + j)} =
      set (filter (\<lambda>j. drop i (image_bytes ca off n) ! j \<noteq> drop i (image_bytes cp off n) ! j) [0..<k])"
    using assms by auto
  also have "card \<dots> = differing (drop i (image_bytes ca off n)) (drop i (image_bytes cp off n)) 0 k"
    unfolding differing_def by (intro distinct_card) simp
  finally show ?thesis by simp
qed

text \<open>The map, if there is one, is a well-formed set.\<close>

definition map_ok :: "string + DirtyBlockMap \<Rightarrow> bool" where
  "map_ok mp = (case mp of Inl _ \<Rightarrow> True | Inr m \<Rightarrow> bs_inv vss_kBlockSize (dm_block_offsets m))"

lemma observe_block_eq:
  assumes off: "off mod kMapBlockSize = 0" "off + n + cs < two64" and i: "i < n" "ca (off + i) \<noteq> cp (off + i)"
    and rel: "rel = i - i mod kMapBlockSize" "sz = min kMapBlockSize (n - rel)"
    and below: "\<And>y. off + rel \<le> y \<Longrightarrow> y < off + i \<Longrightarrow> ca y = cp y" and mp: "map_ok mp"
    and r: "\<And>u. ob_first_uncovered r = Some u \<Longrightarrow> ud_byte_offset u < off + i"
    and lt: "ob_uncovered_bytes r < two64" "ob_uncovered_blocks r < two64"
  shows "observe_block c (image_bytes ca off n) (image_bytes cp off n) off cs mp i r =
    Inr (add_observation r (block_obs ca cp cs mp (off + rel) sz (off + i)))"
proof -
  have rd: "rel \<le> i" "i < rel + kMapBlockSize" "rel mod kMapBlockSize = 0"
    using round_down [of kMapBlockSize i] rel(1) by simp_all
  have in1: "i < rel + sz" "rel + sz \<le> n" "sz \<le> kMapBlockSize" using rel(2) rd i(1) by (auto simp: min_def)
  let ?k = "card {y \<in> {off + rel..<off + rel + sz}. ca y \<noteq> cp y}"
  have "unat (CountDifferingBytes c (drop i (image_bytes ca off n)) (drop i (image_bytes cp off n)) (rel + sz - i)) =
      card {y \<in> {off + i..<off + i + (rel + sz - i)}. ca y \<noteq> cp y}"
    using in1 off(2) CountDifferingBytes_spec [of "rel + sz - i" "drop i (image_bytes ca off n)" "drop i (image_bytes cp off n)"]
    by (simp add: card_differing del: drop_image_bytes)
  also have "{y \<in> {off + i..<off + i + (rel + sz - i)}. ca y \<noteq> cp y} = {y \<in> {off + rel..<off + rel + sz}. ca y \<noteq> cp y}"
    using below rd(1) in1(1) by (auto, metis add_le_cancel_left le_less_trans less_imp_le_nat not_le)
  finally have k: "unat (CountDifferingBytes c (drop i (image_bytes ca off n)) (drop i (image_bytes cp off n)) (rel + sz - i)) = ?k" .
  have bm: "(off + rel) mod kMapBlockSize = 0" using off(1) rd(3) by auto
  have w: "add64 off rel = off + rel" "add64 off i = off + i" using off(2) i(1) rd(1) by (simp_all add: add64_exact)
  have bl: "(off + i) div kMapBlockSize * kMapBlockSize = off + rel"
    using same_block [OF bm _ _ in1(3), of "off + i"] rd(1) in1(1) by simp
  have parts: "take sz (drop rel (image_bytes ca off n)) = image_bytes ca (off + rel) sz"
    "take sz (drop rel (image_bytes cp off n)) = image_bytes cp (off + rel) sz" using in1(2) by (simp_all add: min_absorb1 le_diff_conv2 add.commute)
  have nth: "image_bytes ca off n ! i = ca (off + i)" "image_bytes cp off n ! i = cp (off + i)" using i(1) by simp_all
  have notlt: "\<not> off + i < ud_byte_offset u" if "ob_first_uncovered r = Some u" for u using r [OF that] by simp
  have zero: "add64 (ob_uncovered_bytes r) 0 = ob_uncovered_bytes r" "add64 (ob_uncovered_blocks r) 0 = ob_uncovered_blocks r"
    using lt by (simp_all add: add64_exact)
  have clusters: "AppendDifferingClusters b p q cs l = l @ AppendDifferingClusters b p q cs []" for b p q l
    by (simp add: AppendDifferingClusters_def Let_def)
  show ?thesis
  proof (cases mp)
    case (Inl e)
    then show ?thesis using k
      by (simp add: observe_block_def rel(1) [symmetric] rel(2) [symmetric] Let_def block_obs_def uncovered_def add_observation_def
          no_observation_def earlier_difference_def zero)
  next
    case (Inr m)
    then have "bs_inv vss_kBlockSize (dm_block_offsets m)" using mp by (simp add: map_ok_def)
    then have cov: "BitmapSet_contains vss_kBlockSize (dm_block_offsets m) (off + rel) = Inr (off + rel \<in> bs_set vss_kBlockSize (dm_block_offsets m))"
      using contains_spec [of vss_kBlockSize "dm_block_offsets m" "off + rel"] bm by simp
    have un: "uncovered ca cp mp (off + i) \<longleftrightarrow> off + rel \<notin> bs_set vss_kBlockSize (dm_block_offsets m)"
      using i(2) bl Inr by (simp add: uncovered_def)
    show ?thesis
      unfolding observe_block_def length_image_bytes rel(1) [symmetric] rel(2) [symmetric] Let_def k w parts nth Inr sum.case cov ebind_simps
      unfolding block_obs_def add_observation_def un [unfolded Inr] Let_def
      using clusters [of "image_bytes ca (off + rel) sz" "image_bytes cp (off + rel) sz" "off + rel" "ob_uncovered_clusters r"]
      by (cases "off + rel \<in> bs_set vss_kBlockSize (dm_block_offsets m)"; cases "ob_first_uncovered r")
        (simp_all add: no_observation_def zero earlier_difference_def notlt)
  qed
qed

lemma add_observation_keeps [simp]:
  "ob_compared_bytes (add_observation r r') = ob_compared_bytes r" "ob_failure (add_observation r r') = ob_failure r"
  by (simp_all add: add_observation_def)

lemma separate_split:
  assumes "m mod kMapBlockSize = 0"
  shows "separate {a..<m} {m..<b}"
proof -
  have "x div kMapBlockSize < y div kMapBlockSize" if "x < m" "m \<le> y" for x y
  proof -
    have m: "m = m div kMapBlockSize * kMapBlockSize" using assms div_mult_mod_eq [of m kMapBlockSize] by simp
    have "x div kMapBlockSize < m div kMapBlockSize" using that(1) m by (simp add: less_mult_imp_div_less)
    also have "\<dots> \<le> y div kMapBlockSize" using that(2) by (rule div_le_mono)
    finally show ?thesis .
  qed
  then show ?thesis unfolding separate_def by fastforce
qed

lemma observes_bounds:
  assumes "observes ca cp cs mp S r" "finite S" "card S < two64"
  shows "ob_uncovered_bytes r < two64" "ob_uncovered_blocks r < two64"
proof -
  have "card {x \<in> S. uncovered ca cp mp x} \<le> card S" using assms(2) by (intro card_mono) auto
  then show "ob_uncovered_bytes r < two64" "ob_uncovered_blocks r < two64"
    using assms(1,3) blocks_in_le [OF assms(2), of "uncovered ca cp mp"] unfolding observes_def by linarith+
qed

lemma compare_loop_spec:
  assumes off: "off mod kMapBlockSize = 0" "off + n + cs < two64" "0 < cs" and mp: "map_ok mp"
    and "rel mod kMapBlockSize = 0" "observes ca cp cs mp {off..<off + min rel n} r"
  shows "\<exists>res. compare_loop c (image_bytes ca off n) (image_bytes cp off n) off cs mp rel r = Inr res \<and>
    observes ca cp cs mp {off..<off + n} res \<and> ob_compared_bytes res = ob_compared_bytes r \<and> ob_failure res = ob_failure r"
  using assms(5,6)
proof (induction "n - rel" arbitrary: rel r rule: less_induct)
  case less
  let ?b = "image_bytes ca off n" and ?p = "image_bytes cp off n"
  consider "n \<le> rel" | "rel < n" "first_mismatch ?b ?p rel = None" | i where "rel < n" "first_mismatch ?b ?p rel = Some i"
    by (cases "first_mismatch ?b ?p rel") fastforce+
  then show ?case
  proof cases
    case 1
    then show ?thesis using less.prems(2) by (subst compare_loop.simps) (simp add: min_absorb2)
  next
    case 2
    have "ca x = cp x" if "x \<in> {off + rel..<off + n}" for x
    proof -
      have "rel \<le> x - off" "x - off < n" using that by auto
      then have "?b ! (x - off) = ?p ! (x - off)" using 2(2) unfolding first_mismatch_None by simp
      then show ?thesis using that by auto
    qed
    then have "\<forall>x \<in> {off + rel..<off + n}. ca x = cp x" by blast
    from observes_none [OF this less.prems(2)] have "observes ca cp cs mp {off..<off + n} r"
      using 2(1) by (simp add: min_absorb1 ivl_disj_un_two)
    then show ?thesis using 2 by (subst compare_loop.simps) simp
  next
    case (3 i)
    define rel' where "rel' = i - i mod kMapBlockSize"
    define sz where "sz = min kMapBlockSize (n - rel')"
    note fm = first_mismatch_Some [OF 3(2), unfolded length_image_bytes]
    have rd: "rel' \<le> i" "i < rel' + kMapBlockSize" "rel' mod kMapBlockSize = 0"
      using round_down [of kMapBlockSize i] by (simp_all add: rel'_def)
    have "rel div kMapBlockSize * kMapBlockSize = rel" using less.prems(1) div_mult_mod_eq [of rel kMapBlockSize] by simp
    moreover have "rel div kMapBlockSize * kMapBlockSize \<le> i div kMapBlockSize * kMapBlockSize"
      using fm(1) by (intro mult_le_mono1 div_le_mono)
    ultimately have rr: "rel \<le> rel'" by (simp add: rel'_def minus_mod_eq_div_mult)
    have eq: "ca x = cp x" if "off + rel \<le> x" "x < off + i" for x
    proof -
      have "rel \<le> x - off" "x - off < i" "x - off < n" using that fm(2) by auto
      then have "?b ! (x - off) = ?p ! (x - off)" using fm(4) by blast
      then show ?thesis using that \<open>x - off < n\<close> by simp
    qed
    have "\<forall>x \<in> {off + rel..<off + rel'}. ca x = cp x" using eq rd(1) by auto
    from observes_none [OF this less.prems(2)] have obs: "observes ca cp cs mp {off..<off + rel'} r"
      using 3(1) rr by (simp add: min_absorb1 ivl_disj_un_two)
    have first: "ud_byte_offset u < off + i" if "ob_first_uncovered r = Some u" for u
      using obs that rd(1) by (auto simp: observes_def first_of_def)
    have ne: "ca (off + i) \<noteq> cp (off + i)" using fm(2,3) by simp
    have small: "card {off..<off + rel'} < two64" using rd(1) fm(2) off(2) by simp
    have ob: "observe_block c ?b ?p off cs mp i r = Inr (add_observation r (block_obs ca cp cs mp (off + rel') sz (off + i)))"
    proof (rule observe_block_eq)
      show "ob_uncovered_bytes r < two64" "ob_uncovered_blocks r < two64" using observes_bounds [OF obs _ small] by simp_all
    qed (use off fm(2) ne rel'_def sz_def mp first eq rr in auto)
    have sz: "i < rel' + sz" "rel' + sz \<le> n" "sz \<le> kMapBlockSize" "off + rel' + sz + cs < two64"
      using rd fm(2) off(2) by (auto simp: sz_def min_def)
    have bm: "(off + rel') mod kMapBlockSize = 0" using off(1) rd(3) by auto
    have "observes ca cp cs mp {off + rel'..<off + rel' + sz} (block_obs ca cp cs mp (off + rel') sz (off + i))"
      by (rule block_obs_observes) (use bm sz ne off(3) eq rr rd(1) in auto)
    from observes_Un [OF obs this separate_split [OF bm]]
    have "observes ca cp cs mp {off..<off + (rel' + sz)} (add_observation r (block_obs ca cp cs mp (off + rel') sz (off + i)))"
      using sz(2) off(2) by (simp add: ivl_disj_un_two add.assoc)
    moreover have "min (rel' + kMapBlockSize) n = rel' + sz" using rd(1) fm(2) by (auto simp: sz_def min_def)
    ultimately have o2: "observes ca cp cs mp {off..<off + min (rel' + kMapBlockSize) n}
        (add_observation r (block_obs ca cp cs mp (off + rel') sz (off + i)))" by simp
    have "n - (rel' + kMapBlockSize) < n - rel" using 3(1) rr by linarith
    from less.hyps [OF this _ o2] rd(3) obtain res where
      "compare_loop c ?b ?p off cs mp (rel' + kMapBlockSize) (add_observation r (block_obs ca cp cs mp (off + rel') sz (off + i))) = Inr res"
      "observes ca cp cs mp {off..<off + n} res" "ob_compared_bytes res = ob_compared_bytes r" "ob_failure res = ob_failure r" by auto
    then show ?thesis using 3 ob by (subst compare_loop.simps) (simp add: rel'_def [symmetric])
  qed
qed

lemma CompareVerificationChunk_spec:
  assumes "off mod kMapBlockSize = 0" "off + n + cs < two64" "0 < cs" "map_ok mp"
  shows "\<exists>res. CompareVerificationChunk c (image_bytes ca off n) (image_bytes cp off n) off cs mp = Inr res \<and>
    observes ca cp cs mp {off..<off + n} res"
  using compare_loop_spec [OF assms, of 0 ca cp no_observation c] observes_empty [of ca cp cs mp]
  unfolding CompareVerificationChunk_def by auto

end
