(* ===== verification/MapVerificationRuns.thy ===== *)
theory MapVerificationRuns
  imports MapVerificationProofs
begin

text \<open>
  The runs of the map verification.  The invariant says what the shared observation
  holds: exactly the counts of the chunks that the workers have completed.  It holds in
  every reachable state, whatever the schedule, the read errors and the cancellation.
\<close>

section \<open>The ranges of the workers\<close>

definition cut :: "nat \<Rightarrow> nat \<Rightarrow> nat" where
  "cut sz k = div_up sz kComparisonChunkSize * k div kVerificationWorkerCount"

lemma cut_mono: "j \<le> k \<Longrightarrow> cut sz j \<le> cut sz k"
  unfolding cut_def by (intro div_le_mono mult_le_mono2)

lemma cut_ends: "cut sz 0 = 0" "cut sz kVerificationWorkerCount = div_up sz kComparisonChunkSize"
  by (simp_all add: cut_def)

lemma chunks_bound: "sz < 9223372036854775808 \<Longrightarrow> div_up sz kComparisonChunkSize \<le> 2199023255552"
  unfolding div_up_def by (simp, linarith)

lemma VerificationWorkerRange_eq:
  assumes "sz < 9223372036854775808" "k < kVerificationWorkerCount"
  shows "VerificationWorkerRange sz k = (cut sz k * kComparisonChunkSize, min (cut sz (k + 1) * kComparisonChunkSize) sz)"
proof -
  let ?n = "div_up sz kComparisonChunkSize"
  have n: "?n \<le> 2199023255552" by (rule chunks_bound [OF assms(1)])
  have k: "?n * j \<le> 2199023255552 * 4" if "j \<le> 4" for j using n that by (intro mult_le_mono) simp_all
  have m: "mul64 ?n k = ?n * k" "mul64 ?n (k + 1) = ?n * (k + 1)"
    using k [of k] k [of "k + 1"] assms(2) by (simp_all add: mul64_exact)
  have c: "cut sz j * kComparisonChunkSize < two64" if "j \<le> 4" for j
  proof -
    have "cut sz j \<le> 2199023255552" unfolding cut_def using k [OF that] by simp
    then show ?thesis by simp
  qed
  have "mul64 (cut sz k) kComparisonChunkSize = cut sz k * kComparisonChunkSize"
    "mul64 (cut sz (k + 1)) kComparisonChunkSize = cut sz (k + 1) * kComparisonChunkSize"
    using c [of k] c [of "k + 1"] assms(2) by (simp_all add: mul64_exact)
  then show ?thesis unfolding VerificationWorkerRange_def Let_def div_up_def [symmetric] m cut_def [symmetric] by simp
qed

lemma range_start_le:
  assumes "k < kVerificationWorkerCount"
  shows "cut sz k * kComparisonChunkSize \<le> sz"
proof (cases "sz = 0")
  case True
  then show ?thesis by (simp add: cut_def div_up_def)
next
  case False
  then have p: "0 < div_up sz kComparisonChunkSize" using div_up_less [of kComparisonChunkSize 0 sz] by simp
  have "cut sz k < div_up sz kComparisonChunkSize"
  proof -
    have "div_up sz kComparisonChunkSize * k < div_up sz kComparisonChunkSize * 4" using p assms by simp
    then show ?thesis unfolding cut_def by (rule less_mult_imp_div_less)
  qed
  then show ?thesis using div_up_less [of kComparisonChunkSize "cut sz k" sz] by simp
qed

definition worker_ranges :: "nat \<Rightarrow> nat \<Rightarrow> (nat \<times> nat) list" where
  "worker_ranges sz k = filter (\<lambda>r. fst r \<noteq> snd r) (map (VerificationWorkerRange sz) [0..<k])"

text \<open>The ranges follow each other, start at chunk boundaries, and together are the volume.\<close>

lemma worker_ranges_sorted:
  assumes "sz < 9223372036854775808" "k \<le> kVerificationWorkerCount"
  shows "sorted_wrt (\<lambda>r s. snd r \<le> fst s) (worker_ranges sz k)"
proof -
  have "snd (VerificationWorkerRange sz i) \<le> fst (VerificationWorkerRange sz j)" if "i < j" "j < k" for i j
  proof -
    have "cut sz (i + 1) * kComparisonChunkSize \<le> cut sz j * kComparisonChunkSize" using that by (intro mult_le_mono1 cut_mono) simp
    then show ?thesis using that assms by (simp add: VerificationWorkerRange_eq)
  qed
  then have "sorted_wrt (\<lambda>r s. snd r \<le> fst s) (map (VerificationWorkerRange sz) [0..<k])"
    unfolding sorted_wrt_iff_nth_less by simp
  then show ?thesis unfolding worker_ranges_def by (rule sorted_wrt_filter)
qed

lemma worker_ranges_elem:
  assumes "sz < 9223372036854775808" "k \<le> kVerificationWorkerCount" "r \<in> set (worker_ranges sz k)"
  shows "fst r < snd r" "snd r \<le> sz" "fst r mod kComparisonChunkSize = 0"
proof -
  obtain j where j: "j < k" "r = VerificationWorkerRange sz j" "fst r \<noteq> snd r" using assms(3) by (auto simp: worker_ranges_def)
  have j4: "j < kVerificationWorkerCount" using j(1) assms(2) by simp
  note e = VerificationWorkerRange_eq [OF assms(1) j4]
  have "cut sz j * kComparisonChunkSize \<le> cut sz (j + 1) * kComparisonChunkSize" by (intro mult_le_mono1 cut_mono) simp
  then have "fst r \<le> snd r" using j(2) e range_start_le [OF j4] by simp
  then show "fst r < snd r" using j(3) by simp
  show "snd r \<le> sz" "fst r mod kComparisonChunkSize = 0" using j(2) e by simp_all
qed

lemma worker_ranges_cover:
  assumes "sz < 9223372036854775808" "x < sz"
  shows "\<exists>r \<in> set (worker_ranges sz kVerificationWorkerCount). fst r \<le> x \<and> x < snd r"
proof -
  let ?c = "x div kComparisonChunkSize" and ?P = "\<lambda>k. x div kComparisonChunkSize < cut sz k"
  have "?c < div_up sz kComparisonChunkSize" using div_up_less [of kComparisonChunkSize ?c sz] assms(2)
    by (meson div_times_less_eq_dividend le_less_trans zero_less_numeral)
  then have P4: "?P kVerificationWorkerCount" using cut_ends(2) by simp
  define k where "k = (LEAST k. ?P k)"
  have Pk: "?P k" unfolding k_def using P4 by (rule LeastI)
  have k4: "k \<le> kVerificationWorkerCount" unfolding k_def using P4 by (rule Least_le)
  have k0: "k \<noteq> 0" using Pk cut_ends(1) by (metis not_less0)
  define j where "j = k - 1"
  have j: "k = j + 1" "j < kVerificationWorkerCount" using k0 k4 by (simp_all add: j_def)
  have "cut sz j \<le> ?c" using not_less_Least [of j ?P] j(1) unfolding k_def [symmetric] by simp
  then have "cut sz j * kComparisonChunkSize \<le> x" by (simp add: less_eq_div_iff_mult_less_eq)
  moreover have "x < cut sz (j + 1) * kComparisonChunkSize" using Pk j(1) by (simp add: div_less_iff_less_mult)
  ultimately have in1: "fst (VerificationWorkerRange sz j) \<le> x" "x < snd (VerificationWorkerRange sz j)"
    using VerificationWorkerRange_eq [OF assms(1) j(2)] assms(2) by simp_all
  then have "VerificationWorkerRange sz j \<in> set (worker_ranges sz kVerificationWorkerCount)"
    unfolding worker_ranges_def set_filter set_map using j(2) by auto
  then show ?thesis using in1 by blast
qed

section \<open>What the workers read\<close>

text \<open>A snapshot as the backup sees it: the bytes of free clusters are zero.\<close>

definition snapshot_view :: "(nat \<Rightarrow> byte) \<Rightarrow> SnapshotAllocationBitmap \<Rightarrow> nat \<Rightarrow> byte" where
  "snapshot_view raw s x = (if free_byte (sn_bitmap s) x then 0 else raw x)"

definition io_exposes :: "(nat \<Rightarrow> byte) \<Rightarrow> snapshot_io \<Rightarrow> bool" where
  "io_exposes raw s \<longleftrightarrow> (\<forall>p n bs. io_read s p n = Inr bs \<longrightarrow> length bs = n \<longrightarrow> bs = image_bytes raw p n)"

definition allocation_ok :: "nat \<Rightarrow> VerificationAllocation \<Rightarrow> bool" where
  "allocation_ok sz a \<longleftrightarrow> ab_inv (sn_bitmap (va_baseline a)) \<and> ab_inv (sn_bitmap (va_payload a)) \<and>
     cluster_size (sn_bitmap (va_baseline a)) \<le> 9223372036854775808 \<and> sz < 9223372036854775808"

lemma synthesized_view:
  assumes "ab_inv (sn_bitmap s)" "off + n < two64"
  shows "SnapshotAllocationBitmap_SynthesizeFreeClusters s (image_bytes raw off n) off =
    Some (image_bytes (snapshot_view raw s) off n)"
proof (cases "n = 0")
  case True
  then show ?thesis by (simp add: SnapshotAllocationBitmap_SynthesizeFreeClusters_def image_bytes_def)
next
  case False
  then have ne: "image_bytes raw off n \<noteq> []" by (simp add: image_bytes_def)
  obtain out' where o: "SynthesizeFreeClusters (sn_bitmap s) (image_bytes raw off n) off = Some out'" "length out' = n"
    "\<forall>i < n. out' ! i = (if free_byte (sn_bitmap s) (off + i) then 0 else image_bytes raw off n ! i)"
    using SynthesizeFreeClusters_spec [OF assms(1) ne] assms(2) by auto
  have "out' = image_bytes (snapshot_view raw s) off n"
    using o(2,3) by (intro nth_equalityI) (simp_all add: snapshot_view_def)
  then show ?thesis using o(1) ne by (simp add: SnapshotAllocationBitmap_SynthesizeFreeClusters_def)
qed

lemma ReadVerificationChunk_spec:
  assumes "io_exposes raw s" "ReadVerificationChunk s p n = Inr bs"
  shows "bs = image_bytes raw p n"
  using assms unfolding ReadVerificationChunk_def FailFastCast_def TryCast_def io_exposes_def
  by (auto simp: err_simps split: if_split_asm sum.splits)

lemma ReadVerificationChunk_error:
  assumes "ReadVerificationChunk s p n = Inl e" "n \<le> kComparisonChunkSize"
  shows "is_runtime_error e"
  using assms unfolding ReadVerificationChunk_def FailFastCast_def TryCast_def is_runtime_error_def
  by (auto simp: err_simps u32_def split: if_split_asm sum.splits)

definition worker_ok :: "nat \<Rightarrow> worker \<Rightarrow> bool" where
  "worker_ok sz w \<longleftrightarrow> wk_start w < wk_end w \<and> wk_end w \<le> sz \<and> wk_start w mod kComparisonChunkSize = 0 \<and>
     wk_start w \<le> wk_offset w \<and> wk_offset w < wk_end w + kComparisonChunkSize \<and> wk_offset w mod kComparisonChunkSize = 0 \<and>
     (case wk_phase w of
        Starting \<Rightarrow> wk_offset w = wk_start w
      | Checking \<Rightarrow> wk_offset w < wk_end w \<longrightarrow> wk_baseline_position w = wk_offset w \<and> wk_payload_position w = wk_offset w
      | Reading \<Rightarrow> wk_offset w < wk_end w \<and> wk_baseline_position w = wk_offset w \<and> wk_payload_position w = wk_offset w
      | Finished \<Rightarrow> True
      | Threw _ \<Rightarrow> False)"

lemma prepare_worker_error:
  assumes "prepare_worker b p x = Inl e" "x < 9223372036854775808"
  shows "is_runtime_error e"
  using assms
  by (auto simp: prepare_worker_def OpenVerificationSnapshot_def AllocateComparisonBuffer_def SeekVerificationSnapshot_def
      is_runtime_error_def FailFastCast_def TryCast_def i64_def split: option.splits sum.splits if_splits)

lemma verify_chunk_spec:
  assumes a: "allocation_ok sz alloc" and mp: "map_ok mp" and io: "io_exposes rb b" "io_exposes rp p"
    and w: "worker_ok sz w" "wk_phase w = Reading"
  defines "n \<equiv> min kComparisonChunkSize (wk_end w - wk_offset w)"
  shows "(\<exists>e. verify_chunk c alloc mp b p w = Some (Inl e) \<and> is_runtime_error e) \<or>
    (\<exists>ob. verify_chunk c alloc mp b p w = Some (Inr (n, ob)) \<and>
      observes (snapshot_view rb (va_baseline alloc)) (snapshot_view rp (va_payload alloc))
        (cluster_size (sn_bitmap (va_baseline alloc))) mp {wk_offset w..<wk_offset w + n} ob)"
proof -
  let ?o = "wk_offset w" and ?cs = "cluster_size (sn_bitmap (va_baseline alloc))"
  have pos: "wk_baseline_position w = ?o" "wk_payload_position w = ?o" "?o < wk_end w" "wk_end w \<le> sz" "?o mod kComparisonChunkSize = 0"
    using w by (simp_all add: worker_ok_def)
  have o: "?o mod kMapBlockSize = 0" using pos(5) by (rule mod_0_imp_dvd [THEN dvd_trans [rotated], THEN dvd_imp_mod_0]) simp
  have n: "n \<le> kComparisonChunkSize" "?o + n \<le> sz" using pos(3,4) by (auto simp: n_def)
  have lt: "?o + n < two64" "?o + n + ?cs < two64" using n(2) a by (simp_all add: allocation_ok_def)
  have inv: "ab_inv (sn_bitmap (va_baseline alloc))" "ab_inv (sn_bitmap (va_payload alloc))" using a by (simp_all add: allocation_ok_def)
  show ?thesis
  proof (cases "ReadVerificationChunk b ?o n")
    case (Inl e)
    then show ?thesis using ReadVerificationChunk_error [OF Inl n(1)]
      by (simp add: verify_chunk_def Let_def n_def [symmetric] pos(1,2))
  next
    case b: (Inr bs)
    show ?thesis
    proof (cases "ReadVerificationChunk p ?o n")
      case (Inl e)
      then show ?thesis using ReadVerificationChunk_error [OF Inl n(1)] b
        by (simp add: verify_chunk_def Let_def n_def [symmetric] pos(1,2))
    next
      case (Inr ps)
      from CompareVerificationChunk_spec [OF o lt(2) ab_invD(1) [OF inv(1)] mp] obtain res where
        "CompareVerificationChunk c (image_bytes (snapshot_view rb (va_baseline alloc)) ?o n)
           (image_bytes (snapshot_view rp (va_payload alloc)) ?o n) ?o ?cs mp = Inr res"
        "observes (snapshot_view rb (va_baseline alloc)) (snapshot_view rp (va_payload alloc)) ?cs mp {?o..<?o + n} res" by blast
      then show ?thesis using b Inr ReadVerificationChunk_spec [OF io(1) b] ReadVerificationChunk_spec [OF io(2) Inr]
        by (simp add: verify_chunk_def Let_def n_def [symmetric] pos(1,2) synthesized_view [OF inv(1) lt(1)] synthesized_view [OF inv(2) lt(1)])
    qed
  qed
qed

section \<open>The invariant\<close>

text \<open>The bytes whose chunks a worker, and all workers, have recorded.\<close>

definition recorded :: "worker \<Rightarrow> nat set" where
  "recorded w = {wk_start w..<min (wk_offset w) (wk_end w)}"

definition recorded_all :: "worker list \<Rightarrow> nat set" where
  "recorded_all ws = (\<Union>w \<in> set ws. recorded w)"

definition wk_range :: "worker \<Rightarrow> nat \<times> nat" where
  "wk_range w = (wk_start w, wk_end w)"

definition run_inv ::
    "nat \<Rightarrow> (nat \<Rightarrow> byte) \<Rightarrow> (nat \<Rightarrow> byte) \<Rightarrow> nat \<Rightarrow> string + DirtyBlockMap \<Rightarrow> verification_run \<Rightarrow> bool" where
  "run_inv sz ca cp cs mp run \<longleftrightarrow>
     (\<forall>w \<in> set (vr_workers run). worker_ok sz w) \<and>
     (\<exists>k \<le> kVerificationWorkerCount. map wk_range (vr_workers run) = worker_ranges sz k \<and>
        (case vr_next run of None \<Rightarrow> True | Some j \<Rightarrow> j = k)) \<and>
     ob_compared_bytes (mv_observation (vr_state run)) = card (recorded_all (vr_workers run)) \<and>
     observes ca cp cs mp (recorded_all (vr_workers run)) (mv_observation (vr_state run))"

lemma recorded_all_bound:
  assumes "\<forall>w \<in> set ws. worker_ok sz w"
  shows "recorded_all ws \<subseteq> {..<sz}" "finite (recorded_all ws)" "card (recorded_all ws) \<le> sz"
proof -
  show s: "recorded_all ws \<subseteq> {..<sz}" using assms by (force simp: recorded_all_def recorded_def worker_ok_def)
  then show "finite (recorded_all ws)" by (rule finite_subset) simp
  show "card (recorded_all ws) \<le> sz" using card_mono [OF _ s] by simp
qed

lemma separate_chunk:
  assumes "off mod kMapBlockSize = 0"
    and "\<And>y. y \<in> T \<Longrightarrow> y < off \<or> (\<exists>m. m mod kMapBlockSize = 0 \<and> e \<le> m \<and> m \<le> y)"
  shows "separate T {off..<e}"
proof -
  have below: "x div kMapBlockSize < y div kMapBlockSize" if "m mod kMapBlockSize = 0" "x < m" "m \<le> y" for m x y
    using separate_split [OF that(1), of x "y + 1"] that(2,3) div_le_mono [of x y kMapBlockSize]
    by (force simp: separate_def)
  have "y div kMapBlockSize \<noteq> x div kMapBlockSize" if y: "y \<in> T" and x: "x \<in> {off..<e}" for x y
    using assms(2) [OF y]
  proof
    assume "y < off"
    then show ?thesis using below [OF assms(1), of y x] x by simp
  next
    assume "\<exists>m. m mod kMapBlockSize = 0 \<and> e \<le> m \<and> m \<le> y"
    then obtain m where "m mod kMapBlockSize = 0" "e \<le> m" "m \<le> y" by (elim exE conjE)
    then show ?thesis using below [of m x y] x by simp
  qed
  then show ?thesis unfolding separate_def by blast
qed

lemma ranges_apart:
  assumes "map wk_range ws = worker_ranges sz k" "sz < 9223372036854775808" "k \<le> kVerificationWorkerCount"
    and "i < length ws" "j < length ws" "i \<noteq> j"
  shows "wk_end (ws ! i) \<le> wk_start (ws ! j) \<or> wk_end (ws ! j) \<le> wk_start (ws ! i)"
proof -
  have s: "sorted_wrt (\<lambda>r s. snd r \<le> fst s) (map wk_range ws)"
    unfolding assms(1) using assms(2,3) by (rule worker_ranges_sorted)
  show ?thesis using sorted_wrt_nth_less [OF s, of i j] sorted_wrt_nth_less [OF s, of j i] assms(4-6)
    by (cases "i < j") (simp_all add: wk_range_def)
qed

lemma mod_chunk_block: "m mod kComparisonChunkSize = 0 \<Longrightarrow> m mod kMapBlockSize = 0"
  by (drule mod_0_imp_dvd, rule dvd_imp_mod_0, rule dvd_trans [of _ kComparisonChunkSize]) simp_all

text \<open>The chunk that worker \<open>i\<close> has read shares no block with what is recorded.\<close>

lemma chunk_separate:
  assumes inv: "run_inv sz ca cp cs mp run" and sz: "sz < 9223372036854775808"
    and i: "i < length (vr_workers run)" "e \<le> wk_end (vr_workers run ! i)"
  shows "separate (recorded_all (vr_workers run)) {wk_offset (vr_workers run ! i)..<e}"
proof -
  let ?ws = "vr_workers run" and ?w = "vr_workers run ! i"
  obtain k where k: "k \<le> kVerificationWorkerCount" "map wk_range ?ws = worker_ranges sz k" using inv by (auto simp: run_inv_def)
  have ok: "worker_ok sz (?ws ! j)" if "j < length ?ws" for j using inv that by (auto simp: run_inv_def)
  show ?thesis
  proof (rule separate_chunk)
    show "wk_offset ?w mod kMapBlockSize = 0" using ok [OF i(1)] mod_chunk_block by (simp add: worker_ok_def)
    fix y assume "y \<in> recorded_all ?ws"
    then obtain j where j: "j < length ?ws" "y \<in> recorded (?ws ! j)" unfolding recorded_all_def UN_iff by (metis in_set_conv_nth)
    show "y < wk_offset ?w \<or> (\<exists>m. m mod kMapBlockSize = 0 \<and> e \<le> m \<and> m \<le> y)"
    proof (cases "j = i")
      case True
      then show ?thesis using j(2) by (simp add: recorded_def)
    next
      case False
      from ranges_apart [OF k(2) sz k(1) i(1) j(1)] False consider
        "wk_end (?ws ! j) \<le> wk_start ?w" | "wk_end ?w \<le> wk_start (?ws ! j)" by auto
      then show ?thesis
      proof cases
        case 1
        then show ?thesis using j(2) ok [OF i(1)] by (simp add: recorded_def worker_ok_def)
      next
        case 2
        then have "wk_start (?ws ! j) mod kMapBlockSize = 0" "e \<le> wk_start (?ws ! j)" "wk_start (?ws ! j) \<le> y"
          using ok [OF j(1)] mod_chunk_block i(2) j(2) by (simp_all add: worker_ok_def recorded_def)
        then show ?thesis by (intro disjI2 exI conjI)
      qed
    qed
  qed
qed

lemma recorded_all_update:
  assumes "i < length ws" "recorded w' = recorded (ws ! i) \<union> C"
  shows "recorded_all (ws[i := w']) = recorded_all ws \<union> C"
proof -
  have "recorded_all (ws[i := w']) = (\<Union>j < length ws. recorded (ws[i := w'] ! j))"
    unfolding recorded_all_def set_conv_nth by auto
  also have "\<dots> = (\<Union>j < length ws. recorded (ws ! j) \<union> (if j = i then C else {}))"
    using assms(2) by (intro SUP_cong) (auto simp: nth_list_update)
  also have "\<dots> = recorded_all ws \<union> C" using assms(1) unfolding recorded_all_def set_conv_nth by (auto split: if_split_asm)
  finally show ?thesis .
qed

lemma wk_range_update:
  assumes "i < length ws" "wk_range w' = wk_range (ws ! i)"
  shows "map wk_range (ws[i := w']) = map wk_range ws"
  using assms list_update_id [of "map wk_range ws" i] by (simp add: map_update)

section \<open>Every step preserves the invariant\<close>

lemma observes_failure [simp]: "observes ca cp cs mp S (r\<lparr>ob_failure := f\<rparr>) = observes ca cp cs mp S r"
  by (simp add: observes_def)

lemma observes_compared [simp]: "observes ca cp cs mp S (r\<lparr>ob_compared_bytes := n\<rparr>) = observes ca cp cs mp S r"
  by (simp add: observes_def)

text \<open>The states that differ at most in the failure.\<close>

definition same_counts :: "MapVerificationState \<Rightarrow> MapVerificationState \<Rightarrow> bool" where
  "same_counts st st' \<longleftrightarrow> (\<exists>f. mv_observation st' = (mv_observation st)\<lparr>ob_failure := f\<rparr>) \<and> (mv_failed st \<longrightarrow> mv_failed st')"

lemma same_counts_refl [simp]: "same_counts st st"
  unfolding same_counts_def by (intro conjI exI [of _ "ob_failure (mv_observation st)"]) simp_all

lemma Fail_failed [simp]: "mv_failed (MapVerificationState_Fail st e)"
  by (simp add: MapVerificationState_Fail_def Let_def)

lemma same_counts_Fail [simp]: "same_counts st (MapVerificationState_Fail st e)"
proof (cases "ob_failure (mv_observation st) = ''''")
  case False
  then have "mv_observation (MapVerificationState_Fail st e) = (mv_observation st)\<lparr>ob_failure := ob_failure (mv_observation st)\<rparr>"
    by (simp add: MapVerificationState_Fail_def Let_def)
  then show ?thesis unfolding same_counts_def by (metis Fail_failed)
qed (auto simp: same_counts_def MapVerificationState_Fail_def Let_def)

lemma worker_throws_same:
  assumes "worker_throws st w e = (st', w')" "worker_ok sz w" "is_runtime_error e"
  shows "same_counts st st'" "worker_ok sz w'" "recorded w' = recorded w" "wk_range w' = wk_range w"
    "wk_phase w' = Finished \<Longrightarrow> mv_failed st'"
  using assms by (auto simp: worker_throws_def worker_ok_def recorded_def wk_range_def split: if_split_asm)

text \<open>
  A step either leaves the counts alone or records the chunk that was read.  A worker that
  finishes without a failure or a cancellation has reached its end.
\<close>

lemma worker_step_spec:
  assumes a: "allocation_ok sz alloc" and mp: "map_ok mp" and io: "io_exposes rb b" "io_exposes rp p"
    and w: "worker_ok sz w" and step: "worker_step c alloc mp cancelled b p st w = Some (st', w')"
  defines "n \<equiv> min kComparisonChunkSize (wk_end w - wk_offset w)"
  shows "worker_ok sz w' \<and> wk_range w' = wk_range w \<and> (mv_failed st \<longrightarrow> mv_failed st') \<and>
    (wk_phase w' = Finished \<longrightarrow> mv_failed st' \<or> cancelled \<or> wk_end w' \<le> wk_offset w') \<and>
    (same_counts st st' \<and> recorded w' = recorded w \<or>
     (\<exists>ob. st' = MapVerificationState_Record st n ob \<and> recorded w' = recorded w \<union> {wk_offset w..<wk_offset w + n} \<and>
        wk_offset w + n \<le> wk_end w \<and>
        observes (snapshot_view rb (va_baseline alloc)) (snapshot_view rp (va_payload alloc))
          (cluster_size (sn_bitmap (va_baseline alloc))) mp {wk_offset w..<wk_offset w + n} ob))"
proof (cases "wk_phase w")
  case Starting
  have e: "wk_offset w = wk_start w" using w Starting by (simp add: worker_ok_def)
  show ?thesis
  proof (cases "mv_failed st \<or> cancelled")
    case True
    then show ?thesis using step Starting w by (auto simp: worker_step_def worker_ok_def recorded_def wk_range_def)
  next
    case False
    show ?thesis
    proof (cases "prepare_worker b p (wk_start w)")
      case (Inl err)
      then have "worker_throws st w err = (st', w')" using step Starting False by (simp add: worker_step_def)
      from worker_throws_same [OF this w] prepare_worker_error [OF Inl] a w show ?thesis
        by (auto simp: same_counts_def allocation_ok_def worker_ok_def)
    next
      case (Inr r)
      obtain bp pp where r: "r = (bp, pp)" by fastforce
      have pos: "bp = wk_start w" "pp = wk_start w"
        using Inr r by (auto simp: prepare_worker_def SeekVerificationSnapshot_def err_simps ebind_eq_Inr split: option.splits)
      have "st' = st" "w' = w\<lparr>wk_phase := Checking, wk_offset := wk_start w, wk_baseline_position := bp, wk_payload_position := pp\<rparr>"
        using step Starting False Inr r by (simp_all add: worker_step_def)
      then show ?thesis using w e pos by (auto simp: worker_ok_def recorded_def wk_range_def)
    qed
  qed
next
  case Checking
  then show ?thesis using step w
    by (cases "wk_offset w < wk_end w"; cases "mv_failed st \<or> cancelled")
      (auto simp: worker_step_def worker_ok_def recorded_def wk_range_def)
next
  case Reading
  from verify_chunk_spec [OF a mp io w Reading, of c, folded n_def] consider
    (fails) e where "verify_chunk c alloc mp b p w = Some (Inl e)" "is_runtime_error e"
  | (reads) ob where "verify_chunk c alloc mp b p w = Some (Inr (n, ob))"
      "observes (snapshot_view rb (va_baseline alloc)) (snapshot_view rp (va_payload alloc))
        (cluster_size (sn_bitmap (va_baseline alloc))) mp {wk_offset w..<wk_offset w + n} ob" by blast
  then show ?thesis
  proof cases
    case fails
    then have "worker_throws st w e = (st', w')" using step Reading by (simp add: worker_step_def)
    from worker_throws_same [OF this w fails(2)] show ?thesis by (auto simp: same_counts_def)
  next
    case reads
    have ok: "wk_start w \<le> wk_offset w" "wk_offset w < wk_end w" "wk_end w \<le> sz" "wk_offset w mod kComparisonChunkSize = 0"
      "wk_baseline_position w = wk_offset w" "wk_payload_position w = wk_offset w" using w Reading by (simp_all add: worker_ok_def)
    have "sz < 9223372036854775808" using a by (simp add: allocation_ok_def)
    then have add: "add64 (wk_offset w) kComparisonChunkSize = wk_offset w + kComparisonChunkSize"
      using ok(2,3) by (intro add64_exact) simp
    have s: "st' = MapVerificationState_Record st n ob"
      "w' = w\<lparr>wk_phase := Checking, wk_offset := wk_offset w + kComparisonChunkSize,
         wk_baseline_position := wk_offset w + n, wk_payload_position := wk_offset w + n\<rparr>"
      using step Reading reads(1) add ok(5,6) by (simp_all add: worker_step_def)
    have "worker_ok sz w'" using w Reading ok(2) by (auto simp: s(2) worker_ok_def n_def)
    moreover have "recorded w' = recorded w \<union> {wk_offset w..<wk_offset w + n}"
      using ok(1,2) by (auto simp: s(2) recorded_def n_def)
    moreover have "mv_failed st \<longrightarrow> mv_failed st'" by (simp add: s(1) Record_eq)
    ultimately show ?thesis using s ok(2) reads(2) by (auto simp: wk_range_def n_def)
  qed
qed (use step in \<open>simp_all add: worker_step_def\<close>)

lemma run_inv_initial: "run_inv sz ca cp cs mp (initial_run MapVerificationState_new)"
  unfolding run_inv_def initial_run_def MapVerificationState_new_def
  by (intro conjI exI [of _ 0]) (simp_all add: worker_ranges_def recorded_all_def observes_empty, simp_all add: no_observation_def)

lemma run_inv_same:
  assumes "run_inv sz ca cp cs mp run" "same_counts (vr_state run) st'"
  shows "run_inv sz ca cp cs mp (run\<lparr>vr_state := st'\<rparr>)"
  using assms by (auto simp: run_inv_def same_counts_def)

lemma run_inv_start:
  assumes inv: "run_inv sz ca cp cs mp run" and sz: "sz < 9223372036854775808"
    and step: "start_step sz cancelled async_error run = Some run'"
  shows "run_inv sz ca cp cs mp run' \<and> (mv_failed (vr_state run) \<longrightarrow> mv_failed (vr_state run'))"
proof -
  obtain k where k: "vr_next run = Some k" using step by (cases "vr_next run") (simp_all add: start_step_def)
  have kr: "map wk_range (vr_workers run) = worker_ranges sz k" "k \<le> kVerificationWorkerCount"
    using inv k by (auto simp: run_inv_def)
  have stop: "run_inv sz ca cp cs mp (run\<lparr>vr_next := None\<rparr>)" using inv by (auto simp: run_inv_def)
  show ?thesis
  proof (cases "k < kVerificationWorkerCount \<and> \<not> (mv_failed (vr_state run) \<or> cancelled)")
    case False
    then have "run' = run\<lparr>vr_next := None\<rparr>" using step k
      by (cases "k < kVerificationWorkerCount"; cases "mv_failed (vr_state run) \<or> cancelled") (simp_all add: start_step_def)
    then show ?thesis using stop by simp
  next
    case True
    let ?r = "VerificationWorkerRange sz k"
    have next1: "worker_ranges sz (k + 1) = worker_ranges sz k @ (if fst ?r = snd ?r then [] else [?r])"
      by (simp add: worker_ranges_def)
    consider "fst ?r = snd ?r" | "fst ?r \<noteq> snd ?r" "async_error = None" | e where "fst ?r \<noteq> snd ?r" "async_error = Some e"
      by (cases async_error) auto
    then show ?thesis
    proof cases
      case 1
      then have "run' = run\<lparr>vr_next := Some (k + 1)\<rparr>" using step k True by (simp add: start_step_def Let_def)
      moreover have "map wk_range (vr_workers run) = worker_ranges sz (k + 1)" using 1 kr(1) next1 by simp
      ultimately show ?thesis using inv True by (auto simp: run_inv_def)
    next
      case 2
      then have r: "run' = run\<lparr>vr_workers := vr_workers run @ [new_worker ?r], vr_next := Some (k + 1)\<rparr>"
        using step k True by (simp add: start_step_def StartVerificationWorker_def Let_def)
      have m: "?r \<in> set (worker_ranges sz (k + 1))" using 2 next1 by simp
      have "k + 1 \<le> kVerificationWorkerCount" using True by simp
      from worker_ranges_elem [OF sz this m] have "worker_ok sz (new_worker ?r)" by (simp add: worker_ok_def new_worker_def)
      moreover have "recorded_all (vr_workers run') = recorded_all (vr_workers run)"
        by (simp add: r recorded_all_def recorded_def new_worker_def)
      moreover have "map wk_range (vr_workers run') = worker_ranges sz (k + 1)"
        using 2(1) kr(1) next1 by (simp add: r wk_range_def new_worker_def)
      ultimately show ?thesis using inv True unfolding run_inv_def r by auto
    next
      case 3
      then have r: "run' = run\<lparr>vr_next := None, vr_state := MapVerificationState_Fail (vr_state run) (error_what e)\<rparr>"
        using step k True by (auto simp: start_step_def StartVerificationWorker_def Let_def)
      show ?thesis unfolding r using run_inv_same [OF stop] by simp
    qed
  qed
qed

lemma run_inv_work:
  assumes a: "allocation_ok sz alloc" and mp: "map_ok mp" and io: "io_exposes rb b" "io_exposes rp p"
    and i: "i < length (vr_workers run)"
    and step: "worker_step c alloc mp cancelled b p (vr_state run) (vr_workers run ! i) = Some (st', w')"
  defines "ca \<equiv> snapshot_view rb (va_baseline alloc)" and "cp \<equiv> snapshot_view rp (va_payload alloc)"
    and "cs \<equiv> cluster_size (sn_bitmap (va_baseline alloc))"
  assumes inv: "run_inv sz ca cp cs mp run"
  shows "run_inv sz ca cp cs mp (run\<lparr>vr_state := st', vr_workers := (vr_workers run)[i := w']\<rparr>)"
proof -
  let ?ws = "vr_workers run" and ?w = "vr_workers run ! i"
  let ?S = "recorded_all ?ws"
  have sz: "sz < 9223372036854775808" using a by (simp add: allocation_ok_def)
  have ok: "\<forall>w \<in> set ?ws. worker_ok sz w" and cnt: "ob_compared_bytes (mv_observation (vr_state run)) = card ?S"
    and obs: "observes ca cp cs mp ?S (mv_observation (vr_state run))" using inv by (simp_all add: run_inv_def)
  have "worker_ok sz ?w" using ok i by simp
  note s = worker_step_spec [OF a mp io this step, folded ca_def cp_def cs_def]
  have ok': "\<forall>w \<in> set (?ws[i := w']). worker_ok sz w" using ok s set_update_subset_insert [of ?ws i w'] by blast
  have rest: "run_inv sz ca cp cs mp (run\<lparr>vr_state := st', vr_workers := ?ws[i := w']\<rparr>)"
    if "ob_compared_bytes (mv_observation st') = card (recorded_all (?ws[i := w']))"
      "observes ca cp cs mp (recorded_all (?ws[i := w'])) (mv_observation st')"
    using inv that ok' wk_range_update [OF i, of w'] s by (simp add: run_inv_def)
  from s consider (same) "same_counts (vr_state run) st'" "recorded w' = recorded ?w"
    | (chunk) n ob where "st' = MapVerificationState_Record (vr_state run) n ob" "recorded w' = recorded ?w \<union> {wk_offset ?w..<wk_offset ?w + n}"
        "wk_offset ?w + n \<le> wk_end ?w" "observes ca cp cs mp {wk_offset ?w..<wk_offset ?w + n} ob" by blast
  then show ?thesis
  proof cases
    case same
    then have "recorded_all (?ws[i := w']) = ?S" using recorded_all_update [OF i, of w' "{}"] by simp
    then show ?thesis using rest same(1) cnt obs by (auto simp: same_counts_def)
  next
    case chunk
    let ?T = "{wk_offset ?w..<wk_offset ?w + n}"
    have U: "recorded_all (?ws[i := w']) = ?S \<union> ?T" by (rule recorded_all_update [OF i chunk(2)])
    have sep: "separate ?S ?T" by (rule chunk_separate [OF inv sz i chunk(3)])
    have lt: "card (?S \<union> ?T) < two64" using recorded_all_bound(3) [OF ok', unfolded U] sz by simp
    have "?S \<inter> ?T = {}" using sep by (auto simp: separate_def)
    then have "card (?S \<union> ?T) = card ?S + n" using recorded_all_bound(2) [OF ok] by (simp add: card_Un_disjoint)
    then show ?thesis
      using rest observes_Un [OF obs chunk(4) sep recorded_all_bound(2) [OF ok] _ lt] lt cnt
      by (simp add: U chunk(1) Record_eq add64_exact)
  qed
qed

section \<open>Reachable states\<close>

text \<open>
  \<open>run_done\<close>: as long as nothing failed and nothing cancels, every range is handed to a
  worker and a finished worker has read its range to the end.
\<close>

definition run_done :: "nat \<Rightarrow> verification_run \<Rightarrow> bool" where
  "run_done sz run \<longleftrightarrow> mv_failed (vr_state run) \<or>
     ((vr_next run = None \<longrightarrow> map wk_range (vr_workers run) = worker_ranges sz kVerificationWorkerCount) \<and>
      (\<forall>w \<in> set (vr_workers run). wk_phase w = Finished \<longrightarrow> wk_end w \<le> wk_offset w))"

lemma run_done_start:
  assumes inv: "run_inv sz ca cp cs mp run" and d: "run_done sz run" and step: "start_step sz False async_error run = Some run'"
  shows "run_done sz run'"
proof -
  obtain k where k: "vr_next run = Some k" using step by (cases "vr_next run") (simp_all add: start_step_def)
  have kr: "map wk_range (vr_workers run) = worker_ranges sz k" "k \<le> kVerificationWorkerCount"
    using inv k by (auto simp: run_inv_def)
  consider "mv_failed (vr_state run)" | "\<not> mv_failed (vr_state run)" "k = kVerificationWorkerCount"
    | "\<not> mv_failed (vr_state run)" "k < kVerificationWorkerCount" using kr(2) by linarith
  then show ?thesis
  proof cases
    case 1
    then show ?thesis using step k by (cases "k < kVerificationWorkerCount") (auto simp: start_step_def run_done_def)
  next
    case 2
    then show ?thesis using step k d kr(1) by (auto simp: start_step_def run_done_def)
  next
    case 3
    then show ?thesis using step k d
      by (cases "fst (VerificationWorkerRange sz k) = snd (VerificationWorkerRange sz k)"; cases async_error)
        (auto simp: start_step_def StartVerificationWorker_def run_done_def new_worker_def Let_def)
  qed
qed

lemma run_done_work:
  assumes "run_done sz run" "i < length (vr_workers run)" "wk_range w' = wk_range (vr_workers run ! i)"
    and "mv_failed (vr_state run) \<longrightarrow> mv_failed st'" "wk_phase w' = Finished \<longrightarrow> mv_failed st' \<or> wk_end w' \<le> wk_offset w'"
  shows "run_done sz (run\<lparr>vr_state := st', vr_workers := (vr_workers run)[i := w']\<rparr>)"
  using assms(1,4,5) wk_range_update [OF assms(2,3)] set_update_subset_insert [of "vr_workers run" i w']
  unfolding run_done_def by auto

lemma reachable_inv:
  assumes a: "allocation_ok sz alloc" and mp: "map_ok mp" and io: "\<forall>b \<in> B. io_exposes rb b" "\<forall>p \<in> P. io_exposes rp p"
    and reach: "(verify_step c sz alloc mp B P may_cancel)\<^sup>*\<^sup>* (initial_run MapVerificationState_new) run"
  defines "ca \<equiv> snapshot_view rb (va_baseline alloc)" and "cp \<equiv> snapshot_view rp (va_payload alloc)"
    and "cs \<equiv> cluster_size (sn_bitmap (va_baseline alloc))"
  shows "run_inv sz ca cp cs mp run \<and> (\<not> may_cancel \<longrightarrow> run_done sz run)"
  using reach
proof (induction rule: rtranclp_induct)
  case base
  have "run_done sz (initial_run MapVerificationState_new)" by (simp add: run_done_def initial_run_def)
  then show ?case using run_inv_initial by blast
next
  case (step run run')
  have sz: "sz < 9223372036854775808" using a by (simp add: allocation_ok_def)
  have inv: "run_inv sz ca cp cs mp run" using step.IH by blast
  from step.hyps(2) show ?case
  proof cases
    case (starting cancelled async_error)
    have "run_done sz run'" if "\<not> may_cancel"
      using that starting step.IH run_done_start [OF inv, of async_error run'] by simp
    then show ?thesis using run_inv_start [OF inv sz starting(1)] by blast
  next
    case (working i b p cancelled st' w')
    have w: "worker_ok sz (vr_workers run ! i)" using inv working(2) by (simp add: run_inv_def)
    have e: "io_exposes rb b" "io_exposes rp p" using io working(3,4) by blast+
    note s = worker_step_spec [OF a mp e w working(6)]
    have "run_inv sz ca cp cs mp run'"
      unfolding working(1) ca_def cp_def cs_def
      by (rule run_inv_work [OF a mp e working(2,6)]) (use inv in \<open>simp add: ca_def cp_def cs_def\<close>)
    moreover have "run_done sz run'" if "\<not> may_cancel"
      unfolding working(1) using that step.IH working(2,5) s by (intro run_done_work) auto
    ultimately show ?thesis by blast
  qed
qed

text \<open>
  If every byte was compared and no uncovered block was counted, then every byte that differs
  lies in a block of the map.
\<close>

lemma verified_covers:
  assumes "run_inv sz ca cp cs (Inr m) run" "ob_compared_bytes (mv_observation (vr_state run)) = sz"
    and "ob_uncovered_blocks (mv_observation (vr_state run)) = 0" "x < sz" "ca x \<noteq> cp x"
  shows "x div kMapBlockSize * kMapBlockSize \<in> bs_set vss_kBlockSize (dm_block_offsets m)"
proof -
  let ?S = "recorded_all (vr_workers run)"
  have ok: "\<forall>w \<in> set (vr_workers run). worker_ok sz w" using assms(1) by (simp add: run_inv_def)
  have "?S = {..<sz}" using assms(1,2) recorded_all_bound [OF ok] by (intro card_subset_eq) (simp_all add: run_inv_def)
  then have x: "x \<in> ?S" using assms(4) by simp
  have "card (blocks_in (uncovered ca cp (Inr m)) ?S) = 0" using assms(1,3) by (simp add: run_inv_def observes_def)
  then have "blocks_in (uncovered ca cp (Inr m)) ?S = {}" using recorded_all_bound(2) [OF ok] by (simp add: blocks_in_def)
  then have "\<not> uncovered ca cp (Inr m) x" using x by (auto simp: blocks_in_def)
  then show ?thesis using assms(5) by (simp add: uncovered_def)
qed

lemma finished_compares_all:
  assumes "run_inv sz ca cp cs mp run" "run_done sz run" "run_finished run" "\<not> mv_failed (vr_state run)" "sz < 9223372036854775808"
  shows "ob_compared_bytes (mv_observation (vr_state run)) = sz"
proof -
  let ?ws = "vr_workers run"
  have r: "map wk_range ?ws = worker_ranges sz kVerificationWorkerCount" and fin: "\<forall>w \<in> set ?ws. wk_end w \<le> wk_offset w"
    using assms(2-4) by (auto simp: run_done_def run_finished_def list_all_iff)
  have "x \<in> recorded_all ?ws" if x: "x < sz" for x
  proof -
    obtain q where q: "q \<in> set (map wk_range ?ws)" "fst q \<le> x" "x < snd q"
      using worker_ranges_cover [OF assms(5) x] unfolding r by blast
    then obtain w where "w \<in> set ?ws" "wk_start w \<le> x" "x < wk_end w" by (auto simp: wk_range_def)
    then show ?thesis using fin by (fastforce simp: recorded_all_def recorded_def)
  qed
  then have "recorded_all ?ws = {..<sz}" using recorded_all_bound(1) [of ?ws sz] assms(1) by (auto simp: run_inv_def)
  then show ?thesis using assms(1) by (simp add: run_inv_def)
qed

section \<open>Every run ends\<close>

definition worker_measure :: "worker \<Rightarrow> nat" where
  "worker_measure w =
     (case wk_phase w of
        Starting \<Rightarrow> 2 * (wk_end w - wk_start w) + 3
      | Checking \<Rightarrow> 2 * (wk_end w - wk_offset w) + 2
      | Reading \<Rightarrow> 2 * (wk_end w - wk_offset w) + 1
      | _ \<Rightarrow> 0)"

definition run_measure :: "verification_run \<Rightarrow> nat \<times> nat" where
  "run_measure run =
     ((case vr_next run of None \<Rightarrow> 0 | Some k \<Rightarrow> 1 + (kVerificationWorkerCount - k)), sum_list (map worker_measure (vr_workers run)))"

lemma worker_step_decreases:
  assumes "worker_ok sz w" "sz < 9223372036854775808" "worker_step c alloc mp cancelled b p st w = Some (st', w')"
  shows "worker_measure w' < worker_measure w"
proof (cases "wk_phase w")
  case Reading
  have ok: "wk_offset w < wk_end w" "wk_end w \<le> sz" using assms(1) Reading by (simp_all add: worker_ok_def)
  then have "add64 (wk_offset w) kComparisonChunkSize = wk_offset w + kComparisonChunkSize"
    using assms(2) by (intro add64_exact) simp
  moreover obtain z where "verify_chunk c alloc mp b p w = Some z" using assms(3) Reading by (auto simp: worker_step_def)
  ultimately show ?thesis using assms(3) Reading ok(1)
    by (cases z) (auto simp: worker_step_def worker_measure_def worker_throws_def split: if_split_asm)
qed (use assms(3) in \<open>auto simp: worker_step_def worker_measure_def worker_throws_def split: if_split_asm sum.splits\<close>)

lemma sum_list_update_less:
  fixes f :: "'a \<Rightarrow> nat"
  assumes "i < length xs" "f y < f (xs ! i)"
  shows "sum_list (map f (xs[i := y])) < sum_list (map f xs)"
proof -
  have "sum_list (map f xs) = sum_list (map f (take i xs)) + f (xs ! i) + sum_list (map f (drop (Suc i) xs))"
    by (subst id_take_nth_drop [OF assms(1)]) simp
  then show ?thesis using assms by (simp add: upd_conv_take_nth_drop)
qed

lemma start_step_decreases:
  assumes "start_step sz cancelled async_error run = Some run'"
  shows "fst (run_measure run') < fst (run_measure run)"
proof -
  obtain k where k: "vr_next run = Some k" using assms by (cases "vr_next run") (simp_all add: start_step_def)
  show ?thesis
  proof (cases "k < kVerificationWorkerCount")
    case True
    have "vr_next run' = None \<or> vr_next run' = Some (k + 1)"
      using assms k True by (auto simp: start_step_def StartVerificationWorker_def Let_def split: if_split_asm option.splits)
    then show ?thesis using True k by (auto simp: run_measure_def)
  qed (use assms k in \<open>auto simp: start_step_def run_measure_def\<close>)
qed

lemma verify_step_decreases:
  assumes "verify_step c sz alloc mp B P may_cancel run run'" "run_inv sz ca cp cs mp run" "sz < 9223372036854775808"
  shows "(run_measure run', run_measure run) \<in> less_than <*lex*> less_than"
  using assms(1)
proof cases
  case (starting cancelled async_error)
  then show ?thesis using start_step_decreases [OF starting(1)] by (cases "run_measure run"; cases "run_measure run'") simp
next
  case (working i b p cancelled st' w')
  have "worker_ok sz (vr_workers run ! i)" using working(2) assms(2) by (simp add: run_inv_def)
  from sum_list_update_less [OF working(2) worker_step_decreases [OF this assms(3) working(6)]]
  show ?thesis by (simp add: working(1) run_measure_def)
qed

text \<open>A reachable state that is not finished has a next step.\<close>

lemma verify_step_progress:
  assumes a: "allocation_ok sz alloc" and mp: "map_ok mp" and io: "io_exposes rb b" "io_exposes rp p" "b \<in> B" "p \<in> P"
    and inv: "run_inv sz ca cp cs mp run" and nf: "\<not> run_finished run"
  shows "\<exists>run'. verify_step c sz alloc mp B P may_cancel run run'"
proof (cases "vr_next run")
  case (Some k)
  have "\<exists>run'. start_step sz False None run = Some run'"
    using Some by (simp add: start_step_def StartVerificationWorker_def Let_def)
  then show ?thesis using verify_step.starting [of sz False] by blast
next
  case None
  then obtain i where i: "i < length (vr_workers run)" "wk_phase (vr_workers run ! i) \<noteq> Finished"
    using nf by (auto simp: run_finished_def list_all_length)
  let ?w = "vr_workers run ! i"
  have w: "worker_ok sz ?w" using inv i(1) by (simp add: run_inv_def)
  have "worker_step c alloc mp False b p (vr_state run) ?w \<noteq> None"
  proof (cases "wk_phase ?w")
    case Reading
    then show ?thesis using verify_chunk_spec [OF a mp io(1,2) w Reading, of c] by (auto simp: worker_step_def)
  qed (use i(2) w in \<open>auto simp: worker_step_def worker_ok_def split: sum.splits\<close>)
  then obtain st' w' where "worker_step c alloc mp False b p (vr_state run) ?w = Some (st', w')" by auto
  then show ?thesis using verify_step.working [OF i(1) io(3,4), of False] by blast
qed

end
