(* ===== verification/ClusterOwnership.thy ===== *)
theory ClusterOwnership
  imports MapVerification VerifierState OutputText
begin

text \<open>
  Which files own the clusters that the dirty map misses
  (\<open>supervisor/native_backup/incremental_diagnostics.cpp\<close>, lines 644 to 682, 1021 to 1282):
  \<open>FSCTL_LOOKUP_STREAM_FROM_CLUSTER\<close> is asked, for both snapshots, for every cluster once, and
  its answers are collected by stream name.

  The results: the parser of the control code's output is a left inverse of the
  documented layout, no cluster is looked up twice, and every cluster that was looked up is accounted for
  at each snapshot by a stream, by the set without a stream or by the set of failed lookups.
\<close>

section \<open>Data\<close>

datatype SnapshotEndpoint = Baseline | Payload

record SnapshotStreamMatch =
  sm_cluster :: nat
  sm_flags :: "32 word"
  sm_name :: wstring

text \<open>A \<open>std::set\<close> of cluster numbers is a set; it is printed in ascending order.\<close>

record EndpointStreamOwnership =
  eo_flags :: "32 word"
  eo_clusters :: "nat set"

record StreamOwnership =
  so_baseline :: EndpointStreamOwnership
  so_payload :: EndpointStreamOwnership
  so_printed_during_progress :: bool

record SnapshotOwnershipResult =
  or_no_stream_clusters :: "nat set"
  or_failed_clusters :: "nat set"
  or_failure :: string

text \<open>\<open>oc_streams\<close> is a \<open>std::map\<close>: an association list whose keys ascend.\<close>

record ClusterOwnershipCache =
  oc_streams :: "(wstring \<times> StreamOwnership) list"
  oc_baseline :: SnapshotOwnershipResult
  oc_payload :: SnapshotOwnershipResult
  oc_queried_clusters :: "nat set"

definition no_ownership :: StreamOwnership where
  "no_ownership = \<lparr>so_baseline = \<lparr>eo_flags = 0, eo_clusters = {}\<rparr>, so_payload = \<lparr>eo_flags = 0, eo_clusters = {}\<rparr>,
     so_printed_during_progress = False\<rparr>"

definition ClusterOwnershipCache_new :: ClusterOwnershipCache where
  "ClusterOwnershipCache_new =
     \<lparr>oc_streams = [], oc_baseline = \<lparr>or_no_stream_clusters = {}, or_failed_clusters = {}, or_failure = ''''\<rparr>,
      oc_payload = \<lparr>or_no_stream_clusters = {}, or_failed_clusters = {}, or_failure = ''''\<rparr>, oc_queried_clusters = {}\<rparr>"

section \<open>The lookup\<close>

text \<open>
  A snapshot that is asked: the error of opening it, and for an input buffer what the first
  call (with room for the header alone) reports, its error, the number of matches and the size that is
  required, and what the second call returns for a buffer of that size.
\<close>

record stream_device =
  sl_open :: "nat option"
  sl_probe :: "byte list \<Rightarrow> nat option \<times> nat \<times> nat"
  sl_lookup :: "byte list \<Rightarrow> nat \<Rightarrow> nat + byte list"

abbreviation (input) ERROR_MORE_DATA :: nat where "ERROR_MORE_DATA \<equiv> 234"

text \<open>\<open>LOOKUP_STREAM_FROM_CLUSTER_INPUT\<close>: flags, count, then the clusters.\<close>

definition lookup_input :: "nat list \<Rightarrow> byte list result" where
  "lookup_input clusters =
     (if \<not> list_all (\<lambda>cluster. in_type i64 (int cluster)) clusters then Inl FastFail
      else case TryCast u32 (int (8 + 8 * length clusters)) of
             None \<Rightarrow> Inl (RuntimeError ''the uncovered-cluster lookup input is too large'')
           | Some _ \<Rightarrow>
               ebind (FailFastCast u32 (int (length clusters))) (\<lambda>n.
                 Inr (le_bytes 4 (0 :: 32 word) @ le_bytes 4 (word_of_int n :: 32 word) @
                      concat (map (\<lambda>cluster. le_bytes 8 (word_of_nat cluster :: 64 word)) clusters))))"

text \<open>The name ends at its terminator; \<open>None\<close> is a name that runs past the output.\<close>

fun wide_text :: "byte list \<Rightarrow> wstring option" where
  "wide_text (a # b # rest) =
     (let ch = le_word [a, b] in if ch = 0 then Some [] else map_option (\<lambda>s. ch # s) (wide_text rest))"
| "wide_text _ = None"

text \<open>
  The entries: the offset of the next one, flags, 8 reserved bytes, the cluster and the name.
  \<open>None\<close> is an entry that does not lie in the output.
\<close>

definition stream_entry :: "byte list \<Rightarrow> (nat \<times> SnapshotStreamMatch result) option" where
  "stream_entry entries =
     (if length entries < 24 then None
      else map_option (\<lambda>name.
             (unat (le_word (take 4 entries) :: 32 word),
              ebind (FailFastCast u64 (sint (le_word (take 8 (drop 16 entries)) :: 64 word))) (\<lambda>cluster.
                Inr \<lparr>sm_cluster = nat cluster, sm_flags = le_word (take 4 (drop 4 entries)), sm_name = name\<rparr>)))
           (wide_text (drop 24 entries)))"

function stream_entries :: "byte list \<Rightarrow> SnapshotStreamMatch list result option" where
  "stream_entries entries =
     (case stream_entry entries of
        None \<Rightarrow> None
      | Some (_, Inl e) \<Rightarrow> Some (Inl e)
      | Some (next_offset, Inr m) \<Rightarrow>
          if next_offset = 0 then Some (Inr [m])
          else if length entries < next_offset then None
          else map_option (\<lambda>r. ebind r (\<lambda>rest. Inr (m # rest))) (stream_entries (drop next_offset entries)))"
  by pat_completeness auto

termination
proof (relation "measure length", goal_cases)
  case (2 entries z next_offset r m)
  then have "24 \<le> length entries" "0 < next_offset" by (auto simp: stream_entry_def split: if_split_asm)
  then show ?case by simp
qed simp

declare stream_entries.simps [simp del]

definition LookupSnapshotStreams :: "stream_device \<Rightarrow> nat list \<Rightarrow> SnapshotStreamMatch list result option" where
  "LookupSnapshotStreams device clusters =
     (case lookup_input clusters of
        Inl e \<Rightarrow> Some (Inl e)
      | Inr input1 \<Rightarrow>
          (case sl_open device of
             Some err \<Rightarrow> Some (Inl (SystemError err ''could not open the snapshot for incremental verification''))
           | None \<Rightarrow>
               (case sl_probe device input1 of
                  (err, matches, required) \<Rightarrow>
                    if err \<noteq> None \<and> err \<noteq> Some ERROR_MORE_DATA
                    then Some (Inl (SystemError (the err) ''FSCTL_LOOKUP_STREAM_FROM_CLUSTER failed''))
                    else if matches = 0 then Some (Inr [])
                    else
                      (case sl_lookup device input1 required of
                         Inl code \<Rightarrow> Some (Inl (SystemError code ''FSCTL_LOOKUP_STREAM_FROM_CLUSTER failed''))
                       | Inr filled \<Rightarrow>
                           if length filled < 12 then None
                           else
                             let stream_offset = unat (le_word (take 4 filled) :: 32 word)
                             in if stream_offset = 0 then Some (Inr [])
                                else if length filled < stream_offset then None
                                else stream_entries (drop stream_offset filled)))))"

section \<open>Collecting the answers\<close>

text \<open>\<open>std::map::operator[]\<close>: the value of a key, made from the default if it is new, is updated.\<close>

fun map_at :: "'v \<Rightarrow> ('v \<Rightarrow> 'v) \<Rightarrow> 'k::linorder \<Rightarrow> ('k \<times> 'v) list \<Rightarrow> ('k \<times> 'v) list" where
  "map_at d f k [] = [(k, f d)]"
| "map_at d f k ((k1, v) # m) =
     (if k = k1 then (k1, f v) # m
      else if k < k1 then (k, f d) # (k1, v) # m
      else (k1, v) # map_at d f k m)"

fun endpoint_update :: "SnapshotEndpoint \<Rightarrow> (EndpointStreamOwnership \<Rightarrow> EndpointStreamOwnership) \<Rightarrow> StreamOwnership \<Rightarrow> StreamOwnership" where
  "endpoint_update Baseline f ownership = ownership\<lparr>so_baseline := f (so_baseline ownership)\<rparr>"
| "endpoint_update Payload f ownership = ownership\<lparr>so_payload := f (so_payload ownership)\<rparr>"

fun result_update :: "SnapshotEndpoint \<Rightarrow> (SnapshotOwnershipResult \<Rightarrow> SnapshotOwnershipResult) \<Rightarrow> ClusterOwnershipCache \<Rightarrow> ClusterOwnershipCache" where
  "result_update Baseline f cache = cache\<lparr>oc_baseline := f (oc_baseline cache)\<rparr>"
| "result_update Payload f cache = cache\<lparr>oc_payload := f (oc_payload cache)\<rparr>"

definition add_match ::
    "SnapshotEndpoint \<Rightarrow> SnapshotStreamMatch \<Rightarrow> (wstring \<times> StreamOwnership) list \<times> nat set \<Rightarrow> (wstring \<times> StreamOwnership) list \<times> nat set" where
  "add_match endpoint stream s =
     (map_at no_ownership
        (endpoint_update endpoint (\<lambda>e. e\<lparr>eo_flags := eo_flags e OR sm_flags stream,
           eo_clusters := insert (sm_cluster stream) (eo_clusters e)\<rparr>)) (sm_name stream) (fst s),
      snd s - {sm_cluster stream})"

definition ResolveSnapshotOwnership ::
    "SnapshotEndpoint \<Rightarrow> SnapshotStreamMatch list result \<Rightarrow> nat list \<Rightarrow> ClusterOwnershipCache \<Rightarrow> ClusterOwnershipCache result" where
  "ResolveSnapshotOwnership endpoint lookup clusters ownership_cache =
     (case lookup of
        Inr matches \<Rightarrow>
          let (streams, unmatched) = fold (add_match endpoint) matches (oc_streams ownership_cache, set clusters)
          in Inr (result_update endpoint (\<lambda>r. r\<lparr>or_no_stream_clusters := or_no_stream_clusters r \<union> unmatched\<rparr>)
                    (ownership_cache\<lparr>oc_streams := streams\<rparr>))
      | Inl e \<Rightarrow>
          if is_runtime_error e
          then Inr (result_update endpoint (\<lambda>r. r\<lparr>or_failed_clusters := or_failed_clusters r \<union> set clusters,
                      or_failure := (if or_failure r = '''' then error_what e else or_failure r)\<rparr>) ownership_cache)
          else Inl e)"

text \<open>The clusters that were not queried before, in order, and the queried set with them.\<close>

fun new_clusters :: "nat list \<Rightarrow> nat set \<Rightarrow> nat list \<times> nat set" where
  "new_clusters [] queried = ([], queried)"
| "new_clusters (cluster # observed) queried =
     (if cluster \<in> queried then new_clusters observed queried
      else case new_clusters observed (insert cluster queried) of (rest, queried1) \<Rightarrow> (cluster # rest, queried1))"

definition UpdateClusterOwnership ::
    "stream_device \<Rightarrow> stream_device \<Rightarrow> nat list \<Rightarrow> ClusterOwnershipCache \<Rightarrow> ClusterOwnershipCache result option" where
  "UpdateClusterOwnership baseline payload observed_clusters ownership =
     (case new_clusters observed_clusters (oc_queried_clusters ownership) of
        (clusters, queried) \<Rightarrow>
          let ownership1 = ownership\<lparr>oc_queried_clusters := queried\<rparr>
          in if clusters = [] then Some (Inr ownership1)
             else
               (case LookupSnapshotStreams baseline clusters of
                  None \<Rightarrow> None
                | Some lookup \<Rightarrow>
                    (case ResolveSnapshotOwnership Baseline lookup clusters ownership1 of
                       Inl e \<Rightarrow> Some (Inl e)
                     | Inr ownership2 \<Rightarrow>
                         map_option (\<lambda>lookup1. ResolveSnapshotOwnership Payload lookup1 clusters ownership2)
                           (LookupSnapshotStreams payload clusters))))"

section \<open>Printing\<close>

definition PrintEndpointClusters :: "string \<Rightarrow> nat set \<Rightarrow> (32 word) option \<Rightarrow> message list" where
  "PrintEndpointClusters endpoint clusters flags =
     (if clusters = {} then []
      else [Msg ''{}: {} cluster(s)'' [Str endpoint, N (card clusters)]] @
           (case flags of Some f \<Rightarrow> [Msg '', flags 0x{:08x}'' [N (unat f)]] | None \<Rightarrow> []) @
           [Msg '', LCNs:'' []] @ map (\<lambda>cluster. Msg '' 0x{:x}'' [N cluster]) (sorted_list_of_set clusters) @ [Msg '''' []])"

definition PrintStreamOwnership :: "wstring \<Rightarrow> StreamOwnership \<Rightarrow> message list" where
  "PrintStreamOwnership name ownership =
     Msg ''{}'' [Wide name] #
     PrintEndpointClusters ''A'' (eo_clusters (so_baseline ownership)) (Some (eo_flags (so_baseline ownership))) @
     PrintEndpointClusters ''B'' (eo_clusters (so_payload ownership)) (Some (eo_flags (so_payload ownership)))"

definition PrintOwnershipUpdate :: "guid \<Rightarrow> ClusterOwnershipCache \<Rightarrow> message list \<times> ClusterOwnershipCache" where
  "PrintOwnershipUpdate volume_identifier ownership =
     (let new = filter (\<lambda>(_, stream). \<not> so_printed_during_progress stream) (oc_streams ownership)
      in ((if new = [] then [] else [Msg ''Volume ID: {}'' [Guid volume_identifier], Msg ''NTFS ownership update:'' []]) @
          concat (map (\<lambda>(name, stream). PrintStreamOwnership name stream) new),
          ownership\<lparr>oc_streams := map (\<lambda>(name, stream). (name, stream\<lparr>so_printed_during_progress := True\<rparr>)) (oc_streams ownership)\<rparr>))"

definition PrintClusterOwnership :: "ClusterOwnershipCache \<Rightarrow> nat \<Rightarrow> message list" where
  "PrintClusterOwnership ownership cluster_size1 =
     [Msg ''NTFS ownership of uncovered differences: {} distinct {}-byte NTFS cluster(s) queried''
        [N (card (oc_queried_clusters ownership)), N cluster_size1]] @
     concat (map (\<lambda>(name, stream). PrintStreamOwnership name stream) (oc_streams ownership)) @
     (if or_failure (oc_baseline ownership) = '''' then []
      else Msg ''A ownership lookup failed: {}'' [Str (or_failure (oc_baseline ownership))] #
           PrintEndpointClusters ''A unresolved'' (or_failed_clusters (oc_baseline ownership)) None) @
     (if or_failure (oc_payload ownership) = '''' then []
      else Msg ''B ownership lookup failed: {}'' [Str (or_failure (oc_payload ownership))] #
           PrintEndpointClusters ''B unresolved'' (or_failed_clusters (oc_payload ownership)) None) @
     (if or_no_stream_clusters (oc_baseline ownership) = {} \<and> or_no_stream_clusters (oc_payload ownership) = {} then []
      else Msg ''No stream reported by NTFS:'' [] #
           PrintEndpointClusters ''A'' (or_no_stream_clusters (oc_baseline ownership)) None @
           PrintEndpointClusters ''B'' (or_no_stream_clusters (oc_payload ownership)) None)"

section \<open>The layout of the answers\<close>

text \<open>
  An entry as the control code writes it, with its reserved bytes and the padding after
  the name.
\<close>

definition wide_bytes :: "wstring \<Rightarrow> byte list" where
  "wide_bytes s = concat (map (le_bytes 2) s)"

definition entry_bytes :: "nat \<Rightarrow> byte list \<times> byte list \<times> SnapshotStreamMatch \<Rightarrow> byte list" where
  "entry_bytes next_offset e =
     (case e of (reserved, padding, m) \<Rightarrow>
        le_bytes 4 (word_of_nat next_offset :: 32 word) @ le_bytes 4 (sm_flags m) @ reserved @
        le_bytes 8 (word_of_nat (sm_cluster m) :: 64 word) @ wide_bytes (sm_name m) @ [0, 0] @ padding)"

fun encode_entries :: "(byte list \<times> byte list \<times> SnapshotStreamMatch) list \<Rightarrow> byte list" where
  "encode_entries [] = []"
| "encode_entries [e] = entry_bytes 0 e"
| "encode_entries (e # es) = entry_bytes (length (entry_bytes 0 e)) e @ encode_entries es"

definition entry_ok :: "byte list \<times> byte list \<times> SnapshotStreamMatch \<Rightarrow> bool" where
  "entry_ok e \<longleftrightarrow> (case e of (reserved, padding, m) \<Rightarrow>
     length reserved = 8 \<and> sm_cluster m < 9223372036854775808 \<and> 0 \<notin> set (sm_name m) \<and> length (entry_bytes 0 e) < 4294967296)"

lemma le_word_bytes:
  fixes w :: "'a::len word"
  assumes "LENGTH('a) \<le> 8 * n"
  shows "le_word (le_bytes n w) = w"
proof (rule bit_word_eqI)
  fix i assume i: "i < LENGTH('a)"
  have "i div 8 < n" "8 * (i div 8) + i mod 8 = i" "i mod 8 < 8" using i assms by auto
  then show "bit (le_word (le_bytes n w) :: 'a word) i \<longleftrightarrow> bit w i"
    using i by (simp add: bit_le_word le_bytes_def bit_ucast_iff bit_drop_bit_eq)
qed

lemma wide_text_bytes:
  assumes "0 \<notin> set s"
  shows "wide_text (wide_bytes s @ [0, 0] @ rest) = Some s"
  using assms
proof (induction s)
  case (Cons ch s)
  obtain a b where ab: "le_bytes 2 ch = [a, b]" by (simp add: le_bytes_def numeral_2_eq_2)
  have "le_word [a, b] = ch" using le_word_bytes [of 2 ch] ab by simp
  then show ?case using Cons ab by (simp add: wide_bytes_def Let_def)
qed (simp add: wide_bytes_def)

lemma length_entry_bytes: "length (entry_bytes n e) = length (entry_bytes 0 e)"
  by (simp add: entry_bytes_def split: prod.splits)

lemma stream_entry_bytes:
  assumes "entry_ok (reserved, padding, m)" "n < 4294967296"
  shows "stream_entry (entry_bytes n (reserved, padding, m) @ rest) = Some (n, Inr m)"
proof -
  have ok: "length reserved = 8" "sm_cluster m < 9223372036854775808" "0 \<notin> set (sm_name m)" using assms(1) by (simp_all add: entry_ok_def)
  let ?w = "word_of_nat (sm_cluster m) :: 64 word"
  have "sint ?w = int (sm_cluster m)" using ok(2) by (simp add: signed_of_nat signed_take_bit_int_eq_self)
  then have c: "FailFastCast u64 (sint ?w) = Inr (int (sm_cluster m))" using ok(2) by (simp add: FailFastCast_def TryCast_def u64_def)
  have n: "unat (word_of_nat n :: 32 word) = n" using assms(2) by (simp add: unsigned_of_nat take_bit_nat_eq_self)
  show ?thesis
    unfolding stream_entry_def entry_bytes_def
    using ok(1) c n wide_text_bytes [OF ok(3), of "padding @ rest"] by (simp add: le_word_bytes)
qed

lemma stream_entries_encoded:
  assumes "es \<noteq> []" "list_all entry_ok es"
  shows "stream_entries (encode_entries es) = Some (Inr (map (\<lambda>(_, _, m). m) es))"
  using assms
proof (induction es rule: encode_entries.induct)
  case (2 e)
  obtain r p m where e: "e = (r, p, m)" by (cases e) auto
  show ?case using 2 stream_entry_bytes [of r p m 0 "[]"] by (subst stream_entries.simps) (simp add: e)
next
  case (3 e1 e2 es)
  obtain r p m where e: "e1 = (r, p, m)" by (cases e1) auto
  let ?n = "length (entry_bytes 0 e1)"
  have "?n < 4294967296" "0 < ?n" using 3(3) by (auto simp: entry_ok_def entry_bytes_def split: prod.splits)
  moreover have "stream_entries (encode_entries (e2 # es)) = Some (Inr (map (\<lambda>(_, _, m). m) (e2 # es)))" using 3 by simp
  ultimately show ?case using 3(3) stream_entry_bytes [of r p m ?n "encode_entries (e2 # es)"]
    by (subst stream_entries.simps) (simp add: e length_entry_bytes [of "length (entry_bytes 0 (r, p, m))"])
qed simp

section \<open>Every cluster is accounted for\<close>

fun endpoint_of :: "SnapshotEndpoint \<Rightarrow> StreamOwnership \<Rightarrow> EndpointStreamOwnership" where
  "endpoint_of Baseline = so_baseline"
| "endpoint_of Payload = so_payload"

fun result_of :: "SnapshotEndpoint \<Rightarrow> ClusterOwnershipCache \<Rightarrow> SnapshotOwnershipResult" where
  "result_of Baseline = oc_baseline"
| "result_of Payload = oc_payload"

definition stream_clusters :: "SnapshotEndpoint \<Rightarrow> (wstring \<times> StreamOwnership) list \<Rightarrow> nat set" where
  "stream_clusters e streams = (\<Union>(_, s) \<in> set streams. eo_clusters (endpoint_of e s))"

definition accounted :: "SnapshotEndpoint \<Rightarrow> ClusterOwnershipCache \<Rightarrow> nat set" where
  "accounted e c = stream_clusters e (oc_streams c) \<union> or_no_stream_clusters (result_of e c) \<union> or_failed_clusters (result_of e c)"

lemma map_at_clusters:
  assumes "\<And>v. eo_clusters (endpoint_of e (f v)) = eo_clusters (endpoint_of e v) \<union> C" "eo_clusters (endpoint_of e d) = {}"
  shows "stream_clusters e (map_at d f k m) = stream_clusters e m \<union> C"
proof (induction m)
  case (Cons a m)
  then show ?case by (cases a) (simp add: stream_clusters_def assms Un_ac)
qed (simp add: stream_clusters_def assms)

lemma map_at_keys: "set (map fst (map_at d f k m)) = insert k (set (map fst m))"
  by (induction d f k m rule: map_at.induct) auto

lemma map_at_sorted:
  assumes "sorted_wrt (<) (map fst m)"
  shows "sorted_wrt (<) (map fst (map_at d f k m))"
  using assms
proof (induction m)
  case (Cons a m)
  obtain k1 v where a: "a = (k1, v)" by fastforce
  have "\<forall>x \<in> set (map fst (map_at d f k m)). k1 < x" if "k \<noteq> k1" "\<not> k < k1"
    unfolding map_at_keys using Cons.prems that by (auto simp: a)
  then show ?case using Cons by (auto simp: a)
qed simp

lemma add_match_spec:
  assumes "add_match e x (streams, unmatched) = (streams', unmatched')"
  shows "stream_clusters e streams' = insert (sm_cluster x) (stream_clusters e streams)" "unmatched' = unmatched - {sm_cluster x}"
    "e' \<noteq> e \<Longrightarrow> stream_clusters e' streams' = stream_clusters e' streams"
    "sorted_wrt (<) (map fst streams) \<Longrightarrow> sorted_wrt (<) (map fst streams')"
proof -
  let ?f = "endpoint_update e (\<lambda>y. y\<lparr>eo_flags := eo_flags y OR sm_flags x, eo_clusters := insert (sm_cluster x) (eo_clusters y)\<rparr>)"
  have s: "streams' = map_at no_ownership ?f (sm_name x) streams" "unmatched' = unmatched - {sm_cluster x}"
    using assms by (simp_all add: add_match_def)
  show "unmatched' = unmatched - {sm_cluster x}" by (rule s(2))
  have no: "eo_clusters (endpoint_of e'' no_ownership) = {}" for e'' by (cases e'') (simp_all add: no_ownership_def)
  have "eo_clusters (endpoint_of e (?f v)) = eo_clusters (endpoint_of e v) \<union> {sm_cluster x}" for v by (cases e) simp_all
  from map_at_clusters [of e, OF this no] show "stream_clusters e streams' = insert (sm_cluster x) (stream_clusters e streams)"
    by (simp add: s(1))
  have "eo_clusters (endpoint_of e' (?f v)) = eo_clusters (endpoint_of e' v) \<union> {}" if "e' \<noteq> e" for v using that by (cases e; cases e') simp_all
  from map_at_clusters [of e', OF this no] show "e' \<noteq> e \<Longrightarrow> stream_clusters e' streams' = stream_clusters e' streams"
    by (simp add: s(1))
  show "sorted_wrt (<) (map fst streams) \<Longrightarrow> sorted_wrt (<) (map fst streams')" unfolding s(1) by (rule map_at_sorted)
qed

lemma fold_add_match:
  assumes "fold (add_match e) xs (streams, unmatched) = (streams', unmatched')"
  shows "stream_clusters e streams' = sm_cluster ` set xs \<union> stream_clusters e streams \<and> unmatched' = unmatched - sm_cluster ` set xs \<and>
    (\<forall>e'. e' \<noteq> e \<longrightarrow> stream_clusters e' streams' = stream_clusters e' streams) \<and>
    (sorted_wrt (<) (map fst streams) \<longrightarrow> sorted_wrt (<) (map fst streams'))"
  using assms
proof (induction xs arbitrary: streams unmatched)
  case (Cons x xs)
  obtain s u where su: "add_match e x (streams, unmatched) = (s, u)" by fastforce
  note a = add_match_spec [OF su]
  show ?case using Cons.IH [of s u] Cons.prems su a by auto
qed simp

lemma ResolveSnapshotOwnership_spec:
  assumes "ResolveSnapshotOwnership e lookup clusters c = Inr c'"
  shows "accounted e c \<union> set clusters \<subseteq> accounted e c'" "e' \<noteq> e \<Longrightarrow> accounted e' c' = accounted e' c"
    "oc_queried_clusters c' = oc_queried_clusters c"
    "sorted_wrt (<) (map fst (oc_streams c)) \<Longrightarrow> sorted_wrt (<) (map fst (oc_streams c'))"
proof -
  have "accounted e c \<union> set clusters \<subseteq> accounted e c' \<and> (e' \<noteq> e \<longrightarrow> accounted e' c' = accounted e' c) \<and>
    oc_queried_clusters c' = oc_queried_clusters c \<and>
    (sorted_wrt (<) (map fst (oc_streams c)) \<longrightarrow> sorted_wrt (<) (map fst (oc_streams c')))"
  proof (cases lookup)
    case (Inl err)
    then show ?thesis using assms
      by (cases e; cases e') (auto simp: ResolveSnapshotOwnership_def accounted_def split: if_split_asm)
  next
    case (Inr xs)
    obtain s u where su: "fold (add_match e) xs (oc_streams c, set clusters) = (s, u)" by fastforce
    have c': "c' = result_update e (\<lambda>r. r\<lparr>or_no_stream_clusters := or_no_stream_clusters r \<union> u\<rparr>) (c\<lparr>oc_streams := s\<rparr>)"
      using assms Inr su by (simp add: ResolveSnapshotOwnership_def)
    note f = fold_add_match [OF su]
    have "set clusters \<subseteq> stream_clusters e s \<union> u" "stream_clusters e (oc_streams c) \<subseteq> stream_clusters e s" using f by auto
    then have "accounted e c \<union> set clusters \<subseteq> accounted e c'" unfolding c' accounted_def by (cases e) auto
    moreover have "accounted e' c' = accounted e' c" if "e' \<noteq> e" using f that unfolding c' accounted_def by (cases e; cases e') simp_all
    moreover have "oc_queried_clusters c' = oc_queried_clusters c" "oc_streams c' = s" unfolding c' by (cases e; simp)+
    ultimately show ?thesis using f by simp
  qed
  then show "accounted e c \<union> set clusters \<subseteq> accounted e c'" "e' \<noteq> e \<Longrightarrow> accounted e' c' = accounted e' c"
    "oc_queried_clusters c' = oc_queried_clusters c"
    "sorted_wrt (<) (map fst (oc_streams c)) \<Longrightarrow> sorted_wrt (<) (map fst (oc_streams c'))" by blast+
qed

lemma new_clusters_spec:
  assumes "new_clusters observed queried = (clusters, queried')"
  shows "distinct clusters" "set clusters = set observed - queried" "queried' = queried \<union> set observed"
proof -
  have "distinct clusters \<and> set clusters = set observed - queried \<and> queried' = queried \<union> set observed"
    using assms
  proof (induction observed arbitrary: queried clusters)
    case (Cons x observed)
    show ?case
    proof (cases "x \<in> queried")
      case True
      then show ?thesis using Cons.IH [of queried clusters] Cons.prems by auto
    next
      case False
      obtain rest q where n: "new_clusters observed (insert x queried) = (rest, q)" by fastforce
      then have "clusters = x # rest" "queried' = q" using Cons.prems False by simp_all
      then show ?thesis using Cons.IH [of "insert x queried" rest] n False by auto
    qed
  qed simp
  then show "distinct clusters" "set clusters = set observed - queried" "queried' = queried \<union> set observed" by blast+
qed

definition ownership_inv :: "ClusterOwnershipCache \<Rightarrow> bool" where
  "ownership_inv c \<longleftrightarrow> (\<forall>e. oc_queried_clusters c \<subseteq> accounted e c) \<and> sorted_wrt (<) (map fst (oc_streams c))"

lemma ownership_inv_new: "ownership_inv ClusterOwnershipCache_new"
  by (simp add: ownership_inv_def ClusterOwnershipCache_new_def)

lemma UpdateClusterOwnership_spec:
  assumes "UpdateClusterOwnership baseline payload observed c = Some (Inr c')" "ownership_inv c"
  shows "ownership_inv c'" "oc_queried_clusters c' = oc_queried_clusters c \<union> set observed"
proof -
  obtain clusters queried where n: "new_clusters observed (oc_queried_clusters c) = (clusters, queried)" by fastforce
  note ns = new_clusters_spec [OF n]
  let ?c1 = "c\<lparr>oc_queried_clusters := queried\<rparr>"
  have acc1: "accounted e ?c1 = accounted e c" for e by (cases e) (simp_all add: accounted_def)
  have "ownership_inv c' \<and> oc_queried_clusters c' = oc_queried_clusters c \<union> set observed"
  proof (cases "clusters = []")
    case True
    then have "set observed \<subseteq> oc_queried_clusters c" using ns(2) by auto
    then have "queried = oc_queried_clusters c" using ns(3) by auto
    then show ?thesis using assms n True ns(3) by (simp add: UpdateClusterOwnership_def)
  next
    case False
    obtain l1 c2 l2 where r: "ResolveSnapshotOwnership Baseline l1 clusters ?c1 = Inr c2" "ResolveSnapshotOwnership Payload l2 clusters c2 = Inr c'"
      using assms(1) n False by (auto simp: UpdateClusterOwnership_def Let_def split: option.split_asm sum.split_asm)
    note r1 = ResolveSnapshotOwnership_spec [OF r(1)] and r2 = ResolveSnapshotOwnership_spec [OF r(2)]
    have q: "oc_queried_clusters c' = oc_queried_clusters c \<union> set observed" using r1(3) r2(3) ns(3) by simp
    have "accounted e c \<union> set clusters \<subseteq> accounted e c'" for e
      using r1(1) r1(2) [of Payload] r2(1) r2(2) [of Baseline] acc1 by (cases e) auto
    moreover have "oc_queried_clusters c' \<subseteq> oc_queried_clusters c \<union> set clusters" using q ns(2) by auto
    moreover have "oc_queried_clusters c \<subseteq> accounted e c" for e using assms(2) by (simp add: ownership_inv_def)
    ultimately have "oc_queried_clusters c' \<subseteq> accounted e c'" for e by (meson Un_mono order_refl order_trans)
    moreover have "sorted_wrt (<) (map fst (oc_streams ?c1))" using assms(2) by (simp add: ownership_inv_def)
    from r2(4) [OF r1(4) [OF this]] have "sorted_wrt (<) (map fst (oc_streams c'))" .
    ultimately show ?thesis using q by (simp add: ownership_inv_def)
  qed
  then show "ownership_inv c'" "oc_queried_clusters c' = oc_queried_clusters c \<union> set observed" by blast+
qed

end
