(* ===== verification/MapReports.thy ===== *)
theory MapReports
  imports MapVerificationRuns ClusterOwnership VerifierReport
begin

text \<open>
  The verification of all volumes and its report
  (\<open>supervisor/native_backup/incremental_diagnostics.cpp\<close>, lines 87 to 101, 684 to 694, 1180 to 1187, 1284 to 1569):
  the jobs, their interleaved runs, the progress messages, the summary and the exit code.

  The result is the soundness of the exit code: 0 is returned only if every volume was compared
  completely and every block that differs is in the volume's map, whatever the schedule of the workers.
\<close>

section \<open>Jobs\<close>

record SnapshotInterval =
  si_volume_identifier :: guid
  si_baseline_snapshot_identifier :: guid
  si_payload_snapshot_identifier :: guid
  si_volume :: string
  si_baseline_device :: string
  si_payload_device :: string

record VolumeReport =
  vp_interval :: SnapshotInterval
  vp_map :: "string + DirtyBlockMap"

text \<open>The state and the workers of a job are its \<open>verification_run\<close>.\<close>

record VerificationJob =
  jb_volume :: VolumeReport
  jb_volume_size :: nat
  jb_run :: verification_run
  jb_allocation :: "VerificationAllocation option"
  jb_ownership :: ClusterOwnershipCache

definition job_observation :: "VerificationJob \<Rightarrow> ComparisonObservation" where
  "job_observation job = mv_observation (vr_state (jb_run job))"

text \<open>
  A job without its allocation gets no workers: \<open>StartVerificationWorkers\<close> returns at once.
\<close>

definition prepare_job :: "(VolumeReport \<Rightarrow> VerificationAllocation result) \<Rightarrow> VolumeReport \<Rightarrow> VerificationJob result" where
  "prepare_job load volume =
     (case load volume of
        Inr allocation \<Rightarrow>
          Inr \<lparr>jb_volume = volume, jb_volume_size = sn_volume_size (va_baseline allocation),
               jb_run = initial_run MapVerificationState_new, jb_allocation = Some allocation,
               jb_ownership = ClusterOwnershipCache_new\<rparr>
      | Inl e \<Rightarrow>
          if is_runtime_error e
          then Inr \<lparr>jb_volume = volume, jb_volume_size = 0,
                    jb_run = (initial_run (MapVerificationState_Fail MapVerificationState_new (error_what e)))\<lparr>vr_next := None\<rparr>,
                    jb_allocation = None, jb_ownership = ClusterOwnershipCache_new\<rparr>
          else Inl e)"

fun prepare_jobs ::
    "(VolumeReport \<Rightarrow> VerificationAllocation result) \<Rightarrow> VolumeReport list \<Rightarrow> cancellation \<Rightarrow> (VerificationJob list \<times> cancellation) result" where
  "prepare_jobs load [] cancel = Inr ([], cancel)"
| "prepare_jobs load (volume # volumes) cancel =
     (case event_is_signaled cancel of (signaled, cancel1) \<Rightarrow>
        if signaled then Inr ([], cancel1)
        else ebind (prepare_job load volume) (\<lambda>job.
             ebind (prepare_jobs load volumes cancel1) (\<lambda>(jobs, cancel2). Inr (job # jobs, cancel2))))"

text \<open>
  The jobs run side by side; the workers of a job are started when those of the jobs before it
  are.  \<open>io\<close> gives the behaviours that handles of the two snapshots of a volume may show.
\<close>

inductive jobs_step ::
    "cpu \<Rightarrow> (VolumeReport \<Rightarrow> snapshot_io set \<times> snapshot_io set) \<Rightarrow> bool \<Rightarrow> VerificationJob list \<Rightarrow> VerificationJob list \<Rightarrow> bool"
  for c io may_cancel where
  job: "i < length jobs \<Longrightarrow> jb_allocation (jobs ! i) = Some allocation \<Longrightarrow>
    verify_step c (jb_volume_size (jobs ! i)) allocation (vp_map (jb_volume (jobs ! i)))
      (fst (io (jb_volume (jobs ! i)))) (snd (io (jb_volume (jobs ! i)))) may_cancel (jb_run (jobs ! i)) run' \<Longrightarrow>
    (vr_next run' \<noteq> vr_next (jb_run (jobs ! i)) \<longrightarrow> (\<forall>j < i. vr_next (jb_run (jobs ! j)) = None)) \<Longrightarrow>
    jobs_step c io may_cancel jobs (jobs[i := (jobs ! i)\<lparr>jb_run := run'\<rparr>])"

section \<open>Progress\<close>

definition VerificationPercentage :: "nat \<Rightarrow> nat \<Rightarrow> real" where
  "VerificationPercentage part whole = (if whole = 0 then 0 else real part * 100 / real whole)"

definition progress_lines :: "VerificationJob \<Rightarrow> message list" where
  "progress_lines job =
     (let observation = job_observation job; volume_size = jb_volume_size job
      in [Msg ''Volume ID: {}'' [Guid (si_volume_identifier (vp_interval (jb_volume job)))],
          Msg ''Compared: {} of {} bytes ({:.2f}%) Differences observed: {} byte(s) in {} 16-KiB block(s)''
            [N (ob_compared_bytes observation), N volume_size,
             Fixed (VerificationPercentage (ob_compared_bytes observation) volume_size),
             N (ob_differing_bytes observation), N (ob_differing_blocks observation)],
          (case vp_map (jb_volume job) of
             Inl err \<Rightarrow> Msg ''Dirty-map coverage unavailable: {}'' [Str err]
           | Inr _ \<Rightarrow> Msg ''Dirty-map coverage: {} differing block(s) were absent'' [N (ob_uncovered_blocks observation)])] @
         (if ob_failure observation = '''' then []
          else [Msg ''Verification unavailable: {}'' [Str (ob_failure observation)]]))"

definition total64 :: "('a \<Rightarrow> nat) \<Rightarrow> 'a list \<Rightarrow> nat" where
  "total64 f xs = fold (\<lambda>x n. add64 n (f x)) xs 0"

text \<open>The two snapshots of a volume, as they answer ownership lookups.\<close>

definition update_ownership ::
    "(VolumeReport \<Rightarrow> stream_device \<times> stream_device) \<Rightarrow> VerificationJob \<Rightarrow> VerificationJob result option" where
  "update_ownership devices job =
     map_option (\<lambda>r. ebind r (\<lambda>ownership. Inr (job\<lparr>jb_ownership := ownership\<rparr>)))
       (UpdateClusterOwnership (fst (devices (jb_volume job))) (snd (devices (jb_volume job)))
          (ob_uncovered_clusters (job_observation job)) (jb_ownership job))"

fun ownership_progress ::
    "(VolumeReport \<Rightarrow> stream_device \<times> stream_device) \<Rightarrow> VerificationJob list \<Rightarrow> (message list \<times> VerificationJob list) result option" where
  "ownership_progress devices [] = Some (Inr ([], []))"
| "ownership_progress devices (job # jobs) =
     (case (if ob_uncovered_clusters (job_observation job) = [] then Some (Inr ([], job))
            else map_option (\<lambda>r. ebind r (\<lambda>job1.
                   let (msgs, ownership) = PrintOwnershipUpdate (si_volume_identifier (vp_interval (jb_volume job))) (jb_ownership job1)
                   in Inr (msgs, job1\<lparr>jb_ownership := ownership\<rparr>))) (update_ownership devices job)) of
        None \<Rightarrow> None
      | Some (Inl e) \<Rightarrow> Some (Inl e)
      | Some (Inr (msgs, job1)) \<Rightarrow>
          map_option (\<lambda>r. ebind r (\<lambda>(msgs1, jobs1). Inr (msgs @ msgs1, job1 # jobs1))) (ownership_progress devices jobs))"

definition PrintVerificationProgress ::
    "(VolumeReport \<Rightarrow> stream_device \<times> stream_device) \<Rightarrow> VerificationJob list \<Rightarrow> (message list \<times> VerificationJob list) result option" where
  "PrintVerificationProgress devices jobs =
     (let compared_total = total64 (ob_compared_bytes \<circ> job_observation) jobs;
          volume_total = total64 jb_volume_size jobs;
          differing_total = total64 (ob_differing_bytes \<circ> job_observation) jobs;
          uncovered_total = total64 (ob_uncovered_blocks \<circ> job_observation) jobs;
          coverage_unavailable = length (filter (\<lambda>job. isl (vp_map (jb_volume job))) jobs);
          msgs = Msg ''Incremental verification progress:'' [] # concat (map progress_lines jobs) @
            [Msg ''Total: {} of {} bytes ({:.2f}%); {} differing byte(s), {} uncovered block(s); dirty-map coverage unavailable for {} volume(s)''
               [N compared_total, N volume_total, Fixed (VerificationPercentage compared_total volume_total),
                N differing_total, N uncovered_total, N coverage_unavailable]]
      in map_option (\<lambda>r. ebind r (\<lambda>(msgs1, jobs1). Inr (msgs @ msgs1, jobs1))) (ownership_progress devices jobs))"

section \<open>The summary\<close>

record VerificationSummary =
  su_verified :: nat
  su_coverage_failures :: nat
  su_coverage_unavailable :: nat
  su_incomplete :: nat
  su_compared_bytes :: nat
  su_volume_bytes :: nat
  su_differing_bytes :: nat
  su_differing_blocks :: nat
  su_uncovered_bytes :: nat
  su_uncovered_blocks :: nat

definition VerificationSummary_new :: VerificationSummary where
  "VerificationSummary_new = \<lparr>su_verified = 0, su_coverage_failures = 0, su_coverage_unavailable = 0, su_incomplete = 0,
     su_compared_bytes = 0, su_volume_bytes = 0, su_differing_bytes = 0, su_differing_blocks = 0, su_uncovered_bytes = 0,
     su_uncovered_blocks = 0\<rparr>"

definition AddVerificationResult ::
    "VerificationSummary \<Rightarrow> ComparisonObservation \<Rightarrow> nat \<Rightarrow> bool \<Rightarrow> bool \<Rightarrow> VerificationSummary" where
  "AddVerificationResult summary observation volume_size all_read coverage_available =
     summary\<lparr>su_incomplete := su_incomplete summary + (if all_read then 0 else 1),
       su_coverage_unavailable := su_coverage_unavailable summary + (if coverage_available then 0 else 1),
       su_coverage_failures := su_coverage_failures summary + (if ob_uncovered_blocks observation \<noteq> 0 then 1 else 0),
       su_verified := su_verified summary +
         (if ob_uncovered_blocks observation \<noteq> 0 then 0 else if all_read \<and> coverage_available then 1 else 0),
       su_compared_bytes := add64 (su_compared_bytes summary) (ob_compared_bytes observation),
       su_volume_bytes := add64 (su_volume_bytes summary) volume_size,
       su_differing_bytes := add64 (su_differing_bytes summary) (ob_differing_bytes observation),
       su_differing_blocks := add64 (su_differing_blocks summary) (ob_differing_blocks observation),
       su_uncovered_bytes := add64 (su_uncovered_bytes summary) (ob_uncovered_bytes observation),
       su_uncovered_blocks := add64 (su_uncovered_blocks summary) (ob_uncovered_blocks observation)\<rparr>"

definition comparison_complete :: "VerificationJob \<Rightarrow> bool" where
  "comparison_complete job \<longleftrightarrow> ob_failure (job_observation job) = '''' \<and> ob_compared_bytes (job_observation job) = jb_volume_size job"

definition coverage_lines :: "ComparisonObservation \<Rightarrow> bool \<Rightarrow> DirtyBlockMap \<Rightarrow> message list" where
  "coverage_lines observation all_read map1 =
     [Msg ''Dirty-map candidates: {} 16-KiB block(s)'' [N (bm_size (dm_block_offsets map1))],
      (if ob_uncovered_blocks observation \<noteq> 0
       then Msg ''Coverage failure: {} differing byte(s) in {} block(s) were absent from the dirty map''
              [N (ob_uncovered_bytes observation), N (ob_uncovered_blocks observation)]
       else if all_read then Msg ''Coverage: every observed differing block was present in the dirty map'' []
       else Msg ''Coverage so far: no uncovered differing block was observed in the completed ranges'' [])] @
     (case ob_first_uncovered observation of
        Some u \<Rightarrow> [Msg ''First uncovered difference: block 0x{:x}, byte 0x{:x}, A=0x{:02x}, B=0x{:02x}''
                    [N (ud_block_offset u), N (ud_byte_offset u), N (unat (ud_baseline u)), N (unat (ud_payload u))]]
      | None \<Rightarrow> [])"

text \<open>The allocation is present whenever a cluster was queried; \<open>None\<close> would be its dereference without one.\<close>

definition PrintVerificationResult :: "VerificationJob \<Rightarrow> bool \<Rightarrow> bool \<Rightarrow> message list option" where
  "PrintVerificationResult job all_read cancelled =
     (let observation = job_observation job; volume_size = jb_volume_size job;
          msgs = [Msg ''Volume ID: {}'' [Guid (si_volume_identifier (vp_interval (jb_volume job)))],
            (if ob_failure observation \<noteq> ''''
             then Msg ''Status: failed after comparing {} byte(s): {}'' [N (ob_compared_bytes observation), Str (ob_failure observation)]
             else if all_read then Msg ''Status: comparison complete'' []
             else if cancelled then Msg ''Status: cancelled after comparing {} byte(s)'' [N (ob_compared_bytes observation)]
             else Msg ''Status: incomplete after comparing {} byte(s)'' [N (ob_compared_bytes observation)]),
            Msg ''Compared: {} of {} bytes ({:.2f}%) Differences: {} byte(s) in {} 16-KiB block(s)''
              [N (ob_compared_bytes observation), N volume_size,
               Fixed (VerificationPercentage (ob_compared_bytes observation) volume_size),
               N (ob_differing_bytes observation), N (ob_differing_blocks observation)]]
      in case vp_map (jb_volume job) of
           Inl err \<Rightarrow> Some (msgs @ [Msg ''Dirty-map candidates and coverage unavailable: {}'' [Str err]])
         | Inr map1 \<Rightarrow>
             let msgs1 = msgs @ coverage_lines observation all_read map1
             in if oc_queried_clusters (jb_ownership job) = {} then Some msgs1
                else map_option (\<lambda>allocation. msgs1 @ PrintClusterOwnership (jb_ownership job)
                       (cluster_size (sn_bitmap (va_baseline allocation)))) (jb_allocation job))"

definition summarize :: "VerificationJob list \<Rightarrow> VerificationSummary" where
  "summarize jobs =
     foldl (\<lambda>summary job. AddVerificationResult summary (job_observation job) (jb_volume_size job)
              (comparison_complete job) (\<not> isl (vp_map (jb_volume job)))) VerificationSummary_new jobs"

fun print_results :: "bool \<Rightarrow> VerificationJob list \<Rightarrow> message list option" where
  "print_results cancelled [] = Some []"
| "print_results cancelled (job # jobs) =
     (case (PrintVerificationResult job (comparison_complete job) cancelled, print_results cancelled jobs) of
        (Some msgs, Some msgs1) \<Rightarrow> Some (msgs @ msgs1) | _ \<Rightarrow> None)"

definition PrintVerificationSummary :: "VerificationJob list \<Rightarrow> nat \<Rightarrow> nat \<Rightarrow> bool \<Rightarrow> (message list \<times> int) option" where
  "PrintVerificationSummary jobs unprocessed_volumes unavailable_snapshots cancelled =
     map_option (\<lambda>msgs.
       let s = summarize jobs
       in (Msg ''Incremental verification results:'' [] # msgs @
           [Msg ''Summary: {} volume(s) verified, {} with uncovered differences, {} with dirty-map coverage unavailable, {} incomplete, {} not reached, {} selected without an available retained snapshot; {} of {} bytes compared ({:.2f}%), {} differing byte(s) in {} block(s), {} uncovered byte(s) in {} block(s).''
              [N (su_verified s), N (su_coverage_failures s), N (su_coverage_unavailable s), N (su_incomplete s),
               N unprocessed_volumes, N unavailable_snapshots, N (su_compared_bytes s), N (su_volume_bytes s),
               Fixed (VerificationPercentage (su_compared_bytes s) (su_volume_bytes s)), N (su_differing_bytes s),
               N (su_differing_blocks s), N (su_uncovered_bytes s), N (su_uncovered_blocks s)]],
           if su_incomplete s \<noteq> 0 \<or> su_coverage_failures s \<noteq> 0 \<or> unprocessed_volumes \<noteq> 0 then 1 else 0))
       (print_results cancelled jobs)"

section \<open>The whole verification\<close>

text \<open>
  One round of the wait: the time, and the runs as the round observes them.
\<close>

definition observe_runs :: "verification_run list \<Rightarrow> VerificationJob list \<Rightarrow> VerificationJob list" where
  "observe_runs runs jobs = map2 (\<lambda>run job. job\<lparr>jb_run := run\<rparr>) runs jobs"

fun progress_rounds ::
    "(VolumeReport \<Rightarrow> stream_device \<times> stream_device) \<Rightarrow> (nat \<times> verification_run list) list \<Rightarrow> nat \<Rightarrow> VerificationJob list \<Rightarrow>
     (message list \<times> VerificationJob list) result option" where
  "progress_rounds devices [] next_progress jobs = Some (Inr ([], jobs))"
| "progress_rounds devices ((now, runs) # rounds) next_progress jobs =
     (if next_progress \<le> now
      then (case PrintVerificationProgress devices (observe_runs runs jobs) of
              None \<Rightarrow> None
            | Some (Inl e) \<Rightarrow> Some (Inl e)
            | Some (Inr (msgs, jobs1)) \<Rightarrow>
                map_option (\<lambda>r. ebind r (\<lambda>(msgs1, jobs2). Inr (msgs @ msgs1, jobs2)))
                  (progress_rounds devices rounds (now + kProgressReportInterval) jobs1))
      else progress_rounds devices rounds next_progress jobs)"

definition job_ready :: "VerificationJob \<Rightarrow> bool" where
  "job_ready job \<longleftrightarrow> vr_next (jb_run job) = None \<and>
     list_all (\<lambda>w. case wk_phase w of worker_phase.Finished \<Rightarrow> True | worker_phase.Threw _ \<Rightarrow> True | _ \<Rightarrow> False) (verification_run.vr_workers (jb_run job))"

text \<open>\<open>worker.get()\<close> rethrows in the order of the workers.\<close>

definition worker_errors :: "VerificationJob \<Rightarrow> error list" where
  "worker_errors job = concat (map (\<lambda>w. case wk_phase w of worker_phase.Threw e \<Rightarrow> [e] | _ \<Rightarrow> []) (verification_run.vr_workers (jb_run job)))"

fun collect_jobs ::
    "(VolumeReport \<Rightarrow> stream_device \<times> stream_device) \<Rightarrow> VerificationJob list \<Rightarrow> VerificationJob list result option" where
  "collect_jobs devices [] = Some (Inr [])"
| "collect_jobs devices (job # jobs) =
     (case worker_errors job of
        e # _ \<Rightarrow> Some (Inl e)
      | [] \<Rightarrow>
          (case update_ownership devices job of
             None \<Rightarrow> None
           | Some (Inl e) \<Rightarrow> Some (Inl e)
           | Some (Inr job1) \<Rightarrow> map_option (\<lambda>r. ebind r (\<lambda>jobs1. Inr (job1 # jobs1))) (collect_jobs devices jobs)))"

definition finish_verification ::
    "(VolumeReport \<Rightarrow> stream_device \<times> stream_device) \<Rightarrow> nat \<Rightarrow> (nat \<times> verification_run list) list \<Rightarrow> verification_run list \<Rightarrow> bool \<Rightarrow>
     VerificationJob list \<Rightarrow> nat \<Rightarrow> nat \<Rightarrow> (message list \<times> int) result option" where
  "finish_verification devices start rounds finals cancelled jobs unprocessed_volumes unavailable_snapshots =
     (case progress_rounds devices rounds (start + kProgressReportInterval) jobs of
        None \<Rightarrow> None
      | Some (Inl e) \<Rightarrow> Some (Inl e)
      | Some (Inr (msgs, jobs1)) \<Rightarrow>
          (case collect_jobs devices (observe_runs finals jobs1) of
             None \<Rightarrow> None
           | Some (Inl e) \<Rightarrow> Some (Inl e)
           | Some (Inr jobs2) \<Rightarrow>
               map_option (\<lambda>(msgs1, status). Inr (msgs @ msgs1, status))
                 (PrintVerificationSummary jobs2 unprocessed_volumes unavailable_snapshots cancelled)))"

text \<open>
  The outcomes of \<open>RunIncrementalVerification\<close>: the jobs run until all are ready, the rounds show
  runs of the jobs on the way, and the report is made from the final runs.  \<open>cancelled\<close> is the last poll of the event.
\<close>

inductive RunIncrementalVerification ::
    "cpu \<Rightarrow> (VolumeReport \<Rightarrow> VerificationAllocation result) \<Rightarrow> (VolumeReport \<Rightarrow> snapshot_io set \<times> snapshot_io set) \<Rightarrow>
     (VolumeReport \<Rightarrow> stream_device \<times> stream_device) \<Rightarrow> cancellation \<Rightarrow> VolumeReport list \<Rightarrow> nat \<Rightarrow> nat \<Rightarrow>
     (message list \<times> int) result option \<Rightarrow> bool"
  for c load io devices cancel volumes unprocessed_volumes unavailable_snapshots where
  unprepared: "prepare_jobs load volumes cancel = Inl e \<Longrightarrow>
    RunIncrementalVerification c load io devices cancel volumes unprocessed_volumes unavailable_snapshots (Some (Inl e))"
| verified: "prepare_jobs load volumes cancel = Inr (jobs, cancel1) \<Longrightarrow>
    (jobs_step c io (cancel1 \<noteq> None))\<^sup>*\<^sup>* jobs finals \<Longrightarrow> list_all job_ready finals \<Longrightarrow>
    (\<And>now runs. (now, runs) \<in> set rounds \<Longrightarrow> length runs = length jobs) \<Longrightarrow>
    RunIncrementalVerification c load io devices cancel volumes unprocessed_volumes unavailable_snapshots
      (finish_verification devices start rounds (map jb_run finals) cancelled jobs
         (unprocessed_volumes + length volumes - length jobs) unavailable_snapshots)"

section \<open>The exit code of the report\<close>

lemma summarize_append:
  "foldl (\<lambda>summary job. AddVerificationResult summary (job_observation job) (jb_volume_size job)
      (comparison_complete job) (\<not> isl (vp_map (jb_volume job)))) s jobs = s' \<Longrightarrow>
    su_incomplete s' = su_incomplete s + length (filter (Not \<circ> comparison_complete) jobs) \<and>
    su_coverage_failures s' = su_coverage_failures s + length (filter (\<lambda>job. ob_uncovered_blocks (job_observation job) \<noteq> 0) jobs) \<and>
    su_verified s' = su_verified s + length (filter (\<lambda>job. comparison_complete job \<and> \<not> isl (vp_map (jb_volume job)) \<and>
      ob_uncovered_blocks (job_observation job) = 0) jobs)"
proof (induction jobs arbitrary: s)
  case (Cons job jobs)
  show ?case using Cons.IH [OF Cons.prems [unfolded foldl_Cons]] by (auto simp: AddVerificationResult_def)
qed simp

lemma PrintVerificationSummary_status:
  assumes "PrintVerificationSummary jobs unprocessed_volumes unavailable_snapshots cancelled = Some (msgs, status)"
  shows "status = 0 \<longleftrightarrow> unprocessed_volumes = 0 \<and>
    (\<forall>job \<in> set jobs. comparison_complete job \<and> ob_uncovered_blocks (job_observation job) = 0)"
proof -
  have "status = (if su_incomplete (summarize jobs) \<noteq> 0 \<or> su_coverage_failures (summarize jobs) \<noteq> 0 \<or> unprocessed_volumes \<noteq> 0 then 1 else 0)"
    using assms by (auto simp: PrintVerificationSummary_def Let_def)
  moreover have "su_incomplete (summarize jobs) = length (filter (Not \<circ> comparison_complete) jobs)"
    "su_coverage_failures (summarize jobs) = length (filter (\<lambda>job. ob_uncovered_blocks (job_observation job) \<noteq> 0) jobs)"
    using summarize_append [OF summarize_def [of jobs, symmetric]] by (simp_all add: VerificationSummary_new_def)
  ultimately show ?thesis by (auto simp: filter_empty_conv)
qed

section \<open>The report shows the final runs\<close>

text \<open>What a job is about, and a job up to its ownership cache.\<close>

definition job_input :: "VerificationJob \<Rightarrow> VolumeReport \<times> nat \<times> VerificationAllocation option" where
  "job_input job = (jb_volume job, jb_volume_size job, jb_allocation job)"

definition job_core :: "VerificationJob \<Rightarrow> VerificationJob" where
  "job_core job = job\<lparr>jb_ownership := ClusterOwnershipCache_new\<rparr>"

lemma job_core_update [simp]:
  "job_core (job\<lparr>jb_ownership := o1\<rparr>) = job_core job"
  by (simp add: job_core_def)

lemma job_core_fields:
  assumes "job_core job = job_core job'"
  shows "jb_volume job = jb_volume job'" "jb_volume_size job = jb_volume_size job'" "jb_run job = jb_run job'"
    "jb_allocation job = jb_allocation job'" "job_input job = job_input job'"
  using assms by (cases job; cases job'; simp add: job_core_def job_input_def)+

lemma job_core_eqI:
  assumes "job_input job = job_input job'" "jb_run job = jb_run job'"
  shows "job_core job = job_core job'"
  using assms by (cases job; cases job') (simp add: job_core_def job_input_def)

lemma map_core_input: "map job_core xs = map job_core ys \<Longrightarrow> map job_input xs = map job_input ys"
  unfolding list_eq_iff_nth_eq by (auto intro: job_core_fields(5))

lemma update_ownership_core: "update_ownership devices job = Some (Inr job1) \<Longrightarrow> job_core job1 = job_core job"
  by (auto simp: update_ownership_def ebind_eq_Inr)

lemma ownership_progress_core:
  "ownership_progress devices jobs = Some (Inr (msgs, jobs1)) \<Longrightarrow> map job_core jobs1 = map job_core jobs"
proof (induction jobs arbitrary: msgs jobs1)
  case (Cons job jobs)
  obtain m1 j1 m2 j2 where s: "(if ob_uncovered_clusters (job_observation job) = [] then Some (Inr ([], job))
      else map_option (\<lambda>r. ebind r (\<lambda>job1.
        let (msgs, ownership) = PrintOwnershipUpdate (si_volume_identifier (vp_interval (jb_volume job))) (jb_ownership job1)
        in Inr (msgs, job1\<lparr>jb_ownership := ownership\<rparr>))) (update_ownership devices job)) = Some (Inr (m1, j1))"
    "ownership_progress devices jobs = Some (Inr (m2, j2))" "jobs1 = j1 # j2"
    using Cons.prems by (auto simp: ebind_eq_Inr split: option.split_asm sum.split_asm)
  have "job_core j1 = job_core job"
    using s(1) update_ownership_core [of devices job] by (auto simp: ebind_eq_Inr case_prod_unfold Let_def split: if_split_asm)
  then show ?case using Cons.IH [OF s(2)] s(3) by simp
qed simp

lemma progress_core:
  "PrintVerificationProgress devices jobs = Some (Inr (msgs, jobs1)) \<Longrightarrow> map job_core jobs1 = map job_core jobs"
  unfolding PrintVerificationProgress_def Let_def using ownership_progress_core by (fastforce simp: ebind_eq_Inr)

lemma observe_runs_input:
  assumes "length runs = length jobs"
  shows "map job_input (observe_runs runs jobs) = map job_input jobs" "map jb_run (observe_runs runs jobs) = runs"
  using assms by (induction runs jobs rule: list_induct2) (simp_all add: observe_runs_def job_input_def)

lemma progress_rounds_input:
  assumes "progress_rounds devices rounds next1 jobs = Some (Inr (msgs, jobs1))" "\<And>now runs. (now, runs) \<in> set rounds \<Longrightarrow> length runs = length jobs"
  shows "map job_input jobs1 = map job_input jobs"
  using assms
proof (induction rounds arbitrary: next1 jobs msgs)
  case (Cons round1 rounds)
  obtain now runs where r: "round1 = (now, runs)" by fastforce
  have len: "length runs = length jobs" using Cons.prems(2) [of now runs] r by simp
  show ?case
  proof (cases "next1 \<le> now")
    case True
    obtain m1 j1 m2 where s: "PrintVerificationProgress devices (observe_runs runs jobs) = Some (Inr (m1, j1))"
      "progress_rounds devices rounds (now + kProgressReportInterval) j1 = Some (Inr (m2, jobs1))"
      using Cons.prems(1) True by (auto simp: r ebind_eq_Inr split: option.split_asm sum.split_asm)
    have i: "map job_input j1 = map job_input jobs"
      using map_core_input [OF progress_core [OF s(1)]] observe_runs_input(1) [OF len] by simp
    then have l: "length j1 = length jobs" using map_eq_imp_length_eq by blast
    show ?thesis using Cons.IH [OF s(2)] Cons.prems(2) i l by auto
  next
    case False
    then have "progress_rounds devices rounds next1 jobs = Some (Inr (msgs, jobs1))" using Cons.prems(1) by (simp add: r)
    then show ?thesis by (rule Cons.IH) (use Cons.prems(2) in auto)
  qed
qed simp

lemma collect_jobs_core:
  "collect_jobs devices jobs = Some (Inr jobs1) \<Longrightarrow> map job_core jobs1 = map job_core jobs"
proof (induction jobs arbitrary: jobs1)
  case (Cons job jobs)
  obtain j1 j2 where s: "update_ownership devices job = Some (Inr j1)" "collect_jobs devices jobs = Some (Inr j2)" "jobs1 = j1 # j2"
    using Cons.prems by (auto simp: ebind_eq_Inr split: list.split_asm option.split_asm sum.split_asm)
  then show ?case using Cons.IH [OF s(2)] update_ownership_core [OF s(1)] by simp
qed simp

lemma complete_core:
  assumes "job_core job = job_core job'"
  shows "comparison_complete job = comparison_complete job'" "job_observation job = job_observation job'"
  using job_core_fields [OF assms] by (simp_all add: comparison_complete_def job_observation_def)

lemma finish_verification_status:
  assumes "finish_verification devices start rounds (map jb_run finals) cancelled jobs n u = Some (Inr (msgs, status))"
    and "map job_input finals = map job_input jobs" "\<And>now runs. (now, runs) \<in> set rounds \<Longrightarrow> length runs = length jobs"
  shows "status = 0 \<longleftrightarrow> n = 0 \<and> (\<forall>job \<in> set finals. comparison_complete job \<and> ob_uncovered_blocks (job_observation job) = 0)"
proof -
  obtain m1 j1 j2 m2 where s: "progress_rounds devices rounds (start + kProgressReportInterval) jobs = Some (Inr (m1, j1))"
    "collect_jobs devices (observe_runs (map jb_run finals) j1) = Some (Inr j2)"
    "PrintVerificationSummary j2 n u cancelled = Some (m2, status)"
    using assms(1) by (auto simp: finish_verification_def split: option.split_asm sum.split_asm)
  have i: "map job_input j1 = map job_input finals" using progress_rounds_input [OF s(1) assms(3)] assms(2) by simp
  then have len: "length (map jb_run finals) = length j1" using map_eq_imp_length_eq by fastforce
  let ?obs = "observe_runs (map jb_run finals) j1"
  have "map job_input ?obs = map job_input finals" "map jb_run ?obs = map jb_run finals"
    using observe_runs_input [OF len] i by simp_all
  then have "map job_core ?obs = map job_core finals"
    unfolding list_eq_iff_nth_eq by (auto intro!: job_core_eqI)
  then have core: "map job_core j2 = map job_core finals" using collect_jobs_core [OF s(2)] by simp
  have "comparison_complete (j2 ! i) = comparison_complete (finals ! i) \<and> job_observation (j2 ! i) = job_observation (finals ! i)"
    if "i < length j2" for i
    using core that complete_core [of "j2 ! i" "finals ! i"] unfolding list_eq_iff_nth_eq by simp
  moreover have "length j2 = length finals" using core map_eq_imp_length_eq by blast
  ultimately have "(\<forall>job \<in> set j2. comparison_complete job \<and> ob_uncovered_blocks (job_observation job) = 0) \<longleftrightarrow>
      (\<forall>job \<in> set finals. comparison_complete job \<and> ob_uncovered_blocks (job_observation job) = 0)"
    unfolding all_set_conv_all_nth by auto
  then show ?thesis using PrintVerificationSummary_status [OF s(3)] by simp
qed

section \<open>Every volume of a successful verification is covered\<close>

lemma prepare_jobs_spec:
  assumes "prepare_jobs load volumes cancel = Inr (jobs, cancel1)"
  shows "map jb_volume jobs = take (length jobs) volumes \<and> (\<forall>job \<in> set jobs. prepare_job load (jb_volume job) = Inr job)"
  using assms
proof (induction volumes arbitrary: cancel jobs)
  case (Cons volume volumes)
  obtain signaled cancel2 where p: "event_is_signaled cancel = (signaled, cancel2)" by fastforce
  show ?case
  proof (cases signaled)
    case True
    then show ?thesis using Cons.prems p by simp
  next
    case False
    obtain job jobs1 where s: "prepare_job load volume = Inr job" "prepare_jobs load volumes cancel2 = Inr (jobs1, cancel1)" "jobs = job # jobs1"
      using Cons.prems p False by (auto simp: ebind_eq_Inr)
    have "jb_volume job = volume" using s(1) by (auto simp: prepare_job_def split: sum.split_asm if_split_asm)
    then show ?thesis using Cons.IH [OF s(2)] s by simp
  qed
qed simp

text \<open>The joint run is a run of each job.\<close>

lemma jobs_run:
  assumes "(jobs_step c io may_cancel)\<^sup>*\<^sup>* jobs finals"
  shows "map job_input finals = map job_input jobs \<and> (\<forall>i < length jobs. \<forall>a. jb_allocation (jobs ! i) = Some a \<longrightarrow>
    (verify_step c (jb_volume_size (jobs ! i)) a (vp_map (jb_volume (jobs ! i))) (fst (io (jb_volume (jobs ! i))))
       (snd (io (jb_volume (jobs ! i)))) may_cancel)\<^sup>*\<^sup>* (jb_run (jobs ! i)) (jb_run (finals ! i))) \<and>
    (\<forall>i < length jobs. jb_allocation (jobs ! i) = None \<longrightarrow> jb_run (finals ! i) = jb_run (jobs ! i))"
  using assms
proof (induction rule: rtranclp_induct)
  case (step ys zs)
  note IH = step.IH
  from step.hyps(2) show ?case
  proof cases
    case (job i a run')
    have in1: "job_input (ys ! j) = job_input (jobs ! j)" if "j < length jobs" for j
      using IH that unfolding list_eq_iff_nth_eq by simp
    have len: "length ys = length jobs" using IH map_eq_imp_length_eq by blast
    have "map job_input zs = map job_input ys" unfolding job(1) list_eq_iff_nth_eq
      using job(2) by (auto simp: nth_list_update job_input_def)
    then have m: "map job_input zs = map job_input jobs" using IH by simp
    have i: "jb_volume (ys ! i) = jb_volume (jobs ! i)" "jb_volume_size (ys ! i) = jb_volume_size (jobs ! i)"
      "jb_allocation (ys ! i) = jb_allocation (jobs ! i)" using in1 [of i] job(2) len by (simp_all add: job_input_def)
    show ?thesis
    proof (intro conjI allI impI m)
      fix j b assume j: "j < length jobs" "jb_allocation (jobs ! j) = Some b"
      let ?R = "verify_step c (jb_volume_size (jobs ! j)) b (vp_map (jb_volume (jobs ! j))) (fst (io (jb_volume (jobs ! j))))
        (snd (io (jb_volume (jobs ! j)))) may_cancel"
      have r: "?R\<^sup>*\<^sup>* (jb_run (jobs ! j)) (jb_run (ys ! j))" using IH j by blast
      show "?R\<^sup>*\<^sup>* (jb_run (jobs ! j)) (jb_run (zs ! j))"
      proof (cases "j = i")
        case True
        then have "?R (jb_run (ys ! j)) run'" using job(3,4) i j by simp
        then show ?thesis using r True job(1,2) by (simp add: rtranclp.rtrancl_into_rtrancl)
      qed (use r job(1) in simp)
    next
      fix j assume "j < length jobs" "jb_allocation (jobs ! j) = None"
      then show "jb_run (zs ! j) = jb_run (jobs ! j)" using IH job(1,3) i by (cases "j = i") auto
    qed
  qed
qed auto

text \<open>
  What the environment owes to a report: the bitmaps that were loaded are well formed and of
  the size of the volume, the map is a well-formed set, and a complete read of a snapshot returns its contents.
\<close>

definition report_ok ::
    "(VolumeReport \<Rightarrow> VerificationAllocation result) \<Rightarrow> (VolumeReport \<Rightarrow> snapshot_io set \<times> snapshot_io set) \<Rightarrow>
     (VolumeReport \<Rightarrow> nat \<Rightarrow> byte) \<Rightarrow> (VolumeReport \<Rightarrow> nat \<Rightarrow> byte) \<Rightarrow> VolumeReport \<Rightarrow> bool" where
  "report_ok load io rb rp v \<longleftrightarrow>
     (\<forall>a. load v = Inr a \<longrightarrow> allocation_ok (sn_volume_size (va_baseline a)) a) \<and>
     (\<forall>e. load v = Inl e \<longrightarrow> error_what e \<noteq> '''') \<and> map_ok (vp_map v) \<and>
     (\<forall>b \<in> fst (io v). io_exposes (rb v) b) \<and> (\<forall>p \<in> snd (io v). io_exposes (rp v) p)"

definition volume_covered :: "(nat \<Rightarrow> byte) \<Rightarrow> (nat \<Rightarrow> byte) \<Rightarrow> VerificationAllocation \<Rightarrow> string + DirtyBlockMap \<Rightarrow> bool" where
  "volume_covered rb rp a mp \<longleftrightarrow>
     (case mp of
        Inl _ \<Rightarrow> True
      | Inr m \<Rightarrow> \<forall>x < sn_volume_size (va_baseline a). snapshot_view rb (va_baseline a) x \<noteq> snapshot_view rp (va_payload a) x \<longrightarrow>
          x div kMapBlockSize * kMapBlockSize \<in> bs_set vss_kBlockSize (dm_block_offsets m))"

lemma job_sound:
  assumes v: "report_ok load io rb rp (jb_volume job)" and prep: "prepare_job load (jb_volume job) = Inr job"
    and fin: "job_input final = job_input job"
    and steps: "\<forall>a. jb_allocation job = Some a \<longrightarrow> (verify_step c (jb_volume_size job) a (vp_map (jb_volume job))
      (fst (io (jb_volume job))) (snd (io (jb_volume job))) may_cancel)\<^sup>*\<^sup>* (jb_run job) (jb_run final)"
    and none: "jb_allocation job = None \<longrightarrow> jb_run final = jb_run job"
    and ok: "comparison_complete final" "ob_uncovered_blocks (job_observation final) = 0"
  shows "\<exists>a. load (jb_volume job) = Inr a \<and> volume_covered (rb (jb_volume job)) (rp (jb_volume job)) a (vp_map (jb_volume job))"
proof (cases "load (jb_volume job)")
  case (Inl e)
  let ?failed = "(initial_run (MapVerificationState_Fail MapVerificationState_new (error_what e)))\<lparr>vr_next := None\<rparr>"
  have j: "job = \<lparr>jb_volume = jb_volume job, jb_volume_size = 0, jb_run = ?failed, jb_allocation = None,
      jb_ownership = ClusterOwnershipCache_new\<rparr>" using prep Inl by (simp add: prepare_job_def split: if_split_asm)
  have "jb_allocation job = None" "jb_run job = ?failed" by (subst j; simp)+
  moreover have "ob_failure (mv_observation (vr_state ?failed)) = error_what e"
    by (simp add: initial_run_def MapVerificationState_Fail_def MapVerificationState_new_def no_observation_def Let_def)
  ultimately have "jb_allocation job = None" "ob_failure (job_observation job) = error_what e" by (simp_all add: job_observation_def)
  then have "ob_failure (job_observation final) = error_what e" using none by (simp add: job_observation_def)
  then show ?thesis using ok(1) v Inl by (simp add: comparison_complete_def report_ok_def)
next
  case (Inr a)
  let ?v = "jb_volume job"
  have j: "job = \<lparr>jb_volume = ?v, jb_volume_size = sn_volume_size (va_baseline a), jb_run = initial_run MapVerificationState_new,
      jb_allocation = Some a, jb_ownership = ClusterOwnershipCache_new\<rparr>" using prep Inr by (simp add: prepare_job_def)
  have e: "jb_volume_size job = sn_volume_size (va_baseline a)" "jb_run job = initial_run MapVerificationState_new" "jb_allocation job = Some a"
    by (subst j; simp)+
  have env: "allocation_ok (sn_volume_size (va_baseline a)) a" "map_ok (vp_map ?v)"
    "\<forall>b \<in> fst (io ?v). io_exposes (rb ?v) b" "\<forall>p \<in> snd (io ?v). io_exposes (rp ?v) p"
    using v Inr by (simp_all add: report_ok_def)
  have "(verify_step c (sn_volume_size (va_baseline a)) a (vp_map ?v) (fst (io ?v)) (snd (io ?v)) may_cancel)\<^sup>*\<^sup>*
      (initial_run MapVerificationState_new) (jb_run final)" using steps e by simp
  from reachable_inv [OF env this] have inv: "run_inv (sn_volume_size (va_baseline a)) (snapshot_view (rb ?v) (va_baseline a))
      (snapshot_view (rp ?v) (va_payload a)) (cluster_size (sn_bitmap (va_baseline a))) (vp_map ?v) (jb_run final)" by blast
  have full: "ob_compared_bytes (mv_observation (vr_state (jb_run final))) = sn_volume_size (va_baseline a)"
    "ob_uncovered_blocks (mv_observation (vr_state (jb_run final))) = 0"
    using ok fin e(1) by (simp_all add: comparison_complete_def job_observation_def job_input_def)
  have "volume_covered (rb ?v) (rp ?v) a (vp_map ?v)"
  proof (cases "vp_map ?v")
    case mp: (Inr m)
    show ?thesis using verified_covers [OF inv [unfolded mp] full] by (simp add: volume_covered_def mp)
  qed (simp add: volume_covered_def)
  then show ?thesis using Inr by blast
qed

lemma RunIncrementalVerification_sound:
  assumes "RunIncrementalVerification c load io devices cancel volumes n u (Some (Inr (msgs, 0)))"
    and env: "\<forall>v \<in> set volumes. report_ok load io rb rp v"
  shows "n = 0 \<and> (\<forall>v \<in> set volumes. \<exists>a. load v = Inr a \<and> volume_covered (rb v) (rp v) a (vp_map v))"
  using assms(1)
proof cases
  case (verified jobs cancel1 finals rounds start cancelled)
  note p = prepare_jobs_spec [OF verified(2)] and run = jobs_run [OF verified(3)]
  have in1: "map job_input finals = map job_input jobs" using run by blast
  have len: "length finals = length jobs" using in1 map_eq_imp_length_eq by blast
  from finish_verification_status [OF verified(1) [symmetric] in1 verified(5)]
  have st: "n + length volumes - length jobs = 0" "\<forall>job \<in> set finals. comparison_complete job \<and> ob_uncovered_blocks (job_observation job) = 0"
    by auto
  have "length jobs \<le> length volumes" using p by (metis length_map length_take min.cobounded1)
  then have n: "n = 0" "length jobs = length volumes" using st(1) by simp_all
  then have vols: "map jb_volume jobs = volumes" using p by simp
  have "\<exists>a. load v = Inr a \<and> volume_covered (rb v) (rp v) a (vp_map v)" if v: "v \<in> set volumes" for v
  proof -
    obtain i where i: "i < length jobs" "jb_volume (jobs ! i) = v" using v unfolding vols [symmetric] by (auto simp: in_set_conv_nth)
    have "job_input (finals ! i) = job_input (jobs ! i)" using in1 i(1) len by (metis nth_map)
    moreover have "prepare_job load (jb_volume (jobs ! i)) = Inr (jobs ! i)" using p i(1) by simp
    moreover have "comparison_complete (finals ! i)" "ob_uncovered_blocks (job_observation (finals ! i)) = 0" using st(2) i(1) len by simp_all
    moreover have "report_ok load io rb rp (jb_volume (jobs ! i))" using env v i(2) by simp
    ultimately have "\<exists>a. load (jb_volume (jobs ! i)) = Inr a \<and>
        volume_covered (rb (jb_volume (jobs ! i))) (rp (jb_volume (jobs ! i))) a (vp_map (jb_volume (jobs ! i)))"
    proof (intro job_sound)
      show "\<forall>a. jb_allocation (jobs ! i) = Some a \<longrightarrow> (verify_step c (jb_volume_size (jobs ! i)) a (vp_map (jb_volume (jobs ! i)))
          (fst (io (jb_volume (jobs ! i)))) (snd (io (jb_volume (jobs ! i)))) (cancel1 \<noteq> None))\<^sup>*\<^sup>* (jb_run (jobs ! i)) (jb_run (finals ! i))"
        using run i(1) by blast
      show "jb_allocation (jobs ! i) = None \<longrightarrow> jb_run (finals ! i) = jb_run (jobs ! i)" using run i(1) by blast
    qed
    then show ?thesis using i(2) by simp
  qed
  then show ?thesis using n by blast
qed

end
