(* ===== verification/Manifest.thy ===== *)
theory Manifest
  imports VssDescriptors DeviceFsProcess
begin

text \<open>
  The backup manifest (\<open>supervisor/native_backup/manifest.cpp\<close>): writing it for a snapshot set, reading it
  back, and finding the snapshots it names that still exist.  The JSON library of the Windows
  Runtime is a parameter (\<open>Stringify\<close>, \<open>TryParse\<close>); a JSON object is the list of its entries in
  enumeration order.

  The main result is the round trip: the manifest that is written for a snapshot set is read as that
  set's identifier and the snapshot of each of its volumes.
\<close>

section \<open>JSON\<close>

datatype json =
    JNull
  | JBool bool
  | JNumber real
  | JString wstring
  | JArray "json list"
  | JObject "(wstring \<times> json) list"

text \<open>A literal of the source as UTF-16.\<close>

definition utf16 :: "string \<Rightarrow> wstring" where
  "utf16 s = map (\<lambda>c. word_of_nat (of_char c)) s"

fun is_string :: "json \<Rightarrow> bool" where
  "is_string (JString _) = True" | "is_string _ = False"

fun is_object :: "json \<Rightarrow> bool" where
  "is_object (JObject _) = True" | "is_object _ = False"

fun is_array :: "json \<Rightarrow> bool" where
  "is_array (JArray _) = True" | "is_array _ = False"

text \<open>What the accessors return for a value whose type was checked.\<close>

fun string_of :: "json \<Rightarrow> wstring" where
  "string_of (JString s) = s" | "string_of _ = []"

fun object_of :: "json \<Rightarrow> (wstring \<times> json) list" where
  "object_of (JObject m) = m" | "object_of _ = []"

fun array_of :: "json \<Rightarrow> json list" where
  "array_of (JArray xs) = xs" | "array_of _ = []"

definition SetNamedValue :: "wstring \<Rightarrow> json \<Rightarrow> (wstring \<times> json) list \<Rightarrow> (wstring \<times> json) list" where
  "SetNamedValue k v m = (if k \<in> fst ` set m then map (\<lambda>(k1, v1). (k1, if k1 = k then v else v1)) m else m @ [(k, v)])"

text \<open>\<open>std::map\<close> keyed by a GUID: \<open>emplace\<close> keeps the value of a key that is present.\<close>

fun guid_emplace :: "guid \<Rightarrow> 'v \<Rightarrow> (guid \<times> 'v) list \<Rightarrow> (guid \<times> 'v) list" where
  "guid_emplace k v [] = [(k, v)]"
| "guid_emplace k v ((k1, v1) # m) =
     (if GuidLess k k1 then (k, v) # (k1, v1) # m
      else if GuidLess k1 k then (k1, v1) # guid_emplace k v m
      else (k1, v1) # m)"

section \<open>Paths\<close>

text \<open>\<open>std::filesystem::path::stem\<close> on Windows: root names, separators and alternate data streams.\<close>

definition is_slash :: "16 word \<Rightarrow> bool" where
  "is_slash c \<longleftrightarrow> c = 92 \<or> c = 47"

definition is_letter :: "16 word \<Rightarrow> bool" where
  "is_letter c \<longleftrightarrow> (65 \<le> c \<and> c \<le> 90) \<or> (97 \<le> c \<and> c \<le> 122)"

definition root_name_length :: "wstring \<Rightarrow> nat" where
  "root_name_length p =
     (if length p \<ge> 2 \<and> is_letter (p ! 0) \<and> p ! 1 = 58 then 2
      else if length p < 2 \<or> \<not> is_slash (p ! 0) then 0
      else if length p \<ge> 4 \<and> is_slash (p ! 3) \<and> (length p = 4 \<or> \<not> is_slash (p ! 4)) \<and>
              ((is_slash (p ! 1) \<and> (p ! 2 = 63 \<or> p ! 2 = 46)) \<or> (p ! 1 = 63 \<and> p ! 2 = 63)) then 3
      else if length p \<ge> 3 \<and> is_slash (p ! 1) \<and> \<not> is_slash (p ! 2)
      then 2 + length (takeWhile (Not \<circ> is_slash) (drop 2 p)) else 0)"

definition path_filename :: "wstring \<Rightarrow> wstring" where
  "path_filename p = rev (takeWhile (Not \<circ> is_slash) (rev (drop (root_name_length p) p)))"

definition path_stem :: "wstring \<Rightarrow> wstring" where
  "path_stem p =
     (let name = takeWhile (\<lambda>c. c \<noteq> 58) (path_filename p);
          extension = takeWhile (\<lambda>c. c \<noteq> 46) (rev name)
      in if length extension + 1 \<ge> length name \<or> name = [46, 46] then name
         else take (length name - length extension - 1) name)"

section \<open>Reading\<close>

record SnapshotManifest =
  ma_snapshot_set_identifier :: guid
  ma_volumes :: "(guid \<times> guid) list"
  ma_backup_time :: "int option"

text \<open>
  The parameters: \<open>IIDFromString\<close>, the two transcoders, the parser, and the error code that the runtime
  reports when a value is read as a type that it has not.
\<close>

record manifest_system =
  mn_iid :: "wstring \<Rightarrow> int + guid"
  mn_narrow :: "wstring \<Rightarrow> string"
  mn_wide :: "string \<Rightarrow> wstring"
  mn_parse :: "wstring \<Rightarrow> json option"
  mn_stringify :: "json \<Rightarrow> wstring"
  mn_type_error :: nat

definition required_value :: "(wstring \<times> json) list \<Rightarrow> string \<Rightarrow> (json \<Rightarrow> bool) \<Rightarrow> string \<Rightarrow> json result" where
  "required_value object1 name expected err =
     (case map_of object1 (utf16 name) of
        None \<Rightarrow> Inl (RuntimeError err)
      | Some value1 \<Rightarrow> if expected value1 then Inr value1 else Inl (RuntimeError err))"

definition parse_identifier :: "manifest_system \<Rightarrow> wstring \<Rightarrow> string \<Rightarrow> guid result" where
  "parse_identifier M text1 err = (case mn_iid M text1 of Inl _ \<Rightarrow> Inl (RuntimeError err) | Inr g \<Rightarrow> Inr g)"

text \<open>\<open>std::from_chars\<close> of a 64-bit integer, where the whole text must be consumed.\<close>

definition is_digit :: "char \<Rightarrow> bool" where
  "is_digit c \<longleftrightarrow> 48 \<le> (of_char c :: nat) \<and> (of_char c :: nat) \<le> 57"

definition digits_value :: "string \<Rightarrow> nat" where
  "digits_value s = foldl (\<lambda>n c. 10 * n + (of_char c - 48)) 0 s"

definition from_chars :: "string \<Rightarrow> int option" where
  "from_chars text1 =
     (let negative = (text1 \<noteq> [] \<and> hd text1 = CHR ''-''); digits = (if negative then tl text1 else text1)
      in if digits = [] \<or> \<not> list_all is_digit digits then None
         else let v = (if negative then - int (digits_value digits) else int (digits_value digits))
              in if in_type i64 v then Some v else None)"

definition add_volume :: "manifest_system \<Rightarrow> (guid \<times> guid) list \<Rightarrow> wstring \<times> json \<Rightarrow> (guid \<times> guid) list result" where
  "add_volume M volumes entry =
     (if \<not> is_object (snd entry) then Inl (RuntimeError ''a backup-manifest volume is not an object'')
      else ebind (required_value (object_of (snd entry)) ''snapshot-id'' is_string
                    ''a backup-manifest volume does not contain a snapshot-id string'') (\<lambda>snapshot.
        let image_name = path_stem (fst entry)
        in if length image_name < 7 then Inl (RuntimeError ''the backup manifest contains an invalid volume identifier'')
           else ebind (parse_identifier M (utf16 ''{'' @ drop 7 image_name @ utf16 ''}'')
                         ''the backup manifest contains an invalid volume identifier'') (\<lambda>volume.
                ebind (parse_identifier M (string_of snapshot)
                         ''a backup-manifest volume contains an invalid snapshot identifier'') (\<lambda>identifier.
                  Inr (guid_emplace volume identifier volumes)))))"

definition parse_backup_time :: "manifest_system \<Rightarrow> (wstring \<times> json) list \<Rightarrow> int option result" where
  "parse_backup_time M root1 =
     (case map_of root1 (utf16 ''pbs-backup-time'') of
        None \<Rightarrow> Inr None
      | Some time \<Rightarrow>
          if \<not> is_string time then Inl (SystemError (mn_type_error M) ''the Windows Runtime failed while parsing the backup manifest'')
          else case from_chars (mn_narrow M (string_of time)) of
                 None \<Rightarrow> Inl (RuntimeError ''the manifest query returned an invalid PBS backup time'')
               | Some seconds \<Rightarrow> Inr (Some seconds))"

text \<open>\<open>ParseManifest\<close> turns a failure of the runtime into a \<open>std::system_error\<close>, which is the error used here.\<close>

definition ParseSnapshotManifest :: "manifest_system \<Rightarrow> string \<Rightarrow> SnapshotManifest result" where
  "ParseSnapshotManifest M manifest =
     (case mn_parse M (mn_wide M manifest) of
        Some (JObject root1) \<Rightarrow>
          ebind (required_value root1 ''snapshot-set'' is_string ''the backup manifest does not contain a snapshot-set string'') (\<lambda>snapshot_set.
          ebind (required_value root1 ''volumes'' is_object ''the backup manifest does not contain a volumes object'') (\<lambda>volumes.
          ebind (parse_identifier M (string_of snapshot_set) ''the backup manifest contains an invalid snapshot-set identifier'') (\<lambda>identifier.
          ebind (parse_backup_time M root1) (\<lambda>backup_time.
          ebind (efold (add_volume M) [] (object_of volumes)) (\<lambda>parsed.
            Inr \<lparr>ma_snapshot_set_identifier = identifier, ma_volumes = parsed, ma_backup_time = backup_time\<rparr>)))))
      | _ \<Rightarrow> Inl (RuntimeError ''the backup manifest is not a JSON object''))"

section \<open>The snapshots that still exist\<close>

record SnapshotProperties =
  sp_snapshot_set_identifier :: guid
  sp_original_volume :: string
  sp_device :: string

record SnapshotVolume =
  sv_snapshot_identifier :: guid
  sv_device :: string

definition query_volume ::
    "(string \<Rightarrow> int + guid) \<Rightarrow> guid \<Rightarrow> (guid \<times> SnapshotVolume) list \<Rightarrow> (guid \<times> guid) \<times> SnapshotProperties option \<Rightarrow>
     (guid \<times> SnapshotVolume) list result" where
  "query_volume iid snapshot_set_identifier result1 entry =
     (case entry of ((volume_identifier, snapshot_identifier), properties) \<Rightarrow>
        case properties of
          None \<Rightarrow> Inr result1
        | Some p \<Rightarrow>
            if sp_snapshot_set_identifier p \<noteq> snapshot_set_identifier then Inr result1
            else ebind (ParseVolumeGuid iid (sp_original_volume p)) (\<lambda>original_volume_identifier.
                   if original_volume_identifier = Inr volume_identifier
                   then Inr (guid_emplace volume_identifier \<lparr>sv_snapshot_identifier = snapshot_identifier, sv_device = sp_device p\<rparr> result1)
                   else Inr result1))"

definition QuerySnapshotVolumes ::
    "(string \<Rightarrow> int + guid) \<Rightarrow> (guid list \<Rightarrow> SnapshotProperties option list) \<Rightarrow> SnapshotManifest \<Rightarrow> (guid \<times> SnapshotVolume) list result" where
  "QuerySnapshotVolumes iid QuerySnapshotProperties manifest =
     efold (query_volume iid (ma_snapshot_set_identifier manifest)) []
       (zip (ma_volumes manifest) (QuerySnapshotProperties (map snd (ma_volumes manifest))))"

section \<open>The descriptions of the volumes\<close>

record BackupVolumeDescription =
  de_mount_points :: "string list"
  de_label :: string

definition json_note :: "(wstring \<times> json) list \<Rightarrow> string \<Rightarrow> (json \<Rightarrow> bool) \<Rightarrow> json option" where
  "json_note object1 name expected =
     (case map_of object1 (utf16 name) of Some v \<Rightarrow> if expected v then Some v else None | None \<Rightarrow> None)"

text \<open>\<open>operator[]\<close> of a \<open>std::map\<close> with string keys, then the update.\<close>

definition describe_at :: "string \<Rightarrow> (BackupVolumeDescription \<Rightarrow> BackupVolumeDescription) \<Rightarrow>
    (string \<rightharpoonup> BackupVolumeDescription) \<Rightarrow> (string \<rightharpoonup> BackupVolumeDescription)" where
  "describe_at k f m = m(k \<mapsto> f (case m k of Some d \<Rightarrow> d | None \<Rightarrow> \<lparr>de_mount_points = [], de_label = ''''\<rparr>))"

definition describe :: "manifest_system \<Rightarrow> (string \<rightharpoonup> BackupVolumeDescription) \<Rightarrow> wstring \<times> json \<Rightarrow>
    (string \<rightharpoonup> BackupVolumeDescription)" where
  "describe M result1 entry =
     (if \<not> is_object (snd entry) then result1
      else case json_note (object_of (snd entry)) ''notes'' is_object of
             None \<Rightarrow> result1
           | Some notes1 \<Rightarrow>
               describe_at (mn_narrow M (fst entry)) (\<lambda>d.
                 let d1 = (case json_note (object_of notes1) ''volume-label'' is_string of
                             Some label \<Rightarrow> d\<lparr>de_label := mn_narrow M (string_of label)\<rparr> | None \<Rightarrow> d)
                 in case json_note (object_of notes1) ''mount-points'' is_array of
                      Some mounts \<Rightarrow> d1\<lparr>de_mount_points := de_mount_points d1 @
                        map (mn_narrow M \<circ> string_of) (filter is_string (array_of mounts))\<rparr>
                    | None \<Rightarrow> d1) result1)"

definition ReadBackupVolumeDescriptions :: "manifest_system \<Rightarrow> string \<Rightarrow> (string \<rightharpoonup> BackupVolumeDescription)" where
  "ReadBackupVolumeDescriptions M manifest =
     (case mn_parse M (mn_wide M manifest) of
        Some (JObject root1) \<Rightarrow>
          (case json_note root1 ''volumes'' is_object of
             None \<Rightarrow> Map.empty
           | Some volumes \<Rightarrow> foldl (describe M) Map.empty (object_of volumes))
      | _ \<Rightarrow> Map.empty)"

section \<open>Retrieving and writing\<close>

text \<open>\<open>run\<close> is the program that queries the backup server: its exit code and captured output.\<close>

record PreviousBackupManifestResult =
  pr_exit_code :: int
  pr_manifest :: string

definition RetrieveBackupManifest ::
    "(string list \<Rightarrow> (int \<times> string option) result) \<Rightarrow> string option \<Rightarrow> bool \<Rightarrow> PreviousBackupManifestResult result" where
  "RetrieveBackupManifest run snapshot include_backup_time =
     ebind (run ([''--print-manifest'', ''--''] @ (if include_backup_time then [''--timestamp''] else []) @
                 [''--'', (case snapshot of Some s \<Rightarrow> s | None \<Rightarrow> '''')])) (\<lambda>(exit_code, standard_output).
       case standard_output of
         None \<Rightarrow> Inl (InvalidArgument ''bad optional access'')
       | Some manifest \<Rightarrow> Inr \<lparr>pr_exit_code = exit_code, pr_manifest = manifest\<rparr>)"

text \<open>
  What is known of a volume besides its snapshot: the replies of the two calls that list its
  mount points, the second one with the strings in its buffer, its label, and the metadata.
\<close>

record volume_facts =
  vf_paths_probe :: bool
  vf_paths :: "wstring option"
  vf_label :: "wstring option"
  vf_mount_manager_id :: "byte list option"
  vf_file_system :: "wstring option"

text \<open>\<open>std::views::split\<close> at the terminators, up to the first empty string.\<close>

fun split_paths :: "wstring \<Rightarrow> wstring \<Rightarrow> wstring list" where
  "split_paths [] current = (if current = [] then [] else [current])"
| "split_paths (c # cs) current =
     (if c = 0 then (if current = [] then [] else current # split_paths cs [])
      else split_paths cs (current @ [c]))"

definition VolumeMountPoints :: "volume_facts \<Rightarrow> wstring list" where
  "VolumeMountPoints f =
     (if \<not> vf_paths_probe f then []
      else case vf_paths f of None \<Rightarrow> [] | Some buffer1 \<Rightarrow> split_paths buffer1 [])"

definition VolumeLabel :: "volume_facts \<Rightarrow> wstring" where
  "VolumeLabel f = (case vf_label f of None \<Rightarrow> [] | Some label \<Rightarrow> takeWhile (\<lambda>c. c \<noteq> 0) label)"

definition EncodeToHexString :: "byte list \<Rightarrow> wstring" where
  "EncodeToHexString bs = utf16 (concat (map (\<lambda>b. hex_padded 2 (unat b)) bs))"

definition to_hstring :: "guid \<Rightarrow> wstring" where
  "to_hstring g = utf16 (FormatGuid True g)"

definition volume_json :: "manifest_system \<Rightarrow> volume_facts \<Rightarrow> Snapshot \<Rightarrow> (wstring \<times> json) list" where
  "volume_json M f snapshot =
     (let notes1 = SetNamedValue (utf16 ''snapshot-device'') (JString (mn_wide M (sn_device snapshot)))
            (SetNamedValue (utf16 ''volume-label'') (JString (VolumeLabel f))
              (SetNamedValue (utf16 ''mount-points'') (JArray (map JString (VolumeMountPoints f))) []));
          notes2 = (case vf_mount_manager_id f of
              Some bs \<Rightarrow> SetNamedValue (utf16 ''snapshot-mount-manager-id'') (JString (EncodeToHexString bs)) notes1
            | None \<Rightarrow> notes1);
          volume1 = SetNamedValue (utf16 ''snapshot-id'') (JString (to_hstring (sn_identifier snapshot))) [];
          volume2 = (case vf_file_system f of
              Some s \<Rightarrow> SetNamedValue (utf16 ''file-system'') (JString s) volume1
            | None \<Rightarrow> volume1)
      in SetNamedValue (utf16 ''notes'') (JObject notes2) volume2)"

definition add_snapshot_json ::
    "manifest_system \<Rightarrow> (guid \<Rightarrow> volume_facts) \<Rightarrow> (wstring \<times> json) list \<Rightarrow> Snapshot \<Rightarrow> (wstring \<times> json) list result" where
  "add_snapshot_json M facts volumes snapshot =
     ebind (SnapshotImageName (sn_original_volume snapshot)) (\<lambda>name.
       Inr (SetNamedValue (mn_wide M name) (JObject (volume_json M (facts (sn_identifier snapshot)) snapshot)) volumes))"

text \<open>The object that is written, then its text.\<close>

definition manifest_object ::
    "manifest_system \<Rightarrow> (guid \<Rightarrow> volume_facts) \<Rightarrow> wstring option \<Rightarrow> guid \<Rightarrow> Snapshot list \<Rightarrow> string \<Rightarrow> json result" where
  "manifest_object M facts product_version identifier snapshots wsl_oci_layer =
     ebind (efold (add_snapshot_json M facts) [] snapshots) (\<lambda>volumes.
       let result1 = SetNamedValue (utf16 ''volumes'') (JObject volumes)
             (SetNamedValue (utf16 ''snapshot-set'') (JString (to_hstring identifier))
               (SetNamedValue (utf16 ''version'') (JNumber 1) []));
           notes1 = (case product_version of
               Some version \<Rightarrow> SetNamedValue (utf16 ''devicefs-supervisor-version'') (JString version) []
             | None \<Rightarrow> []);
           notes2 = (if wsl_oci_layer \<noteq> '''' then SetNamedValue (utf16 ''wsl-oci'') (JString (mn_wide M wsl_oci_layer)) notes1 else notes1);
           result2 = (if notes2 \<noteq> [] then SetNamedValue (utf16 ''notes'') (JObject notes2) result1 else result1)
       in Inr (JObject result2))"

definition SerializeSnapshotManifest ::
    "manifest_system \<Rightarrow> (guid \<Rightarrow> volume_facts) \<Rightarrow> wstring option \<Rightarrow> guid \<Rightarrow> Snapshot list \<Rightarrow> string \<Rightarrow> string result" where
  "SerializeSnapshotManifest M facts product_version identifier snapshots wsl_oci_layer =
     ebind (manifest_object M facts product_version identifier snapshots wsl_oci_layer) (\<lambda>object1.
       Inr (mn_narrow M (mn_stringify M object1)))"

section \<open>The maps keyed by a GUID\<close>

lemma GuidLess_irrefl [simp]: "\<not> GuidLess g g"
  by (simp add: GuidLess_def)

lemma GuidLess_trans: "GuidLess a b \<Longrightarrow> GuidLess b c \<Longrightarrow> GuidLess a c"
  unfolding GuidLess_def Let_def by (auto split: if_split_asm)

lemma GuidLess_total: "\<not> GuidLess a b \<Longrightarrow> \<not> GuidLess b a \<Longrightarrow> a = b"
proof -
  assume "\<not> GuidLess a b" "\<not> GuidLess b a"
  then have e: "(ucast a :: 64 word) = ucast b" "(ucast (drop_bit 64 a) :: 64 word) = ucast (drop_bit 64 b)"
    unfolding GuidLess_def Let_def by (auto split: if_split_asm)
  show "a = b"
  proof (rule bit_word_eqI)
    fix n assume n: "n < LENGTH(128)"
    show "bit a n \<longleftrightarrow> bit b n"
    proof (cases "n < 64")
      case True
      have "bit (ucast a :: 64 word) n = bit (ucast b :: 64 word) n" using e(1) by simp
      then show ?thesis using True by (simp add: bit_ucast_iff)
    next
      case False
      have "bit (ucast (drop_bit 64 a) :: 64 word) (n - 64) = bit (ucast (drop_bit 64 b) :: 64 word) (n - 64)" using e(2) by simp
      moreover have "n - 64 < 64" using n by simp
      ultimately show ?thesis using False by (simp add: bit_ucast_iff bit_drop_bit_eq)
    qed
  qed
qed

definition guid_map :: "(guid \<times> 'v) list \<Rightarrow> bool" where
  "guid_map m \<longleftrightarrow> sorted_wrt GuidLess (map fst m)"

lemma guid_emplace_keys: "set (map fst (guid_emplace k v m)) = insert k (set (map fst m))"
  by (induction k v m rule: guid_emplace.induct) (auto dest: GuidLess_total)

lemma guid_emplace_map:
  assumes "guid_map m"
  shows "guid_map (guid_emplace k v m)"
    "map_of (guid_emplace k v m) = (if k \<in> set (map fst m) then map_of m else (map_of m)(k \<mapsto> v))"
proof -
  have "guid_map (guid_emplace k v m) \<and>
    map_of (guid_emplace k v m) = (if k \<in> set (map fst m) then map_of m else (map_of m)(k \<mapsto> v))"
    using assms
  proof (induction m)
    case (Cons a m)
    obtain k1 v1 where a: "a = (k1, v1)" by fastforce
    have m: "guid_map m" "\<forall>x \<in> set (map fst m). GuidLess k1 x" using Cons.prems by (simp_all add: guid_map_def a)
    note IH = Cons.IH [OF m(1)]
    consider "GuidLess k k1" | "\<not> GuidLess k k1" "GuidLess k1 k" | "k = k1" using GuidLess_total by blast
    then show ?case
    proof cases
      case 1
      then have "\<forall>x \<in> set (map fst (a # m)). GuidLess k x" using m(2) GuidLess_trans by (auto simp: a)
      moreover from this have "k \<notin> set (map fst (a # m))" by (metis GuidLess_irrefl)
      ultimately show ?thesis using 1 Cons.prems by (simp add: guid_map_def a)
    next
      case 2
      have "\<forall>x \<in> set (map fst (guid_emplace k v m)). GuidLess k1 x" unfolding guid_emplace_keys using 2 m(2) by simp
      moreover have "k \<noteq> k1" using 2 by auto
      ultimately show ?thesis using 2 IH by (auto simp: guid_map_def a)
    qed (use Cons.prems in \<open>simp_all add: a\<close>)
  qed (simp add: guid_map_def)
  then show "guid_map (guid_emplace k v m)"
    "map_of (guid_emplace k v m) = (if k \<in> set (map fst m) then map_of m else (map_of m)(k \<mapsto> v))" by blast+
qed

section \<open>Texts and names\<close>

lemma take_bit_of_char [simp]: "take_bit 16 (of_char c :: nat) = of_char c"
proof -
  have "of_char c < (256 :: nat)" by (rule nat_of_char_less_256)
  then have "(of_char c :: nat) < 2 ^ 16" by (rule less_le_trans) simp
  then show ?thesis by (rule take_bit_nat_eq_self)
qed

lemma utf16_inj [simp]: "utf16 s = utf16 t \<longleftrightarrow> s = t"
proof -
  have "(word_of_nat (of_char c) :: 16 word) = word_of_nat (of_char d) \<longleftrightarrow> c = d" for c d :: char
    by (simp add: word_of_nat_eq_iff)
  then show ?thesis unfolding utf16_def by (simp add: inj_map_eq_map inj_def)
qed

lemma utf16_append [simp]: "utf16 (s @ t) = utf16 s @ utf16 t"
  by (simp add: utf16_def)

lemma length_utf16 [simp]: "length (utf16 s) = length s"
  by (simp add: utf16_def)

text \<open>Characters that are no separator, no colon and no dot.\<close>

definition plain :: "char \<Rightarrow> bool" where
  "plain c \<longleftrightarrow> (of_char c :: nat) \<notin> {92, 47, 58, 46}"

lemma plain_wide:
  assumes "list_all plain s" "w \<in> set (utf16 s)"
  shows "\<not> is_slash w" "w \<noteq> 58" "w \<noteq> 46"
proof -
  obtain c where c: "plain c" "w = word_of_nat (of_char c)" using assms by (auto simp: utf16_def list_all_iff)
  have "unat w = of_char c" using c(2) by (simp add: unsigned_of_nat)
  then have "unat w \<noteq> 92" "unat w \<noteq> 47" "unat w \<noteq> 58" "unat w \<noteq> 46" using c(1) by (auto simp: plain_def)
  then show "\<not> is_slash w" "w \<noteq> 58" "w \<noteq> 46" by (auto simp: is_slash_def)
qed

lemma path_stem_plain:
  assumes "list_all plain s" "2 \<le> length s"
  shows "path_stem (utf16 (s @ ''.img'')) = utf16 s"
proof -
  let ?p = "utf16 s @ utf16 ''.img''"
  have img: "utf16 ''.img'' = [46, 105, 109, 103]" by (simp add: utf16_def)
  have ns: "\<not> is_slash w" "w \<noteq> 58" if "w \<in> set ?p" for w
    using that plain_wide [OF assms(1)] by (auto simp: img is_slash_def)
  have "?p ! 0 \<in> set ?p" "?p ! 1 \<in> set ?p" using assms(2) by (intro nth_mem; simp)+
  then have "root_name_length ?p = 0" using ns unfolding root_name_length_def by simp
  moreover have "takeWhile (Not \<circ> is_slash) (rev ?p) = rev ?p" using ns by (subst takeWhile_eq_all_conv) auto
  ultimately have f: "path_filename ?p = ?p" unfolding path_filename_def by (simp only: drop_0 rev_rev_ident)
  have n: "takeWhile (\<lambda>c. c \<noteq> 58) ?p = ?p" using ns by (subst takeWhile_eq_all_conv) auto
  have e: "takeWhile (\<lambda>c. c \<noteq> 46) (rev ?p) = [103, 109, 105]" by (simp add: img)
  have "length ?p = length s + 4" by simp
  then show ?thesis unfolding path_stem_def utf16_append f n Let_def e using assms(2) by (auto simp: img)
qed

lemma hex_padded_plain: "list_all plain (hex_padded w n)"
proof (induction w arbitrary: n)
  case (Suc w)
  have "plain (hex_digit d)" if "d < 16" for d using that unfolding plain_def hex_digit_def by (simp add: of_char_of)
  then show ?case using Suc by simp
qed simp

lemma image_stem: "path_stem (utf16 (''volume-'' @ FormatGuid False g @ ''.img'')) = utf16 (''volume-'' @ FormatGuid False g)"
proof -
  have "list_all plain (''volume-'' @ FormatGuid False g)"
    by (simp add: FormatGuid_def Let_def list_all_append hex_padded_plain upt_conv_Cons) (simp add: plain_def)
  then show ?thesis using path_stem_plain [of "''volume-'' @ FormatGuid False g"] by simp
qed

section \<open>The round trip\<close>

text \<open>
  What the manifest relies on: the runtime parses the form of an identifier that it writes,
  transcoding keeps ASCII text, and the text of the object that was written is read (through UTF-8 and back) as that object.
\<close>

definition manifest_system_ok :: "manifest_system \<Rightarrow> bool" where
  "manifest_system_ok M \<longleftrightarrow>
     (\<forall>g. mn_iid M (to_hstring g) = Inr g) \<and>
     (\<forall>s. list_all (\<lambda>c. (of_char c :: nat) < 128) s \<longrightarrow> mn_wide M s = utf16 s)"

definition reads_back :: "manifest_system \<Rightarrow> json result \<Rightarrow> bool" where
  "reads_back M written \<longleftrightarrow>
     (\<forall>j. written = Inr j \<longrightarrow> mn_parse M (mn_wide M (mn_narrow M (mn_stringify M j))) = Some j)"

definition image_key :: "guid \<Rightarrow> wstring" where
  "image_key g = utf16 (''volume-'' @ FormatGuid False g @ ''.img'')"

lemma image_key_inj [simp]: "image_key g = image_key h \<longleftrightarrow> g = h"
proof
  assume "image_key g = image_key h"
  then have "FormatGuid False g = FormatGuid False h" unfolding image_key_def utf16_inj by simp
  then show "g = h" by (rule FormatGuid_inject)
qed simp

lemma FormatGuid_ascii: "list_all (\<lambda>c. (of_char c :: nat) < 128) (FormatGuid braces g)"
proof -
  have d: "(of_char (hex_digit d) :: nat) < 128" if "d < 16" for d using that by (simp add: hex_digit_def of_char_of)
  have "list_all (\<lambda>c. (of_char c :: nat) < 128) (hex_padded w n)" for w n by (induction w arbitrary: n) (simp_all add: d)
  then show ?thesis by (simp add: FormatGuid_def Let_def upt_conv_Cons)
qed

lemma wide_image_key:
  assumes "manifest_system_ok M"
  shows "mn_wide M (''volume-'' @ FormatGuid False g @ ''.img'') = image_key g"
  using assms FormatGuid_ascii [of False g] unfolding manifest_system_ok_def image_key_def by simp

text \<open>The snapshots of volumes, in the order of the set.\<close>

definition of_volumes :: "guid list \<Rightarrow> Snapshot list \<Rightarrow> bool" where
  "of_volumes vols snapshots \<longleftrightarrow> map sn_original_volume snapshots = map volume_name vols \<and> distinct vols"

definition volumes_json :: "manifest_system \<Rightarrow> (guid \<Rightarrow> volume_facts) \<Rightarrow> guid list \<Rightarrow> Snapshot list \<Rightarrow> (wstring \<times> json) list" where
  "volumes_json M facts vols snapshots =
     map2 (\<lambda>g s. (image_key g, JObject (volume_json M (facts (sn_identifier s)) s))) vols snapshots"

lemma volumes_json_fst: "length vols = length snapshots \<Longrightarrow> map fst (volumes_json M facts vols snapshots) = map image_key vols"
  unfolding volumes_json_def by (induction vols snapshots rule: list_induct2) simp_all

lemma serialize_volumes:
  assumes M: "manifest_system_ok M" and "map sn_original_volume snapshots = map volume_name vols" "distinct vols"
    and "fst ` set acc \<inter> image_key ` set vols = {}"
  shows "efold (add_snapshot_json M facts) acc snapshots = Inr (acc @ volumes_json M facts vols snapshots)"
  using assms(2-4)
proof (induction snapshots arbitrary: vols acc)
  case (Cons s snapshots)
  obtain g vols' where v: "vols = g # vols'" using Cons.prems(1) by (cases vols) auto
  have o: "sn_original_volume s = volume_name g" using Cons.prems(1) v by simp
  let ?e = "(image_key g, JObject (volume_json M (facts (sn_identifier s)) s))"
  have step: "add_snapshot_json M facts acc s = Inr (acc @ [?e])"
    using Cons.prems(3) wide_image_key [OF M, of g] v by (auto simp: add_snapshot_json_def o image_name SetNamedValue_def)
  have "efold (add_snapshot_json M facts) (acc @ [?e]) snapshots = Inr ((acc @ [?e]) @ volumes_json M facts vols' snapshots)"
    using Cons.prems v by (intro Cons.IH) auto
  then show ?case using step v by (simp add: volumes_json_def)
qed (simp add: volumes_json_def)

lemma volume_json_id:
  "map_of (volume_json M f s) (utf16 ''snapshot-id'') = Some (JString (to_hstring (sn_identifier s)))"
  by (cases "vf_file_system f") (simp_all add: volume_json_def SetNamedValue_def Let_def)

lemma read_entry:
  assumes M: "manifest_system_ok M"
  shows "add_volume M volumes (image_key g, JObject (volume_json M f s)) = Inr (guid_emplace g (sn_identifier s) volumes)"
proof -
  have st: "path_stem (image_key g) = utf16 (''volume-'' @ FormatGuid False g)" unfolding image_key_def by (rule image_stem)
  have d: "drop 7 (utf16 (''volume-'' @ FormatGuid False g)) = utf16 (FormatGuid False g)" by (simp add: utf16_def)
  have "utf16 ''{'' @ utf16 (FormatGuid False g) @ utf16 ''}'' = to_hstring g"
    unfolding to_hstring_def utf16_append [symmetric] utf16_inj by (simp add: FormatGuid_def Let_def)
  then have i: "parse_identifier M (utf16 ''{'' @ utf16 (FormatGuid False g) @ utf16 ''}'') e = Inr g"
    "parse_identifier M (to_hstring (sn_identifier s)) e = Inr (sn_identifier s)" for e
    using M by (simp_all add: parse_identifier_def manifest_system_ok_def)
  show ?thesis
    unfolding add_volume_def required_value_def fst_conv snd_conv st object_of.simps volume_json_id Let_def d
    by (simp add: i)
qed

lemma read_volumes:
  assumes M: "manifest_system_ok M" and "length vols = length snapshots" "distinct vols" "guid_map acc" "set (map fst acc) \<inter> set vols = {}"
  shows "\<exists>m. efold (add_volume M) acc (volumes_json M facts vols snapshots) = Inr m \<and> guid_map m \<and>
    map_of m = map_of acc ++ map_of (zip vols (map sn_identifier snapshots))"
  using assms(2-5)
proof (induction vols snapshots arbitrary: acc rule: list_induct2)
  case (Cons g vols s snapshots)
  note e = guid_emplace_map [OF Cons.prems(2), of g "sn_identifier s"]
  have "set (map fst (guid_emplace g (sn_identifier s) acc)) \<inter> set vols = {}"
    unfolding guid_emplace_keys using Cons.prems(1,3) by auto
  from Cons.IH [OF _ e(1) this] Cons.prems(1) obtain m where
    m: "efold (add_volume M) (guid_emplace g (sn_identifier s) acc) (volumes_json M facts vols snapshots) = Inr m" "guid_map m"
      "map_of m = map_of (guid_emplace g (sn_identifier s) acc) ++ map_of (zip vols (map sn_identifier snapshots))" by auto
  have g: "g \<notin> set (map fst acc)" "g \<notin> set vols" using Cons.prems(1,3) by auto
  have "map_of (zip vols (map sn_identifier snapshots)) g = None"
    using g(2) Cons.hyps by (simp add: map_of_zip_is_None)
  then have "map_of m = map_of acc ++ map_of (zip (g # vols) (map sn_identifier (s # snapshots)))"
    using m(3) e(2) g(1) by (auto simp: map_add_def fun_eq_iff split: option.splits)
  moreover have "efold (add_volume M) acc (volumes_json M facts (g # vols) (s # snapshots)) = Inr m"
    using m(1) by (simp add: volumes_json_def read_entry [OF M])
  ultimately show ?case using m(2) by blast
qed (simp add: volumes_json_def)

lemma manifest_round_trip_lemma:
  assumes M: "manifest_system_ok M" and v: "of_volumes vols snapshots"
    and readable: "reads_back M (manifest_object M facts product_version identifier snapshots layer)"
  shows "\<exists>text1 m. SerializeSnapshotManifest M facts product_version identifier snapshots layer = Inr text1 \<and>
    ParseSnapshotManifest M text1 = Inr \<lparr>ma_snapshot_set_identifier = identifier, ma_volumes = m, ma_backup_time = None\<rparr> \<and>
    guid_map m \<and> map_of m = map_of (zip vols (map sn_identifier snapshots))"
proof -
  have v1: "map sn_original_volume snapshots = map volume_name vols" "distinct vols" using v by (simp_all add: of_volumes_def)
  have len: "length vols = length snapshots" using map_eq_imp_length_eq [OF v1(1)] by simp
  let ?v = "volumes_json M facts vols snapshots"
  have ser: "efold (add_snapshot_json M facts) [] snapshots = Inr ?v" using serialize_volumes [OF M v1, of "[]"] by simp
  obtain m where m: "efold (add_volume M) [] ?v = Inr m" "guid_map m" "map_of m = map_of (zip vols (map sn_identifier snapshots))"
    using read_volumes [OF M len v1(2), of "[]"] by (auto simp: guid_map_def)
  obtain notes1 where written: "manifest_object M facts product_version identifier snapshots layer =
      Inr (JObject ([(utf16 ''version'', JNumber 1), (utf16 ''snapshot-set'', JString (to_hstring identifier)),
        (utf16 ''volumes'', JObject ?v)] @ notes1))" "notes1 = [] \<or> (\<exists>n. notes1 = [(utf16 ''notes'', n)])"
  proof -
    let ?n = "let n1 = (case product_version of Some version \<Rightarrow> SetNamedValue (utf16 ''devicefs-supervisor-version'') (JString version) [] | None \<Rightarrow> [])
      in if layer \<noteq> '''' then SetNamedValue (utf16 ''wsl-oci'') (JString (mn_wide M layer)) n1 else n1"
    show thesis
    proof (rule that [of "if ?n = [] then [] else [(utf16 ''notes'', JObject ?n)]"])
      show "manifest_object M facts product_version identifier snapshots layer =
        Inr (JObject ([(utf16 ''version'', JNumber 1), (utf16 ''snapshot-set'', JString (to_hstring identifier)),
          (utf16 ''volumes'', JObject ?v)] @ (if ?n = [] then [] else [(utf16 ''notes'', JObject ?n)])))"
        unfolding manifest_object_def ser by (simp add: SetNamedValue_def Let_def)
    qed simp
  qed
  let ?j = "JObject ([(utf16 ''version'', JNumber 1), (utf16 ''snapshot-set'', JString (to_hstring identifier)),
      (utf16 ''volumes'', JObject ?v)] @ notes1)"
  have text1: "SerializeSnapshotManifest M facts product_version identifier snapshots layer = Inr (mn_narrow M (mn_stringify M ?j))"
    unfolding SerializeSnapshotManifest_def written(1) by simp
  have id: "parse_identifier M (to_hstring identifier) e = Inr identifier" for e
    using M by (simp add: parse_identifier_def manifest_system_ok_def)
  have parse: "mn_parse M (mn_wide M (mn_narrow M (mn_stringify M ?j))) = Some ?j"
    using readable written(1) by (simp only: reads_back_def)
  have "ParseSnapshotManifest M (mn_narrow M (mn_stringify M ?j)) =
    Inr \<lparr>ma_snapshot_set_identifier = identifier, ma_volumes = m, ma_backup_time = None\<rparr>"
    unfolding ParseSnapshotManifest_def parse using written(2) m(1)
    by (auto simp: required_value_def parse_backup_time_def id)
  then show ?thesis using text1 m(2,3) by blast
qed

section \<open>What the query finds\<close>

lemma query_volumes_spec:
  assumes "guid_map acc" "distinct (map fst xs)" "length ps = length xs" "set (map fst acc) \<inter> set (map fst xs) = {}"
    and "\<forall>p. Some p \<in> set ps \<longrightarrow> (\<exists>r. ParseVolumeGuid iid (sp_original_volume p) = Inr r)"
  shows "\<exists>m. efold (query_volume iid s) acc (zip xs ps) = Inr m \<and> guid_map m \<and>
    (\<forall>v sv. map_of m v = Some sv \<longleftrightarrow> map_of acc v = Some sv \<or>
      (\<exists>i < length xs. fst (xs ! i) = v \<and> (\<exists>p. ps ! i = Some p \<and> sp_snapshot_set_identifier p = s \<and>
         ParseVolumeGuid iid (sp_original_volume p) = Inr (Inr v) \<and> sv = \<lparr>sv_snapshot_identifier = snd (xs ! i), sv_device = sp_device p\<rparr>)))"
  using assms
proof (induction xs arbitrary: acc ps)
  case (Cons x xs)
  obtain q qs where ps: "ps = q # qs" using Cons.prems(3) by (cases ps) auto
  obtain g i where x: "x = (g, i)" by fastforce
  define fits where "fits p \<longleftrightarrow> sp_snapshot_set_identifier p = s \<and> ParseVolumeGuid iid (sp_original_volume p) = Inr (Inr g)" for p :: SnapshotProperties
  define acc' where "acc' = (case q of Some p \<Rightarrow> if fits p then guid_emplace g \<lparr>sv_snapshot_identifier = i, sv_device = sp_device p\<rparr> acc else acc
    | None \<Rightarrow> acc)"
  have ok: "\<exists>r. ParseVolumeGuid iid (sp_original_volume p) = Inr r" if "q = Some p" for p using Cons.prems(5) that ps by auto
  have step: "query_volume iid s acc (x, q) = Inr acc'"
    using ok by (auto simp: query_volume_def x acc'_def fits_def split: option.splits)
  have g: "g \<notin> set (map fst acc)" using Cons.prems(4) x by auto
  have a1: "guid_map acc'" using guid_emplace_map(1) [OF Cons.prems(1)] Cons.prems(1) by (auto simp: acc'_def split: option.splits)
  have a2: "map_of acc' v = Some sv \<longleftrightarrow> map_of acc v = Some sv \<or>
      (v = g \<and> (\<exists>p. q = Some p \<and> fits p \<and> sv = \<lparr>sv_snapshot_identifier = i, sv_device = sp_device p\<rparr>))" for v sv
  proof -
    have "map_of acc g = None" using g by (simp add: map_of_eq_None_iff)
    then show ?thesis using guid_emplace_map(2) [OF Cons.prems(1)] g by (auto simp: acc'_def split: option.splits)
  qed
  have "set (map fst acc') \<subseteq> insert g (set (map fst acc))"
    unfolding acc'_def by (cases q) (simp_all add: guid_emplace_keys subset_insertI del: set_map split: if_split)
  moreover have "g \<notin> set (map fst xs)" "set (map fst acc) \<inter> set (map fst xs) = {}" using Cons.prems(2,4) x by auto
  ultimately have a3: "set (map fst acc') \<inter> set (map fst xs) = {}" by blast
  have "distinct (map fst xs)" "length qs = length xs" "\<forall>p. Some p \<in> set qs \<longrightarrow> (\<exists>r. ParseVolumeGuid iid (sp_original_volume p) = Inr r)"
    using Cons.prems(2,3,5) ps by auto
  from Cons.IH [OF a1 this(1,2) a3 this(3)] obtain m where m: "efold (query_volume iid s) acc' (zip xs qs) = Inr m" "guid_map m"
    "\<forall>v sv. map_of m v = Some sv \<longleftrightarrow> map_of acc' v = Some sv \<or>
      (\<exists>i < length xs. fst (xs ! i) = v \<and> (\<exists>p. qs ! i = Some p \<and> sp_snapshot_set_identifier p = s \<and>
         ParseVolumeGuid iid (sp_original_volume p) = Inr (Inr v) \<and> sv = \<lparr>sv_snapshot_identifier = snd (xs ! i), sv_device = sp_device p\<rparr>))" by blast
  have "map_of m v = Some sv \<longleftrightarrow> map_of acc v = Some sv \<or>
      (\<exists>j < length (x # xs). fst ((x # xs) ! j) = v \<and> (\<exists>p. ps ! j = Some p \<and> sp_snapshot_set_identifier p = s \<and>
         ParseVolumeGuid iid (sp_original_volume p) = Inr (Inr v) \<and> sv = \<lparr>sv_snapshot_identifier = snd ((x # xs) ! j), sv_device = sp_device p\<rparr>))"
    for v sv unfolding m(3) [rule_format] a2 ps x fits_def length_Cons Ex_less_Suc2 by auto
  then show ?case using step m(1,2) by (auto simp: ps)
qed simp

lemma option_map_eqI: "(\<And>v s. f v = Some s \<longleftrightarrow> g v = Some s) \<Longrightarrow> f = g"
  by (intro ext) (metis not_None_eq)

lemma guid_map_distinct: "guid_map m \<Longrightarrow> distinct (map fst m)"
proof -
  assume "guid_map m"
  then have s: "sorted_wrt GuidLess (map fst m)" by (simp add: guid_map_def)
  have "map fst m ! i \<noteq> map fst m ! j" if "i < j" "j < length (map fst m)" for i j
    using sorted_wrt_nth_less [OF s that] by (metis GuidLess_irrefl)
  then show ?thesis unfolding distinct_conv_nth by (metis linorder_neqE_nat)
qed

text \<open>The query is exact: a volume is found if and only if its snapshot still exists, in the same set and of the same volume.\<close>

lemma QuerySnapshotVolumes_spec:
  assumes "guid_map (ma_volumes manifest)" "\<And>ids. query ids = map q ids"
    and "\<forall>i p. q i = Some p \<longrightarrow> (\<exists>r. ParseVolumeGuid iid (sp_original_volume p) = Inr r)"
  shows "\<exists>found. QuerySnapshotVolumes iid query manifest = Inr found \<and> guid_map found \<and>
    (\<forall>v sv. map_of found v = Some sv \<longleftrightarrow> (\<exists>i p. map_of (ma_volumes manifest) v = Some i \<and> q i = Some p \<and>
       sp_snapshot_set_identifier p = ma_snapshot_set_identifier manifest \<and>
       ParseVolumeGuid iid (sp_original_volume p) = Inr (Inr v) \<and> sv = \<lparr>sv_snapshot_identifier = i, sv_device = sp_device p\<rparr>))"
proof -
  let ?xs = "ma_volumes manifest"
  let ?ps = "map q (map snd ?xs)"
  have d: "distinct (map fst ?xs)" by (rule guid_map_distinct [OF assms(1)])
  have ok: "\<forall>p. Some p \<in> set ?ps \<longrightarrow> (\<exists>r. ParseVolumeGuid iid (sp_original_volume p) = Inr r)" using assms(3) by (auto dest: sym)
  have nil: "guid_map ([] :: (guid \<times> SnapshotVolume) list)" "length ?ps = length ?xs"
    "set (map fst ([] :: (guid \<times> SnapshotVolume) list)) \<inter> set (map fst ?xs) = {}" by (simp_all add: guid_map_def)
  from query_volumes_spec [OF nil(1) d nil(2,3) ok, where s = "ma_snapshot_set_identifier manifest"] obtain found where
    f: "efold (query_volume iid (ma_snapshot_set_identifier manifest)) [] (zip ?xs ?ps) = Inr found" "guid_map found"
      "\<forall>v sv. map_of found v = Some sv \<longleftrightarrow> (\<exists>j < length ?xs. fst (?xs ! j) = v \<and> (\<exists>p. ?ps ! j = Some p \<and>
         sp_snapshot_set_identifier p = ma_snapshot_set_identifier manifest \<and> ParseVolumeGuid iid (sp_original_volume p) = Inr (Inr v) \<and>
         sv = \<lparr>sv_snapshot_identifier = snd (?xs ! j), sv_device = sp_device p\<rparr>))"
    by (simp only: map_of.simps option.distinct simp_thms) (elim exE conjE)
  have at: "map_of ?xs v = Some i \<longleftrightarrow> (\<exists>j < length ?xs. fst (?xs ! j) = v \<and> snd (?xs ! j) = i)" for v i
    using map_of_eq_Some_iff [OF d, of v i] by (metis in_set_conv_nth prod.collapse fst_conv snd_conv)
  have "map_of found v = Some sv \<longleftrightarrow> (\<exists>i p. map_of ?xs v = Some i \<and> q i = Some p \<and>
       sp_snapshot_set_identifier p = ma_snapshot_set_identifier manifest \<and>
       ParseVolumeGuid iid (sp_original_volume p) = Inr (Inr v) \<and> sv = \<lparr>sv_snapshot_identifier = i, sv_device = sp_device p\<rparr>)" for v sv
    unfolding f(3) [rule_format] at by auto
  then show ?thesis using f(1,2) by (auto simp: QuerySnapshotVolumes_def assms(2))
qed

text \<open>If the snapshots of a backup still exist, the next run finds exactly them.\<close>

lemma backup_is_found:
  assumes M: "manifest_system_ok M" and v: "of_volumes vols snapshots"
    and readable: "reads_back M (manifest_object M facts product_version identifier snapshots layer)" and iid: "\<And>g. iid (FormatGuid True g) = Inr g"
    and q: "\<And>ids. query ids = map q ids" "\<forall>i p. q i = Some p \<longrightarrow> (\<exists>r. ParseVolumeGuid iid (sp_original_volume p) = Inr r)"
      "\<And>s. s \<in> set snapshots \<Longrightarrow> q (sn_identifier s) =
        Some \<lparr>sp_snapshot_set_identifier = identifier, sp_original_volume = sn_original_volume s, sp_device = sn_device s\<rparr>"
  shows "\<exists>text1 manifest found. SerializeSnapshotManifest M facts product_version identifier snapshots layer = Inr text1 \<and>
    ParseSnapshotManifest M text1 = Inr manifest \<and> QuerySnapshotVolumes iid query manifest = Inr found \<and>
    map_of found = map_of (zip vols (map (\<lambda>s. \<lparr>sv_snapshot_identifier = sn_identifier s, sv_device = sn_device s\<rparr>) snapshots))"
proof -
  obtain text1 m where m: "SerializeSnapshotManifest M facts product_version identifier snapshots layer = Inr text1"
    "ParseSnapshotManifest M text1 = Inr \<lparr>ma_snapshot_set_identifier = identifier, ma_volumes = m, ma_backup_time = None\<rparr>"
    "guid_map m" "map_of m = map_of (zip vols (map sn_identifier snapshots))"
    using manifest_round_trip_lemma [OF M v readable] by blast
  let ?M = "\<lparr>ma_snapshot_set_identifier = identifier, ma_volumes = m, ma_backup_time = None\<rparr>"
  have v1: "map sn_original_volume snapshots = map volume_name vols" "distinct vols" using v by (simp_all add: of_volumes_def)
  have len: "length vols = length snapshots" using map_eq_imp_length_eq [OF v1(1)] by simp
  obtain found where f: "QuerySnapshotVolumes iid query ?M = Inr found"
    "\<forall>v sv. map_of found v = Some sv \<longleftrightarrow> (\<exists>i p. map_of m v = Some i \<and> q i = Some p \<and> sp_snapshot_set_identifier p = identifier \<and>
       ParseVolumeGuid iid (sp_original_volume p) = Inr (Inr v) \<and> sv = \<lparr>sv_snapshot_identifier = i, sv_device = sp_device p\<rparr>)"
    using QuerySnapshotVolumes_spec [where manifest = ?M and query = query, OF _ q(1,2)] m(3) by (auto simp: q(1))
  have at: "map_of (zip vols (map f snapshots)) v = Some y \<longleftrightarrow> (\<exists>j < length snapshots. vols ! j = v \<and> f (snapshots ! j) = y)" for f :: "Snapshot \<Rightarrow> 'y" and v y
    using v1(2) len by (subst map_of_eq_Some_iff) (auto simp: set_zip)
  have name: "ParseVolumeGuid iid (sn_original_volume (snapshots ! j)) = Inr (Inr (vols ! j))" if "j < length snapshots" for j
  proof -
    have "sn_original_volume (snapshots ! j) = volume_name (vols ! j)" using v1(1) that len by (metis nth_map)
    then show ?thesis by (simp add: parse_volume iid)
  qed
  have "map_of found v = Some sv \<longleftrightarrow>
      map_of (zip vols (map (\<lambda>s. \<lparr>sv_snapshot_identifier = sn_identifier s, sv_device = sn_device s\<rparr>) snapshots)) v = Some sv" for v sv
    unfolding f(2) [rule_format] m(4) at
  proof
    assume "\<exists>i p. (\<exists>j < length snapshots. vols ! j = v \<and> sn_identifier (snapshots ! j) = i) \<and> q i = Some p \<and> sp_snapshot_set_identifier p = identifier \<and>
       ParseVolumeGuid iid (sp_original_volume p) = Inr (Inr v) \<and> sv = \<lparr>sv_snapshot_identifier = i, sv_device = sp_device p\<rparr>"
    then obtain j p where j: "j < length snapshots" "vols ! j = v" "q (sn_identifier (snapshots ! j)) = Some p"
      "sv = \<lparr>sv_snapshot_identifier = sn_identifier (snapshots ! j), sv_device = sp_device p\<rparr>" by blast
    then have "sp_device p = sn_device (snapshots ! j)" using q(3) [of "snapshots ! j"] by auto
    then show "\<exists>j < length snapshots. vols ! j = v \<and> \<lparr>sv_snapshot_identifier = sn_identifier (snapshots ! j), sv_device = sn_device (snapshots ! j)\<rparr> = sv"
      using j by auto
  next
    assume "\<exists>j < length snapshots. vols ! j = v \<and> \<lparr>sv_snapshot_identifier = sn_identifier (snapshots ! j), sv_device = sn_device (snapshots ! j)\<rparr> = sv"
    then obtain j where j: "j < length snapshots" "vols ! j = v"
      "sv = \<lparr>sv_snapshot_identifier = sn_identifier (snapshots ! j), sv_device = sn_device (snapshots ! j)\<rparr>" by blast
    let ?s = "snapshots ! j"
    let ?p = "\<lparr>sp_snapshot_set_identifier = identifier, sp_original_volume = sn_original_volume ?s, sp_device = sn_device ?s\<rparr>"
    have p: "q (sn_identifier ?s) = Some ?p" using q(3) [OF nth_mem [OF j(1)]] .
    have n: "ParseVolumeGuid iid (sp_original_volume ?p) = Inr (Inr v)" using name [OF j(1)] j(2) by simp
    have e: "sp_snapshot_set_identifier ?p = identifier" "sv = \<lparr>sv_snapshot_identifier = sn_identifier ?s, sv_device = sp_device ?p\<rparr>"
      using j(3) by simp_all
    show "\<exists>i p. (\<exists>j < length snapshots. vols ! j = v \<and> sn_identifier (snapshots ! j) = i) \<and> q i = Some p \<and> sp_snapshot_set_identifier p = identifier \<and>
       ParseVolumeGuid iid (sp_original_volume p) = Inr (Inr v) \<and> sv = \<lparr>sv_snapshot_identifier = i, sv_device = sp_device p\<rparr>"
      by (intro exI [of _ "sn_identifier ?s"] exI [of _ ?p] conjI exI [of _ j] j(1,2) p e n refl)
  qed
  then have "map_of found = map_of (zip vols (map (\<lambda>s. \<lparr>sv_snapshot_identifier = sn_identifier s, sv_device = sn_device s\<rparr>) snapshots))"
    by (rule option_map_eqI)
  then show ?thesis using m(1,2) f(1) by blast
qed

end
