(* ===== verification/IncrementalDiagnostics.thy ===== *)
theory IncrementalDiagnostics
  imports MapReports Manifest
begin

text \<open>
  The incremental diagnostics
  (\<open>supervisor/native_backup/incremental_diagnostics.cpp\<close>, lines 79 to 565, 1571 to 1735): pairing the
  retained snapshots with the new ones, building and reporting the dirty maps, exposing
  the synthetic and the real backup views, and the exit code of the whole run.

  The results show that every interval pairs a retained with a new snapshot of the same volume, that a report
  is made for every interval unless the run is cancelled, and what an exit code of 0 guarantees.
\<close>

section \<open>Baselines and intervals\<close>

record AvailableBaseline =
  ab_volume_identifier :: guid
  ab_snapshot_identifier :: guid
  ab_volume :: string
  ab_device :: string

definition VolumeName :: "guid \<Rightarrow> string" where
  "VolumeName identifier =
     [CHR 0x5C, CHR 0x5C, CHR ''?'', CHR 0x5C] @ ''Volume'' @ FormatGuid True identifier @ [CHR 0x5C]"

definition CollectAvailableBaselines :: "(guid \<times> SnapshotVolume) list \<Rightarrow> AvailableBaseline list" where
  "CollectAvailableBaselines snapshot_volumes =
     map (\<lambda>(volume_identifier, snapshot).
       \<lparr>ab_volume_identifier = volume_identifier, ab_snapshot_identifier = sv_snapshot_identifier snapshot,
        ab_volume = VolumeName volume_identifier, ab_device = sv_device snapshot\<rparr>) snapshot_volumes"

text \<open>\<open>hresult\<close> is the error that \<open>WinError\<close> throws for a code.\<close>

definition QueryBaselineSnapshot ::
    "(string \<Rightarrow> int + guid) \<Rightarrow> (int \<Rightarrow> error) \<Rightarrow> SnapshotProperties option \<Rightarrow> guid \<Rightarrow> message list \<times> AvailableBaseline list result" where
  "QueryBaselineSnapshot iid hresult snapshot snapshot_identifier =
     ([Msg ''Retrieving the volume and device path of baseline snapshot A.'' []],
      case snapshot of
        None \<Rightarrow> Inr []
      | Some p \<Rightarrow>
          ebind (ParseVolumeGuid iid (sp_original_volume p)) (\<lambda>identifier.
            case identifier of
              Inl code \<Rightarrow> Inl (hresult code)
            | Inr g \<Rightarrow> Inr [\<lparr>ab_volume_identifier = g, ab_snapshot_identifier = snapshot_identifier,
                             ab_volume = sp_original_volume p, ab_device = sp_device p\<rparr>]))"

definition SelectPayloadVolumes :: "AvailableBaseline list \<Rightarrow> string list \<Rightarrow> string list" where
  "SelectPayloadVolumes baselines volume_override =
     (if volume_override \<noteq> [] then volume_override else map ab_volume baselines)"

definition lowercase :: "char \<Rightarrow> nat" where
  "lowercase c = (let v = of_char c in if 65 \<le> v \<and> v \<le> 90 then v + 32 else v)"

definition SameVolume :: "string \<Rightarrow> string \<Rightarrow> bool" where
  "SameVolume left right \<longleftrightarrow> map lowercase left = map lowercase right"

definition interval_of :: "AvailableBaseline \<Rightarrow> Snapshot \<Rightarrow> SnapshotInterval" where
  "interval_of baseline current =
     \<lparr>si_volume_identifier = ab_volume_identifier baseline,
      si_baseline_snapshot_identifier = ab_snapshot_identifier baseline,
      si_payload_snapshot_identifier = sn_identifier current,
      si_volume = sn_original_volume current,
      si_baseline_device = ab_device baseline,
      si_payload_device = sn_device current\<rparr>"

fun AssociateSnapshotIntervals :: "AvailableBaseline list \<Rightarrow> Snapshot list \<Rightarrow> SnapshotInterval list" where
  "AssociateSnapshotIntervals baselines [] = []"
| "AssociateSnapshotIntervals baselines (current # snapshots) =
     (case List.find (\<lambda>candidate. SameVolume (ab_volume candidate) (sn_original_volume current)) baselines of
        None \<Rightarrow> AssociateSnapshotIntervals baselines snapshots
      | Some baseline \<Rightarrow> interval_of baseline current # AssociateSnapshotIntervals baselines snapshots)"

definition PrintUnavailableSnapshots :: "nat \<Rightarrow> message list" where
  "PrintUnavailableSnapshots n =
     (if n = 0 then [] else [Msg ''{} selected volume(s) had no retained snapshot and were skipped.'' [N n]])"

section \<open>Statistics\<close>

definition VolumeBlockCount :: "nat \<Rightarrow> nat" where
  "VolumeBlockCount volume_size = volume_size div vss_kBlockSize + (if volume_size mod vss_kBlockSize \<noteq> 0 then 1 else 0)"

definition statistics_lines :: "VolumeReport \<Rightarrow> message list" where
  "statistics_lines report =
     Msg ''Volume ID: {}'' [Guid (si_volume_identifier (vp_interval report))] #
     (case vp_map report of
        Inl err \<Rightarrow> [Msg ''Dirty map unavailable: {}'' [Str err]]
      | Inr m \<Rightarrow>
          let volume_blocks = VolumeBlockCount (dm_volume_size m);
              candidate_blocks = bm_size (dm_block_offsets m)
          in [Msg ''Volume size: {} bytes Potentially dirty: {} of {} 16-KiB blocks ({:.2f}%) Descriptor evidence: {} unique block(s) from {} descriptor(s) in {} list block(s) across {} store(s) Allocation changes: {} unique block(s) System Volume Information extents: {} unique block(s)''
               [N (dm_volume_size m), N candidate_blocks, N volume_blocks,
                Fixed (real candidate_blocks * 100 / real volume_blocks),
                N (dm_descriptor_block_count m), N (dm_descriptor_count m), N (dm_descriptor_list_block_count m),
                N (dm_descriptor_store_count m), N (dm_allocation_block_count m), N (dm_svi_block_count m)]])"

definition available_maps :: "VolumeReport list \<Rightarrow> DirtyBlockMap list" where
  "available_maps reports = concat (map (\<lambda>report. case vp_map report of Inl _ \<Rightarrow> [] | Inr m \<Rightarrow> [m]) reports)"

definition PrintStatistics :: "VolumeReport list \<Rightarrow> message list" where
  "PrintStatistics reports =
     (let maps = available_maps reports;
          mapped = length maps;
          candidate_total = total64 (bm_size \<circ> dm_block_offsets) maps;
          volume_block_total = total64 (VolumeBlockCount \<circ> dm_volume_size) maps;
          unavailable = length reports - mapped;
          percentage = (if volume_block_total = 0 then 0 else real candidate_total * 100 / real volume_block_total)
      in Msg ''Incremental dirty-block statistics:'' [] # concat (map statistics_lines reports) @
         [Msg ''Summary: {} volume(s) mapped, {} unavailable; {} of {} 16-KiB blocks potentially dirty ({:.2f}%).''
            [N mapped, N unavailable, N candidate_total, N volume_block_total, Fixed percentage]])"

section \<open>Building the maps\<close>

text \<open>A private nonzero result: the snapshots that were created are deleted after the callback.\<close>

definition kTemporarySnapshotsComplete :: int where "kTemporarySnapshotsComplete = 1"

definition interval_lines :: "SnapshotInterval \<Rightarrow> message" where
  "interval_lines i = Msg ''Volume: Snapshot A: {} Device: {} Snapshot B: {} Device: {}''
     [Str (si_volume i), Guid (si_baseline_snapshot_identifier i), Str (si_baseline_device i),
      Guid (si_payload_snapshot_identifier i), Str (si_payload_device i)]"

text \<open>
  The callback of the run that creates the successor snapshots; \<open>build\<close> is \<open>BuildDirtyBlockMap\<close> for an interval.
\<close>

fun report_intervals ::
    "(SnapshotInterval \<Rightarrow> DirtyBlockMap result) \<Rightarrow> SnapshotInterval list \<Rightarrow> cancellation \<Rightarrow> message list \<times> (int \<times> VolumeReport list \<times> cancellation) result" where
  "report_intervals build [] cancel = ([], Inr (kTemporarySnapshotsComplete, [], cancel))"
| "report_intervals build (interval # intervals) cancel =
     (case event_is_signaled cancel of (signaled, cancel1) \<Rightarrow>
        if signaled then ([], Inr (kCancelledExitCode, [], cancel1))
        else
          (case build interval of
             Inl e \<Rightarrow>
               if \<not> is_runtime_error e then ([interval_lines interval], Inl e)
               else
                 (case report_intervals build intervals cancel1 of
                    (msgs, r) \<Rightarrow> (interval_lines interval # msgs,
                      ebind r (\<lambda>(exit_code, reports, cancel2).
                        Inr (exit_code, \<lparr>vp_interval = interval, vp_map = Inl (error_what e)\<rparr> # reports, cancel2))))
           | Inr m \<Rightarrow>
               (case report_intervals build intervals cancel1 of
                  (msgs, r) \<Rightarrow> (interval_lines interval # msgs,
                    ebind r (\<lambda>(exit_code, reports, cancel2).
                      Inr (exit_code, \<lparr>vp_interval = interval, vp_map = Inr m\<rparr> # reports, cancel2))))))"

record DirtyBlockReportResult =
  dr_exit_code :: int
  dr_reports :: "VolumeReport list"

text \<open>\<open>create_error\<close> is the failure of creating the successor snapshots, before the callback.\<close>

definition BuildDirtyBlockReports ::
    "error option \<Rightarrow> (SnapshotInterval \<Rightarrow> DirtyBlockMap result) \<Rightarrow> SnapshotInterval list \<Rightarrow> cancellation \<Rightarrow>
     message list \<times> (DirtyBlockReportResult \<times> cancellation) result" where
  "BuildDirtyBlockReports create_error build intervals cancel =
     (let msg = Msg ''Creating temporary successor snapshots so snapshot B's block descriptors can be read.'' []
      in case create_error of
           Some e \<Rightarrow> ([msg], Inl e)
         | None \<Rightarrow>
             (case report_intervals build intervals cancel of
                (msgs, r) \<Rightarrow> (msg # msgs,
                  ebind r (\<lambda>(exit_code, reports, cancel1). Inr (\<lparr>dr_exit_code = exit_code, dr_reports = reports\<rparr>, cancel1)))))"

section \<open>The backup views\<close>

datatype BackupViewPreparation = Ready | OptimizationUnavailable | ViewFailed

text \<open>
  \<open>bv_alignment\<close> is the static \<open>read_buffer_alignment\<close>; a device is kept under its RPC symbol.
\<close>

record backup_views =
  bv_devices :: "(string \<times> SyntheticBackupBlockDevice) list"
  bv_alignment :: nat
  bv_synthetic_sources :: "DeviceFsSource list"
  bv_real_sources :: "DeviceFsSource list"
  bv_verification_volumes :: "FilesystemVerificationVolume list"

text \<open>
  The environment of the views: opening a snapshot device, its buffer alignment, the mount
  root, the endpoint, the two processes and the RPC server, and what the waits observe.
\<close>

record view_system =
  vw_nt :: "nat \<Rightarrow> ntstatus"
  vw_alloc :: "nat \<Rightarrow> bool"
  vw_open :: "string \<Rightarrow> nat + volume"
  vw_alignment :: "string \<Rightarrow> nat"
  vw_temporary_path :: string
  vw_is_directory :: "string \<Rightarrow> bool"
  vw_make_directory :: "error option"
  vw_endpoint :: string
  vw_synthetic :: start_replies
  vw_real :: start_replies
  vw_server :: "error option"
  vw_resume :: "nat \<times> error"
  vw_synthetic_wait :: "nat \<times> ready_poll list \<times> cancellation"
  vw_real_wait :: "nat \<times> ready_poll list \<times> cancellation"
  vw_verify_cancel :: cancellation
  vw_exit :: "nat \<times> nat list"
  vw_synthetic_destroy :: "bool \<times> nat option"
  vw_real_destroy :: "bool \<times> nat option"

definition synthetic_device ::
    "view_system \<Rightarrow> SnapshotInterval \<Rightarrow> DirtyBlockMap \<Rightarrow> backup_views \<Rightarrow> nat \<times> SyntheticBackupBlockDevice result" where
  "synthetic_device S interval m views =
     (case ebind (FromFilename (vw_nt S) (vw_alloc S) (vw_open S (si_baseline_device interval))) (\<lambda>baseline.
           ebind (FromFilename (vw_nt S) (vw_alloc S) (vw_open S (si_payload_device interval))) (\<lambda>payload.
             Inr (baseline, payload))) of
        Inl e \<Rightarrow> (bv_alignment views, Inl e)
      | Inr (baseline, payload) \<Rightarrow>
          let alignment = max (vw_alignment S (si_baseline_device interval)) (vw_alignment S (si_payload_device interval))
          in (if bv_devices views = [] then alignment else max (bv_alignment views) alignment,
              SyntheticBackupBlockDevice_FromBlockDevices (windows.as_device baseline) (windows.as_device payload)
                (BitmapSet_storage (dm_block_offsets m))))"

definition AddBackupViews ::
    "view_system \<Rightarrow> VolumeReport \<Rightarrow> backup_views \<Rightarrow> message list \<times> (BackupViewPreparation \<times> backup_views) result" where
  "AddBackupViews S report views =
     (let interval = vp_interval report; volume = Guid (si_volume_identifier interval)
      in case vp_map report of
           Inl err \<Rightarrow> ([Msg ''Volume ID: {}'' [volume], Msg ''Not exposed: dirty map unavailable: {}'' [Str err]],
                      Inr (OptimizationUnavailable, views))
         | Inr m \<Rightarrow>
             (case synthetic_device S interval m views of
                (alignment, Inl e) \<Rightarrow>
                  if is_runtime_error e
                  then ([Msg ''Volume ID: {}'' [volume], Msg ''Not exposed: {}'' [What e]],
                        Inr (ViewFailed, views\<lparr>bv_alignment := alignment\<rparr>))
                  else ([], Inl e)
              | (alignment, Inr synthetic) \<Rightarrow>
                  (case VolumeImageName (si_volume interval) ''.vhdx'' of
                     Inl e \<Rightarrow> ([], Inl e)
                   | Inr filename \<Rightarrow>
                       ([Msg ''File: {} Volume ID: {} Snapshot A: {} Device: {} Snapshot B: {} Device: {} RPC symbol: {}''
                           [Str filename, volume, Guid (si_baseline_snapshot_identifier interval), Str (si_baseline_device interval),
                            Guid (si_payload_snapshot_identifier interval), Str (si_payload_device interval), Str filename],
                         Msg ''Dirty map: {} 16-KiB block(s); {} contributing descriptor store(s)''
                           [N (bm_size (dm_block_offsets m)), N (dm_descriptor_store_count m)]],
                        Inr (Ready, views\<lparr>bv_alignment := alignment,
                          bv_synthetic_sources := bv_synthetic_sources views @ [\<lparr>ds_name = filename, ds_source = filename\<rparr>],
                          bv_real_sources := bv_real_sources views @ [\<lparr>ds_name = filename, ds_source = si_payload_device interval\<rparr>],
                          bv_verification_volumes := bv_verification_volumes views @
                            [\<lparr>fv_volume_identifier = si_volume_identifier interval,
                              fv_payload_snapshot_identifier = si_payload_snapshot_identifier interval, fv_filename = filename\<rparr>],
                          bv_devices := bv_devices views @ [(filename, synthetic)]\<rparr>)))))"

text \<open>The loop over the reports, with the counts of unavailable maps and of failures.\<close>

fun prepare_views ::
    "view_system \<Rightarrow> VolumeReport list \<Rightarrow> backup_views \<Rightarrow> nat \<Rightarrow> nat \<Rightarrow> message list \<times> (backup_views \<times> nat \<times> nat) result" where
  "prepare_views S [] views unavailable failures = ([], Inr (views, unavailable, failures))"
| "prepare_views S (report # reports) views unavailable failures =
     (case AddBackupViews S report views of
        (msgs, Inl e) \<Rightarrow> (msgs, Inl e)
      | (msgs, Inr (preparation, views1)) \<Rightarrow>
          (case prepare_views S reports views1
                  (unavailable + (if preparation = OptimizationUnavailable then 1 else 0))
                  (failures + (if preparation = ViewFailed then 1 else 0)) of
             (msgs1, r) \<Rightarrow> (msgs @ msgs1, r)))"

definition no_views :: "nat \<Rightarrow> backup_views" where
  "no_views alignment = \<lparr>bv_devices = [], bv_alignment = alignment, bv_synthetic_sources = [], bv_real_sources = [],
     bv_verification_volumes = []\<rparr>"

definition view_request :: "DeviceFsSource list \<Rightarrow> string \<Rightarrow> string option \<Rightarrow> DeviceFsStartRequest" where
  "view_request sources mount_target endpoint =
     \<lparr>rq_sources = sources, rq_inherited_handles = [], rq_mount_target = mount_target, rq_read_user = None,
      rq_rpc_endpoint = endpoint, rq_rpc_password = None, rq_vhdx = True, rq_expose_known_data_map = False\<rparr>"

text \<open>
  The mounted views: the synthetic process is started suspended, gets its RPC server and is
  resumed, then the real one is started; \<open>None\<close> is a wait that has not ended.  The children are
  destroyed in the opposite order.  \<open>verify\<close> is \<open>VerifyFilesystemViews\<close>, if it is to be run.
\<close>

definition mounted_views ::
    "view_system \<Rightarrow> backup_views \<Rightarrow> string \<Rightarrow> string \<Rightarrow> (message list \<times> int) result option \<Rightarrow> (message list \<times> int result) option" where
  "mounted_views S views synthetic_mount real_mount verify =
     (let verified = (\<lambda>msgs. case verify of
            Some (Inl e) \<Rightarrow> (msgs, Inl e)
          | Some (Inr (msgs1, status)) \<Rightarrow> (msgs @ msgs1, Inr status)
          | None \<Rightarrow> (msgs, Inr 0));
          (msgs1, started1) = StartDeviceFs (vw_synthetic S)
             (view_request (bv_synthetic_sources views) synthetic_mount (Some (vw_endpoint S)))
      in case started1 of
           Inl e \<Rightarrow> Some (msgs1, Inl e)
         | Inr process1 \<Rightarrow>
             (case vw_server S of
                Some e \<Rightarrow> Some (msgs1, Inl e)
              | None \<Rightarrow>
                  (case ResumeDeviceFs (fst (vw_resume S)) (snd (vw_resume S)) of
                     Inl e \<Rightarrow> Some (msgs1, Inl e)
                   | Inr _ \<Rightarrow>
                       let (stop1, _) = DeviceFsChild_destroy (fst (vw_synthetic_destroy S)) (snd (vw_synthetic_destroy S))
                             (DeviceFsChild_new process1 False);
                           (msgs2, started2) = StartDeviceFs (vw_real S) (view_request (bv_real_sources views) real_mount None)
                       in case started2 of
                            Inl e \<Rightarrow> Some (msgs1 @ msgs2 @ stop1, Inl e)
                          | Inr process2 \<Rightarrow>
                              let (stop2, _) = DeviceFsChild_destroy (fst (vw_real_destroy S)) (snd (vw_real_destroy S))
                                    (DeviceFsChild_new process2 False);
                                  finish = (\<lambda>(msgs, r). Some (msgs1 @ msgs2 @ msgs @ stop2 @ stop1, r))
                              in case (case vw_synthetic_wait S of (now, polls, cancel) \<Rightarrow> WaitForDeviceFs now polls cancel) of
                                   None \<Rightarrow> None
                                 | Some (Inl e) \<Rightarrow> finish ([], Inl e)
                                 | Some (Inr False) \<Rightarrow> finish (verified [])
                                 | Some (Inr True) \<Rightarrow>
                                     (case (case vw_real_wait S of (now, polls, cancel) \<Rightarrow> WaitForDeviceFs now polls cancel) of
                                        None \<Rightarrow> None
                                      | Some (Inl e) \<Rightarrow> finish ([], Inl e)
                                      | Some (Inr False) \<Rightarrow> finish (verified [])
                                      | Some (Inr True) \<Rightarrow>
                                          let msg = Msg ''Mounted {} synthetic backup VHDX file(s) at {}. Mounted the corresponding real VHDX files at {}.''
                                                [N (length (bv_synthetic_sources views)), Str synthetic_mount, Str real_mount]
                                          in if verify \<noteq> None then finish (verified [msg])
                                             else (case WaitForDeviceFsExitOrCancellation (fst (vw_exit S)) (snd (vw_exit S)) of
                                                     Some child \<Rightarrow> finish ([msg], Inl (RuntimeError (''the '' @
                                                       [''synthetic'', ''real''] ! de_process_index child @ '' devicefs child exited with code '' @
                                                       decimal (de_exit_code child))))
                                                   | None \<Rightarrow> finish ([msg], Inr 0))))))"

definition RunBackupViewDiagnostics ::
    "view_system \<Rightarrow> (FilesystemVerificationVolume list \<Rightarrow> real \<Rightarrow> nat \<Rightarrow> nat \<Rightarrow> cancellation \<Rightarrow> (message list \<times> int) result) \<Rightarrow> nat \<Rightarrow>
     VolumeReport list \<Rightarrow> string option \<Rightarrow> real option \<Rightarrow> nat \<Rightarrow> (message list \<times> int result) option" where
  "RunBackupViewDiagnostics S VerifyViews alignment reports mount_root_override verification_percentage unavailable_snapshots =
     (let heading = (case verification_percentage of
            Some _ \<Rightarrow> Msg ''Synthetic and real backup VHDX verification:'' []
          | None \<Rightarrow> Msg ''Synthetic and real backup VHDX exposure:'' []);
          (msgs, prepared) = prepare_views S reports (no_views alignment) unavailable_snapshots 0
      in case prepared of
           Inl e \<Rightarrow> Some (heading # msgs, Inl e)
         | Inr (views, optimization_unavailable, preparation_failures) \<Rightarrow>
             let verify = map_option (\<lambda>percentage. VerifyViews (bv_verification_volumes views) percentage
                            optimization_unavailable preparation_failures (vw_verify_cancel S)) verification_percentage;
                 mount_root = (case mount_root_override of Some path \<Rightarrow> path | None \<Rightarrow> vw_temporary_path S);
                 synthetic_mount = mount_root @ [CHR 0x5C] @ ''synthetic'';
                 real_mount = mount_root @ [CHR 0x5C] @ ''real''
             in if bv_devices views = []
                then Some (case verify of
                       None \<Rightarrow> (heading # msgs, Inl (RuntimeError ''no synthetic backup VHDX could be exposed''))
                     | Some (Inl e) \<Rightarrow> (heading # msgs, Inl e)
                     | Some (Inr (msgs1, status)) \<Rightarrow> (heading # msgs @ msgs1, Inr status))
                else if (mount_root_override = None \<or> \<not> vw_is_directory S mount_root) \<and> vw_make_directory S \<noteq> None
                then Some (heading # msgs, Inl (the (vw_make_directory S)))
                else map_option (\<lambda>(msgs1, r). (heading # msgs @ msgs1, r))
                       (mounted_views S views synthetic_mount real_mount verify))"

section \<open>One run\<close>

record IncrementalDiagnosticOptions =
  od_print_statistics :: bool
  od_verify :: bool
  od_expose_synthetic_backup :: bool
  od_verify_synthetic_backup :: bool
  od_backup_view_mount_root :: "string option"
  od_filesystem_verification_percentage :: real
  od_baseline_snapshot_identifier :: "guid option"
  od_payload_snapshot_identifier :: "guid option"
  od_volume_override :: "string list"

record IncrementalDiagnosticResult =
  ir_map_exit_code :: int
  ir_verification_exit_code :: int
  ir_filesystem_verification_exit_code :: int
  ir_reports :: "VolumeReport list"

definition no_result :: IncrementalDiagnosticResult where
  "no_result = \<lparr>ir_map_exit_code = 0, ir_verification_exit_code = 0, ir_filesystem_verification_exit_code = 0, ir_reports = []\<rparr>"

text \<open>
  The outcomes of the operations that a run calls, \<open>RunIncrementalVerification\<close> and
  \<open>RunBackupViewDiagnostics\<close>, and what the polls of the event before the two views see.
\<close>

record diagnostic_calls =
  dc_create_error :: "error option"
  dc_build :: "SnapshotInterval \<Rightarrow> DirtyBlockMap result"
  dc_verify :: "VolumeReport list \<Rightarrow> nat \<Rightarrow> nat \<Rightarrow> (message list \<times> int) result"
  dc_views :: "VolumeReport list \<Rightarrow> string option \<Rightarrow> real option \<Rightarrow> nat \<Rightarrow> message list \<times> int result"
  dc_signaled_expose :: bool
  dc_signaled_verify :: bool

definition run_verification ::
    "diagnostic_calls \<Rightarrow> IncrementalDiagnosticOptions \<Rightarrow> nat \<Rightarrow> nat \<Rightarrow> IncrementalDiagnosticResult \<Rightarrow> message list \<times> IncrementalDiagnosticResult result" where
  "run_verification C options interval_count unavailable result1 =
     (if od_verify options
      then (case dc_verify C (ir_reports result1) (interval_count - length (ir_reports result1)) unavailable of
              Inl e \<Rightarrow> ([], Inl e)
            | Inr (msgs, status) \<Rightarrow> (msgs, Inr (result1\<lparr>ir_verification_exit_code := status\<rparr>)))
      else ([], Inr result1))"

definition run_exposure ::
    "diagnostic_calls \<Rightarrow> IncrementalDiagnosticOptions \<Rightarrow> nat \<Rightarrow> IncrementalDiagnosticResult \<Rightarrow> message list \<times> IncrementalDiagnosticResult result" where
  "run_exposure C options unavailable result1 =
     (if od_expose_synthetic_backup options \<and> ir_map_exit_code result1 = 0 \<and> \<not> dc_signaled_expose C
      then (case dc_views C (ir_reports result1) (od_backup_view_mount_root options) None unavailable of
              (msgs, r) \<Rightarrow> (msgs, ebind r (\<lambda>_. Inr result1)))
      else ([], Inr result1))"

definition run_view_verification ::
    "diagnostic_calls \<Rightarrow> IncrementalDiagnosticOptions \<Rightarrow> nat \<Rightarrow> IncrementalDiagnosticResult \<Rightarrow> message list \<times> IncrementalDiagnosticResult result" where
  "run_view_verification C options unavailable result1 =
     (if od_verify_synthetic_backup options \<and> ir_map_exit_code result1 = 0 \<and> \<not> dc_signaled_verify C
      then (case dc_views C (ir_reports result1) (od_backup_view_mount_root options)
                   (Some (od_filesystem_verification_percentage options)) unavailable of
              (msgs, r) \<Rightarrow> (msgs, ebind r (\<lambda>status. Inr (result1\<lparr>ir_filesystem_verification_exit_code := status\<rparr>))))
      else ([], Inr result1))"

text \<open>A step that writes messages, then the rest unless it failed.\<close>

definition mbind :: "message list \<times> 'a result \<Rightarrow> ('a \<Rightarrow> message list \<times> 'b result) \<Rightarrow> message list \<times> 'b result" where
  "mbind m f =
     (case m of
        (msgs, Inl e) \<Rightarrow> (msgs, Inl e)
      | (msgs, Inr x) \<Rightarrow> (case f x of (msgs1, r) \<Rightarrow> (msgs @ msgs1, r)))"

definition RunPayloadDiagnostics ::
    "diagnostic_calls \<Rightarrow> IncrementalDiagnosticOptions \<Rightarrow> AvailableBaseline list \<Rightarrow> Snapshot list \<Rightarrow> cancellation \<Rightarrow>
     message list \<times> IncrementalDiagnosticResult result" where
  "RunPayloadDiagnostics C options baselines payload cancel =
     (let intervals = AssociateSnapshotIntervals baselines payload;
          unavailable = length payload - length intervals
      in if intervals = []
         then ([], Inl (RuntimeError ''none of the selected volumes has a retained snapshot still available''))
         else
           mbind (PrintUnavailableSnapshots unavailable, Inr ()) (\<lambda>_.
           mbind (BuildDirtyBlockReports (dc_create_error C) (dc_build C) intervals cancel) (\<lambda>(maps, _).
           mbind (run_verification C options (length intervals) unavailable (no_result\<lparr>
                    ir_map_exit_code := (if dr_exit_code maps = kTemporarySnapshotsComplete then 0 else dr_exit_code maps),
                    ir_reports := dr_reports maps\<rparr>)) (\<lambda>result1.
           mbind (run_exposure C options unavailable result1) (\<lambda>result2.
             run_view_verification C options unavailable result2)))))"

record SnapshotDiagnosticResult =
  sr_exit_code :: int
  sr_diagnostics :: IncrementalDiagnosticResult

text \<open>
  The two ways to a payload snapshot: an existing one, which must belong to a selected volume,
  or a set that is created (\<open>created\<close>) and deleted afterwards.  \<open>operation\<close> is what \<open>RunVssOperation\<close> runs.
\<close>

definition vss_operation ::
    "message list \<times> IncrementalDiagnosticResult result \<Rightarrow> cancellation \<Rightarrow> message list \<times> SnapshotDiagnosticResult result" where
  "vss_operation operation cancel =
     (case operation of
        (msgs, r) \<Rightarrow> (msgs,
          ebind (fst (RunVssOperation cancel (ebind r (\<lambda>_. Inr kTemporarySnapshotsComplete)))) (\<lambda>exit_code.
            Inr \<lparr>sr_exit_code = exit_code, sr_diagnostics = (case r of Inr d \<Rightarrow> d | Inl _ \<Rightarrow> no_result)\<rparr>)))"

definition RunSnapshotDiagnostics ::
    "diagnostic_calls \<Rightarrow> IncrementalDiagnosticOptions \<Rightarrow> (string \<Rightarrow> string result) \<Rightarrow> SnapshotProperties option \<Rightarrow> Snapshot list result \<Rightarrow>
     string list \<Rightarrow> AvailableBaseline list \<Rightarrow> cancellation \<Rightarrow> cancellation \<Rightarrow> message list \<times> SnapshotDiagnosticResult result" where
  "RunSnapshotDiagnostics C options resolve properties created volumes baselines cancel cancel1 =
     (case od_payload_snapshot_identifier options of
        Some identifier \<Rightarrow>
          mbind ([Msg ''Retrieving the volume and device path of comparison snapshot B.'' []], Inr ()) (\<lambda>_.
            case properties of
              None \<Rightarrow> ([], Inl (RuntimeError ''could not query the requested payload snapshot''))
            | Some p \<Rightarrow>
                (case efold (\<lambda>found volume. if found then Inr True
                        else ebind (resolve volume) (\<lambda>name. Inr (SameVolume (sp_original_volume p) name))) False volumes of
                   Inl e \<Rightarrow> ([], Inl e)
                 | Inr False \<Rightarrow> ([], Inl (RuntimeError ''requested payload snapshot belongs to a volume which is not among the selected volumes''))
                 | Inr True \<Rightarrow>
                     vss_operation (RunPayloadDiagnostics C options baselines
                       [\<lparr>sn_identifier = identifier, sn_original_volume = sp_original_volume p, sn_device = sp_device p\<rparr>] cancel) cancel1))
      | None \<Rightarrow>
          vss_operation
            (mbind ([Msg ''Creating snapshot set B for comparison with the retained snapshots.'' []], created) (\<lambda>payload.
               RunPayloadDiagnostics C options baselines payload cancel)) cancel1)"

text \<open>
  \<open>query\<close> is \<open>QuerySnapshotProperties\<close> and \<open>previous\<close> the manifest of the previous backup.
\<close>

definition available_baselines ::
    "(string \<Rightarrow> int + guid) \<Rightarrow> (int \<Rightarrow> error) \<Rightarrow> (guid list \<Rightarrow> SnapshotProperties option list) \<Rightarrow> manifest_system \<Rightarrow>
     PreviousBackupManifestResult result \<Rightarrow> IncrementalDiagnosticOptions \<Rightarrow> message list \<times> (int + AvailableBaseline list) result" where
  "available_baselines iid hresult query M previous options =
     (case od_baseline_snapshot_identifier options of
        Some identifier \<Rightarrow>
          (case QueryBaselineSnapshot iid hresult (hd (query [identifier])) identifier of
             (msgs, r) \<Rightarrow> (msgs, ebind r (\<lambda>baselines. Inr (Inr baselines))))
      | None \<Rightarrow>
          (case previous of
             Inl e \<Rightarrow> ([], Inl e)
           | Inr p \<Rightarrow>
               if pr_exit_code p \<noteq> 0 then ([], Inr (Inl (pr_exit_code p)))
               else
                 ([Msg ''Finding which snapshots from the previous backup still exist and match the snapshot set and volumes recorded in its manifest.'' []],
                  ebind (ParseSnapshotManifest M (pr_manifest p)) (\<lambda>manifest.
                  ebind (QuerySnapshotVolumes iid query manifest) (\<lambda>snapshot_volumes.
                    if snapshot_volumes = [] then Inl (RuntimeError ''the previous backup has no snapshots still available'')
                    else Inr (Inr (CollectAvailableBaselines snapshot_volumes)))))))"

definition diagnostic_exit_code :: "IncrementalDiagnosticResult \<Rightarrow> int" where
  "diagnostic_exit_code d =
     (if ir_map_exit_code d \<noteq> 0 then ir_map_exit_code d
      else if ir_verification_exit_code d \<noteq> 0 then ir_verification_exit_code d
      else ir_filesystem_verification_exit_code d)"

definition RunIncrementalDiagnostics ::
    "diagnostic_calls \<Rightarrow> IncrementalDiagnosticOptions \<Rightarrow> (string \<Rightarrow> string result) \<Rightarrow> SnapshotProperties option \<Rightarrow> (string list \<Rightarrow> Snapshot list result) \<Rightarrow>
     message list \<times> (int + AvailableBaseline list) result \<Rightarrow> bool \<Rightarrow> cancellation \<Rightarrow> cancellation \<Rightarrow> message list \<times> int result" where
  "RunIncrementalDiagnostics C options resolve properties create baseline_result signaled cancel cancel1 =
     mbind baseline_result (\<lambda>available.
       case available of
         Inl exit_code \<Rightarrow> ([], Inr exit_code)
       | Inr baselines \<Rightarrow>
           if signaled then ([], Inr kCancelledExitCode)
           else
             let volumes = SelectPayloadVolumes baselines (od_volume_override options)
             in mbind (RunSnapshotDiagnostics C options resolve properties (create volumes) volumes baselines cancel cancel1) (\<lambda>result1.
                  if sr_exit_code result1 \<noteq> kTemporarySnapshotsComplete then ([], Inr (sr_exit_code result1))
                  else
                    ((if od_print_statistics options \<and> ir_map_exit_code (sr_diagnostics result1) = 0
                      then PrintStatistics (ir_reports (sr_diagnostics result1)) else []),
                     Inr (diagnostic_exit_code (sr_diagnostics result1)))))"

end
