(* ===== verification/DiagnosticProofs.thy ===== *)
theory DiagnosticProofs
  imports IncrementalDiagnostics
begin

text \<open>
  Correctness of the incremental diagnostics: the pairing of snapshots, the reports, the
  prepared views, the meaning of exit code 0, and that a volume which passed the
  verification has a synthetic backup that reads as the new snapshot.
\<close>

section \<open>Intervals and reports\<close>

lemma interval_of_fields [simp]:
  "si_volume (interval_of b s) = sn_original_volume s" "si_payload_device (interval_of b s) = sn_device s"
  "si_payload_snapshot_identifier (interval_of b s) = sn_identifier s" "si_baseline_device (interval_of b s) = ab_device b"
  "si_baseline_snapshot_identifier (interval_of b s) = ab_snapshot_identifier b" "si_volume_identifier (interval_of b s) = ab_volume_identifier b"
  by (simp_all add: interval_of_def)

lemma find_Some:
  assumes "List.find P xs = Some x"
  shows "\<exists>i < length xs. x = xs ! i \<and> P x \<and> (\<forall>j < i. \<not> P (xs ! j))"
  using assms unfolding find_Some_iff by auto

lemma AssociateSnapshotIntervals_spec:
  "i \<in> set (AssociateSnapshotIntervals baselines payload) \<longleftrightarrow>
     (\<exists>s \<in> set payload. \<exists>b. List.find (\<lambda>c. SameVolume (ab_volume c) (sn_original_volume s)) baselines = Some b \<and> i = interval_of b s)"
  by (induction baselines payload rule: AssociateSnapshotIntervals.induct) (auto split: option.splits)

lemma AssociateSnapshotIntervals_length:
  "length (AssociateSnapshotIntervals baselines payload) =
     length (filter (\<lambda>s. \<exists>b \<in> set baselines. SameVolume (ab_volume b) (sn_original_volume s)) payload)"
  by (induction baselines payload rule: AssociateSnapshotIntervals.induct)
    (auto simp: find_None_iff find_Some_iff split: option.splits dest: nth_mem)

lemma report_intervals_spec:
  assumes "report_intervals build intervals cancel = (msgs, Inr (exit_code, reports, cancel1))"
  shows "map vp_interval reports = take (length reports) intervals \<and> length reports \<le> length intervals \<and>
    (\<forall>r \<in> set reports. case build (vp_interval r) of
       Inr m \<Rightarrow> vp_map r = Inr m | Inl e \<Rightarrow> is_runtime_error e \<and> vp_map r = Inl (error_what e)) \<and>
    (exit_code = kTemporarySnapshotsComplete \<longleftrightarrow> length reports = length intervals) \<and>
    (exit_code = kTemporarySnapshotsComplete \<or> exit_code = kCancelledExitCode) \<and>
    (cancel = None \<longrightarrow> exit_code = kTemporarySnapshotsComplete)"
  using assms
proof (induction intervals arbitrary: cancel msgs reports)
  case Nil
  then show ?case by simp
next
  case (Cons interval intervals)
  obtain signaled cancel2 where p: "event_is_signaled cancel = (signaled, cancel2)" by fastforce
  have codes: "kCancelledExitCode \<noteq> kTemporarySnapshotsComplete" by (simp add: kCancelledExitCode_def kTemporarySnapshotsComplete_def)
  show ?case
  proof (cases signaled)
    case True
    then have "cancel \<noteq> None" using p by (cases cancel) auto
    then show ?thesis using Cons.prems p True codes by auto
  next
    case False
    define mp where "mp = (case build interval of Inr m \<Rightarrow> Inr m | Inl e \<Rightarrow> Inl (error_what e))"
    obtain msgs1 reports1 where r: "report_intervals build intervals cancel2 = (msgs1, Inr (exit_code, reports1, cancel1))"
      "reports = \<lparr>vp_interval = interval, vp_map = mp\<rparr> # reports1" "\<forall>e. build interval = Inl e \<longrightarrow> is_runtime_error e"
      using Cons.prems p False by (auto simp: ebind_eq_Inr mp_def split: sum.split_asm if_split_asm prod.split_asm)
    have "cancel = None \<longrightarrow> cancel2 = None" using p by auto
    then show ?thesis using Cons.IH [OF r(1)] r(2,3) by (auto simp: mp_def split: sum.splits)
  qed
qed

section \<open>What exit code 0 means\<close>

lemma mbind_Inr:
  "mbind m f = (msgs, Inr y) \<longleftrightarrow> (\<exists>msgs1 x msgs2. m = (msgs1, Inr x) \<and> f x = (msgs2, Inr y) \<and> msgs = msgs1 @ msgs2)"
  by (auto simp: mbind_def split: prod.splits sum.splits)

lemma BuildDirtyBlockReports_Inr:
  "BuildDirtyBlockReports create_error build intervals cancel = (msgs, Inr (maps, cancel1)) \<Longrightarrow>
    \<exists>msgs1. report_intervals build intervals cancel = (msgs1, Inr (dr_exit_code maps, dr_reports maps, cancel1))"
  by (cases create_error; cases "report_intervals build intervals cancel")
    (auto simp: BuildDirtyBlockReports_def Let_def ebind_eq_Inr)

lemma run_view_steps:
  assumes "run_exposure C options u r1 = (msgs, Inr r2)" "run_view_verification C options u r2 = (msgs', Inr r3)"
  shows "ir_map_exit_code r3 = ir_map_exit_code r1 \<and> ir_verification_exit_code r3 = ir_verification_exit_code r1 \<and> ir_reports r3 = ir_reports r1"
  using assms unfolding run_exposure_def run_view_verification_def by (auto simp: ebind_eq_Inr split: if_split_asm prod.split_asm)

lemma RunPayloadDiagnostics_zero:
  assumes "RunPayloadDiagnostics C options baselines payload cancel = (msgs, Inr d)" "diagnostic_exit_code d = 0"
  shows "map vp_interval (ir_reports d) = AssociateSnapshotIntervals baselines payload \<and>
    (\<forall>r \<in> set (ir_reports d). \<forall>m. dc_build C (vp_interval r) = Inr m \<longrightarrow> vp_map r = Inr m) \<and>
    (od_verify options \<longrightarrow> (\<exists>msgs' u. dc_verify C (ir_reports d) 0 u = Inr (msgs', 0)))"
proof -
  let ?I = "AssociateSnapshotIntervals baselines payload" and ?u = "length payload - length (AssociateSnapshotIntervals baselines payload)"
  have ne: "?I \<noteq> []" using assms(1) by (auto simp: RunPayloadDiagnostics_def)
  obtain m1 maps cancel1 m2 r1 m3 r2 m4 where s:
    "BuildDirtyBlockReports (dc_create_error C) (dc_build C) ?I cancel = (m1, Inr (maps, cancel1))"
    "run_verification C options (length ?I) ?u (no_result\<lparr>
       ir_map_exit_code := (if dr_exit_code maps = kTemporarySnapshotsComplete then 0 else dr_exit_code maps),
       ir_reports := dr_reports maps\<rparr>) = (m2, Inr r1)"
    "run_exposure C options ?u r1 = (m3, Inr r2)" "run_view_verification C options ?u r2 = (m4, Inr d)"
    using assms(1) ne by (auto simp: RunPayloadDiagnostics_def Let_def mbind_Inr)
  note keep = run_view_steps [OF s(3,4)]
  have zero: "ir_map_exit_code r1 = 0" "ir_verification_exit_code r1 = 0"
    using assms(2) keep by (auto simp: diagnostic_exit_code_def split: if_split_asm)
  obtain m0 where "report_intervals (dc_build C) ?I cancel = (m0, Inr (dr_exit_code maps, dr_reports maps, cancel1))"
    using BuildDirtyBlockReports_Inr [OF s(1)] by blast
  note rep = report_intervals_spec [OF this]
  have r1: "ir_reports r1 = dr_reports maps" "ir_map_exit_code r1 = (if dr_exit_code maps = kTemporarySnapshotsComplete then 0 else dr_exit_code maps)"
    using s(2) by (auto simp: run_verification_def split: if_split_asm sum.split_asm)
  have "kCancelledExitCode \<noteq> 0" by (simp add: kCancelledExitCode_def)
  then have done1: "length (dr_reports maps) = length ?I" using rep zero(1) r1(2) by (auto split: if_split_asm)
  have "\<exists>msgs'. dc_verify C (ir_reports d) 0 ?u = Inr (msgs', 0)" if "od_verify options"
    using s(2) that zero(2) done1 keep r1(1) by (auto simp: run_verification_def split: sum.split_asm)
  then show ?thesis using rep done1 keep r1(1) by (auto split: sum.split_asm)
qed

lemma vss_operation_complete:
  assumes "vss_operation operation cancel = (msgs, Inr r)"
  shows "sr_exit_code r = kTemporarySnapshotsComplete \<longrightarrow> snd operation = Inr (sr_diagnostics r)"
    "sr_exit_code r = kTemporarySnapshotsComplete \<or> sr_exit_code r = kCancelledExitCode"
proof -
  obtain msgs1 op1 where o: "operation = (msgs1, op1)" by fastforce
  have "kCancelledExitCode \<noteq> kTemporarySnapshotsComplete" by (simp add: kCancelledExitCode_def kTemporarySnapshotsComplete_def)
  then show "sr_exit_code r = kTemporarySnapshotsComplete \<longrightarrow> snd operation = Inr (sr_diagnostics r)"
    "sr_exit_code r = kTemporarySnapshotsComplete \<or> sr_exit_code r = kCancelledExitCode"
    using assms unfolding o vss_operation_def
    by (cases op1; auto simp: RunVssOperation_def ebind_eq_Inr split: error.split_asm if_split_asm prod.split_asm)+
qed

lemma RunSnapshotDiagnostics_complete:
  assumes "RunSnapshotDiagnostics C options resolve properties created volumes baselines cancel cancel1 = (msgs, Inr r)"
  shows "sr_exit_code r = kCancelledExitCode \<or> (sr_exit_code r = kTemporarySnapshotsComplete \<and>
    (\<exists>payload msgs'. RunPayloadDiagnostics C options baselines payload cancel = (msgs', Inr (sr_diagnostics r))))"
proof (cases "od_payload_snapshot_identifier options")
  case None
  then have "vss_operation (mbind ([Msg ''Creating snapshot set B for comparison with the retained snapshots.'' []], created)
      (\<lambda>payload. RunPayloadDiagnostics C options baselines payload cancel)) cancel1 = (msgs, Inr r)"
    using assms by (simp add: RunSnapshotDiagnostics_def)
  from vss_operation_complete [OF this] show ?thesis
    by (auto simp: mbind_def split: sum.split_asm prod.split_asm)
next
  case (Some ident)
  obtain p :: SnapshotProperties and msgs2 where "vss_operation (RunPayloadDiagnostics C options baselines
      [\<lparr>sn_identifier = ident, sn_original_volume = sp_original_volume p, sn_device = sp_device p\<rparr>] cancel) cancel1 = (msgs2, Inr r)"
    using assms Some by (auto simp: RunSnapshotDiagnostics_def mbind_Inr split: option.split_asm sum.split_asm bool.split_asm)
  from vss_operation_complete [OF this] show ?thesis by (metis prod.collapse)
qed

lemma RunIncrementalDiagnostics_zero:
  assumes "RunIncrementalDiagnostics C options resolve properties create (msgs0, Inr (Inr baselines)) signaled cancel cancel1 = (msgs, Inr 0)"
  shows "\<exists>payload d msgs'. RunPayloadDiagnostics C options baselines payload cancel = (msgs', Inr d) \<and> diagnostic_exit_code d = 0"
proof -
  have c: "kCancelledExitCode \<noteq> 0" "kTemporarySnapshotsComplete \<noteq> 0" "kTemporarySnapshotsComplete \<noteq> kCancelledExitCode" by (simp_all add: kCancelledExitCode_def kTemporarySnapshotsComplete_def)
  have "\<not> signaled" using assms c by (auto simp: RunIncrementalDiagnostics_def mbind_Inr)
  then obtain msgs1 r where r: "RunSnapshotDiagnostics C options resolve properties (create (SelectPayloadVolumes baselines (od_volume_override options)))
      (SelectPayloadVolumes baselines (od_volume_override options)) baselines cancel cancel1 = (msgs1, Inr r)"
    "sr_exit_code r = 0 \<or> (sr_exit_code r = kTemporarySnapshotsComplete \<and> diagnostic_exit_code (sr_diagnostics r) = 0)"
    using assms by (auto simp: RunIncrementalDiagnostics_def mbind_Inr Let_def split: if_split_asm)
  from RunSnapshotDiagnostics_complete [OF r(1)] r(2) c show ?thesis by auto
qed

section \<open>The prepared views\<close>

text \<open>The lists of a view belong together: the same names, in the same order.\<close>

definition views_aligned :: "backup_views \<Rightarrow> bool" where
  "views_aligned v \<longleftrightarrow> map ds_name (bv_synthetic_sources v) = map fst (bv_devices v) \<and>
     map ds_source (bv_synthetic_sources v) = map fst (bv_devices v) \<and>
     map ds_name (bv_real_sources v) = map fst (bv_devices v) \<and> map fv_filename (bv_verification_volumes v) = map fst (bv_devices v)"

text \<open>A device of the views is made from a report with a map.\<close>

definition made_from :: "view_system \<Rightarrow> VolumeReport list \<Rightarrow> string \<times> SyntheticBackupBlockDevice \<Rightarrow> bool" where
  "made_from S reports x \<longleftrightarrow> (\<exists>r \<in> set reports. \<exists>m v. vp_map r = Inr m \<and>
     VolumeImageName (si_volume (vp_interval r)) ''.vhdx'' = Inr (fst x) \<and> snd (synthetic_device S (vp_interval r) m v) = Inr (snd x))"

lemma AddBackupViews_spec:
  assumes "AddBackupViews S report views = (msgs, Inr (preparation, views'))"
  shows "(views_aligned views \<longrightarrow> views_aligned views') \<and>
    (if preparation = Ready then \<exists>x. bv_devices views' = bv_devices views @ [x] \<and> made_from S [report] x
     else bv_devices views' = bv_devices views)"
proof (cases "vp_map report")
  case (Inl err)
  then show ?thesis using assms by (auto simp: AddBackupViews_def Let_def)
next
  case m: (Inr m)
  obtain alignment r where d: "synthetic_device S (vp_interval report) m views = (alignment, r)" by fastforce
  show ?thesis
  proof (cases r)
    case (Inl e)
    then have "preparation = ViewFailed" "views' = views\<lparr>bv_alignment := alignment\<rparr>"
      using assms m d by (auto simp: AddBackupViews_def Let_def split: if_split_asm)
    then show ?thesis by (simp add: views_aligned_def)
  next
    case (Inr synthetic)
    obtain filename where f: "VolumeImageName (si_volume (vp_interval report)) ''.vhdx'' = Inr filename"
      using assms m d Inr by (cases "VolumeImageName (si_volume (vp_interval report)) ''.vhdx''") (auto simp: AddBackupViews_def Let_def)
    have "snd (synthetic_device S (vp_interval report) m views) = Inr synthetic" using d Inr by simp
    then have "made_from S [report] (filename, synthetic)" using m f unfolding made_from_def by auto
    moreover have "preparation = Ready" "bv_devices views' = bv_devices views @ [(filename, synthetic)]"
      "views_aligned views \<longrightarrow> views_aligned views'"
      using assms m d Inr f by (auto simp: AddBackupViews_def Let_def views_aligned_def)
    ultimately show ?thesis by auto
  qed
qed

lemma made_from_mono: "made_from S reports x \<Longrightarrow> set reports \<subseteq> set reports' \<Longrightarrow> made_from S reports' x"
  unfolding made_from_def by blast

lemma prepare_views_spec:
  assumes "prepare_views S reports views u f = (msgs, Inr (views', u', f'))" "views_aligned views" "list_all (made_from S all_reports) (bv_devices views)"
    and "set reports \<subseteq> set all_reports"
  shows "views_aligned views' \<and> list_all (made_from S all_reports) (bv_devices views') \<and>
    length (bv_devices views') + u' + f' = length (bv_devices views) + u + f + length reports"
  using assms
proof (induction reports arbitrary: views u f msgs)
  case (Cons report reports)
  obtain msgs1 preparation views1 msgs2 where s: "AddBackupViews S report views = (msgs1, Inr (preparation, views1))"
    "prepare_views S reports views1 (u + (if preparation = OptimizationUnavailable then 1 else 0))
       (f + (if preparation = ViewFailed then 1 else 0)) = (msgs2, Inr (views', u', f'))"
    using Cons.prems(1) by (auto split: prod.split_asm sum.split_asm)
  note a = AddBackupViews_spec [OF s(1)]
  have sub: "set [report] \<subseteq> set all_reports" "set reports \<subseteq> set all_reports" using Cons.prems(4) by simp_all
  have "list_all (made_from S all_reports) (bv_devices views1)"
    using a Cons.prems(3) made_from_mono [OF _ sub(1)] by (auto split: if_split_asm)
  from Cons.IH [OF s(2) _ this sub(2)] a Cons.prems(2)
  show ?case by (cases preparation) auto
qed simp

section \<open>The devices that the verification covers\<close>

text \<open>The allocation of volumes that answer as documented is as the verification needs it.\<close>

lemma LoadAllocationBitmap_cluster:
  assumes "LoadAllocationBitmap v = Inr b" "volume_ok raw v"
  shows "cluster_size b \<le> 9223372036854775808"
proof -
  obtain fs n s where g: "QueryVolumeGeometry v (Some fs) = Inr (Inr (n, s))" and r: "RequestVolumeBitmap v n s = Inr b"
    using assms(1) unfolding LoadAllocationBitmap_def Let_def by (auto simp: err_simps split: prod.splits)
  obtain k where k: "k < 32" "s = 2 ^ k" using QueryVolumeGeometry_Inr(1) [OF g assms(2)] by blast
  have "s \<le> 2 ^ 31" unfolding k(2) using k(1) by (intro power_increasing) simp_all
  then show ?thesis using RequestVolumeBitmap_Inr(1) [OF r assms(2)] by simp
qed

lemma LoadSnapshotAllocationBitmap_Inr:
  assumes "LoadSnapshotAllocationBitmap nt alloc (Inr v) = Inr s" "volume_ok raw v" "maps_errors nt"
  shows "\<exists>d. FromFilename nt alloc (Inr v) = Inr d \<and> wb_inv raw d \<and> wb_bitmap d = Some (sn_bitmap s) \<and> sn_volume_size s = wb_length d \<and>
    ab_inv (sn_bitmap s) \<and> cluster_size (sn_bitmap s) \<le> 9223372036854775808 \<and> wb_length d < 9223372036854775808 \<and>
    snapshot_view raw s = wb_content raw d"
proof -
  obtain d b where d: "FromFilename nt alloc (Inr v) = Inr d" "wb_bitmap d = Some b" "s = \<lparr>sn_volume_size = wb_length d, sn_bitmap = b\<rparr>"
    using assms(1) by (auto simp: LoadSnapshotAllocationBitmap_def ebind_eq_Inr split: option.split_asm)
  have h: "WindowsBlockDevice_FromHandle True nt alloc v False False = Inr d" using d(1) by (simp add: FromFilename_def)
  note i = FromHandle_inv [OF h assms(2,3)]
  have "ab_inv b" "wb_length d < 9223372036854775808" using i(1) d(2) by (auto simp: wb_inv_def)
  moreover have "cluster_size b \<le> 9223372036854775808" by (rule LoadAllocationBitmap_cluster [OF i(4) [OF d(2)] assms(2)])
  moreover have "snapshot_view raw s = wb_content raw d" by (rule ext) (simp add: snapshot_view_def wb_content_def d(2,3))
  ultimately show ?thesis using d i(1) by simp
qed

lemma LoadVerificationAllocation_Inr:
  assumes "LoadVerificationAllocation nt alloc (Inr vb) (Inr vp) = Inr a" "volume_ok rb vb" "volume_ok rp vp" "maps_errors nt"
  shows "\<exists>b p. FromFilename nt alloc (Inr vb) = Inr b \<and> FromFilename nt alloc (Inr vp) = Inr p \<and> wb_inv rb b \<and> wb_inv rp p \<and>
    snapshot_view rb (va_baseline a) = wb_content rb b \<and> snapshot_view rp (va_payload a) = wb_content rp p \<and>
    sn_volume_size (va_baseline a) = wb_length b \<and> allocation_ok (sn_volume_size (va_baseline a)) a"
proof -
  have l: "LoadSnapshotAllocationBitmap nt alloc (Inr vb) = Inr (va_baseline a)" "LoadSnapshotAllocationBitmap nt alloc (Inr vp) = Inr (va_payload a)"
    using assms(1) by (auto simp: LoadVerificationAllocation_def ebind_eq_Inr split: if_split_asm)
  show ?thesis using LoadSnapshotAllocationBitmap_Inr [OF l(1) assms(2,4)] LoadSnapshotAllocationBitmap_Inr [OF l(2) assms(3,4)]
    by (auto simp: allocation_ok_def)
qed

lemma block_bit_storage:
  assumes "bs_inv B s"
  shows "block_bit (BitmapSet_storage s) k \<longleftrightarrow> k * B \<in> bs_set B s"
proof -
  have v: "rv_inv (bm_words s)" "0 < B" using assms by (simp_all add: bs_inv_def)
  have "k * B \<in> bs_set B s \<longleftrightarrow> k \<in> rv_bits (bm_words s)" using v(2) by (auto simp: bs_set_def)
  moreover have "ReallocVector_contents (bm_words s) ! (k div 64) = ReallocVector_get (bm_words s) (k div 64)" if "k div 64 < rv_size (bm_words s)"
    using v(1) that by (simp add: rv_inv_def ReallocVector_contents_def ReallocVector_get_def)
  moreover have "length (ReallocVector_contents (bm_words s)) = rv_size (bm_words s)"
    using v(1) by (simp add: rv_inv_def ReallocVector_contents_def)
  ultimately show ?thesis unfolding block_bit_def BitmapSet_storage_def rv_bits_def by auto
qed

text \<open>
  The synthetic backup of a volume whose differences are covered reads as the new snapshot.
\<close>

lemma covered_device_is_payload:
  assumes d: "snd (synthetic_device S interval m views) = Inr d"
    and v: "vw_open S (si_baseline_device interval) = Inr vb" "vw_open S (si_payload_device interval) = Inr vp"
      "volume_ok rb vb" "volume_ok rp vp" "maps_errors (vw_nt S)"
    and load: "LoadVerificationAllocation (vw_nt S) (vw_alloc S) (Inr vb) (Inr vp) = Inr a"
    and cov: "volume_covered rb rp a (Inr m)" and m: "bs_inv vss_kBlockSize (dm_block_offsets m)"
  shows "\<exists>p. FromFilename (vw_nt S) (vw_alloc S) (Inr vp) = Inr p \<and> sy_length d = wb_length p \<and>
    exposes (synthetic.as_device kMapBlockSize d) (wb_content rp p)"
proof -
  obtain b p where bp: "FromFilename (vw_nt S) (vw_alloc S) (Inr vb) = Inr b" "FromFilename (vw_nt S) (vw_alloc S) (Inr vp) = Inr p"
    "wb_inv rb b" "wb_inv rp p" "snapshot_view rb (va_baseline a) = wb_content rb b" "snapshot_view rp (va_payload a) = wb_content rp p"
    "sn_volume_size (va_baseline a) = wb_length b"
    using LoadVerificationAllocation_Inr [OF load v(3-5)] by blast
  have dev: "SyntheticBackupBlockDevice_FromBlockDevices (windows.as_device b) (windows.as_device p) (BitmapSet_storage (dm_block_offsets m)) = Inr d"
    using d v bp(1,2) by (simp add: synthetic_device_def Let_def)
  have e: "exposes (windows.as_device b) (wb_content rb b)" "exposes (windows.as_device p) (wb_content rp p)"
    using windows.exposes_content bp(3,4) by blast+
  have len: "dev_length (windows.as_device p) < 9223372036854775808" using bp(4) by (simp add: windows.as_device_simps wb_inv_def)
  note inv = FromBlockDevices_inv [OF dev _ e len, of kMapBlockSize]
  have sz: "sy_length d = wb_length p" "wb_length b = wb_length p"
    using inv(3) dev by (auto simp: windows.as_device_simps SyntheticBackupBlockDevice_FromBlockDevices_def split: if_split_asm)
  have "covers kMapBlockSize (sy_bitmap d) (sy_length d) (wb_content rb b) (wb_content rp p)"
    unfolding covers_def
  proof (intro allI impI)
    fix x assume x: "x < sy_length d" "wb_content rb b x \<noteq> wb_content rp p x"
    have "x div kMapBlockSize * kMapBlockSize \<in> bs_set vss_kBlockSize (dm_block_offsets m)"
      using cov x bp(5-7) sz by (simp add: volume_covered_def)
    then show "block_bit (sy_bitmap d) (x div kMapBlockSize)" using inv(2) block_bit_storage [OF m] by simp
  qed
  then show ?thesis using covered_is_payload [OF inv(1)] bp(2) sz(1) by auto
qed

section \<open>From the verification to the device\<close>

definition load_of :: "view_system \<Rightarrow> VolumeReport \<Rightarrow> VerificationAllocation result" where
  "load_of S v = LoadVerificationAllocation (vw_nt S) (vw_alloc S) (vw_open S (si_baseline_device (vp_interval v)))
     (vw_open S (si_payload_device (vp_interval v)))"

text \<open>
  What the environment owes to a volume: both snapshots open, behave like volumes with the
  contents \<open>rb\<close> and \<open>rp\<close>, for the workers too, and an exception has a message.
\<close>

definition snapshots_ok ::
    "view_system \<Rightarrow> (VolumeReport \<Rightarrow> snapshot_io set \<times> snapshot_io set) \<Rightarrow> (VolumeReport \<Rightarrow> nat \<Rightarrow> byte) \<Rightarrow>
     (VolumeReport \<Rightarrow> nat \<Rightarrow> byte) \<Rightarrow> VolumeReport \<Rightarrow> bool" where
  "snapshots_ok S io rb rp v \<longleftrightarrow> maps_errors (vw_nt S) \<and> map_ok (vp_map v) \<and>
     (\<exists>vb vp. vw_open S (si_baseline_device (vp_interval v)) = Inr vb \<and> vw_open S (si_payload_device (vp_interval v)) = Inr vp \<and>
        volume_ok (rb v) vb \<and> volume_ok (rp v) vp) \<and>
     (\<forall>e. load_of S v = Inl e \<longrightarrow> error_what e \<noteq> '''') \<and>
     (\<forall>b \<in> fst (io v). io_exposes (rb v) b) \<and> (\<forall>p \<in> snd (io v). io_exposes (rp v) p)"

lemma snapshots_report_ok: "snapshots_ok S io rb rp v \<Longrightarrow> report_ok (load_of S) io rb rp v"
  unfolding snapshots_ok_def report_ok_def load_of_def by (auto dest: LoadVerificationAllocation_Inr)

lemma verified_device:
  assumes run: "RunIncrementalVerification c (load_of S) io devices cancel volumes n u (Some (Inr (msgs, 0)))"
    and env: "\<forall>v \<in> set volumes. snapshots_ok S io rb rp v" and v: "v \<in> set volumes" "vp_map v = Inr m"
    and d: "snd (synthetic_device S (vp_interval v) m views) = Inr d"
  shows "\<exists>p. FromFilename (vw_nt S) (vw_alloc S) (vw_open S (si_payload_device (vp_interval v))) = Inr p \<and> sy_length d = wb_length p \<and>
    exposes (synthetic.as_device kMapBlockSize d) (wb_content (rp v) p)"
proof -
  from env v(1) obtain vb vp where o: "vw_open S (si_baseline_device (vp_interval v)) = Inr vb"
      "vw_open S (si_payload_device (vp_interval v)) = Inr vp" "volume_ok (rb v) vb" "volume_ok (rp v) vp" "maps_errors (vw_nt S)"
    and m: "map_ok (vp_map v)" unfolding snapshots_ok_def by blast
  obtain a where a: "load_of S v = Inr a" "volume_covered (rb v) (rp v) a (vp_map v)"
    using RunIncrementalVerification_sound [OF run, of rb rp] env v(1) snapshots_report_ok by blast
  have "bs_inv vss_kBlockSize (dm_block_offsets m)" using m v(2) by (simp add: map_ok_def)
  from covered_device_is_payload [OF d o _ _ this, of a] a v(2) o(1,2) show ?thesis by (simp add: load_of_def)
qed

end
