(* ===== verification/IncrementalExamples.thy ===== *)
theory IncrementalExamples
  imports DiagnosticProofs Examples
begin

text \<open>
  Concrete snapshots for the properties of an incremental run: the volume of two clusters
  of \<open>Examples\<close>, before and after its first cluster was freed, with a map that holds their only block.
\<close>

section \<open>Two snapshots\<close>

definition dx_blocks :: BitmapSet where
  "dx_blocks = (case BitmapSet_insert (\<lambda>_. True) 16384 (BitmapSet_new 16384 1023) 0 of
     Inr (_, s) \<Rightarrow> s | Inl _ \<Rightarrow> BitmapSet_new 16384 1023)"

lemma dx_insert: "\<exists>r. BitmapSet_insert (\<lambda>_. True) 16384 (BitmapSet_new 16384 1023) 0 = Inr (r, dx_blocks)"
proof -
  have "\<exists>r. BitmapSet_insert (\<lambda>_. True) 16384 (BitmapSet_new 16384 1023) 0 = Inr r"
    by (simp add: BitmapSet_insert_def insert_aligned_def BitmapSet_new_def block_index_def ReallocVector_resize_def
        resize_allocation_def new_reservation_size_def ReallocVector_new_def ReallocVector_max_size_def
        realloc_zeroed_def mul64_def add64_def Let_def split: prod.splits)
  then show ?thesis by (auto simp: dx_blocks_def)
qed

lemma dx_blocks_ok: "bs_inv 16384 dx_blocks" "bs_set 16384 dx_blocks = {0}"
  using dx_insert BitmapSet_insert_spec [of 16384 "BitmapSet_new 16384 1023" 0 "\<lambda>_. True" _ dx_blocks] by auto

definition dx_map :: DirtyBlockMap where
  "dx_map = \<lparr>dm_volume_size = 1024, dm_block_offsets = dx_blocks, dm_descriptor_store_count = 1, dm_descriptor_count = 1,
     dm_descriptor_list_block_count = 1, dm_descriptor_block_count = 1, dm_allocation_block_count = 1, dm_svi_block_count = 0\<rparr>"

definition dx_interval :: SnapshotInterval where
  "dx_interval = \<lparr>si_volume_identifier = 1, si_baseline_snapshot_identifier = 2, si_payload_snapshot_identifier = 3,
     si_volume = volume_name 1, si_baseline_device = ''A'', si_payload_device = ''B''\<rparr>"

definition dx_report :: VolumeReport where
  "dx_report = \<lparr>vp_interval = dx_interval, vp_map = Inr dx_map\<rparr>"

definition dx_allocation :: VerificationAllocation where
  "dx_allocation = \<lparr>va_baseline = \<lparr>sn_volume_size = 1024, sn_bitmap = ex_bitmap\<rparr>,
     va_payload = \<lparr>sn_volume_size = 1024, sn_bitmap = ex_bitmap2\<rparr>\<rparr>"

lemma dx_load: "LoadVerificationAllocation ex_nt (\<lambda>_. True) (Inr ex_volume) (Inr ex_volume2) = Inr dx_allocation"
  by (simp add: LoadVerificationAllocation_def LoadSnapshotAllocationBitmap_def ex_open_eq dx_allocation_def)

lemma dx_allocation_ok: "allocation_ok 1024 dx_allocation"
  using LoadVerificationAllocation_Inr [OF dx_load ex_volume_ok ex_volume2_ok ex_handle_ok(2)] by (auto simp: dx_allocation_def)

lemma dx_map_ok: "map_ok (Inr dx_map)"
  using dx_blocks_ok(1) by (simp add: map_ok_def dx_map_def)

text \<open>A handle whose reads complete.\<close>

definition dx_io :: snapshot_io where
  "dx_io = \<lparr>io_open = None, io_alignment = Inr 0, io_buffer = True, io_seek = None, io_read = \<lambda>p n. Inr (image_bytes ex_raw p n)\<rparr>"

lemma dx_io_ok: "io_exposes ex_raw dx_io"
  by (simp add: io_exposes_def dx_io_def)

lemma dx_reads: "n < 4294967296 \<Longrightarrow> ReadVerificationChunk dx_io p n = Inr (image_bytes ex_raw p n)"
  by (simp add: ReadVerificationChunk_def dx_io_def FailFastCast_def TryCast_def u32_def in_type_def)

section \<open>A run of the verification\<close>

definition dx_worker :: "worker_phase \<Rightarrow> nat \<Rightarrow> nat \<Rightarrow> MapVerification.worker" where
  "dx_worker phase offset position = \<lparr>wk_start = 0, wk_end = 1024, wk_phase = phase, wk_offset = offset,
     wk_baseline_position = position, wk_payload_position = position\<rparr>"

lemma dx_worker_simps [simp]:
  "wk_start (dx_worker ph off pos) = 0" "wk_end (dx_worker ph off pos) = 1024" "wk_phase (dx_worker ph off pos) = ph"
  "wk_offset (dx_worker ph off pos) = off" "wk_baseline_position (dx_worker ph off pos) = pos"
  "wk_payload_position (dx_worker ph off pos) = pos" "dx_worker ph off pos\<lparr>wk_phase := ph'\<rparr> = dx_worker ph' off pos"
  "dx_worker ph off pos\<lparr>wk_phase := ph', wk_offset := off', wk_baseline_position := pos', wk_payload_position := pos'\<rparr> =
     dx_worker ph' off' pos'"
  "new_worker (0, 1024) = dx_worker Starting 0 0"
  by (simp_all add: dx_worker_def new_worker_def)

lemma dx_ranges:
  "VerificationWorkerRange 1024 0 = (0, 0)" "VerificationWorkerRange 1024 (Suc 0) = (0, 0)"
  "VerificationWorkerRange 1024 2 = (0, 0)" "VerificationWorkerRange 1024 3 = (0, 1024)"
  by (simp_all add: VerificationWorkerRange_def Let_def mul64_def)

lemma dx_chunk: "\<exists>ob. verify_chunk c dx_allocation (Inr dx_map) dx_io dx_io (dx_worker Reading 0 0) = Some (Inr (1024, ob))"
proof -
  have inv: "ab_inv (sn_bitmap (va_baseline dx_allocation))" "ab_inv (sn_bitmap (va_payload dx_allocation))"
    using dx_allocation_ok by (simp_all add: allocation_ok_def)
  have lt: "(0 :: nat) + 1024 < two64" "(0 :: nat) + 1024 + cluster_size (sn_bitmap (va_baseline dx_allocation)) < two64"
    by (simp_all add: dx_allocation_def)
  from CompareVerificationChunk_spec [OF _ lt(2) ab_invD(1) [OF inv(1)] dx_map_ok, where c = c] obtain res where
    "CompareVerificationChunk c (image_bytes (snapshot_view ex_raw (va_baseline dx_allocation)) 0 1024)
       (image_bytes (snapshot_view ex_raw (va_payload dx_allocation)) 0 1024) 0
       (cluster_size (sn_bitmap (va_baseline dx_allocation))) (Inr dx_map) = Inr res" by fastforce
  then show ?thesis
    by (simp add: verify_chunk_def Let_def dx_reads synthesized_view [OF inv(1) lt(1)] synthesized_view [OF inv(2) lt(1)])
qed

lemma dx_prepare: "prepare_worker dx_io dx_io 0 = Inr (0, 0)"
  by (simp add: prepare_worker_def OpenVerificationSnapshot_def AllocateComparisonBuffer_def SeekVerificationSnapshot_def
      dx_io_def FailFastCast_def TryCast_def i64_def in_type_def)

abbreviation dx_step :: "cpu \<Rightarrow> verification_run \<Rightarrow> verification_run \<Rightarrow> bool" where
  "dx_step c \<equiv> verify_step c 1024 dx_allocation (Inr dx_map) {dx_io} {dx_io} False"

lemma dx_starting: "start_step 1024 False None run = Some run' \<Longrightarrow> dx_step c run run'"
  by (rule verify_step.starting) auto

lemma dx_working:
  "worker_step c dx_allocation (Inr dx_map) False dx_io dx_io st w = Some (st', w') \<Longrightarrow>
    dx_step c \<lparr>vr_state = st, vr_next = n, vr_workers = [w]\<rparr> \<lparr>vr_state = st', vr_next = n, vr_workers = [w']\<rparr>"
  using verify_step.working [of 0 "\<lparr>vr_state = st, vr_next = n, vr_workers = [w]\<rparr>" dx_io "{dx_io}" dx_io "{dx_io}" False False c
      dx_allocation "Inr dx_map" st' w' 1024] by simp

lemma dx_run:
  "\<exists>run. (dx_step c)\<^sup>*\<^sup>* (initial_run MapVerificationState_new) run \<and> run_finished run \<and> \<not> mv_failed (vr_state run) \<and>
     ob_failure (mv_observation (vr_state run)) = ''''"
proof -
  let ?st = "MapVerificationState_new"
  obtain ob where ob: "verify_chunk c dx_allocation (Inr dx_map) dx_io dx_io (dx_worker Reading 0 0) = Some (Inr (1024, ob))"
    using dx_chunk by blast
  let ?st' = "MapVerificationState_Record ?st 1024 ob"
  let ?i = "\<lambda>n. \<lparr>vr_state = ?st, vr_next = n, vr_workers = []\<rparr>"
  let ?r = "\<lambda>st n w. \<lparr>vr_state = st, vr_next = n, vr_workers = [w]\<rparr>"
  have start: "dx_step c (initial_run ?st) (?i (Some 1))" "dx_step c (?i (Some 1)) (?i (Some 2))" "dx_step c (?i (Some 2)) (?i (Some 3))"
    "dx_step c (?i (Some 3)) (?r ?st (Some 4) (dx_worker Starting 0 0))"
    "dx_step c (?r ?st (Some 4) (dx_worker Starting 0 0)) (?r ?st None (dx_worker Starting 0 0))"
    by (rule dx_starting; simp add: start_step_def initial_run_def dx_ranges StartVerificationWorker_def
        MapVerificationState_new_def)+
  have work: "dx_step c (?r ?st None (dx_worker Starting 0 0)) (?r ?st None (dx_worker Checking 0 0))"
    "dx_step c (?r ?st None (dx_worker Checking 0 0)) (?r ?st None (dx_worker Reading 0 0))"
    by (rule dx_working, simp add: worker_step_def dx_prepare MapVerificationState_new_def)+
  have read: "dx_step c (?r ?st None (dx_worker Reading 0 0)) (?r ?st' None (dx_worker Checking 4194304 1024))"
    by (rule dx_working) (simp add: worker_step_def ob add64_def)
  have stop: "dx_step c (?r ?st' None (dx_worker Checking 4194304 1024)) (?r ?st' None (dx_worker Finished 4194304 1024))"
    by (rule dx_working) (simp add: worker_step_def)
  have "(dx_step c)\<^sup>*\<^sup>* (initial_run ?st) (?r ?st' None (dx_worker Finished 4194304 1024))"
    using start work read stop by (meson converse_rtranclp_into_rtranclp rtranclp.rtrancl_refl)
  moreover have "\<not> mv_failed ?st'" "ob_failure (mv_observation ?st') = ''''"
    by (simp_all add: MapVerificationState_Record_def MapVerificationState_new_def no_observation_def)
  ultimately show ?thesis
    by (intro exI [of _ "?r ?st' None (dx_worker Finished 4194304 1024)"]) (simp add: run_finished_def)
qed

text \<open>What the run has counted: everything, and no difference outside the map.\<close>

lemma dx_counts:
  assumes "(dx_step c)\<^sup>*\<^sup>* (initial_run MapVerificationState_new) run" "run_finished run" "\<not> mv_failed (vr_state run)"
  shows "ob_compared_bytes (mv_observation (vr_state run)) = 1024" "ob_uncovered_blocks (mv_observation (vr_state run)) = 0"
    "ob_uncovered_clusters (mv_observation (vr_state run)) = []"
proof -
  have r: "run_inv 1024 (snapshot_view ex_raw (va_baseline dx_allocation)) (snapshot_view ex_raw (va_payload dx_allocation))
      (cluster_size (sn_bitmap (va_baseline dx_allocation))) (Inr dx_map) run" "run_done 1024 run"
    using reachable_inv [OF dx_allocation_ok dx_map_ok _ _ assms(1), of ex_raw ex_raw] dx_io_ok by simp_all
  show "ob_compared_bytes (mv_observation (vr_state run)) = 1024"
    using finished_compares_all [OF r assms(2,3)] by simp
  have u: "\<not> uncovered ca cp (Inr dx_map) x" if "x < 1024" for x ca cp
    using that by (simp add: uncovered_def dx_map_def dx_blocks_ok(2))
  have "x < 1024" if "x \<in> recorded_all (verification_run.vr_workers run)" for x
    using r(1) that recorded_all_bound(1) [of "verification_run.vr_workers run" 1024] by (auto simp: run_inv_def)
  with u have e: "{x \<in> recorded_all (verification_run.vr_workers run). uncovered ca cp (Inr dx_map) x} = {}" for ca cp by blast
  show "ob_uncovered_blocks (mv_observation (vr_state run)) = 0" "ob_uncovered_clusters (mv_observation (vr_state run)) = []"
    using r(1) unfolding run_inv_def observes_def blocks_in_def e by simp_all
qed

text \<open>Snapshots that are never asked for owners.\<close>

definition dx_streams :: stream_device where
  "dx_streams = \<lparr>sl_open = None, sl_probe = \<lambda>_. (None, 0, 0), sl_lookup = \<lambda>_ _. Inl 0\<rparr>"

definition dx_job :: "verification_run \<Rightarrow> VerificationJob" where
  "dx_job run = \<lparr>jb_volume = dx_report, jb_volume_size = 1024, jb_run = run, jb_allocation = Some dx_allocation,
     jb_ownership = ClusterOwnershipCache_new\<rparr>"

lemma dx_jobs:
  assumes "(dx_step c)\<^sup>*\<^sup>* start run"
  shows "(jobs_step c (\<lambda>_. ({dx_io}, {dx_io})) False)\<^sup>*\<^sup>* [dx_job start] [dx_job run]"
  using assms
proof (induction rule: rtranclp_induct)
  case (step run run')
  have "dx_step c (jb_run ([dx_job run] ! 0)) run'" using step.hyps(2) by (simp add: dx_job_def)
  then have "jobs_step c (\<lambda>_. ({dx_io}, {dx_io})) False [dx_job run] ([dx_job run][0 := dx_job run\<lparr>jb_run := run'\<rparr>])"
    using jobs_step.job [of 0 "[dx_job run]" dx_allocation c "\<lambda>_. ({dx_io}, {dx_io})" False run'] by (simp add: dx_job_def dx_report_def)
  then show ?case using step.IH by (simp add: dx_job_def rtranclp.rtrancl_into_rtrancl)
qed simp

lemma dx_verification:
  assumes load: "load dx_report = Inr dx_allocation"
  shows "\<exists>msgs. RunIncrementalVerification c load (\<lambda>_. ({dx_io}, {dx_io})) (\<lambda>_. (dx_streams, dx_streams)) None
     [dx_report] 0 0 (Some (Inr (msgs, 0)))"
proof -
  obtain run where run: "(dx_step c)\<^sup>*\<^sup>* (initial_run MapVerificationState_new) run" "run_finished run" "\<not> mv_failed (vr_state run)"
    "ob_failure (mv_observation (vr_state run)) = ''''" using dx_run by blast
  note counts = dx_counts [OF run(1-3)]
  let ?devices = "\<lambda>_ :: VolumeReport. (dx_streams, dx_streams)"
  let ?job = "dx_job (initial_run MapVerificationState_new)"
  have prep: "prepare_jobs load [dx_report] None = Inr ([?job], None)"
    by (simp add: prepare_job_def dx_job_def load) (simp add: dx_allocation_def)
  have "\<forall>w \<in> set (verification_run.vr_workers run). wk_phase w = Finished" using run(2) by (simp add: run_finished_def list_all_iff)
  then have ready: "list_all job_ready [dx_job run]" and errors: "worker_errors (dx_job run) = []"
    using run(2) by (auto simp: job_ready_def dx_job_def list_all_iff run_finished_def worker_errors_def)
  have own: "update_ownership ?devices (dx_job run) = Some (Inr (dx_job run))"
    by (simp add: update_ownership_def UpdateClusterOwnership_def job_observation_def dx_job_def counts(3) ClusterOwnershipCache_new_def)
  obtain msgs status where p: "PrintVerificationSummary [dx_job run] 0 0 False = Some (msgs, status)"
    by (auto simp: PrintVerificationSummary_def PrintVerificationResult_def dx_job_def dx_report_def ClusterOwnershipCache_new_def Let_def)
  have "status = 0" unfolding PrintVerificationSummary_status [OF p]
    using counts run(4) by (simp add: comparison_complete_def job_observation_def dx_job_def)
  moreover have "finish_verification ?devices 0 [] (map jb_run [dx_job run]) False [?job] (0 + length [dx_report] - length [?job]) 0 =
      Some (Inr (msgs, status))"
    using errors own p by (simp add: finish_verification_def observe_runs_def dx_job_def)
  ultimately show ?thesis
    using RunIncrementalVerification.verified [OF prep _ ready, of c "\<lambda>_. ({dx_io}, {dx_io})" "[]" ?devices 0 0 0 False] dx_jobs [OF run(1)]
    by auto
qed

lemma dx_report_ok: "report_ok (\<lambda>_. Inr dx_allocation) (\<lambda>_. ({dx_io}, {dx_io})) (\<lambda>_. ex_raw) (\<lambda>_. ex_raw) dx_report"
  using dx_allocation_ok dx_map_ok dx_io_ok by (simp add: report_ok_def dx_report_def dx_allocation_def)

section \<open>Stores and files\<close>

text \<open>A store of a catalog, for the snapshot \<open>g\<close> created at \<open>t\<close>.\<close>

definition dx_store :: "guid \<Rightarrow> nat \<Rightarrow> CatalogStore" where
  "dx_store g t = \<lparr>cs_store_identifier = g + 100, cs_volume_size = 131072, cs_creation_time = t, cs_list_offset = 0,
     cs_header_offset = 49152, cs_has_in_volume_data = True, cs_snapshot_identifier = Some g\<rparr>"

lemma dx_storage: "length (BitmapSet_storage dx_blocks) = 1"
  by (simp add: dx_blocks_def BitmapSet_storage_def ReallocVector_contents_def BitmapSet_insert_def insert_aligned_def BitmapSet_new_def
      block_index_def ReallocVector_resize_def resize_allocation_def new_reservation_size_def ReallocVector_new_def
      ReallocVector_max_size_def ReallocVector_get_def ReallocVector_set_def realloc_zeroed_def mul64_def add64_def Let_def split: prod.splits)

lemma dx_bitmap: "\<exists>out. MakeDirtyBitmap (\<lambda>_. True) Arm64 (dx_map\<lparr>dm_volume_size := 12582912\<rparr>) = Inr out"
  by (simp add: MakeDirtyBitmap_def ReduceBitmap_def ex_resize [simplified] ebind_def FailFastMaybeCast_def TryCast_def FailFastCast_def
      cast_needs_check_def u64_def in_type_def dx_map_def length_storage_bytes dx_storage)

section \<open>The environment of the views\<close>

definition dx_start :: start_replies where
  "dx_start = \<lparr>st_unique_name = ''N'', st_create_event = None, st_executable = ''X'', st_set_environment = None, st_create_pipe = None,
     st_write_password = None, st_write_newline = None, st_start = \<lambda>_. Inl FastFail\<rparr>"

text \<open>Opening the two devices gives the two snapshots; the processes fail to start, which the device does not notice.\<close>

definition dx_views :: view_system where
  "dx_views = \<lparr>vw_nt = ex_nt, vw_alloc = \<lambda>_. True, vw_open = \<lambda>s. Inr (if s = ''A'' then ex_volume else ex_volume2), vw_alignment = \<lambda>_. 512,
     vw_temporary_path = ''T'', vw_is_directory = \<lambda>_. True, vw_make_directory = None, vw_endpoint = ''E'', vw_synthetic = dx_start,
     vw_real = dx_start, vw_server = None, vw_resume = (0, FastFail), vw_synthetic_wait = (0, [], None), vw_real_wait = (0, [], None),
     vw_verify_cancel = None, vw_exit = (0, []), vw_synthetic_destroy = (True, None), vw_real_destroy = (True, None)\<rparr>"

lemma dx_load_of: "load_of dx_views dx_report = Inr dx_allocation"
  by (simp add: load_of_def dx_views_def dx_report_def dx_interval_def dx_load)

lemma dx_verified_views:
  "\<exists>msgs. RunIncrementalVerification c (load_of dx_views) (\<lambda>_. ({dx_io}, {dx_io})) (\<lambda>_. (dx_streams, dx_streams)) None
     [dx_report] 0 0 (Some (Inr (msgs, 0)))"
  by (rule dx_verification [of "load_of dx_views", OF dx_load_of])

lemma dx_snapshots_ok: "snapshots_ok dx_views (\<lambda>_. ({dx_io}, {dx_io})) (\<lambda>_. ex_raw) (\<lambda>_. ex_raw) dx_report"
  using ex_volume_ok ex_volume2_ok ex_handle_ok(2) dx_map_ok dx_io_ok dx_load_of
  by (simp add: snapshots_ok_def, simp add: dx_views_def dx_report_def dx_interval_def)

lemma dx_device: "\<exists>d. snd (synthetic_device dx_views dx_interval dx_map (no_views 0)) = Inr d"
  by (simp add: synthetic_device_def dx_views_def dx_interval_def ex_open_eq SyntheticBackupBlockDevice_FromBlockDevices_def Let_def)

section \<open>A manifest\<close>

text \<open>Parsing the form of an identifier, as text and as UTF-16.\<close>

definition dx_iid :: "string \<Rightarrow> int + guid" where
  "dx_iid s = (case read_guid s of Some g \<Rightarrow> Inr g | None \<Rightarrow> Inl (- 2147024809))"

lemma dx_iid_ok: "dx_iid (FormatGuid True g) = Inr g"
  by (simp add: dx_iid_def read_guid_FormatGuid)

definition dx_narrow :: "wstring \<Rightarrow> string" where
  "dx_narrow s = map (\<lambda>w. char_of (unat w)) s"

lemma dx_narrow_utf16: "dx_narrow (utf16 s) = s"
  by (simp add: dx_narrow_def utf16_def comp_def unsigned_of_nat)

definition dx_snapshots :: "Snapshot list" where
  "dx_snapshots = [\<lparr>sn_identifier = 7, sn_original_volume = volume_name 5, sn_device = ''D7''\<rparr>,
     \<lparr>sn_identifier = 8, sn_original_volume = volume_name 6, sn_device = ''D8''\<rparr>]"

definition dx_facts :: "guid \<Rightarrow> volume_facts" where
  "dx_facts g = \<lparr>vf_paths_probe = True, vf_paths = Some (utf16 ''C:'' @ [0, 0]), vf_label = Some (utf16 ''data'' @ [0]),
     vf_mount_manager_id = Some [1, 2], vf_file_system = Some (utf16 ''NTFS'')\<rparr>"

definition dx_runtime :: "(wstring \<Rightarrow> json option) \<Rightarrow> manifest_system" where
  "dx_runtime parse = \<lparr>mn_iid = dx_iid \<circ> dx_narrow, mn_narrow = dx_narrow, mn_wide = utf16, mn_parse = parse,
     mn_stringify = \<lambda>_. utf16 ''{}'', mn_type_error = 0\<rparr>"

text \<open>The runtime has written one object and reads it back.\<close>

definition dx_json :: "json result" where
  "dx_json = manifest_object (dx_runtime (\<lambda>_. None)) dx_facts None 9 dx_snapshots ''''"

definition dx_system :: manifest_system where
  "dx_system = dx_runtime (\<lambda>s. if s = utf16 ''{}'' then (case dx_json of Inr j \<Rightarrow> Some j | Inl _ \<Rightarrow> None) else None)"

lemma dx_written: "manifest_object dx_system dx_facts None 9 dx_snapshots '''' = dx_json"
proof -
  have "add_snapshot_json dx_system dx_facts = add_snapshot_json (dx_runtime (\<lambda>_. None)) dx_facts"
    by (simp add: fun_eq_iff add_snapshot_json_def volume_json_def dx_system_def dx_runtime_def)
  then show ?thesis by (simp add: dx_json_def manifest_object_def)
qed

lemma dx_manifest_ok:
  "manifest_system_ok dx_system" "of_volumes [5, 6] dx_snapshots"
  "reads_back dx_system (manifest_object dx_system dx_facts None 9 dx_snapshots '''')"
proof -
  show "manifest_system_ok dx_system"
    by (simp add: manifest_system_ok_def dx_system_def dx_runtime_def to_hstring_def dx_narrow_utf16 dx_iid_ok)
  show "of_volumes [5, 6] dx_snapshots" by (simp add: of_volumes_def dx_snapshots_def)
  show "reads_back dx_system (manifest_object dx_system dx_facts None 9 dx_snapshots '''')"
    unfolding dx_written reads_back_def
  proof (intro allI impI)
    fix j assume j: "dx_json = Inr j"
    show "mn_parse dx_system (mn_wide dx_system (mn_narrow dx_system (mn_stringify dx_system j))) = Some j"
      unfolding dx_system_def dx_runtime_def by (simp add: dx_narrow_utf16 j)
  qed
qed

definition dx_query :: "guid \<Rightarrow> SnapshotProperties option" where
  "dx_query i =
     (if i = 7 then Some \<lparr>sp_snapshot_set_identifier = 9, sp_original_volume = volume_name 5, sp_device = ''D7''\<rparr>
      else if i = 8 then Some \<lparr>sp_snapshot_set_identifier = 9, sp_original_volume = volume_name 6, sp_device = ''D8''\<rparr>
      else None)"

lemma dx_query_ok:
  "\<forall>i p. dx_query i = Some p \<longrightarrow> (\<exists>r. ParseVolumeGuid dx_iid (sp_original_volume p) = Inr r)"
  "\<forall>s \<in> set dx_snapshots. dx_query (sn_identifier s) =
     Some \<lparr>sp_snapshot_set_identifier = 9, sp_original_volume = sn_original_volume s, sp_device = sn_device s\<rparr>"
  by (auto simp: dx_query_def dx_snapshots_def parse_volume dx_iid_ok split: if_splits)

section \<open>A run of the diagnostics\<close>

definition dx_calls :: diagnostic_calls where
  "dx_calls = \<lparr>dc_create_error = None, dc_build = \<lambda>_. Inr dx_map, dc_verify = \<lambda>_ _ _. Inr ([], 0), dc_views = \<lambda>_ _ _ _. ([], Inr 0),
     dc_signaled_expose = False, dc_signaled_verify = False\<rparr>"

definition dx_options :: IncrementalDiagnosticOptions where
  "dx_options = \<lparr>od_print_statistics = False, od_verify = True, od_expose_synthetic_backup = False, od_verify_synthetic_backup = False,
     od_backup_view_mount_root = None, od_filesystem_verification_percentage = 100, od_baseline_snapshot_identifier = None,
     od_payload_snapshot_identifier = None, od_volume_override = []\<rparr>"

definition dx_baselines :: "AvailableBaseline list" where
  "dx_baselines = [\<lparr>ab_volume_identifier = 5, ab_snapshot_identifier = 2, ab_volume = volume_name 5, ab_device = ''A''\<rparr>]"

lemma dx_diagnostics:
  "\<exists>msgs. RunIncrementalDiagnostics dx_calls dx_options Inr None (\<lambda>_. Inr dx_snapshots) ([], Inr (Inr dx_baselines)) False None None = (msgs, Inr 0)"
proof -
  have other: "\<not> SameVolume (volume_name 5) (volume_name 6)"
    by code_simp
  have "AssociateSnapshotIntervals dx_baselines dx_snapshots = [interval_of (hd dx_baselines) (hd dx_snapshots)]"
    using other by (simp add: dx_baselines_def dx_snapshots_def SameVolume_def)
  then show ?thesis
    by (simp add: RunIncrementalDiagnostics_def RunSnapshotDiagnostics_def RunPayloadDiagnostics_def BuildDirtyBlockReports_def run_verification_def
        run_exposure_def run_view_verification_def mbind_def vss_operation_def dx_calls_def dx_options_def diagnostic_exit_code_def
        kTemporarySnapshotsComplete_def RunVssOperation_def no_result_def Let_def)
qed

end
