(* ===== verification/VssExample.thy ===== *)
theory VssExample
  imports DiagnosticProofs Examples
begin

text \<open>
  The image of a small volume with two shadow copies: 128 KiB in two clusters, with NTFS
  headers, a catalog of two stores, their headers, and a descriptor list of the older one.
\<close>

section \<open>The image\<close>

definition vx_ntfs :: "byte list" where
  "vx_ntfs = replicate 3 0 @ ntfs_signature @ le_bytes 2 (512 :: 16 word) @ replicate 27 0 @ le_bytes 8 (255 :: 64 word) @ replicate 464 0"

definition vx_volume_header :: "byte list" where
  "vx_volume_header = kVssIdentifier @ le_bytes 4 (1 :: 32 word) @ le_bytes 4 (1 :: 32 word) @ replicate 24 0 @
     le_bytes 8 (16384 :: 64 word) @ replicate 456 0"

text \<open>The header of a block: version 1, its record type and the offset of the next block.\<close>

definition vx_header :: "32 word \<Rightarrow> byte list" where
  "vx_header record_type = kVssIdentifier @ le_bytes 4 (1 :: 32 word) @ le_bytes 4 record_type @ replicate 16 0 @
     le_bytes 8 (0 :: 64 word) @ replicate 80 0"

definition vx_entry2 :: "guid \<Rightarrow> 64 word \<Rightarrow> byte list" where
  "vx_entry2 store creation_time = le_bytes 8 (2 :: 64 word) @ le_bytes 8 (131072 :: 64 word) @ le_bytes 16 store @ replicate 16 0 @
     le_bytes 8 creation_time @ replicate 72 0"

definition vx_entry3 :: "guid \<Rightarrow> 64 word \<Rightarrow> 64 word \<Rightarrow> byte list" where
  "vx_entry3 store list_offset header_offset = le_bytes 8 (3 :: 64 word) @ le_bytes 8 list_offset @ le_bytes 16 store @
     le_bytes 8 header_offset @ replicate 88 0"

definition vx_catalog :: "byte list" where
  "vx_catalog = vx_header 2 @ vx_entry2 101 1 @ vx_entry3 101 32768 49152 @ vx_entry2 102 2 @ vx_entry3 102 65536 81920 @
     replicate 15744 0"

definition vx_store_header :: "guid \<Rightarrow> byte list" where
  "vx_store_header snapshot = vx_header 4 @ replicate 16 0 @ le_bytes 16 snapshot @ replicate 16224 0"

definition vx_record :: "byte list" where
  "vx_record = le_bytes 8 (16384 :: 64 word) @ le_bytes 8 (0 :: 64 word) @ le_bytes 8 (98304 :: 64 word) @
     le_bytes 4 (0 :: 32 word) @ le_bytes 4 (0 :: 32 word)"

definition vx_list :: "byte list" where
  "vx_list = vx_header 3 @ vx_record @ replicate 16224 0"

lemma vx_lengths [simp]:
  "length vx_ntfs = 512" "length vx_volume_header = 512" "length (vx_header r) = 128" "length (vx_entry2 g t) = 128"
  "length (vx_entry3 g l h) = 128" "length vx_catalog = 16384" "length (vx_store_header g) = 16384" "length vx_record = 32"
  "length vx_list = 16384"
  by (simp_all add: vx_ntfs_def ntfs_signature_def vx_volume_header_def vx_header_def vx_entry2_def vx_entry3_def vx_catalog_def
      vx_store_header_def vx_record_def vx_list_def length_kVssIdentifier)

definition vx_image :: "nat \<Rightarrow> byte" where
  "vx_image x =
     (if x < 512 then vx_ntfs ! x
      else if 7680 \<le> x \<and> x < 8192 then vx_volume_header ! (x - 7680)
      else if 16384 \<le> x \<and> x < 32768 then vx_catalog ! (x - 16384)
      else if 32768 \<le> x \<and> x < 49152 then vx_list ! (x - 32768)
      else if 49152 \<le> x \<and> x < 65536 then vx_store_header 1 ! (x - 49152)
      else if 81920 \<le> x \<and> x < 98304 then vx_store_header 2 ! (x - 81920)
      else if 130560 \<le> x \<and> x < 131072 then vx_ntfs ! (x - 130560)
      else 0)"

definition vx_source :: vss_source where
  "vx_source = \<lparr>vs_size = 131072, vs_sector_size = 0, vs_buffer_size = 16384, vs_read = \<lambda>p n. Inr (image_bytes vx_image p n)\<rparr>"

lemma vx_segment:
  assumes "\<And>i. i < length xs \<Longrightarrow> vx_image (p + i) = xs ! i"
  shows "image_bytes vx_image p (length xs) = xs"
  by (rule nth_equalityI) (simp_all add: assms)

lemma vx_read: "p + n \<le> 131072 \<Longrightarrow> RawSource_Read vx_source n p = Inr (image_bytes vx_image p n)"
  by (simp add: RawSource_Read_def vx_source_def ReadExact_def)

lemma vx_reads:
  "RawSource_Read vx_source 512 0 = Inr vx_ntfs" "RawSource_Read vx_source 512 130560 = Inr vx_ntfs"
  "RawSource_Read vx_source 512 7680 = Inr vx_volume_header" "RawSource_Read vx_source 16384 16384 = Inr vx_catalog"
  "RawSource_Read vx_source 16384 32768 = Inr vx_list" "RawSource_Read vx_source 16384 49152 = Inr (vx_store_header 1)"
  "RawSource_Read vx_source 16384 81920 = Inr (vx_store_header 2)"
  using vx_segment [of vx_ntfs 0] vx_segment [of vx_ntfs 130560] vx_segment [of vx_volume_header 7680] vx_segment [of vx_catalog 16384]
    vx_segment [of vx_list 32768] vx_segment [of "vx_store_header 1" 49152] vx_segment [of "vx_store_header 2" 81920]
  by (simp_all add: vx_read vx_image_def)

lemma vx_signature: "RawSource_Read vx_source 16 7680 = Inr kVssIdentifier"
proof -
  have "vx_image (7680 + i) = kVssIdentifier ! i" if "i < length kVssIdentifier" for i
    using that length_kVssIdentifier by (simp add: vx_image_def vx_volume_header_def nth_append)
  then show ?thesis using vx_segment [of kVssIdentifier 7680] length_kVssIdentifier by (simp add: vx_read)
qed

section \<open>Reading it\<close>

lemma vx_number:
  fixes w :: "'a::len word"
  assumes "LENGTH('a) = 8 * n" "take n (drop p data) = le_bytes n w"
  shows "ReadField data p = w"
  using le_word_bytes [of n w] assms by (simp add: ReadField_def)

lemma vx_fields:
  "ReadField vx_ntfs 11 = (512 :: 16 word)" "ReadField vx_ntfs 40 = (255 :: 64 word)" "take 8 (drop 3 vx_ntfs) = ntfs_signature"
  "ReadField vx_volume_header 16 = (1 :: 32 word)" "ReadField vx_volume_header 20 = (1 :: 32 word)"
  "ReadField vx_volume_header 48 = (16384 :: 64 word)" "take 8 vx_volume_header = take 8 kVssIdentifier"
  by (rule vx_number | simp add: vx_ntfs_def vx_volume_header_def length_kVssIdentifier ntfs_signature_def; fail)+

lemma vx_header_fields:
  "ReadField (vx_header r @ data) 16 = (1 :: 32 word)" "ReadField (vx_header r @ data) 20 = r"
  "ReadField (vx_header r @ data) 40 = (0 :: 64 word)" "take 16 (vx_header r @ data) = kVssIdentifier"
  by (rule vx_number | simp add: vx_header_def length_kVssIdentifier; fail)+

lemma vx_entry_fields:
  "ReadField (vx_entry2 g t) 0 = (2 :: 64 word)" "ReadField (vx_entry2 g t) 8 = (131072 :: 64 word)" "ReadField (vx_entry2 g t) 16 = g"
  "ReadField (vx_entry2 g t) 48 = t"
  "ReadField (vx_entry3 g l h) 0 = (3 :: 64 word)" "ReadField (vx_entry3 g l h) 8 = l" "ReadField (vx_entry3 g l h) 16 = g"
  "ReadField (vx_entry3 g l h) 32 = h"
  by (rule vx_number | simp add: vx_entry2_def vx_entry3_def; fail)+

lemma vx_record_fields:
  "ReadField vx_record 0 = (16384 :: 64 word)" "ReadField vx_record 8 = (0 :: 64 word)" "ReadField vx_record 16 = (98304 :: 64 word)"
  "ReadField vx_record 24 = (0 :: 32 word)" "ReadField vx_record 28 = (0 :: 32 word)"
  by (rule vx_number | simp add: vx_record_def; fail)+

lemma vx_zero: "p + LENGTH('a) div 8 \<le> n \<Longrightarrow> LENGTH('a) = 8 * k \<Longrightarrow> ReadField (replicate n 0) p = (0 :: 'a::len word)"
proof -
  assume p: "p + LENGTH('a) div 8 \<le> n" and k: "LENGTH('a) = 8 * k"
  have "le_bytes k (0 :: 'a word) = replicate k 0" by (simp add: le_bytes_def map_replicate_const)
  then show ?thesis using p k by (intro vx_number [of k]) simp_all
qed

lemma vx_identifier: "HasIdentifier (vx_header r @ data) 8" "HasIdentifier (vx_header r @ data) 16"
proof -
  have "take 8 (vx_header r @ data) = take 8 (take 16 (vx_header r @ data))" by (simp only: take_take) simp
  then show "HasIdentifier (vx_header r @ data) 8" unfolding vx_header_fields(4) by (simp add: HasIdentifier_def length_kVssIdentifier)
  show "HasIdentifier (vx_header r @ data) 16"
    by (simp only: HasIdentifier_def vx_header_fields(4)) (simp add: length_kVssIdentifier)
qed

lemma vx_valid: "ValidateNtfsVolume vx_source = Inr ()"
proof -
  have "ParseNtfsHeader vx_ntfs = Inr \<lparr>nh_bytes_per_sector = 512, nh_volume_size = 131072\<rparr>"
    by (simp add: ParseNtfsHeader_def ReadField64_def vx_fields Let_def mul64_def add64_def)
  then show ?thesis by (simp add: ValidateNtfsVolume_def vx_reads sub64_def)
qed

lemma vx_catalog_offset: "ReadCatalogOffset vx_volume_header = Inr 16384"
  by (simp add: ReadCatalogOffset_def HasIdentifier_def vx_fields length_kVssIdentifier ReadField64_def Let_def
      CheckSignedMetadataOffset_def in_type_def i64_def guard_err_def)

section \<open>The catalog\<close>

text \<open>Cutting a block into slots of equal length.\<close>

definition slots :: "nat \<Rightarrow> nat \<Rightarrow> byte list \<Rightarrow> byte list list" where
  "slots k n data = map (\<lambda>i. take k (drop (k * i) data)) [0..<n]"

lemma slots_Suc: "length e = k \<Longrightarrow> slots k (Suc n) (e @ rest) = e # slots k n rest"
  unfolding slots_def map_upt_Suc by (simp add: add.commute)

lemma slots_zero: "slots k n (replicate (k * n) 0) = replicate n (replicate k 0)"
proof (rule nth_equalityI)
  fix i assume "i < length (slots k n (replicate (k * n) 0))"
  then have i: "i < n" by (simp add: slots_def)
  then have "k * i + k \<le> k * n" using mult_le_mono2 [of "Suc i" n k] by simp
  then have "min (k * n - k * i) k = k" by simp
  then show "slots k n (replicate (k * n) 0) ! i = replicate n (replicate k 0) ! i" using i by (simp add: slots_def)
qed (simp add: slots_def)

lemma vx_entries:
  "catalog_entries vx_catalog =
     [vx_entry2 101 1, vx_entry3 101 32768 49152, vx_entry2 102 2, vx_entry3 102 65536 81920] @ replicate 123 (replicate 128 0)"
proof -
  have "catalog_entries vx_catalog = slots 128 (Suc (Suc (Suc (Suc 123)))) (drop 128 vx_catalog)"
    unfolding catalog_entries_def slots_def drop_drop by (rule arg_cong2 [where f = map]) (auto simp: add.commute)
  also have "drop 128 vx_catalog = vx_entry2 101 1 @ vx_entry3 101 32768 49152 @ vx_entry2 102 2 @ vx_entry3 102 65536 81920 @
      replicate (128 * 123) 0" by (simp add: vx_catalog_def)
  finally have "catalog_entries vx_catalog = vx_entry2 101 1 # vx_entry3 101 32768 49152 # vx_entry2 102 2 #
      vx_entry3 102 65536 81920 # slots 128 123 (replicate (128 * 123) 0)"
    by (simp only: slots_Suc vx_lengths)
  then show ?thesis by (simp only: slots_zero append_Cons append_Nil)
qed

lemma vx_skip: "efold catalog_entry stores (replicate n (replicate 128 0)) = Inr stores"
proof (induction n)
  case (Suc n)
  have "ReadField (replicate 128 0) 0 = (0 :: 64 word)" by (rule vx_zero [of _ _ 8]) simp_all
  then show ?case using Suc by (simp add: catalog_entry_def ReadField64_def)
qed simp

definition vx_stores :: "CatalogStore list" where
  "vx_stores =
     [\<lparr>cs_store_identifier = 101, cs_volume_size = 131072, cs_creation_time = 1, cs_list_offset = 32768, cs_header_offset = 49152,
       cs_has_in_volume_data = True, cs_snapshot_identifier = Some 1\<rparr>,
      \<lparr>cs_store_identifier = 102, cs_volume_size = 131072, cs_creation_time = 2, cs_list_offset = 65536, cs_header_offset = 81920,
       cs_has_in_volume_data = True, cs_snapshot_identifier = Some 2\<rparr>]"

lemma vx_catalog_entries:
  "efold catalog_entry [] (catalog_entries vx_catalog) = Inr (map (\<lambda>s. s\<lparr>cs_snapshot_identifier := None\<rparr>) vx_stores)"
  unfolding vx_entries efold_append
  by (simp add: catalog_entry_def ReadField64_def vx_entry_fields Let_def CheckSignedMetadataOffset_def in_type_def i64_def
      guard_err_def vx_skip vx_stores_def)

lemma vx_visit:
  assumes "p mod 16384 = 0" "p < two64"
  shows "\<exists>v. VisitMetadataBlock (\<lambda>_. True) (MaybeBitmapSet_new 131071) p description = Inr v"
proof -
  have "and_not64 p (vss_kBlockSize - 1) = p" using assms and_not64_block [of p] by (simp add: metadata_block_def)
  then show ?thesis
    by (simp add: VisitMetadataBlock_def MaybeBitmapSet_insert_def MaybeBitmapSet_new_def assms maybe_convert_to_bitmap_def Let_def)
qed

lemma vx_catalog_read:
  "ReadCatalog (\<lambda>_. True) vx_source 16384 = Some (Inr (map (\<lambda>s. s\<lparr>cs_snapshot_identifier := None\<rparr>) vx_stores))"
proof -
  obtain v where v: "VisitMetadataBlock (\<lambda>_. True) (MaybeBitmapSet_new 131071) 16384 ''the VSS catalog chain repeated a metadata block'' = Inr v"
    using vx_visit by fastforce
  have h: "HasIdentifier vx_catalog 8" "ReadField vx_catalog 16 = (1 :: 32 word)" "ReadField vx_catalog 20 = (2 :: 32 word)"
    "ReadField vx_catalog 40 = (0 :: 64 word)"
    unfolding vx_catalog_def by (rule vx_identifier vx_header_fields)+
  have "catalog_block (\<lambda>_. True) vx_source (MaybeBitmapSet_new 131071, []) 16384 =
      Inr ((v, map (\<lambda>s. s\<lparr>cs_snapshot_identifier := None\<rparr>) vx_stores), 0)"
    by (simp add: catalog_block_def vx_reads v h ReadField64_def CheckSignedMetadataOffset_def in_type_def i64_def guard_err_def
        vx_catalog_entries Let_def)
  then show ?thesis
    by (simp add: ReadCatalog_def sub64_def vx_source_def [THEN arg_cong [of _ _ vs_size]] chain.simps)
qed

lemma vx_catalog_store: "ReadStoreCatalog (\<lambda>_. True) (Inr vx_source) = Some (Inr vx_stores)"
proof -
  have h: "ParseStoreBlockHeader (vx_store_header g) = Inr \<lparr>sh_record_type = 4, sh_next_offset = 0\<rparr>" for g
    using vx_identifier(2) vx_header_fields
    by (simp add: ParseStoreBlockHeader_def vx_store_header_def ReadField64_def length_kVssIdentifier)
  have g: "ReadField (vx_store_header g) 144 = g" for g :: guid
    by (rule vx_number [of 16]) (simp_all add: vx_store_header_def)
  have "ReadStoreHeaders vx_source (map (\<lambda>s. s\<lparr>cs_snapshot_identifier := None\<rparr>) vx_stores) = Inr vx_stores"
    by (simp add: vx_stores_def read_store_header_def vx_reads h g)
  then show ?thesis
    using vx_signature
    by (simp add: ReadStoreCatalog_def ReadStores_def length_kVssIdentifier HasIdentifier_def vx_valid vx_reads vx_catalog_offset
        vx_catalog_read)
qed

section \<open>The descriptors\<close>

lemma vx_interval:
  "ReadBlockDescriptorIntervalCatalog (\<lambda>_. True) (Inr vx_source) 1 2 =
     Some (Inr \<lparr>ci_payload = vx_stores ! 1, ci_stores = [vx_stores ! 0]\<rparr>)"
proof -
  have "select_interval vx_stores 1 2 = Inr \<lparr>ci_payload = vx_stores ! 1, ci_stores = [vx_stores ! 0]\<rparr>"
    by (simp add: select_interval_def SelectCatalogStore_def vx_stores_def)
  then show ?thesis by (simp add: ReadBlockDescriptorIntervalCatalog_def vx_catalog_store)
qed

text \<open>A set of block offsets of this volume: one word is enough for it.\<close>

definition roomy :: "BitmapSet \<Rightarrow> bool" where
  "roomy s \<longleftrightarrow> bs_inv 16384 s \<and> rv_max (bm_words s) = 1"

lemma roomy_new: "roomy (BitmapSet_new 16384 131071)"
  by (simp add: roomy_def) (simp add: BitmapSet_new_def ReallocVector_new_def ReallocVector_max_size_def add64_def)

lemma roomy_insert:
  assumes "roomy s" "v mod 16384 = 0" "v < 1048576"
  shows "\<exists>r s'. BitmapSet_insert (\<lambda>_. True) 16384 s v = Inr (r, s') \<and> roomy s'"
proof -
  have "v div 16384 div 64 < 1" using assms(3) by linarith
  then obtain r s' where i: "BitmapSet_insert (\<lambda>_. True) 16384 s v = Inr (r, s')"
    using insert_aligned_total [of 16384 s v "\<lambda>_. True"] assms by (auto simp: roomy_def BitmapSet_insert_def)
  then show ?thesis using BitmapSet_insert_spec [OF _ _ i] assms by (auto simp: roomy_def)
qed

lemma roomy_range:
  assumes "roomy s" "a mod 16384 = 0" "b mod 16384 = 0" "a \<le> b" "b \<le> 1048576"
  shows "\<exists>s'. BitmapSet_insert_range (\<lambda>_. True) 16384 s a b = Inr s' \<and> roomy s'"
proof -
  have "(b div 16384 - 1) div 64 < 1" using assms(5) by linarith
  then obtain s' where i: "BitmapSet_insert_range (\<lambda>_. True) 16384 s a b = Inr s'"
    using insert_range_total [of 16384 s b "\<lambda>_. True" a] assms by (auto simp: roomy_def)
  then show ?thesis using BitmapSet_insert_range_spec [OF _ _ i] assms by (auto simp: roomy_def)
qed

lemma roomy_size: "roomy s \<Longrightarrow> rv_size (bm_words s) \<le> 1"
  by (auto simp: roomy_def bs_inv_def rv_inv_def)

lemma merge_fold_max: "rv_max (fst (snd (foldl merge_word (c, d, s) ns))) = rv_max d"
  by (induction ns arbitrary: c d s) (simp_all add: merge_word_def Let_def ReallocVector_set_def)

lemma merge_max:
  assumes "bs_inv B d" "BitmapSet_merge heap False d s = Inr (d', s')"
  shows "rv_max (bm_words d') = rv_max (bm_words d)"
proof (cases "BitmapSet_empty s")
  case False
  obtain ws where ws: "(if rv_size (bm_words d) < rv_size (bm_words s)
      then ReallocVector_resize heap (bm_words d) (rv_size (bm_words s)) else Inr (bm_words d)) = Inr ws"
    and r0: "(case foldl merge_word (0, ws, bm_words s) [0..<rv_size (bm_words s)] of
      (c, dst, src) \<Rightarrow> Inr (\<lparr>bm_words = dst, bm_size = add64 (bm_size d) c\<rparr>,
        \<lparr>bm_words = src, bm_size = sub64 (bm_size s) c\<rparr>)) = (Inr (d', s') :: _ result)"
    using assms(2) False by (auto simp: BitmapSet_merge_def Let_def err_simps)
  obtain c dst src where f: "foldl merge_word (0, ws, bm_words s) [0..<rv_size (bm_words s)] = (c, dst, src)" by (metis prod_cases3)
  have "rv_max ws = rv_max (bm_words d)"
    using ws resize_spec(3) assms(1) by (auto simp: bs_inv_def split: if_splits)
  then show ?thesis using r0 f merge_fold_max [of 0 ws "bm_words s" "[0..<rv_size (bm_words s)]"] by auto
qed (use assms(2) in \<open>simp add: BitmapSet_merge_def\<close>)

lemma roomy_merge:
  assumes "roomy s" "roomy t"
  shows "\<exists>s' t'. BitmapSet_merge (\<lambda>_. True) False s t = Inr (s', t') \<and> roomy s'"
proof -
  have inv: "bs_inv 16384 s" "bs_inv 16384 t" "rv_inv (bm_words s)" "rv_max (bm_words s) = 1"
    using assms by (auto simp: roomy_def bs_inv_def)
  obtain ws where "ReallocVector_resize (\<lambda>_. True) (bm_words s) (rv_size (bm_words t)) = Inr ws"
    using resize_succeeds [of "bm_words s" "rv_size (bm_words t)" "\<lambda>_. True"] inv roomy_size [OF assms(2)] by auto
  then have "\<exists>s' t'. BitmapSet_merge (\<lambda>_. True) False s t = Inr (s', t')"
    by (auto simp: BitmapSet_merge_def Let_def split: prod.split)
  then obtain s' t' where m: "BitmapSet_merge (\<lambda>_. True) False s t = Inr (s', t')" by blast
  then show ?thesis using BitmapSet_merge_spec [OF inv(1,2) m] merge_max [OF inv(1) m] inv by (auto simp: roomy_def)
qed

lemma vx_add_offset:
  assumes "roomy s" "offset mod 16384 = 0" "offset < 131072"
  shows "\<exists>s'. add_offset (\<lambda>_. True) 131072 s offset = Inr s' \<and> roomy s'"
proof -
  have "and_not64 offset (vss_kBlockSize - 1) = offset" using assms and_not64_block [of offset] by (simp add: metadata_block_def)
  then show ?thesis using roomy_insert [OF assms(1,2)] assms(3) by (auto simp: add_offset_def)
qed

definition vx_descriptor :: BlockDescriptor where
  "vx_descriptor = \<lparr>bd_original_offset = 16384, bd_relative_offset = 0, bd_store_offset = 98304, bd_flags = 0, bd_bitmap = 0\<rparr>"

lemma vx_add_descriptor:
  assumes "roomy s"
  shows "\<exists>s'. add_descriptor (\<lambda>_. True) 131072 s vx_descriptor = Inr s' \<and> roomy s'"
proof -
  obtain s1 where s1: "add_offset (\<lambda>_. True) 131072 s 16384 = Inr s1" "roomy s1" using vx_add_offset [OF assms, of 16384] by auto
  obtain s2 where "add_offset (\<lambda>_. True) 131072 s1 98304 = Inr s2" "roomy s2" using vx_add_offset [OF s1(2), of 98304] by auto
  then show ?thesis using s1(1) by (simp add: add_descriptor_def vx_descriptor_def)
qed

lemma vx_slots: "descriptor_slots vx_list = vx_record # replicate 507 (replicate 32 0)"
proof -
  have "descriptor_slots vx_list = slots 32 (Suc 507) (drop 128 vx_list)"
    unfolding descriptor_slots_def slots_def drop_drop by (rule arg_cong2 [where f = map]) (auto simp: add.commute)
  also have "drop 128 vx_list = vx_record @ replicate (32 * 507) 0" by (simp add: vx_list_def)
  finally have "descriptor_slots vx_list = vx_record # slots 32 507 (replicate (32 * 507) 0)" by (simp only: slots_Suc vx_lengths)
  then show ?thesis by (simp only: slots_zero)
qed

lemma vx_parse: "parse_descriptor vx_record = vx_descriptor"
  by (simp add: parse_descriptor_def ReadField64_def vx_record_fields vx_descriptor_def)

lemma vx_zero_record: "empty_descriptor (parse_descriptor (replicate 32 0))"
proof -
  have "ReadField (replicate 32 0) p = (0 :: 64 word)" if "p \<le> 24" for p using that by (intro vx_zero [of _ _ 8]) simp_all
  moreover have "ReadField (replicate 32 0) p = (0 :: 32 word)" if "p \<le> 28" for p using that by (intro vx_zero [of _ _ 4]) simp_all
  ultimately show ?thesis by (simp add: empty_descriptor_def parse_descriptor_def ReadField64_def)
qed

lemma vx_no_records: "efold (list_record h c) st (replicate n (replicate 32 0)) = Inr st"
  by (induction n) (simp_all add: list_record_def vx_zero_record)

lemma vx_state: "\<exists>st st'. DescriptorState_new 131072 = Inr st \<and> DescriptorState_Insert (\<lambda>_. True) st vx_descriptor = Inr st'"
proof -
  obtain st where st: "DescriptorState_new 131072 = Inr st" by (simp add: DescriptorState_new_def in_type_def i64_def)
  have "insert_descriptor 131072 ({}, {}) vx_descriptor \<noteq> None"
    by (simp add: insert_descriptor_def vx_descriptor_def metadata_block_def Let_def)
  then show ?thesis
    using DescriptorState_Insert_refines [OF DescriptorState_new_inv(1) [OF st], of "\<lambda>_. True" vx_descriptor] DescriptorState_new_inv [OF st] st
    by (auto split: sum.splits)
qed

lemma vx_read_list:
  assumes "roomy s"
  shows "\<exists>counts s'. ReadDescriptorList (\<lambda>_. True) vx_source (vx_stores ! 0) (add_descriptor (\<lambda>_. True) 131072) s = Some (Inr (counts, s')) \<and>
    roomy s'"
proof -
  let ?c = "add_descriptor (\<lambda>_. True) 131072"
  obtain v where v: "VisitMetadataBlock (\<lambda>_. True) (MaybeBitmapSet_new 131071) 32768
      ''the VSS descriptor-list chain repeated a metadata block'' = Inr v" using vx_visit by fastforce
  obtain st st' where st: "DescriptorState_new 131072 = Inr st" "DescriptorState_Insert (\<lambda>_. True) st vx_descriptor = Inr st'"
    using vx_state by blast
  obtain s' where s': "?c s vx_descriptor = Inr s'" "roomy s'" using vx_add_descriptor [OF assms] by blast
  have h: "ParseStoreBlockHeader vx_list = Inr \<lparr>sh_record_type = 3, sh_next_offset = 0\<rparr>"
    using vx_identifier(2) vx_header_fields
    by (simp add: ParseStoreBlockHeader_def vx_list_def ReadField64_def length_kVssIdentifier)
  have r: "list_record (\<lambda>_. True) ?c lst vx_record = Inr (lst\<lparr>ls_state := st', ls_consumed := s',
      ls_counts := (ls_counts lst)\<lparr>descriptor_count := add64 (descriptor_count (ls_counts lst)) 1\<rparr>\<rparr>)"
    if "ls_state lst = st" "ls_consumed lst = s" for lst
  proof -
    have "\<not> empty_descriptor vx_descriptor" "bd_flags vx_descriptor AND kForwarderFlag = 0"
      by (simp_all add: empty_descriptor_def vx_descriptor_def or_eq_0_iff)
    then show ?thesis using that st(2) s'(1) by (simp add: list_record_def vx_parse)
  qed
  have "\<exists>lst. list_block (\<lambda>_. True) vx_source ?c
       \<lparr>ls_visited = MaybeBitmapSet_new 131071, ls_state = st, ls_consumed = s, ls_counts = \<lparr>list_block_count = 0, descriptor_count = 0\<rparr>\<rparr>
       32768 = Inr (lst, 0) \<and> ls_consumed lst = s'"
    by (simp add: list_block_def vx_reads v h vx_slots r vx_no_records)
  then show ?thesis
    using s'(2) st(1) by (auto simp: ReadDescriptorList_def vx_stores_def vx_source_def [THEN arg_cong [of _ _ vs_size]] sub64_def chain.simps)
qed

lemma vx_enumerate:
  "\<exists>counts s. EnumerateBlockDescriptors (\<lambda>_. True) (Inr vx_source) [vx_stores ! 0] (add_descriptor (\<lambda>_. True) 131072)
     (BitmapSet_new 16384 131071) = Some (Inr (counts, s)) \<and> roomy s"
  using vx_read_list [OF roomy_new] by (auto simp: EnumerateBlockDescriptors_def)

section \<open>The two snapshots\<close>

definition vx_before :: volume where
  "vx_before = ex_volume\<lparr>vol_length := ok_call 131072, vol_ntfs_data := ok_call (2, 65536), vol_refs_data := ok_call (2, 65536)\<rparr>"

definition vx_after :: volume where
  "vx_after = ex_volume2\<lparr>vol_length := ok_call 131072, vol_ntfs_data := ok_call (2, 65536), vol_refs_data := ok_call (2, 65536)\<rparr>"

definition vx_bitmap :: AllocationBitmap where
  "vx_bitmap = ex_bitmap\<lparr>cluster_size := 65536, cluster_shift := 16\<rparr>"

definition vx_bitmap2 :: AllocationBitmap where
  "vx_bitmap2 = ex_bitmap2\<lparr>cluster_size := 65536, cluster_shift := 16\<rparr>"

lemma vx_volumes_ok: "volume_ok ex_raw vx_before" "volume_ok ex_raw vx_after"
proof -
  have "(65536 :: nat) = 2 ^ 16" by simp
  then have "geometry_ok (2, 65536)" unfolding geometry_ok_def by (auto intro: exI [of _ 16])
  moreover have "io_output (vol_bytes_per_sector ex_volume) = 512" "io_output (vol_bytes_per_sector ex_volume2) = 512"
    by (simp_all add: ex_volume2_def ex_volume_def ok_call_def)
  ultimately show "volume_ok ex_raw vx_before" "volume_ok ex_raw vx_after"
    using ex_volume_ok ex_volume2_ok by (auto simp: volume_ok_def vx_before_def vx_after_def ok_call_def)
qed

lemma vx_load: "LoadAllocationBitmap vx_before = Inr vx_bitmap" "LoadAllocationBitmap vx_after = Inr vx_bitmap2"
proof -
  have "CountTrailingZeros 65536 = 16" using CountTrailingZeros_power [of 16] by simp
  then show "LoadAllocationBitmap vx_before = Inr vx_bitmap" "LoadAllocationBitmap vx_after = Inr vx_bitmap2"
    by (simp_all add: open_simps vx_before_def vx_after_def vx_bitmap_def vx_bitmap2_def ex_volume2_def ex_volume_def
        ex_bitmap2_def ex_bitmap_def ex_storage_def ebind_def)
qed

lemma vx_open:
  "FromFilename ex_nt (\<lambda>_. True) (Inr vx_before) = Inr (ex_device\<lparr>wb_length := 131072, wb_bitmap := Some vx_bitmap\<rparr>)"
  "FromFilename ex_nt (\<lambda>_. True) (Inr vx_after) = Inr (ex_device\<lparr>wb_length := 131072, wb_bitmap := Some vx_bitmap2\<rparr>)"
  using vx_load by (simp_all add: FromFilename_def WindowsBlockDevice_FromHandle_def QueryDeviceLength_def Ioctl_def
      check_read_only_def TryCast_def FailFastCast_def u64_def vx_before_def vx_after_def ex_volume2_def ex_volume_def ok_call_def ebind_def
      ex_device_def)

lemma vx_runs:
  "changed_runs (\<lambda>_. True) 16384 65536 2 0 1 (BitmapSet_new 16384 131071, 0, 0) =
     Inr (BitmapSet_new 16384 131071, 0, 65536)"
proof -
  have "after_run 1 = 2" "limit_bit 1 = 1"
    using CountTrailingZeros_power [of 1] by (simp_all add: after_run_def limit_bit_def CountTrailingZeros_one)
  moreover have "changed_runs (\<lambda>_. True) 16384 65536 2 0 0 st = Inr st" for st
    by (subst changed_runs.simps) simp
  ultimately show ?thesis
    by (subst changed_runs.simps)
      (simp add: CountTrailingZeros_one add64_def mul64_def add_cluster_range_def Let_def)
qed

lemma vx_words:
  "changed_words (\<lambda>_. True) 16384 65536 2 1 (1 # bs) (0 # bs) 0 (BitmapSet_new 16384 131071, 0, 0) =
     Inr (BitmapSet_new 16384 131071, 0, 65536)"
proof -
  have "changed_words (\<lambda>_. True) 16384 65536 2 1 (1 # bs) (0 # bs) 1 st = Inr st" for st
    by (subst changed_words.simps) simp
  then show ?thesis by (subst changed_words.simps) (simp add: LoadBitmapWord_def mul64_def vx_runs)
qed

lemma vx_changes:
  "\<exists>a. ReadAllocationChangeBlocks (\<lambda>_. True) 16384 ex_nt (\<lambda>_. True) (Inr vx_before) (Inr vx_after) = Inr a \<and>
     ac_volume_size a = 131072 \<and> roomy (ac_block_offsets a)"
proof -
  obtain s where "BitmapSet_insert_range (\<lambda>_. True) 16384 (BitmapSet_new 16384 131071) 0 65536 = Inr s" "roomy s"
    using roomy_range [OF roomy_new, of 0 65536] by auto
  moreover have "BitmapData vx_bitmap = [1, 0, 0, 0, 0, 0, 0, 0]" "BitmapData vx_bitmap2 = [0, 0, 0, 0, 0, 0, 0, 0]"
      "BitmapByteCount vx_bitmap = 1"
    using ex_data by (simp_all add: vx_bitmap_def vx_bitmap2_def BitmapData_def BitmapByteCount_def)
  moreover have "cluster_size vx_bitmap = 65536" "cluster_size vx_bitmap2 = 65536" "cluster_count vx_bitmap = 2" "cluster_count vx_bitmap2 = 2"
    by (simp_all add: vx_bitmap_def vx_bitmap2_def ex_bitmap_def ex_bitmap2_def)
  ultimately show ?thesis
    using vx_words [of "[0, 0, 0, 0, 0, 0, 0]"]
    by (auto simp: ReadAllocationChangeBlocks_def vx_open compare_bitmaps_def sub64_def)
qed

text \<open>System Volume Information is a directory whose own data fills the first cluster.\<close>

definition vx_svi :: svi_node where
  "vx_svi = SviNode None
     (\<lambda>_. \<lparr>pr_completed = True, pr_error = 0, pr_starting_vcn = 0, pr_extents = [(1, 0)]\<rparr>) (Inr []) [] None"

lemma vx_svi_ranges:
  assumes "v = vx_before \<or> v = vx_after"
  shows "EnumerateBlockRanges v (Inr (True, False)) vx_svi add_range default_options s =
    Some (add_range s 0 65536)"
proof -
  have g: "QueryVolumeGeometry v None = Inr (Inr (2, 65536))"
    using assms by (auto simp: open_simps vx_before_def vx_after_def ex_volume_def ex_volume2_def ebind_def)
  let ?ptr = "\<lambda>_ :: int. \<lparr>pr_completed = True, pr_error = 0, pr_starting_vcn = 0, pr_extents = [(1, 0)]\<rparr>"
  have "svi_range default_options 65536 0 1 = Some (0, 65536)"
    by (simp add: svi_range_def default_options_def Let_def mul64_def add64_def)
  then have "extent_loop add_range default_options 65536 0 [(1, 0)] s = add_range s 0 65536"
    by (simp add: SviAddRange_def FailFastCast_def TryCast_def u64_def split: prod.split option.split)
  then have "ReadExtents add_range default_options 65536 ?ptr s = Some (add_range s 0 65536)"
    unfolding ReadExtents_def by (subst ReadExtents_loop.simps) (simp split: prod.split option.split)
  then have "ReadObject add_range default_options 65536 True False vx_svi s = Some (add_range s 0 65536)"
    by (simp add: vx_svi_def and_then_opt_def and_then_def ReadNamedDataStreams_def split: prod.split option.split)
  then show ?thesis
    by (simp add: EnumerateBlockRanges_def g ReadTreeBlockOffsets_def OpenObject_def and_then_def vx_svi_def default_options_def)
qed

lemma vx_svi_blocks:
  assumes "sd_svi_volume a = Inr vx_before" "sd_svi_volume b = Inr vx_after"
    and "sd_svi_attributes a = Inr (True, False)" "sd_svi_attributes b = Inr (True, False)" "sd_svi_root a = vx_svi" "sd_svi_root b = vx_svi"
  shows "\<exists>s. read_svi_blocks (\<lambda>_. True) None a b 131072 = Some (Inr s) \<and> roomy s"
proof -
  obtain s1 where s1: "BitmapSet_insert_range (\<lambda>_. True) 16384 (BitmapSet_new 16384 131071) 0 65536 = Inr s1" "roomy s1"
    using roomy_range [OF roomy_new, of 0 65536] by auto
  obtain s2 where s2: "BitmapSet_insert_range (\<lambda>_. True) 16384 s1 0 65536 = Inr s2" "roomy s2"
    using roomy_range [OF s1(2), of 0 65536] by auto
  have "QueryDeviceLength vx_after = Inr (Inr 131072)"
    by (simp add: QueryDeviceLength_def Ioctl_def vx_after_def ok_call_def TryCast_def FailFastCast_def u64_def ebind_def)
  then show ?thesis
    using assms s1 s2 by (simp add: read_svi_blocks_def ReadBlockOffsets_def vx_svi_ranges insert_range_adder_def sub64_def)
qed

definition vx_baseline :: snapshot_device where
  "vx_baseline = \<lparr>sd_catalog = Inl FastFail, sd_descriptors = Inl FastFail, sd_volume = Inr vx_before,
     sd_svi_volume = Inr vx_before, sd_svi_attributes = Inr (True, False), sd_svi_root = vx_svi\<rparr>"

definition vx_payload :: snapshot_device where
  "vx_payload = \<lparr>sd_catalog = Inr vx_source, sd_descriptors = Inr vx_source, sd_volume = Inr vx_after,
     sd_svi_volume = Inr vx_after, sd_svi_attributes = Inr (True, False), sd_svi_root = vx_svi\<rparr>"

lemma vx_build:
  "\<exists>m. BuildDirtyBlockMap (\<lambda>_. True) ex_nt (\<lambda>_. True) None 1 2 vx_baseline vx_payload = Some (Inr m)"
proof -
  obtain a where a: "ReadAllocationChangeBlocks (\<lambda>_. True) 16384 ex_nt (\<lambda>_. True) (Inr vx_before) (Inr vx_after) = Inr a"
      "ac_volume_size a = 131072" "roomy (ac_block_offsets a)" using vx_changes by blast
  obtain s where s: "read_svi_blocks (\<lambda>_. True) None vx_baseline vx_payload 131072 = Some (Inr s)" "roomy s"
    using vx_svi_blocks [of vx_baseline vx_payload] by (auto simp: vx_baseline_def vx_payload_def)
  obtain counts d where d: "EnumerateBlockDescriptors (\<lambda>_. True) (Inr vx_source) [vx_stores ! 0] (add_descriptor (\<lambda>_. True) 131072)
      (BitmapSet_new 16384 131071) = Some (Inr (counts, d))" "roomy d" using vx_enumerate by blast
  obtain d1 t1 where m1: "BitmapSet_merge (\<lambda>_. True) False d (ac_block_offsets a) = Inr (d1, t1)" "roomy d1"
    using roomy_merge [OF d(2) a(3)] by blast
  obtain d2 t2 where m2: "BitmapSet_merge (\<lambda>_. True) False d1 s = Inr (d2, t2)" using roomy_merge [OF m1(2) s(2)] by blast
  have "cs_volume_size (vx_stores ! 1) = 131072" by (simp add: vx_stores_def)
  moreover have "sd_catalog vx_payload = Inr vx_source" "sd_descriptors vx_payload = Inr vx_source" "sd_volume vx_payload = Inr vx_after"
      "sd_volume vx_baseline = Inr vx_before" by (simp_all add: vx_payload_def vx_baseline_def)
  ultimately show ?thesis
    using a s(1) d(1) m1(1) m2 by (auto simp: BuildDirtyBlockMap_def vx_interval merge_blocks_def sub64_def simp del: One_nat_def)
qed

text \<open>What the parts of this map are.\<close>

lemma vx_records:
  assumes "store_records vx_source (vx_stores ! 0) ds"
  shows "ds = [vx_descriptor]"
proof -
  obtain blocks where b: "list_chain vx_source 32768 blocks" "ds = chain_records blocks"
    using assms by (auto simp: store_records_def vx_stores_def)
  have "ReadField vx_list 40 = (0 :: 64 word)" unfolding vx_list_def by (rule vx_header_fields)
  then have n: "ReadField64 vx_list 40 = 0" by (simp add: ReadField64_def)
  have "blocks = [(32768, vx_list)]"
  proof (cases blocks)
    case (Cons x rest)
    then have "x = (32768, vx_list)" "list_chain vx_source 0 rest" using b(1) n by (cases x; auto simp: vx_reads)+
    then show ?thesis using Cons by (cases rest) auto
  qed (use b in simp)
  moreover have "empty_descriptor (parse_descriptor (replicate 32 0))" by (rule vx_zero_record)
  moreover have "\<not> empty_descriptor vx_descriptor" by (simp add: empty_descriptor_def vx_descriptor_def or_eq_0_iff)
  ultimately show ?thesis using b(2) by (simp add: chain_records_def block_records_def vx_slots vx_parse)
qed

lemma vx_ranges: "svi_ranges vx_baseline l \<Longrightarrow> l = [(0, 65536)]" "svi_ranges vx_payload l \<Longrightarrow> l = [(0, 65536)]"
  by (auto simp: svi_ranges_def vx_baseline_def vx_payload_def vx_svi_ranges collect_adder_def)

lemma vx_differing: "differing_clusters vx_bitmap vx_bitmap2 = {0}"
  using ex_differing by (simp add: differing_clusters_def cluster_allocated_def cluster_bit_def BitmapByteCount_def BitmapData_def
      vx_bitmap_def vx_bitmap2_def)

lemma vx_blocks: "v mod 16384 = 0 \<and> v < 65536 \<longleftrightarrow> v \<in> {0, 16384, 32768, 49152 :: nat}"
  by auto

lemma vx_changed: "changed_blocks 16384 65536 {0} = {0, 16384, 32768, 49152}"
proof -
  have "v \<in> changed_blocks 16384 65536 {0} \<longleftrightarrow> v mod 16384 = 0 \<and> v < 65536" for v
    by (auto simp: changed_blocks_def intro: exI [of _ v])
  then show ?thesis using vx_blocks by blast
qed

lemma vx_range: "range_blocks 16384 [(0, 65536)] = {0, 16384, 32768, 49152}"
proof -
  have "v \<in> range_blocks 16384 [(0, 65536)] \<longleftrightarrow> v mod 16384 = 0 \<and> v < 65536" for v by (auto simp: range_blocks_def)
  then show ?thesis using vx_blocks by blast
qed

lemma vx_offsets: "offset_blocks 131072 (descriptor_offsets vx_descriptor) = {16384, 98304}"
proof -
  have "{x \<in> descriptor_offsets vx_descriptor. x < 131072} = {16384, 98304}"
    by (auto simp: descriptor_offsets_def vx_descriptor_def)
  then show ?thesis by (simp add: offset_blocks_def metadata_block_def)
qed

end
