(* ===== verification/IncrementalClaims.thy ===== *)
theory IncrementalClaims
  imports IncrementalExamples VssExample
begin

text \<open>
  The properties of an incremental backup and of its diagnostics.
\<close>

section \<open>The verification of the map\<close>

text \<open>
  C31: when \<open>RunIncrementalVerification\<close> returns 0, every volume was reached and its bitmaps
  were loaded, and of every volume with a dirty map each byte in which the two snapshots differ
  lies in a block of that map.  This holds for every interleaving of the workers, cancellation and
  failing reads included.
\<close>

theorem incremental_verification_sound:
  assumes "RunIncrementalVerification c load io devices cancel volumes n u (Some (Inr (msgs, 0)))"
    and "\<forall>v \<in> set volumes. report_ok load io rb rp v"
  shows "n = 0 \<and> (\<forall>v \<in> set volumes. \<exists>a. load v = Inr a \<and> volume_covered (rb v) (rp v) a (vp_map v))"
  using assms by (rule RunIncrementalVerification_sound)

theorem incremental_verification_sound_witness:
  "\<exists>msgs. RunIncrementalVerification Arm64 (\<lambda>_. Inr dx_allocation) (\<lambda>_. ({dx_io}, {dx_io})) (\<lambda>_. (dx_streams, dx_streams)) None
     [dx_report] 0 0 (Some (Inr (msgs, 0))) \<and> volume_covered ex_raw ex_raw dx_allocation (Inr dx_map)"
proof -
  obtain msgs where r: "RunIncrementalVerification Arm64 (\<lambda>_. Inr dx_allocation) (\<lambda>_. ({dx_io}, {dx_io}))
      (\<lambda>_. (dx_streams, dx_streams)) None [dx_report] 0 0 (Some (Inr (msgs, 0)))" using dx_verification [of "\<lambda>_. Inr dx_allocation"] by blast
  then show ?thesis using incremental_verification_sound [OF r, of "\<lambda>_. ex_raw" "\<lambda>_. ex_raw"] dx_report_ok
    by (auto simp: dx_report_def)
qed

lemma verification_run_ends:
  assumes a: "allocation_ok sz alloc" and mp: "map_ok mp" and io: "\<forall>b \<in> B. io_exposes rb b" "\<forall>p \<in> P. io_exposes rp p"
    and ne: "B \<noteq> {}" "P \<noteq> {}"
    and reach: "(verify_step c sz alloc mp B P may_cancel)\<^sup>*\<^sup>* (initial_run MapVerificationState_new) run"
  shows "\<nexists>f. f 0 = run \<and> (\<forall>i. verify_step c sz alloc mp B P may_cancel (f i) (f (Suc i)))"
    and "\<nexists>run'. verify_step c sz alloc mp B P may_cancel run run' \<Longrightarrow> run_finished run"
    and "run_finished run \<Longrightarrow> \<not> mv_failed (vr_state run) \<Longrightarrow> \<not> may_cancel \<Longrightarrow> ob_compared_bytes (mv_observation (vr_state run)) = sz"
proof -
  let ?inv = "run_inv sz (snapshot_view rb (va_baseline alloc)) (snapshot_view rp (va_payload alloc))
    (cluster_size (sn_bitmap (va_baseline alloc))) mp"
  have sz: "sz < 9223372036854775808" using a by (simp add: allocation_ok_def)
  have inv: "?inv r" "\<not> may_cancel \<Longrightarrow> run_done sz r"
    if "(verify_step c sz alloc mp B P may_cancel)\<^sup>*\<^sup>* (initial_run MapVerificationState_new) r" for r
    using reachable_inv [OF a mp io that] by blast+
  show "\<nexists>f. f 0 = run \<and> (\<forall>i. verify_step c sz alloc mp B P may_cancel (f i) (f (Suc i)))"
  proof
    assume "\<exists>f. f 0 = run \<and> (\<forall>i. verify_step c sz alloc mp B P may_cancel (f i) (f (Suc i)))"
    then obtain f where f: "f 0 = run" "\<And>i. verify_step c sz alloc mp B P may_cancel (f i) (f (Suc i))" by blast
    have r: "(verify_step c sz alloc mp B P may_cancel)\<^sup>*\<^sup>* (initial_run MapVerificationState_new) (f i)" for i
      using reach f by (induction i) (auto intro: rtranclp.rtrancl_into_rtrancl)
    have "(run_measure (f (Suc i)), run_measure (f i)) \<in> less_than <*lex*> less_than" for i
      by (rule verify_step_decreases [OF f(2) inv(1) [OF r] sz])
    then have "\<exists>g. \<forall>i. (g (Suc i), g i) \<in> less_than <*lex*> less_than" by (intro exI [of _ "\<lambda>i. run_measure (f i)"]) simp
    moreover have "wf (less_than <*lex*> less_than)" by (intro wf_lex_prod wf_less_than)
    ultimately show False unfolding wf_iff_no_infinite_down_chain by (rule notE [rotated])
  qed
  show "run_finished run" if "\<nexists>run'. verify_step c sz alloc mp B P may_cancel run run'"
    using verify_step_progress [OF a mp _ _ _ _ inv(1) [OF reach]] io ne that by blast
  show "ob_compared_bytes (mv_observation (vr_state run)) = sz"
    if "run_finished run" "\<not> mv_failed (vr_state run)" "\<not> may_cancel"
    using finished_compares_all [OF inv(1) [OF reach] inv(2) [OF reach that(3)] that(1,2) sz] .
qed

text \<open>
  C32: the verification of a volume ends under every schedule.  No sequence of steps is infinite,
  a state without a next step is a finished one, and a finished run that neither failed nor
  could be cancelled has compared every byte of the volume.
\<close>

theorem verification_ends:
  assumes "allocation_ok sz alloc" "map_ok mp" "\<forall>b \<in> B. io_exposes rb b" "\<forall>p \<in> P. io_exposes rp p" "B \<noteq> {}" "P \<noteq> {}"
    and "(verify_step c sz alloc mp B P may_cancel)\<^sup>*\<^sup>* (initial_run MapVerificationState_new) run"
  shows "(\<nexists>f. f 0 = run \<and> (\<forall>i. verify_step c sz alloc mp B P may_cancel (f i) (f (Suc i)))) \<and>
    ((\<exists>run'. verify_step c sz alloc mp B P may_cancel run run') \<or> run_finished run) \<and>
    (run_finished run \<longrightarrow> \<not> mv_failed (vr_state run) \<longrightarrow> \<not> may_cancel \<longrightarrow> ob_compared_bytes (mv_observation (vr_state run)) = sz)"
  using verification_run_ends [OF assms] by blast

theorem verification_ends_witness:
  "\<exists>run. run_finished run \<and> \<not> mv_failed (vr_state run) \<and> ob_compared_bytes (mv_observation (vr_state run)) = 1024"
proof -
  obtain run where run: "(dx_step Arm64)\<^sup>*\<^sup>* (initial_run MapVerificationState_new) run" "run_finished run" "\<not> mv_failed (vr_state run)"
    using dx_run by blast
  show ?thesis using verification_ends [OF dx_allocation_ok dx_map_ok _ _ _ _ run(1), of ex_raw ex_raw] dx_io_ok run(2,3) by auto
qed

section \<open>The descriptors of the snapshots\<close>

text \<open>
  C33: the VSS readers return, whatever is on the volume: no chain of catalog blocks or
  descriptor-list blocks makes the walk over it run forever.
\<close>

theorem vss_readers_return:
  "ReadStoreCatalog heap source \<noteq> None \<and> ReadBlockDescriptorIntervalCatalog heap source b p \<noteq> None \<and>
    (case ReadStoreCatalog heap source of
       Some (Inr stores) \<Rightarrow> EnumerateBlockDescriptors heap source' stores consume s \<noteq> None
     | _ \<Rightarrow> True)"
proof -
  obtain r where r: "ReadStoreCatalog heap source = Some r" using ReadStoreCatalog_returns by blast
  have "EnumerateBlockDescriptors heap source' stores consume s \<noteq> None" if "r = Inr stores" for stores
  proof (cases source')
    case (Inr src)
    have "list_all (\<lambda>store. cs_list_offset store < two64) stores"
      using ReadStoreCatalog_ok [OF r [unfolded that]] by (auto simp: list_all_iff store_ok_def)
    from enumerate_stores_returns [OF this, of heap src consume] show ?thesis
      unfolding EnumerateBlockDescriptors_def Inr by (metis option.distinct(1) sum.case(2))
  qed (simp add: EnumerateBlockDescriptors_def)
  then show ?thesis using r by (cases r) (simp_all add: ReadBlockDescriptorIntervalCatalog_def)
qed

text \<open>
  C34: \<open>DescriptorState::Insert\<close> implements the two sets of forward and reverse keys: it
  accepts a record exactly when the abstract sets do, and then it represents the sets they become.
\<close>

theorem descriptor_validation:
  assumes "ds_inv st" "\<forall>n. heap n"
  shows "case DescriptorState_Insert heap st d of
      Inr st' \<Rightarrow> ds_inv st' \<and> ds_volume_size st' = ds_volume_size st \<and> insert_descriptor (ds_volume_size st) (ds_abs st) d = Some (ds_abs st')
    | Inl e \<Rightarrow> (\<exists>m. e = RuntimeError m) \<and> insert_descriptor (ds_volume_size st) (ds_abs st) d = None"
  using assms by (rule DescriptorState_Insert_refines)

theorem descriptor_validation_witness:
  "\<exists>st st'. DescriptorState_new 65536 = Inr st \<and>
     DescriptorState_Insert (\<lambda>_. True) st \<lparr>bd_original_offset = 20000, bd_relative_offset = 49152, bd_store_offset = 0, bd_flags = 1, bd_bitmap = 0\<rparr> =
       Inr st' \<and> ds_abs st' = ({16384}, {49152})"
proof -
  let ?d = "\<lparr>bd_original_offset = 20000, bd_relative_offset = 49152, bd_store_offset = 0, bd_flags = 1, bd_bitmap = 0\<rparr>"
  obtain st where st: "DescriptorState_new 65536 = Inr st" by (simp add: DescriptorState_new_def in_type_def i64_def)
  note new = DescriptorState_new_inv [OF st]
  have "insert_descriptor 65536 ({}, {}) ?d = Some ({16384}, {49152})"
    by (simp add: insert_descriptor_def metadata_block_def Let_def)
  then show ?thesis
    using descriptor_validation [OF new(1), of "\<lambda>_. True" ?d] new st by (auto split: sum.splits)
qed

text \<open>
  C35: the interval between two snapshots is selected exactly when the identifiers name one
  store each, the baseline precedes the payload, creation times are unambiguous and every store of the interval
  has its data and the payload's volume size; it is then the stores from the baseline on, in
  the order of their creation, without the payload.  The order of the catalog does not matter.
\<close>

theorem interval_selection:
  assumes "mset stores = mset stores'"
  shows "select_interval stores' b p = Inr iv \<longleftrightarrow>
     (\<exists>baseline payload. SelectCatalogStore stores b = Inr baseline \<and> SelectCatalogStore stores p = Inr payload \<and>
        cs_creation_time baseline < cs_creation_time payload \<and>
        distinct (map cs_creation_time (filter (in_interval baseline payload) stores)) \<and>
        list_all (usable (cs_volume_size payload)) (filter (in_interval baseline payload) stores) \<and>
        iv = \<lparr>ci_payload = payload, ci_stores = butlast (sort_key cs_creation_time (filter (in_interval baseline payload) stores))\<rparr>)"
  unfolding select_interval_order [OF assms, symmetric] by (rule select_interval_Inr)

theorem interval_selection_witness:
  "select_interval [dx_store 3 30, dx_store 1 10, dx_store 2 20] 1 3 =
     Inr \<lparr>ci_payload = dx_store 3 30, ci_stores = [dx_store 1 10, dx_store 2 20]\<rparr>"
  unfolding interval_selection [of "[dx_store 1 10, dx_store 2 20, dx_store 3 30]" "[dx_store 3 30, dx_store 1 10, dx_store 2 20]", simplified]
  by (simp add: SelectCatalogStore_def dx_store_def in_interval_def usable_def)

section \<open>The files of the backup\<close>

text \<open>
  C36: a bit of the dirty bitmap that \<open>MakeDirtyBitmap\<close> writes is set exactly when the map has a
  block in that chunk, on every instruction set, and the bitmap reaches to the end of the volume.
\<close>

theorem dirty_bitmap_exact:
  assumes "MakeDirtyBitmap heap c m = Inr out" "bs_inv vss_kBlockSize (dm_block_offsets m)" "dm_volume_size m < two64"
  shows "div_up (dm_volume_size m) 4194304 \<le> 8 * length out \<and>
    (\<forall>k < 8 * length out. obit out k \<longleftrightarrow> (\<exists>v \<in> bs_set vss_kBlockSize (dm_block_offsets m). v div 4194304 = k))"
  using MakeDirtyBitmap_spec [OF assms] by blast

theorem dirty_bitmap_exact_witness:
  "\<exists>out. MakeDirtyBitmap (\<lambda>_. True) Arm64 (dx_map\<lparr>dm_volume_size := 12582912\<rparr>) = Inr out \<and> obit out 0 \<and> \<not> obit out 1"
proof -
  obtain out where out: "MakeDirtyBitmap (\<lambda>_. True) Arm64 (dx_map\<lparr>dm_volume_size := 12582912\<rparr>) = Inr out" using dx_bitmap by blast
  have "3 \<le> 8 * length out" "\<forall>k < 8 * length out. obit out k \<longleftrightarrow> k = 0"
    using dirty_bitmap_exact [OF out] dx_blocks_ok by (auto simp: dx_map_def div_up_def)
  moreover from this have "0 < 8 * length out" "1 < 8 * length out" by linarith+
  ultimately have "obit out 0" "\<not> obit out 1" by auto
  then show ?thesis using out by blast
qed

section \<open>The device that is backed up\<close>

text \<open>
  C37: when the verification of the maps returns 0, the synthetic device that is made from a
  verified map is the new snapshot: it has its length, and every read of it that succeeds returns the bytes of the new snapshot
  as a backup sees them, although it takes every block outside the map from the retained one.
\<close>

theorem verified_device_is_snapshot:
  assumes "RunIncrementalVerification c (load_of S) io devices cancel volumes n u (Some (Inr (msgs, 0)))"
    and "\<forall>v \<in> set volumes. snapshots_ok S io rb rp v" "v \<in> set volumes" "vp_map v = Inr m"
    and "snd (synthetic_device S (vp_interval v) m views) = Inr d"
  shows "\<exists>p. FromFilename (vw_nt S) (vw_alloc S) (vw_open S (si_payload_device (vp_interval v))) = Inr p \<and> sy_length d = wb_length p \<and>
    exposes (synthetic.as_device kMapBlockSize d) (wb_content (rp v) p)"
  using assms by (rule verified_device)

theorem verified_device_is_snapshot_witness:
  "\<exists>d. snd (synthetic_device dx_views dx_interval dx_map (no_views 0)) = Inr d \<and> sy_length d = 1024 \<and>
     exposes (synthetic.as_device kMapBlockSize d) (wb_content ex_raw (ex_device\<lparr>wb_bitmap := Some ex_bitmap2\<rparr>))"
proof -
  obtain msgs where r: "RunIncrementalVerification Arm64 (load_of dx_views) (\<lambda>_. ({dx_io}, {dx_io})) (\<lambda>_. (dx_streams, dx_streams)) None
      [dx_report] 0 0 (Some (Inr (msgs, 0)))" using dx_verified_views by blast
  obtain d where d: "snd (synthetic_device dx_views (vp_interval dx_report) dx_map (no_views 0)) = Inr d"
    using dx_device by (auto simp: dx_report_def)
  show ?thesis using verified_device_is_snapshot [OF r _ _ _ d, of "\<lambda>_. ex_raw" "\<lambda>_. ex_raw"] dx_snapshots_ok d
    by (simp add: dx_report_def, simp add: dx_views_def dx_interval_def ex_open_eq)
qed

section \<open>The manifest\<close>

text \<open>
  C38: the manifest that a backup writes is found again.  If the runtime reads the object that
  it wrote and the snapshots still exist, the next run parses the manifest and finds for each
  volume of the backup exactly its snapshot and the snapshot's device.
\<close>

theorem manifest_is_found_again:
  assumes "manifest_system_ok M" "of_volumes vols snapshots"
    and "reads_back M (manifest_object M facts product_version identifier snapshots layer)" "\<forall>g. iid (FormatGuid True g) = Inr g"
    and "\<forall>i p. q i = Some p \<longrightarrow> (\<exists>r. ParseVolumeGuid iid (sp_original_volume p) = Inr r)"
    and "\<forall>s \<in> set snapshots. q (sn_identifier s) =
      Some \<lparr>sp_snapshot_set_identifier = identifier, sp_original_volume = sn_original_volume s, sp_device = sn_device s\<rparr>"
  shows "\<exists>text1 manifest found. SerializeSnapshotManifest M facts product_version identifier snapshots layer = Inr text1 \<and>
    ParseSnapshotManifest M text1 = Inr manifest \<and> QuerySnapshotVolumes iid (map q) manifest = Inr found \<and>
    map_of found = map_of (zip vols (map (\<lambda>s. \<lparr>sv_snapshot_identifier = sn_identifier s, sv_device = sn_device s\<rparr>) snapshots))"
  by (rule backup_is_found [OF assms(1-3)]) (use assms(4-6) in blast)+

theorem manifest_is_found_again_witness:
  "\<exists>text1 manifest found. SerializeSnapshotManifest dx_system dx_facts None 9 dx_snapshots '''' = Inr text1 \<and>
     ParseSnapshotManifest dx_system text1 = Inr manifest \<and> QuerySnapshotVolumes dx_iid (map dx_query) manifest = Inr found \<and>
     map_of found 5 = Some \<lparr>sv_snapshot_identifier = 7, sv_device = ''D7''\<rparr>"
proof -
  obtain text1 manifest found where f: "SerializeSnapshotManifest dx_system dx_facts None 9 dx_snapshots '''' = Inr text1"
    "ParseSnapshotManifest dx_system text1 = Inr manifest" "QuerySnapshotVolumes dx_iid (map dx_query) manifest = Inr found"
    "map_of found = map_of (zip [5, 6] (map (\<lambda>s. \<lparr>sv_snapshot_identifier = sn_identifier s, sv_device = sn_device s\<rparr>) dx_snapshots))"
    using manifest_is_found_again [OF dx_manifest_ok, of dx_iid dx_query] dx_iid_ok dx_query_ok by blast
  have "map_of found 5 = Some \<lparr>sv_snapshot_identifier = 7, sv_device = ''D7''\<rparr>" unfolding f(4) by (simp add: dx_snapshots_def)
  then show ?thesis using f(1-3) by blast
qed

section \<open>The exit code\<close>

text \<open>
  C39: the diagnostics exit with 0, from available baselines, only after a report was made
  for every volume that has both snapshots, at least one, with the map wherever building one succeeded, and,
  if verification was asked for, after a verification of exactly these reports that returned 0 with no volume left out.
\<close>

theorem diagnostics_exit_zero:
  assumes "RunIncrementalDiagnostics C options resolve properties create (msgs0, Inr (Inr baselines)) signaled cancel cancel1 = (msgs, Inr 0)"
  shows "\<exists>payload reports. map vp_interval reports = AssociateSnapshotIntervals baselines payload \<and> reports \<noteq> [] \<and>
    (\<forall>r \<in> set reports. \<forall>m. dc_build C (vp_interval r) = Inr m \<longrightarrow> vp_map r = Inr m) \<and>
    (od_verify options \<longrightarrow> (\<exists>msgs' u. dc_verify C reports 0 u = Inr (msgs', 0)))"
proof -
  obtain payload d msgs' where p: "RunPayloadDiagnostics C options baselines payload cancel = (msgs', Inr d)" "diagnostic_exit_code d = 0"
    using RunIncrementalDiagnostics_zero [OF assms] by blast
  have "AssociateSnapshotIntervals baselines payload \<noteq> []" using p(1) by (auto simp: RunPayloadDiagnostics_def)
  then show ?thesis using RunPayloadDiagnostics_zero [OF p] by (metis list.map(1))
qed

theorem diagnostics_exit_zero_witness:
  "\<exists>payload (reports :: VolumeReport list). map vp_interval reports = AssociateSnapshotIntervals dx_baselines payload \<and> reports \<noteq> [] \<and>
     (\<forall>r \<in> set reports. vp_map r = Inr dx_map)"
proof -
  obtain msgs where r: "RunIncrementalDiagnostics dx_calls dx_options Inr None (\<lambda>_. Inr dx_snapshots) ([], Inr (Inr dx_baselines)) False None None =
      (msgs, Inr 0)" using dx_diagnostics by blast
  obtain payload and reports :: "VolumeReport list" where p: "map vp_interval reports = AssociateSnapshotIntervals dx_baselines payload"
    "reports \<noteq> []" "\<forall>r \<in> set reports. \<forall>m. dc_build dx_calls (vp_interval r) = Inr m \<longrightarrow> vp_map r = Inr m"
    using diagnostics_exit_zero [OF r] by (elim exE conjE)
  then have "\<forall>r \<in> set reports. vp_map r = Inr dx_map" by (simp add: dx_calls_def)
  with p(1,2) show ?thesis by blast
qed

section \<open>The map of the changed blocks\<close>

text \<open>
  C40: a map that \<open>BuildDirtyBlockMap\<close> returns has the size of the new snapshot and contains
  exactly four things: the blocks that the descriptors of the interval name, the blocks of the clusters whose
  allocation changed, and the blocks of System Volume Information in the old and in the new snapshot.
\<close>

theorem dirty_map_exact:
  assumes "BuildDirtyBlockMap heap nt alloc pe b p baseline payload = Some (Inr m)"
    and "sd_volume baseline = Inr v1" "sd_volume payload = Inr v2" "volume_ok raw1 v1" "volume_ok raw2 v2" "maps_errors nt"
  shows "\<exists>iv src dss before after l1 l2.
    ReadBlockDescriptorIntervalCatalog heap (sd_catalog payload) b p = Some (Inr iv) \<and> sd_descriptors payload = Inr src \<and>
    list_all2 (store_records src) (ci_stores iv) dss \<and>
    LoadAllocationBitmap v1 = Inr before \<and> LoadAllocationBitmap v2 = Inr after \<and> cluster_size before = cluster_size after \<and>
    svi_ranges baseline l1 \<and> svi_ranges payload l2 \<and> dm_volume_size m = cs_volume_size (ci_payload iv) \<and>
    bs_set 16384 (dm_block_offsets m) =
      offset_blocks (dm_volume_size m) (\<Union> (descriptor_offsets ` set (concat dss))) \<union>
      changed_blocks 16384 (cluster_size before) (differing_clusters before after) \<union>
      range_blocks 16384 l1 \<union> range_blocks 16384 l2"
  using BuildDirtyBlockMap_spec [OF assms] by blast

theorem dirty_map_exact_witness:
  "\<exists>m. BuildDirtyBlockMap (\<lambda>_. True) ex_nt (\<lambda>_. True) None 1 2 vx_baseline vx_payload = Some (Inr m) \<and>
     bs_set 16384 (dm_block_offsets m) = {0, 16384, 32768, 49152, 98304}"
proof -
  obtain m where m: "BuildDirtyBlockMap (\<lambda>_. True) ex_nt (\<lambda>_. True) None 1 2 vx_baseline vx_payload = Some (Inr m)" using vx_build by blast
  have d: "sd_volume vx_baseline = Inr vx_before" "sd_volume vx_payload = Inr vx_after" "sd_catalog vx_payload = Inr vx_source"
      "sd_descriptors vx_payload = Inr vx_source" by (simp_all add: vx_baseline_def vx_payload_def)
  obtain dss l1 l2 where r: "list_all2 (store_records vx_source) [vx_stores ! 0] dss" "svi_ranges vx_baseline l1" "svi_ranges vx_payload l2"
      "dm_volume_size m = cs_volume_size (vx_stores ! 1)"
      "bs_set 16384 (dm_block_offsets m) = offset_blocks (dm_volume_size m) (\<Union> (descriptor_offsets ` set (concat dss))) \<union>
        changed_blocks 16384 (cluster_size vx_bitmap) (differing_clusters vx_bitmap vx_bitmap2) \<union> range_blocks 16384 l1 \<union> range_blocks 16384 l2"
    using dirty_map_exact [OF m d(1,2) vx_volumes_ok ex_handle_ok(2)] by (auto simp: d vx_interval vx_load)
  have "dss = [[vx_descriptor]]" using r(1) vx_records by (auto simp: list_all2_Cons1)
  moreover have "dm_volume_size m = 131072" "cluster_size vx_bitmap = 65536" using r(4) by (simp_all add: vx_stores_def vx_bitmap_def)
  moreover have "l1 = [(0, 65536)]" "l2 = [(0, 65536)]" using r(2,3) vx_ranges by blast+
  ultimately have "bs_set 16384 (dm_block_offsets m) = {16384, 98304} \<union> {0, 16384, 32768, 49152} \<union> {0, 16384, 32768, 49152} \<union> {0, 16384, 32768, 49152}"
    using r(5) vx_offsets vx_changed vx_range by (simp add: vx_differing)
  then show ?thesis using m by (intro exI [of _ m]) auto
qed

end
