(* ===== verification/Spec2Isabelle.thy ===== *)
theory Spec2Isabelle
  imports KnownData CountDiffering SyntheticDevice SviExtents Examples VerifierClaims IncrementalClaims
begin

text \<open>
  Verification of devicefs: a Windows filesystem that exposes volume snapshots as
  read-only image files, and the supervisor that backs them up incrementally and
  verifies the result.  Paths below are relative to \<open>src/src/modules\<close>.

  \<^bold>\<open>The parts and how they interact.\<close>
  The devicefs process (\<open>filesystem.ixx\<close>) reads its command line, opens every
  source as a block device and serves reads of it.  A volume
  (\<open>windows_block_device.ixx\<close>) is read in aligned requests and presents zeros in the
  clusters that its allocation bitmap marks free; a known-data map tells which chunks
  hold allocated clusters.  A backup leaves a manifest (\<open>supervisor/native_backup/manifest.cpp\<close>) in which the next
  one finds the retained snapshots.  For an incremental backup the supervisor then builds a
  map of the blocks that may differ between the retained and the new snapshot (\<open>incremental.cpp\<close>): from
  VSS descriptors (\<open>vss_block_descriptors.ixx\<close>), from the changes of the allocation bitmaps
  (\<open>filesystem_allocation_changes.cpp\<close>) and from the extents of System Volume Information
  (\<open>svi_extents.ixx\<close>), kept in a set of block offsets (\<open>bitmap_set.ixx\<close>), and hands its
  bitmap to the backup client (\<open>production_incremental.cpp\<close>).  A synthetic device
  (\<open>synthetic_backup_block_device.ixx\<close>) combines the two snapshots by that map.  The diagnostics
  (\<open>supervisor/native_backup/incremental_diagnostics.cpp\<close>) compare the snapshots block by
  block with the map in concurrent workers, name the owners of the clusters outside it, and the filesystem verifier (\<open>filesystem_verifier_impl.cpp\<close>) attaches the
  synthetic and the real image, inventories both filesystems with concurrent workers and compares their contents.

  \<^bold>\<open>Conventions.\<close>
  Structs are records, enumerations datatypes.  Unsigned 64-bit arithmetic is natural
  numbers with \<open>add64\<close>, \<open>sub64\<close> and \<open>mul64\<close>, which wrap around; bitmap words, GUIDs and vector lanes
  are machine words.  A function that may throw returns \<open>error + 'a\<close>; a loop whose
  termination is a theorem is a \<open>partial_function\<close>.  What the operating system answers is
  an argument: a record of replies, or a function from requests to replies, and the hypotheses of the theorems say what is relied on.
  Concurrent code is an inductive step relation whose steps are the locked sections of the source, so a theorem
  about its reachable states holds for every schedule.  The polls of the cancellation event
  are counted (\<open>CancelEvent\<close>), so cancellation may happen at any poll.  Exceptions carry a short form of their
  message, and what is written to the console is a format string with its arguments (\<open>OutputText\<close>).

  \<^bold>\<open>The theories.\<close>
  \<^item> \<open>Prelude\<close>: 64-bit arithmetic, errors, bytes and words, images; \<open>CountZeros\<close>.
  \<^item> \<open>SafeCast\<close> (\<open>terminal/safecast.ixx\<close>): the checked conversions.
  \<^item> \<open>ReallocVec\<close>, \<open>BitmapSets\<close>, \<open>OffsetSets\<close> (\<open>bitmap_set.ixx\<close>): the growing buffer, the set of block offsets,
    and the locale \<open>offset_set\<close> that its users rely on, with both set classes as interpretations.
  \<^item> \<open>AllocBitmap\<close>, \<open>BlockDevice\<close>, \<open>VolumeSetup\<close>, \<open>KnownData\<close> (\<open>windows_block_device.ixx\<close>, \<open>filesystem/ioctl.ixx\<close>): the searches in the
    allocation bitmap, reading a volume, opening one, the known-data map.  The locale \<open>block_device\<close> is the contract of a device; the volume, the
    ordinary file and the in-memory device are interpretations.
  \<^item> \<open>VectorReduction\<close>, \<open>SveReduction\<close>, \<open>ReduceBitmaps\<close>, \<open>CountDiffering\<close> (\<open>byte_comparison.ixx\<close>, \<open>byte_comparison_sve.cpp\<close>): the vector code, lane by
    lane, for registers of fixed width and for the scalable ones of ARM64, and the choice between them, equal to its specification on every processor.
  \<^item> \<open>SyntheticDevice\<close>, \<open>AllocChanges\<close>, \<open>SviExtents\<close>: the synthetic device and two of the sources of the map.
  \<^item> \<open>VerifierState\<close>, \<open>Traversal\<close>, \<open>PlanBuilder\<close>, \<open>PlanCoverage\<close>, \<open>Comparison\<close>, \<open>ComparisonProofs\<close>, \<open>ViewComparison\<close>, \<open>VerifierReport\<close>
    (\<open>filesystem_verifier_impl.cpp\<close>): the shared state and its counters, the concurrent
    traversal, the merge of the inventories into a plan, the concurrent comparison, the comparison from start to end, reports and entry points.
    The locale \<open>recorder\<close> states what planning and comparing may do to the state; its interpretations carry the invariants through whole runs.
  \<^item> \<open>GuidText\<close>, \<open>CommandLine\<close>, \<open>DeviceFsProcess\<close> (\<open>guid_formatter.ixx\<close>, \<open>internal.cpp\<close>, \<open>filesystem.ixx\<close>, \<open>devicefs_process.cpp\<close>): names, the
    command line on both of its sides, and the life of the process.
  \<^item> \<open>VssDescriptors\<close>, \<open>VssProofs\<close> (\<open>vss_block_descriptors.ixx\<close>): the reader of the VSS metadata, from sectors to intervals and
    descriptors.  The locale \<open>metadata_chain\<close> is the contract of a walk over linked blocks that visits none twice; the
    catalog and the descriptor list are its interpretations.
  \<^item> \<open>DirtyMap\<close> (\<open>incremental.cpp\<close>, \<open>production_incremental.cpp\<close>): the map as the union of its sources, and its files.
  \<^item> \<open>MapVerification\<close>, \<open>MapVerificationProofs\<close>, \<open>MapVerificationRuns\<close>, \<open>ClusterOwnership\<close>, \<open>MapReports\<close>, \<open>IncrementalDiagnostics\<close>, \<open>DiagnosticProofs\<close>
    (\<open>incremental_diagnostics.cpp\<close>): comparing one block, one chunk and one range, the workers of one volume under every
    schedule, the owners of clusters, jobs and reports, and the diagnostics from the baselines to the exit code.
  \<^item> \<open>Manifest\<close> (\<open>manifest.cpp\<close>): writing and reading the manifest.
  \<^item> \<open>Examples\<close>, \<open>VerifierExamples\<close>, \<open>IncrementalExamples\<close>, \<open>VssExample\<close>: concrete devices, views and runs; \<open>VerifierClaims\<close>, \<open>IncrementalClaims\<close>
    and this theory: the properties.

  \<^bold>\<open>What is shown.\<close>
  C1 to C3: a read returns the view of the volume, asks the system only aligned requests, and
  succeeds when the system does.  C4: a synthetic device with a complete map is the new snapshot.  C5 to C16: the bitmaps, the vector code, the sets and the
  conversions they rest on.  C17 to C27: a verification that finds nothing has compared equal views, for every schedule, if the
  names linked to one file are all or none under System Volume Information (otherwise the code can miss a difference);
  its counters, its exit status and its reports are exact; its traversal ends and misses nothing.  C28 to C30: the program reads back the identifiers it writes, and the life of the process.
  C31 and C32: a verification of the map that returns 0 has compared every byte of every volume and found all differences
  inside the map, for every schedule, and it ends.  C33 to C36: the VSS readers return, their checks are
  those of the abstract sets, the interval is the right one, and the bitmap is that of the map.  C37 joins the two halves: the device made from a
  verified map is the new snapshot.  C38: the next run finds the snapshots of this one.  C39: what exit code 0 of the diagnostics means.  C40: the map is the union of its sources and nothing else.

  \<^bold>\<open>Bounds and fuel.\<close>
  No definition has fuel.  Optional recursions are shown to return (C3, C4, C6, C33).  Waiting
  loops take the list of what each round observes; C30 shows that a list that reaches the deadline is long enough.

  \<^bold>\<open>Not modelled.\<close>
  The WinFsp callbacks, VSS itself (\<open>vshadow.ixx\<close>), the Proxmox client, RPC transport, accounts and privileges, and
  the terminal are left out: they are glue around system services, or separate programs.  JSON, GUID parsing and the conversion of text belong to the Windows
  Runtime and are parameters of the manifest.  The project's manifest lists every part with its reason.
\<close>

section \<open>The exposed volumes\<close>

text \<open>
  C1: a read of a volume through \<open>WindowsBlockDevice::Read\<close> returns, and when it
  reports success the caller has received exactly the bytes it asked for: the
  source's byte in every allocated cluster and zero in every free one.
\<close>

theorem windows_read_view:
  assumes "wb_inv raw d" "0 < w" "w < 4294967296" "off + w \<le> wb_length d"
  shows "\<exists>st bs. WindowsBlockDevice_Read d off w = Some (st, bs) \<and>
           (NT_SUCCESS st \<longrightarrow> bs = image_bytes (wb_content raw d) off w)"
  using assms by (rule WindowsBlockDevice_Read_spec)

theorem windows_read_view_witness:
  "WindowsBlockDevice_Read ex_device 510 4 = Some (STATUS_SUCCESS, [254, 255, 0, 0])"
proof -
  have "\<exists>st bs. WindowsBlockDevice_Read ex_device 510 4 = Some (st, bs) \<and>
      (NT_SUCCESS st \<longrightarrow> bs = image_bytes (wb_content ex_raw ex_device) 510 4)"
    using ex_device_inv by (intro windows_read_view) simp_all
  then show ?thesis using ex_device_completes ex_content by (auto simp: NT_SUCCESS_def)
qed

text \<open>
  C2: every request \<open>Read\<close> makes of the file handle starts and ends on a sector
  boundary and lies inside the device: a handle that behaves differently only on
  other requests gives the same result.
\<close>

theorem windows_read_aligned:
  assumes "wb_inv raw d" "0 < w" "w < 4294967296" "off + w \<le> wb_length d"
    and "\<And>p n. p mod wb_sector_size d = 0 \<Longrightarrow> n mod wb_sector_size d = 0 \<Longrightarrow> 0 < n \<Longrightarrow>
      p + n \<le> wb_length d \<Longrightarrow> ReadFile h p n = ReadFile (wb_handle d) p n \<and>
      GetOverlappedResult h p n = GetOverlappedResult (wb_handle d) p n"
  shows "WindowsBlockDevice_Read (d\<lparr>wb_handle := h\<rparr>) off w = WindowsBlockDevice_Read d off w"
  using assms by (rule Read_aligned_requests)

theorem windows_read_aligned_witness:
  "WindowsBlockDevice_Read (ex_device\<lparr>wb_handle := ex_picky_handle\<rparr>) 510 4 =
     Some (STATUS_SUCCESS, image_bytes (wb_content ex_raw ex_device) 510 4)"
proof -
  have "WindowsBlockDevice_Read (ex_device\<lparr>wb_handle := ex_picky_handle\<rparr>) 510 4 =
      WindowsBlockDevice_Read ex_device 510 4"
    using ex_device_inv by (intro windows_read_aligned) (simp_all add: ex_picky_handle_def ex_handle_def)
  then show ?thesis using ex_device_completes by simp
qed

text \<open>
  C3: when the operating system completes the aligned request and the bounce
  buffer can be allocated, \<open>Read\<close> succeeds with all bytes.
\<close>

theorem windows_read_completes:
  assumes "wb_inv raw d" "0 < w" "w < 4294967296" "off + w \<le> wb_length d"
    and "ro = aligned_start (wb_sector_size d) off"
    and "rl = aligned_end (wb_sector_size d) (off + w) - ro"
    and "handle_reads (wb_handle d) ro rl" "rl < 4294967296" "rl \<le> 5242880 \<or> wb_alloc d rl"
  shows "WindowsBlockDevice_Read d off w = Some (STATUS_SUCCESS, image_bytes (wb_content raw d) off w)"
  using Read_completes [OF assms(1-4)] assms(5-9) by simp

theorem windows_read_completes_witness:
  "WindowsBlockDevice_Read ex_device 0 1024 =
     Some (STATUS_SUCCESS, image_bytes (wb_content ex_raw ex_device) 0 1024)"
proof (rule windows_read_completes [where ro = 0 and rl = 1024])
  show "wb_inv ex_raw ex_device" by (rule ex_device_inv)
qed (use ex_handle_ok in \<open>simp_all add: aligned_start_def aligned_end_def div_up_def\<close>)

text \<open>
  C4: a synthetic backup device whose bitmap marks every block in which the
  retained and the new snapshot differ is the new snapshot: all its successful
  reads return the payload's bytes.
\<close>

theorem synthetic_is_payload:
  assumes "sy_inv B cb cp d" "covers B (sy_bitmap d) (sy_length d) cb cp"
  shows "exposes \<lparr>dev_length = sy_length d, dev_read = SyntheticBackupBlockDevice_Read B d\<rparr> cp"
  using covered_is_payload [OF assms] by (simp add: synthetic.as_device_def)

theorem synthetic_is_payload_witness:
  "exposes \<lparr>dev_length = 8, dev_read = SyntheticBackupBlockDevice_Read 4 ex_synthetic\<rparr>
     (\<lambda>x. mem_contents ex_payload ! x)"
proof -
  have len: "sy_length ex_synthetic = 8" by (simp add: ex_synthetic_def)
  have "exposes (memory.as_device ex_baseline) (\<lambda>x. mem_contents ex_baseline ! x)"
    "exposes (memory.as_device ex_payload) (\<lambda>x. mem_contents ex_payload ! x)"
    by (intro memory.exposes_content; simp add: ex_baseline_def ex_payload_def)+
  then have "sy_inv 4 (\<lambda>x. mem_contents ex_baseline ! x) (\<lambda>x. mem_contents ex_payload ! x) ex_synthetic"
    by (simp add: sy_inv_def ex_synthetic_def) (simp add: ex_baseline_def ex_payload_def)
  moreover have "covers 4 (sy_bitmap ex_synthetic) (sy_length ex_synthetic) (\<lambda>x. mem_contents ex_baseline ! x)
      (\<lambda>x. mem_contents ex_payload ! x)"
  proof -
    have "x < 8 \<Longrightarrow> x \<in> {0, 1, 2, 3} \<or> x div 4 = 1" for x :: nat by auto
    then show ?thesis
      unfolding covers_def ex_synthetic_def block_bit_def ex_baseline_def ex_payload_def
      by (fastforce simp: nth_Cons')
  qed
  ultimately show ?thesis using synthetic_is_payload [of 4 _ _ ex_synthetic] unfolding len by blast
qed

text \<open>
  C5: \<open>MakeKnownDataMap\<close> has a bit for every chunk, and the bit of a chunk is
  clear exactly when every byte of the chunk is in a free cluster, on the vector
  path and on the generic one.
\<close>

theorem known_data_map:
  assumes "ab_inv b" "0 < cs" "len < two64" "cluster_count b * cluster_size b \<le> len"
    and "MakeKnownDataMap heap c b len cs = Inr out" "k < div_up len cs"
  shows "k < 8 * length out \<and> (bit (out ! (k div 8)) (k mod 8) \<longleftrightarrow>
           (\<exists>x. k * cs \<le> x \<and> x < (k + 1) * cs \<and> x < len \<and> \<not> free_byte b x))"
proof -
  note spec = MakeKnownDataMap_spec [OF assms(1-5)]
  have "div_up len cs \<le> 8 * length out"
    using spec(1) div_up_bound [of 8 "div_up len cs"] by linarith
  then show ?thesis using spec(2) [OF assms(6)] assms(6) by (auto simp: obit_def chunk_free_def)
qed

theorem known_data_map_witness:
  "\<exists>out. MakeKnownDataMap (\<lambda>_. True) Arm64 ex_bitmap 1024 512 = Inr out \<and> bit (out ! 0) 0 \<and> \<not> bit (out ! 0) 1"
proof -
  obtain out where out: "MakeKnownDataMap (\<lambda>_. True) Arm64 ex_bitmap 1024 512 = Inr out"
    using ex_known_data by blast
  have "\<not> free_byte ex_bitmap 0" "\<And>x. 512 \<le> x \<Longrightarrow> x < 1024 \<Longrightarrow> free_byte ex_bitmap x"
  proof -
    show "free_byte ex_bitmap x" if "512 \<le> x" "x < 1024" for x
    proof -
      have "x div 512 = Suc 0" using that by linarith
      then show ?thesis using ex_allocated by (simp add: free_byte_def)
    qed
  qed (use ex_allocated in \<open>simp add: free_byte_def\<close>)
  then show ?thesis
    using known_data_map [OF ex_bitmap_inv _ _ _ out, of 0] known_data_map [OF ex_bitmap_inv _ _ _ out, of 1] out
    by (auto simp: div_up_def)
qed

text \<open>
  C6: \<open>SynthesizeFreeClusters\<close> terminates and zeroes exactly the bytes of the
  buffer that lie in free clusters.
\<close>

theorem synthesize_free_clusters:
  assumes "ab_inv b" "outp \<noteq> []" "offset + length outp < two64"
  shows "\<exists>outp'. SynthesizeFreeClusters b outp offset = Some outp' \<and> length outp' = length outp \<and>
    (\<forall>i. i < length outp \<longrightarrow> outp' ! i = (if free_byte b (offset + i) then 0 else outp ! i))"
  using SynthesizeFreeClusters_spec [OF assms] by blast

theorem synthesize_free_clusters_witness:
  "\<exists>outp. SynthesizeFreeClusters ex_bitmap [7, 7] 511 = Some outp \<and> outp ! 0 = 7 \<and> outp ! 1 = 0"
proof -
  have "\<not> free_byte ex_bitmap 511" "free_byte ex_bitmap 512" using ex_allocated by (simp_all add: free_byte_def)
  then show ?thesis using synthesize_free_clusters [OF ex_bitmap_inv, of "[7, 7]" 511] by auto
qed

text \<open>
  C7: \<open>FindNextCluster\<close>, which scans the bitmap in 64-bit words from an unaligned
  start to an unaligned limit, returns the first cluster of the wanted state, or
  the limit when there is none.
\<close>

theorem find_next_cluster:
  assumes "ab_inv b" "first \<le> limit" "limit \<le> cluster_count b" "r = FindNextCluster a b first limit"
  shows "first \<le> r \<and> r \<le> limit \<and> (\<forall>c. first \<le> c \<longrightarrow> c < r \<longrightarrow> cluster_allocated b c \<noteq> a) \<and>
    (r < limit \<longrightarrow> cluster_allocated b r = a)"
  using FindNextCluster_spec [OF assms(1-3), of a] unfolding assms(4) is_first_def by blast

theorem find_next_cluster_witness:
  "FindNextCluster True ex_bitmap 0 2 = 0 \<and> FindNextCluster False ex_bitmap 0 2 = 1"
proof -
  note first = find_next_cluster [OF ex_bitmap_inv _ _ refl, of 0 2 True, simplified]
    and free = find_next_cluster [OF ex_bitmap_inv _ _ refl, of 0 2 False, simplified]
  have "FindNextCluster True ex_bitmap 0 2 = 0" using first ex_allocated(1) by (metis gr0I)
  moreover have "FindNextCluster False ex_bitmap 0 2 \<noteq> 0" using free ex_allocated(1) by (metis zero_less_numeral)
  moreover have "FindNextCluster False ex_bitmap 0 2 \<le> 1" using free ex_allocated(2) by (metis One_nat_def le0 not_le)
  ultimately show ?thesis by linarith
qed

text \<open>
  C8: \<open>MarkClustersFree\<close> keeps the bitmap well formed and frees exactly the
  clusters of the given range.
\<close>

theorem mark_clusters_free:
  assumes "ab_inv b" "first < limit" "limit \<le> cluster_count b"
  shows "ab_inv (MarkClustersFree b first limit) \<and>
    (cluster_allocated (MarkClustersFree b first limit) c \<longleftrightarrow>
       cluster_allocated b c \<and> \<not> (first \<le> c \<and> c < limit))"
  using MarkClustersFree_spec(1,2) [OF assms] by blast

theorem mark_clusters_free_witness:
  "\<not> cluster_allocated (MarkClustersFree ex_bitmap 0 1) 0 \<and> cluster_allocated (MarkClustersFree ex_bitmap 1 2) 0"
  using mark_clusters_free [OF ex_bitmap_inv, of 0 1 0] mark_clusters_free [OF ex_bitmap_inv, of 1 2 0] ex_allocated(1)
  by simp

text \<open>
  C9: the reduction of an allocation bitmap to a coarser resolution does not
  depend on the instruction set the processor offers (SSE2, AVX2, AVX-512, NEON, or scalable vectors of
  any length), and has a set bit exactly where the region of the input has a set bit.
\<close>

theorem reduce_bitmap_any_cpu:
  assumes "resolution_ok original new"
    and "ReduceBitmap heap c original new input minimum = Inr out"
    and "ReduceBitmap heap' c' original new input minimum = Inr out'"
  shows "out = out' \<and> (\<forall>k. k < 8 * length out \<longrightarrow>
    (bit (out ! (k div 8)) (k mod 8) \<longleftrightarrow> region_nz (new div original div 8) input k))"
proof -
  note spec = ReduceBitmap_spec [OF assms(1,2)] ReduceBitmap_spec [OF assms(1,3)]
  have "bit (out ! i) j = bit (out' ! i) j" if "i < length out" "j < 8" for i j
    using spec(2) [of "8 * i + j"] spec(4) [of "8 * i + j"] spec(1,3) that by (simp add: obit_def)
  then have "out = out'"
    using spec(1,3) by (intro nth_equalityI) (auto simp: bit_word_eqI intro!: bit_word_eqI)
  then show ?thesis using spec(2) by (auto simp: obit_def)
qed

text \<open>The processor with vectors of 32 bytes takes the code for scalable vectors; the others are NEON and AVX-512.\<close>

theorem reduce_bitmap_any_cpu_witness:
  "ReduceBitmapUsingSve 128 32 [1, 0] [0] \<noteq> None \<and>
   ReduceBitmap (\<lambda>_. True) (Arm64Sve 32) 4096 4194304 [1, 0] 1 = ReduceBitmap (\<lambda>_. True) Arm64 4096 4194304 [1, 0] 1 \<and>
   ReduceBitmap (\<lambda>_. True) Arm64 4096 4194304 [1, 0] 1 = ReduceBitmap (\<lambda>_. True) (X64 True True) 4096 4194304 [1, 0] 1"
proof -
  obtain out0 out1 out2 where "ReduceBitmap (\<lambda>_. True) (Arm64Sve 32) 4096 4194304 [1, 0] 1 = Inr out0"
    "ReduceBitmap (\<lambda>_. True) Arm64 4096 4194304 [1, 0] 1 = Inr out1"
    "ReduceBitmap (\<lambda>_. True) (X64 True True) 4096 4194304 [1, 0] 1 = Inr out2"
    using ex_reduce by meson
  moreover have "ReduceBitmapUsingSve 128 32 [1, 0] [0] \<noteq> None" by (simp add: ReduceBitmapUsingSve_def upt_rec)
  ultimately show ?thesis using reduce_bitmap_any_cpu [of 4096 4194304] by (simp add: resolution_ok_def)
qed

text \<open>
  C10: \<open>CountDifferingBytes\<close> counts the positions at which two buffers differ, on
  every processor and with no overflow of the vector accumulators.
\<close>

theorem count_differing_bytes:
  assumes "n \<le> length l" "n \<le> length r" "n < two64"
  shows "unat (CountDifferingBytes c l r n) = card {i. i < n \<and> l ! i \<noteq> r ! i}"
proof -
  have set: "{i. i < n \<and> l ! i \<noteq> r ! i} = set (filter (\<lambda>i. l ! i \<noteq> r ! i) [0..<n])" by auto
  have "distinct (filter (\<lambda>i. l ! i \<noteq> r ! i) [0..<n])" by simp
  then show ?thesis
    using CountDifferingBytes_spec [OF assms, of c] unfolding set differing_def by (simp only: distinct_card)
qed

theorem count_differing_bytes_witness:
  "unat (CountDifferingBytes (X64 False True) [1, 2, 3] [1, 0, 4] 3) = 2"
proof -
  have "{i. i < 3 \<and> [1, 2, 3 :: byte] ! i \<noteq> [1, 0, 4] ! i} = {1, 2}"
    by (auto simp: nth_Cons' less_Suc_eq numeral_eq_Suc)
  then show ?thesis using count_differing_bytes [of 3 "[1, 2, 3]" "[1, 0, 4]"] by simp
qed

text \<open>
  C11: the blocks \<open>ReadAllocationChangeBlocks\<close> reports are exactly the blocks that
  contain a byte of a cluster whose allocation differs between the two snapshots.
\<close>

theorem allocation_changes:
  assumes "ReadAllocationChangeBlocks heap B nt alloc (Inr v1) (Inr v2) = Inr r"
    and "volume_ok raw1 v1" "volume_ok raw2 v2" "maps_errors nt" "2 \<le> B" "B \<le> 4294967296"
  shows "\<exists>p c. LoadAllocationBitmap v1 = Inr p \<and> LoadAllocationBitmap v2 = Inr c \<and>
    bs_set B (ac_block_offsets r) = changed_blocks B (cluster_size p) (differing_clusters p c)"
  using ReadAllocationChangeBlocks_spec [OF assms] by blast

theorem allocation_changes_witness:
  "\<exists>r. ReadAllocationChangeBlocks (\<lambda>_. True) 16384 ex_nt (\<lambda>_. True) (Inr ex_volume) (Inr ex_volume2) = Inr r \<and>
     bs_set 16384 (ac_block_offsets r) = changed_blocks 16384 512 {0}"
proof -
  obtain r where r: "ReadAllocationChangeBlocks (\<lambda>_. True) 16384 ex_nt (\<lambda>_. True) (Inr ex_volume) (Inr ex_volume2) = Inr r"
    using ex_allocation_changes by blast
  show ?thesis
    using allocation_changes [OF r ex_volume_ok ex_volume2_ok ex_handle_ok(2)] r by (auto simp: ex_load ex_differing)
qed

section \<open>The containers\<close>

text \<open>
  C12: \<open>BitmapSet::insert_range\<close> adds exactly the block offsets of the range and
  keeps the set well formed, its element count included.
\<close>

theorem bitmap_insert_range:
  assumes "bs_inv B s" "b < two64" "BitmapSet_insert_range heap B s a b = Inr s'"
  shows "bs_inv B s' \<and> bs_set B s' = bs_set B s \<union> {v. a \<le> v \<and> v < b \<and> v mod B = 0} \<and>
    bm_size s' = card (bs_set B s')"
  using bitmap.range_inv [OF assms] bitmap.range_abs [OF assms] bs_size_card [of B s'] by blast

theorem bitmap_insert_range_witness:
  "\<exists>s. BitmapSet_insert_range (\<lambda>_. True) 16384 (BitmapSet_new 16384 65536) 16384 49152 = Inr s \<and>
     bs_set 16384 s = {v. 16384 \<le> v \<and> v < 49152 \<and> v mod 16384 = 0}"
proof -
  obtain s where s: "BitmapSet_insert_range (\<lambda>_. True) 16384 (BitmapSet_new 16384 65536) 16384 49152 = Inr s"
    using ex_insert_range by blast
  show ?thesis using bitmap_insert_range [OF _ _ s] s bs_inv_new by simp
qed

text \<open>
  C13: \<open>BitmapSet::merge\<close> moves into the destination the elements it does not have
  and leaves in the source those it has.
\<close>

theorem bitmap_merge:
  assumes "bs_inv B d" "bs_inv B s" "BitmapSet_merge heap False d s = Inr (d', s')"
  shows "bs_inv B d' \<and> bs_inv B s' \<and> bs_set B d' = bs_set B d \<union> bs_set B s \<and>
    bs_set B s' = bs_set B s \<inter> bs_set B d"
  using BitmapSet_merge_spec [OF assms] by blast

theorem bitmap_merge_witness:
  "\<exists>s d s'. BitmapSet_insert_range (\<lambda>_. True) 16384 (BitmapSet_new 16384 65536) 16384 49152 = Inr s \<and>
     BitmapSet_merge (\<lambda>_. True) False s s = Inr (d, s') \<and> bs_set 16384 s' = bs_set 16384 s"
proof -
  obtain s where s: "BitmapSet_insert_range (\<lambda>_. True) 16384 (BitmapSet_new 16384 65536) 16384 49152 = Inr s"
    using ex_insert_range by blast
  obtain d s' where m: "BitmapSet_merge (\<lambda>_. True) False s s = Inr (d, s')"
    by (cases "BitmapSet_merge (\<lambda>_. True) False s s")
      (auto simp: BitmapSet_merge_def Let_def split: prod.splits if_splits)
  have "bs_inv 16384 s" using BitmapSet_insert_range_spec(1) [OF _ _ s] bs_inv_new by simp
  then show ?thesis using bitmap_merge [OF _ _ m, of 16384] s m by blast
qed

text \<open>
  C14: \<open>ReallocVector::resize\<close> keeps the vector well formed, sets its size, keeps
  the elements below the new size and zeroes every element it adds.
\<close>

theorem realloc_resize:
  assumes "rv_inv v" "ReallocVector_resize heap v n = Inr v'"
  shows "rv_inv v' \<and> rv_size v' = n \<and>
    (\<forall>i. i < n \<longrightarrow> ReallocVector_get v' i = (if i < rv_size v then ReallocVector_get v i else 0))"
  using resize_spec [OF assms] by blast

theorem realloc_resize_witness:
  "\<exists>v. ReallocVector_resize (\<lambda>_. True) (ReallocVector_new 1 (two64 - 1)) 1 = Inr v \<and>
     ReallocVector_get v 0 = (0 :: byte)"
proof -
  obtain v :: "byte ReallocVector" where v: "ReallocVector_resize (\<lambda>_. True) (ReallocVector_new 1 (two64 - 1)) 1 = Inr v"
    using ex_resize by blast
  have "rv_size (ReallocVector_new 1 (two64 - 1) :: byte ReallocVector) = 0" by (simp add: ReallocVector_new_def)
  then show ?thesis using realloc_resize [OF _ v] v by auto
qed

text \<open>
  C15: a volume that \<open>WindowsBlockDevice::FromHandle\<close> opens satisfies the
  precondition of \<open>Read\<close>, carries the bitmap the volume reported exactly when
  free clusters are to be synthesized, and has a length in whole allocation units.
\<close>

theorem open_volume:
  assumes "WindowsBlockDevice_FromHandle hb nt alloc v ext cache = Inr d" "volume_ok raw v" "maps_errors nt"
  shows "wb_inv raw d \<and> (hb \<longleftrightarrow> wb_bitmap d \<noteq> None) \<and> wb_length d mod 512 = 0 \<and>
    (\<forall>b. wb_bitmap d = Some b \<longrightarrow> LoadAllocationBitmap v = Inr b)"
  using FromHandle_inv [OF assms] by blast

theorem open_volume_witness:
  "\<exists>d. WindowsBlockDevice_FromHandle True ex_nt (\<lambda>_. True) ex_volume False False = Inr d \<and> wb_inv ex_raw d"
proof -
  obtain d where d: "WindowsBlockDevice_FromHandle True ex_nt (\<lambda>_. True) ex_volume False False = Inr d"
    using ex_open by blast
  show ?thesis using open_volume [OF d ex_volume_ok ex_handle_ok(2)] d by blast
qed

text \<open>
  C16: \<open>FailFastMaybeCast\<close> between two integer types never changes a value: it
  keeps one that the target type has and stops the process on any other.
\<close>

theorem fail_fast_cast:
  assumes "cpp_int t" "cpp_int s" "in_type s v"
  shows "FailFastMaybeCast t s v = (if in_type t v then Inr v else Inl FastFail)"
  using assms by (rule FailFastMaybeCast_safe)

theorem fail_fast_cast_witness: "FailFastMaybeCast u32 u64 4294967296 = Inl FastFail"
  using fail_fast_cast [OF cpp_int_types(1,2), of 4294967296] by (simp add: in_type_def u32_def u64_def)

end
